(* ===== verification/Prelude.thy ===== *)
theory Prelude
  imports Main "HOL-Library.Word"
begin

text \<open>
  What the components share: the faults C code can run into, made values of a sum type with a
  bind; C arrays of characters read as NUL-terminated strings; numbers printed in a base; bit
  strings read most significant bit first; and the C conversion that truncates towards zero.
\<close>

named_theorems res_simps \<open>equations of the fault type\<close>

subsection \<open>Faults\<close>

text \<open>
  \<open>NullDeref\<close>: a null pointer is dereferenced; \<open>OutOfBounds\<close>: an access outside an array;
  \<open>Uninit\<close>: memory is read before it is written; \<open>Bug s\<close> and \<open>Die s\<close>: vsftpd's own
  \<open>bug()\<close> and \<open>die()\<close>, which end the process; \<open>Exit n\<close>: \<open>exit(n)\<close>;
  \<open>Diverges\<close>: a recursion that does not end.
\<close>

datatype fault = NullDeref | OutOfBounds | Uninit | Bug string | Die string | Exit int | Diverges
  | InAnalysis fault

type_synonym 'a res = "fault + 'a"

definition bind_res :: "'a res \<Rightarrow> ('a \<Rightarrow> 'b res) \<Rightarrow> 'b res" where
  "bind_res m f = (case m of Inl e \<Rightarrow> Inl e | Inr x \<Rightarrow> f x)"

lemma bind_res_Inl [simp, res_simps]: "bind_res (Inl e) f = Inl e"
  by (simp add: bind_res_def)

lemma bind_res_Inr [simp, res_simps]: "bind_res (Inr x) f = f x"
  by (simp add: bind_res_def)

lemma bind_res_eq_Inr [simp, res_simps]:
  "bind_res m f = Inr y \<longleftrightarrow> (\<exists>x. m = Inr x \<and> f x = Inr y)"
  by (cases m) (auto simp: bind_res_def)

lemma bind_res_eq_Inl [simp, res_simps]:
  "bind_res m f = Inl e \<longleftrightarrow> m = Inl e \<or> (\<exists>x. m = Inr x \<and> f x = Inl e)"
  by (cases m) (auto simp: bind_res_def)

lemma bind_res_cong [fundef_cong]:
  "m = m' \<Longrightarrow> (\<And>x. m' = Inr x \<Longrightarrow> f x = f' x) \<Longrightarrow> bind_res m f = bind_res m' f'"
  by (cases m') (auto simp: bind_res_def)

subsection \<open>Outcomes\<close>

text \<open>
  \<open>holds m E Q\<close>: a fault of \<open>m\<close> satisfies \<open>E\<close>, and a value satisfies \<open>Q\<close>. The rules follow the
  structure of the code, so that a proof about a function is a chain of the lemmas of its callees.
\<close>

definition holds :: "'a res \<Rightarrow> (fault \<Rightarrow> bool) \<Rightarrow> ('a \<Rightarrow> bool) \<Rightarrow> bool" where
  "holds m E Q = (case m of Inl e \<Rightarrow> E e | Inr r \<Rightarrow> Q r)"

lemma holds_Inl [simp, res_simps]: "holds (Inl e) E Q \<longleftrightarrow> E e"
  by (simp add: holds_def)

lemma holds_Inr [simp, res_simps]: "holds (Inr r) E Q \<longleftrightarrow> Q r"
  by (simp add: holds_def)

lemma holds_bind: "holds (bind_res m f) E Q \<longleftrightarrow> holds m E (\<lambda>x. holds (f x) E Q)"
  by (cases m) auto

lemma holds_conseq: "holds m E P \<Longrightarrow> (\<And>r. P r \<Longrightarrow> Q r) \<Longrightarrow> holds m E Q"
  by (cases m) auto

lemma holds_bindI: "holds m E P \<Longrightarrow> (\<And>x. P x \<Longrightarrow> holds (f x) E Q) \<Longrightarrow> holds (bind_res m f) E Q"
  by (cases m) auto

text \<open>No fault at all.\<close>

abbreviation no_fault :: "fault \<Rightarrow> bool" where
  "no_fault e \<equiv> False"

text \<open>For functions that return a result and the new state.\<close>

lemma holds_bind2I:
  "holds m E P \<Longrightarrow> (\<And>r s. P (r, s) \<Longrightarrow> holds (f (r, s)) E Q) \<Longrightarrow> holds (bind_res m f) E Q"
  by (cases m) auto

lemma holds_Inr_D: "holds m E Q \<Longrightarrow> m = Inr r \<Longrightarrow> Q r"
  by simp

lemma holds_Inl_D: "holds m E Q \<Longrightarrow> m = Inl e \<Longrightarrow> E e"
  by simp

lemma holds_conj: "holds m E P \<Longrightarrow> holds m E Q \<Longrightarrow> holds m E (\<lambda>r. P r \<and> Q r)"
  by (cases m) auto

lemma holds_valueI: "(\<And>r. m = Inr r \<Longrightarrow> Q r) \<Longrightarrow> holds m (\<lambda>_. True) Q"
  by (cases m) auto

subsection \<open>C arrays\<close>

abbreviation NUL :: char where
  "NUL \<equiv> CHR 0x00"

definition c_str :: "char list \<Rightarrow> string" where
  "c_str a = takeWhile (\<lambda>c. c \<noteq> NUL) a"

definition arr_read :: "'a list \<Rightarrow> nat \<Rightarrow> 'a res" where
  "arr_read a i = (if i < length a then Inr (a ! i) else Inl OutOfBounds)"

definition arr_write :: "'a list \<Rightarrow> nat \<Rightarrow> 'a \<Rightarrow> 'a list res" where
  "arr_write a i x = (if i < length a then Inr (a[i := x]) else Inl OutOfBounds)"

text \<open>\<open>strcpy\<close> into an array: the string, its terminator, and what the array held after them.\<close>

definition c_strcpy :: "char list \<Rightarrow> string \<Rightarrow> char list res" where
  "c_strcpy a s =
     (if length s < length a then Inr (s @ NUL # drop (Suc (length s)) a) else Inl OutOfBounds)"

lemma arr_write_Inr [simp]: "arr_write a i x = Inr b \<longleftrightarrow> i < length a \<and> b = a[i := x]"
  by (auto simp: arr_write_def)

lemma arr_read_Inr [simp]: "arr_read a i = Inr x \<longleftrightarrow> i < length a \<and> x = a ! i"
  by (auto simp: arr_read_def)

lemma c_str_no_NUL [simp]: "NUL \<notin> set s \<Longrightarrow> c_str (s @ NUL # t) = s"
  by (auto simp: c_str_def takeWhile_append takeWhile_tail)

lemma c_str_id: "NUL \<notin> set s \<Longrightarrow> c_str s = s"
  by (auto simp: c_str_def takeWhile_eq_all_conv)

lemma length_c_str: "length (c_str a) \<le> length a"
  by (simp add: c_str_def length_takeWhile_le)

lemma c_strcpy_Inr:
  "c_strcpy a s = Inr b \<longleftrightarrow> length s < length a \<and> b = s @ NUL # drop (Suc (length s)) a"
  by (auto simp: c_strcpy_def)

text \<open>Writing a character at the terminator and a new terminator after it appends.\<close>

lemma append_at_NUL:
  assumes "NUL \<notin> set s" "Suc (length s) < length (s @ NUL # t)"
  shows "(s @ NUL # t)[length s := c, Suc (length s) := NUL] = (s @ [c]) @ NUL # tl t"
proof -
  from assms(2) obtain x u where "t = x # u" by (cases t) auto
  then show ?thesis by (simp add: list_update_append)
qed

subsection \<open>Numbers in a base\<close>

definition digit_char :: "nat \<Rightarrow> char" where
  "digit_char d = ''0123456789ABCDEF'' ! d"

definition digit_val :: "char \<Rightarrow> nat" where
  "digit_val c =
     (if of_char c \<le> (57::nat) then of_char c - 48 else of_char c - 55)"

function digits_of :: "nat \<Rightarrow> nat \<Rightarrow> string" where
  "digits_of b n =
     (if b < 2 \<or> n < b then [digit_char n] else digits_of b (n div b) @ [digit_char (n mod b)])"
  by pat_completeness auto
termination by (relation "measure snd") auto

declare digits_of.simps [simp del]

definition value_of :: "nat \<Rightarrow> string \<Rightarrow> nat" where
  "value_of b s = foldl (\<lambda>v c. v * b + digit_val c) 0 s"

lemma digits_of_small: "n < b \<Longrightarrow> digits_of b n = [digit_char n]"
  by (simp add: digits_of.simps [of b n])

lemma digits_of_step:
  "2 \<le> b \<Longrightarrow> b \<le> n \<Longrightarrow> digits_of b n = digits_of b (n div b) @ [digit_char (n mod b)]"
  by (simp add: digits_of.simps [of b n])

lemma digits_of_nonempty [simp]: "digits_of b n \<noteq> []"
  by (subst digits_of.simps) simp

lemma digit_val_char: "d < 16 \<Longrightarrow> digit_val (digit_char d) = d"
proof -
  assume "d < 16"
  then have "d = 0 \<or> d = 1 \<or> d = 2 \<or> d = 3 \<or> d = 4 \<or> d = 5 \<or> d = 6 \<or> d = 7 \<or>
      d = 8 \<or> d = 9 \<or> d = 10 \<or> d = 11 \<or> d = 12 \<or> d = 13 \<or> d = 14 \<or> d = 15" by arith
  then show ?thesis by (auto simp: digit_char_def digit_val_def)
qed

lemma value_of_snoc: "value_of b (s @ [c]) = value_of b s * b + digit_val c"
  by (simp add: value_of_def)

lemma value_of_digits_of: "2 \<le> b \<Longrightarrow> b \<le> 16 \<Longrightarrow> value_of b (digits_of b n) = n"
proof (induction b n rule: digits_of.induct)
  case (1 b n)
  show ?case
  proof (cases "n < b")
    case True
    with "1.prems" show ?thesis
      by (simp add: digits_of_small value_of_def digit_val_char)
  next
    case False
    moreover from this "1.prems" have "n mod b < 16"
      by (intro less_le_trans [OF mod_less_divisor]) auto
    ultimately show ?thesis
      using 1 by (simp add: digits_of_step value_of_snoc digit_val_char not_less div_mult_mod_eq)
  qed
qed

lemma length_digits_of: "2 \<le> b \<Longrightarrow> n < b ^ k \<Longrightarrow> 0 < k \<Longrightarrow> length (digits_of b n) \<le> k"
proof (induction k arbitrary: n)
  case (Suc k)
  show ?case
  proof (cases "n < b")
    case False
    with Suc.prems have "k \<noteq> 0" "n div b < b ^ k"
      by (auto simp: less_mult_imp_div_less mult.commute intro!: Nat.gr0I)
    with Suc False show ?thesis by (auto simp: digits_of_step)
  qed (simp add: digits_of_small)
qed simp

lemma digit_char_in: "d < 16 \<Longrightarrow> digit_char d \<in> set ''0123456789ABCDEF''"
  unfolding digit_char_def by (rule nth_mem) simp

lemma digits_of_chars: "2 \<le> b \<Longrightarrow> b \<le> 16 \<Longrightarrow> set (digits_of b n) \<subseteq> set ''0123456789ABCDEF''"
proof (induction b n rule: digits_of.induct)
  case (1 b n)
  have "digit_char (n mod b) \<in> set ''0123456789ABCDEF''"
    using "1.prems" by (intro digit_char_in less_le_trans [OF mod_less_divisor]) auto
  with 1 show ?case
    by (cases "n < b") (auto simp: digits_of_small digits_of_step not_less dest: subsetD)
qed

lemma digits_of_no_NUL: "2 \<le> b \<Longrightarrow> b \<le> 16 \<Longrightarrow> NUL \<notin> set (digits_of b n)"
  using digits_of_chars [of b n] by auto

text \<open>The conversions \<open>%lu\<close>, \<open>%ld\<close> and \<open>%lX\<close> of \<open>printf\<close>.\<close>

definition fmt_lu :: "nat \<Rightarrow> string" where
  "fmt_lu n = digits_of 10 n"

definition fmt_ld :: "int \<Rightarrow> string" where
  "fmt_ld i = (if i < 0 then CHR ''-'' # digits_of 10 (nat (- i)) else digits_of 10 (nat i))"

definition fmt_lX :: "nat \<Rightarrow> string" where
  "fmt_lX n = digits_of 16 n"

subsection \<open>Bit strings, most significant bit first\<close>

definition bits_val :: "bool list \<Rightarrow> nat" where
  "bits_val bs = foldl (\<lambda>v b. v * 2 + (if b then 1 else 0)) 0 bs"

primrec bits_of :: "nat \<Rightarrow> nat \<Rightarrow> bool list" where
  "bits_of 0 n = []"
| "bits_of (Suc k) n = bits_of k (n div 2) @ [odd n]"

lemma bits_val_Nil [simp]: "bits_val [] = 0"
  by (simp add: bits_val_def)

lemma bits_val_snoc [simp]: "bits_val (bs @ [b]) = bits_val bs * 2 + (if b then 1 else 0)"
  by (simp add: bits_val_def)

lemma length_bits_of [simp]: "length (bits_of k n) = k"
  by (induction k arbitrary: n) auto

lemma bits_val_bits_of: "bits_val (bits_of k n) = n mod 2 ^ k"
proof (induction k arbitrary: n)
  case (Suc k)
  have "n mod (2 * 2 ^ k) = 2 * (n div 2 mod 2 ^ k) + n mod 2"
    by (rule mod_mult2_eq)
  with Suc show ?case by (auto simp: odd_iff_mod_2_eq_one)
qed simp

lemma bits_val_bound: "bits_val bs < 2 ^ length bs"
proof (induction bs rule: rev_induct)
  case (snoc b bs)
  then show ?case by (cases b) auto
qed simp

lemma bits_of_bits_val: "bits_of (length bs) (bits_val bs) = bs"
  by (induction bs rule: rev_induct) (auto simp: div_mult_self2)

subsection \<open>C arithmetic\<close>

text \<open>Conversion of a quotient to an integer type truncates towards zero.\<close>

definition tdiv :: "int \<Rightarrow> int \<Rightarrow> int" where
  "tdiv a b = sgn a * sgn b * (\<bar>a\<bar> div \<bar>b\<bar>)"

lemma tdiv_nonneg: "0 \<le> a \<Longrightarrow> 0 < b \<Longrightarrow> tdiv a b = a div b"
  by (cases "a = 0") (auto simp: tdiv_def)

lemma tdiv_neg: "a \<le> 0 \<Longrightarrow> 0 < b \<Longrightarrow> tdiv a b = - ((- a) div b)"
  by (cases "a = 0") (auto simp: tdiv_def)

end
