(* ===== verification/Tpms_Fields.thy ===== *)
theory Tpms_Fields
  imports Prelude Complex_Main
begin

text \<open>
  The fields of a decoded tyre-pressure packet (\<open>src/other/analyze_tpms2.c\<close>). A packet is 69
  symbols; the decoder leaves them as the characters \<open>0\<close> and \<open>1\<close> in the static array
  \<open>symbols[70]\<close>, and the accessors below read the sensor address, the temperature and the
  pressure from fixed positions of it. A \<open>double\<close> that only holds multiples of one half below
  2 to the 53 is exact, so the pressure is a rational number.
\<close>

definition SYMBOLS_PER_MSG :: nat where
  "SYMBOLS_PER_MSG = 69"

subsection \<open>The accessors\<close>

definition get_dec_address_val :: "char list \<Rightarrow> nat" where
  "get_dec_address_val symbols =
     foldl (\<lambda>addr j. addr * 2 + (if symbols ! j = CHR ''1'' then 1 else 0)) 0 [2..<30]"

text \<open>\<open>sprintf\<close> into a buffer of \<open>n\<close> bytes.\<close>

definition c_sprintf :: "nat \<Rightarrow> string \<Rightarrow> string res" where
  "c_sprintf n s = (if length s < n then Inr s else Inl OutOfBounds)"

definition get_hex_address_str :: "char list \<Rightarrow> string res" where
  "get_hex_address_str symbols = c_sprintf 10 (fmt_lX (get_dec_address_val symbols))"

definition get_temp_c :: "char list \<Rightarrow> int" where
  "get_temp_c symbols =
     foldl (\<lambda>t j. t * 2 + (if symbols ! j = CHR ''1'' then 1 else 0)) 0 [52..<60] - 40"

text \<open>\<open>((double)(tempC * 1.8)) + 32\<close>, converted to \<open>long\<close>: nine fifths, truncated.\<close>

definition get_temp_f :: "char list \<Rightarrow> int" where
  "get_temp_f symbols = tdiv (9 * get_temp_c symbols + 160) 5"

definition get_pressure_kpa :: "char list \<Rightarrow> rat" where
  "get_pressure_kpa symbols =
     foldl (\<lambda>p j. p * 2 + (if symbols ! j = CHR ''1'' then 1 else 0)) 0 [36..<44] * 5 / 2 - 100"

text \<open>
  \<open>%lf\<close>: six decimals. The values printed are multiples of one half, so no rounding occurs.
\<close>

definition fmt_lf :: "rat \<Rightarrow> string" where
  "fmt_lf r =
     (let m = nat \<lfloor>\<bar>r\<bar> * 1000000\<rfloor>; frac = digits_of 10 (m mod 1000000)
      in (if r < 0 then ''-'' else '''') @ digits_of 10 (m div 1000000) @ ''.''
           @ replicate (6 - length frac) (CHR ''0'') @ frac)"

subsection \<open>The packet check\<close>

fun validate_loop :: "int list \<Rightarrow> nat list \<Rightarrow> rat \<Rightarrow> rat option" where
  "validate_loop packet_syms [] press = Some press"
| "validate_loop packet_syms (i # is) press =
     (let press = press * 2 + of_int (packet_syms ! (i + 36))
      in if packet_syms ! (36 + i) = packet_syms ! (44 + i) then None
         else validate_loop packet_syms is press)"

definition validate_packet :: "int list \<Rightarrow> nat \<Rightarrow> bool" where
  "validate_packet packet_syms num_syms =
     (if packet_syms ! 68 \<noteq> 1 then False
      else case validate_loop packet_syms [0..<8] 0 of
             None \<Rightarrow> False
           | Some press \<Rightarrow> if press * 5 / 2 - 100 < 0 then False else True)"

subsection \<open>Reading a field is reading a number\<close>

lemma foldl_bits_nat:
  "foldl (\<lambda>v j. v * 2 + (if P j then 1 else 0)) 0 js = bits_val (map P js)"
  by (induction js rule: rev_induct) auto

lemma foldl_bits_int:
  "foldl (\<lambda>v j. v * 2 + (if P j then 1 else 0)) (0::int) js = int (bits_val (map P js))"
  by (induction js rule: rev_induct) auto

lemma foldl_bits_rat:
  "foldl (\<lambda>v j. v * 2 + (if P j then 1 else 0)) (0::rat) js = of_nat (bits_val (map P js))"
  by (induction js rule: rev_induct) auto

definition field :: "char list \<Rightarrow> nat \<Rightarrow> nat \<Rightarrow> bool list" where
  "field symbols i j = map (\<lambda>k. symbols ! k = CHR ''1'') [i..<j]"

lemma length_field [simp]: "length (field symbols i j) = j - i"
  by (simp add: field_def)

lemma get_dec_address_val_field: "get_dec_address_val symbols = bits_val (field symbols 2 30)"
  by (simp only: get_dec_address_val_def foldl_bits_nat field_def)

lemma get_temp_c_field: "get_temp_c symbols = int (bits_val (field symbols 52 60)) - 40"
  by (simp only: get_temp_c_def foldl_bits_int field_def)

lemma get_pressure_kpa_field:
  "get_pressure_kpa symbols = of_nat (bits_val (field symbols 36 44)) * 5 / 2 - 100"
  by (simp only: get_pressure_kpa_def foldl_bits_rat field_def)

lemma bits_val_field_bound: "bits_val (field symbols i j) < 2 ^ (j - i)"
  using bits_val_bound [of "field symbols i j"] by simp

lemma get_dec_address_val_bound: "get_dec_address_val symbols < 2 ^ 28"
  using bits_val_field_bound [of symbols 2 30] by (simp add: get_dec_address_val_field)

lemma hex_address_length: "length (fmt_lX (get_dec_address_val symbols)) \<le> 7"
  using get_dec_address_val_bound [of symbols]
  by (simp add: fmt_lX_def length_digits_of [of 16 _ 7])

lemma get_hex_address_str_eq:
  "get_hex_address_str symbols = Inr (fmt_lX (get_dec_address_val symbols))"
  using hex_address_length [of symbols] by (simp add: get_hex_address_str_def c_sprintf_def)

lemma validate_loop_eq:
  "validate_loop s is p =
     (if \<exists>i \<in> set is. s ! (36 + i) = s ! (44 + i) then None
      else Some (foldl (\<lambda>p i. p * 2 + of_int (s ! (i + 36))) p is))"
  by (induction "is" arbitrary: p) (auto simp: Let_def)

subsection \<open>A reference layout of the packet\<close>

text \<open>
  What a transmitter puts in a packet: two start symbols, a 28-bit address, six symbols the
  decoder does not read, the pressure byte and its complement, the temperature byte, eight more
  unread symbols and the stop symbol.
\<close>

definition packet_layout ::
    "nat \<Rightarrow> nat \<Rightarrow> nat \<Rightarrow> bool list \<Rightarrow> bool list \<Rightarrow> bool list" where
  "packet_layout addr press temp gap1 gap2 =
     [True, True] @ bits_of 28 addr @ gap1 @ bits_of 8 press @ map Not (bits_of 8 press)
       @ bits_of 8 temp @ gap2 @ [True]"

definition sym_chars :: "bool list \<Rightarrow> char list" where
  "sym_chars bs = map (\<lambda>b. if b then CHR ''1'' else CHR ''0'') bs"

definition sym_ints :: "bool list \<Rightarrow> int list" where
  "sym_ints bs = map (\<lambda>b. if b then 1 else 0) bs"

lemma length_packet_layout [simp]:
  "length gap1 = 6 \<Longrightarrow> length gap2 = 8 \<Longrightarrow> length (packet_layout a p t gap1 gap2) = 69"
  by (simp add: packet_layout_def)

lemma length_sym [simp]: "length (sym_chars bs) = length bs" "length (sym_ints bs) = length bs"
  by (simp_all add: sym_chars_def sym_ints_def)

lemma sym_chars_no_NUL: "NUL \<notin> set (sym_chars bs)"
  by (auto simp: sym_chars_def)

lemma field_sym_chars:
  assumes "length pre = i" "length mid = j - i" "i \<le> j"
  shows "field (sym_chars (pre @ mid @ post) @ tail) i j = mid"
  using assms
  by (intro nth_equalityI) (auto simp: field_def sym_chars_def nth_append split: if_splits)

lemmas layout_assoc = packet_layout_def append_assoc

lemma field_layout:
  assumes "length gap1 = 6" "length gap2 = 8"
  shows "field (sym_chars (packet_layout a p t gap1 gap2) @ tail) 2 30 = bits_of 28 a"
    and "field (sym_chars (packet_layout a p t gap1 gap2) @ tail) 36 44 = bits_of 8 p"
    and "field (sym_chars (packet_layout a p t gap1 gap2) @ tail) 52 60 = bits_of 8 t"
proof -
  show "field (sym_chars (packet_layout a p t gap1 gap2) @ tail) 2 30 = bits_of 28 a"
    unfolding packet_layout_def by (rule field_sym_chars) auto
  have "packet_layout a p t gap1 gap2 =
      ([True, True] @ bits_of 28 a @ gap1) @ bits_of 8 p
        @ (map Not (bits_of 8 p) @ bits_of 8 t @ gap2 @ [True])"
    by (simp add: packet_layout_def)
  then show "field (sym_chars (packet_layout a p t gap1 gap2) @ tail) 36 44 = bits_of 8 p"
    using assms by (simp only:) (rule field_sym_chars, auto)
  have "packet_layout a p t gap1 gap2 =
      ([True, True] @ bits_of 28 a @ gap1 @ bits_of 8 p @ map Not (bits_of 8 p)) @ bits_of 8 t
        @ (gap2 @ [True])"
    by (simp add: packet_layout_def)
  then show "field (sym_chars (packet_layout a p t gap1 gap2) @ tail) 52 60 = bits_of 8 t"
    using assms by (simp only:) (rule field_sym_chars, auto)
qed

subsection \<open>What the packet check accepts\<close>

lemma foldl_sym_ints:
  assumes "set s \<subseteq> {0, 1}" "\<forall>i \<in> set is. i + 36 < length s"
  shows "foldl (\<lambda>p i. p * 2 + of_int (s ! (i + 36))) 0 is
    = (of_nat (bits_val (map (\<lambda>i. s ! (i + 36) = 1) is)) :: rat)"
  using assms(2)
proof (induction "is" rule: rev_induct)
  case (snoc x xs)
  then have "s ! (x + 36) \<in> set s" by simp
  with assms(1) have "s ! (x + 36) = 0 \<or> s ! (x + 36) = 1" by blast
  with snoc show ?case by auto
qed simp

lemma validate_packet_eq:
  assumes "length s = 69" "set s \<subseteq> {0, 1}"
  shows "validate_packet s n \<longleftrightarrow>
    s ! 68 = 1 \<and> (\<forall>i < 8. s ! (36 + i) \<noteq> s ! (44 + i)) \<and>
    40 \<le> bits_val (map (\<lambda>i. s ! (i + 36) = 1) [0..<8])"
proof -
  let ?v = "bits_val (map (\<lambda>i. s ! (i + 36) = 1) [0..<8])"
  have loop: "foldl (\<lambda>p i. p * 2 + of_int (s ! (i + 36))) 0 [0..<8] = (of_nat ?v :: rat)"
    using assms by (intro foldl_sym_ints) auto
  have "(of_nat ?v :: rat) * 5 / 2 - 100 < 0 \<longleftrightarrow> (of_nat ?v :: rat) < of_nat 40"
    by (simp add: field_simps)
  then have press: "(of_nat ?v :: rat) * 5 / 2 - 100 < 0 \<longleftrightarrow> \<not> 40 \<le> ?v"
    by (simp only: of_nat_less_iff not_le)
  have ex: "(\<exists>i \<in> set [0..<8]. s ! (36 + i) = s ! (44 + i)) \<longleftrightarrow>
      \<not> (\<forall>i < 8. s ! (36 + i) \<noteq> s ! (44 + i))"
    by auto
  show ?thesis
    unfolding validate_packet_def validate_loop_eq loop ex
    by (simp add: press)
qed

lemma bits_of_nth_complement:
  "i < 8 \<Longrightarrow> map Not (bits_of 8 p) ! i \<noteq> bits_of 8 p ! i"
  by simp

lemma layout_nth:
  assumes "length gap1 = 6" "length gap2 = 8"
  shows "i < 8 \<Longrightarrow> packet_layout a p t gap1 gap2 ! (36 + i) = bits_of 8 p ! i"
    and "i < 8 \<Longrightarrow> packet_layout a p t gap1 gap2 ! (44 + i) = (\<not> bits_of 8 p ! i)"
    and "packet_layout a p t gap1 gap2 ! 68 = True"
  using assms by (simp_all add: packet_layout_def nth_append)

lemma sym_ints_nth: "i < length bs \<Longrightarrow> sym_ints bs ! i = (if bs ! i then 1 else 0)"
  by (simp add: sym_ints_def)

lemma set_sym_ints: "set (sym_ints bs) \<subseteq> {0, 1}"
  by (auto simp: sym_ints_def)

lemma press_bits:
  assumes "length gap1 = 6" "length gap2 = 8"
  shows "map (\<lambda>i. sym_ints (packet_layout a p t gap1 gap2) ! (i + 36) = 1) [0..<8] = bits_of 8 p"
  using layout_nth(1) [OF assms, of _ a p t] assms
  by (intro nth_equalityI) (auto simp: sym_ints_nth add.commute [of _ 36])

subsection \<open>Properties\<close>

text \<open>
  C16. Field round trip. Whatever address below two to the 28, pressure byte and temperature byte a
  transmitter lays out, and whatever the symbols the decoder does not read, the accessors return
  exactly that address, that temperature offset by 40 and that pressure in units of 2.5 kPa, and
  the hexadecimal string they print is the address again when read in base sixteen.
\<close>

theorem fields_roundtrip:
  assumes "a < 2 ^ 28" "p < 256" "t < 256" "length gap1 = 6" "length gap2 = 8"
  shows "let symbols = sym_chars (packet_layout a p t gap1 gap2) @ [NUL] in
    get_dec_address_val symbols = a \<and> get_temp_c symbols = int t - 40 \<and>
    get_pressure_kpa symbols = of_nat p * 5 / 2 - 100 \<and>
    (\<exists>h. get_hex_address_str symbols = Inr h \<and> length h < 10 \<and> value_of 16 h = a)"
  using assms hex_address_length [of "sym_chars (packet_layout a p t gap1 gap2) @ [NUL]"]
  by (auto simp: Let_def get_dec_address_val_field get_temp_c_field get_pressure_kpa_field
      field_layout [OF assms(4,5)] bits_val_bits_of get_hex_address_str_eq fmt_lX_def
      value_of_digits_of)

theorem fields_roundtrip_witness:
  "get_dec_address_val (sym_chars (packet_layout 0xABCDEF1 120 60 (replicate 6 True)
     (replicate 8 False)) @ [NUL]) = 0xABCDEF1"
  using fields_roundtrip [of "0xABCDEF1" 120 60 "replicate 6 True" "replicate 8 False"]
  by (simp add: Let_def)

text \<open>
  The packet check accepts a packet of the reference layout exactly when its pressure byte is
  at least 40: the complement byte and the stop symbol are then right by construction, and below 40
  the pressure would be negative.
\<close>

theorem validate_packet_layout:
  assumes "p < 256" "length gap1 = 6" "length gap2 = 8"
  shows "validate_packet (sym_ints (packet_layout a p t gap1 gap2)) 69 \<longleftrightarrow> 40 \<le> p"
proof -
  have "length (sym_ints (packet_layout a p t gap1 gap2)) = 69"
    using assms by simp
  from validate_packet_eq [OF this set_sym_ints] show ?thesis
    using assms layout_nth [OF assms(2,3)]
    by (simp add: press_bits bits_val_bits_of sym_ints_nth)
qed

theorem validate_packet_layout_witness:
  "validate_packet (sym_ints (packet_layout 5 41 60 (replicate 6 True) (replicate 8 False))) 69
   \<and> \<not> validate_packet (sym_ints (packet_layout 5 39 60 (replicate 6 True) (replicate 8 False))) 69"
  using validate_packet_layout [of 41 "replicate 6 True" "replicate 8 False" 5 60]
    validate_packet_layout [of 39 "replicate 6 True" "replicate 8 False" 5 60]
  by simp

text \<open>
  The values the accessors return stay in the ranges their users rely on, whatever the array
  holds: the address fits 28 bits and its text fits the ten bytes allocated for it, the temperature
  lies between -40 and 215 degrees Celsius and the pressure between -100 and 537.5 kPa.
\<close>

lemma accessor_bounds:
  "get_dec_address_val symbols < 2 ^ 28 \<and>
   (\<exists>h. get_hex_address_str symbols = Inr h \<and> 0 < length h \<and> length h \<le> 7) \<and>
   - 40 \<le> get_temp_c symbols \<and> get_temp_c symbols \<le> 215 \<and>
   - 40 \<le> get_temp_f symbols \<and> get_temp_f symbols \<le> 419 \<and>
   - 100 \<le> get_pressure_kpa symbols \<and> get_pressure_kpa symbols \<le> 1075 / 2"
proof -
  have t: "bits_val (field symbols 52 60) < 256" and p: "bits_val (field symbols 36 44) < 256"
    using bits_val_field_bound [of symbols 52 60] bits_val_field_bound [of symbols 36 44] by simp_all
  let ?n = "9 * get_temp_c symbols + 160"
  have "- 200 \<le> ?n" "?n \<le> 2095"
    using t by (auto simp: get_temp_c_field)
  then have "- 40 \<le> tdiv ?n 5 \<and> tdiv ?n 5 \<le> 419"
    by (cases "0 \<le> ?n") (auto simp: tdiv_nonneg tdiv_neg)
  moreover have "(of_nat (bits_val (field symbols 36 44)) :: rat) \<le> of_nat 255"
    using p by (simp only: of_nat_le_iff)
  ultimately show ?thesis
    using t hex_address_length [of symbols] get_dec_address_val_bound [of symbols]
    by (auto simp: get_hex_address_str_eq get_temp_f_def get_temp_c_field get_pressure_kpa_field
        fmt_lX_def)
qed

end
