(* ===== verification/Tpms2.thy ===== *)
theory Tpms2
  imports Tpms_Fields
begin

text \<open>
  The server's packet decoder (\<open>src/other/analyze_tpms2.c\<close>): one definition per function, in the
  order of the calls, over one record that holds the file's static variables. The floating-point
  operations, the IQ conversion and the two liquid-dsp objects are the record \<open>arith\<close>; everything
  the decoder decides with them is modelled. C \<open>unsigned\<close> counters are \<open>nat\<close> and \<open>int\<close> variables
  are \<open>int\<close>: a capture stays far below two to the 31 samples.
\<close>

subsection \<open>Floating point and the receiver front end\<close>

record ('f, 'c, 'q, 'n) arith =
  iq_sample :: "nat \<Rightarrow> nat \<Rightarrow> 'c"
  create_filter :: 'q
  create_nco :: 'n
  iirfilt_execute :: "'q \<Rightarrow> 'c \<Rightarrow> 'c \<times> 'q"
  nco_mix_down :: "'n \<Rightarrow> 'c \<Rightarrow> 'c"
  nco_step :: "'n \<Rightarrow> 'n"
  creal :: "'c \<Rightarrow> 'f"
  carg :: "'c \<Rightarrow> 'f"
  f_lit :: "rat \<Rightarrow> 'f"
  two_pi :: 'f
  f_add :: "'f \<Rightarrow> 'f \<Rightarrow> 'f"
  f_sub :: "'f \<Rightarrow> 'f \<Rightarrow> 'f"
  f_div :: "'f \<Rightarrow> 'f \<Rightarrow> 'f"
  f_mod :: "'f \<Rightarrow> 'f \<Rightarrow> 'f"
  f_abs :: "'f \<Rightarrow> 'f"
  f_le :: "'f \<Rightarrow> 'f \<Rightarrow> bool"
  f_lt :: "'f \<Rightarrow> 'f \<Rightarrow> bool"
  f_eq :: "'f \<Rightarrow> 'f \<Rightarrow> bool"

definition delta_phi_defn :: "('f, 'c, 'q, 'n) arith \<Rightarrow> 'f \<Rightarrow> 'f \<Rightarrow> 'f" where
  "delta_phi_defn A phi prev_phi =
     f_mod A (f_abs A (f_sub A (f_add A (two_pi A) phi) prev_phi)) (two_pi A)"

text \<open>\<open>fabs((delta_phi / freq) - 1.0)\<close>\<close>

definition rel_dev :: "('f, 'c, 'q, 'n) arith \<Rightarrow> 'f \<Rightarrow> 'f \<Rightarrow> 'f" where
  "rel_dev A d freq = f_abs A (f_sub A (f_div A d freq) (f_lit A 1))"

subsection \<open>The static variables\<close>

record ('f, 'c, 'q, 'n) tpms2 =
  file_data :: "nat list"
  file_eof :: bool
  front_end :: "('q \<times> 'n) option"
  src_name :: "char list"
  symbols :: "char list"
  bits :: "char list"
  total_samples_in :: nat
  samples_per_sym :: nat
  sync_bits_start :: nat
  sync_bits_end :: nat
  valid_pkt :: bool
  high_freq_known :: bool
  low_freq_known :: bool
  high_freq :: 'f
  low_freq :: 'f
  prelude_hf_start :: nat
  prelude_lf_start :: nat
  preceding_bit :: int
  bit_confidence :: rat
  actual_bit_end :: nat
  read_from_cache :: bool
  write_to_cache :: bool
  cache_loc :: int
  cache_count :: int
  symbol_cache :: "int \<Rightarrow> 'c"
  cache_loc_in_file :: nat

definition CACHE_SIZE :: int where
  "CACHE_SIZE = 65535"

text \<open>At 1.024 million samples per second.\<close>

definition MIN_PRELUDE_SAMPLES :: nat where
  "MIN_PRELUDE_SAMPLES = 1024"

definition MAX_PRELUDE_SAMPLES :: nat where
  "MAX_PRELUDE_SAMPLES = 2048"

definition MIN_SAMPLES_PER_SYMBOL :: nat where
  "MIN_SAMPLES_PER_SYMBOL = 307"

definition MAX_SAMPLES_PER_SYMBOL :: nat where
  "MAX_SAMPLES_PER_SYMBOL = 512"

subsection \<open>Samples\<close>

text \<open>
  A sample comes from the cache while it is being replayed, and from the file otherwise: two bytes,
  filtered and mixed down, and appended to the cache when it is being written.
\<close>

definition read_file_sample ::
    "('f, 'c, 'q, 'n) arith \<Rightarrow> ('f, 'c, 'q, 'n) tpms2 \<Rightarrow> ('c option \<times> ('f, 'c, 'q, 'n) tpms2) res" where
  "read_file_sample A s =
     (case file_data s of
        b0 # b1 # rest \<Rightarrow>
          (let (q, n) = the (front_end s);
               (x, q) = iirfilt_execute A q (iq_sample A b0 b1);
               x = nco_mix_down A n x;
               s = s\<lparr>file_data := rest, front_end := Some (q, nco_step A n),
                     total_samples_in := total_samples_in s + 1\<rparr>
           in if write_to_cache s then
                if 0 \<le> cache_loc s \<and> cache_loc s < CACHE_SIZE then
                  let s = s\<lparr>symbol_cache := (symbol_cache s)(cache_loc s := x),
                            cache_loc := cache_loc s + 1, cache_count := cache_loc s + 1\<rparr>
                  in if CACHE_SIZE \<le> cache_loc s then Inr (None, s\<lparr>valid_pkt := False\<rparr>)
                     else Inr (Some x, s)
                else Inl OutOfBounds
              else Inr (Some x, s))
      | _ \<Rightarrow> Inr (None, s\<lparr>file_data := [], file_eof := True\<rparr>))"

definition get_next_sample ::
    "('f, 'c, 'q, 'n) arith \<Rightarrow> ('f, 'c, 'q, 'n) tpms2 \<Rightarrow> ('c option \<times> ('f, 'c, 'q, 'n) tpms2) res" where
  "get_next_sample A s =
     (let s = (if front_end s = None then s\<lparr>front_end := Some (create_filter A, create_nco A)\<rparr> else s)
      in if read_from_cache s then
           if cache_count s \<le> cache_loc s then
             read_file_sample A (s\<lparr>read_from_cache := False, write_to_cache := True\<rparr>)
           else if 0 \<le> cache_loc s \<and> cache_loc s < CACHE_SIZE then
             Inr (Some (symbol_cache s (cache_loc s)), s\<lparr>cache_loc := cache_loc s + 1\<rparr>)
           else Inl OutOfBounds
         else read_file_sample A s)"

definition get_current_read_loc :: "('f, 'c, 'q, 'n) tpms2 \<Rightarrow> int" where
  "get_current_read_loc s =
     (if read_from_cache s then int (cache_loc_in_file s) + cache_loc s
      else int (total_samples_in s))"

text \<open>The samples still to come, cached or in the file, bound every loop that draws samples.\<close>

definition remaining :: "('f, 'c, 'q, 'n) tpms2 \<Rightarrow> nat" where
  "remaining s = length (file_data s) +
     (if read_from_cache s then nat (cache_count s - cache_loc s) else 0)"

lemma get_next_sample_remaining:
  "get_next_sample A s = Inr (Some x, s') \<Longrightarrow> remaining s' < remaining s"
  by (auto simp: get_next_sample_def read_file_sample_def remaining_def Let_def
      split: list.splits if_splits prod.splits)

subsection \<open>The prelude\<close>

function find_prelude_start ::
    "('f, 'c, 'q, 'n) arith \<Rightarrow> ('f, 'c, 'q, 'n) tpms2 \<Rightarrow> (nat \<times> ('f, 'c, 'q, 'n) tpms2) res" where
  "find_prelude_start A s =
     bind_res (get_next_sample A s) (\<lambda>(x, s). case x of
       None \<Rightarrow> Inr (0, s)
     | Some x \<Rightarrow>
         if file_eof s then Inr (0, s)
         else if f_lt A (f_lit A (9 / 10)) (creal A x) then Inr (total_samples_in s, s)
         else find_prelude_start A s)"
  by pat_completeness auto
termination
  by (relation "measure (\<lambda>(A, s). remaining s)") (auto dest: get_next_sample_remaining)

text \<open>
  The three \<open>do ... while\<close> loops of \<open>is_valid_prelude\<close>. Each returns \<open>None\<close> where the function
  returns false from inside the loop, and the last phase \<open>prev_phi\<close> where the loop ends.
\<close>

function prelude_hf_loop ::
    "('f, 'c, 'q, 'n) arith \<Rightarrow> ('f, 'c, 'q, 'n) tpms2 \<Rightarrow> 'f \<Rightarrow> nat \<Rightarrow> 'f \<Rightarrow>
     ('f option \<times> ('f, 'c, 'q, 'n) tpms2) res" where
  "prelude_hf_loop A s cum_phi count prev_phi =
     bind_res (get_next_sample A s) (\<lambda>(x, s). case x of
       None \<Rightarrow> Inr (None, s)
     | Some x \<Rightarrow>
         if file_eof s then Inr (None, s)
         else
           let phi = carg A x;
               delta_phi = delta_phi_defn A phi prev_phi;
               cum_phi = f_add A cum_phi delta_phi;
               count = count + 1;
               s = s\<lparr>high_freq := f_div A cum_phi (f_lit A (of_nat count))\<rparr>
           in if MAX_PRELUDE_SAMPLES < count then Inr (None, s)
              else if total_samples_in s < prelude_hf_start s + MIN_PRELUDE_SAMPLES \<or>
                      f_le A (rel_dev A delta_phi (high_freq s)) (f_lit A (5 / 100))
              then prelude_hf_loop A s cum_phi count phi
              else Inr (Some phi, s))"
  by pat_completeness auto
termination
  by (relation "measure (\<lambda>(A, s, _). remaining s)")
    (auto dest: get_next_sample_remaining simp: remaining_def)

function prelude_lf_loop ::
    "('f, 'c, 'q, 'n) arith \<Rightarrow> ('f, 'c, 'q, 'n) tpms2 \<Rightarrow> 'f \<Rightarrow> nat \<Rightarrow> 'f \<Rightarrow>
     ('f option \<times> ('f, 'c, 'q, 'n) tpms2) res" where
  "prelude_lf_loop A s cum_phi count prev_phi =
     bind_res (get_next_sample A s) (\<lambda>(x, s). case x of
       None \<Rightarrow> Inr (None, s)
     | Some x \<Rightarrow>
         if file_eof s then Inr (None, s)
         else
           let phi = carg A x;
               delta_phi = delta_phi_defn A phi prev_phi;
               cum_phi = f_add A cum_phi delta_phi;
               count = count + 1;
               s = s\<lparr>low_freq := f_div A cum_phi (f_lit A (of_nat count))\<rparr>
           in if MAX_PRELUDE_SAMPLES < count then Inr (None, s)
              else if total_samples_in s < prelude_lf_start s + MIN_PRELUDE_SAMPLES \<or>
                      f_lt A (f_lit A (10 / 100)) (rel_dev A delta_phi (high_freq s))
              then prelude_lf_loop A s cum_phi count phi
              else Inr (Some phi, s))"
  by pat_completeness auto
termination
  by (relation "measure (\<lambda>(A, s, _). remaining s)")
    (auto dest: get_next_sample_remaining simp: remaining_def)

function prelude_sync_loop ::
    "('f, 'c, 'q, 'n) arith \<Rightarrow> ('f, 'c, 'q, 'n) tpms2 \<Rightarrow> 'f \<Rightarrow>
     ('f option \<times> ('f, 'c, 'q, 'n) tpms2) res" where
  "prelude_sync_loop A s prev_phi =
     bind_res (get_next_sample A s) (\<lambda>(x, s). case x of
       None \<Rightarrow> Inr (None, s)
     | Some x \<Rightarrow>
         if file_eof s then Inr (None, s)
         else
           let phi = carg A x;
               delta_phi = delta_phi_defn A phi prev_phi
           in if f_le A (rel_dev A delta_phi (high_freq s)) (f_lit A (5 / 100))
              then prelude_sync_loop A s phi
              else Inr (Some phi, s))"
  by pat_completeness auto
termination
  by (relation "measure (\<lambda>(A, s, _). remaining s)") (auto dest: get_next_sample_remaining)

declare find_prelude_start.simps [simp del] prelude_hf_loop.simps [simp del]
  prelude_lf_loop.simps [simp del] prelude_sync_loop.simps [simp del]

definition is_valid_prelude ::
    "('f, 'c, 'q, 'n) arith \<Rightarrow> nat \<Rightarrow> ('f, 'c, 'q, 'n) tpms2 \<Rightarrow>
     (bool \<times> ('f, 'c, 'q, 'n) tpms2) res" where
  "is_valid_prelude A file_loc s =
     (let s = s\<lparr>high_freq_known := False, low_freq_known := False,
                prelude_hf_start := total_samples_in s\<rparr>
      in bind_res (get_next_sample A s) (\<lambda>(x, s). case x of
        None \<Rightarrow> Inl NullDeref
      | Some x \<Rightarrow>
          bind_res (prelude_hf_loop A s (f_lit A 0) 0 (carg A x)) (\<lambda>(r, s). case r of
            None \<Rightarrow> Inr (False, s)
          | Some prev_phi \<Rightarrow>
              let s = s\<lparr>high_freq_known := True, prelude_lf_start := total_samples_in s\<rparr>
              in bind_res (prelude_lf_loop A s (f_lit A 0) 0 prev_phi) (\<lambda>(r, s). case r of
                None \<Rightarrow> Inr (False, s)
              | Some prev_phi \<Rightarrow>
                  let s = s\<lparr>low_freq_known := True\<rparr>
                  in if f_le A (high_freq s) (low_freq s) then Inr (False, s)
                     else
                       let s = s\<lparr>sync_bits_start := total_samples_in s\<rparr>
                       in bind_res (prelude_sync_loop A s prev_phi) (\<lambda>(r, s). case r of
                         None \<Rightarrow> Inr (False, s)
                       | Some prev_phi \<Rightarrow>
                           let s = s\<lparr>sync_bits_end := total_samples_in s\<rparr>;
                               s = s\<lparr>samples_per_sym := sync_bits_end s + 1 - sync_bits_start s\<rparr>
                           in Inr (\<not> samples_per_sym s < MIN_SAMPLES_PER_SYMBOL, s))))))"

subsection \<open>Bits\<close>

text \<open>
  \<open>samples\<close> is the allocated buffer as far as it has been filled, \<open>None\<close> a null pointer; reading
  past what was filled reads uninitialised memory.
\<close>

fun convert_loop ::
    "('f, 'c, 'q, 'n) arith \<Rightarrow> 'f \<Rightarrow> 'f \<Rightarrow> nat \<Rightarrow> 'f \<Rightarrow> 'c list \<Rightarrow> int list" where
  "convert_loop A hf lf i prev_phi [] = []"
| "convert_loop A hf lf i prev_phi (x # xs) =
     (let phi = carg A x;
          b = (if 0 < i then
                 let delta_phi = delta_phi_defn A phi prev_phi
                 in if f_le A (rel_dev A delta_phi hf) (rel_dev A delta_phi lf) then 1 else - 1
               else 0)
      in b # convert_loop A hf lf (i + 1) phi xs)"

definition convert_samples_to_binary ::
    "('f, 'c, 'q, 'n) arith \<Rightarrow> ('f, 'c, 'q, 'n) tpms2 \<Rightarrow> 'c list option \<Rightarrow> int \<Rightarrow> int list res" where
  "convert_samples_to_binary A s samples num_samples =
     (if num_samples \<le> 0 then Inr []
      else case samples of
        None \<Rightarrow> Inl NullDeref
      | Some xs \<Rightarrow>
          if num_samples \<le> int (length xs) then
            Inr (convert_loop A (high_freq s) (low_freq s) 0 (f_lit A 0) (take (nat num_samples) xs))
          else Inl Uninit)"

text \<open>The sum \<open>samples[1] + ... + samples[n - 1]\<close>.\<close>

definition sum_from_1 :: "int list \<Rightarrow> int \<Rightarrow> int" where
  "sum_from_1 samples n = foldl (\<lambda>b i. b + samples ! i) 0 [1..<nat n]"

function scan_loop ::
    "('f, 'c, 'q, 'n) arith \<Rightarrow> 'f \<Rightarrow> 'c list \<Rightarrow> 'f \<Rightarrow> int \<Rightarrow> int \<Rightarrow> int res" where
  "scan_loop A non_orig_freq xs prev_phi i num_samples =
     (if i < num_samples then
        bind_res (if i < int (length xs) then Inr (xs ! nat i) else Inl Uninit) (\<lambda>x.
          let phi = carg A x;
              later_delta_phi = delta_phi_defn A phi prev_phi;
              later_freq = rel_dev A later_delta_phi non_orig_freq
          in if f_lt A later_freq (f_lit A (5 / 100)) then Inr i
             else scan_loop A non_orig_freq xs phi (i + 1) num_samples)
      else Inr (- 1))"
  by pat_completeness auto
termination
  by (relation "measure (\<lambda>(A, _, _, _, i, n). nat (n - i))") auto

declare scan_loop.simps [simp del]

definition scan_samples_for_eob_transition ::
    "('f, 'c, 'q, 'n) arith \<Rightarrow> ('f, 'c, 'q, 'n) tpms2 \<Rightarrow> 'c list option \<Rightarrow> int \<Rightarrow> int res" where
  "scan_samples_for_eob_transition A s samples num_samples =
     (let baseline_limit = tdiv (3 * num_samples) 4
      in bind_res (convert_samples_to_binary A s samples baseline_limit) (\<lambda>binary_samples.
        let baseline_freq = sum_from_1 binary_samples baseline_limit;
            orig_freq = (if 0 < baseline_freq then high_freq s else low_freq s);
            non_orig_freq = (if f_eq A orig_freq (high_freq s) then low_freq s else high_freq s)
        in if baseline_limit \<le> 0 then Inl OutOfBounds
           else case samples of
             None \<Rightarrow> Inl NullDeref
           | Some xs \<Rightarrow>
               scan_loop A non_orig_freq xs (carg A (xs ! nat (baseline_limit - 1)))
                 (max 1 baseline_limit) num_samples))"

function skip_samples ::
    "('f, 'c, 'q, 'n) arith \<Rightarrow> nat \<Rightarrow> ('f, 'c, 'q, 'n) tpms2 \<Rightarrow>
     (bool \<times> ('f, 'c, 'q, 'n) tpms2) res" where
  "skip_samples A start_sample_location s =
     (if get_current_read_loc s < int start_sample_location then
        bind_res (get_next_sample A s) (\<lambda>(x, s). case x of
          None \<Rightarrow> Inr (False, s)
        | Some _ \<Rightarrow> skip_samples A start_sample_location s)
      else Inr (True, s))"
  by pat_completeness auto
termination
  by (relation "measure (\<lambda>(A, _, s). remaining s)") (auto dest: get_next_sample_remaining)

declare skip_samples.simps [simp del]

fun collect_samples ::
    "('f, 'c, 'q, 'n) arith \<Rightarrow> nat \<Rightarrow> ('f, 'c, 'q, 'n) tpms2 \<Rightarrow>
     ('c list \<times> ('f, 'c, 'q, 'n) tpms2) res" where
  "collect_samples A 0 s = Inr ([], s)"
| "collect_samples A (Suc k) s =
     bind_res (get_next_sample A s) (\<lambda>(x, s). case x of
       None \<Rightarrow> Inr ([], s)
     | Some x \<Rightarrow> bind_res (collect_samples A k s) (\<lambda>(xs, s). Inr (x # xs, s)))"

definition get_some_samples ::
    "('f, 'c, 'q, 'n) arith \<Rightarrow> int \<Rightarrow> nat \<Rightarrow> ('f, 'c, 'q, 'n) tpms2 \<Rightarrow>
     ('c list option \<times> ('f, 'c, 'q, 'n) tpms2) res" where
  "get_some_samples A num_samples start_sample_location s =
     bind_res (skip_samples A start_sample_location s) (\<lambda>(found, s).
       if \<not> found then Inr (None, s)
       else bind_res (collect_samples A (nat num_samples) s) (\<lambda>(xs, s). Inr (Some xs, s)))"

text \<open>
  \<open>num_samples * 1.1\<close> and \<open>num_samples * 0.6\<close>, truncated, are eleven and six tenths; the sample
  position that \<open>start_sample\<close> keeps is only logged.
\<close>

definition get_bit ::
    "('f, 'c, 'q, 'n) arith \<Rightarrow> nat \<Rightarrow> nat \<Rightarrow> ('f, 'c, 'q, 'n) tpms2 \<Rightarrow>
     (int \<times> ('f, 'c, 'q, 'n) tpms2) res" where
  "get_bit A bit_start bit_end s =
     (let num_samples = int bit_end - int bit_start + 1;
          window = tdiv (11 * num_samples) 10
      in bind_res (get_some_samples A window bit_start s) (\<lambda>(samples_buffer, s).
        bind_res (scan_samples_for_eob_transition A s samples_buffer window) (\<lambda>transition_point.
          let s = s\<lparr>actual_bit_end := (if transition_point = - 1 then bit_end
                                      else nat (transition_point - 1 + int bit_start))\<rparr>;
              s = (if write_to_cache s then s\<lparr>read_from_cache := True, write_to_cache := False\<rparr>
                   else s);
              s = (if read_from_cache s then
                     s\<lparr>cache_loc := tdiv (10 * cache_count s - (10 * int bit_start
                         + 11 * num_samples - 10 * int (actual_bit_end s))) 10\<rparr>
                   else s);
              num_samples = tdiv (6 * num_samples) 10
          in bind_res (convert_samples_to_binary A s samples_buffer num_samples) (\<lambda>samples.
            let b = sum_from_1 samples num_samples;
                s = s\<lparr>bit_confidence := of_int \<bar>b\<bar> / of_int num_samples\<rparr>
            in Inr (if 0 < b then 1 else 0, s)))))"

subsection \<open>Symbols\<close>

definition c_strlen :: "char list \<Rightarrow> nat res" where
  "c_strlen a = (if NUL \<in> set a then Inr (length (c_str a)) else Inl OutOfBounds)"

definition get_second_symbol ::
    "('f, 'c, 'q, 'n) arith \<Rightarrow> nat \<Rightarrow> nat \<Rightarrow> ('f, 'c, 'q, 'n) tpms2 \<Rightarrow>
     (int \<times> ('f, 'c, 'q, 'n) tpms2) res" where
  "get_second_symbol A sym_start est_samples_per_sym s =
     (let s = s\<lparr>preceding_bit := 1\<rparr>;
          samples_per_bit = est_samples_per_sym div 2;
          first_bit = 1
      in bind_res (get_bit A sym_start (sym_start + samples_per_bit - 1) s) (\<lambda>(second_bit, s).
        let second_bit_conf = bit_confidence s
        in if first_bit = second_bit \<and> \<not> second_bit_conf < 1 / 4 then
             Inr (0, s\<lparr>valid_pkt := False\<rparr>)
           else
             let second_bit = (if first_bit = second_bit then 1 - second_bit else second_bit)
             in bind_res (arr_write (bits s) 3 (if second_bit = 0 then CHR ''0'' else CHR ''1''))
               (\<lambda>a. bind_res (arr_write a 4 NUL) (\<lambda>a.
                 let symbol = (if preceding_bit s = first_bit then 1 else 0)
                 in bind_res (arr_write (symbols s) 1
                      (if symbol = (0::int) then CHR ''0'' else CHR ''1'')) (\<lambda>y.
                    bind_res (arr_write y 2 NUL) (\<lambda>y.
                      Inr (symbol, s\<lparr>bits := a, symbols := y, preceding_bit := second_bit\<rparr>)))))))"

text \<open>
  The two halves of a symbol differ. Where they do not, the one decided with less confidence is
  flipped if that confidence is below a quarter, and the packet is given up otherwise.
\<close>

definition settle_bits :: "int \<Rightarrow> rat \<Rightarrow> int \<Rightarrow> rat \<Rightarrow> (int \<times> int) option" where
  "settle_bits first_bit first_bit_conf second_bit second_bit_conf =
     (if first_bit = second_bit then
        let min_conf = (if first_bit_conf < second_bit_conf then first_bit_conf
                        else second_bit_conf)
        in if min_conf < 1 / 4 then
             if min_conf = first_bit_conf then Some (1 - first_bit, second_bit)
             else Some (first_bit, 1 - second_bit)
           else None
      else Some (first_bit, second_bit))"

text \<open>The two halves go after the bits collected so far, and the symbol after the symbols.\<close>

definition record_symbol ::
    "int \<Rightarrow> int \<Rightarrow> ('f, 'c, 'q, 'n) tpms2 \<Rightarrow> (int \<times> ('f, 'c, 'q, 'n) tpms2) res" where
  "record_symbol first_bit second_bit s =
     bind_res (c_strlen (bits s)) (\<lambda>bits_collected.
     bind_res (arr_write (bits s) bits_collected
         (if first_bit = 0 then CHR ''0'' else CHR ''1'')) (\<lambda>a.
     bind_res (arr_write a (bits_collected + 1)
         (if second_bit = 0 then CHR ''0'' else CHR ''1'')) (\<lambda>a.
     bind_res (arr_write a (bits_collected + 2) NUL) (\<lambda>a.
     let symbol = (if preceding_bit s = first_bit then 1 else 0)
     in bind_res (c_strlen (symbols s)) (\<lambda>symbols_collected.
     bind_res (arr_write (symbols s) symbols_collected
         (if symbol = (0::int) then CHR ''0'' else CHR ''1'')) (\<lambda>y.
     bind_res (arr_write y (symbols_collected + 1) NUL) (\<lambda>y.
       Inr (symbol, s\<lparr>bits := a, symbols := y, preceding_bit := second_bit\<rparr>))))))))"

definition get_symbol ::
    "('f, 'c, 'q, 'n) arith \<Rightarrow> nat \<Rightarrow> nat \<Rightarrow> ('f, 'c, 'q, 'n) tpms2 \<Rightarrow>
     (int \<times> ('f, 'c, 'q, 'n) tpms2) res" where
  "get_symbol A sym_start est_samples_per_sym s =
     (let samples_per_bit = est_samples_per_sym div 2
      in bind_res (get_bit A sym_start (sym_start + samples_per_bit - 1) s) (\<lambda>(first_bit, s).
        let first_bit_conf = bit_confidence s
        in bind_res (get_bit A (actual_bit_end s) (sym_start + est_samples_per_sym - 1) s)
          (\<lambda>(second_bit, s).
            case settle_bits first_bit first_bit_conf second_bit (bit_confidence s) of
              None \<Rightarrow> Inr (0, s\<lparr>valid_pkt := False\<rparr>)
            | Some (first_bit, second_bit) \<Rightarrow> record_symbol first_bit second_bit s)))"

subsection \<open>Packets\<close>

fun packet_loop ::
    "('f, 'c, 'q, 'n) arith \<Rightarrow> nat \<Rightarrow> nat \<Rightarrow> int list \<Rightarrow> ('f, 'c, 'q, 'n) tpms2 \<Rightarrow>
     (int list option \<times> ('f, 'c, 'q, 'n) tpms2) res" where
  "packet_loop A est_samples_per_sym 0 packet_syms s = Inr (Some packet_syms, s)"
| "packet_loop A est_samples_per_sym (Suc k) packet_syms s =
     bind_res (get_symbol A (actual_bit_end s + 1) est_samples_per_sym s) (\<lambda>(sym, s).
       if \<not> valid_pkt s then Inr (None, s)
       else packet_loop A est_samples_per_sym k (packet_syms @ [sym]) s)"

definition get_packet_symbols ::
    "('f, 'c, 'q, 'n) arith \<Rightarrow> nat \<Rightarrow> nat \<Rightarrow> nat \<Rightarrow> ('f, 'c, 'q, 'n) tpms2 \<Rightarrow>
     (int list option \<times> ('f, 'c, 'q, 'n) tpms2) res" where
  "get_packet_symbols A pkt_start num_syms est_samples_per_sym s =
     bind_res (c_strcpy (bits s) ''011'') (\<lambda>a.
     bind_res (c_strcpy (symbols s) ''1'') (\<lambda>y.
     let s = s\<lparr>bits := a, symbols := y\<rparr>
     in bind_res (get_second_symbol A pkt_start est_samples_per_sym s) (\<lambda>(sym, s).
       if \<not> valid_pkt s then Inr (None, s)
       else bind_res (packet_loop A est_samples_per_sym (num_syms - 2) [1, sym] s) (\<lambda>(r, s).
         case r of
           None \<Rightarrow> Inr (None, s)
         | Some packet_syms \<Rightarrow>
             let s = s\<lparr>valid_pkt := validate_packet packet_syms num_syms\<rparr>
             in if \<not> valid_pkt s then Inr (None, s) else Inr (Some packet_syms, s)))))"

definition try_to_get_packet_symbols ::
    "('f, 'c, 'q, 'n) arith \<Rightarrow> nat \<Rightarrow> nat \<Rightarrow> nat \<Rightarrow> ('f, 'c, 'q, 'n) tpms2 \<Rightarrow>
     (int list option \<times> ('f, 'c, 'q, 'n) tpms2) res" where
  "try_to_get_packet_symbols A pkt_start num_syms est_samples_per_sym s =
     (let s = s\<lparr>write_to_cache := \<not> read_from_cache s, cache_loc := 0\<rparr>;
          s = (if write_to_cache s then s\<lparr>cache_loc_in_file := total_samples_in s\<rparr> else s);
          s = s\<lparr>valid_pkt := True\<rparr>
      in if MAX_SAMPLES_PER_SYMBOL < est_samples_per_sym \<or>
            est_samples_per_sym < MIN_SAMPLES_PER_SYMBOL then Inr (None, s)
         else bind_res (get_packet_symbols A pkt_start num_syms est_samples_per_sym s) (\<lambda>(r, s).
           if r \<noteq> None \<and> valid_pkt s then Inr (r, s) else Inr (None, s)))"

text \<open>
  The retries: estimates one below the measured one and down to 95 percent of it, then one above
  and up to 105 percent. \<open>tolerance\<close> is a float, 13421773 over two to the 28.
\<close>

function retry_down ::
    "('f, 'c, 'q, 'n) arith \<Rightarrow> nat \<Rightarrow> nat \<Rightarrow> ('f, 'c, 'q, 'n) tpms2 \<Rightarrow>
     (int list option \<times> ('f, 'c, 'q, 'n) tpms2) res" where
  "retry_down A orig est s =
     (if 255013683 * orig < est * 2 ^ 28 then
        bind_res (try_to_get_packet_symbols A (sync_bits_end s) SYMBOLS_PER_MSG est s) (\<lambda>(r, s).
          if r \<noteq> None \<and> valid_pkt s then Inr (r, s) else retry_down A orig (est - 1) s)
      else Inr (None, s))"
  by pat_completeness auto
termination by (relation "measure (\<lambda>(A, orig, est, s). est)") (auto intro!: Nat.gr0I)

function retry_up ::
    "('f, 'c, 'q, 'n) arith \<Rightarrow> nat \<Rightarrow> nat \<Rightarrow> ('f, 'c, 'q, 'n) tpms2 \<Rightarrow>
     (int list option \<times> ('f, 'c, 'q, 'n) tpms2) res" where
  "retry_up A orig est s =
     (if est * 2 ^ 28 < (2 ^ 28 + 13421773) * orig then
        bind_res (try_to_get_packet_symbols A (sync_bits_end s) SYMBOLS_PER_MSG est s) (\<lambda>(r, s).
          if r \<noteq> None \<and> valid_pkt s then Inr (r, s) else retry_up A orig (est + 1) s)
      else Inr (None, s))"
  by pat_completeness auto
termination by (relation "measure (\<lambda>(A, orig, est, s). 2 * orig - est)") auto

declare retry_down.simps [simp del] retry_up.simps [simp del]

definition attempt_packet ::
    "('f, 'c, 'q, 'n) arith \<Rightarrow> ('f, 'c, 'q, 'n) tpms2 \<Rightarrow>
     (int list option \<times> ('f, 'c, 'q, 'n) tpms2) res" where
  "attempt_packet A s =
     (let orig_samples_per_sym = samples_per_sym s
      in bind_res (try_to_get_packet_symbols A (sync_bits_end s) SYMBOLS_PER_MSG
           orig_samples_per_sym s) (\<lambda>(r, s).
        if r \<noteq> None \<and> valid_pkt s then Inr (r, s)
        else bind_res (retry_down A orig_samples_per_sym (orig_samples_per_sym - 1)
               (s\<lparr>read_from_cache := True\<rparr>)) (\<lambda>(r, s).
          if r \<noteq> None then Inr (r, s)
          else retry_up A orig_samples_per_sym (orig_samples_per_sym + 1) s)))"

subsection \<open>What every function that draws samples keeps\<close>

text \<open>
  The interface between the sample source and the loops over it: what each sample drawn keeps, and
  the two frequency estimates do not enter, every loop keeps; and a fault that drawing a sample
  cannot cause, no loop causes.
\<close>

lemma remaining_freq [simp]:
  "remaining (s\<lparr>high_freq := h\<rparr>) = remaining s"
  "remaining (s\<lparr>low_freq := h\<rparr>) = remaining s"
  by (cases "read_from_cache s"; simp add: remaining_def)+

locale sample_inv =
  fixes A :: "('f, 'c, 'q, 'n) arith"
    and I :: "('f, 'c, 'q, 'n) tpms2 \<Rightarrow> bool"
    and E :: "fault \<Rightarrow> bool"
  assumes I_sample: "I s \<Longrightarrow> holds (get_next_sample A s) E (\<lambda>(x, s'). I s')"
    and I_high: "I s \<Longrightarrow> I (s\<lparr>high_freq := h\<rparr>)"
    and I_low: "I s \<Longrightarrow> I (s\<lparr>low_freq := h\<rparr>)"
begin

lemma draw:
  assumes "I s"
  shows "holds (get_next_sample A s) E
    (\<lambda>(x, s'). I s' \<and> (x \<noteq> None \<longrightarrow> remaining s' < remaining s))"
  using I_sample [OF assms] get_next_sample_remaining [of A s]
  by (cases "get_next_sample A s") auto

lemma find_prelude_start:
  "I s \<Longrightarrow> holds (find_prelude_start A s) E (\<lambda>(l, s'). I s')"
proof (induction s rule: measure_induct_rule [of remaining])
  case (less s)
  show ?case
    by (subst find_prelude_start.simps, rule holds_bind2I [OF draw [OF less.prems]])
      (auto split: option.split intro: less.IH)
qed

lemma prelude_hf_loop:
  "I s \<Longrightarrow> holds (prelude_hf_loop A s cum count prev) E (\<lambda>(r, s'). I s')"
proof (induction s arbitrary: cum count prev rule: measure_induct_rule [of remaining])
  case (less s)
  show ?case
    by (subst prelude_hf_loop.simps, rule holds_bind2I [OF draw [OF less.prems]])
      (auto simp: Let_def I_high split: option.split intro: less.IH)
qed

lemma prelude_lf_loop:
  "I s \<Longrightarrow> holds (prelude_lf_loop A s cum count prev) E (\<lambda>(r, s'). I s')"
proof (induction s arbitrary: cum count prev rule: measure_induct_rule [of remaining])
  case (less s)
  show ?case
    by (subst prelude_lf_loop.simps, rule holds_bind2I [OF draw [OF less.prems]])
      (auto simp: Let_def I_low split: option.split intro: less.IH)
qed

lemma prelude_sync_loop:
  "I s \<Longrightarrow> holds (prelude_sync_loop A s prev) E (\<lambda>(r, s'). I s')"
proof (induction s arbitrary: prev rule: measure_induct_rule [of remaining])
  case (less s)
  show ?case
    by (subst prelude_sync_loop.simps, rule holds_bind2I [OF draw [OF less.prems]])
      (auto simp: Let_def split: option.split intro: less.IH)
qed

lemma skip_samples: "I s \<Longrightarrow> holds (skip_samples A l s) E (\<lambda>(r, s'). I s')"
proof (induction s rule: measure_induct_rule [of remaining])
  case (less s)
  show ?case
  proof (cases "get_current_read_loc s < int l")
    case True
    then show ?thesis
      by (subst skip_samples.simps, simp only: if_True,
          intro holds_bind2I [OF draw [OF less.prems]])
        (auto split: option.split intro: less.IH)
  next
    case False
    with less.prems show ?thesis by (subst skip_samples.simps) simp
  qed
qed

lemma collect_samples: "I s \<Longrightarrow> holds (collect_samples A k s) E (\<lambda>(xs, s'). I s')"
proof (induction k arbitrary: s)
  case (Suc k)
  then show ?case
    by (auto intro!: holds_bind2I [OF I_sample] split: option.split)
      (auto intro!: holds_bind2I [OF Suc.IH])
qed simp

lemma get_some_samples:
  "I s \<Longrightarrow> holds (get_some_samples A n l s) E (\<lambda>(r, s'). I s')"
  by (auto simp: get_some_samples_def intro!: holds_bind2I [OF skip_samples]
      holds_bind2I [OF collect_samples])

end

text \<open>
  The same for a bit. Converting and scanning a window change no state; they can only fail because
  the buffer is missing, too short, or the window empty.
\<close>

abbreviation buffer_fault :: "fault \<Rightarrow> bool" where
  "buffer_fault e \<equiv> e = NullDeref \<or> e = Uninit \<or> e = OutOfBounds"

lemma convert_faults: "holds (convert_samples_to_binary A s xs n) buffer_fault (\<lambda>_. True)"
  by (auto simp: convert_samples_to_binary_def split: option.split)

lemma scan_loop_faults: "holds (scan_loop A f xs prev i n) buffer_fault (\<lambda>_. True)"
proof (induction A f xs prev i n rule: scan_loop.induct)
  case (1 A f xs prev i n)
  then show ?case
    by (subst scan_loop.simps) (auto simp: Let_def)
qed

lemma scan_faults: "holds (scan_samples_for_eob_transition A s xs n) buffer_fault (\<lambda>_. True)"
  by (auto simp: scan_samples_for_eob_transition_def Let_def scan_loop_faults
      intro!: holds_bindI [OF convert_faults] split: option.split)

locale bit_inv = sample_inv +
  assumes E_buffer: "buffer_fault e \<Longrightarrow> E e"
    and I_end: "I s \<Longrightarrow> I (s\<lparr>actual_bit_end := x\<rparr>)"
    and I_cache: "I s \<Longrightarrow> I (s\<lparr>read_from_cache := rd, write_to_cache := wr\<rparr>)"
    and I_loc: "I s \<Longrightarrow> I (s\<lparr>cache_loc := l\<rparr>)"
    and I_conf: "I s \<Longrightarrow> I (s\<lparr>bit_confidence := c\<rparr>)"
begin

lemma scan: "holds (scan_samples_for_eob_transition A s xs n) E (\<lambda>_. True)"
  using scan_faults [of A s xs n] E_buffer by (cases "scan_samples_for_eob_transition A s xs n") auto

lemma convert: "holds (convert_samples_to_binary A s xs n) E (\<lambda>_. True)"
  using convert_faults [of A s xs n] E_buffer by (cases "convert_samples_to_binary A s xs n") auto

lemma get_bit: "I s \<Longrightarrow> holds (get_bit A i j s) E (\<lambda>(b, s'). I s')"
  unfolding get_bit_def Let_def
  by (rule holds_bind2I [OF get_some_samples], assumption, clarsimp,
      rule holds_bindI [OF scan], rule holds_bindI [OF convert])
    (auto intro!: I_conf I_loc I_cache I_end)

end

subsection \<open>The file is never rewound\<close>

abbreviation unread :: "('f, 'c, 'q, 'n) tpms2 \<Rightarrow> nat" where
  "unread s \<equiv> length (file_data s)"

interpretation rewind: bit_inv A "\<lambda>s. unread s \<le> k" "\<lambda>_. True"
  for A :: "('f, 'c, 'q, 'n) arith" and k :: nat
proof
  fix s :: "('f, 'c, 'q, 'n) tpms2"
  show "unread s \<le> k \<Longrightarrow> holds (get_next_sample A s) (\<lambda>_. True) (\<lambda>(x, s'). unread s' \<le> k)"
    by (auto simp: get_next_sample_def read_file_sample_def Let_def
        split: list.split prod.split)
qed auto

lemma rewind_get_second_symbol:
  "unread s \<le> k \<Longrightarrow>
   holds (get_second_symbol A i est s) (\<lambda>_. True) (\<lambda>(y, s'). unread s' \<le> k)"
  unfolding get_second_symbol_def Let_def
  by (intro holds_bind2I [OF rewind.get_bit [where k = k]])
    (auto intro!: holds_valueI)

lemma rewind_record_symbol:
  "unread s \<le> k \<Longrightarrow> holds (record_symbol f g s) (\<lambda>_. True) (\<lambda>(y, s'). unread s' \<le> k)"
  by (auto simp: record_symbol_def Let_def intro!: holds_valueI)

lemma rewind_get_symbol:
  "unread s \<le> k \<Longrightarrow>
   holds (get_symbol A i est s) (\<lambda>_. True) (\<lambda>(y, s'). unread s' \<le> k)"
  unfolding get_symbol_def Let_def
  by (auto intro!: holds_bind2I [OF rewind.get_bit [where k = k]] rewind_record_symbol
      split: option.split)

lemma rewind_packet_loop:
  "unread s \<le> k \<Longrightarrow>
   holds (packet_loop A est n syms s) (\<lambda>_. True) (\<lambda>(r, s'). unread s' \<le> k)"
proof (induction n arbitrary: syms s)
  case (Suc n)
  then show ?case
    by (auto intro!: holds_bind2I [OF rewind_get_symbol])
qed simp

lemma rewind_get_packet_symbols:
  "unread s \<le> k \<Longrightarrow>
   holds (get_packet_symbols A i n est s) (\<lambda>_. True) (\<lambda>(r, s'). unread s' \<le> k)"
  unfolding get_packet_symbols_def Let_def
  by (rule holds_bindI [where P = "\<lambda>_. True"], rule holds_valueI, rule TrueI,
      rule holds_bindI [where P = "\<lambda>_. True"], rule holds_valueI, rule TrueI,
      rule holds_bind2I [OF rewind_get_second_symbol [where k = k]])
    (auto intro!: holds_bind2I [OF rewind_packet_loop [where k = k]] split: option.split)

lemma rewind_try:
  "unread s \<le> k \<Longrightarrow>
   holds (try_to_get_packet_symbols A i n est s) (\<lambda>_. True) (\<lambda>(r, s'). unread s' \<le> k)"
  unfolding try_to_get_packet_symbols_def Let_def
  by (auto intro!: holds_bind2I [OF rewind_get_packet_symbols [where k = k]])

lemma retry_down_guard: "255013683 * orig < est * 2 ^ 28 \<Longrightarrow> est - 1 < (est::nat)"
  by (cases est) auto

lemma rewind_retry_down:
  "unread s \<le> k \<Longrightarrow>
   holds (retry_down A orig est s) (\<lambda>_. True) (\<lambda>(r, s'). unread s' \<le> k)"
proof (induction est arbitrary: s rule: less_induct)
  case (less est)
  then show ?case
    by (subst retry_down.simps)
      (auto dest: retry_down_guard intro!: holds_bind2I [OF rewind_try [where k = k]])
qed

lemma rewind_retry_up:
  "unread s \<le> k \<Longrightarrow>
   holds (retry_up A orig est s) (\<lambda>_. True) (\<lambda>(r, s'). unread s' \<le> k)"
proof (induction "2 * orig - est" arbitrary: est s rule: less_induct)
  case less
  then show ?case
    by (subst retry_up.simps)
      (auto intro!: holds_bind2I [OF rewind_try [where k = k]])
qed

lemma rewind_attempt_packet:
  "unread s \<le> k \<Longrightarrow>
   holds (attempt_packet A s) (\<lambda>_. True) (\<lambda>(r, s'). unread s' \<le> k)"
  unfolding attempt_packet_def Let_def
  by (auto intro!: holds_bind2I [OF rewind_try [where k = k]]
      holds_bind2I [OF rewind_retry_down [where k = k]] rewind_retry_up)

lemma rewind_is_valid_prelude:
  "unread s \<le> k \<Longrightarrow>
   holds (is_valid_prelude A l s) (\<lambda>_. True) (\<lambda>(r, s'). unread s' \<le> k)"
  unfolding is_valid_prelude_def Let_def
  by (rule holds_bind2I [OF rewind.I_sample [where k = k]])
    (auto intro!: holds_bind2I [OF rewind.prelude_hf_loop [where k = k]]
      holds_bind2I [OF rewind.prelude_lf_loop [where k = k]]
      holds_bind2I [OF rewind.prelude_sync_loop [where k = k]] split: option.split)

text \<open>Looking for a prelude start consumes a sample, unless the file ends.\<close>

lemma find_prelude_start_consumes:
  assumes "find_prelude_start A s = Inr (l, s')" "\<not> read_from_cache s" "\<not> file_eof s'"
  shows "unread s' < unread s"
proof (cases "get_next_sample A s")
  case (Inr r)
  then obtain x s1 where x: "get_next_sample A s = Inr (x, s1)" by (cases r) auto
  then have "unread s1 < unread s \<or> x = None \<and> file_eof s1"
    using assms(2)
    by (auto simp: get_next_sample_def read_file_sample_def Let_def
        split: list.splits if_splits prod.splits)
  moreover have "s' = s1 \<or> find_prelude_start A s1 = Inr (l, s') \<and> x \<noteq> None"
    using assms(1) x
    by (subst (asm) find_prelude_start.simps) (auto split: option.splits if_splits)
  ultimately show ?thesis
    using assms(3) holds_Inr_D [OF rewind.find_prelude_start [of s1 "unread s1" A], of "(l, s')"]
    by auto
qed (use assms(1) in \<open>subst (asm) find_prelude_start.simps, simp\<close>)

subsection \<open>The decoder's main loop and its entry points\<close>

function get_packet ::
    "('f, 'c, 'q, 'n) arith \<Rightarrow> ('f, 'c, 'q, 'n) tpms2 \<Rightarrow>
     (int list option \<times> ('f, 'c, 'q, 'n) tpms2) res" where
  "get_packet A s =
     bind_res (find_prelude_start A (s\<lparr>write_to_cache := False, read_from_cache := False\<rparr>))
       (\<lambda>(possible_prelude_loc, s).
         if file_eof s then Inr (None, s)
         else bind_res (is_valid_prelude A possible_prelude_loc s) (\<lambda>(ok, s).
           if ok then
             bind_res (attempt_packet A s) (\<lambda>(r, s).
               if r \<noteq> None then Inr (r, s) else get_packet A s)
           else get_packet A s))"
  by pat_completeness auto
termination
proof (relation "measure (\<lambda>(A, s). unread s)", goal_cases)
  case (2 A s xa x1 s1 xb ok s2 xc r s3)
  then have "unread s1 < unread s"
    using find_prelude_start_consumes [of A _ x1 s1] by fastforce
  moreover have "unread s2 \<le> unread s1" "unread s3 \<le> unread s2"
    using 2 holds_Inr_D [OF rewind_is_valid_prelude [of s1 "unread s1" A x1]]
      holds_Inr_D [OF rewind_attempt_packet [of s2 "unread s2" A]] by force+
  ultimately show ?case by simp
next
  case (3 A s xa x1 s1 xb ok s2)
  then have "unread s1 < unread s"
    using find_prelude_start_consumes [of A _ x1 s1] by fastforce
  moreover have "unread s2 \<le> unread s1"
    using 3 holds_Inr_D [OF rewind_is_valid_prelude [of s1 "unread s1" A x1]] by force
  ultimately show ?case by simp
qed simp

declare get_packet.simps [simp del]

text \<open>A rule for the main loop: what its three steps keep, it keeps.\<close>

lemma get_packet_rule:
  fixes s :: "('f, 'c, 'q, 'n) tpms2"
  assumes find: "\<And>s. I s \<Longrightarrow>
      holds (find_prelude_start A (s\<lparr>write_to_cache := False, read_from_cache := False\<rparr>)) E
        (\<lambda>(l, s'). I s')"
    and prelude: "\<And>s l. I s \<Longrightarrow> holds (is_valid_prelude A l s) E (\<lambda>(ok, s'). I s')"
    and attempt: "\<And>s. I s \<Longrightarrow> holds (attempt_packet A s) E
        (\<lambda>(r, s'). case r of None \<Rightarrow> I s' | Some p \<Rightarrow> Q p s')"
    and start: "I s"
  shows "holds (get_packet A s) E (\<lambda>(r, s'). case r of None \<Rightarrow> I s' | Some p \<Rightarrow> Q p s')"
  using start
proof (induction s rule: measure_induct_rule [of unread])
  case (less s)
  let ?s = "s\<lparr>write_to_cache := False, read_from_cache := False\<rparr>"
  have f: "holds (find_prelude_start A ?s) E
      (\<lambda>(l, s'). I s' \<and> (\<not> file_eof s' \<longrightarrow> unread s' < unread s))"
    using find [OF less.prems] find_prelude_start_consumes [of A ?s]
    by (cases "find_prelude_start A ?s") auto
  have p: "holds (is_valid_prelude A l s1) E (\<lambda>(ok, s'). I s' \<and> unread s' < unread s)"
    if "I s1" "unread s1 < unread s" for l s1
    using prelude [OF that(1), of l] rewind_is_valid_prelude [of s1 "unread s1" A l] that(2)
    by (cases "is_valid_prelude A l s1") auto
  have a: "holds (attempt_packet A s1) E (\<lambda>(r, s').
        (r = None \<longrightarrow> I s' \<and> unread s' < unread s) \<and> (\<forall>p. r = Some p \<longrightarrow> Q p s'))"
    if "I s1" "unread s1 < unread s" for s1
    using attempt [OF that(1)] rewind_attempt_packet [of s1 "unread s1" A] that(2)
    by (cases "attempt_packet A s1") (auto split: option.splits)
  show ?case
    by (subst get_packet.simps, rule holds_bind2I [OF f])
      (auto intro!: holds_bind2I [OF p] holds_bind2I [OF a] less.IH)
qed

text \<open>
  \<open>fopen\<close> is the parameter \<open>fopen\<close>: the bytes of a file that can be opened for reading. The file
  name is copied into \<open>src_name[200]\<close> after the packet has been looked for.
\<close>

definition analyze_file ::
    "(string \<Rightarrow> nat list option) \<Rightarrow> ('f, 'c, 'q, 'n) arith \<Rightarrow> string \<Rightarrow>
     ('f, 'c, 'q, 'n) tpms2 \<Rightarrow> (int \<times> ('f, 'c, 'q, 'n) tpms2) res" where
  "analyze_file fopen A src_filename s =
     (case fopen src_filename of
        None \<Rightarrow> Inr (0, s)
      | Some bs \<Rightarrow>
          bind_res (get_packet A (s\<lparr>file_data := bs, file_eof := False\<rparr>)) (\<lambda>(pkt, s).
          bind_res (c_strcpy (src_name s) src_filename) (\<lambda>a.
            let s = s\<lparr>src_name := a\<rparr>
            in Inr (if pkt \<noteq> None then 1 else 0, s))))"

definition fleet_analysis ::
    "(string \<Rightarrow> nat list option) \<Rightarrow> ('f, 'c, 'q, 'n) arith \<Rightarrow> string \<Rightarrow>
     ('f, 'c, 'q, 'n) tpms2 \<Rightarrow> (string \<times> ('f, 'c, 'q, 'n) tpms2) res" where
  "fleet_analysis fopen A fn s =
     bind_res (analyze_file fopen A fn s) (\<lambda>(analyzed_ok, s).
     bind_res
       (if analyzed_ok = 1 then
          bind_res (get_hex_address_str (symbols s)) (\<lambda>hexaddr.
            c_sprintf 250 (hexaddr @ '','' @ fmt_ld (get_temp_c (symbols s)) @ '',''
              @ fmt_lf (get_pressure_kpa (symbols s)) @ '',''))
        else Inr '',,,'') (\<lambda>returned_string.
       Inr (returned_string @ take (249 - length returned_string) fn, s)))"

definition get_success :: "('f, 'c, 'q, 'n) tpms2 \<Rightarrow> int" where
  "get_success s = (if valid_pkt s then 1 else 0)"

end
