(* ===== verification/Manchester.thy ===== *)
theory Manchester
  imports Prelude
begin

text \<open>
  The code all decoders of the repository expect on the air: differential Manchester, as a reference
  encoder from symbols to half bits, and its equations.
\<close>

subsection \<open>The differential Manchester code\<close>

text \<open>
  A symbol is two different half bits; it is a one when its first half repeats the half before it.
\<close>

fun dm_encode :: "int \<Rightarrow> int list \<Rightarrow> int list" where
  "dm_encode p [] = []"
| "dm_encode p (y # ys) = (let f = (if y = 1 then p else 1 - p) in f # (1 - f) # dm_encode (1 - f) ys)"

fun dm_last :: "int \<Rightarrow> int list \<Rightarrow> int" where
  "dm_last p [] = p"
| "dm_last p (y # ys) = dm_last (if y = 1 then 1 - p else p) ys"

definition bit_chars :: "int list \<Rightarrow> string" where
  "bit_chars bs = map (\<lambda>b. if b = 0 then CHR ''0'' else CHR ''1'') bs"

lemma dm_encode_snoc:
  "dm_encode p (ys @ [y]) = dm_encode p ys @ dm_encode (dm_last p ys) [y]"
  by (induction p ys rule: dm_encode.induct) (auto simp: Let_def)

lemma dm_last_snoc: "dm_last p (ys @ [y]) = dm_last (dm_last p ys) [y]"
  by (induction p ys rule: dm_last.induct) auto

lemma length_dm_encode [simp]: "length (dm_encode p ys) = 2 * length ys"
  by (induction p ys rule: dm_encode.induct) (auto simp: Let_def)

lemma bit_chars_append [simp]: "bit_chars (a @ b) = bit_chars a @ bit_chars b"
  by (simp add: bit_chars_def)

lemma length_bit_chars [simp]: "length (bit_chars bs) = length bs"
  by (simp add: bit_chars_def)

lemma bit_chars_no_NUL: "NUL \<notin> set (bit_chars bs)"
  by (auto simp: bit_chars_def)

lemma dm_last_bit: "p = 0 \<or> p = 1 \<Longrightarrow> dm_last p ys = 0 \<or> dm_last p ys = 1"
  by (induction p ys rule: dm_last.induct) auto

lemma dm_encode_append: "dm_encode p (xs @ ys) = dm_encode p xs @ dm_encode (dm_last p xs) ys"
  by (induction p xs rule: dm_encode.induct) (auto simp: Let_def)

lemma dm_encode_nth:
  assumes "i < length p"
  shows "dm_encode c p ! (2 * i) = (if p ! i = 1 then dm_last c (take i p) else 1 - dm_last c (take i p))"
    and "dm_encode c p ! (2 * i + 1) = 1 - dm_encode c p ! (2 * i)"
proof -
  have "p = take i p @ p ! i # drop (Suc i) p"
    using assms by (rule id_take_nth_drop)
  then have "dm_encode c p = dm_encode c (take i p) @ dm_encode (dm_last c (take i p)) (p ! i # drop (Suc i) p)"
    by (metis dm_encode_append)
  moreover have "length (dm_encode c (take i p)) = 2 * i"
    using assms by simp
  ultimately show "dm_encode c p ! (2 * i) = (if p ! i = 1 then dm_last c (take i p) else 1 - dm_last c (take i p))"
    "dm_encode c p ! (2 * i + 1) = 1 - dm_encode c p ! (2 * i)"
    by (simp_all add: nth_append Let_def)
qed

end
