(* ===== verification/Tpms2_Packet.thy ===== *)
theory Tpms2_Packet
  imports Tpms2 Manchester
begin

text \<open>
  What the decoder of \<open>Tpms2\<close> guarantees about a packet it accepts, whatever the samples and the
  arithmetic were: the symbol and bit arrays mirror the packet, the bits are the differential
  Manchester code of the symbols, and the reply of \<open>fleet_analysis\<close> fits its buffer.
\<close>

subsection \<open>Collecting symbols\<close>

text \<open>The arrays hold exactly the symbols collected so far.\<close>

definition collected :: "int list \<Rightarrow> ('f, 'c, 'q, 'n) tpms2 \<Rightarrow> bool" where
  "collected ys s \<longleftrightarrow>
     length (bits s) = 141 \<and> length (symbols s) = 70 \<and>
     (\<exists>t. bits s = bit_chars (dm_encode 0 ys) @ NUL # t) \<and>
     (\<exists>t. symbols s = bit_chars ys @ NUL # t) \<and>
     preceding_bit s = dm_last 0 ys \<and> set ys \<subseteq> {0, 1}"

lemma collected_valid [simp]: "collected ys (s\<lparr>valid_pkt := v\<rparr>) = collected ys s"
  by (simp add: collected_def)

interpretation arrays: bit_inv A
    "\<lambda>s. bits s = a \<and> symbols s = y \<and> preceding_bit s = p" "\<lambda>_. True"
  for A :: "('f, 'c, 'q, 'n) arith" and a y p
proof
  fix s :: "('f, 'c, 'q, 'n) tpms2"
  show "bits s = a \<and> symbols s = y \<and> preceding_bit s = p \<Longrightarrow>
    holds (get_next_sample A s) (\<lambda>_. True)
      (\<lambda>(x, s'). bits s' = a \<and> symbols s' = y \<and> preceding_bit s' = p)"
    by (auto simp: get_next_sample_def read_file_sample_def Let_def
        split: list.split prod.split)
qed auto

lemma get_bit_binary:
  "holds (get_bit A i j s) (\<lambda>_. True) (\<lambda>(b, s'). b = 0 \<or> b = 1)"
  by (auto simp: get_bit_def Let_def intro!: holds_valueI)

lemma get_bit_frame:
  "holds (get_bit A i j s) (\<lambda>_. True) (\<lambda>(b, s'). (b = 0 \<or> b = 1) \<and>
     bits s' = bits s \<and> symbols s' = symbols s \<and> preceding_bit s' = preceding_bit s)"
  by (rule holds_conseq [OF holds_conj [OF get_bit_binary arrays.get_bit]]) auto

lemma settle_bits_halves:
  assumes "f = 0 \<or> f = 1" "g = 0 \<or> g = 1" "settle_bits f c g d = Some (f', g')"
  shows "g' = 1 - f' \<and> (f' = 0 \<or> f' = 1)"
  using assms by (auto simp: settle_bits_def Let_def split: if_splits)

lemma append_two_at_NUL:
  assumes "length (s @ NUL # t) = n" "Suc (Suc (length s)) < n"
  shows "\<exists>u. (s @ NUL # t)[length s := c, Suc (length s) := d, Suc (Suc (length s)) := NUL]
    = (s @ [c, d]) @ NUL # u"
proof -
  from assms obtain x y v where "t = x # y # v"
    by (cases t rule: remdups_adj.cases) auto
  then show ?thesis by (simp add: list_update_append)
qed

lemma append_one_at_NUL:
  assumes "length (s @ NUL # t) = n" "Suc (length s) < n"
  shows "\<exists>u. (s @ NUL # t)[length s := c, Suc (length s) := NUL] = (s @ [c]) @ NUL # u"
proof -
  from assms obtain x v where "t = x # v" by (cases t) auto
  then show ?thesis by (simp add: list_update_append)
qed

lemma record_symbol_collects:
  assumes "collected ys s" "length ys < 69" "f = 0 \<or> f = 1" "g = 1 - f"
  shows "\<exists>y s'. record_symbol f g s = Inr (y, s') \<and> collected (ys @ [y]) s' \<and>
    y = (if dm_last 0 ys = f then 1 else 0) \<and> valid_pkt s' = valid_pkt s"
proof -
  obtain t u where a: "bits s = bit_chars (dm_encode 0 ys) @ NUL # t"
      "symbols s = bit_chars ys @ NUL # u"
    and p: "preceding_bit s = dm_last 0 ys" "set ys \<subseteq> {0, 1}"
    and len: "length (bits s) = 141" "length (symbols s) = 70"
    using assms(1) by (auto simp: collected_def)
  let ?y = "if dm_last 0 ys = f then 1 else 0 :: int"
  let ?ch = "\<lambda>b :: int. if b = 0 then CHR ''0'' else CHR ''1''"
  have "bit_chars [f, g] = [?ch f, ?ch g]" "bit_chars [?y] = [?ch ?y]"
    by (simp_all add: bit_chars_def)
  then obtain t' u' where
    upd: "(bits s)[length (bit_chars (dm_encode 0 ys)) := ?ch f,
        Suc (length (bit_chars (dm_encode 0 ys))) := ?ch g,
        Suc (Suc (length (bit_chars (dm_encode 0 ys)))) := NUL]
      = (bit_chars (dm_encode 0 ys) @ bit_chars [f, g]) @ NUL # t'"
      "(symbols s)[length (bit_chars ys) := ?ch ?y, Suc (length (bit_chars ys)) := NUL]
      = (bit_chars ys @ bit_chars [?y]) @ NUL # u'"
    using append_two_at_NUL [of "bit_chars (dm_encode 0 ys)" t 141 "?ch f" "?ch g"]
      append_one_at_NUL [of "bit_chars ys" u 70 "?ch ?y"] a len assms(2)
    by auto
  have strlen: "c_strlen (bits s) = Inr (length (bit_chars (dm_encode 0 ys)))"
    "c_strlen (symbols s) = Inr (length (bit_chars ys))"
    by (auto simp: a c_strlen_def bit_chars_no_NUL)
  have code: "dm_encode 0 (ys @ [?y]) = dm_encode 0 ys @ [f, g]" "dm_last 0 (ys @ [?y]) = g"
    using dm_last_bit [of 0 ys] assms(3,4)
    by (auto simp: dm_encode_snoc dm_last_snoc Let_def)
  have "2 * length ys + length t' = 138" "length ys + length u' = 68"
    using arg_cong [OF upd(1), of length] arg_cong [OF upd(2), of length] len by simp_all
  then show ?thesis
    using upd len assms(2) p(2) unfolding code [symmetric]
    by (auto simp: record_symbol_def Let_def strlen arr_write_def p(1) collected_def code)
qed

lemma get_symbol_collects:
  fixes s :: "('f, 'c, 'q, 'n) tpms2"
  assumes "collected ys s" "length ys < 69"
  shows "holds (get_symbol A i est s) (\<lambda>_. True)
    (\<lambda>(y, s'). valid_pkt s' \<longrightarrow> collected (ys @ [y]) s')"
proof -
  have "holds (case settle_bits f c g d of
        None \<Rightarrow> Inr (0, s2\<lparr>valid_pkt := False\<rparr>) | Some (f, g) \<Rightarrow> record_symbol f g s2)
      (\<lambda>_. True) (\<lambda>(y, s'). valid_pkt s' \<longrightarrow> collected (ys @ [y]) s')"
    if fg: "bits s2 = bits s" "symbols s2 = symbols s" "preceding_bit s2 = preceding_bit s"
      "f = 0 \<or> f = 1" "g = 0 \<or> g = 1" for s2 :: "('f, 'c, 'q, 'n) tpms2" and f g c d
  proof (cases "settle_bits f c g d")
    case (Some h)
    obtain f' g' where h: "h = (f', g')" by (cases h)
    have "collected ys s2"
      using assms(1) fg by (simp add: collected_def)
    from record_symbol_collects [OF this assms(2)] obtain y s' where
      "record_symbol f' g' s2 = Inr (y, s')" "collected (ys @ [y]) s'"
      using settle_bits_halves [OF fg(4,5) Some [unfolded h]] by blast
    with Some h show ?thesis by simp
  qed simp
  note settled = this
  show ?thesis
    unfolding get_symbol_def Let_def
    by (rule holds_bind2I [OF get_bit_frame], unfold prod.case, rule holds_bind2I [OF get_bit_frame],
        unfold prod.case, rule settled) auto
qed

lemma get_second_symbol_collects:
  assumes "length (bits s) = 141" "length (symbols s) = 70"
    "bits s = ''011'' @ NUL # t" "symbols s = ''1'' @ NUL # u"
  shows "holds (get_second_symbol A i est s) (\<lambda>_. True)
    (\<lambda>(y, s'). valid_pkt s' \<longrightarrow> collected [1, y] s' \<and> y = 1)"
proof -
  have len: "length t = 137" "length u = 68"
    using assms by simp_all
  obtain b1 t' where t: "t = b1 # t'" using len by (cases t) auto
  obtain c1 u' where u: "u = c1 # u'" using len by (cases u) auto
  have "\<exists>t'. (''011'' @ NUL # t)[3 := CHR ''0'', 4 := NUL] = bit_chars [0, 1, 1, 0] @ NUL # t'"
    "\<exists>u'. (''1'' @ NUL # u)[Suc 0 := CHR ''1'', 2 := NUL] = bit_chars [1, 1] @ NUL # u'"
    by (simp_all add: t u bit_chars_def numeral_eq_Suc)
  then show ?thesis
    unfolding get_second_symbol_def Let_def
    by (intro holds_bind2I [OF get_bit_frame])
      (auto simp: arr_write_def assms collected_def len)
qed

lemma take_snoc_prefix:
  assumes "take (Suc (length ys)) p = ys @ [y]"
  shows "take (length ys) p = ys"
proof -
  have "take (length ys) p = take (length ys) (take (Suc (length ys)) p)" by (simp add: min_def)
  also have "\<dots> = ys" by (simp only: assms) simp
  finally show ?thesis .
qed

lemma packet_loop_collects:
  "collected ys s \<Longrightarrow> length ys + k \<le> 69 \<Longrightarrow>
   holds (packet_loop A est k ys s) (\<lambda>_. True)
     (\<lambda>(r, s'). case r of None \<Rightarrow> True
        | Some p \<Rightarrow> collected p s' \<and> length p = length ys + k \<and> take (length ys) p = ys)"
proof (induction k arbitrary: ys s)
  case (Suc k)
  have "holds (packet_loop A est k (ys @ [y]) s1) (\<lambda>_. True)
     (\<lambda>(r, s'). case r of None \<Rightarrow> True
        | Some p \<Rightarrow> collected p s' \<and> length p = length ys + Suc k \<and> take (length ys) p = ys)"
    if "collected (ys @ [y]) s1" for y s1
    by (rule holds_conseq [OF Suc.IH [OF that]])
      (use Suc.prems in \<open>auto split: option.splits dest: take_snoc_prefix\<close>)
  with Suc.prems show ?case
    by (auto intro!: holds_bind2I [OF get_symbol_collects [of ys]])
qed simp

subsection \<open>Accepted packets\<close>

definition arrays_ok :: "('f, 'c, 'q, 'n) tpms2 \<Rightarrow> bool" where
  "arrays_ok s \<longleftrightarrow> length (bits s) = 141 \<and> length (symbols s) = 70"

definition accepted :: "int list \<Rightarrow> ('f, 'c, 'q, 'n) tpms2 \<Rightarrow> bool" where
  "accepted p s \<longleftrightarrow>
     collected p s \<and> length p = 69 \<and> p ! 0 = 1 \<and> p ! 1 = 1 \<and> validate_packet p 69 \<and> valid_pkt s"

text \<open>The result of an operation that may return an accepted packet.\<close>

definition packet_result :: "int list option \<times> ('f, 'c, 'q, 'n) tpms2 \<Rightarrow> bool" where
  "packet_result = (\<lambda>(r, s). arrays_ok s \<and> (case r of None \<Rightarrow> True | Some p \<Rightarrow> accepted p s))"

lemma packet_result_simps [simp]:
  "packet_result (None, s) = arrays_ok s"
  "packet_result (Some p, s) \<longleftrightarrow> arrays_ok s \<and> accepted p s"
  by (simp_all add: packet_result_def)

lemma arrays_ok_updates [simp]:
  "arrays_ok (s\<lparr>file_data := v0\<rparr>) = arrays_ok s"
  "arrays_ok (s\<lparr>file_eof := v1\<rparr>) = arrays_ok s"
  "arrays_ok (s\<lparr>front_end := v2\<rparr>) = arrays_ok s"
  "arrays_ok (s\<lparr>src_name := v3\<rparr>) = arrays_ok s"
  "arrays_ok (s\<lparr>total_samples_in := v4\<rparr>) = arrays_ok s"
  "arrays_ok (s\<lparr>samples_per_sym := v5\<rparr>) = arrays_ok s"
  "arrays_ok (s\<lparr>sync_bits_start := v6\<rparr>) = arrays_ok s"
  "arrays_ok (s\<lparr>sync_bits_end := v7\<rparr>) = arrays_ok s"
  "arrays_ok (s\<lparr>valid_pkt := v8\<rparr>) = arrays_ok s"
  "arrays_ok (s\<lparr>high_freq_known := v9\<rparr>) = arrays_ok s"
  "arrays_ok (s\<lparr>low_freq_known := v10\<rparr>) = arrays_ok s"
  "arrays_ok (s\<lparr>high_freq := v11\<rparr>) = arrays_ok s"
  "arrays_ok (s\<lparr>low_freq := v12\<rparr>) = arrays_ok s"
  "arrays_ok (s\<lparr>prelude_hf_start := v13\<rparr>) = arrays_ok s"
  "arrays_ok (s\<lparr>prelude_lf_start := v14\<rparr>) = arrays_ok s"
  "arrays_ok (s\<lparr>preceding_bit := v15\<rparr>) = arrays_ok s"
  "arrays_ok (s\<lparr>bit_confidence := v16\<rparr>) = arrays_ok s"
  "arrays_ok (s\<lparr>actual_bit_end := v17\<rparr>) = arrays_ok s"
  "arrays_ok (s\<lparr>read_from_cache := v18\<rparr>) = arrays_ok s"
  "arrays_ok (s\<lparr>write_to_cache := v19\<rparr>) = arrays_ok s"
  "arrays_ok (s\<lparr>cache_loc := v20\<rparr>) = arrays_ok s"
  "arrays_ok (s\<lparr>cache_count := v21\<rparr>) = arrays_ok s"
  "arrays_ok (s\<lparr>symbol_cache := v22\<rparr>) = arrays_ok s"
  "arrays_ok (s\<lparr>cache_loc_in_file := v23\<rparr>) = arrays_ok s"
  by (simp_all add: arrays_ok_def)

interpretation arrays_len: bit_inv A arrays_ok "\<lambda>_. True"
  for A :: "('f, 'c, 'q, 'n) arith"
proof
  fix s :: "('f, 'c, 'q, 'n) tpms2"
  show "arrays_ok s \<Longrightarrow> holds (get_next_sample A s) (\<lambda>_. True) (\<lambda>(x, s'). arrays_ok s')"
    by (auto simp: get_next_sample_def read_file_sample_def Let_def arrays_ok_def
        split: list.split prod.split)
qed (auto simp: arrays_ok_def)

lemma arrays_record_symbol:
  "arrays_ok s \<Longrightarrow> holds (record_symbol f g s) (\<lambda>_. True) (\<lambda>(y, s'). arrays_ok s')"
  by (auto simp: record_symbol_def Let_def arrays_ok_def intro!: holds_valueI)

lemma arrays_get_symbol:
  "arrays_ok s \<Longrightarrow> holds (get_symbol A i est s) (\<lambda>_. True) (\<lambda>(y, s'). arrays_ok s')"
  unfolding get_symbol_def Let_def
  by (auto intro!: holds_bind2I [OF arrays_len.get_bit] arrays_record_symbol split: option.split)

lemma arrays_get_second_symbol:
  "arrays_ok s \<Longrightarrow> holds (get_second_symbol A i est s) (\<lambda>_. True) (\<lambda>(y, s'). arrays_ok s')"
  unfolding get_second_symbol_def Let_def
  by (intro holds_bind2I [OF arrays_len.get_bit]) (auto simp: arrays_ok_def intro!: holds_valueI)

lemma arrays_packet_loop:
  "arrays_ok s \<Longrightarrow> holds (packet_loop A est k ys s) (\<lambda>_. True) (\<lambda>(r, s'). arrays_ok s')"
  by (induction k arbitrary: ys s) (auto intro!: holds_bind2I [OF arrays_get_symbol])

lemma take2_nth: "take (Suc (Suc 0)) p = [a, b] \<Longrightarrow> p ! 0 = a \<and> p ! Suc 0 = b"
  using nth_take [of 0 "Suc (Suc 0)" p] nth_take [of 1 "Suc (Suc 0)" p] by simp

lemma get_packet_symbols_result:
  fixes s :: "('f, 'c, 'q, 'n) tpms2"
  assumes "arrays_ok s"
  shows "holds (get_packet_symbols A i 69 est s) (\<lambda>_. True) packet_result"
proof -
  let ?s = "s\<lparr>bits := ''011'' @ NUL # drop 4 (bits s), symbols := ''1'' @ NUL # drop 2 (symbols s)\<rparr>"
  have len: "length (bits ?s) = 141" "length (symbols ?s) = 70"
    using assms by (simp_all add: arrays_ok_def)
  have loop: "holds (packet_loop A est 67 [1, y] s1) (\<lambda>_. True)
      (\<lambda>(r, s'). arrays_ok s' \<and> (case r of None \<Rightarrow> True
         | Some p \<Rightarrow> collected p s' \<and> length p = 69 \<and> take (length [1, y]) p = [1, y]))"
    if "collected [1, y] s1" "arrays_ok s1" for y s1
    using holds_conj [OF arrays_packet_loop [OF that(2)]
        packet_loop_collects [OF that(1), where k = 67]]
    by (rule holds_conseq) (auto split: option.splits)
  have second: "holds (get_second_symbol A i est ?s) (\<lambda>_. True)
      (\<lambda>(y, s'). arrays_ok s' \<and> (valid_pkt s' \<longrightarrow> collected [1, y] s' \<and> y = 1))"
  proof (rule holds_conseq [OF holds_conj])
    show "holds (get_second_symbol A i est ?s) (\<lambda>_. True) (\<lambda>(y, s'). arrays_ok s')"
      using len by (intro arrays_get_second_symbol) (simp add: arrays_ok_def)
    show "holds (get_second_symbol A i est ?s) (\<lambda>_. True)
        (\<lambda>(y, s'). valid_pkt s' \<longrightarrow> collected [1, y] s' \<and> y = 1)"
      by (rule get_second_symbol_collects [OF len]) simp_all
  qed auto
  have copy: "c_strcpy (bits s) ''011'' = Inr (''011'' @ NUL # drop 4 (bits s))"
    "c_strcpy (symbols s) ''1'' = Inr (''1'' @ NUL # drop 2 (symbols s))"
    using assms by (auto simp: c_strcpy_def arrays_ok_def numeral_eq_Suc)
  show ?thesis
    unfolding get_packet_symbols_def Let_def copy bind_res_Inr
    by (rule holds_bind2I [OF second])
      (auto intro!: holds_bind2I [OF loop] split: option.splits simp: accepted_def
        dest: take2_nth)
qed

lemma try_result:
  "arrays_ok s \<Longrightarrow> holds (try_to_get_packet_symbols A i 69 est s) (\<lambda>_. True) packet_result"
  unfolding try_to_get_packet_symbols_def Let_def
  by (auto intro!: holds_bind2I [OF get_packet_symbols_result])
    (auto simp: packet_result_def accepted_def)

lemma retry_down_result:
  "arrays_ok s \<Longrightarrow> holds (retry_down A orig est s) (\<lambda>_. True) packet_result"
proof (induction est arbitrary: s rule: less_induct)
  case (less est)
  then show ?case
    by (subst retry_down.simps)
      (auto simp: SYMBOLS_PER_MSG_def packet_result_def dest: retry_down_guard
        intro!: holds_bind2I [OF try_result])
qed

lemma retry_up_result:
  "arrays_ok s \<Longrightarrow> holds (retry_up A orig est s) (\<lambda>_. True) packet_result"
proof (induction "2 * orig - est" arbitrary: est s rule: less_induct)
  case less
  then show ?case
    by (subst retry_up.simps)
      (auto simp: SYMBOLS_PER_MSG_def packet_result_def intro!: holds_bind2I [OF try_result])
qed

lemma attempt_packet_result:
  fixes s :: "('f, 'c, 'q, 'n) tpms2"
  assumes "arrays_ok s"
  shows "holds (attempt_packet A s) (\<lambda>_. True) packet_result"
proof -
  have "holds (if r \<noteq> None then Inr (r, s1)
      else retry_up A k (k + 1) s1) (\<lambda>_. True) packet_result"
    if "packet_result (r, s1)" for r and s1 :: "('f, 'c, 'q, 'n) tpms2" and k
    using that retry_up_result [of s1] by (cases r) auto
  then show ?thesis
    unfolding attempt_packet_def Let_def SYMBOLS_PER_MSG_def
    using assms
    by (intro holds_bind2I [OF try_result])
      (auto intro!: holds_bind2I [OF retry_down_result] simp: packet_result_def)
qed

lemma is_valid_prelude_arrays:
  "arrays_ok s \<Longrightarrow> holds (is_valid_prelude A l s) (\<lambda>_. True) (\<lambda>(r, s'). arrays_ok s')"
  unfolding is_valid_prelude_def Let_def
  by (rule holds_bind2I [OF arrays_len.I_sample])
    (auto intro!: holds_bind2I [OF arrays_len.prelude_hf_loop]
      holds_bind2I [OF arrays_len.prelude_lf_loop]
      holds_bind2I [OF arrays_len.prelude_sync_loop] split: option.split)

lemma get_packet_result:
  assumes "arrays_ok s"
  shows "holds (get_packet A s) (\<lambda>_. True) packet_result"
proof -
  have "holds (get_packet A s) (\<lambda>_. True)
      (\<lambda>(r, s'). case r of None \<Rightarrow> arrays_ok s' | Some p \<Rightarrow> arrays_ok s' \<and> accepted p s')"
  proof (rule get_packet_rule [where I = arrays_ok])
    fix s :: "('a, 'b, 'c, 'd) tpms2" and l
    assume ok: "arrays_ok s"
    then show "holds (find_prelude_start A (s\<lparr>write_to_cache := False, read_from_cache := False\<rparr>))
        (\<lambda>_. True) (\<lambda>(l, s'). arrays_ok s')"
      by (intro arrays_len.find_prelude_start) simp
    show "holds (is_valid_prelude A l s) (\<lambda>_. True) (\<lambda>(r, s'). arrays_ok s')"
      by (rule is_valid_prelude_arrays [OF ok])
    show "holds (attempt_packet A s) (\<lambda>_. True)
        (\<lambda>(r, s'). case r of None \<Rightarrow> arrays_ok s' | Some p \<Rightarrow> arrays_ok s' \<and> accepted p s')"
      using attempt_packet_result [OF ok, of A]
      by (rule holds_conseq) (auto split: option.splits)
  qed fact
  then show ?thesis
    by (rule holds_conseq) (auto simp: packet_result_def split: option.splits)
qed

subsection \<open>The reply\<close>

definition packet_field :: "int list \<Rightarrow> nat \<Rightarrow> nat \<Rightarrow> nat" where
  "packet_field p i j = bits_val (map (\<lambda>k. p ! k = 1) [i..<j])"

text \<open>Address, temperature and pressure as text, each followed by a comma.\<close>

definition packet_report :: "int list \<Rightarrow> string" where
  "packet_report p =
     fmt_lX (packet_field p 2 30) @ '','' @ fmt_ld (int (packet_field p 52 60) - 40) @ '',''
       @ fmt_lf (of_nat (packet_field p 36 44) * 5 / 2 - 100) @ '',''"

lemma field_bit_chars:
  assumes "set p \<subseteq> {0, 1}" "j \<le> length p"
  shows "field (bit_chars p @ t) i j = map (\<lambda>k. p ! k = 1) [i..<j]"
proof -
  have "p ! k = 0 \<or> p ! k = 1" if "k < length p" for k
    using assms(1) nth_mem [OF that] by blast
  then have "(bit_chars p @ t) ! k = CHR ''1'' \<longleftrightarrow> p ! k = 1" if "k < j" for k
    using assms(2) that less_le_trans [OF that assms(2)]
    by (fastforce simp: bit_chars_def nth_append)
  then show ?thesis by (auto simp: field_def)
qed

lemma collected_fields:
  assumes "collected p s" "length p = 69"
  shows "get_dec_address_val (symbols s) = packet_field p 2 30"
    and "get_temp_c (symbols s) = int (packet_field p 52 60) - 40"
    and "get_pressure_kpa (symbols s) = of_nat (packet_field p 36 44) * 5 / 2 - 100"
proof -
  from assms obtain t where "symbols s = bit_chars p @ t" "set p \<subseteq> {0, 1}"
    by (auto simp: collected_def)
  with assms(2) show "get_dec_address_val (symbols s) = packet_field p 2 30"
    "get_temp_c (symbols s) = int (packet_field p 52 60) - 40"
    "get_pressure_kpa (symbols s) = of_nat (packet_field p 36 44) * 5 / 2 - 100"
    by (simp_all add: get_dec_address_val_field get_temp_c_field get_pressure_kpa_field
        field_bit_chars packet_field_def)
qed

lemma length_fmt_lf:
  assumes "\<bar>r\<bar> < 1000"
  shows "length (fmt_lf r) \<le> 11"
proof -
  let ?m = "nat \<lfloor>\<bar>r\<bar> * 1000000\<rfloor>"
  have "\<bar>r\<bar> * 1000000 < 1000000000" using assms by simp
  then have "\<lfloor>\<bar>r\<bar> * 1000000\<rfloor> < 1000000000"
    by (simp add: floor_less_iff)
  then have "?m < 1000000000" by linarith
  then have "?m div 1000000 < 10 ^ 3" by (simp add: less_mult_imp_div_less)
  then have "length (digits_of 10 (?m div 1000000)) \<le> 3"
    by (intro length_digits_of) auto
  moreover have "length (digits_of 10 (?m mod 1000000)) \<le> 6"
    by (intro length_digits_of) auto
  ultimately show ?thesis by (auto simp: fmt_lf_def Let_def)
qed

lemma length_fmt_ld: "- 1000 < i \<Longrightarrow> i < 1000 \<Longrightarrow> length (fmt_ld i) \<le> 4"
  using length_digits_of [of 10 "nat i" 3] length_digits_of [of 10 "nat (- i)" 3]
  by (cases "i < 0") (auto simp: fmt_ld_def nat_less_iff)

lemma packet_report_length: "length (packet_report p) \<le> 25"
proof -
  have b: "packet_field p 2 30 < 2 ^ 28" "packet_field p 52 60 < 256" "packet_field p 36 44 < 256"
    using bits_val_bound [of "map (\<lambda>k. p ! k = 1) [2..<30]"]
      bits_val_bound [of "map (\<lambda>k. p ! k = 1) [52..<60]"]
      bits_val_bound [of "map (\<lambda>k. p ! k = 1) [36..<44]"]
    by (simp_all add: packet_field_def del: upt_rec_numeral)
  have "(of_nat (packet_field p 36 44) :: rat) \<le> of_nat 255"
    using b(3) by (simp only: of_nat_le_iff)
  then have "\<bar>of_nat (packet_field p 36 44) * 5 / 2 - 100 :: rat\<bar> < 1000"
    by (simp add: abs_if)
  from length_fmt_lf [OF this] length_fmt_ld [of "int (packet_field p 52 60) - 40"]
    length_digits_of [of 16 "packet_field p 2 30" 7] b
  show ?thesis by (simp add: packet_report_def fmt_lX_def)
qed

lemma reply_of_collected:
  assumes "collected p s" "length p = 69"
  shows "bind_res (get_hex_address_str (symbols s)) (\<lambda>hexaddr.
      c_sprintf 250 (hexaddr @ '','' @ fmt_ld (get_temp_c (symbols s)) @ '',''
        @ fmt_lf (get_pressure_kpa (symbols s)) @ '','')) = Inr (packet_report p)"
  using packet_report_length [of p]
  by (simp add: get_hex_address_str_eq collected_fields [OF assms] packet_report_def c_sprintf_def)

lemma accepted_pressure:
  assumes "accepted p s"
  shows "40 \<le> packet_field p 36 44"
proof -
  have "map (\<lambda>k. p ! k = 1) [36..<44] = map (\<lambda>i. p ! (i + 36) = 1) [0..<8]"
    by (simp add: upt_rec)
  with assms show ?thesis
    by (auto simp: accepted_def collected_def validate_packet_eq packet_field_def
        simp del: upt_rec_numeral upt_conv_Cons)
qed

lemma analyze_file_sound:
  assumes "arrays_ok s"
  shows "holds (analyze_file fopen A fn s) (\<lambda>_. True)
    (\<lambda>(ok, s'). arrays_ok s' \<and> (ok = 1 \<longrightarrow> (\<exists>p. accepted p s')))"
proof -
  have src: "accepted p (s\<lparr>src_name := a\<rparr>) = accepted p s" for p a and s :: "('a,'b,'c,'d) tpms2"
    by (simp add: accepted_def collected_def)
  have copy: "holds (bind_res (c_strcpy (src_name s1) fn) (\<lambda>a.
        Inr (if pkt \<noteq> None then 1 else 0 :: int, s1\<lparr>src_name := a\<rparr>))) (\<lambda>_. True)
      (\<lambda>(ok, s'). arrays_ok s' \<and> (ok = 1 \<longrightarrow> (\<exists>p. accepted p s')))"
    if "packet_result (pkt, s1)" for pkt and s1 :: "('a, 'b, 'c, 'd) tpms2"
    using that by (cases pkt; cases "c_strcpy (src_name s1) fn") (auto simp: src)
  show ?thesis
    unfolding analyze_file_def Let_def
    using assms copy
    by (auto intro!: holds_bind2I [OF get_packet_result] split: option.split)
qed

definition sound_packet :: "int list \<Rightarrow> ('f, 'c, 'q, 'n) tpms2 \<Rightarrow> bool" where
  "sound_packet p s \<longleftrightarrow>
     length p = 69 \<and> set p \<subseteq> {0, 1} \<and> p ! 0 = 1 \<and> p ! 1 = 1 \<and> p ! 68 = 1 \<and>
     40 \<le> packet_field p 36 44 \<and> (\<forall>i < 8. p ! (36 + i) \<noteq> p ! (44 + i)) \<and>
     c_str (symbols s) = bit_chars p \<and> c_str (bits s) = bit_chars (dm_encode 0 p)"

lemma accepted_sound: "accepted p s \<Longrightarrow> sound_packet p s"
  using accepted_pressure [of p s] validate_packet_eq [of p 69]
  by (auto simp: accepted_def collected_def bit_chars_no_NUL sound_packet_def)

definition reply_ok :: "string \<Rightarrow> string \<times> ('f, 'c, 'q, 'n) tpms2 \<Rightarrow> bool" where
  "reply_ok fn = (\<lambda>(reply, s). length reply \<le> 249 \<and>
     (reply = take 249 ('',,,'' @ fn) \<or>
      (\<exists>p. reply = take 249 (packet_report p @ fn) \<and> sound_packet p s)))"

lemma analysis_reply:
  assumes "length (bits s) = 141" "length (symbols s) = 70"
  shows "holds (fleet_analysis fopen A fn s) (\<lambda>_. True) (reply_ok fn)"
proof (unfold fleet_analysis_def, rule holds_bind2I [OF analyze_file_sound])
  show "arrays_ok s" using assms by (simp add: arrays_ok_def)
next
  fix k and s' :: "('a, 'b, 'c, 'd) tpms2"
  have cut: "h @ take (249 - length h) fn = take 249 (h @ fn)" if "length h \<le> 249" for h
    using that by simp
  assume "case (k, s') of (ok, s') \<Rightarrow> arrays_ok s' \<and> (ok = 1 \<longrightarrow> (\<exists>p. accepted p s'))"
  then have k: "k = 1 \<longrightarrow> (\<exists>p. accepted p s')" by simp
  show "holds (case (k, s') of (analyzed_ok, s) \<Rightarrow> bind_res (if analyzed_ok = 1 then
      bind_res (get_hex_address_str (symbols s)) (\<lambda>hexaddr. c_sprintf 250
        (hexaddr @ '','' @ fmt_ld (get_temp_c (symbols s)) @ '',''
          @ fmt_lf (get_pressure_kpa (symbols s)) @ '',''))
      else Inr '',,,'') (\<lambda>h. Inr (h @ take (249 - length h) fn, s))) (\<lambda>_. True) (reply_ok fn)"
  proof (cases "k = 1")
    case True
    with k obtain p where p: "accepted p s'" by blast
    then have "collected p s'" "length p = 69" by (auto simp: accepted_def)
    note body = reply_of_collected [OF this]
    have len: "length (packet_report p) \<le> 249"
      using packet_report_length [of p] by simp
    have "reply_ok fn (take 249 (packet_report p @ fn), s')"
      using accepted_sound [OF p] unfolding reply_ok_def by auto
    with True show ?thesis
      by (simp only: prod.case if_True refl body bind_res_Inr cut [OF len] holds_Inr)
  qed (simp add: reply_ok_def)
qed

text \<open>
  C1. The decoder's reply. Whatever the capture holds and whatever the floating-point operations do,
  a call of \<open>fleet_analysis\<close> that returns gives at most 249 characters, which fit the buffer of 250;
  it is three commas and the file name, or the report of a packet and the file name, cut at 249.
  Such a packet has 69 binary symbols starting 1, 1; it passes \<open>validate_packet\<close>, so its stop symbol
  is 1, its pressure byte is at least 40 and the complement byte agrees; the static array \<open>symbols\<close>
  holds it, and \<open>bits\<close> holds its differential Manchester code.
\<close>

theorem fleet_analysis_reply:
  assumes "length (bits s) = 141" "length (symbols s) = 70"
  shows "holds (fleet_analysis fopen A fn s) (\<lambda>_. True) (reply_ok fn)"
  using assms by (rule analysis_reply)

subsection \<open>A receiver on rationals\<close>

text \<open>
  An instance of the receiver for examples: a sample is the pair of its bytes, the first standing
  for the amplitude in 128ths and the second for the phase in 40ths of a turn of 44/7; the filter
  and the oscillator pass samples on.
\<close>

definition rat_receiver :: "(rat, nat \<times> nat, unit, unit) arith" where
  "rat_receiver = \<lparr>iq_sample = Pair, create_filter = (), create_nco = (),
     iirfilt_execute = (\<lambda>q x. (x, q)), nco_mix_down = (\<lambda>n x. x), nco_step = (\<lambda>n. n),
     creal = (\<lambda>(i, q). of_nat i / 128), carg = (\<lambda>(i, q). of_nat q * 11 / 70),
     f_lit = (\<lambda>r. r), two_pi = 44 / 7, f_add = (+), f_sub = (-), f_div = (/),
     f_mod = (\<lambda>a b. a - b * of_int \<lfloor>a / b\<rfloor>), f_abs = abs, f_le = (\<le>), f_lt = (<), f_eq = (=)\<rparr>"

definition initial_state :: "(rat, nat \<times> nat, unit, unit) tpms2" where
  "initial_state = \<lparr>file_data = [], file_eof = False, front_end = None,
     src_name = replicate 200 NUL, symbols = replicate 70 NUL, bits = replicate 141 NUL,
     total_samples_in = 0, samples_per_sym = 0, sync_bits_start = 0, sync_bits_end = 0,
     valid_pkt = False, high_freq_known = False, low_freq_known = False, high_freq = 0,
     low_freq = 0, prelude_hf_start = 0, prelude_lf_start = 0, preceding_bit = - 1,
     bit_confidence = 0, actual_bit_end = 0, read_from_cache = False, write_to_cache = True,
     cache_loc = 0, cache_count = 0, symbol_cache = (\<lambda>_. (0, 0)), cache_loc_in_file = 0\<rparr>"

theorem fleet_analysis_reply_witness:
  "holds (fleet_analysis (\<lambda>f. if f = ''cap'' then Some [10, 0, 20, 1] else None) rat_receiver
     ''cap'' initial_state) (\<lambda>_. True) (reply_ok ''cap'')"
  by (rule fleet_analysis_reply) (simp_all add: initial_state_def)

end
