(* ===== verification/Tpms2_Tape.thy ===== *)
theory Tpms2_Tape
  imports Tpms2_Packet
begin

text \<open>
  The abstract view of the sample cache of \<open>Tpms2\<close>: during a first attempt at a packet the cache and
  the rest of the file are one tape of samples that can be rewound. On that view the decoder is
  proved to find exactly the packet that an ideal transmission carries.
\<close>

subsection \<open>The tape\<close>

fun front_run :: "('f, 'c, 'q, 'n) arith \<Rightarrow> 'q \<times> 'n \<Rightarrow> nat list \<Rightarrow> 'c list" where
  "front_run A d (b0 # b1 # rest) =
     (let (x, q) = iirfilt_execute A (fst d) (iq_sample A b0 b1)
      in nco_mix_down A (snd d) x # front_run A (q, nco_step A (snd d)) rest)"
| "front_run A d _ = []"

definition filled :: "('f, 'c, 'q, 'n) tpms2 \<Rightarrow> nat" where
  "filled s = nat (if write_to_cache s then cache_loc s else cache_count s)"

definition front_of :: "('f, 'c, 'q, 'n) arith \<Rightarrow> ('f, 'c, 'q, 'n) tpms2 \<Rightarrow> 'q \<times> 'n" where
  "front_of A s = (case front_end s of None \<Rightarrow> (create_filter A, create_nco A) | Some d \<Rightarrow> d)"

definition tape :: "('f, 'c, 'q, 'n) arith \<Rightarrow> ('f, 'c, 'q, 'n) tpms2 \<Rightarrow> 'c list" where
  "tape A s =
     map (\<lambda>i. symbol_cache s (int i)) [0..<filled s] @ front_run A (front_of A s) (file_data s)"

definition on_tape :: "('f, 'c, 'q, 'n) tpms2 \<Rightarrow> bool" where
  "on_tape s \<longleftrightarrow>
     read_from_cache s = (\<not> write_to_cache s) \<and> 0 \<le> cache_loc s \<and>
     (read_from_cache s \<longrightarrow> cache_loc s \<le> cache_count s) \<and>
     (write_to_cache s \<longrightarrow> cache_loc s = 0 \<or> cache_count s = cache_loc s) \<and>
     total_samples_in s = cache_loc_in_file s + filled s \<and> filled s < 65535"

text \<open>What moving on the tape leaves alone.\<close>

definition same_frame :: "('f, 'c, 'q, 'n) tpms2 \<Rightarrow> ('f, 'c, 'q, 'n) tpms2 \<Rightarrow> bool" where
  "same_frame s s' \<longleftrightarrow>
     cache_loc_in_file s' = cache_loc_in_file s \<and> high_freq s' = high_freq s \<and>
     low_freq s' = low_freq s \<and> bits s' = bits s \<and> symbols s' = symbols s \<and>
     preceding_bit s' = preceding_bit s \<and> valid_pkt s' = valid_pkt s"

text \<open>The tape is at position \<open>p\<close> after a move from \<open>s\<close>.\<close>

definition moved :: "('f, 'c, 'q, 'n) arith \<Rightarrow> ('f, 'c, 'q, 'n) tpms2 \<Rightarrow> nat \<Rightarrow>
    ('f, 'c, 'q, 'n) tpms2 \<Rightarrow> bool" where
  "moved A s p s' \<longleftrightarrow>
     on_tape s' \<and> tape A s' = tape A s \<and> cache_loc s' = int p \<and>
     filled s' = max (filled s) p \<and> same_frame s s'"

lemma same_frame_refl [simp]: "same_frame s s"
  by (simp add: same_frame_def)

lemma moved_trans: "moved A s p s' \<Longrightarrow> moved A s' q s'' \<Longrightarrow> p \<le> q \<Longrightarrow> moved A s q s''"
  by (auto simp: moved_def same_frame_def)

lemma moved_refl: "on_tape s \<Longrightarrow> cache_loc s = int p \<Longrightarrow> p \<le> filled s \<Longrightarrow> moved A s p s"
  by (simp add: moved_def)

lemma on_tape_le: "on_tape s \<Longrightarrow> cache_loc s = int p \<Longrightarrow> p \<le> filled s"
  by (auto simp: on_tape_def filled_def)

lemma front_run_step:
  assumes "front_run A d bs = x # xs"
  obtains b0 b1 rest y q where "bs = b0 # b1 # rest"
    "iirfilt_execute A (fst d) (iq_sample A b0 b1) = (y, q)" "x = nco_mix_down A (snd d) y"
    "xs = front_run A (q, nco_step A (snd d)) rest"
  using assms by (cases "(A, d, bs)" rule: front_run.cases) (auto split: prod.splits)

text \<open>Drawing a sample reads the tape and moves one place on.\<close>

lemma get_next_sample_cached:
  assumes "on_tape s" "cache_loc s = int p" "p < filled s"
  shows "\<exists>s'. get_next_sample A s = Inr (Some (tape A s ! p), s') \<and> moved A s (Suc p) s'"
proof -
  let ?s = "(if front_end s = None then s\<lparr>front_end := Some (create_filter A, create_nco A)\<rparr>
    else s)\<lparr>cache_loc := cache_loc s + 1\<rparr>"
  have rd: "read_from_cache s" "\<not> write_to_cache s" "filled s = nat (cache_count s)"
    using assms by (auto simp: on_tape_def filled_def)
  have "get_next_sample A s = Inr (Some (symbol_cache s (int p)), ?s)"
    using assms rd by (auto simp: get_next_sample_def Let_def CACHE_SIZE_def on_tape_def)
  moreover have "symbol_cache s (int p) = tape A s ! p"
    using assms(3) by (simp add: tape_def nth_append)
  moreover have "moved A s (Suc p) ?s"
    using assms rd
    by (auto simp: moved_def on_tape_def filled_def tape_def front_of_def same_frame_def)
  ultimately show ?thesis by auto
qed

lemma read_file_sample_tape:
  assumes "front_end s = Some d" "file_data s = b0 # b1 # rest" "write_to_cache s"
    "iirfilt_execute A (fst d) (iq_sample A b0 b1) = (y, q)" "cache_loc s = int p" "p + 1 < 65535"
  shows "read_file_sample A s = Inr (Some (nco_mix_down A (snd d) y),
    s\<lparr>file_data := rest, front_end := Some (q, nco_step A (snd d)),
      total_samples_in := total_samples_in s + 1,
      symbol_cache := (symbol_cache s)(int p := nco_mix_down A (snd d) y),
      cache_loc := int p + 1, cache_count := int p + 1\<rparr>)"
  using assms by (cases d) (simp add: read_file_sample_def Let_def CACHE_SIZE_def)

lemma moved_file:
  assumes s1: "file_data s1 = rest" "front_end s1 = Some (q, nco_step A (snd d))"
      "total_samples_in s1 = total_samples_in s + 1" "write_to_cache s1" "\<not> read_from_cache s1"
      "symbol_cache s1 = (symbol_cache s)(int p := x)" "cache_loc s1 = int p + 1"
      "cache_count s1 = int p + 1" "same_frame s s1"
    and s: "front_run A (front_of A s) (file_data s) = x # xs"
      "xs = front_run A (q, nco_step A (snd d)) rest" "on_tape s" "p = filled s" "p + 1 < 65535"
  shows "moved A s (Suc p) s1"
proof -
  have f: "filled s1 = Suc p" using s1 by (simp add: filled_def)
  have "tape A s1 = tape A s"
    using s1 s by (simp add: tape_def f front_of_def)
  moreover have "on_tape s1"
    using s1 s f by (simp add: on_tape_def same_frame_def)
  ultimately show ?thesis
    using s1 s f by (simp add: moved_def)
qed

lemma get_next_sample_file:
  assumes "on_tape s" "cache_loc s = int p" "p = filled s" "p < length (tape A s)" "p + 1 < 65535"
  shows "\<exists>s'. get_next_sample A s = Inr (Some (tape A s ! p), s') \<and> moved A s (Suc p) s'"
proof -
  let ?d = "front_of A s"
  have "front_run A ?d (file_data s) \<noteq> []"
    using assms(3,4) by (auto simp: tape_def)
  then obtain x xs where run: "front_run A ?d (file_data s) = x # xs"
    by (cases "front_run A ?d (file_data s)") auto
  then obtain b0 b1 rest y q where b: "file_data s = b0 # b1 # rest"
      "iirfilt_execute A (fst ?d) (iq_sample A b0 b1) = (y, q)"
      "x = nco_mix_down A (snd ?d) y"
      "xs = front_run A (q, nco_step A (snd ?d)) rest"
    by (rule front_run_step)
  have x: "x = tape A s ! p"
    using assms(3) by (simp add: tape_def nth_append run)
  let ?r = "\<lambda>s. s\<lparr>file_data := rest, front_end := Some (q, nco_step A (snd ?d)),
    total_samples_in := total_samples_in s + 1,
    symbol_cache := (symbol_cache s)(int p := x), cache_loc := int p + 1,
    cache_count := int p + 1\<rparr>"
  define f where "f = (if front_end s = None
      then s\<lparr>front_end := Some (create_filter A, create_nco A)\<rparr> else s)"
  have f: "file_data f = file_data s" "total_samples_in f = total_samples_in s"
      "symbol_cache f = symbol_cache s" "same_frame s f" "cache_loc f = cache_loc s"
      "read_from_cache f = read_from_cache s" "write_to_cache f = write_to_cache s"
      "cache_count f = cache_count s" "front_end f = Some ?d"
    by (cases "front_end s"; simp add: f_def same_frame_def front_of_def)+
  have step: "\<exists>s'. read_file_sample A g = Inr (Some (tape A s ! p), s') \<and> moved A s (Suc p) s'"
    if g: "file_data g = file_data s" "total_samples_in g = total_samples_in s"
      "symbol_cache g = symbol_cache s" "same_frame s g" "cache_loc g = cache_loc s"
      "\<not> read_from_cache g" "write_to_cache g" "front_end g = Some ?d" for g
  proof -
    let ?g = "g\<lparr>file_data := rest, front_end := Some (q, nco_step A (snd ?d)),
      total_samples_in := total_samples_in g + 1,
      symbol_cache := (symbol_cache g)(int p := x), cache_loc := int p + 1,
      cache_count := int p + 1\<rparr>"
    have "read_file_sample A g = Inr (Some (tape A s ! p), ?g)"
      using read_file_sample_tape [OF g(8) g(1) [unfolded b(1)] g(7) b(2)
          g(5) [unfolded assms(2)] assms(5)] by (simp only: b(3) [symmetric] x)
    moreover have "same_frame s ?g"
      using g(4) by (simp add: same_frame_def)
    then have "moved A s (Suc p) ?g"
      using g by (intro moved_file [OF _ _ _ _ _ _ _ _ _ run b(4) assms(1,3,5)]) simp_all
    ultimately show ?thesis by blast
  qed
  show ?thesis
  proof (cases "read_from_cache s")
    case True
    then have "filled s = nat (cache_count s)"
      using assms(1) by (simp add: on_tape_def filled_def)
    then have "cache_count s \<le> cache_loc s"
      using assms(2,3) by linarith
    then have "get_next_sample A s =
        read_file_sample A (f\<lparr>read_from_cache := False, write_to_cache := True\<rparr>)"
      unfolding get_next_sample_def Let_def f_def [symmetric] using True f(5-8) by simp
    moreover have "same_frame s (f\<lparr>read_from_cache := False, write_to_cache := True\<rparr>)"
      using f(4) by (simp add: same_frame_def)
    ultimately show ?thesis
      using step [of "f\<lparr>read_from_cache := False, write_to_cache := True\<rparr>"] f by simp
  next
    case False
    then have wr: "write_to_cache s" using assms(1) by (simp add: on_tape_def)
    have "get_next_sample A s = read_file_sample A f"
      unfolding get_next_sample_def Let_def f_def [symmetric] using False f(6) by simp
    with step [of f] f False wr show ?thesis by simp
  qed
qed

lemma get_next_sample_tape:
  assumes "on_tape s" "cache_loc s = int p" "p < length (tape A s)" "p + 1 < 65535"
  shows "\<exists>s'. get_next_sample A s = Inr (Some (tape A s ! p), s') \<and> moved A s (Suc p) s'"
  using assms get_next_sample_cached [OF assms(1,2)] get_next_sample_file [OF assms(1,2)]
    on_tape_le [OF assms(1,2)] by (cases "p < filled s") auto

lemma read_loc_tape:
  "on_tape s \<Longrightarrow> get_current_read_loc s = int (cache_loc_in_file s) + cache_loc s"
  by (auto simp: get_current_read_loc_def on_tape_def filled_def)

lemma collect_samples_tape:
  "on_tape s \<Longrightarrow> cache_loc s = int p \<Longrightarrow> p + k \<le> length (tape A s) \<Longrightarrow> p + k < 65535 \<Longrightarrow>
   \<exists>s'. collect_samples A k s = Inr (take k (drop p (tape A s)), s') \<and> moved A s (p + k) s'"
proof (induction k arbitrary: s p)
  case 0
  then show ?case by (auto intro: moved_refl on_tape_le)
next
  case (Suc k)
  then obtain s1 where s1: "get_next_sample A s = Inr (Some (tape A s ! p), s1)"
      "moved A s (Suc p) s1"
    using get_next_sample_tape [of s p A] by auto
  moreover from s1(2) have "on_tape s1" "cache_loc s1 = int (Suc p)" "tape A s1 = tape A s"
    by (simp_all add: moved_def)
  ultimately obtain s2 where "collect_samples A k s1 = Inr (take k (drop (Suc p) (tape A s)), s2)"
      "moved A s1 (Suc p + k) s2"
    using Suc.IH [of s1 "Suc p"] Suc.prems by auto
  moreover have "take (Suc k) (drop p (tape A s)) = tape A s ! p # take k (drop (Suc p) (tape A s))"
    using Suc.prems by (simp add: Cons_nth_drop_Suc [symmetric])
  ultimately show ?case
    using s1 moved_trans [OF s1(2)] by auto
qed

lemma skip_samples_tape:
  "on_tape s \<Longrightarrow> cache_loc s = int p \<Longrightarrow> p \<le> q \<Longrightarrow> q \<le> length (tape A s) \<Longrightarrow> q < 65535 \<Longrightarrow>
   \<exists>s'. skip_samples A (cache_loc_in_file s + q) s = Inr (True, s') \<and> moved A s q s'"
proof (induction "q - p" arbitrary: s p)
  case 0
  then show ?case
    by (subst skip_samples.simps) (auto simp: read_loc_tape intro: moved_refl on_tape_le)
next
  case (Suc d)
  then have "p < q" by simp
  with Suc.prems obtain s1 where s1: "get_next_sample A s = Inr (Some (tape A s ! p), s1)"
      "moved A s (Suc p) s1"
    using get_next_sample_tape [of s p A] by auto
  then have f: "on_tape s1" "cache_loc s1 = int (Suc p)" "tape A s1 = tape A s"
      "cache_loc_in_file s1 = cache_loc_in_file s"
    by (simp_all add: moved_def same_frame_def)
  have "d = q - Suc p" using Suc.hyps(2) by simp
  with Suc.hyps(1) [OF _ f(1,2)] f(3,4) Suc.prems \<open>p < q\<close> obtain s2 where
      "skip_samples A (cache_loc_in_file s + q) s1 = Inr (True, s2)" "moved A s1 q s2"
    by auto
  with s1 Suc.prems \<open>p < q\<close> show ?case
    by (subst skip_samples.simps) (auto simp: read_loc_tape intro: moved_trans)
qed

text \<open>A window of the tape, from the sample at file position \<open>cache_loc_in_file s + q\<close> on.\<close>

definition window :: "('f, 'c, 'q, 'n) arith \<Rightarrow> ('f, 'c, 'q, 'n) tpms2 \<Rightarrow> nat \<Rightarrow> nat \<Rightarrow> 'c list" where
  "window A s q w = take w (drop q (tape A s))"

lemma get_some_samples_tape:
  assumes "on_tape s" "cache_loc s \<le> int q" "q + w \<le> length (tape A s)" "q + w < 65535"
    "b = cache_loc_in_file s + q"
  shows "\<exists>s'. get_some_samples A (int w) b s = Inr (Some (window A s q w), s') \<and>
    moved A s (q + w) s'"
proof -
  obtain p where p: "cache_loc s = int p"
    using assms(1) by (auto simp: on_tape_def intro: nonneg_int_cases)
  with assms obtain s1 where s1: "skip_samples A b s = Inr (True, s1)" "moved A s q s1"
    using skip_samples_tape [of s p q A] by auto
  then have f: "on_tape s1" "cache_loc s1 = int q" "tape A s1 = tape A s"
    by (simp_all add: moved_def)
  with assms(3,4) obtain s2 where "collect_samples A w s1 = Inr (window A s q w, s2)"
      "moved A s1 (q + w) s2"
    using collect_samples_tape [of s1 q w A] by (auto simp: window_def)
  with s1 show ?thesis
    by (auto simp: get_some_samples_def intro: moved_trans)
qed

subsection \<open>A bit, as a function of its window\<close>

text \<open>
  What \<open>get_bit\<close> computes from the samples of its window alone: the bit, where it ends and the
  confidence.
\<close>

definition bit_of_window ::
    "('f, 'c, 'q, 'n) arith \<Rightarrow> ('f, 'c, 'q, 'n) tpms2 \<Rightarrow> 'c list \<Rightarrow> nat \<Rightarrow> nat \<Rightarrow>
     (int \<times> nat \<times> rat) res" where
  "bit_of_window A s xs bit_start bit_end =
     (let n = int bit_end - int bit_start + 1; m = tdiv (6 * n) 10
      in bind_res (scan_samples_for_eob_transition A s (Some xs) (tdiv (11 * n) 10)) (\<lambda>tp.
         bind_res (convert_samples_to_binary A s (Some xs) m) (\<lambda>ys.
           let b = sum_from_1 ys m
           in Inr (if 0 < b then 1 else 0,
                if tp = - 1 then bit_end else nat (tp - 1 + int bit_start),
                of_int \<bar>b\<bar> / of_int m))))"

lemma convert_cong:
  assumes "high_freq s' = high_freq s" "low_freq s' = low_freq s"
  shows "convert_samples_to_binary A s' xs n = convert_samples_to_binary A s xs n"
  unfolding convert_samples_to_binary_def assms ..

lemma scan_cong:
  assumes "high_freq s' = high_freq s" "low_freq s' = low_freq s"
  shows "scan_samples_for_eob_transition A s' xs n = scan_samples_for_eob_transition A s xs n"
  unfolding scan_samples_for_eob_transition_def convert_cong [OF assms] assms ..

lemma rewind_position:
  assumes "w = 11 * n div 10" "c < e" "q + w \<le> cc"
  shows "tdiv (10 * int cc - (10 * int (c + q) + 11 * int n - 10 * int e)) 10
    = int (e - c) - (if 10 dvd n then 0 else 1) + int (cc - (q + w))"
proof -
  define r where "r = n mod 10"
  have r: "11 * n = 10 * w + r" "r < 10" "10 dvd n \<longleftrightarrow> r = 0"
  proof -
    have "11 * n = n + 10 * n" by simp
    then have "11 * n mod 10 = r" by (simp only: mod_mult_self2 r_def)
    then show "11 * n = 10 * w + r"
      using mult_div_mod_eq [of 10 "11 * n"] by (simp add: assms(1))
  qed (simp_all add: r_def dvd_eq_mod_eq_0)
  define x y where "x = int (e - c)" and "y = int (cc - (q + w))"
  have xy: "x = int e - int c" "y = int cc - int q - int w" "0 < x" "0 \<le> y"
    using assms(2,3) by (simp_all add: x_def y_def of_nat_diff)
  have eq: "10 * int cc - (10 * int (c + q) + 11 * int n - 10 * int e) = 10 * (x + y) - int r"
    using arg_cong [OF r(1), of int] xy(1,2) by (simp add: algebra_simps)
  have "tdiv (10 * (x + y) - int r) 10 = x + y - (if r = 0 then 0 else 1)"
    using r(2) xy by (subst tdiv_nonneg) (simp_all; linarith)+
  then show ?thesis
    unfolding eq r(3) by (simp add: x_def y_def)
qed

text \<open>
  \<open>get_bit\<close> is that function. Where the window ends at or beyond the samples cached so far, it
  leaves the tape at the end of the bit or, when eleven tenths of the length were not a whole
  number of samples, one sample before; samples cached beyond the window displace it by their
  number.
\<close>

lemma get_bit_tape_gen:
  assumes tape: "on_tape s" "cache_loc s \<le> int q" "q + w \<le> length (tape A s)" "q + w < 65535"
    and n: "i = cache_loc_in_file s + q" "n = j + 1 - i" "i \<le> j" "w = 11 * n div 10"
    and bit: "bit_of_window A s (window A s q w) i j = Inr (b, e, c)"
    and e: "cache_loc_in_file s < e" "e \<le> i + w"
  shows "\<exists>s'. get_bit A i j s = Inr (b, s') \<and> on_tape s' \<and> tape A s' = tape A s \<and>
    same_frame s s' \<and> filled s' = max (filled s) (q + w) \<and> actual_bit_end s' = e \<and>
    bit_confidence s' = c \<and>
    cache_loc s' = int (e - cache_loc_in_file s) - (if 10 dvd n then 0 else 1)
      + int (filled s - (q + w))"
proof -
  let ?cc = "max (filled s) (q + w)"
  have nn: "int j - int i + 1 = int n" "tdiv (11 * int n) 10 = int w"
    using n by (simp_all add: tdiv_nonneg zdiv_int)
  obtain s1 where s1: "get_some_samples A (int w) i s = Inr (Some (window A s q w), s1)"
      "moved A s (q + w) s1"
    using get_some_samples_tape [OF tape(1-4) n(1)] by blast
  then have f: "on_tape s1" "tape A s1 = tape A s" "cache_loc s1 = int (q + w)"
      "filled s1 = ?cc" "same_frame s s1"
    by (simp_all add: moved_def)
  then have fr: "high_freq s1 = high_freq s" "low_freq s1 = low_freq s"
    by (simp_all add: same_frame_def)
  obtain tp ys where scan: "scan_samples_for_eob_transition A s (Some (window A s q w)) (int w) = Inr tp"
      "convert_samples_to_binary A s (Some (window A s q w)) (tdiv (6 * int n) 10) = Inr ys"
      "b = (if 0 < sum_from_1 ys (tdiv (6 * int n) 10) then 1 else 0)"
      "e = (if tp = - 1 then j else nat (tp - 1 + int i))"
      "c = of_int \<bar>sum_from_1 ys (tdiv (6 * int n) 10)\<bar> / of_int (tdiv (6 * int n) 10)"
    using bit by (auto simp: bit_of_window_def nn Let_def)
  define s2 where "s2 = (if write_to_cache s1
    then s1\<lparr>actual_bit_end := e, read_from_cache := True, write_to_cache := False\<rparr>
    else s1\<lparr>actual_bit_end := e\<rparr>)"
  have rw: "read_from_cache s1 = (\<not> write_to_cache s1)"
    "filled s1 = nat (if write_to_cache s1 then cache_loc s1 else cache_count s1)"
    "total_samples_in s1 = cache_loc_in_file s1 + filled s1"
    using f(1) by (simp_all add: on_tape_def filled_def)
  have "0 < q + w" using e n(1) by linarith
  have cc: "cache_count s1 = int ?cc"
  proof (cases "write_to_cache s1")
    case True
    then have "cache_count s1 = cache_loc s1" "filled s1 = nat (cache_loc s1)"
      using f(1,3) \<open>0 < q + w\<close> rw(2) by (auto simp: on_tape_def)
    then show ?thesis using f(3,4) by linarith
  next
    case False
    then have "cache_loc s1 \<le> cache_count s1" "filled s1 = nat (cache_count s1)"
      using f(1) rw unfolding on_tape_def by simp_all
    then show ?thesis using f(3,4) by linarith
  qed
  have s2: "read_from_cache s2" "\<not> write_to_cache s2" "cache_count s2 = int ?cc"
    "actual_bit_end s2 = e" "same_frame s s2" "front_end s2 = front_end s1"
    "file_data s2 = file_data s1" "symbol_cache s2 = symbol_cache s1"
    "total_samples_in s2 = total_samples_in s1" "cache_loc_in_file s2 = cache_loc_in_file s1"
    using rw(1) cc f(5) by (cases "write_to_cache s1"; simp add: s2_def same_frame_def)+
  let ?l = "int (e - cache_loc_in_file s) - (if 10 dvd n then 0 else 1) + int (filled s - (q + w))"
  let ?s = "s2\<lparr>cache_loc := ?l, bit_confidence := c\<rparr>"
  have clf: "cache_loc_in_file s1 = cache_loc_in_file s"
    using f(5) by (simp add: same_frame_def)
  have "?cc - (q + w) = filled s - (q + w)" by simp
  with rewind_position [OF n(4) e(1), of q ?cc]
  have loc: "tdiv (10 * cache_count s2 - (10 * int i + 11 * int n - 10 * int (actual_bit_end s2))) 10 = ?l"
    by (simp only: s2 n(1) max.cobounded2)
  have "get_bit A i j s = Inr (b, ?s)"
  proof -
    have fr2: "high_freq s2 = high_freq s" "low_freq s2 = low_freq s"
      using s2(5) by (simp_all add: same_frame_def)
    then have fr3: "high_freq (s2\<lparr>cache_loc := ?l\<rparr>) = high_freq s"
      "low_freq (s2\<lparr>cache_loc := ?l\<rparr>) = low_freq s" by simp_all
    have upd: "(if write_to_cache (s1\<lparr>actual_bit_end := e\<rparr>)
        then s1\<lparr>actual_bit_end := e, read_from_cache := True, write_to_cache := False\<rparr>
        else s1\<lparr>actual_bit_end := e\<rparr>) = s2"
      by (simp add: s2_def)
    show ?thesis
      unfolding get_bit_def Let_def nn s1(1) bind_res_Inr prod.case scan_cong [OF fr] scan(1)
        scan(4) [symmetric] upd if_P [OF s2(1)] loc convert_cong [OF fr3] scan(2)
        scan(3) [symmetric] scan(5) [symmetric]
      by simp
  qed
  moreover have fl: "filled ?s = ?cc"
    using s2(2,3) by (simp add: filled_def)
  moreover have "on_tape ?s"
  proof -
    have "filled s < 65535" using tape(1) by (simp add: on_tape_def)
    then have "?cc < 65535" using tape(4) by simp
    moreover have el: "1 \<le> e - cache_loc_in_file s" "e - cache_loc_in_file s \<le> q + w"
      using e n(1) by linarith+
    then have "0 \<le> ?l" by (cases "10 dvd n") simp_all
    moreover have "?l \<le> int (e - cache_loc_in_file s) + int (filled s - (q + w))" by simp
    then have "?l \<le> int ?cc" using el(2) by linarith
    ultimately show ?thesis
      unfolding on_tape_def fl using s2(1-3,9,10) rw(3) f(4) by simp
  qed
  moreover have "tape A ?s = tape A s"
    unfolding f(2) [symmetric] tape_def [of A ?s] tape_def [of A s1] fl f(4)
    by (simp add: front_of_def s2)
  moreover have "same_frame s ?s"
    using s2(5) by (simp add: same_frame_def)
  ultimately show ?thesis
    using s2(4) by auto
qed

lemma get_bit_tape:
  assumes tape: "on_tape s" "cache_loc s \<le> int q" "q + w \<le> length (tape A s)" "q + w < 65535"
      "filled s \<le> q + w"
    and n: "i = cache_loc_in_file s + q" "n = j + 1 - i" "i \<le> j" "w = 11 * n div 10"
    and bit: "bit_of_window A s (window A s q w) i j = Inr (b, e, c)"
    and e: "cache_loc_in_file s < e" "e \<le> i + w"
  shows "\<exists>s'. get_bit A i j s = Inr (b, s') \<and> on_tape s' \<and> tape A s' = tape A s \<and>
    same_frame s s' \<and> filled s' = q + w \<and> actual_bit_end s' = e \<and> bit_confidence s' = c \<and>
    cache_loc s' = int (e - cache_loc_in_file s) - (if 10 dvd n then 0 else 1)"
  using get_bit_tape_gen [OF tape(1-4) n bit e] tape(5) by (simp add: max_def)

subsection \<open>Properties of the cache\<close>

text \<open>
  C13. During an attempt at a packet, the cache and the unread part of the file behave as one tape:
  asked for \<open>w\<close> samples from file position \<open>b\<close> on, at or after the current position,
  \<open>get_some_samples\<close> returns exactly the samples of the tape from there, in whichever of the two they
  are, and loses none: the tape is unchanged and stands behind the last one returned.
\<close>

theorem cache_is_a_tape:
  assumes "on_tape s" "cache_loc s \<le> int q" "q + w \<le> length (tape A s)" "q + w < 65535"
    and "b = cache_loc_in_file s + q"
  shows "\<exists>s'. get_some_samples A (int w) b s = Inr (Some (take w (drop q (tape A s))), s') \<and>
    on_tape s' \<and> tape A s' = tape A s \<and> get_current_read_loc s' = int b + int w"
proof -
  obtain s' where s': "get_some_samples A (int w) b s = Inr (Some (window A s q w), s')"
      "moved A s (q + w) s'"
    using get_some_samples_tape [OF assms] by blast
  then have "get_current_read_loc s' = int b + int w"
    using assms(5) read_loc_tape [of s'] by (simp add: moved_def same_frame_def)
  with s' show ?thesis by (auto simp: window_def moved_def)
qed

theorem cache_is_a_tape_witness:
  "\<exists>s'. get_some_samples rat_receiver 2 1 (initial_state\<lparr>file_data := [1, 2, 3, 4, 5, 6, 7]\<rparr>)
     = Inr (Some [(3, 4), (5, 6)], s') \<and> get_current_read_loc s' = 3"
proof -
  let ?s = "initial_state\<lparr>file_data := [1, 2, 3, 4, 5, 6, 7]\<rparr>"
  have "tape rat_receiver ?s = [(1, 2), (3, 4), (5, 6)]" "on_tape ?s"
    by (simp_all add: tape_def filled_def front_of_def initial_state_def rat_receiver_def on_tape_def)
  with cache_is_a_tape [of ?s 1 2 rat_receiver 1] show ?thesis
    by (auto simp: initial_state_def)
qed

text \<open>
  C14. Where the next bit is read from. After a bit that ends at sample \<open>e\<close>, the tape stands at \<open>e\<close>, or
  one before it when eleven tenths of the expected length are not whole, as intended, if the window
  of the bit ended at or beyond the samples cached. On a retry, where the samples of the earlier
  attempt are cached beyond the window, it stands further on by their number: the formula measures
  back from the end of the cache and not from the end of the window.
\<close>

theorem get_bit_position:
  assumes "on_tape s" "cache_loc s \<le> int q" "q + w \<le> length (tape A s)" "q + w < 65535"
    and "i = cache_loc_in_file s + q" "n = j + 1 - i" "i \<le> j" "w = 11 * n div 10"
    and "bit_of_window A s (take w (drop q (tape A s))) i j = Inr (b, e, c)"
    and "cache_loc_in_file s < e" "e \<le> i + w"
  shows "\<exists>s'. get_bit A i j s = Inr (b, s') \<and> actual_bit_end s' = e \<and> bit_confidence s' = c \<and>
    get_current_read_loc s' = int e - (if 10 dvd n then 0 else 1) + int (filled s - (q + w))"
proof -
  obtain s' where s': "get_bit A i j s = Inr (b, s')" "on_tape s'" "same_frame s s'"
      "actual_bit_end s' = e" "bit_confidence s' = c"
      "cache_loc s' = int (e - cache_loc_in_file s) - (if 10 dvd n then 0 else 1)
        + int (filled s - (q + w))"
    using get_bit_tape_gen [OF assms(1-8) assms(9) [folded window_def] assms(10,11)] by blast
  then have "get_current_read_loc s' = int e - (if 10 dvd n then 0 else 1) + int (filled s - (q + w))"
    using assms(10) read_loc_tape [OF s'(2)] by (simp add: same_frame_def of_nat_diff)
  with s' show ?thesis by blast
qed

definition retry_tape :: "(nat \<times> nat) list" where
  "retry_tape = map (\<lambda>k. (100, (if k < 10 then 8 * k else 72 + 4 * (k - 9)) mod 40)) [0..<30]"

definition retry_state :: "(rat, nat \<times> nat, unit, unit) tpms2" where
  "retry_state = initial_state\<lparr>high_freq := 44 / 35, low_freq := 22 / 35, read_from_cache := True,
     write_to_cache := False, cache_count := 30, total_samples_in := 30,
     symbol_cache := (\<lambda>i. retry_tape ! nat i)\<rparr>"

lemma retry_bit:
  "bit_of_window rat_receiver retry_state (take 11 (drop 0 retry_tape)) 0 9 = Inr (1, 9, 5 / 6)"
  by code_simp

theorem get_bit_position_witness:
  "\<exists>s'. get_bit rat_receiver 0 9 retry_state = Inr (1, s') \<and> actual_bit_end s' = 9 \<and>
    get_current_read_loc s' = 28"
proof -
  have t: "tape rat_receiver retry_state = retry_tape"
    by (rule nth_equalityI) (simp_all add: tape_def filled_def retry_state_def initial_state_def retry_tape_def)
  have f: "on_tape retry_state" "filled retry_state = 30" "cache_loc retry_state = 0"
      "cache_loc_in_file retry_state = 0"
    by (simp_all add: on_tape_def filled_def retry_state_def initial_state_def)
  have "length retry_tape = 30" by (simp add: retry_tape_def)
  then show ?thesis
    using get_bit_position [of retry_state 0 11 rat_receiver 0 10 9 1 9 "5 / 6"] t f retry_bit by auto
qed

text \<open>
  A first attempt refused because the measured symbol length is above the maximum notes the new
  position of the cache in the file but leaves the cache as an earlier attempt filled it. The retries
  that follow, with shorter lengths, then start on that stale cache: the first sample they draw is
  its first entry, not the next sample of the file.
\<close>

theorem refused_attempt_leaves_stale_cache:
  assumes "\<not> read_from_cache s" "512 < est" "0 < cache_count s"
  shows "\<exists>s'. try_to_get_packet_symbols A i n est s = Inr (None, s') \<and>
    cache_loc_in_file s' = total_samples_in s \<and> cache_count s' = cache_count s \<and>
    (\<exists>s''. get_next_sample A (s'\<lparr>read_from_cache := True, write_to_cache := False\<rparr>)
       = Inr (Some (symbol_cache s 0), s''))"
  using assms
  by (auto simp: try_to_get_packet_symbols_def Let_def MAX_SAMPLES_PER_SYMBOL_def get_next_sample_def
      CACHE_SIZE_def)

theorem refused_attempt_leaves_stale_cache_witness:
  "\<exists>s'. try_to_get_packet_symbols rat_receiver 100 69 520
      (retry_state\<lparr>read_from_cache := False\<rparr>) = Inr (None, s') \<and> cache_count s' = 30"
  using refused_attempt_leaves_stale_cache [of "retry_state\<lparr>read_from_cache := False\<rparr>" 520
      rat_receiver 100 69]
  by (auto simp: retry_state_def)

end
