(* ===== verification/Tpms2_Ideal.thy ===== *)
theory Tpms2_Ideal
  imports Tpms2_Tape
begin

text \<open>
  An ideal transmission is decoded: when every half bit of a packet lasts the same number of samples
  and every phase step is clearly the high or the low tone, the decoder returns that packet.
\<close>

subsection \<open>Tones\<close>

definition step_of :: "('f, 'c, 'q, 'n) arith \<Rightarrow> 'c \<Rightarrow> 'c \<Rightarrow> 'f" where
  "step_of A x y = delta_phi_defn A (carg A y) (carg A x)"

text \<open>
  The step between two samples is the high tone (\<open>b\<close>) or the low one: it is nearer to it, within five
  percent of it and not within five percent of the other.
\<close>

definition tone :: "('f, 'c, 'q, 'n) arith \<Rightarrow> 'f \<Rightarrow> 'f \<Rightarrow> 'c \<Rightarrow> 'c \<Rightarrow> bool \<Rightarrow> bool" where
  "tone A h l x y b \<longleftrightarrow>
     (f_le A (rel_dev A (step_of A x y) h) (rel_dev A (step_of A x y) l) = b) \<and>
     (f_lt A (rel_dev A (step_of A x y) h) (f_lit A (5 / 100)) = b) \<and>
     (f_lt A (rel_dev A (step_of A x y) l) (f_lit A (5 / 100)) = (\<not> b))"

lemma length_convert_loop [simp]: "length (convert_loop A h l i prev xs) = length xs"
  by (induction xs arbitrary: i prev) (auto simp: Let_def)

lemma convert_loop_nth:
  "0 < j \<Longrightarrow> j < length xs \<Longrightarrow> convert_loop A h l i prev xs ! j =
    (if f_le A (rel_dev A (step_of A (xs ! (j - 1)) (xs ! j)) h)
          (rel_dev A (step_of A (xs ! (j - 1)) (xs ! j)) l) then 1 else - 1)"
proof (induction xs arbitrary: i prev j)
  case (Cons x xs)
  then show ?case
  proof (cases "j = 1")
    case True
    with Cons.prems obtain y ys where "xs = y # ys" by (cases xs) auto
    with True show ?thesis by (simp add: Let_def step_of_def)
  next
    case False
    with Cons.prems Cons.IH [of "j - 1" "Suc i" "carg A x"] show ?thesis
      by (auto simp: Let_def nth_Cons' numeral_eq_Suc)
  qed
qed simp

lemma sum_from_1_const:
  assumes "\<And>j. 0 < j \<Longrightarrow> j < n \<Longrightarrow> ys ! j = v" "0 < n"
  shows "sum_from_1 ys (int n) = int (n - 1) * v"
proof -
  have "foldl (\<lambda>b i. b + ys ! i) 0 [1..<m] = int (m - 1) * v" if "0 < m" "m \<le> n" for m
    using that
  proof (induction m)
    case (Suc m)
    then show ?case
      using assms(1) [of m] by (cases "m = 0") (auto simp: algebra_simps of_nat_diff)
  qed simp
  from this [of n] assms(2) show ?thesis by (simp add: sum_from_1_def)
qed

lemma scan_loop_found:
  assumes "i \<le> k" "k \<le> w" "w \<le> length xs" "0 < i" "prev = carg A (xs ! (i - 1))"
    and no: "\<And>j. i \<le> j \<Longrightarrow> j < k \<Longrightarrow>
      \<not> f_lt A (rel_dev A (step_of A (xs ! (j - 1)) (xs ! j)) f) (f_lit A (5 / 100))"
    and yes: "k < w \<Longrightarrow>
      f_lt A (rel_dev A (step_of A (xs ! (k - 1)) (xs ! k)) f) (f_lit A (5 / 100))"
  shows "scan_loop A f xs prev (int i) (int w) = Inr (if k < w then int k else - 1)"
  using assms(1,4,5) no
proof (induction "k - i" arbitrary: i prev)
  case 0
  then show ?case
    using assms(2,3) yes by (subst scan_loop.simps) (auto simp: Let_def step_of_def)
next
  case (Suc d)
  then have i: "i < k" "i < w" "i < length xs" using assms(2,3) by auto
  have "scan_loop A f xs (carg A (xs ! i)) (int (Suc i)) (int w) = Inr (if k < w then int k else - 1)"
    using Suc i by (intro Suc.hyps(1)) auto
  then show ?case
    using i Suc.prems(2) Suc.prems(3) Suc.prems(4) [of i] 
    by (subst scan_loop.simps) (auto simp: Let_def step_of_def add.commute)
qed

subsection \<open>Clean windows\<close>

text \<open>
  A window whose steps are of one tone up to position \<open>k\<close>, and of the other at \<open>k\<close> if the window
  reaches that far, is read as that tone's bit, ending before \<open>k\<close>.
\<close>

lemma bit_of_clean_window:
  assumes freq: "f_eq A (high_freq s) (high_freq s)" "\<not> f_eq A (low_freq s) (high_freq s)"
    and n: "n = j + 1 - i" "i \<le> j" "w = 11 * n div 10" "length xs = w" "k \<le> w"
      "2 \<le> 3 * w div 4" "3 * w div 4 \<le> k" "2 \<le> 6 * n div 10"
    and same: "\<And>m. 0 < m \<Longrightarrow> m < k \<Longrightarrow> tone A (high_freq s) (low_freq s) (xs ! (m - 1)) (xs ! m) b"
    and other: "k < w \<Longrightarrow> tone A (high_freq s) (low_freq s) (xs ! (k - 1)) (xs ! k) (\<not> b)"
  shows "\<exists>c. bit_of_window A s xs i j =
    Inr (if b then 1 else 0, if k < w then i + k - 1 else j, c) \<and> 1 / 4 \<le> c"
proof -
  let ?bl = "3 * w div 4" and ?m = "6 * n div 10"
  let ?v = "if b then 1 else - 1 :: int"
  have nn: "int j - int i + 1 = int n" "tdiv (11 * int n) 10 = int w"
      "tdiv (6 * int n) 10 = int ?m" "tdiv (3 * int w) 4 = int ?bl"
    using n(1-3) by (simp_all add: tdiv_nonneg zdiv_int)
  have le: "?m \<le> ?bl" "?bl \<le> w" "?m \<le> w" using n by linarith+
  have conv: "convert_samples_to_binary A s (Some xs) (int p) =
      Inr (convert_loop A (high_freq s) (low_freq s) 0 (f_lit A 0) (take p xs))"
    if "0 < p" "p \<le> w" for p
    using that n(4) by (simp add: convert_samples_to_binary_def)
  have sum: "sum_from_1 (convert_loop A (high_freq s) (low_freq s) 0 (f_lit A 0) (take p xs)) (int p)
      = int (p - 1) * ?v" if "0 < p" "p \<le> ?bl" for p
  proof (rule sum_from_1_const)
    fix m assume "0 < m" "m < p"
    moreover from this that n have "m < k" "m < length xs" by auto
    ultimately show "convert_loop A (high_freq s) (low_freq s) 0 (f_lit A 0) (take p xs) ! m = ?v"
      using same [of m] n(4) that by (subst convert_loop_nth) (auto simp: tone_def)
  qed (use that in simp)
  let ?f = "if b then low_freq s else high_freq s"
  have loop: "scan_loop A ?f xs (carg A (xs ! (?bl - 1))) (int ?bl) (int w)
      = Inr (if k < w then int k else - 1)"
  proof (rule scan_loop_found)
    fix m assume "?bl \<le> m" "m < k"
    then show "\<not> f_lt A (rel_dev A (step_of A (xs ! (m - 1)) (xs ! m)) ?f) (f_lit A (5 / 100))"
      using same [of m] n by (auto simp: tone_def)
  next
    assume "k < w"
    then show "f_lt A (rel_dev A (step_of A (xs ! (k - 1)) (xs ! k)) ?f) (f_lit A (5 / 100))"
      using other by (auto simp: tone_def)
  qed (use n in auto)
  have scan: "scan_samples_for_eob_transition A s (Some xs) (int w) = Inr (if k < w then int k else - 1)"
    unfolding scan_samples_for_eob_transition_def Let_def nn(4)
    using n(6) le loop freq by (auto simp: conv sum nat_diff_distrib)
  have m: "2 \<le> ?m" by fact
  let ?b = "int (?m - 1) * ?v"
  have conv_m: "convert_samples_to_binary A s (Some xs) (int ?m) =
      Inr (convert_loop A (high_freq s) (low_freq s) 0 (f_lit A 0) (take ?m xs))"
    using m le by (intro conv) linarith+
  have sum_m: "sum_from_1 (convert_loop A (high_freq s) (low_freq s) 0 (f_lit A 0) (take ?m xs))
      (int ?m) = ?b"
    using m le by (intro sum) linarith+
  have abs: "\<bar>?b\<bar> = int (?m - 1)" by (auto simp: abs_mult)
  have conf: "1 / 4 \<le> of_int \<bar>?b\<bar> / (of_int (int ?m) :: rat)"
  proof -
    have "(of_int \<bar>?b\<bar> :: rat) = of_nat ?m - 1"
      unfolding abs using m by (simp add: of_nat_diff)
    moreover have "(2 :: rat) \<le> of_nat ?m"
      using m of_nat_le_iff [of 2 ?m, where ?'a = rat] by simp
    ultimately show ?thesis by (simp add: field_simps)
  qed
  have pos: "(0 < ?b) = b" using m by (cases b) auto
  have e: "(if (if k < w then int k else - 1) = - 1 then j
      else nat ((if k < w then int k else - 1) - 1 + int i)) = (if k < w then i + k - 1 else j)"
    using n(6,7) by auto
  show ?thesis
    unfolding bit_of_window_def Let_def nn scan bind_res_Inr conv_m sum_m pos e
    using conf by blast
qed

text \<open>\<open>get_bit\<close> on a clean stretch of the tape.\<close>

lemma get_bit_clean:
  fixes s :: "('f, 'c, 'q, 'n) tpms2"
  assumes freq: "f_eq A (high_freq s) (high_freq s)" "\<not> f_eq A (low_freq s) (high_freq s)"
    and tape: "on_tape s" "cache_loc s \<le> int q" "q + w \<le> length (tape A s)" "q + w < 65535"
      "filled s \<le> q + w"
    and n: "i = cache_loc_in_file s + q" "n = j + 1 - i" "i \<le> j" "w = 11 * n div 10" "k \<le> w"
      "2 \<le> 3 * w div 4" "3 * w div 4 \<le> k" "2 \<le> 6 * n div 10"
    and same: "\<And>m. 0 < m \<Longrightarrow> m < k \<Longrightarrow>
      tone A (high_freq s) (low_freq s) (tape A s ! (q + m - 1)) (tape A s ! (q + m)) b"
    and other: "k < w \<Longrightarrow>
      tone A (high_freq s) (low_freq s) (tape A s ! (q + k - 1)) (tape A s ! (q + k)) (\<not> b)"
  shows "\<exists>s'. get_bit A i j s = Inr (if b then 1 else 0, s') \<and> on_tape s' \<and>
    tape A s' = tape A s \<and> same_frame s s' \<and> filled s' = q + w \<and>
    actual_bit_end s' = (if k < w then i + k - 1 else j) \<and> 1 / 4 \<le> bit_confidence s' \<and>
    cache_loc s' \<le> int (actual_bit_end s' - cache_loc_in_file s)"
proof -
  let ?xs = "window A s q w"
  have xs: "length ?xs = w" "\<And>m. m < w \<Longrightarrow> ?xs ! m = tape A s ! (q + m)"
    using tape(3) by (auto simp: window_def)
  have "\<exists>c. bit_of_window A s ?xs i j =
      Inr (if b then 1 else 0, if k < w then i + k - 1 else j, c) \<and> 1 / 4 \<le> c"
  proof (rule bit_of_clean_window [OF freq n(2,3,4) xs(1) n(5-8)])
    fix m assume "0 < m" "m < k"
    with same [of m] n(5) show "tone A (high_freq s) (low_freq s) (?xs ! (m - 1)) (?xs ! m) b"
      by (simp add: xs(2))
  next
    assume "k < w"
    with other n(6,7) show "tone A (high_freq s) (low_freq s) (?xs ! (k - 1)) (?xs ! k) (\<not> b)"
      by (simp add: xs(2))
  qed
  then obtain c where c: "bit_of_window A s ?xs i j =
      Inr (if b then 1 else 0, if k < w then i + k - 1 else j, c)" "1 / 4 \<le> c" by blast
  have jw: "j < i + w" using n(2,3,4,6) by linarith
  have "2 \<le> k" "i < j" using n(2,3,6,7,8) by linarith+
  with jw n(1,5) have e: "cache_loc_in_file s < (if k < w then i + k - 1 else j)"
    "(if k < w then i + k - 1 else j) \<le> i + w"
    by (cases "k < w"; simp)+
  obtain s' where s': "get_bit A i j s = Inr (if b then 1 else 0, s')" "on_tape s'"
      "tape A s' = tape A s" "same_frame s s'" "filled s' = q + w"
      "actual_bit_end s' = (if k < w then i + k - 1 else j)" "bit_confidence s' = c"
      "cache_loc s' = int ((if k < w then i + k - 1 else j) - cache_loc_in_file s)
        - (if 10 dvd n then 0 else 1)"
    using get_bit_tape [OF tape n(1-4) c(1) e] by blast
  have "cache_loc s' \<le> int (actual_bit_end s' - cache_loc_in_file s)"
    unfolding s'(6,8) by (cases "10 dvd n") simp_all
  with s'(1-7) c(2) show ?thesis by blast
qed

subsection \<open>An ideal signal\<close>

text \<open>
  Half bit \<open>t\<close> of \<open>bs\<close> occupies the tape positions \<open>spb * t - d\<close> to \<open>spb * (t + 1) - d - 1\<close>; the first
  one may have lost \<open>d\<close> samples to the end of the prelude.
\<close>

definition signal :: "('f, 'c, 'q, 'n) arith \<Rightarrow> 'f \<Rightarrow> 'f \<Rightarrow> nat \<Rightarrow> nat \<Rightarrow> bool list \<Rightarrow> 'c list \<Rightarrow> bool" where
  "signal A h l spb d bs T \<longleftrightarrow>
     spb * length bs \<le> length T + d \<and>
     (\<forall>j. 0 < j \<and> j + d < spb * length bs \<longrightarrow> tone A h l (T ! (j - 1)) (T ! j) (bs ! ((j + d) div spb)))"

lemma signal_tone:
  assumes "signal A h l spb d bs T" "0 < j" "spb * t \<le> j + d" "j + d < spb * t + spb" "t < length bs"
  shows "tone A h l (T ! (j - 1)) (T ! j) (bs ! t)"
proof -
  have "spb * (t + 1) \<le> spb * length bs" using assms(5) by (intro mult_le_mono) auto
  then have "j + d < spb * length bs" using assms(4) by simp
  moreover have "(j + d) div spb = t"
    using assms(3,4) by (intro div_nat_eqI) (auto simp: mult.commute)
  ultimately show ?thesis using assms(1,2) by (auto simp: signal_def)
qed

text \<open>
  The decoder's state when half bit \<open>k\<close> has been read: the recorded end is right or, after a half
  bit without a change of tone behind it, up to \<open>d\<close> samples late.
\<close>

definition at_bit :: "('f, 'c, 'q, 'n) arith \<Rightarrow> 'c list \<Rightarrow> 'f \<Rightarrow> 'f \<Rightarrow> nat \<Rightarrow> nat \<Rightarrow> nat \<Rightarrow> nat \<Rightarrow>
    ('f, 'c, 'q, 'n) tpms2 \<Rightarrow> bool" where
  "at_bit A T h l spb d k e s \<longleftrightarrow>
     on_tape s \<and> tape A s = T \<and> high_freq s = h \<and> low_freq s = l \<and> e \<le> d \<and> valid_pkt s \<and>
     actual_bit_end s + 1 + d = cache_loc_in_file s + spb * (k + 1) + e \<and>
     cache_loc s \<le> int (actual_bit_end s - cache_loc_in_file s) \<and>
     filled s \<le> actual_bit_end s + 1 - cache_loc_in_file s + 11 * spb div 10"

lemma get_first_half:
  fixes s :: "('f, 'c, 'q, 'n) tpms2"
  assumes sig: "signal A h l spb d bs T" "d \<le> 1" "10 \<le> spb" "spb * length bs < 65535"
    and freq: "f_eq A h h" "\<not> f_eq A l h"
    and at: "at_bit A T h l spb d k e s"
    and k: "k + 3 < length bs" "bs ! (k + 2) = (\<not> bs ! (k + 1))"
  shows "\<exists>s1. get_bit A (actual_bit_end s + 1) (actual_bit_end s + 1 + spb - 1) s
      = Inr (if bs ! (k + 1) then 1 else 0, s1) \<and> on_tape s1 \<and> tape A s1 = T \<and> same_frame s s1 \<and>
    actual_bit_end s1 + 1 + d = cache_loc_in_file s + spb * (k + 2) \<and> 1 / 4 \<le> bit_confidence s1 \<and>
    cache_loc s1 \<le> int (actual_bit_end s1 - cache_loc_in_file s) \<and>
    filled s1 = actual_bit_end s + 1 - cache_loc_in_file s + 11 * spb div 10"
proof -
  let ?w = "11 * spb div 10" and ?c = "cache_loc_in_file s"
  define X where "X = spb * (k + 1)"
  define q where "q = actual_bit_end s + 1 - ?c"
  have X: "spb * (k + 2) = X + spb" "spb * (k + 1) = X" "spb \<le> X"
    by (simp_all add: X_def)
  have "spb * (k + 4) \<le> spb * length bs" using k(1) by (intro mult_le_mono) auto
  then have end_ge: "X + 3 * spb \<le> spb * length bs" by (simp add: X_def algebra_simps)
  have at': "on_tape s" "tape A s = T" "high_freq s = h" "low_freq s = l" "e \<le> d"
      "actual_bit_end s + 1 + d = ?c + X + e" "cache_loc s \<le> int (actual_bit_end s - ?c)"
      "filled s \<le> q + ?w"
    using at unfolding at_bit_def X(2) q_def by blast+
  have q: "q + d = X + e" "actual_bit_end s + 1 = ?c + q"
    using at'(6) X(3) sig(2,3) by (simp_all add: q_def)
  have len: "q + ?w \<le> length T" "q + ?w < 65535"
    using sig end_ge q(1) at'(5) by (auto simp: signal_def)
  have "\<exists>s1. get_bit A (?c + q) (?c + q + spb - 1) s = Inr (if bs ! (k + 1) then 1 else 0, s1) \<and>
      on_tape s1 \<and> tape A s1 = tape A s \<and> same_frame s s1 \<and> filled s1 = q + ?w \<and>
      actual_bit_end s1 = (if spb - e < ?w then ?c + q + (spb - e) - 1 else ?c + q + spb - 1) \<and>
      1 / 4 \<le> bit_confidence s1 \<and> cache_loc s1 \<le> int (actual_bit_end s1 - ?c)"
  proof (rule get_bit_clean)
    fix m assume m: "0 < m" "m < spb - e"
    have "tone A h l (T ! (q + m - 1)) (T ! (q + m)) (bs ! (k + 1))"
      using m q(1) X k(1) by (intro signal_tone [OF sig(1)]) auto
    then show "tone A (high_freq s) (low_freq s) (tape A s ! (q + m - 1)) (tape A s ! (q + m)) (bs ! (k + 1))"
      by (simp add: at')
  next
    have "tone A h l (T ! (q + (spb - e) - 1)) (T ! (q + (spb - e))) (bs ! (k + 2))"
      using q(1) X k(1) sig at'(5) by (intro signal_tone [OF sig(1)]) auto
    then show "tone A (high_freq s) (low_freq s) (tape A s ! (q + (spb - e) - 1))
        (tape A s ! (q + (spb - e))) (\<not> bs ! (k + 1))"
      by (simp only: at' k(2))
  next
    show "?w = 11 * spb div 10" ..
  qed (use freq at' len q sig in auto)
  moreover have "spb - e < ?w" using sig(3) by linarith
  moreover have "?c + q + (spb - e) - 1 + 1 + d = ?c + spb * (k + 2)"
    using q(1) X sig at'(5) by simp
  ultimately show ?thesis
    unfolding q(2) at'(2) by auto
qed

lemma get_second_half:
  fixes s1 :: "('f, 'c, 'q, 'n) tpms2"
  assumes sig: "signal A h l spb d bs T" "d \<le> 1" "10 \<le> spb" "spb * length bs < 65535"
    and freq: "f_eq A h h" "\<not> f_eq A l h" "high_freq s1 = h" "low_freq s1 = l"
    and s1: "on_tape s1" "tape A s1 = T" "valid_pkt s1"
      "actual_bit_end s1 + 1 + d = cache_loc_in_file s1 + spb * (k + 2)"
      "cache_loc s1 \<le> int (actual_bit_end s1 - cache_loc_in_file s1)"
      "filled s1 = i - cache_loc_in_file s1 + 11 * spb div 10"
    and i: "i + d = cache_loc_in_file s1 + spb * (k + 1) + e" "e \<le> d"
    and k: "k + 3 < length bs"
  shows "\<exists>s' e'. get_bit A (actual_bit_end s1) (i + 2 * spb - 1) s1
      = Inr (if bs ! (k + 2) then 1 else 0, s') \<and> same_frame s1 s' \<and> 1 / 4 \<le> bit_confidence s' \<and>
    at_bit A T h l spb d (k + 2) e' s'"
proof -
  let ?c = "cache_loc_in_file s1"
  let ?b = "bs ! (k + 2)"
  define X where "X = spb * (k + 1)"
  define q where "q = actual_bit_end s1 - ?c"
  define n where "n = spb + e + 1"
  define w where "w = 11 * n div 10"
  define kk where "kk = (if bs ! (k + 3) = ?b then w else spb + 1)"
  have X: "spb * (k + 2) = X + spb" "spb * (k + 1) = X" "spb * (k + 3) = X + 2 * spb" "spb \<le> X"
    by (simp_all add: X_def algebra_simps)
  have "spb * (k + 4) \<le> spb * length bs" using k(1) by (intro mult_le_mono) auto
  then have end_ge: "X + 3 * spb \<le> spb * length bs" by (simp add: X_def algebra_simps)
  have q: "q + d + 1 = X + spb" "actual_bit_end s1 = ?c + q"
    using s1(4) [unfolded X(1)] X(4) sig(2,3) by (unfold q_def, linarith+)
  have id: "i + d = ?c + X + e" using i(1) X(2) by simp
  have w10: "10 * w \<le> 11 * n" "11 * n < 10 * w + 10" unfolding w_def by presburger+
  have n': "n = spb + e + 1" by (simp add: n_def)
  have w: "spb + 2 \<le> w" "w \<le> 2 * spb" "10 * w \<le> 11 * n"
    using w10 n' sig(2,3) i(2) by linarith+
  have len: "q + w \<le> length T" "q + w < 65535"
    using sig end_ge q(1) w(2) by (auto simp: signal_def)
  have kk: "kk \<le> w" "3 * w div 4 \<le> kk" "2 \<le> 3 * w div 4" "2 \<le> 6 * n div 10"
    using w w10 n' sig(2,3) i(2) by (cases "bs ! (k + 3) = ?b"; simp add: kk_def; linarith)+
  have j: "?c + q \<le> i + 2 * spb - 1" "n = i + 2 * spb - 1 + 1 - (?c + q)"
    using id q(1) sig(2,3) n' by linarith+
  have "filled s1 \<le> q + w"
    using s1(6) id q(1) w10 n' i(2) sig(2,3) by linarith
  note filled = this
  have loc: "cache_loc s1 \<le> int q" using s1(5) by (simp add: q_def)
  have same: "tone A (high_freq s1) (low_freq s1) (tape A s1 ! (q + m - 1)) (tape A s1 ! (q + m)) ?b"
    if m: "0 < m" "m < kk" for m
  proof -
    have "tone A h l (T ! (q + m - 1)) (T ! (q + m)) (bs ! (k + 2))" if "m \<le> spb"
      using m q(1) X k that by (intro signal_tone [OF sig(1)]) auto
    moreover have "tone A h l (T ! (q + m - 1)) (T ! (q + m)) (bs ! (k + 3))" if "\<not> m \<le> spb" "kk = w"
      using m q(1) X k that w(2) by (intro signal_tone [OF sig(1)]) auto
    ultimately show ?thesis
      using m(2) by (cases "m \<le> spb") (auto simp: kk_def freq s1(2) split: if_splits)
  qed
  have other: "tone A (high_freq s1) (low_freq s1) (tape A s1 ! (q + kk - 1)) (tape A s1 ! (q + kk)) (\<not> ?b)"
    if "kk < w"
  proof -
    have "kk = spb + 1" "bs ! (k + 3) = (\<not> ?b)" using that by (auto simp: kk_def split: if_splits)
    moreover have "tone A h l (T ! (q + (spb + 1) - 1)) (T ! (q + (spb + 1))) (bs ! (k + 3))"
      using q(1) X k sig(3) by (intro signal_tone [OF sig(1)]) auto
    ultimately show ?thesis by (simp only: freq s1(2))
  qed
  have "\<exists>s'. get_bit A (?c + q) (i + 2 * spb - 1) s1 = Inr (if ?b then 1 else 0, s') \<and>
      on_tape s' \<and> tape A s' = tape A s1 \<and> same_frame s1 s' \<and> filled s' = q + w \<and>
      actual_bit_end s' = (if kk < w then ?c + q + kk - 1 else i + 2 * spb - 1) \<and>
      1 / 4 \<le> bit_confidence s' \<and> cache_loc s' \<le> int (actual_bit_end s' - ?c)"
  proof (rule get_bit_clean [where n = n, OF _ _ s1(1) loc _ len(2) filled refl j(2,1) w_def kk(1,3,2,4) same other])
    show "f_eq A (high_freq s1) (high_freq s1)" "\<not> f_eq A (low_freq s1) (high_freq s1)"
      using freq by simp_all
    show "q + w \<le> length (tape A s1)" using len(1) s1(2) by simp
  qed
  then obtain s' where s': "get_bit A (?c + q) (i + 2 * spb - 1) s1 = Inr (if ?b then 1 else 0, s')"
      "on_tape s'" "tape A s' = tape A s1" "same_frame s1 s'" "filled s' = q + w"
      "actual_bit_end s' = (if kk < w then ?c + q + kk - 1 else i + 2 * spb - 1)"
      "1 / 4 \<le> bit_confidence s'" "cache_loc s' \<le> int (actual_bit_end s' - ?c)"
    by blast
  have fr: "cache_loc_in_file s' = ?c" "high_freq s' = h" "low_freq s' = l" "valid_pkt s'"
    using s'(4) s1(3) freq by (simp_all add: same_frame_def)
  have "at_bit A T h l spb d (k + 2) (if kk < w then 0 else e) s'"
  proof -
    have "actual_bit_end s' + 1 + d = ?c + (X + 2 * spb) + (if kk < w then 0 else e)"
    proof (cases "kk < w")
      case True
      then have "kk = spb + 1" by (auto simp: kk_def split: if_splits)
      with True s'(6) q(1) show ?thesis by simp
    next
      case False
      with s'(6) id sig(3) show ?thesis by simp
    qed
    moreover from this have "filled s' \<le> actual_bit_end s' + 1 - ?c + 11 * spb div 10"
      using s'(5) q(1) w(3) n' i(2) sig(2,3) by linarith
    moreover have "spb * (k + 2 + 1) = X + 2 * spb" by (simp add: X_def algebra_simps)
    moreover have "(if kk < w then 0 else e) \<le> d" using i(2) by simp
    moreover have "tape A s' = T" using s'(3) s1(2) by simp
    ultimately show ?thesis
      unfolding at_bit_def fr(1) using s'(2,8) fr(2-4) by (intro conjI) (simp_all only:)
  qed
  with s'(1,4,7) show ?thesis unfolding q(2) [symmetric] by blast
qed

lemma get_symbol_ideal:
  fixes s :: "('f, 'c, 'q, 'n) tpms2"
  assumes sig: "signal A h l spb d bs T" "d \<le> 1" "10 \<le> spb" "spb * length bs < 65535"
    and freq: "f_eq A h h" "\<not> f_eq A l h"
    and at: "at_bit A T h l spb d k e s"
    and k: "k + 3 < length bs" "bs ! (k + 2) = (\<not> bs ! (k + 1))"
  shows "\<exists>s' e'. get_symbol A (actual_bit_end s + 1) (2 * spb) s
      = record_symbol (if bs ! (k + 1) then 1 else 0) (if bs ! (k + 2) then 1 else 0) s' \<and>
    same_frame s s' \<and> at_bit A T h l spb d (k + 2) e' s'"
proof -
  obtain s1 where s1: "get_bit A (actual_bit_end s + 1) (actual_bit_end s + 1 + spb - 1) s
      = Inr (if bs ! (k + 1) then 1 else 0, s1)" "on_tape s1" "tape A s1 = T" "same_frame s s1"
      "actual_bit_end s1 + 1 + d = cache_loc_in_file s + spb * (k + 2)"
      "cache_loc s1 \<le> int (actual_bit_end s1 - cache_loc_in_file s)"
      "filled s1 = actual_bit_end s + 1 - cache_loc_in_file s + 11 * spb div 10"
    using get_first_half [OF sig freq at k] by blast
  have f: "cache_loc_in_file s1 = cache_loc_in_file s" "high_freq s1 = h" "low_freq s1 = l"
      "valid_pkt s1" "e \<le> d"
      "actual_bit_end s + 1 + d = cache_loc_in_file s + spb * (k + 1) + e"
    using s1(4) at by (auto simp: same_frame_def at_bit_def)
  obtain s2 e2 where s2: "get_bit A (actual_bit_end s1) (actual_bit_end s + 1 + 2 * spb - 1) s1
      = Inr (if bs ! (k + 2) then 1 else 0, s2)" "same_frame s1 s2"
      "at_bit A T h l spb d (k + 2) e2 s2"
    using get_second_half [OF sig freq f(2,3) s1(2,3) f(4), of k "actual_bit_end s + 1" e]
      s1(5-7) f(1,5,6) k(1) by auto
  have "same_frame s s2" using s1(4) s2(2) by (auto simp: same_frame_def)
  moreover have "settle_bits (if bs ! (k + 1) then 1 else 0) c1 (if bs ! (k + 2) then 1 else 0) c2
      = Some (if bs ! (k + 1) then 1 else 0, if bs ! (k + 2) then 1 else 0)" for c1 c2
    using k(2) by (simp add: settle_bits_def)
  then have "get_symbol A (actual_bit_end s + 1) (2 * spb) s
      = record_symbol (if bs ! (k + 1) then 1 else 0) (if bs ! (k + 2) then 1 else 0) s2"
    unfolding get_symbol_def Let_def using s1(1) s2(1) by simp
  ultimately show ?thesis using s2(3) by blast
qed

lemma at_bit_updates:
  "at_bit A T h l spb d k e (s\<lparr>bits := a, symbols := y, preceding_bit := b\<rparr>) = at_bit A T h l spb d k e s"
  by (simp add: at_bit_def on_tape_def tape_def filled_def front_of_def)

lemma at_bit_record:
  assumes "record_symbol f g s = Inr (y, s')"
  shows "at_bit A T h l spb d k e s' = at_bit A T h l spb d k e s"
proof -
  have "\<exists>a u. s' = s\<lparr>bits := a, symbols := u, preceding_bit := g\<rparr>"
    using assms by (auto simp only: record_symbol_def Let_def bind_res_eq_Inr sum.inject prod.inject)
  then show ?thesis by (auto simp only: at_bit_updates)
qed

subsection \<open>The half bits of a packet\<close>

text \<open>The half bits from the second half of symbol 1 on, and one more after the packet.\<close>

definition half_bits :: "int list \<Rightarrow> bool \<Rightarrow> bool list" where
  "half_bits p x = map (\<lambda>b. b = 1) (drop 3 (dm_encode 0 p)) @ [x]"

lemma length_half_bits: "length p = 69 \<Longrightarrow> length (half_bits p x) = 136"
  by (simp add: half_bits_def)

lemma half_bits_nth:
  assumes "length p = 69" "2 \<le> i" "i < 69"
  shows "half_bits p x ! (2 * i - 3) = (dm_encode 0 p ! (2 * i) = 1)"
    and "half_bits p x ! (2 * i - 2) = (dm_encode 0 p ! (2 * i + 1) = 1)"
  using assms by (auto simp: half_bits_def nth_append)

lemma packet_loop_ideal:
  fixes s :: "('f, 'c, 'q, 'n) tpms2"
  assumes sig: "signal A h l spb d (half_bits p x) T" "d \<le> 1" "10 \<le> spb" "spb * 136 < 65535"
    and freq: "f_eq A h h" "\<not> f_eq A l h"
    and p: "length p = 69" "set p \<subseteq> {0, 1}"
  shows "2 \<le> i \<Longrightarrow> i \<le> 69 \<Longrightarrow> at_bit A T h l spb d (2 * i - 4) e s \<Longrightarrow> collected (take i p) s \<Longrightarrow>
    \<exists>s'. packet_loop A (2 * spb) (69 - i) (take i p) s = Inr (Some p, s') \<and> collected p s' \<and> valid_pkt s'"
proof (induction "69 - i" arbitrary: i e s)
  case 0
  then show ?case using p(1) by (auto simp: at_bit_def)
next
  case (Suc n)
  then have i: "i < 69" "i < length p" using p(1) by auto
  let ?b = "\<lambda>t. if half_bits p x ! t then 1 else 0 :: int"
  let ?f = "dm_encode 0 p ! (2 * i)"
  have k: "2 * i - 4 + 1 = 2 * i - 3" "2 * i - 4 + 2 = 2 * i - 2" "2 * i - 4 + 3 < length (half_bits p x)"
    using Suc.prems(1) i by (auto simp: length_half_bits [OF p(1)])
  have f: "?f = 0 \<or> ?f = 1" "dm_encode 0 p ! (2 * i + 1) = 1 - ?f"
    using dm_encode_nth [OF i(2), of 0] dm_last_bit [of 0 "take i p"] by auto
  have b: "?b (2 * i - 3) = ?f" "?b (2 * i - 2) = 1 - ?f"
    "half_bits p x ! (2 * i - 2) = (\<not> half_bits p x ! (2 * i - 3))"
    using half_bits_nth [OF p(1) Suc.prems(1) i(1), of x] f by auto
  have len: "spb * length (half_bits p x) < 65535" using sig(4) p(1) by (simp add: length_half_bits)
  obtain s1 e1 where s1: "get_symbol A (actual_bit_end s + 1) (2 * spb) s = record_symbol ?f (1 - ?f) s1"
      "same_frame s s1" "at_bit A T h l spb d (2 * i - 2) e1 s1"
    using get_symbol_ideal [OF sig(1-3) len freq Suc.prems(3) k(3)] b unfolding k(1,2) by auto
  have col: "collected (take i p) s1"
    using Suc.prems(4) s1(2) by (simp add: collected_def same_frame_def)
  obtain y s2 where s2: "record_symbol ?f (1 - ?f) s1 = Inr (y, s2)" "collected (take i p @ [y]) s2"
      "y = (if dm_last 0 (take i p) = ?f then 1 else 0)" "valid_pkt s2 = valid_pkt s1"
    using record_symbol_collects [OF col _ f(1) refl] i by auto
  have "p ! i = 0 \<or> p ! i = 1" using p(2) nth_mem [OF i(2)] by blast
  moreover have "dm_last 0 (take i p) = 0 \<or> dm_last 0 (take i p) = 1"
    by (rule dm_last_bit) simp
  ultimately have y: "y = p ! i"
    using s2(3) dm_encode_nth(1) [OF i(2), of 0] by (elim disjE) simp_all
  have take: "take i p @ [y] = take (Suc i) p"
    using i(2) by (simp add: y take_Suc_conv_app_nth)
  have at: "at_bit A T h l spb d (2 * Suc i - 4) e1 s2"
    using s1(3) at_bit_record [OF s2(1)] by (simp add: numeral_eq_Suc)
  then have "valid_pkt s2" by (simp add: at_bit_def)
  moreover have "n = 69 - Suc i" using Suc.hyps(2) by simp
  then obtain s' where "packet_loop A (2 * spb) (69 - Suc i) (take (Suc i) p) s2 = Inr (Some p, s')"
      "collected p s'" "valid_pkt s'"
    using Suc.hyps(1) [of "Suc i" e1 s2] i at s2(2) take Suc.prems(1) by auto
  moreover have "69 - i = Suc (69 - Suc i)" using i by simp
  ultimately show ?case
    using s1(1) s2(1) take by auto
qed

lemma preceding_tape [simp]:
  "filled (s\<lparr>preceding_bit := b\<rparr>) = filled s"
  "tape A (s\<lparr>preceding_bit := b\<rparr>) = tape A s"
  "on_tape (s\<lparr>preceding_bit := b\<rparr>) = on_tape s"
  "filled (s\<lparr>bits := a, symbols := y\<rparr>) = filled s"
  "tape A (s\<lparr>bits := a, symbols := y\<rparr>) = tape A s"
  "on_tape (s\<lparr>bits := a, symbols := y\<rparr>) = on_tape s"
  by (simp_all add: filled_def tape_def front_of_def on_tape_def)

text \<open>The first bit read is the second half of symbol 1, a zero.\<close>

lemma get_second_symbol_ideal:
  fixes s :: "('f, 'c, 'q, 'n) tpms2"
  assumes sig: "signal A h l spb d bs T" "d \<le> 1" "10 \<le> spb" "spb * length bs < 65535"
    and freq: "f_eq A h h" "\<not> f_eq A l h" "high_freq s = h" "low_freq s = l"
    and s: "on_tape s" "tape A s = T" "valid_pkt s" "cache_loc s = 0" "filled s = 0"
      "bits s = ''011'' @ NUL # t" "symbols s = ''1'' @ NUL # u"
      "length (bits s) = 141" "length (symbols s) = 70"
    and bs: "2 < length bs" "\<not> bs ! 0"
  shows "\<exists>s' e. get_second_symbol A (cache_loc_in_file s) (2 * spb) s = Inr (1, s') \<and>
    at_bit A T h l spb d 0 e s' \<and> collected [1, 1] s'"
proof -
  let ?c = "cache_loc_in_file s" and ?w = "11 * spb div 10"
  define kk where "kk = (if bs ! 1 then spb - d else ?w)"
  have w: "spb < ?w" "?w \<le> 2 * spb - d" "10 * ?w \<le> 11 * spb" "11 * spb < 10 * ?w + 10"
  proof -
    show w10: "10 * ?w \<le> 11 * spb" "11 * spb < 10 * ?w + 10" by presburger+
    show "spb < ?w" "?w \<le> 2 * spb - d" using w10 sig(2,3) by linarith+
  qed
  have kk2: "spb - d \<le> kk" "kk \<le> ?w"
    using less_imp_le [OF w(1)] diff_le_self [of spb d] unfolding kk_def
    by (cases "bs ! 1"; simp del: div_mult_self1)+
  have kk: "kk \<le> ?w" "2 \<le> 3 * ?w div 4" "3 * ?w div 4 \<le> kk" "2 \<le> 6 * spb div 10" "2 \<le> kk"
    using kk2 w sig(2,3) by linarith+
  have "spb * 3 \<le> spb * length bs" using bs(1) by (intro mult_le_mono) auto
  moreover have "spb * length bs \<le> length T + d" using sig(1) by (simp add: signal_def)
  ultimately have len: "0 + ?w \<le> length T" "0 + ?w < 65535"
    using sig(3,4) w(2) by linarith+
  have same: "tone A (high_freq s) (low_freq s) (tape A s ! (0 + m - 1)) (tape A s ! (0 + m)) False"
    if m: "0 < m" "m < kk" for m
  proof (cases "m + d < spb")
    case True
    with m bs have "tone A h l (T ! (m - 1)) (T ! m) (bs ! 0)"
      by (intro signal_tone [OF sig(1)]) auto
    with bs(2) show ?thesis by (simp add: freq s(2))
  next
    case False
    with m have "\<not> bs ! 1" by (auto simp: kk_def split: if_splits)
    moreover have "tone A h l (T ! (m - 1)) (T ! m) (bs ! 1)"
      using m False bs w(2) kk(1) by (intro signal_tone [OF sig(1)]) auto
    ultimately show ?thesis by (simp add: freq s(2))
  qed
  have other: "tone A (high_freq s) (low_freq s) (tape A s ! (0 + kk - 1)) (tape A s ! (0 + kk)) (\<not> False)"
    if "kk < ?w"
  proof -
    have "kk = spb - d" "bs ! 1" using that by (auto simp: kk_def split: if_splits)
    moreover have "tone A h l (T ! (spb - d - 1)) (T ! (spb - d)) (bs ! 1)"
      using bs sig(2,3) by (intro signal_tone [OF sig(1)]) auto
    ultimately show ?thesis by (simp add: freq s(2))
  qed
  let ?s = "s\<lparr>preceding_bit := 1\<rparr>"
  have fl: "filled ?s = 0" and tp: "tape A ?s = T" and ot: "on_tape ?s"
    using s(1,2,5) by simp_all
  have "\<exists>s'. get_bit A (?c + 0) (?c + spb - 1) ?s = Inr (if False then 1 else 0, s') \<and>
      on_tape s' \<and> tape A s' = tape A ?s \<and> same_frame ?s s' \<and> filled s' = 0 + ?w \<and>
      actual_bit_end s' = (if kk < ?w then ?c + 0 + kk - 1 else ?c + spb - 1) \<and>
      1 / 4 \<le> bit_confidence s' \<and> cache_loc s' \<le> int (actual_bit_end s' - cache_loc_in_file ?s)"
  proof (rule get_bit_clean [where n = spb, OF _ _ ot _ _ len(2) _ _ _ _ refl kk(1-4)])
    fix m assume "0 < m" "m < kk"
    from same [OF this] show "tone A (high_freq ?s) (low_freq ?s) (tape A ?s ! (0 + m - 1)) (tape A ?s ! (0 + m)) False"
      by (simp add: tp s(2))
  next
    assume "kk < ?w"
    from other [OF this] show "tone A (high_freq ?s) (low_freq ?s) (tape A ?s ! (0 + kk - 1)) (tape A ?s ! (0 + kk)) (\<not> False)"
      by (simp add: tp s(2))
  qed (use freq s len(1) fl tp sig(3) in auto)
  then obtain s1 where r: "get_bit A (?c + 0) (?c + spb - 1) ?s = Inr (if False then 1 else 0, s1)"
      "on_tape s1" "tape A s1 = tape A ?s" "same_frame ?s s1" "filled s1 = 0 + ?w"
      "actual_bit_end s1 = (if kk < ?w then ?c + 0 + kk - 1 else ?c + spb - 1)"
      "cache_loc s1 \<le> int (actual_bit_end s1 - cache_loc_in_file ?s)"
    by blast
  then have s1: "get_bit A ?c (?c + spb - 1) ?s = Inr (0, s1)" "on_tape s1" "tape A s1 = T"
      "same_frame ?s s1" "filled s1 = ?w"
      "actual_bit_end s1 = (if kk < ?w then ?c + kk - 1 else ?c + spb - 1)"
      "cache_loc s1 \<le> int (actual_bit_end s1 - ?c)"
    unfolding tp by simp_all
  have f: "cache_loc_in_file s1 = ?c" "high_freq s1 = h" "low_freq s1 = l" "valid_pkt s1"
      "bits s1 = bits s" "symbols s1 = symbols s" "preceding_bit s1 = 1"
    using s1(4) s(3) freq by (simp_all add: same_frame_def)
  let ?e = "if kk < ?w then 0 else d"
  have "actual_bit_end s1 + 1 + d = ?c + spb * (0 + 1) + ?e"
    using s1(6) sig(2,3) w(1) by (auto simp: kk_def split: if_splits)
  moreover from this have "filled s1 \<le> actual_bit_end s1 + 1 - ?c + ?w"
    using s1(5) by simp
  ultimately have at: "at_bit A T h l spb d 0 ?e s1"
    unfolding at_bit_def f(1) using s1(2,3,7) f(2-4) by simp
  let ?s' = "s1\<lparr>bits := (bits s)[3 := CHR ''0'', 4 := NUL],
    symbols := (symbols s)[1 := CHR ''1'', 2 := NUL], preceding_bit := 0\<rparr>"
  have ex: "get_second_symbol A ?c (2 * spb) s = Inr (1, ?s')"
    unfolding get_second_symbol_def Let_def using s1(1) f s(8,9) by (simp add: arr_write_def)
  moreover have "collected [1, 1] ?s'"
    using get_second_symbol_collects [OF s(8,9,6,7), of A ?c "2 * spb"] ex f(4) by simp
  moreover have "at_bit A T h l spb d 0 ?e ?s'"
    using at by (simp only: at_bit_updates)
  ultimately show ?thesis by blast
qed

subsection \<open>An ideal packet is decoded\<close>

lemma half_bits_start:
  assumes "length p = 69" "p ! 0 = 1" "p ! 1 = 1"
  shows "\<not> half_bits p x ! 0"
proof -
  have "take 1 p = [1]" using assms by (simp add: take_Suc_conv_app_nth)
  then have "dm_encode 0 p ! 3 = 0"
    using dm_encode_nth [of 1 p 0] assms by simp
  then show ?thesis using assms(1) by (simp add: half_bits_def nth_append)
qed

lemma get_packet_symbols_ideal:
  fixes s :: "('f, 'c, 'q, 'n) tpms2"
  assumes sig: "signal A (high_freq s) (low_freq s) spb d (half_bits p x) (tape A s)"
      "d \<le> 1" "10 \<le> spb" "spb * 136 < 65535"
    and freq: "f_eq A (high_freq s) (high_freq s)" "\<not> f_eq A (low_freq s) (high_freq s)"
    and s: "on_tape s" "valid_pkt s" "cache_loc s = 0" "filled s = 0" "arrays_ok s"
    and p: "length p = 69" "set p \<subseteq> {0, 1}" "p ! 0 = 1" "p ! 1 = 1" "validate_packet p 69"
  shows "\<exists>s'. get_packet_symbols A (cache_loc_in_file s) 69 (2 * spb) s = Inr (Some p, s') \<and>
    accepted p s'"
proof -
  let ?s = "s\<lparr>bits := ''011'' @ NUL # drop 4 (bits s), symbols := ''1'' @ NUL # drop 2 (symbols s)\<rparr>"
  let ?h = "high_freq s" and ?l = "low_freq s"
  have len: "length (bits ?s) = 141" "length (symbols ?s) = 70"
    using s(5) by (simp_all add: arrays_ok_def)
  have st: "on_tape ?s" "tape A ?s = tape A s" "filled ?s = 0"
    using s(1,4) by simp_all
  have copy: "c_strcpy (bits s) ''011'' = Inr (''011'' @ NUL # drop 4 (bits s))"
    "c_strcpy (symbols s) ''1'' = Inr (''1'' @ NUL # drop 2 (symbols s))"
    using s(5) by (auto simp: c_strcpy_def arrays_ok_def numeral_eq_Suc)
  have sl: "spb * length (half_bits p x) < 65535" using sig(4) p(1) by (simp add: length_half_bits)
  have "\<exists>s' e. get_second_symbol A (cache_loc_in_file ?s) (2 * spb) ?s = Inr (1, s') \<and>
      at_bit A (tape A s) ?h ?l spb d 0 e s' \<and> collected [1, 1] s'"
    using s(2,3) st len half_bits_start [OF p(1,3,4)] p(1)
    by (intro get_second_symbol_ideal [OF sig(1-3) sl freq, of ?s "drop 4 (bits s)" "drop 2 (symbols s)"])
      (simp_all add: length_half_bits)
  then obtain s1 e where s1: "get_second_symbol A (cache_loc_in_file s) (2 * spb) ?s = Inr (1, s1)"
      "at_bit A (tape A s) ?h ?l spb d 0 e s1" "collected [1, 1] s1" by auto
  have t2: "take 2 p = [1, 1]" "take (69 - 67) p = [1, 1]"
    using p by (simp_all add: take_Suc_conv_app_nth numeral_eq_Suc)
  obtain s2 where s2: "packet_loop A (2 * spb) 67 [1, 1] s1 = Inr (Some p, s2)" "collected p s2"
      "valid_pkt s2"
    using packet_loop_ideal [OF sig freq p(1,2), of 2 e s1] s1(2,3) t2 by auto
  have v1: "valid_pkt s1" using s1(2) by (simp add: at_bit_def)
  have "get_packet_symbols A (cache_loc_in_file s) 69 (2 * spb) s = Inr (Some p, s2\<lparr>valid_pkt := True\<rparr>)"
    unfolding get_packet_symbols_def Let_def copy bind_res_Inr using s1(1) s2(1) v1 p(5) by simp
  moreover have "accepted p (s2\<lparr>valid_pkt := True\<rparr>)"
    using s2(2) p by (simp add: accepted_def)
  ultimately show ?thesis by blast
qed

text \<open>
  C3. An ideal transmission is decoded. Suppose a prelude has just ended, with the frequencies of the
  two tones estimated and the half-bit length \<open>spb\<close> right, and the samples the file still holds are,
  from here on, the half bits of a packet that passes the packet check (the first may have lost one
  sample to the prelude), \<open>spb\<close> samples each and every phase step clearly one of the two tones,
  followed by at least one more half bit. Then the first attempt returns exactly that packet.
\<close>

theorem ideal_packet_decoded:
  fixes s :: "('f, 'c, 'q, 'n) tpms2"
  assumes "\<not> read_from_cache s" "total_samples_in s = sync_bits_end s"
    and "length (bits s) = 141" "length (symbols s) = 70"
    and "f_eq A (high_freq s) (high_freq s)" "\<not> f_eq A (low_freq s) (high_freq s)"
    and "154 \<le> spb" "spb \<le> 256" "d \<le> 1"
    and "length p = 69" "set p \<subseteq> {0, 1}" "p ! 0 = 1" "p ! 1 = 1" "validate_packet p 69"
    and "signal A (high_freq s) (low_freq s) spb d (half_bits p x)
      (front_run A (front_of A s) (file_data s))"
  shows "\<exists>s'. try_to_get_packet_symbols A (sync_bits_end s) 69 (2 * spb) s = Inr (Some p, s') \<and>
    sound_packet p s'"
proof -
  let ?s = "s\<lparr>write_to_cache := True, cache_loc := 0, cache_loc_in_file := total_samples_in s,
    valid_pkt := True\<rparr>"
  have st: "on_tape ?s" "tape A ?s = front_run A (front_of A s) (file_data s)" "filled ?s = 0"
      "arrays_ok ?s"
    using assms(1,3,4) by (simp_all add: on_tape_def tape_def filled_def front_of_def arrays_ok_def)
  have "\<exists>s'. get_packet_symbols A (cache_loc_in_file ?s) 69 (2 * spb) ?s = Inr (Some p, s') \<and>
      accepted p s'"
    using assms st by (intro get_packet_symbols_ideal [where d = d and x = x]) simp_all
  then obtain s' where s': "get_packet_symbols A (sync_bits_end s) 69 (2 * spb) ?s = Inr (Some p, s')"
      "accepted p s'" using assms(2) by auto
  have "try_to_get_packet_symbols A (sync_bits_end s) 69 (2 * spb) s = Inr (Some p, s')"
    using s' assms(1,7,8)
    by (simp add: try_to_get_packet_symbols_def Let_def MAX_SAMPLES_PER_SYMBOL_def
        MIN_SAMPLES_PER_SYMBOL_def accepted_def)
  with accepted_sound [OF s'(2)] show ?thesis by blast
qed

subsection \<open>An ideal capture\<close>

text \<open>
  A capture for the receiver on rationals: the high tone advances the phase by 8 fortieths of a turn
  per sample and the low tone by 4, and every half bit lasts \<open>spb\<close> samples.
\<close>

fun fsk :: "nat \<Rightarrow> nat list \<Rightarrow> nat list" where
  "fsk ph [] = []"
| "fsk ph (i # is) = 100 # ((ph + i) mod 40) # fsk ((ph + i) mod 40) is"

definition increments :: "nat \<Rightarrow> bool list \<Rightarrow> nat list" where
  "increments spb bs = concat (map (\<lambda>b. replicate spb (if b then 8 else 4)) bs)"

definition rat_run :: "nat \<Rightarrow> nat list \<Rightarrow> (nat \<times> nat) list" where
  "rat_run ph is = front_run rat_receiver ((), ()) (fsk ph is)"

lemma rat_run_simps [simp]:
  "rat_run ph [] = []"
  "rat_run ph (i # is) = (100, (ph + i) mod 40) # rat_run ((ph + i) mod 40) is"
  by (simp_all add: rat_run_def rat_receiver_def Let_def)

lemma length_rat_run [simp]: "length (rat_run ph is) = length is"
  by (induction "is" arbitrary: ph) auto

lemma rat_run_nth:
  "0 < j \<Longrightarrow> j < length is \<Longrightarrow> \<exists>x. x < 40 \<and> rat_run ph is ! (j - 1) = (100, x) \<and>
    rat_run ph is ! j = (100, (x + is ! j) mod 40)"
proof (induction "is" arbitrary: ph j)
  case (Cons i "is")
  show ?case
  proof (cases "j = 1")
    case True
    with Cons.prems show ?thesis by (cases "is") auto
  next
    case False
    with Cons.prems Cons.IH [of "j - 1" "(ph + i) mod 40"] show ?thesis
      by (auto simp: nth_Cons')
  qed
qed simp

lemma length_increments [simp]: "length (increments spb bs) = spb * length bs"
  by (induction bs) (auto simp: increments_def)

lemma increments_nth:
  "j < spb * length bs \<Longrightarrow> increments spb bs ! j = (if bs ! (j div spb) then 8 else 4)"
proof (induction bs arbitrary: j)
  case (Cons b bs)
  have step: "increments spb (b # bs) = replicate spb (if b then 8 else 4) @ increments spb bs"
    by (simp add: increments_def)
  show ?case
  proof (cases "j < spb")
    case True
    then show ?thesis by (simp add: step nth_append)
  next
    case False
    with Cons.prems have "0 < spb" by (cases spb) auto
    with False have "j div spb = Suc ((j - spb) div spb)" by (simp add: div_if)
    with False Cons.prems Cons.IH [of "j - spb"] show ?thesis
      by (simp add: step nth_append)
  qed
qed simp

lemma rat_step_eq:
  "step_of rat_receiver (a, x) (b, y) =
    (let v = \<bar>44 / 7 + (of_nat y - of_nat x) * (11 / 70)\<bar>
     in v - 44 / 7 * of_int \<lfloor>v / (44 / 7)\<rfloor>)"
proof -
  have "44 / 7 + of_nat y * 11 / 70 - of_nat x * 11 / 70 =
      (44 / 7 + (of_nat y - of_nat x) * (11 / 70) :: rat)"
    by (simp only: left_diff_distrib times_divide_eq_right diff_divide_distrib add_diff_eq)
  note eq = this
  have "step_of rat_receiver (a, x) (b, y) =
      (let v = \<bar>44 / 7 + of_nat y * 11 / 70 - of_nat x * 11 / 70\<bar>
       in v - 44 / 7 * of_int \<lfloor>v / (44 / 7)\<rfloor>)"
    by (simp add: step_of_def delta_phi_defn_def rat_receiver_def Let_def)
  then show ?thesis unfolding eq .
qed

definition turn_mod :: "rat \<Rightarrow> rat" where
  "turn_mod d = (let v = \<bar>44 / 7 + d * (11 / 70)\<bar> in v - 44 / 7 * of_int \<lfloor>v / (44 / 7)\<rfloor>)"

lemma turn_mod_values:
  "turn_mod 4 = 4 * (11 / 70)" "turn_mod (4 - 40) = 4 * (11 / 70)"
  "turn_mod 8 = 8 * (11 / 70)" "turn_mod (8 - 40) = 8 * (11 / 70)"
  by code_simp+

lemma rat_step:
  assumes "x < 40" "i = 4 \<or> i = 8"
  shows "step_of rat_receiver (100, x) (100, (x + i) mod 40) = of_nat i * (11 / 70)"
proof -
  have "(of_nat ((x + i) mod 40) - of_nat x :: rat) = of_nat i \<or>
      (of_nat ((x + i) mod 40) - of_nat x :: rat) = of_nat i - 40"
  proof (cases "x + i < 40")
    case False
    then have "(x + i) mod 40 = (x + i - 40) mod 40" by (intro le_mod_geq) simp
    also have "\<dots> = x + i - 40" using assms by (intro mod_less) auto
    finally show ?thesis using False by (simp add: of_nat_diff)
  qed simp
  then show ?thesis
    unfolding rat_step_eq turn_mod_def [symmetric] using assms(2)
    by (elim disjE) (simp_all only: turn_mod_values of_nat_numeral)
qed

lemma rat_tone:
  assumes "x < 40" "i = (if b then 8 else 4)"
  shows "tone rat_receiver (44 / 35) (22 / 35) (100, x) (100, (x + i) mod 40) b"
proof -
  have "step_of rat_receiver (100, x) (100, (x + i) mod 40) = of_nat i * (11 / 70)"
    using assms by (intro rat_step) auto
  then show ?thesis
    using assms(2) by (cases b) (auto simp: tone_def rel_dev_def rat_receiver_def)
qed

lemma ideal_signal:
  "signal rat_receiver (44 / 35) (22 / 35) spb 0 bs (rat_run 0 (increments spb bs))"
proof -
  have "tone rat_receiver (44 / 35) (22 / 35) (rat_run 0 (increments spb bs) ! (j - 1))
      (rat_run 0 (increments spb bs) ! j) (bs ! (j div spb))"
    if j: "0 < j" "j < spb * length bs" for j
  proof -
    obtain x where "x < 40" "rat_run 0 (increments spb bs) ! (j - 1) = (100, x)"
      "rat_run 0 (increments spb bs) ! j = (100, (x + increments spb bs ! j) mod 40)"
      using rat_run_nth [of j "increments spb bs" 0] j by auto
    with rat_tone [OF this(1) increments_nth [OF j(2)]] show ?thesis by simp
  qed
  then show ?thesis by (simp add: signal_def)
qed

definition example_packet :: "int list" where
  "example_packet = [1, 1] @ replicate 34 0 @ [0, 1, 1, 1, 1, 0, 0, 0] @ [1, 0, 0, 0, 0, 1, 1, 1]
     @ replicate 16 0 @ [1]"

definition example_state :: "(rat, nat \<times> nat, unit, unit) tpms2" where
  "example_state = initial_state\<lparr>high_freq := 44 / 35, low_freq := 22 / 35,
     file_data := fsk 0 (increments 160 (half_bits example_packet True))\<rparr>"

theorem ideal_packet_decoded_witness:
  "\<exists>s'. try_to_get_packet_symbols rat_receiver 0 69 320 example_state = Inr (Some example_packet, s') \<and>
    sound_packet example_packet s'"
proof -
  have p: "length example_packet = 69" "set example_packet \<subseteq> {0, 1}" "example_packet ! 0 = 1"
      "example_packet ! 1 = 1" "validate_packet example_packet 69"
    by code_simp+
  have "signal rat_receiver (44 / 35) (22 / 35) 160 0 (half_bits example_packet True)
      (front_run rat_receiver ((), ()) (fsk 0 (increments 160 (half_bits example_packet True))))"
    using ideal_signal [of 160 "half_bits example_packet True"] by (simp add: rat_run_def)
  moreover have "front_of rat_receiver example_state = ((), ())"
    by (simp add: prod_eq_iff)
  ultimately show ?thesis
    using ideal_packet_decoded [of example_state rat_receiver 160 0 example_packet True] p
    by (simp add: example_state_def initial_state_def) (simp add: rat_receiver_def)
qed

end
