(* ===== verification/Tpms2_Prelude.thy ===== *)
theory Tpms2_Prelude
  imports Tpms2_Packet
begin

text \<open>
  What \<open>is_valid_prelude\<close> of \<open>Tpms2\<close> has established when it accepts: the lengths of the phases of a
  prelude and the order of the two tones.
\<close>

subsection \<open>Reading from the file\<close>

text \<open>Outside a packet neither cache flag is set, and each sample drawn counts one.\<close>

definition plain :: "('f, 'c, 'q, 'n) tpms2 \<Rightarrow> bool" where
  "plain s \<longleftrightarrow> \<not> read_from_cache s \<and> \<not> write_to_cache s"

definition prelude_marks :: "('f, 'c, 'q, 'n) tpms2 \<Rightarrow> nat \<times> nat \<times> nat \<times> bool \<times> bool" where
  "prelude_marks s = (prelude_hf_start s, prelude_lf_start s, sync_bits_start s, high_freq_known s,
     low_freq_known s)"

lemma get_next_sample_plain:
  "plain s \<Longrightarrow> holds (get_next_sample A s) (\<lambda>_. True) (\<lambda>(x, s').
     plain s' \<and> prelude_marks s' = prelude_marks s \<and> high_freq s' = high_freq s \<and>
     low_freq s' = low_freq s \<and> (x \<noteq> None \<longrightarrow> total_samples_in s' = total_samples_in s + 1))"
  by (auto simp: get_next_sample_def read_file_sample_def Let_def plain_def prelude_marks_def
      split: list.split prod.split)

text \<open>The remaining samples again bound the loops.\<close>

lemma draw_plain:
  assumes "plain s"
  shows "holds (get_next_sample A s) (\<lambda>_. True) (\<lambda>(x, s').
     plain s' \<and> prelude_marks s' = prelude_marks s \<and> high_freq s' = high_freq s \<and>
     low_freq s' = low_freq s \<and>
     (x \<noteq> None \<longrightarrow> total_samples_in s' = total_samples_in s + 1 \<and> remaining s' < remaining s))"
  using get_next_sample_plain [OF assms, of A] get_next_sample_remaining [of A s]
  by (cases "get_next_sample A s") auto

lemma plain_freq [simp]:
  "plain (s\<lparr>high_freq := h\<rparr>) = plain s" "plain (s\<lparr>low_freq := h\<rparr>) = plain s"
  "prelude_marks (s\<lparr>high_freq := h\<rparr>) = prelude_marks s"
  "prelude_marks (s\<lparr>low_freq := h\<rparr>) = prelude_marks s"
  by (simp_all add: plain_def prelude_marks_def)

lemma marksD:
  "prelude_marks s' = prelude_marks s \<Longrightarrow> prelude_hf_start s' = prelude_hf_start s"
  "prelude_marks s' = prelude_marks s \<Longrightarrow> prelude_lf_start s' = prelude_lf_start s"
  "prelude_marks s' = prelude_marks s \<Longrightarrow> sync_bits_start s' = sync_bits_start s"
  "prelude_marks s' = prelude_marks s \<Longrightarrow> high_freq_known s' = high_freq_known s"
  "prelude_marks s' = prelude_marks s \<Longrightarrow> low_freq_known s' = low_freq_known s"
  by (simp_all add: prelude_marks_def)

text \<open>What a phase of the prelude guarantees where its loop ends.\<close>

definition phase_end :: "nat \<Rightarrow> nat \<Rightarrow> ('f, 'c, 'q, 'n) tpms2 \<Rightarrow> 'f option \<times> ('f, 'c, 'q, 'n) tpms2 \<Rightarrow> bool" where
  "phase_end start count s = (\<lambda>(r, s').
     plain s' \<and> prelude_marks s' = prelude_marks s \<and>
     (r \<noteq> None \<longrightarrow> start \<le> total_samples_in s' \<and> total_samples_in s < total_samples_in s' \<and>
        total_samples_in s' + count \<le> total_samples_in s + 2048))"

lemma phase_end_simps:
  "phase_end start count s (None, s') \<longleftrightarrow> plain s' \<and> prelude_marks s' = prelude_marks s"
  "phase_end start count s (Some x, s') \<longleftrightarrow> plain s' \<and> prelude_marks s' = prelude_marks s \<and>
     start \<le> total_samples_in s' \<and> total_samples_in s < total_samples_in s' \<and>
     total_samples_in s' + count \<le> total_samples_in s + 2048"
  by (simp_all add: phase_end_def)

lemma prelude_hf_loop_length:
  "plain s \<Longrightarrow> holds (prelude_hf_loop A s cum count prev) (\<lambda>_. True)
     (phase_end (prelude_hf_start s + 1024) count s)"
proof (induction s arbitrary: cum count prev rule: measure_induct_rule [of remaining])
  case (less s)
  have IH: "holds (prelude_hf_loop A (s1\<lparr>high_freq := h\<rparr>) c (Suc count) p) (\<lambda>_. True)
      (phase_end (prelude_hf_start s + 1024) count s)"
    if "plain s1" "prelude_marks s1 = prelude_marks s" "total_samples_in s1 = Suc (total_samples_in s)"
      "remaining s1 < remaining s" for s1 h c p
    by (rule holds_conseq [OF less.IH [of "s1\<lparr>high_freq := h\<rparr>"]])
      (use that in \<open>auto simp: phase_end_def dest: marksD\<close>)
  show ?case
    by (subst prelude_hf_loop.simps, rule holds_bind2I [OF draw_plain [OF less.prems]])
      (auto simp: Let_def phase_end_simps MAX_PRELUDE_SAMPLES_def
        MIN_PRELUDE_SAMPLES_def not_less dest: marksD split: option.split intro!: IH)
qed

lemma prelude_lf_loop_length:
  "plain s \<Longrightarrow> holds (prelude_lf_loop A s cum count prev) (\<lambda>_. True)
     (\<lambda>(r, s'). phase_end (prelude_lf_start s + 1024) count s (r, s') \<and> high_freq s' = high_freq s)"
proof (induction s arbitrary: cum count prev rule: measure_induct_rule [of remaining])
  case (less s)
  have IH: "holds (prelude_lf_loop A (s1\<lparr>low_freq := h\<rparr>) c (Suc count) p) (\<lambda>_. True)
      (\<lambda>(r, s'). phase_end (prelude_lf_start s + 1024) count s (r, s') \<and> high_freq s' = high_freq s)"
    if "plain s1" "prelude_marks s1 = prelude_marks s" "total_samples_in s1 = Suc (total_samples_in s)"
      "remaining s1 < remaining s" "high_freq s1 = high_freq s" for s1 h c p
    by (rule holds_conseq [OF less.IH [of "s1\<lparr>low_freq := h\<rparr>"]])
      (use that in \<open>auto simp: phase_end_def dest: marksD\<close>)
  show ?case
    by (subst prelude_lf_loop.simps, rule holds_bind2I [OF draw_plain [OF less.prems]])
      (auto simp: Let_def phase_end_simps MAX_PRELUDE_SAMPLES_def
        MIN_PRELUDE_SAMPLES_def not_less dest: marksD split: option.split intro!: IH)
qed

definition sync_end :: "('f, 'c, 'q, 'n) tpms2 \<Rightarrow> 'f option \<times> ('f, 'c, 'q, 'n) tpms2 \<Rightarrow> bool" where
  "sync_end s = (\<lambda>(r, s').
     plain s' \<and> prelude_marks s' = prelude_marks s \<and> high_freq s' = high_freq s \<and>
     low_freq s' = low_freq s \<and> (r \<noteq> None \<longrightarrow> total_samples_in s < total_samples_in s'))"

lemma sync_end_simps:
  "sync_end s (None, s') \<longleftrightarrow> plain s' \<and> prelude_marks s' = prelude_marks s \<and>
     high_freq s' = high_freq s \<and> low_freq s' = low_freq s"
  "sync_end s (Some x, s') \<longleftrightarrow> plain s' \<and> prelude_marks s' = prelude_marks s \<and>
     high_freq s' = high_freq s \<and> low_freq s' = low_freq s \<and> total_samples_in s < total_samples_in s'"
  by (simp_all add: sync_end_def)

lemma prelude_sync_loop_length:
  "plain s \<Longrightarrow> holds (prelude_sync_loop A s prev) (\<lambda>_. True) (sync_end s)"
proof (induction s arbitrary: prev rule: measure_induct_rule [of remaining])
  case (less s)
  have IH: "holds (prelude_sync_loop A s1 p) (\<lambda>_. True) (sync_end s)"
    if "plain s1" "prelude_marks s1 = prelude_marks s" "total_samples_in s1 = Suc (total_samples_in s)"
      "remaining s1 < remaining s" "high_freq s1 = high_freq s" "low_freq s1 = low_freq s" for s1 p
    by (rule holds_conseq [OF less.IH [of s1]]) (use that in \<open>auto simp: sync_end_def\<close>)
  show ?case
    by (subst prelude_sync_loop.simps, rule holds_bind2I [OF draw_plain [OF less.prems]])
      (auto simp: Let_def sync_end_simps split: option.split intro!: IH)
qed

subsection \<open>An accepted prelude\<close>

definition prelude_found :: "('f, 'c, 'q, 'n) arith \<Rightarrow> ('f, 'c, 'q, 'n) tpms2 \<Rightarrow> bool" where
  "prelude_found A s \<longleftrightarrow>
     high_freq_known s \<and> low_freq_known s \<and> \<not> f_le A (high_freq s) (low_freq s) \<and>
     prelude_hf_start s + 1024 \<le> prelude_lf_start s \<and>
     prelude_lf_start s \<le> prelude_hf_start s + 2049 \<and>
     prelude_lf_start s + 1024 \<le> sync_bits_start s \<and>
     sync_bits_start s \<le> prelude_lf_start s + 2048 \<and>
     sync_bits_start s < sync_bits_end s \<and> total_samples_in s = sync_bits_end s \<and>
     samples_per_sym s = sync_bits_end s - sync_bits_start s + 1 \<and> 307 \<le> samples_per_sym s"

text \<open>
  C15. When \<open>is_valid_prelude\<close> accepts, called outside a packet, the capture has shown a prelude: a
  first phase of the high tone between 1024 and 2049 samples, a phase of the low tone between 1024
  and 2048 samples, then a second high phase whose length plus one is the estimate of the samples
  per symbol and at least 307; the first tone's frequency is above the second's; and the file
  stands at the end of the second high phase, where the packet is then looked for.
\<close>

theorem accepted_prelude:
  assumes "\<not> read_from_cache s" "\<not> write_to_cache s"
  shows "holds (is_valid_prelude A loc s) (\<lambda>e. True) (\<lambda>(ok, s'). \<not> ok \<or> prelude_found A s')"
proof -
  let ?Q = "\<lambda>(ok, s' :: ('a, 'b, 'c, 'd) tpms2). \<not> ok \<or> prelude_found A s'"
  have "plain (s\<lparr>high_freq_known := False, low_freq_known := False,
      prelude_hf_start := total_samples_in s\<rparr>)"
    using assms by (simp add: plain_def)
  note start = draw_plain [OF this]
  have upd: "plain (s\<lparr>high_freq_known := b, prelude_lf_start := t\<rparr>) = plain s"
    "plain (s\<lparr>low_freq_known := b, sync_bits_start := t\<rparr>) = plain s" for s :: "('a, 'b, 'c, 'd) tpms2" and b t
    by (simp_all add: plain_def)
  show ?thesis
    unfolding is_valid_prelude_def Let_def
    by (rule holds_bind2I [OF start], clarsimp split: option.split,
        rule holds_bind2I [OF prelude_hf_loop_length], assumption, clarsimp split: option.split,
        rule holds_bind2I [OF prelude_lf_loop_length], simp add: upd phase_end_def,
        clarsimp split: option.split,
        rule holds_bind2I [OF prelude_sync_loop_length], simp add: upd phase_end_def)
      (auto split: option.split simp: phase_end_def sync_end_def prelude_marks_def
        prelude_found_def MIN_SAMPLES_PER_SYMBOL_def)
qed

theorem accepted_prelude_witness:
  "holds (is_valid_prelude rat_receiver 0
      (initial_state\<lparr>write_to_cache := False, file_data := [100, 0, 100, 8, 100, 16]\<rparr>))
     (\<lambda>e. True) (\<lambda>(ok, s'). \<not> ok \<or> prelude_found rat_receiver s')"
  by (rule accepted_prelude) (simp_all add: initial_state_def)

end
