(* ===== verification/Machine.thy ===== *)
theory Machine
  imports Prelude
begin

text \<open>
  Machines that are given one input after another: the interface several components share. A step
  may fault, and may return a value that ends the run. The client's lemma is that a run from a good
  state never faults and ends in a good or a final state.
\<close>

fun run :: "('i \<Rightarrow> 's \<Rightarrow> ('r \<times> 's) res) \<Rightarrow> ('r \<Rightarrow> bool) \<Rightarrow> 'i list \<Rightarrow> 's \<Rightarrow> ('r option \<times> 's) res" where
  "run step stop [] s = Inr (None, s)"
| "run step stop (i # is) s =
     bind_res (step i s) (\<lambda>(r, s). if stop r then Inr (Some r, s) else run step stop is s)"

lemma run_append:
  "run step stop (is @ js) s =
     bind_res (run step stop is s) (\<lambda>(r, s). case r of
       None \<Rightarrow> run step stop js s
     | Some r \<Rightarrow> Inr (Some r, s))"
proof (induction "is" arbitrary: s)
  case (Cons i "is")
  then show ?case by (cases "step i s") auto
qed simp

locale machine =
  fixes step :: "'i \<Rightarrow> 's \<Rightarrow> ('r \<times> 's) res"
    and stop :: "'r \<Rightarrow> bool"
    and ok :: "'i \<Rightarrow> bool"
    and inv :: "'s \<Rightarrow> bool"
    and final :: "'r \<Rightarrow> 's \<Rightarrow> bool"
    and fault_ok :: "fault \<Rightarrow> bool"
  assumes step_inv: "inv s \<Longrightarrow> ok i \<Longrightarrow>
    holds (step i s) fault_ok (\<lambda>(r, s'). if stop r then final r s' else inv s')"
begin

lemma run_inv:
  "inv s \<Longrightarrow> list_all ok is \<Longrightarrow>
   holds (run step stop is s) fault_ok (\<lambda>(r, s'). case r of None \<Rightarrow> inv s' | Some r \<Rightarrow> final r s')"
proof (induction "is" arbitrary: s)
  case (Cons i "is")
  from Cons.prems have "holds (step i s) fault_ok (\<lambda>(r, s'). if stop r then final r s' else inv s')"
    by (intro step_inv) simp_all
  then show ?case
    unfolding run.simps
    by (rule holds_bind2I) (use Cons in \<open>auto split: if_splits\<close>)
qed simp

text \<open>A prefix of a run that has not stopped leaves the machine in a good state.\<close>

lemma run_prefix:
  assumes "inv s" "list_all ok is" "run step stop is s = Inr (None, s')"
  shows "inv s'"
  using holds_Inr_D [OF run_inv [OF assms(1,2)] assms(3)] by simp

end

end
