(* ===== verification/Liquid_Analysis.thy ===== *)
theory Liquid_Analysis
  imports Manchester Machine
begin

text \<open>
  The receiver of \<open>src/other/liquid_analysis.c\<close>: a state machine that is given one bit value per
  resampled clock slot, finds the prelude and collects the 138 half bits of a packet. The signal
  chain before the bit decision is a parameter.
\<close>

definition SYMBOLS :: nat where
  "SYMBOLS = 69"

record 'd liquid =
  dsp :: "'d option"
  curr_state :: int
  high_freq_set :: bool
  low_freq_set :: bool
  basebit_vals :: "char list"
  valid_pkt :: bool
  symbols :: "char list"
  total_samples_in :: "32 word"
  total_samples_out :: "32 word"
  prelude_hf_start :: nat
  prelude_lf_start :: nat

definition liquid_get_success :: "'d liquid \<Rightarrow> int" where
  "liquid_get_success s = (if valid_pkt s then 1 else 0)"

text \<open>The loop clears 69 characters of both arrays, \<open>strcpy\<close> empties the string.\<close>

definition reset_vars :: "'d liquid \<Rightarrow> 'd liquid" where
  "reset_vars s = s\<lparr>valid_pkt := False, curr_state := - 99,
     symbols := replicate SYMBOLS NUL @ drop SYMBOLS (symbols s),
     basebit_vals := replicate SYMBOLS NUL @ drop SYMBOLS (basebit_vals s),
     high_freq_set := False, low_freq_set := False, prelude_lf_start := 0, prelude_hf_start := 0\<rparr>"

definition end_analysis :: "'d liquid \<Rightarrow> 'd liquid" where
  "end_analysis s = s\<lparr>dsp := None\<rparr>"

subsection \<open>The state machine\<close>

text \<open>From 512 up to, not including, 716.8 samples after \<open>start\<close>.\<close>

definition in_window :: "nat \<Rightarrow> nat \<Rightarrow> bool" where
  "in_window start n \<longleftrightarrow> start + 512 \<le> n \<and> n \<le> start + 716"

definition strcat1 :: "char list \<Rightarrow> char \<Rightarrow> char list res" where
  "strcat1 a c = c_strcpy a (c_str a @ [c])"

text \<open>
  A block of \<open>update_state\<close> returns a value (\<open>Some\<close>) or falls through to the next block. Bit values
  are \<open>True\<close> for \<open>HIGHBIT\<close>.
\<close>

type_synonym 'd flow = "nat option \<times> 'd liquid"

definition first_high :: "bool \<Rightarrow> nat \<Rightarrow> 'd liquid \<Rightarrow> 'd liquid" where
  "first_high b sample_num s =
     (if \<not> high_freq_set s \<and> \<not> low_freq_set s then
        let s = s\<lparr>curr_state := - 1\<rparr>
        in if b then
             let s = (if prelude_hf_start s = 0 then s\<lparr>prelude_hf_start := sample_num\<rparr> else s)
             in if in_window (prelude_hf_start s) sample_num then s\<lparr>high_freq_set := True\<rparr> else s
           else reset_vars s
      else s)"

definition first_low :: "bool \<Rightarrow> nat \<Rightarrow> 'd liquid \<Rightarrow> 'd flow" where
  "first_low b sample_num s =
     (if high_freq_set s \<and> \<not> low_freq_set s then
        let s = s\<lparr>curr_state := - 2\<rparr>
        in if \<not> b then
             let s = (if prelude_lf_start s = 0 then s\<lparr>prelude_lf_start := sample_num\<rparr> else s)
             in if in_window (prelude_lf_start s) sample_num
                then (None, s\<lparr>low_freq_set := True, curr_state := - 3\<rparr>) else (None, s)
           else if in_window (prelude_hf_start s) sample_num then (Some 0, s)
           else (None, reset_vars s)
      else (None, s))"

text \<open>The end of the low phase; the number returned with the state is \<open>bit_in_process\<close>.\<close>

definition second_high :: "bool \<Rightarrow> nat \<Rightarrow> nat \<Rightarrow> 'd liquid \<Rightarrow> (nat \<times> 'd flow) res" where
  "second_high b sample_num bit_in_process s =
     (if curr_state s = - 3 then
        if \<not> b then Inr (bit_in_process, Some 0, s)
        else if in_window (prelude_lf_start s) sample_num then
          bind_res (strcat1 (basebit_vals s) (CHR ''0'')) (\<lambda>a.
            Inr (bit_in_process + 1, None, s\<lparr>basebit_vals := a\<rparr>))
        else Inr (bit_in_process, Some 0, reset_vars s)
      else Inr (bit_in_process, None, s))"

definition save_bit :: "bool \<Rightarrow> 'd liquid \<Rightarrow> 'd liquid res" where
  "save_bit b s =
     bind_res (strcat1 (basebit_vals s) (if b then CHR ''1'' else CHR ''0'')) (\<lambda>a.
       Inr (s\<lparr>basebit_vals := a, curr_state := int (length (c_str a))\<rparr>))"

definition decode_symbols :: "char list \<Rightarrow> char list" where
  "decode_symbols bits =
     [CHR ''1''] @ map (\<lambda>k. if bits ! (2 * k) = bits ! (2 * k - 1) then CHR ''1'' else CHR ''0'')
       [1..<SYMBOLS - 1] @ [CHR ''1'']"

definition finish_packet :: "'d liquid \<Rightarrow> 'd flow" where
  "finish_packet s =
     (let s = s\<lparr>symbols := decode_symbols (basebit_vals s) @ drop SYMBOLS (symbols s)\<rparr>
      in if symbols s ! 0 = CHR ''1'' \<and> symbols s ! 1 = CHR ''1'' \<and> symbols s ! 68 = CHR ''1''
         then (Some 1, end_analysis (s\<lparr>valid_pkt := True\<rparr>))
         else (Some 0, reset_vars s))"

definition collect_bit :: "bool \<Rightarrow> nat \<Rightarrow> nat \<Rightarrow> 'd liquid \<Rightarrow> 'd flow res" where
  "collect_bit b sample_num bit_in_process s =
     (if high_freq_set s \<and> low_freq_set s then
        let s = s\<lparr>curr_state := int bit_in_process\<rparr>;
            keep = bind_res (save_bit b s) (\<lambda>s. Inr (Some 0, s));
            start_over = Inr (Some 0, reset_vars s)
        in if bit_in_process = 0 \<and> prelude_lf_start s \<le> sample_num \<or> bit_in_process = 3 then
             if \<not> b then keep else start_over
           else if bit_in_process = 1 \<or> bit_in_process = 2 then
             if b then keep else start_over
           else if bit_in_process mod 2 = 1 then
             if 136 < bit_in_process \<or>
                b \<noteq> (basebit_vals s ! (bit_in_process - 1) = CHR ''1'')
             then bind_res (save_bit b s) (\<lambda>s.
                    if length (c_str (basebit_vals s)) = 2 * SYMBOLS then Inr (finish_packet s)
                    else Inr (None, s))
             else start_over
           else keep
      else Inr (None, s))"

definition update_state :: "bool \<Rightarrow> nat \<Rightarrow> 'd liquid \<Rightarrow> (nat \<times> 'd liquid) res" where
  "update_state b sample_num s =
     (let bit_in_process = length (c_str (basebit_vals s));
          s = first_high b sample_num s;
          (r, s) = first_low b sample_num s
      in case r of Some r \<Rightarrow> Inr (r, s)
         | None \<Rightarrow>
           bind_res (second_high b sample_num bit_in_process s) (\<lambda>(bit_in_process, r, s).
             case r of Some r \<Rightarrow> Inr (r, s)
             | None \<Rightarrow>
               bind_res (collect_bit b sample_num bit_in_process s) (\<lambda>(r, s).
                 case r of Some r \<Rightarrow> Inr (r, s)
                 | None \<Rightarrow>
                   Inr (0, if 0 < length (c_str (basebit_vals s))
                           then s\<lparr>curr_state := int (length (c_str (basebit_vals s)))\<rparr> else s))))"

subsection \<open>Blocks of samples\<close>

text \<open>
  The signal chain: the objects \<open>init_analysis\<close> creates, and what they make of one IQ pair, a list of
  resampled values, each given by whether it is positive.
\<close>

record 'd chain =
  create :: 'd
  process :: "'d \<Rightarrow> nat \<Rightarrow> nat \<Rightarrow> bool list \<times> 'd"

definition init_analysis :: "'d chain \<Rightarrow> 'd liquid \<Rightarrow> 'd liquid" where
  "init_analysis C s = s\<lparr>dsp := Some (create C), total_samples_in := 0, total_samples_out := 0\<rparr>"

fun output_loop :: "nat \<Rightarrow> bool list \<Rightarrow> 'd liquid \<Rightarrow> (nat \<times> 'd liquid) res" where
  "output_loop b [] s = Inr (0, s)"
| "output_loop b (x # xs) s =
     bind_res (if unat (total_samples_out s) mod 40 = 0 then update_state x b s else Inr (0, s))
       (\<lambda>(ret_val, s).
         if ret_val = 1 then Inr (ret_val, s)
         else output_loop b xs (s\<lparr>total_samples_out := total_samples_out s + 1\<rparr>))"

fun iq_loop :: "'d chain \<Rightarrow> nat \<Rightarrow> nat list \<Rightarrow> 'd liquid \<Rightarrow> (nat \<times> 'd liquid) res" where
  "iq_loop C b (xi # xq # rest) s =
     (let s = s\<lparr>total_samples_in := total_samples_in s + 1\<rparr>
      in if total_samples_in s < 42 then iq_loop C (b + 1) rest s
         else case dsp s of
           None \<Rightarrow> Inl NullDeref
         | Some d \<Rightarrow>
             (let (xs, d) = process C d xi xq
              in bind_res (output_loop b xs (s\<lparr>dsp := Some d\<rparr>)) (\<lambda>(ret_val, s).
                   if ret_val = 1 then Inr (1, s) else iq_loop C (b + 1) rest s)))"
| "iq_loop C b _ s = Inr (0, s)"

definition analyze_iq_pairs :: "'d chain \<Rightarrow> nat list \<Rightarrow> 'd liquid \<Rightarrow> (nat \<times> 'd liquid) res" where
  "analyze_iq_pairs C buf s = iq_loop C 0 buf s"

definition analyze_input :: "'d chain \<Rightarrow> nat list \<Rightarrow> nat \<Rightarrow> 'd liquid \<Rightarrow> (nat \<times> 'd liquid) res" where
  "analyze_input C buf sample_offset s =
     analyze_iq_pairs C buf (if sample_offset = 0 then init_analysis C s else s)"

function file_loop :: "'d chain \<Rightarrow> nat list \<Rightarrow> 'd liquid \<Rightarrow> (nat \<times> 'd liquid) res" where
  "file_loop C data s =
     bind_res (analyze_iq_pairs C (take 16384 data) s) (\<lambda>(r, s).
       if r \<noteq> 0 \<or> length data < 16384 then Inr (r, s) else file_loop C (drop 16384 data) s)"
  by pat_completeness auto
termination by (relation "measure (\<lambda>(C, data, s). length data)") auto

declare file_loop.simps [simp del]

definition liquid_analyze_file ::
    "(string \<Rightarrow> nat list option) \<Rightarrow> 'd chain \<Rightarrow> string \<Rightarrow> 'd liquid \<Rightarrow> (nat \<times> 'd liquid) res" where
  "liquid_analyze_file fopen C src_filename s =
     (let s = init_analysis C s
      in case fopen src_filename of
           None \<Rightarrow> Inl (Exit 2)
         | Some data \<Rightarrow> file_loop C data s)"

subsection \<open>The accessors\<close>

text \<open>The same functions of the symbol array as in the server decoder.\<close>

definition liquid_get_dec_address_val :: "'d liquid \<Rightarrow> nat" where
  "liquid_get_dec_address_val s =
     foldl (\<lambda>addr j. addr * 2 + (if symbols s ! j = CHR ''1'' then 1 else 0)) 0 [2..<30]"

definition liquid_get_temp_c :: "'d liquid \<Rightarrow> int" where
  "liquid_get_temp_c s =
     foldl (\<lambda>t j. t * 2 + (if symbols s ! j = CHR ''1'' then 1 else 0)) 0 [52..<60] - 40"

definition liquid_get_temp_f :: "'d liquid \<Rightarrow> int" where
  "liquid_get_temp_f s = tdiv (9 * liquid_get_temp_c s + 160) 5"

subsection \<open>The invariant\<close>

definition bit_str :: "bool list \<Rightarrow> string" where
  "bit_str bs = map (\<lambda>b. if b then CHR ''1'' else CHR ''0'') bs"

lemma length_bit_str [simp]: "length (bit_str bs) = length bs"
  by (simp add: bit_str_def)

lemma bit_str_no_NUL [simp]: "NUL \<notin> set (bit_str bs)"
  by (auto simp: bit_str_def)

lemma bit_str_snoc: "bit_str bs @ [if b then CHR ''1'' else CHR ''0''] = bit_str (bs @ [b])"
  by (simp add: bit_str_def)

lemma bit_str_nth: "i < length bs \<Longrightarrow> bit_str bs ! i = (if bs ! i then CHR ''1'' else CHR ''0'')"
  by (simp add: bit_str_def)

text \<open>
  The half bits collected: they start 0110, and the halves of every symbol but the last differ.
\<close>

definition half_bits_ok :: "bool list \<Rightarrow> bool" where
  "half_bits_ok bs \<longleftrightarrow>
     take 4 bs = take (length bs) [False, True, True, False] \<and>
     (\<forall>i. 2 * i + 1 < length bs \<and> 2 * i + 1 < 137 \<longrightarrow> bs ! (2 * i) \<noteq> bs ! (2 * i + 1))"

text \<open>The array \<open>basebit_vals\<close> holds \<open>bs\<close>.\<close>

definition holds_bits :: "bool list \<Rightarrow> 'd liquid \<Rightarrow> bool" where
  "holds_bits bs s \<longleftrightarrow> length (basebit_vals s) = 140 \<and> (\<exists>t. basebit_vals s = bit_str bs @ NUL # t)"

definition liquid_inv :: "'d liquid \<Rightarrow> bool" where
  "liquid_inv s \<longleftrightarrow>
     length (symbols s) = 69 \<and>
     (\<exists>bs. holds_bits bs s \<and> half_bits_ok bs \<and> length bs < 138 \<and>
        (bs \<noteq> [] \<longrightarrow> high_freq_set s \<and> low_freq_set s \<and> curr_state s \<noteq> - 3 \<and> 2 \<le> length bs) \<and>
        (low_freq_set s \<and> bs = [] \<longrightarrow> curr_state s = - 3)) \<and>
     (curr_state s = - 3 \<longrightarrow> high_freq_set s \<and> low_freq_set s) \<and>
     (low_freq_set s \<longrightarrow> high_freq_set s)"

lemma holds_bits_c_str: "holds_bits bs s \<Longrightarrow> c_str (basebit_vals s) = bit_str bs"
  by (auto simp: holds_bits_def)

lemma holds_bits_nth:
  "holds_bits bs s \<Longrightarrow> i < length bs \<Longrightarrow> basebit_vals s ! i = (if bs ! i then CHR ''1'' else CHR ''0'')"
  by (auto simp: holds_bits_def nth_append bit_str_nth)

lemma strcat1_bits:
  assumes "holds_bits bs s" "length bs < 139"
  shows "\<exists>a t. strcat1 (basebit_vals s) (if b then CHR ''1'' else CHR ''0'') = Inr a \<and>
    length a = 140 \<and> a = bit_str (bs @ [b]) @ NUL # t"
  using assms
  by (auto simp: strcat1_def c_strcpy_def holds_bits_c_str holds_bits_def bit_str_snoc [symmetric])

lemma save_bit_bits:
  assumes "holds_bits bs s" "length bs < 139"
  shows "\<exists>a. save_bit b s = Inr (s\<lparr>basebit_vals := a, curr_state := int (length bs + 1)\<rparr>) \<and>
    holds_bits (bs @ [b]) (s\<lparr>basebit_vals := a, curr_state := int (length bs + 1)\<rparr>)"
proof -
  obtain a t where a: "strcat1 (basebit_vals s) (if b then CHR ''1'' else CHR ''0'') = Inr a"
      "length a = 140" "a = bit_str (bs @ [b]) @ NUL # t"
    using strcat1_bits [OF assms] by blast
  then have "c_str a = bit_str (bs @ [b])" by simp
  with a show ?thesis by (auto simp: save_bit_def holds_bits_def)
qed

lemma reset_vars_inv:
  assumes "length (symbols s) = 69" "length (basebit_vals s) = 140"
  shows "liquid_inv (reset_vars s)"
proof -
  have "replicate SYMBOLS NUL @ drop SYMBOLS (basebit_vals s)
      = bit_str [] @ NUL # replicate 68 NUL @ drop 69 (basebit_vals s)"
    by (simp add: SYMBOLS_def bit_str_def numeral_eq_Suc)
  then have "holds_bits [] (reset_vars s)"
    using assms(2) by (auto simp: holds_bits_def reset_vars_def SYMBOLS_def)
  then show ?thesis
    using assms by (auto simp: liquid_inv_def half_bits_ok_def reset_vars_def SYMBOLS_def
        intro!: exI [of _ "[]"])
qed

text \<open>The symbols of a complete packet.\<close>

definition symbols_of :: "bool list \<Rightarrow> bool list" where
  "symbols_of bs = [True] @ map (\<lambda>k. bs ! (2 * k) = bs ! (2 * k - 1)) [1..<68] @ [True]"

definition liquid_done :: "'d liquid \<Rightarrow> bool" where
  "liquid_done s \<longleftrightarrow>
     valid_pkt s \<and> dsp s = None \<and>
     (\<exists>bs. holds_bits bs s \<and> half_bits_ok bs \<and> length bs = 138 \<and> symbols s = bit_str (symbols_of bs))"

lemma decode_symbols_bits:
  assumes "holds_bits bs s" "length bs = 138"
  shows "decode_symbols (basebit_vals s) = bit_str (symbols_of bs)"
proof -
  have "(basebit_vals s ! (2 * k) = basebit_vals s ! (2 * k - 1)) = (bs ! (2 * k) = bs ! (2 * k - 1))"
    if "1 \<le> k" "k < 68" for k
    using that holds_bits_nth [OF assms(1), of "2 * k"] holds_bits_nth [OF assms(1), of "2 * k - 1"]
      assms(2) by auto
  then show ?thesis
    by (auto simp: decode_symbols_def symbols_of_def bit_str_def SYMBOLS_def)
qed

lemma finish_packet_done:
  assumes "holds_bits bs s" "half_bits_ok bs" "length bs = 138" "length (symbols s) = 69"
  shows "finish_packet s = (Some 1, end_analysis (s\<lparr>symbols := bit_str (symbols_of bs), valid_pkt := True\<rparr>))"
proof -
  have "take 4 bs ! 1 = True" "take 4 bs ! 2 = True"
    using assms(2,3) by (simp_all add: half_bits_ok_def)
  then have "bs ! 2 = bs ! 1" by simp
  then have "symbols_of bs ! 1" "symbols_of bs ! 0" "symbols_of bs ! 68" "length (symbols_of bs) = 69"
    by (simp_all add: symbols_of_def nth_append)
  moreover from this have "bit_str (symbols_of bs) ! i = (if symbols_of bs ! i then CHR ''1'' else CHR ''0'')"
    if "i < 69" for i using that by (simp add: bit_str_nth)
  ultimately show ?thesis
    using assms(4) by (simp add: finish_packet_def decode_symbols_bits [OF assms(1,3)] SYMBOLS_def Let_def)
qed

lemma half_bits_ok_snoc_even:
  assumes "half_bits_ok bs" "even (length bs)" "length bs \<noteq> 0" "length bs = 2 \<longrightarrow> b"
  shows "half_bits_ok (bs @ [b])"
proof -
  have "take 4 (bs @ [b]) = take (length (bs @ [b])) [False, True, True, False]"
  proof (cases "length bs < 4")
    case True
    with assms(2,3) have l: "length bs = 2" by presburger
    with assms(1) have "bs = [False, True]" by (simp add: half_bits_ok_def)
    with assms(4) show ?thesis by simp
  qed (use assms(1) in \<open>simp add: half_bits_ok_def\<close>)
  moreover have "2 * i + 1 < length bs" if "2 * i + 1 < length (bs @ [b])" for i
    using that assms(2) by (auto elim: evenE)
  ultimately show ?thesis
    using assms(1) unfolding half_bits_ok_def by (auto simp: nth_append)
qed

lemma half_bits_ok_snoc_odd:
  assumes "half_bits_ok bs" "odd (length bs)" "length bs = 1 \<longrightarrow> b" "length bs = 3 \<longrightarrow> \<not> b"
    "length bs < 137 \<longrightarrow> b \<noteq> bs ! (length bs - 1)"
  shows "half_bits_ok (bs @ [b])"
proof -
  have "take 4 (bs @ [b]) = take (length (bs @ [b])) [False, True, True, False]"
  proof (cases "length bs < 4")
    case True
    with assms(2) have "length bs = 1 \<or> length bs = 3" by presburger
    with assms(1) have "bs = [False] \<or> bs = [False, True, True]" by (auto simp: half_bits_ok_def)
    with assms(3,4) show ?thesis by auto
  qed (use assms(1) in \<open>simp add: half_bits_ok_def\<close>)
  moreover have "(bs @ [b]) ! (2 * i) \<noteq> (bs @ [b]) ! (2 * i + 1)"
    if i: "2 * i + 1 < length (bs @ [b])" "2 * i + 1 < 137" for i
  proof (cases "2 * i + 1 < length bs")
    case True
    with assms(1) i show ?thesis by (simp add: half_bits_ok_def nth_append)
  next
    case False
    with i have "length bs = 2 * i + 1" by simp
    with assms(5) i show ?thesis by (auto simp: nth_append)
  qed
  ultimately show ?thesis by (simp add: half_bits_ok_def)
qed

subsection \<open>One step\<close>

definition step_result :: "nat \<times> 'd liquid \<Rightarrow> bool" where
  "step_result = (\<lambda>(r, s). r \<le> 1 \<and> (if r = 1 then liquid_done s else liquid_inv s))"

lemma step_result_simps [simp]:
  "step_result (0, s) = liquid_inv s"
  "step_result (Suc 0, s) = liquid_done s"
  by (simp_all add: step_result_def)

text \<open>The invariant of the collecting phase.\<close>

definition collecting :: "bool list \<Rightarrow> 'd liquid \<Rightarrow> bool" where
  "collecting bs s \<longleftrightarrow> length (symbols s) = 69 \<and> holds_bits bs s \<and> half_bits_ok bs \<and>
     high_freq_set s \<and> low_freq_set s"

lemma collecting_inv:
  "collecting bs s \<Longrightarrow> 2 \<le> length bs \<Longrightarrow> length bs < 138 \<Longrightarrow> curr_state s \<noteq> - 3 \<Longrightarrow> liquid_inv s"
  by (auto simp: collecting_def liquid_inv_def)

lemma collecting_update [simp]:
  "collecting bs (s\<lparr>curr_state := c\<rparr>) = collecting bs s"
  by (simp add: collecting_def holds_bits_def)

lemma collecting_save:
  assumes "collecting bs s" "length bs < 139" "half_bits_ok (bs @ [b])"
  shows "\<exists>s'. save_bit b s = Inr s' \<and> collecting (bs @ [b]) s' \<and> curr_state s' = int (length bs + 1)"
proof -
  have "holds_bits bs s" using assms(1) by (simp add: collecting_def)
  from save_bit_bits [OF this assms(2), of b] show ?thesis
    using assms(1,3) by (auto simp: collecting_def)
qed

lemma finish_packet_step:
  assumes "collecting bs s" "length bs = 138"
  shows "\<exists>s'. finish_packet s = (Some 1, s') \<and> liquid_done s'"
  using assms finish_packet_done [of bs s]
  by (auto simp: collecting_def liquid_done_def end_analysis_def holds_bits_def)

text \<open>
  The last block: a further bit is kept, completes the packet, or starts the search over.
\<close>

lemma collect_bit_step:
  fixes s :: "'d liquid"
  assumes c: "collecting bs s" and l: "1 \<le> length bs" "length bs < 138"
  shows "\<exists>r s'. collect_bit b n (length bs) s = Inr (r, s') \<and>
    (case r of None \<Rightarrow> 2 \<le> length bs \<and> collecting (bs @ [b]) s' \<and> length bs + 1 < 138
     | Some r \<Rightarrow> step_result (r, s'))"
proof -
  let ?k = "length bs" and ?s = "s\<lparr>curr_state := int (length bs)\<rparr>"
  have cs: "collecting bs ?s" and hb: "holds_bits bs s" and ok: "half_bits_ok bs"
    and len: "length (symbols s) = 69" "length (basebit_vals s) = 140"
    and fl: "high_freq_set s" "low_freq_set s"
    using c by (auto simp: collecting_def holds_bits_def)
  have reset: "step_result (0, reset_vars ?s)"
    using len by (simp add: reset_vars_inv)
  have save: "\<exists>s'. save_bit b ?s = Inr s' \<and> collecting (bs @ [b]) s' \<and> curr_state s' = int ?k + 1"
    if "half_bits_ok (bs @ [b])"
    using collecting_save [OF cs _ that] l by auto
  have keep: "step_result (0, s')" if "collecting (bs @ [b]) s'" "curr_state s' = int ?k + 1" "?k < 137" for s'
    using collecting_inv [OF that(1)] that(2,3) l by simp
  have "?k = 1 \<or> ?k = 2 \<or> ?k = 3 \<or> odd ?k \<and> 5 \<le> ?k \<or> even ?k \<and> 4 \<le> ?k"
    using l(1) by presburger
  then consider "?k = 1" | "?k = 2" | "?k = 3" | "odd ?k" "5 \<le> ?k" | "even ?k" "4 \<le> ?k"
    by blast
  then show ?thesis
  proof cases
    case 1
    have "b \<Longrightarrow> half_bits_ok (bs @ [b])"
      using ok 1 by (intro half_bits_ok_snoc_odd) (auto simp: half_bits_ok_def length_Suc_conv)
    then show ?thesis
      using 1 fl reset save keep by (cases b) (auto simp: collect_bit_def Let_def)
  next
    case 2
    have "b \<Longrightarrow> half_bits_ok (bs @ [b])"
      using ok 2 by (intro half_bits_ok_snoc_even) auto
    then show ?thesis
      using 2 fl reset save keep by (cases b) (auto simp: collect_bit_def Let_def)
  next
    case 3
    have "\<not> b \<Longrightarrow> half_bits_ok (bs @ [b])"
    proof -
      assume "\<not> b"
      moreover have "take 3 bs ! 2 = True" using ok 3 by (simp add: half_bits_ok_def)
      ultimately show ?thesis using ok 3 by (intro half_bits_ok_snoc_odd) auto
    qed
    then show ?thesis
      using 3 fl reset save keep by (cases b) (auto simp: collect_bit_def Let_def)
  next
    case 4
    let ?good = "136 < ?k \<or> b \<noteq> (basebit_vals ?s ! (?k - 1) = CHR ''1'')"
    show ?thesis
    proof (cases ?good)
      case True
      have "b \<noteq> bs ! (?k - 1)" if "?k < 137"
        using True that holds_bits_nth [OF hb, of "?k - 1"] 4 by auto
      then have "half_bits_ok (bs @ [b])"
        using ok 4 by (intro half_bits_ok_snoc_odd) auto
      then obtain s' where s': "save_bit b ?s = Inr s'" "collecting (bs @ [b]) s'"
        "curr_state s' = int ?k + 1" using save by blast
      have cl: "length (c_str (basebit_vals s')) = ?k + 1"
        using s'(2) by (auto simp: collecting_def holds_bits_c_str)
      show ?thesis
      proof (cases "?k = 137")
        case True
        then obtain s2 where "finish_packet s' = (Some 1, s2)" "liquid_done s2"
          using finish_packet_step [OF s'(2)] by auto
        with True s' 4 fl cl show ?thesis
          by (auto simp: collect_bit_def Let_def SYMBOLS_def odd_iff_mod_2_eq_one)
      next
        case False
        with s' 4 fl cl l True show ?thesis
          by (auto simp: collect_bit_def Let_def SYMBOLS_def odd_iff_mod_2_eq_one)
      qed
    next
      case False
      then have "?k \<le> 136" "b = (basebit_vals s ! (?k - 1) = CHR ''1'')" by auto
      with 4 fl reset show ?thesis
        by (auto simp: collect_bit_def Let_def odd_iff_mod_2_eq_one)
    qed
  next
    case 5
    then have "half_bits_ok (bs @ [b])" using ok by (intro half_bits_ok_snoc_even) auto
    then obtain s' where s': "save_bit b ?s = Inr s'" "collecting (bs @ [b]) s'"
      "curr_state s' = int ?k + 1" using save by blast
    moreover have "?k < 137" using 5 l by presburger
    ultimately show ?thesis
      using 5 fl keep by (auto simp: collect_bit_def Let_def even_iff_mod_2_eq_zero)
  qed
qed

definition empty_bits :: "'d liquid \<Rightarrow> bool" where
  "empty_bits s \<longleftrightarrow> length (symbols s) = 69 \<and> holds_bits [] s"

lemma empty_bits_updates [simp]:
  "empty_bits (s\<lparr>curr_state := c\<rparr>) = empty_bits s"
  "empty_bits (s\<lparr>prelude_hf_start := n\<rparr>) = empty_bits s"
  "empty_bits (s\<lparr>prelude_lf_start := n\<rparr>) = empty_bits s"
  "empty_bits (s\<lparr>high_freq_set := f\<rparr>) = empty_bits s"
  "empty_bits (s\<lparr>low_freq_set := f\<rparr>) = empty_bits s"
  by (simp_all add: empty_bits_def holds_bits_def)

lemma empty_bits_inv:
  "empty_bits s \<Longrightarrow> (low_freq_set s \<longrightarrow> curr_state s = - 3) \<Longrightarrow>
   (curr_state s = - 3 \<longrightarrow> high_freq_set s \<and> low_freq_set s) \<Longrightarrow> (low_freq_set s \<longrightarrow> high_freq_set s) \<Longrightarrow>
   liquid_inv s"
  by (auto simp: liquid_inv_def empty_bits_def half_bits_ok_def intro!: exI [of _ "[]"])

lemma empty_bits_reset: "empty_bits s \<Longrightarrow> empty_bits (reset_vars s)"
  by (auto simp: empty_bits_def holds_bits_def reset_vars_def SYMBOLS_def bit_str_def numeral_eq_Suc)

lemma reset_vars_fields [simp]:
  "high_freq_set (reset_vars s) = False" "low_freq_set (reset_vars s) = False"
  "curr_state (reset_vars s) = - 99"
  by (simp_all add: reset_vars_def)

lemma empty_bits_c_str: "empty_bits s \<Longrightarrow> c_str (basebit_vals s) = []"
  using holds_bits_c_str [of "[]" s] by (simp add: empty_bits_def bit_str_def)

text \<open>Before the first tone has been measured, or after it and before the second.\<close>

lemma first_high_inv:
  assumes "empty_bits s" "\<not> low_freq_set s" "curr_state s \<noteq> - 3"
  shows "empty_bits (first_high b n s)" "\<not> low_freq_set (first_high b n s)"
    "curr_state (first_high b n s) \<noteq> - 3"
  using assms by (auto simp: first_high_def Let_def empty_bits_reset)

lemma first_low_inv:
  assumes "empty_bits s" "\<not> low_freq_set s" "curr_state s \<noteq> - 3" "first_low b n s = (r, s')"
  shows "empty_bits s'" "r = None \<or> r = Some 0" "low_freq_set s' \<longrightarrow> high_freq_set s' \<and> \<not> b"
    "curr_state s' = - 3 \<longleftrightarrow> low_freq_set s'" "r = Some 0 \<longrightarrow> \<not> low_freq_set s'"
  using assms by (auto simp: first_low_def Let_def empty_bits_reset split: if_splits)

lemma update_state_searching:
  fixes s :: "'d liquid"
  assumes "empty_bits s" "\<not> low_freq_set s" "curr_state s \<noteq> - 3"
  shows "holds (update_state b n s) (\<lambda>_. False) step_result"
proof -
  obtain r s1 where s1: "first_low b n (first_high b n s) = (r, s1)" by fastforce
  note i = first_low_inv [OF first_high_inv [OF assms, of b n] s1]
  have inv: "liquid_inv s1" using i by (intro empty_bits_inv) auto
  show ?thesis
  proof (cases r)
    case (Some r')
    with i(2) s1 inv show ?thesis by (simp add: update_state_def Let_def)
  next
    case None
    show ?thesis
    proof (cases "low_freq_set s1")
      case True
      with i(3,4) have "curr_state s1 = - 3" "\<not> b" by auto
      with None s1 inv show ?thesis by (simp add: update_state_def Let_def second_high_def)
    next
      case False
      with i(4) have "curr_state s1 \<noteq> - 3" by auto
      with False None s1 inv i(1) show ?thesis
        by (simp add: update_state_def Let_def second_high_def collect_bit_def empty_bits_c_str)
    qed
  qed
qed

lemma update_state_step:
  fixes s :: "'d liquid"
  assumes "liquid_inv s"
  shows "holds (update_state b n s) (\<lambda>_. False) step_result"
proof -
  obtain bs where bs: "holds_bits bs s" "half_bits_ok bs" "length bs < 138"
      "bs \<noteq> [] \<longrightarrow> high_freq_set s \<and> low_freq_set s \<and> curr_state s \<noteq> - 3 \<and> 2 \<le> length bs"
      "low_freq_set s \<and> bs = [] \<longrightarrow> curr_state s = - 3"
    and s: "length (symbols s) = 69" "curr_state s = - 3 \<longrightarrow> high_freq_set s \<and> low_freq_set s"
      "low_freq_set s \<longrightarrow> high_freq_set s"
    using assms by (auto simp: liquid_inv_def)
  have k: "length (c_str (basebit_vals s)) = length bs"
    using bs(1) by (simp add: holds_bits_c_str)
  have steady: "first_high b n s = s" "first_low b n s = (None, s)" if "high_freq_set s" "low_freq_set s"
    using that by (simp_all add: first_high_def first_low_def)
  show ?thesis
  proof (cases "low_freq_set s")
    case False
    with bs(1,4) s have "empty_bits s" "curr_state s \<noteq> - 3" by (auto simp: empty_bits_def)
    with False show ?thesis by (intro update_state_searching) auto
  next
    case low: True
    with s(3) have fl: "high_freq_set s" "low_freq_set s" by auto
    show ?thesis
    proof (cases "bs = []")
      case False
      with bs(4) have l: "2 \<le> length bs" "curr_state s \<noteq> - 3" by auto
      have "collecting bs s" using bs s fl by (simp add: collecting_def)
      from collect_bit_step [OF this _ bs(3), of b n] l(1) obtain r s' where
        r: "collect_bit b n (length bs) s = Inr (r, s')"
          "case r of None \<Rightarrow> 2 \<le> length bs \<and> collecting (bs @ [b]) s' \<and> length bs + 1 < 138
            | Some r \<Rightarrow> step_result (r, s')" by auto
      show ?thesis
      proof (cases r)
        case None
        with r(2) have c: "collecting (bs @ [b]) s'" "length bs + 1 < 138" by auto
        then have "length (c_str (basebit_vals s')) = length bs + 1"
          by (auto simp: collecting_def holds_bits_c_str)
        moreover have "liquid_inv (s'\<lparr>curr_state := int (length bs + 1)\<rparr>)"
          using c l(1) by (intro collecting_inv [of "bs @ [b]"]) auto
        ultimately show ?thesis
          using None r(1) l(2) steady [OF fl] k by (auto simp: update_state_def Let_def second_high_def)
      next
        case (Some v)
        with r steady [OF fl] l(2) k show ?thesis
          by (simp add: update_state_def Let_def second_high_def)
      qed
    next
      case True
      with bs(5) fl have c3: "curr_state s = - 3" by simp
      have len: "length (basebit_vals s) = 140" using bs(1) by (simp add: holds_bits_def)
      show ?thesis
      proof (cases "b \<and> in_window (prelude_lf_start s) n")
        case False
        with c3 steady [OF fl] assms s(1) len show ?thesis
          by (auto simp: update_state_def Let_def second_high_def reset_vars_inv)
      next
        case b: True
        obtain a t where a: "strcat1 (basebit_vals s) (CHR ''0'') = Inr a" "length a = 140"
            "a = bit_str [False] @ NUL # t"
          using strcat1_bits [OF bs(1), of False] True by auto
        let ?s = "s\<lparr>basebit_vals := a\<rparr>"
        have "collecting [False] ?s"
          using a s(1) fl by (auto simp: collecting_def holds_bits_def half_bits_ok_def)
        from collect_bit_step [OF this, of b n] obtain r s' where
          "collect_bit b n 1 ?s = Inr (Some r, s')" "step_result (r, s')"
          by (auto split: option.splits)
        with c3 b a(1) steady [OF fl] k True show ?thesis
          by (simp add: update_state_def Let_def second_high_def)
      qed
    qed
  qed
qed

interpretation receiver: machine "\<lambda>(b, n). update_state b n" "\<lambda>r. r = 1" "\<lambda>_. True" liquid_inv
  "\<lambda>r. liquid_done" "\<lambda>_. False"
proof
  fix s :: "'d liquid" and i :: "bool \<times> nat"
  assume "liquid_inv s"
  then show "holds ((case i of (b, n) \<Rightarrow> update_state b n) s) (\<lambda>_. False)
      (\<lambda>(r, s'). if r = 1 then liquid_done s' else liquid_inv s')"
    using update_state_step [of s "fst i" "snd i"]
    by (cases i) (auto simp: step_result_def elim!: holds_conseq split: if_splits)
qed

subsection \<open>A transmission is received\<close>

text \<open>A bit that keeps the half bits well formed is kept.\<close>

lemma half_bits_ok_snocD:
  assumes "half_bits_ok (bs @ [b])"
  shows "length bs = 1 \<Longrightarrow> b" "length bs = 2 \<Longrightarrow> b" "length bs = 3 \<Longrightarrow> \<not> b"
    "odd (length bs) \<Longrightarrow> length bs < 137 \<Longrightarrow> b \<noteq> bs ! (length bs - 1)"
proof -
  have t: "take 4 (bs @ [b]) = take (Suc (length bs)) [False, True, True, False]"
    using assms by (simp add: half_bits_ok_def)
  have n: "(bs @ [b]) ! length bs = b" by simp
  have tk: "take 4 (bs @ [b]) ! length bs = b" if "length bs < 4"
    using that by simp
  show "length bs = 1 \<Longrightarrow> b" "length bs = 2 \<Longrightarrow> b" "length bs = 3 \<Longrightarrow> \<not> b"
    using t tk by (auto simp: numeral_eq_Suc)
  show "odd (length bs) \<Longrightarrow> length bs < 137 \<Longrightarrow> b \<noteq> bs ! (length bs - 1)"
  proof -
    assume "odd (length bs)" "length bs < 137"
    then obtain i where "length bs = 2 * i + 1" by (auto elim: oddE)
    with assms \<open>length bs < 137\<close> show ?thesis
      by (auto simp: half_bits_ok_def nth_append dest: spec [of _ i])
  qed
qed

lemma collect_bit_keeps:
  fixes s :: "'d liquid"
  assumes c: "collecting bs s" and l: "1 \<le> length bs" "length bs < 137" and ok: "half_bits_ok (bs @ [b])"
  shows "\<exists>r s'. collect_bit b n (length bs) s = Inr (r, s') \<and> r \<in> {None, Some 0} \<and>
    collecting (bs @ [b]) s' \<and> curr_state s' = int (length bs + 1)"
proof -
  have fl: "high_freq_set s" "low_freq_set s" and hb: "holds_bits bs s"
    using c by (auto simp: collecting_def)
  obtain s' where s': "save_bit b (s\<lparr>curr_state := int (length bs)\<rparr>) = Inr s'"
      "collecting (bs @ [b]) s'" "curr_state s' = int (length bs + 1)"
    using collecting_save [of bs "s\<lparr>curr_state := int (length bs)\<rparr>" b] c l ok by auto
  have cl: "length (c_str (basebit_vals s')) = length bs + 1"
    using s'(2) by (auto simp: collecting_def holds_bits_c_str)
  have prev: "b \<noteq> (basebit_vals s ! (length bs - 1) = CHR ''1'')" if "odd (length bs)"
    using half_bits_ok_snocD(4) [OF ok that l(2)] holds_bits_nth [OF hb, of "length bs - 1"] l(1) by auto
  note d = half_bits_ok_snocD(1-3) [OF ok]
  have "length bs = 1 \<or> length bs = 2 \<or> length bs = 3 \<or> odd (length bs) \<and> 5 \<le> length bs \<or>
      even (length bs) \<and> 4 \<le> length bs"
    using l(1) by presburger
  then consider "length bs = 1" | "length bs = 2" | "length bs = 3"
    | "odd (length bs)" "5 \<le> length bs" | "even (length bs)" "4 \<le> length bs"
    by blast
  then show ?thesis
  proof cases
    case 1
    with s' fl d(1) show ?thesis by (simp add: collect_bit_def Let_def)
  next
    case 2
    with s' fl d(2) show ?thesis by (simp add: collect_bit_def Let_def)
  next
    case 3
    with s' fl d(3) show ?thesis by (simp add: collect_bit_def Let_def)
  next
    case 4
    have "length bs mod 2 = 1" "length bs \<noteq> 0" "length bs \<noteq> 1" "length bs \<noteq> 2" "length bs \<noteq> 3"
      "length bs + 1 \<noteq> 2 * SYMBOLS"
      using 4 l(2) by (auto simp: odd_iff_mod_2_eq_one SYMBOLS_def)
    with s' fl cl prev [OF 4(1)] show ?thesis by (simp add: collect_bit_def Let_def)
  next
    case 5
    have "length bs mod 2 \<noteq> 1" "length bs \<noteq> 0" "length bs \<noteq> 1" "length bs \<noteq> 2" "length bs \<noteq> 3"
      using 5 by auto
    with s' fl show ?thesis by (simp add: collect_bit_def Let_def)
  qed
qed

lemma update_state_keeps:
  fixes s :: "'d liquid"
  assumes c: "collecting bs s" and l: "2 \<le> length bs" "length bs < 137" "curr_state s \<noteq> - 3"
    and ok: "half_bits_ok (bs @ [b])"
  shows "\<exists>s'. update_state b n s = Inr (0, s') \<and> collecting (bs @ [b]) s' \<and> curr_state s' \<noteq> - 3"
proof -
  have fl: "high_freq_set s" "low_freq_set s" and k: "length (c_str (basebit_vals s)) = length bs"
    using c by (auto simp: collecting_def holds_bits_c_str)
  obtain r s' where r: "collect_bit b n (length bs) s = Inr (r, s')" "r \<in> {None, Some 0}"
      "collecting (bs @ [b]) s'" "curr_state s' = int (length bs + 1)"
    using collect_bit_keeps [OF c _ l(2) ok, of n] l(1) by fastforce
  then show ?thesis
    using fl k l(3)
    by (auto simp: update_state_def Let_def first_high_def first_low_def second_high_def)
qed

lemma update_state_last:
  fixes s :: "'d liquid"
  assumes c: "collecting bs s" and l: "length bs = 137" "curr_state s \<noteq> - 3"
    and ok: "half_bits_ok (bs @ [b])"
  shows "\<exists>s'. update_state b n s = Inr (1, s') \<and> liquid_done s' \<and>
    symbols s' = bit_str (symbols_of (bs @ [b]))"
proof -
  have fl: "high_freq_set s" "low_freq_set s" and k: "length (c_str (basebit_vals s)) = length bs"
    using c by (auto simp: collecting_def holds_bits_c_str)
  obtain s1 where s1: "save_bit b (s\<lparr>curr_state := int (length bs)\<rparr>) = Inr s1"
      "collecting (bs @ [b]) s1"
    using collecting_save [of bs "s\<lparr>curr_state := int (length bs)\<rparr>" b] c l ok by auto
  have cl: "length (c_str (basebit_vals s1)) = 138"
    using s1(2) l(1) by (auto simp: collecting_def holds_bits_c_str)
  obtain s' where s': "finish_packet s1 = (Some 1, s')" "liquid_done s'"
    using finish_packet_step [OF s1(2)] l(1) by auto
  have "symbols s' = bit_str (symbols_of (bs @ [b]))"
    using s'(1) finish_packet_done [of "bs @ [b]" s1] s1(2) l(1)
    by (auto simp: collecting_def end_analysis_def)
  moreover have "collect_bit b n 137 s = Inr (Some 1, s')"
    using s1 s' cl fl l(1) by (simp add: collect_bit_def Let_def SYMBOLS_def)
  ultimately show ?thesis
    using s'(2) fl k l by (simp add: update_state_def Let_def first_high_def first_low_def second_high_def)
qed

lemma half_bits_ok_take: "half_bits_ok bs \<Longrightarrow> half_bits_ok (take k bs)"
proof -
  assume ok: "half_bits_ok bs"
  have "take 4 (take k bs) = take k (take 4 bs)" by (simp add: min.commute)
  also have "\<dots> = take k (take (length bs) [False, True, True, False])"
    using ok by (simp add: half_bits_ok_def)
  also have "\<dots> = take (length (take k bs)) [False, True, True, False]" by (simp add: min.commute)
  finally show ?thesis using ok by (simp add: half_bits_ok_def)
qed

text \<open>The machine on the rest of a well-formed packet.\<close>

abbreviation receive :: "(bool \<times> nat) list \<Rightarrow> 'd liquid \<Rightarrow> (nat option \<times> 'd liquid) res" where
  "receive \<equiv> run (\<lambda>(b, n). update_state b n) (\<lambda>r. r = 1)"

lemma receive_rest:
  fixes s :: "'d liquid"
  assumes B: "half_bits_ok B" "length B = 138"
  shows "collecting (take k B) s \<Longrightarrow> 2 \<le> k \<Longrightarrow> k < 138 \<Longrightarrow> curr_state s \<noteq> - 3 \<Longrightarrow>
    length ns = 138 - k \<Longrightarrow>
    \<exists>s'. receive (zip (drop k B) ns) s = Inr (Some 1, s') \<and> liquid_done s' \<and>
      symbols s' = bit_str (symbols_of B)"
proof (induction "137 - k" arbitrary: k s ns)
  case 0
  then have k: "k = 137" by simp
  with 0 obtain n where "ns = [n]" by (cases ns) auto
  moreover have "drop k B = [B ! 137]" "take k B @ [B ! 137] = B"
    using k B(2) by (simp_all add: Cons_nth_drop_Suc [symmetric] take_Suc_conv_app_nth [symmetric])
  ultimately show ?case
    using update_state_last [of "take k B" s "B ! 137" n] 0 k B by auto
next
  case (Suc d)
  then have k: "k < 137" by simp
  with Suc.prems obtain n ns' where ns: "ns = n # ns'" by (cases ns) auto
  have nx: "take k B @ [B ! k] = take (Suc k) B" "drop k B = B ! k # drop (Suc k) B"
    using k B(2) by (simp_all add: take_Suc_conv_app_nth Cons_nth_drop_Suc)
  have "half_bits_ok (take k B @ [B ! k])"
    unfolding nx by (rule half_bits_ok_take [OF B(1)])
  from update_state_keeps [OF Suc.prems(1) _ _ Suc.prems(4) this, of n] obtain s1 where
    s1: "update_state (B ! k) n s = Inr (0, s1)" "collecting (take (Suc k) B) s1" "curr_state s1 \<noteq> - 3"
    using Suc.prems k B(2) nx by auto
  have "d = 137 - Suc k" using Suc.hyps(2) by simp
  from Suc.hyps(1) [OF this s1(2) _ _ s1(3), of ns'] Suc.prems k ns
  show ?case by (auto simp: ns nx s1(1))
qed

text \<open>The half bits of a packet, as a reference transmitter sends them.\<close>

definition packet_bits :: "int list \<Rightarrow> bool list" where
  "packet_bits p = map (\<lambda>b. b = 1) (dm_encode 0 p)"

lemma length_packet_bits [simp]: "length (packet_bits p) = 2 * length p"
  by (simp add: packet_bits_def)

lemma packet_bits_halves:
  assumes "i < length p"
  shows "packet_bits p ! (2 * i) \<noteq> packet_bits p ! (2 * i + 1)"
proof -
  have "dm_encode 0 p ! (2 * i) = 0 \<or> dm_encode 0 p ! (2 * i) = 1"
    using dm_encode_nth(1) [OF assms, of 0] dm_last_bit [of 0 "take i p"] by auto
  then show ?thesis
    using dm_encode_nth(2) [OF assms, of 0] assms by (auto simp: packet_bits_def)
qed

lemma packet_bits_before:
  assumes "k < length p" "0 < k"
  shows "dm_encode 0 p ! (2 * k - 1) = dm_last 0 (take k p)"
proof -
  let ?i = "k - 1"
  have i: "?i < length p" "2 * k - 1 = 2 * ?i + 1" "take k p = take ?i p @ [p ! ?i]"
    using assms by (simp_all add: take_Suc_conv_app_nth [symmetric])
  show ?thesis
    unfolding i(2) using dm_encode_nth [OF i(1), of 0] by (auto simp: i(3) dm_last_snoc)
qed

lemma symbols_of_packet:
  assumes "length p = 69" "p ! 0 = 1" "p ! 1 = 1"
  shows "symbols_of (packet_bits p) = map (\<lambda>y. y = 1) (p[68 := 1])"
proof (rule nth_equalityI)
  fix i assume "i < length (symbols_of (packet_bits p))"
  then have i: "i < 69" by (simp add: symbols_of_def)
  consider "i = 0" | "0 < i" "i < 68" | "i = 68" using i by linarith
  then show "symbols_of (packet_bits p) ! i = map (\<lambda>y. y = 1) (p[68 := 1]) ! i"
  proof cases
    case 2
    have l: "dm_last 0 (take i p) = 0 \<or> dm_last 0 (take i p) = 1" by (rule dm_last_bit) simp
    have b: "dm_encode 0 p ! (2 * i) = (if p ! i = 1 then dm_last 0 (take i p) else 1 - dm_last 0 (take i p))"
      "dm_encode 0 p ! (2 * i - 1) = dm_last 0 (take i p)"
      using dm_encode_nth(1) [of i p 0] packet_bits_before [of i p] 2 assms(1) by simp_all
    have "packet_bits p ! (2 * i) = packet_bits p ! (2 * i - 1) \<longleftrightarrow> p ! i = 1"
      using 2 assms(1) l b by (auto simp: packet_bits_def)
    moreover have "symbols_of (packet_bits p) ! i = (packet_bits p ! (2 * i) = packet_bits p ! (2 * i - 1))"
    proof -
      obtain j where j: "i = Suc j" "j < 67" using 2 by (cases i) auto
      then show ?thesis
        by (simp add: symbols_of_def nth_append del: upt_rec_numeral)
    qed
    ultimately show ?thesis using 2 assms(1) by simp
  qed (use assms in \<open>simp_all add: symbols_of_def nth_append del: upt_rec_numeral\<close>)
qed (use assms in \<open>simp add: symbols_of_def\<close>)

lemma packet_bits_ok:
  assumes "length p = 69" "p ! 0 = 1" "p ! 1 = 1"
  shows "half_bits_ok (packet_bits p)"
proof -
  obtain x p' where p': "p = x # p'" using assms(1) by (cases p) auto
  obtain y q where q: "p' = y # q" using assms(1) p' by (cases p') auto
  have p: "p = 1 # 1 # q" using assms(2,3) p' q by simp
  have "take 4 (packet_bits p) = [False, True, True, False]"
    by (simp add: p packet_bits_def Let_def numeral_eq_Suc)
  then show ?thesis
    using packet_bits_halves [of _ p] assms(1) by (auto simp: half_bits_ok_def)
qed

subsection \<open>Properties\<close>



text \<open>The four inputs of a minimal prelude.\<close>

lemma receive_prelude:
  fixes s :: "'d liquid"
  assumes "empty_bits s" "\<not> high_freq_set s" "\<not> low_freq_set s" "prelude_hf_start s = 0"
    "prelude_lf_start s = 0" "0 < h0" "in_window h0 h1" "0 < l0" "in_window l0 l1" "h1 \<le> l0"
  shows "\<exists>s'. receive ([(True, h0), (True, h1), (False, l0), (False, l1)] @ is) s = receive is s' \<and>
    empty_bits s' \<and> high_freq_set s' \<and> low_freq_set s' \<and> curr_state s' = - 3 \<and> prelude_lf_start s' = l0"
proof -
  have n0: "\<not> in_window h0 h0" "\<not> in_window l0 l0" by (simp_all add: in_window_def)
  have c: "c_str (basebit_vals s) = []" by (rule empty_bits_c_str [OF assms(1)])
  let ?s1 = "s\<lparr>curr_state := - 1, prelude_hf_start := h0\<rparr>"
  let ?s2 = "?s1\<lparr>high_freq_set := True, curr_state := - 2\<rparr>"
  let ?s3 = "?s2\<lparr>prelude_lf_start := l0\<rparr>"
  let ?s4 = "?s3\<lparr>low_freq_set := True, curr_state := - 3\<rparr>"
  have "update_state True h0 s = Inr (0, ?s1)"
    using assms n0 c
    by (simp add: update_state_def first_high_def first_low_def second_high_def collect_bit_def Let_def)
  moreover have "update_state True h1 ?s1 = Inr (0, ?s2)"
    using assms n0 c by (simp add: update_state_def first_high_def first_low_def Let_def)
  moreover have "update_state False l0 ?s2 = Inr (0, ?s3)"
    using assms n0 c
    by (simp add: update_state_def first_high_def first_low_def second_high_def collect_bit_def Let_def)
  moreover have "update_state False l1 ?s3 = Inr (0, ?s4)"
    using assms n0 c
    by (simp add: update_state_def first_high_def first_low_def second_high_def Let_def)
  moreover have "empty_bits ?s4" using assms(1) by (simp add: empty_bits_def holds_bits_def)
  ultimately show ?thesis by (intro exI [of _ ?s4]) simp
qed

lemma receive_start_bit:
  fixes s :: "'d liquid"
  assumes "empty_bits s" "high_freq_set s" "low_freq_set s" "curr_state s = - 3"
    "in_window (prelude_lf_start s) n"
  shows "\<exists>s'. update_state True n s = Inr (0, s') \<and> collecting [False, True] s' \<and> curr_state s' \<noteq> - 3"
proof -
  have hb: "holds_bits [] s" and len: "length (symbols s) = 69"
    using assms(1) by (simp_all add: empty_bits_def)
  obtain a t where a: "strcat1 (basebit_vals s) (CHR ''0'') = Inr a" "length a = 140"
      "a = bit_str [False] @ NUL # t"
    using strcat1_bits [OF hb, of False] by auto
  let ?s = "s\<lparr>basebit_vals := a\<rparr>"
  have "collecting [False] ?s"
    using a len assms by (auto simp: collecting_def holds_bits_def half_bits_ok_def)
  moreover have "half_bits_ok ([False] @ [True])" by (simp add: half_bits_ok_def)
  ultimately obtain r s' where r: "collect_bit True n (length [False]) ?s = Inr (r, s')"
      "r = None \<or> r = Some 0" "collecting ([False] @ [True]) s'" "curr_state s' = int (length [False] + 1)"
    using collect_bit_keeps [of "[False]" ?s True n] by auto
  have "first_high True n s = s" "first_low True n s = (None, s)"
    using assms by (simp_all add: first_high_def first_low_def)
  with r a(1) assms empty_bits_c_str [OF assms(1)] show ?thesis
    by (auto simp: update_state_def second_high_def)
qed

definition transmission :: "nat \<Rightarrow> nat \<Rightarrow> nat \<Rightarrow> nat \<Rightarrow> nat list \<Rightarrow> int list \<Rightarrow> (bool \<times> nat) list" where
  "transmission h0 h1 l0 l1 ns p =
     [(True, h0), (True, h1), (False, l0), (False, l1)] @ zip (drop 1 (packet_bits p)) ns"

text \<open>
  C18. A transmission is received. From the searching state, a prelude (two high bits and two low
  bits whose sample numbers lie 512 to 716 apart, the first of each not zero), then the half bits of
  any packet starting 1, 1 from the second half of symbol 0 on, the first of them still inside the
  low tone's window: the machine accepts on the last half bit, and the symbols are those of the
  packet, except that the last one is a one whatever was sent.
\<close>

theorem transmission_received:
  fixes s :: "'d liquid"
  assumes "empty_bits s" "\<not> high_freq_set s" "\<not> low_freq_set s"
    and "prelude_hf_start s = 0" "prelude_lf_start s = 0"
    and "0 < h0" "in_window h0 h1" "0 < l0" "in_window l0 l1" "h1 \<le> l0" "in_window l0 (ns ! 0)"
    and "length p = 69" "p ! 0 = 1" "p ! 1 = 1" "length ns = 137"
  shows "\<exists>s'. run (\<lambda>(b, n). update_state b n) (\<lambda>r. r = 1) (transmission h0 h1 l0 l1 ns p) s
      = Inr (Some 1, s') \<and> valid_pkt s' \<and> symbols s' = bit_str (map (\<lambda>y. y = 1) (p[68 := 1]))"
proof -
  let ?B = "packet_bits p"
  obtain n ns' where ns: "ns = n # ns'" "length ns' = 136" using assms(15) by (cases ns) auto
  have ok: "half_bits_ok ?B" "length ?B = 138"
    using packet_bits_ok [OF assms(12-14)] assms(12) by simp_all
  have t4: "take 4 ?B = [False, True, True, False]" using ok by (simp add: half_bits_ok_def)
  have B: "?B ! 1 = True" "take 2 ?B = [False, True]"
    using arg_cong [OF t4, of "\<lambda>b. b ! 1"] arg_cong [OF t4, of "take 2"] by simp_all
  have d: "drop 1 ?B = True # drop 2 ?B"
    using Cons_nth_drop_Suc [of 1 ?B] B(1) ok(2) by (simp add: numeral_eq_Suc)
  obtain s1 where s1: "receive ([(True, h0), (True, h1), (False, l0), (False, l1)]
        @ zip (drop 1 ?B) ns) s = receive (zip (drop 1 ?B) ns) s1"
      "empty_bits s1" "high_freq_set s1" "low_freq_set s1" "curr_state s1 = - 3" "prelude_lf_start s1 = l0"
    using receive_prelude [OF assms(1-10)] by blast
  obtain s2 where s2: "update_state True n s1 = Inr (0, s2)" "collecting (take 2 ?B) s2" "curr_state s2 \<noteq> - 3"
    using receive_start_bit [OF s1(2-5), of n] s1(6) assms(11) ns(1) B(2) by auto
  obtain s' where s': "receive (zip (drop 2 ?B) ns') s2 = Inr (Some 1, s')" "liquid_done s'"
      "symbols s' = bit_str (symbols_of ?B)"
    using receive_rest [OF ok s2(2) _ _ s2(3), of ns'] ns(2) by auto
  have "receive (zip (drop 1 ?B) ns) s1 = Inr (Some 1, s')"
    using s2(1) s'(1) unfolding d ns(1) by simp
  with s1(1) have "receive (transmission h0 h1 l0 l1 ns p) s = Inr (Some 1, s')"
    unfolding transmission_def by (simp only:)
  moreover have "valid_pkt s'" using s'(2) by (simp add: liquid_done_def)
  ultimately show ?thesis
    using s'(3) symbols_of_packet [OF assms(12-14)] by auto
qed

definition idle_receiver :: "unit liquid" where
  "idle_receiver = \<lparr>dsp = Some (), curr_state = 0, high_freq_set = False, low_freq_set = False,
     basebit_vals = replicate 140 NUL, valid_pkt = False, symbols = replicate 69 NUL,
     total_samples_in = 0, total_samples_out = 0, prelude_hf_start = 0, prelude_lf_start = 0\<rparr>"

definition example_symbols :: "int list" where
  "example_symbols = [1, 1] @ replicate 66 0 @ [0]"

theorem transmission_received_witness:
  "\<exists>s'. run (\<lambda>(b, n). update_state b n) (\<lambda>r. r = 1)
      (transmission 10 600 700 1300 (replicate 137 1400) example_symbols) idle_receiver
      = Inr (Some 1, s') \<and> symbols s' = bit_str ([True, True] @ replicate 66 False @ [True])"
proof -
  have "empty_bits idle_receiver"
    by (auto simp: empty_bits_def holds_bits_def idle_receiver_def bit_str_def numeral_eq_Suc)
  moreover have "prelude_hf_start idle_receiver = 0" "prelude_lf_start idle_receiver = 0"
      "\<not> high_freq_set idle_receiver" "\<not> low_freq_set idle_receiver"
    by (simp_all add: idle_receiver_def)
  moreover have "in_window 10 600" "in_window 700 1300" "in_window 700 (replicate 137 1400 ! 0)"
    by (simp_all add: in_window_def)
  moreover have "example_symbols ! 0 = 1" "example_symbols ! 1 = 1" "length example_symbols = 69"
    by (simp_all add: example_symbols_def)
  moreover have "map (\<lambda>y. y = 1) (example_symbols[68 := 1])
      = [True, True] @ replicate 66 False @ [True]" by code_simp
  ultimately show ?thesis
    using transmission_received [of idle_receiver 10 600 700 1300 "replicate 137 1400" example_symbols]
    by auto
qed

text \<open>
  After a success the signal chain is gone: \<open>end_analysis\<close> has destroyed its objects, and a
  further block handed to \<open>analyze_input\<close> with a sample offset other than zero, once 42 samples have
  been seen, uses them again.
\<close>

theorem success_leaves_no_chain:
  assumes "liquid_done s" "41 \<le> total_samples_in s" "total_samples_in s + 1 \<noteq> 0" "sample_offset \<noteq> 0"
  shows "analyze_input C (xi # xq # rest) sample_offset s = Inl NullDeref"
proof -
  have "unat (total_samples_in s + 1) = Suc (unat (total_samples_in s))"
    using unatSuc [of "total_samples_in s"] assms(3) by (simp add: add.commute)
  moreover have "41 \<le> unat (total_samples_in s)"
    using assms(2) by (simp add: word_le_nat_alt)
  ultimately have "\<not> total_samples_in s + 1 < 42"
    by (simp add: word_less_nat_alt)
  moreover have "dsp s = None" using assms(1) by (simp add: liquid_done_def)
  ultimately show ?thesis
    using assms(4) by (simp add: analyze_input_def analyze_iq_pairs_def Let_def)
qed

theorem success_leaves_no_chain_witness:
  "analyze_input \<lparr>create = (), process = (\<lambda>d i q. ([], d))\<rparr> [1, 2] 4
     (idle_receiver\<lparr>dsp := None, valid_pkt := True, total_samples_in := 50,
        basebit_vals := bit_str (packet_bits example_symbols) @ [NUL, NUL],
        symbols := bit_str (symbols_of (packet_bits example_symbols))\<rparr>) = Inl NullDeref"
  (is "analyze_input _ _ _ ?s = _")
proof -
  have p: "example_symbols ! 0 = 1" "example_symbols ! 1 = 1" "length example_symbols = 69"
    by (simp_all add: example_symbols_def)
  then have "holds_bits (packet_bits example_symbols) ?s"
    by (auto simp: holds_bits_def)
  then have "liquid_done ?s"
    using packet_bits_ok [of example_symbols] p
    by (auto simp: liquid_done_def intro!: exI [of _ "packet_bits example_symbols"])
  then show ?thesis by (rule success_leaves_no_chain) simp_all
qed

subsection \<open>Files\<close>

lemma first_high_dsp [simp]: "dsp (first_high b n s) = dsp s"
  by (simp add: first_high_def Let_def reset_vars_def)

lemma first_low_dsp: "first_low b n s = (r, s') \<Longrightarrow> dsp s' = dsp s"
  by (auto simp: first_low_def Let_def reset_vars_def split: if_splits)

lemma second_high_dsp: "second_high b n k s = Inr (k', r, s') \<Longrightarrow> dsp s' = dsp s"
  by (auto simp: second_high_def reset_vars_def split: if_splits)

lemma save_bit_dsp: "save_bit b s = Inr s' \<Longrightarrow> dsp s' = dsp s"
  by (auto simp: save_bit_def)

lemma finish_packet_dsp: "finish_packet s = (r, s') \<Longrightarrow> r \<noteq> Some (Suc 0) \<Longrightarrow> dsp s' = dsp s"
  by (auto simp: finish_packet_def Let_def reset_vars_def split: if_splits)

lemma collect_bit_dsp: "collect_bit b n k s = Inr (r, s') \<Longrightarrow> r \<noteq> Some 1 \<Longrightarrow> dsp s' = dsp s"
  by (auto simp: collect_bit_def Let_def reset_vars_def split: if_splits
      dest!: save_bit_dsp dest: finish_packet_dsp)

lemma update_state_dsp: "update_state b n s = Inr (r, s') \<Longrightarrow> r \<noteq> 1 \<Longrightarrow> dsp s' = dsp s"
  by (auto simp: update_state_def Let_def split: option.splits prod.splits if_splits
      dest!: first_low_dsp second_high_dsp collect_bit_dsp)

text \<open>What the loops keep while no packet is complete.\<close>

definition running :: "'d liquid \<Rightarrow> bool" where
  "running s \<longleftrightarrow> liquid_inv s \<and> dsp s \<noteq> None"

definition loop_result :: "nat \<times> 'd liquid \<Rightarrow> bool" where
  "loop_result = (\<lambda>(r, s). r = 1 \<and> liquid_done s \<or> r = 0 \<and> running s)"

lemma running_counters [simp]:
  "running (s\<lparr>total_samples_out := x\<rparr>) = running s"
  "running (s\<lparr>total_samples_in := x\<rparr>) = running s"
  by (simp_all add: running_def liquid_inv_def holds_bits_def)

lemma running_dsp: "running s \<Longrightarrow> running (s\<lparr>dsp := Some d\<rparr>)"
  by (simp add: running_def liquid_inv_def holds_bits_def)

lemma update_state_running:
  "running s \<Longrightarrow> holds (update_state b n s) (\<lambda>_. False) loop_result"
  using update_state_step [of s b n] update_state_dsp [of b n s]
  by (cases "update_state b n s")
    (auto simp: running_def loop_result_def step_result_def le_Suc_eq split: if_splits)

lemma output_loop_running:
  "running s \<Longrightarrow> holds (output_loop b xs s) (\<lambda>_. False) loop_result"
proof (induction xs arbitrary: s)
  case (Cons x xs)
  have "holds (if unat (total_samples_out s) mod 40 = 0 then update_state x b s else Inr (0, s))
      (\<lambda>_. False) loop_result"
    using update_state_running [OF Cons.prems] Cons.prems by (simp add: loop_result_def)
  then show ?case
    unfolding output_loop.simps
    by (rule holds_bind2I) (use Cons.IH in \<open>auto simp: loop_result_def\<close>)
qed (simp add: loop_result_def)

lemma iq_loop_running:
  "running s \<Longrightarrow> holds (iq_loop C b buf s) (\<lambda>_. False) loop_result"
proof (induction buf arbitrary: b s rule: induct_list012)
  case (3 xi xq rest)
  let ?s = "s\<lparr>total_samples_in := total_samples_in s + 1\<rparr>"
  obtain d where d: "dsp s = Some d" using "3.prems" by (auto simp: running_def)
  obtain xs d' where x: "process C d xi xq = (xs, d')" by fastforce
  show ?case
  proof (cases "total_samples_in ?s < 42")
    case True
    with "3.IH"(1) [of ?s "b + 1"] "3.prems" show ?thesis by (simp add: Let_def)
  next
    case False
    have "running (?s\<lparr>dsp := Some d'\<rparr>)" using "3.prems" by (intro running_dsp) simp
    from output_loop_running [OF this, of b xs]
    have "holds (bind_res (output_loop b xs (?s\<lparr>dsp := Some d'\<rparr>)) (\<lambda>(ret_val, s).
        if ret_val = 1 then Inr (1, s) else iq_loop C (b + 1) rest s)) (\<lambda>_. False) loop_result"
      by (rule holds_bind2I) (use "3.IH"(1) in \<open>auto simp: loop_result_def\<close>)
    with False d x show ?thesis by (simp add: Let_def)
  qed
qed (simp_all add: loop_result_def)

lemma file_loop_running:
  "running s \<Longrightarrow> holds (file_loop C data s) (\<lambda>_. False) loop_result"
proof (induction "length data" arbitrary: data s rule: less_induct)
  case less
  have "holds (analyze_iq_pairs C (take 16384 data) s) (\<lambda>_. False) loop_result"
    unfolding analyze_iq_pairs_def by (rule iq_loop_running [OF less.prems])
  then have "holds (bind_res (analyze_iq_pairs C (take 16384 data) s) (\<lambda>(r, s).
      if r \<noteq> 0 \<or> length data < 16384 then Inr (r, s) else file_loop C (drop 16384 data) s))
      (\<lambda>_. False) loop_result"
  proof (rule holds_bind2I)
    fix r and s1 :: "'a liquid"
    assume r: "loop_result (r, s1)"
    show "holds (case (r, s1) of (r, s) \<Rightarrow> if r \<noteq> 0 \<or> length data < 16384 then Inr (r, s)
        else file_loop C (drop 16384 data) s) (\<lambda>_. False) loop_result"
    proof (cases "r \<noteq> 0 \<or> length data < 16384")
      case False
      with r have "running s1" by (simp add: loop_result_def)
      moreover have "length (drop 16384 data) < length data"
        using False unfolding length_drop by linarith
      ultimately have "holds (file_loop C (drop 16384 data) s1) (\<lambda>_. False) loop_result"
        by (intro less.hyps)
      with False show ?thesis by simp
    qed (use r in simp)
  qed
  then show ?case by (subst file_loop.simps)
qed



end
