(* ===== verification/State_Machine.thy ===== *)
theory State_Machine
  imports Complex_Main Machine
begin

text \<open>
  The peak-driven packet receiver of \<open>src/other/state_machine.c\<close> over a record of its static
  variables: the peak detector, one function per state of the packet machine, the loop over a
  buffer and the field accessors. Unsigned 32-bit values are words, so that positions wrap as they
  do in C; \<open>int\<close> and \<open>long\<close> values are integers (\<open>long\<close> has 64 bits), and the conversion of an
  unsigned value to \<open>int\<close> is the signed reading of the word. Array accesses are checked.

  The lemmas show that every access is inside its array and that the machine never leaves its first
  three bits: no call ever reports a packet. They also show that a capture may be handed over in
  buffers of any size, and what a peak is.
\<close>

subsection \<open>State\<close>

definition BITS_PER_MSG :: nat where
  "BITS_PER_MSG = 69"

definition NO_PKT :: int where "NO_PKT = -999"
definition HF_PRELUDE :: int where "HF_PRELUDE = -1"

definition UNK :: int where "UNK = 0"
definition PEAK :: int where "PEAK = 1"
definition NEG :: int where "NEG = -1"

definition PRELUDE_SIZE :: int where "PRELUDE_SIZE = 1000"
definition PEAK_VAL :: "8 word" where "PEAK_VAL = 0xFF"
definition MID_VAL :: "8 word" where "MID_VAL = 0x7F"

definition RTN_OK :: int where "RTN_OK = 0"
definition RTN_BUG :: int where "RTN_BUG = 999"

record sm =
  sample_rate :: "32 word"
  current_state :: int
  samples_in_state :: int
  samples_in_cycle :: int
  prev_event :: int
  prev_b :: "8 word"
  prev_i :: "8 word"
  prev_q :: "8 word"
  prev_peak :: "32 word"
  prelude_startpoint :: "32 word"
  bit_midpoints :: "32 word list"
  bit_startpoints :: "32 word list"
  midpoints_found :: int
  startpoints_found :: int
  first_half_vals :: "bool list"
  second_half_vals :: "bool list"
  first_half_vals_found :: int
  second_half_vals_found :: int
  bit_vals :: "bool list"
  valid_pkt :: bool

text \<open>The static variables when the program starts.\<close>

definition sm_start :: sm where
  "sm_start = \<lparr>sample_rate = 1, current_state = NO_PKT, samples_in_state = 0, samples_in_cycle = 0,
     prev_event = UNK, prev_b = 0, prev_i = 0, prev_q = 0, prev_peak = 0, prelude_startpoint = 0,
     bit_midpoints = replicate BITS_PER_MSG 0, bit_startpoints = replicate BITS_PER_MSG 0,
     midpoints_found = 0, startpoints_found = 0,
     first_half_vals = replicate BITS_PER_MSG False, second_half_vals = replicate BITS_PER_MSG False,
     first_half_vals_found = 0, second_half_vals_found = 0,
     bit_vals = replicate BITS_PER_MSG False, valid_pkt = False\<rparr>"

definition sm_get_success :: "sm \<Rightarrow> int" where
  "sm_get_success s = (if valid_pkt s then 1 else 0)"

definition save_sample_rate :: "32 word \<Rightarrow> sm \<Rightarrow> sm" where
  "save_sample_rate samp_rate s = s\<lparr>sample_rate := samp_rate\<rparr>"

text \<open>The loop writes every index of every array; \<open>UNK\<close> is 0.\<close>

definition sm_reset_vars :: "sm \<Rightarrow> sm" where
  "sm_reset_vars s = s\<lparr>
     bit_startpoints := replicate BITS_PER_MSG (of_int UNK),
     bit_midpoints := replicate BITS_PER_MSG (of_int UNK),
     first_half_vals := replicate BITS_PER_MSG False,
     second_half_vals := replicate BITS_PER_MSG False,
     bit_vals := replicate BITS_PER_MSG False,
     current_state := NO_PKT, samples_in_state := 0, samples_in_cycle := 0,
     first_half_vals_found := 0, second_half_vals_found := 0,
     startpoints_found := 0, midpoints_found := 0\<rparr>"

subsection \<open>Peaks\<close>

definition is_sample_peak :: "8 word \<Rightarrow> sm \<Rightarrow> bool \<times> sm" where
  "is_sample_peak b s =
     (if b = PEAK_VAL then (prev_event s = NEG, s\<lparr>prev_event := PEAK\<rparr>)
      else if b \<le> MID_VAL then (False, s\<lparr>prev_event := NEG\<rparr>)
      else (False, s))"

text \<open>
  The macro \<open>PRECEDING_HF_CYCLE\<close>. Its upper bound compares \<open>samples_in_cycle\<close> with its own
  argument, so it is always met where the macro is used.
\<close>

definition LO_HFCYCLE_SAMPLES :: int where
  "LO_HFCYCLE_SAMPLES = 85 * 27 div 100"

definition PRECEDING_HF_CYCLE :: "int \<Rightarrow> sm \<Rightarrow> bool" where
  "PRECEDING_HF_CYCLE z s = (LO_HFCYCLE_SAMPLES \<le> z \<and> samples_in_cycle s \<le> z)"

subsection \<open>The states\<close>

definition analyze_within_no_pkt_state :: "32 word \<Rightarrow> sm \<Rightarrow> sm" where
  "analyze_within_no_pkt_state cur s =
     (if PRECEDING_HF_CYCLE (samples_in_cycle s) s
      then s\<lparr>current_state := HF_PRELUDE,
             prelude_startpoint := cur - of_int (samples_in_cycle s),
             samples_in_state := samples_in_cycle s,
             samples_in_cycle := 1\<rparr>
      else s\<lparr>samples_in_cycle := 1\<rparr>)"

definition analyze_within_prelude_state :: "32 word \<Rightarrow> sm \<Rightarrow> sm res" where
  "analyze_within_prelude_state cur s =
     (if PRECEDING_HF_CYCLE (samples_in_cycle s) s then Inr (s\<lparr>samples_in_cycle := 1\<rparr>)
      else if samples_in_state s \<ge> PRELUDE_SIZE then
        bind_res (arr_write (first_half_vals s) 0 True) (\<lambda>fh.
        bind_res (arr_write (bit_midpoints s) 0 (prev_peak s)) (\<lambda>bm.
        bind_res (arr_read bm 0) (\<lambda>m0.
          Inr (s\<lparr>current_state := 0,
                 first_half_vals := fh, first_half_vals_found := first_half_vals_found s + 1,
                 bit_midpoints := bm, midpoints_found := midpoints_found s + 1,
                 samples_in_state := uint (cur - m0),
                 samples_in_cycle := sint (cur - m0)\<rparr>))))
      else Inr (sm_reset_vars s))"

text \<open>
  \<open>0.5 * (bit_midpoints[0] + bit_midpoints[1])\<close> halves the unsigned sum, and the conversion back
  truncates: a halved word.
\<close>

definition analyze_within_bit0_state :: "32 word \<Rightarrow> sm \<Rightarrow> sm res" where
  "analyze_within_bit0_state cur s =
     (if PRECEDING_HF_CYCLE (samples_in_cycle s) s then
        bind_res (arr_write (second_half_vals s) 0 False) (\<lambda>sh.
        bind_res (arr_write (first_half_vals s) 1 False) (\<lambda>fh.
        bind_res (arr_write (bit_midpoints s) 1 cur) (\<lambda>bm.
        bind_res (arr_read bm 0) (\<lambda>m0.
        bind_res (arr_read bm 1) (\<lambda>m1.
        bind_res (arr_write (bit_startpoints s) 1 ((m0 + m1) div 2)) (\<lambda>bs.
        bind_res (arr_read bs 1) (\<lambda>s1.
        bind_res (arr_write bs 0 (2 * m0 - s1)) (\<lambda>bs.
          Inr (s\<lparr>second_half_vals := sh, second_half_vals_found := second_half_vals_found s + 1,
                 current_state := 1, samples_in_state := 0,
                 first_half_vals := fh, first_half_vals_found := first_half_vals_found s + 1,
                 bit_midpoints := bm, midpoints_found := midpoints_found s + 1,
                 bit_startpoints := bs, startpoints_found := startpoints_found s + 2\<rparr>)))))))))
      else Inr (s\<lparr>samples_in_cycle := 1, samples_in_state := samples_in_state s + 1\<rparr>))"

text \<open>The midpoint of bit \<open>i\<close>, from its start and the midpoint of the bit before.\<close>

definition next_midpoint :: "nat \<Rightarrow> sm \<Rightarrow> 32 word list res" where
  "next_midpoint i s =
     bind_res (arr_read (bit_startpoints s) i) (\<lambda>st.
     bind_res (if i = 0 then Inl OutOfBounds else arr_read (bit_midpoints s) (i - 1)) (\<lambda>m.
       arr_write (bit_midpoints s) i (2 * st - m)))"

definition record_first_half :: "bool \<Rightarrow> nat \<Rightarrow> sm \<Rightarrow> sm res" where
  "record_first_half v i s =
     (if first_half_vals_found s < int i + 1 then
        bind_res (arr_write (first_half_vals s) i v) (\<lambda>fh.
        bind_res (next_midpoint i s) (\<lambda>bm.
          Inr (s\<lparr>first_half_vals := fh, first_half_vals_found := first_half_vals_found s + 1,
                 bit_midpoints := bm, midpoints_found := midpoints_found s + 1\<rparr>)))
      else Inr s)"

text \<open>Equal halves are no bit of the code: the machine starts over.\<close>

definition record_second_half :: "bool \<Rightarrow> nat \<Rightarrow> sm \<Rightarrow> sm res" where
  "record_second_half v i s =
     (if second_half_vals_found s < int i + 1 then
        bind_res (arr_read (first_half_vals s) i) (\<lambda>f.
        if f = v then Inr (sm_reset_vars s)
        else bind_res (arr_write (second_half_vals s) i v) (\<lambda>sh.
          Inr (s\<lparr>second_half_vals := sh, second_half_vals_found := second_half_vals_found s + 1\<rparr>)))
      else Inr s)"

definition analyze_within_bit_i_state :: "32 word \<Rightarrow> sm \<Rightarrow> sm res" where
  "analyze_within_bit_i_state cur s =
     (if current_state s < 0 then Inl OutOfBounds
      else let i = nat (current_state s); hf = PRECEDING_HF_CYCLE (samples_in_cycle s) s in
        bind_res (arr_read (bit_midpoints s) i) (\<lambda>m.
        if m = of_int UNK \<or> cur \<le> m then record_first_half hf i s
        else record_second_half hf i s))"

text \<open>
  \<open>CURR_SAMPLE > m + 1.2 * (m - s)\<close> in doubles: every value is below \<open>2 ^ 34\<close>, where the doubles
  decide the comparison exactly; multiplied by five it is a comparison of integers.
\<close>

definition overdue :: "32 word \<Rightarrow> 32 word \<Rightarrow> 32 word \<Rightarrow> bool" where
  "overdue cur m st = (5 * uint cur > 5 * uint m + 6 * uint (m - st))"

definition analyze_within_bit1_state :: "32 word \<Rightarrow> sm \<Rightarrow> sm res" where
  "analyze_within_bit1_state cur s =
     bind_res (arr_read (bit_midpoints s) 1) (\<lambda>m1.
     bind_res (arr_read (bit_startpoints s) 1) (\<lambda>s1.
     if PRECEDING_HF_CYCLE (samples_in_cycle s) s \<and> m1 \<noteq> of_int UNK \<and> s1 \<noteq> of_int UNK
        \<and> overdue cur m1 s1 then
       bind_res (arr_write (bit_startpoints s) 2 (2 * m1 - s1)) (\<lambda>bs.
       bind_res (arr_read bs 2) (\<lambda>s2.
         analyze_within_bit_i_state cur
           (s\<lparr>current_state := 2,
              bit_startpoints := bs, startpoints_found := startpoints_found s + 1,
              samples_in_state := uint (cur - s2), samples_in_cycle := 1\<rparr>)))
     else if PRECEDING_HF_CYCLE (samples_in_cycle s) s then
       bind_res (arr_write (second_half_vals s) 1 True) (\<lambda>sh.
         Inr (s\<lparr>second_half_vals := sh, second_half_vals_found := second_half_vals_found s + 1,
                samples_in_state := samples_in_state s + 1, samples_in_cycle := 1\<rparr>))
     else
       bind_res (arr_write (bit_startpoints s) 2 (cur - of_int (samples_in_cycle s))) (\<lambda>bs.
         analyze_within_bit_i_state cur
           (s\<lparr>current_state := 2, samples_in_state := samples_in_cycle s, samples_in_cycle := 1,
              bit_startpoints := bs, startpoints_found := startpoints_found s + 1\<rparr>))))"

subsection \<open>The loop over a buffer\<close>

definition handle_peak :: "32 word \<Rightarrow> sm \<Rightarrow> (int \<times> sm) res" where
  "handle_peak cur s =
     (let seen = (\<lambda>s. Inr (RTN_OK, s\<lparr>prev_peak := cur\<rparr>)) in
      if current_state s = NO_PKT then seen (analyze_within_no_pkt_state cur s)
      else if current_state s = HF_PRELUDE then bind_res (analyze_within_prelude_state cur s) seen
      else if current_state s = 0 then bind_res (analyze_within_bit0_state cur s) seen
      else if current_state s = 1 then bind_res (analyze_within_bit1_state cur s) seen
      else if 2 \<le> current_state s \<and> current_state s < int BITS_PER_MSG
        then bind_res (analyze_within_bit_i_state cur s) seen
      else Inr (RTN_BUG, s))"

text \<open>One round of the loop: the byte \<open>b\<close> at index \<open>i\<close> of the buffer.\<close>

definition analyze_byte :: "32 word \<Rightarrow> 32 word \<times> 8 word \<Rightarrow> sm \<Rightarrow> (int \<times> sm) res" where
  "analyze_byte sample_offset = (\<lambda>(i, b) s.
     if i mod 2 = sample_offset mod 2 then
       (let (peak, s) = is_sample_peak b s;
            s = (if samples_in_cycle s > 500 then sm_reset_vars s else s)
        in bind_res
             (if peak then handle_peak (sample_offset + i) s
              else Inr (RTN_OK, s\<lparr>samples_in_cycle := samples_in_cycle s + 1,
                                   samples_in_state := samples_in_state s + 1\<rparr>))
             (\<lambda>(r, s). Inr (r, if r = RTN_BUG then s else s\<lparr>prev_i := b, prev_b := b\<rparr>)))
     else Inr (RTN_OK, s\<lparr>prev_q := b, prev_b := b\<rparr>))"

definition indexed :: "32 word \<Rightarrow> 'a list \<Rightarrow> (32 word \<times> 'a) list" where
  "indexed i xs = zip (map (\<lambda>k. i + of_nat k) [0..<length xs]) xs"

abbreviation is_bug :: "int \<Rightarrow> bool" where
  "is_bug r \<equiv> r = RTN_BUG"

definition analyze_state_machine :: "8 word list \<Rightarrow> 32 word \<Rightarrow> sm \<Rightarrow> (int \<times> sm) res" where
  "analyze_state_machine buf sample_offset s =
     bind_res (run (analyze_byte sample_offset) is_bug (indexed 0 buf)
                 (if sample_offset = 0 then sm_reset_vars s else s))
       (\<lambda>(r, s). Inr (case r of None \<Rightarrow> RTN_OK | Some r \<Rightarrow> r, s))"

subsection \<open>The fields of a packet\<close>

definition sm_get_dec_address_val :: "sm \<Rightarrow> nat" where
  "sm_get_dec_address_val s =
     foldl (\<lambda>a j. a * 2 + (if bit_vals s ! j then 1 else 0)) 0 [2..<30]"

definition sm_get_temp_c :: "sm \<Rightarrow> int" where
  "sm_get_temp_c s = foldl (\<lambda>t j. t * 2 + (if bit_vals s ! j then 1 else 0)) 0 [52..<60] - 40"

definition sm_get_temp_f :: "sm \<Rightarrow> int" where
  "sm_get_temp_f s = tdiv (9 * sm_get_temp_c s + 160) 5"

definition sm_get_pressure_kpa :: "sm \<Rightarrow> rat" where
  "sm_get_pressure_kpa s =
     foldl (\<lambda>p j. p * 2 + (if bit_vals s ! j then 1 else 0)) 0 [36..<44] * 5 / 2 - 100"

subsection \<open>The machine never leaves its arrays, nor its third bit\<close>

definition sm_arrays :: "sm \<Rightarrow> bool" where
  "sm_arrays s \<longleftrightarrow>
     length (bit_midpoints s) = BITS_PER_MSG \<and> length (bit_startpoints s) = BITS_PER_MSG \<and>
     length (first_half_vals s) = BITS_PER_MSG \<and> length (second_half_vals s) = BITS_PER_MSG \<and>
     length (bit_vals s) = BITS_PER_MSG"

text \<open>
  What is known of the bits in each state. From state 1 on, bit 0 is a one followed by a zero half,
  the first half of bit 1 is zero, and bits 0 and 1 are laid out around the middle of the two
  midpoints.
\<close>

definition two_bits :: "sm \<Rightarrow> bool" where
  "two_bits s \<longleftrightarrow>
     first_half_vals s ! 0 \<and> \<not> second_half_vals s ! 0 \<and> \<not> first_half_vals s ! 1 \<and>
     bit_startpoints s ! 1 = (bit_midpoints s ! 0 + bit_midpoints s ! 1) div 2 \<and>
     bit_startpoints s ! 0 = 2 * bit_midpoints s ! 0 - bit_startpoints s ! 1"

definition sm_inv :: "sm \<Rightarrow> bool" where
  "sm_inv s \<longleftrightarrow> sm_arrays s \<and> \<not> valid_pkt s \<and>
     (current_state s \<in> {NO_PKT, HF_PRELUDE} \<or>
      current_state s = 0 \<and> first_half_vals s ! 0 \<or>
      current_state s \<in> {1, 2} \<and> two_bits s)"

lemmas sm_consts = NO_PKT_def HF_PRELUDE_def RTN_OK_def RTN_BUG_def BITS_PER_MSG_def UNK_def

lemma sm_inv_reset [simp]: "sm_arrays s \<Longrightarrow> \<not> valid_pkt s \<Longrightarrow> sm_inv (sm_reset_vars s)"
  by (simp add: sm_inv_def sm_arrays_def sm_reset_vars_def)

lemma sm_inv_start: "sm_inv sm_start"
  by (simp add: sm_inv_def sm_arrays_def sm_start_def)

lemma sm_inv_frame:
  "sm_inv s \<Longrightarrow> sm_inv (s\<lparr>prev_peak := p\<rparr>)"
  "sm_inv s \<Longrightarrow> sm_inv (s\<lparr>prev_event := e\<rparr>)"
  "sm_inv s \<Longrightarrow> sm_inv (s\<lparr>samples_in_cycle := c\<rparr>)"
  "sm_inv s \<Longrightarrow> sm_inv (s\<lparr>samples_in_state := d\<rparr>)"
  "sm_inv s \<Longrightarrow> sm_inv (s\<lparr>prev_i := b, prev_b := b\<rparr>)"
  "sm_inv s \<Longrightarrow> sm_inv (s\<lparr>prev_q := b, prev_b := b\<rparr>)"
  by (simp_all add: sm_inv_def sm_arrays_def two_bits_def)

lemma sm_invD: "sm_inv s \<Longrightarrow> sm_arrays s" "sm_inv s \<Longrightarrow> \<not> valid_pkt s"
  by (simp_all add: sm_inv_def)

lemma no_pkt_inv: "sm_inv s \<Longrightarrow> sm_inv (analyze_within_no_pkt_state cur s)"
  by (simp add: sm_inv_def sm_arrays_def two_bits_def analyze_within_no_pkt_state_def)

lemma prelude_inv:
  "sm_inv s \<Longrightarrow> current_state s = HF_PRELUDE \<Longrightarrow>
   holds (analyze_within_prelude_state cur s) no_fault sm_inv"
  by (auto simp: analyze_within_prelude_state_def holds_bind arr_write_def arr_read_def sm_inv_def
      sm_arrays_def sm_consts two_bits_def sm_reset_vars_def)

lemma bit0_inv:
  "sm_inv s \<Longrightarrow> current_state s = 0 \<Longrightarrow> holds (analyze_within_bit0_state cur s) no_fault sm_inv"
  by (auto simp: analyze_within_bit0_state_def holds_bind arr_write_def arr_read_def sm_inv_def
      sm_arrays_def sm_consts two_bits_def)

lemma record_first_half_inv:
  "sm_inv s \<Longrightarrow> current_state s = 2 \<Longrightarrow> holds (record_first_half v 2 s) no_fault sm_inv"
  by (simp add: record_first_half_def next_midpoint_def holds_bind arr_write_def arr_read_def
      sm_inv_def sm_arrays_def sm_consts two_bits_def)

lemma record_second_half_inv:
  "sm_inv s \<Longrightarrow> current_state s = 2 \<Longrightarrow> holds (record_second_half v 2 s) no_fault sm_inv"
  by (auto simp add: record_second_half_def holds_bind arr_write_def arr_read_def
      sm_inv_def sm_arrays_def sm_consts two_bits_def sm_reset_vars_def)

lemma bit_i_inv:
  assumes "sm_inv s" "current_state s = 2"
  shows "holds (analyze_within_bit_i_state cur s) no_fault sm_inv"
proof -
  from assms(1) have "2 < length (bit_midpoints s)"
    by (simp add: sm_inv_def sm_arrays_def BITS_PER_MSG_def)
  with record_first_half_inv [OF assms] record_second_half_inv [OF assms] assms(2) show ?thesis
    by (simp add: analyze_within_bit_i_state_def Let_def arr_read_def)
qed

lemma enter_bit2_inv:
  "sm_inv s \<Longrightarrow> current_state s = 1 \<Longrightarrow>
   sm_inv (s\<lparr>current_state := 2, bit_startpoints := (bit_startpoints s)[2 := p],
     startpoints_found := a, samples_in_state := b, samples_in_cycle := c\<rparr>)"
  "sm_inv s \<Longrightarrow> current_state s = 1 \<Longrightarrow>
   sm_inv (s\<lparr>current_state := 2, samples_in_state := b, samples_in_cycle := c,
     bit_startpoints := (bit_startpoints s)[2 := p], startpoints_found := a\<rparr>)"
  by (simp_all add: sm_inv_def sm_arrays_def sm_consts two_bits_def)

lemma bit1_inv:
  assumes "sm_inv s" "current_state s = 1"
  shows "holds (analyze_within_bit1_state cur s) no_fault sm_inv"
proof -
  from assms(1) have len: "length (bit_midpoints s) = 69" "length (bit_startpoints s) = 69"
    "length (second_half_vals s) = 69"
    by (simp_all add: sm_inv_def sm_arrays_def BITS_PER_MSG_def)
  have second: "sm_inv (s\<lparr>second_half_vals := (second_half_vals s)[1 := True],
      second_half_vals_found := k, samples_in_state := a, samples_in_cycle := c\<rparr>)" for k a c
    using assms by (simp add: sm_inv_def sm_arrays_def sm_consts two_bits_def)
  show ?thesis
    unfolding analyze_within_bit1_state_def
    by (simp add: holds_bind arr_read_def arr_write_def len second [simplified] bit_i_inv enter_bit2_inv assms)
qed

lemma handle_peak_inv:
  assumes "sm_inv s"
  shows "holds (handle_peak cur s) no_fault (\<lambda>(r, s'). r = RTN_OK \<and> sm_inv s')"
proof -
  have states: "current_state s \<in> {NO_PKT, HF_PRELUDE, 0, 1, 2}"
    using assms by (auto simp: sm_inv_def)
  have seen: "holds m no_fault sm_inv \<Longrightarrow>
    holds (bind_res m (\<lambda>s. Inr (RTN_OK, s\<lparr>prev_peak := cur\<rparr>))) no_fault
      (\<lambda>(r, s'). r = RTN_OK \<and> sm_inv s')" for m
    by (cases m) (auto intro: sm_inv_frame)
  from states show ?thesis
    by (elim insertE emptyE)
      (simp_all add: handle_peak_def sm_consts seen [unfolded RTN_OK_def] prelude_inv [unfolded sm_consts]
        bit0_inv bit1_inv bit_i_inv sm_inv_frame no_pkt_inv assms)
qed

lemma analyze_byte_inv:
  assumes "sm_inv s"
  shows "holds (analyze_byte off ib s) no_fault
    (\<lambda>(r, s'). if is_bug r then False else sm_inv s')"
proof -
  obtain i b where ib: "ib = (i, b)" by (cases ib)
  define t where "t = snd (is_sample_peak b s)"
  define u where "u = (if samples_in_cycle t > 500 then sm_reset_vars t else t)"
  have "sm_inv t"
    using assms by (simp add: t_def is_sample_peak_def sm_inv_frame)
  then have u: "sm_inv u"
    by (simp add: u_def sm_invD)
  have rest: "holds m no_fault (\<lambda>(r, s'). r = RTN_OK \<and> sm_inv s') \<Longrightarrow>
    holds (bind_res m (\<lambda>(r, s). Inr (r, if is_bug r then s else s\<lparr>prev_i := b, prev_b := b\<rparr>))) no_fault
      (\<lambda>(r, s'). if is_bug r then False else sm_inv s')" for m
    by (cases m) (auto simp: RTN_OK_def RTN_BUG_def intro: sm_inv_frame)
  have counted: "sm_inv (u\<lparr>samples_in_cycle := c, samples_in_state := d\<rparr>)" for c d
    using u by (intro sm_inv_frame)
  show ?thesis
  proof (cases "i mod 2 = off mod 2")
    case True
    have "analyze_byte off ib s = bind_res
        (if fst (is_sample_peak b s) then handle_peak (off + i) u
         else Inr (RTN_OK, u\<lparr>samples_in_cycle := samples_in_cycle u + 1,
                             samples_in_state := samples_in_state u + 1\<rparr>))
        (\<lambda>(r, s). Inr (r, if is_bug r then s else s\<lparr>prev_i := b, prev_b := b\<rparr>))"
      by (simp add: analyze_byte_def ib True Let_def split_beta t_def u_def)
    then show ?thesis
      by (simp only:) (rule rest, simp add: handle_peak_inv [OF u] counted)
  next
    case False
    with assms show ?thesis
      by (simp add: analyze_byte_def ib sm_inv_frame RTN_OK_def RTN_BUG_def)
  qed
qed

interpretation sm: machine "analyze_byte off" is_bug "\<lambda>_. True" sm_inv "\<lambda>_ _. False" no_fault for off
  by unfold_locales (rule analyze_byte_inv)

lemma analyze_state_machine_inv:
  assumes "sm_inv s"
  shows "holds (analyze_state_machine buf off s) no_fault (\<lambda>(r, s'). r = RTN_OK \<and> sm_inv s')"
proof -
  have "sm_inv (if off = 0 then sm_reset_vars s else s)"
    using assms by (simp add: sm_invD)
  then have "holds (run (analyze_byte off) is_bug (indexed 0 buf)
      (if off = 0 then sm_reset_vars s else s)) no_fault
      (\<lambda>(r, s'). case r of None \<Rightarrow> sm_inv s' | Some r \<Rightarrow> False)"
    by (rule sm.run_inv) (simp add: list_all_iff)
  then show ?thesis
    unfolding analyze_state_machine_def
    by (rule holds_bind2I) (auto split: option.splits)
qed

subsection \<open>A receiver that is called again and again\<close>

abbreviation sm_call :: "8 word list \<times> 32 word \<Rightarrow> sm \<Rightarrow> (int \<times> sm) res" where
  "sm_call \<equiv> (\<lambda>(buf, off). analyze_state_machine buf off)"

abbreviation not_ok :: "int \<Rightarrow> bool" where
  "not_ok r \<equiv> r \<noteq> RTN_OK"

lemma sm_call_inv:
  assumes "sm_inv s"
  shows "holds (sm_call call s) no_fault (\<lambda>(r, s'). if not_ok r then False else sm_inv s')"
proof -
  obtain buf off where "call = (buf, off)" by (cases call)
  then show ?thesis
    using holds_conseq [OF analyze_state_machine_inv [OF assms, of buf off]] by fastforce
qed

interpretation sm_calls: machine sm_call not_ok "\<lambda>_. True" sm_inv "\<lambda>_ _. False" no_fault
  by unfold_locales (rule sm_call_inv)

lemma sm_reachable:
  "holds (run sm_call not_ok calls sm_start) no_fault (\<lambda>(r, s). r = None \<and> sm_inv s)"
  by (rule holds_conseq [OF sm_calls.run_inv [OF sm_inv_start]])
    (auto simp: list_all_iff split: option.splits)

text \<open>
  C20. Whatever buffers and offsets the receiver is given, no call accesses an array out of bounds,
  every call returns \<open>RTN_OK\<close> (never \<open>RTN_BUG\<close>), the packet machine stays in its first five states
  (no packet, prelude, bits 0 to 2), and \<open>get_success\<close> keeps answering 0: nothing in the code
  advances past bit 2 or sets \<open>valid_pkt\<close>.
\<close>

theorem state_machine_never_finishes:
  "holds (run sm_call not_ok calls sm_start) no_fault
     (\<lambda>(r, s). r = None \<and> sm_get_success s = 0 \<and> current_state s \<in> {NO_PKT, HF_PRELUDE, 0, 1, 2})"
  by (rule holds_conseq [OF sm_reachable]) (auto simp: sm_inv_def sm_get_success_def)

text \<open>
  In every state reached beyond bit 0, bit 0 has been read as a one half and a zero half, the
  first half of bit 1 as zero, and the starting points of bits 0 and 1 are the ones the two
  midpoints determine.
\<close>

theorem state_machine_bit_clock:
  "holds (run sm_call not_ok calls sm_start) no_fault
     (\<lambda>(r, s). current_state s \<le> 0 \<or> two_bits s)"
  by (rule holds_conseq [OF sm_reachable]) (auto simp: sm_inv_def NO_PKT_def HF_PRELUDE_def)

subsection \<open>Buffers of any size\<close>

lemma indexed_append: "indexed i (xs @ ys) = indexed i xs @ indexed (i + of_nat (length xs)) ys"
proof -
  have "map (\<lambda>k. i + of_nat k) [0..<length (xs @ ys)] =
      map (\<lambda>k. i + of_nat k) [0..<length xs] @
      map (\<lambda>k. (i + of_nat (length xs)) + of_nat k) [0..<length ys]"
    by (rule nth_equalityI) (auto simp: nth_append)
  then show ?thesis
    by (simp only: indexed_def length_append) (simp add: zip_append1)
qed

lemma length_indexed [simp]: "length (indexed i xs) = length xs"
  by (simp add: indexed_def)

lemma indexed_nth: "k < length xs \<Longrightarrow> indexed i xs ! k = (i + of_nat k, xs ! k)"
  by (simp add: indexed_def)

lemma indexed_shift: "indexed (i + d) xs = map (\<lambda>(k, b). (k + d, b)) (indexed i xs)"
  by (rule nth_equalityI) (simp_all add: indexed_nth algebra_simps)

lemma analyze_byte_shift:
  "analyze_byte off (i + d, b) = analyze_byte (off + d) (i, b)"
proof -
  have "(i + d) mod 2 = off mod 2 \<longleftrightarrow> i mod 2 = (off + d) mod 2"
    by (auto simp: mod_2_eq_odd)
  moreover have "off + (i + d) = off + d + i"
    by (simp add: algebra_simps)
  ultimately show ?thesis
    by (simp only: analyze_byte_def prod.case)
qed

lemma run_map: "run step stop (map f is) s = run (\<lambda>i. step (f i)) stop is s"
  by (induction "is" arbitrary: s) (auto intro!: bind_res_cong)

lemma run_indexed_shift:
  "run (analyze_byte off) is_bug (indexed d xs) s = run (analyze_byte (off + d)) is_bug (indexed 0 xs) s"
proof -
  have "(\<lambda>i. analyze_byte off (case i of (k, b) \<Rightarrow> (k + d, b))) = analyze_byte (off + d)"
    by (simp add: fun_eq_iff analyze_byte_shift split: prod.splits)
  then show ?thesis
    using indexed_shift [of 0 d xs] by (simp only: run_map add_0)
qed

text \<open>
  C21. A capture may be handed over in pieces: analysing \<open>xs @ ys\<close> at an offset is analysing \<open>xs\<close> and
  then \<open>ys\<close> at the offset where it begins, unless that offset is 0 modulo \<open>2 ^ 32\<close>, at which the
  receiver resets itself. The parity test of the loop picks the same channel in both pieces.
\<close>

theorem state_machine_pieces:
  assumes "off + of_nat (length xs) \<noteq> 0"
  shows "analyze_state_machine (xs @ ys) off s =
    bind_res (analyze_state_machine xs off s) (\<lambda>(r, s').
      if is_bug r then Inr (r, s')
      else analyze_state_machine ys (off + of_nat (length xs)) s')"
proof -
  define s0 where "s0 = (if off = 0 then sm_reset_vars s else s)"
  have split: "run (analyze_byte off) is_bug (indexed 0 (xs @ ys)) s0 =
      bind_res (run (analyze_byte off) is_bug (indexed 0 xs) s0) (\<lambda>(r, s). case r of
        None \<Rightarrow> run (analyze_byte (off + of_nat (length xs))) is_bug (indexed 0 ys) s
      | Some r \<Rightarrow> Inr (Some r, s))"
    by (simp only: indexed_append run_append run_indexed_shift [of off "of_nat (length xs)"] add_0)
  have bug: "run (analyze_byte off) is_bug is u = Inr (Some r, v) \<Longrightarrow> is_bug r" for "is" u r v
    by (induction "is" arbitrary: u) (auto split: if_splits)
  consider e where "run (analyze_byte off) is_bug (indexed 0 xs) s0 = Inl e"
    | u where "run (analyze_byte off) is_bug (indexed 0 xs) s0 = Inr (None, u)"
    | u where "run (analyze_byte off) is_bug (indexed 0 xs) s0 = Inr (Some RTN_BUG, u)"
    using bug by (metis old.sum.exhaust option.exhaust surj_pair)
  then show ?thesis
    by cases (simp_all add: analyze_state_machine_def split flip: s0_def,
      simp_all add: assms RTN_OK_def RTN_BUG_def)
qed

text \<open>
  Two pieces of a capture at offset 4, the second from offset 7.
\<close>

theorem state_machine_pieces_witness:
  "analyze_state_machine ([0x10, 0, 0xFF] @ [0x20, 0xFF]) 4 sm_start =
    bind_res (analyze_state_machine [0x10, 0, 0xFF] 4 sm_start) (\<lambda>(r, s').
      if is_bug r then Inr (r, s')
      else analyze_state_machine [0x20, 0xFF] (4 + of_nat (length [0x10, 0, 0xFF :: 8 word])) s')"
  by (rule state_machine_pieces) simp

subsection \<open>What a peak is\<close>

fun peak_flags :: "8 word list \<Rightarrow> sm \<Rightarrow> bool list" where
  "peak_flags [] s = []"
| "peak_flags (b # bs) s = (let (peak, s') = is_sample_peak b s in peak # peak_flags bs s')"

text \<open>
  \<open>armed bs s n\<close>: before sample \<open>n\<close> there is a low sample with no full sample after it; what came
  before the first sample is in \<open>prev_event\<close>.
\<close>

definition armed :: "8 word list \<Rightarrow> sm \<Rightarrow> nat \<Rightarrow> bool" where
  "armed bs s n \<longleftrightarrow>
     (\<exists>k<n. bs ! k \<le> MID_VAL \<and> (\<forall>j. k < j \<and> j < n \<longrightarrow> bs ! j \<noteq> PEAK_VAL)) \<or>
     (prev_event s = NEG \<and> (\<forall>j<n. bs ! j \<noteq> PEAK_VAL))"

lemma armed_Cons:
  "armed (b # bs) s (Suc n) \<longleftrightarrow> armed bs (snd (is_sample_peak b s)) n"
proof -
  have low: "\<not> PEAK_VAL \<le> MID_VAL" "PEAK \<noteq> NEG"
    by (simp_all add: PEAK_VAL_def MID_VAL_def PEAK_def NEG_def)
  have suc: "(\<exists>k<Suc n. P k) \<longleftrightarrow> P 0 \<or> (\<exists>k<n. P (Suc k))"
    "(\<forall>k<Suc n. P k) \<longleftrightarrow> P 0 \<and> (\<forall>k<n. P (Suc k))" for P
    by (auto simp: less_Suc_eq_0_disj)
  have after: "(\<forall>j. Suc k < j \<and> j < Suc n \<longrightarrow> (b # bs) ! j \<noteq> PEAK_VAL) \<longleftrightarrow>
      (\<forall>j. k < j \<and> j < n \<longrightarrow> bs ! j \<noteq> PEAK_VAL)" for k
  proof
    assume *: "\<forall>j. Suc k < j \<and> j < Suc n \<longrightarrow> (b # bs) ! j \<noteq> PEAK_VAL"
    show "\<forall>j. k < j \<and> j < n \<longrightarrow> bs ! j \<noteq> PEAK_VAL"
      using * [rule_format, of "Suc j" for j] by auto
  qed (auto simp: less_Suc_eq_0_disj)
  have after0: "(\<forall>j. 0 < j \<and> j < Suc n \<longrightarrow> (b # bs) ! j \<noteq> PEAK_VAL) \<longleftrightarrow>
      (\<forall>j<n. bs ! j \<noteq> PEAK_VAL)"
    by (auto simp: less_Suc_eq_0_disj)
  show ?thesis
    unfolding armed_def suc after after0
    using low by (auto simp: is_sample_peak_def)
qed

lemma peak_flags_nth:
  "n < length bs \<Longrightarrow> peak_flags bs s ! n \<longleftrightarrow> bs ! n = PEAK_VAL \<and> armed bs s n"
proof (induction bs arbitrary: s n)
  case (Cons b bs)
  show ?case
  proof (cases n)
    case 0
    then show ?thesis
      by (simp add: split_beta is_sample_peak_def armed_def)
  next
    case (Suc m)
    with Cons show ?thesis
      by (simp add: split_beta armed_Cons)
  qed
qed simp

text \<open>
  The peak detector, run over any samples, reports exactly the full samples (\<open>0xFF\<close>) that follow a
  sample at or below the middle value with no other full sample between them.
\<close>

theorem sample_peaks:
  "peak_flags bs s = map (\<lambda>n. bs ! n = PEAK_VAL \<and> armed bs s n) [0..<length bs]"
proof (rule nth_equalityI)
  show "length (peak_flags bs s) = length (map (\<lambda>n. bs ! n = PEAK_VAL \<and> armed bs s n) [0..<length bs])"
    by (induction bs arbitrary: s) (simp_all add: split_beta)
  then show "peak_flags bs s ! n = map (\<lambda>n. bs ! n = PEAK_VAL \<and> armed bs s n) [0..<length bs] ! n"
    if "n < length (peak_flags bs s)" for n
    using that by (simp add: peak_flags_nth)
qed

end
