(* ===== verification/Sockaddr.thy ===== *)
theory Sockaddr
  imports Sysutil
begin

text \<open>
  Socket addresses, \<open>struct vsf_sysutil_sockaddr\<close> of \<open>src/server/vsftpd-3.0.3/sysutil.c\<close>: an IPv4
  address with a port, an IPv6 address with a port and a scope, or another family. Addresses are
  strings of bytes, ports are numbers in host order. Copies out of a buffer are checked against its
  length. The lemmas relate the comparison of addresses to the IPv4 mapped form.
\<close>

datatype sockaddr = Sa_In (sa_addr: string) (sa_port: nat)
  | Sa_In6 (sa_addr: string) (sa_port: nat) (sa_scope: nat)
  | Sa_Other

definition sa_copy :: "nat \<Rightarrow> string \<Rightarrow> string res" where
  "sa_copy n p_raw = (if length p_raw < n then Inl OutOfBounds else Inr (take n p_raw))"

definition vsf_sysutil_sockaddr_alloc_ipv4 :: sockaddr where
  "vsf_sysutil_sockaddr_alloc_ipv4 = Sa_In (replicate 4 NUL) 0"

definition vsf_sysutil_sockaddr_clone :: "sockaddr \<Rightarrow> sockaddr res" where
  "vsf_sysutil_sockaddr_clone p_src =
     (case p_src of
        Sa_In a p \<Rightarrow> Inr (Sa_In a 0)
      | Sa_In6 a p sc \<Rightarrow> Inr (Sa_In6 a 0 sc)
      | Sa_Other \<Rightarrow> Inl (Die ''can only support ipv4 and ipv6 currently''))"

definition v4_pattern :: string where
  "v4_pattern = replicate 10 NUL @ [CHR 0xFF, CHR 0xFF]"

definition vsf_sysutil_sockaddr_ipv6_v4 :: "sockaddr \<Rightarrow> string option" where
  "vsf_sysutil_sockaddr_ipv6_v4 p_addr =
     (case p_addr of
        Sa_In6 a p sc \<Rightarrow> if take 12 a \<noteq> v4_pattern then None else Some (drop 12 a)
      | _ \<Rightarrow> None)"

definition vsf_sysutil_sockaddr_ipv4_v6 :: "sockaddr \<Rightarrow> string option" where
  "vsf_sysutil_sockaddr_ipv4_v6 p_addr =
     (case p_addr of Sa_In a p \<Rightarrow> Some (v4_pattern @ a) | _ \<Rightarrow> None)"

definition vsf_sysutil_sockaddr_addr_equal :: "sockaddr \<Rightarrow> sockaddr \<Rightarrow> bool" where
  "vsf_sysutil_sockaddr_addr_equal p1 p2 =
     (case (p1, p2) of
        (Sa_In a1 _, Sa_In6 _ _ _) \<Rightarrow> vsf_sysutil_sockaddr_ipv6_v4 p2 = Some a1
      | (Sa_In6 _ _ _, Sa_In a2 _) \<Rightarrow> vsf_sysutil_sockaddr_ipv6_v4 p1 = Some a2
      | (Sa_In a1 _, Sa_In a2 _) \<Rightarrow> a1 = a2
      | (Sa_In6 a1 _ _, Sa_In6 a2 _ _) \<Rightarrow> a1 = a2
      | _ \<Rightarrow> False)"

definition vsf_sysutil_sockaddr_is_ipv6 :: "sockaddr \<Rightarrow> bool" where
  "vsf_sysutil_sockaddr_is_ipv6 p_sockaddr = (case p_sockaddr of Sa_In6 _ _ _ \<Rightarrow> True | _ \<Rightarrow> False)"

definition vsf_sysutil_sockaddr_set_ipv4addr :: "sockaddr \<Rightarrow> string \<Rightarrow> sockaddr res" where
  "vsf_sysutil_sockaddr_set_ipv4addr p_sockptr p_raw =
     (case p_sockptr of
        Sa_In a p \<Rightarrow> bind_res (sa_copy 4 p_raw) (\<lambda>a. Inr (Sa_In a p))
      | Sa_In6 a p sc \<Rightarrow>
          bind_res (sa_copy 4 p_raw) (\<lambda>v4.
            case vsf_sysutil_sockaddr_ipv4_v6 (Sa_In v4 0) of
              None \<Rightarrow> Inl NullDeref
            | Some a \<Rightarrow> Inr (Sa_In6 a p sc))
      | Sa_Other \<Rightarrow> Inl (Bug ''bad family''))"

definition vsf_sysutil_sockaddr_set_ipv6addr :: "sockaddr \<Rightarrow> string \<Rightarrow> sockaddr res" where
  "vsf_sysutil_sockaddr_set_ipv6addr p_sockptr p_raw =
     (case p_sockptr of
        Sa_In6 a p sc \<Rightarrow> bind_res (sa_copy 16 p_raw) (\<lambda>a. Inr (Sa_In6 a p sc))
      | _ \<Rightarrow> Inl (Bug ''bad family''))"

definition vsf_sysutil_sockaddr_get_port :: "sockaddr \<Rightarrow> nat res" where
  "vsf_sysutil_sockaddr_get_port p_sockptr =
     (case p_sockptr of Sa_In a p \<Rightarrow> Inr p | Sa_In6 a p sc \<Rightarrow> Inr p | Sa_Other \<Rightarrow> Inl (Bug ''bad family''))"

definition vsf_sysutil_sockaddr_set_port :: "sockaddr \<Rightarrow> nat \<Rightarrow> sockaddr res" where
  "vsf_sysutil_sockaddr_set_port p_sockptr the_port =
     (case p_sockptr of
        Sa_In a p \<Rightarrow> Inr (Sa_In a the_port)
      | Sa_In6 a p sc \<Rightarrow> Inr (Sa_In6 a the_port sc)
      | Sa_Other \<Rightarrow> Inl (Bug ''bad family''))"

definition vsf_sysutil_is_port_reserved :: "nat \<Rightarrow> bool" where
  "vsf_sysutil_is_port_reserved the_port \<longleftrightarrow> the_port < 1024"

lemma addr_equal_set_port:
  "vsf_sysutil_sockaddr_set_port a p = Inr b \<Longrightarrow>
    vsf_sysutil_sockaddr_addr_equal r b = vsf_sysutil_sockaddr_addr_equal r a"
  by (cases a; cases r)
    (auto simp: vsf_sysutil_sockaddr_set_port_def vsf_sysutil_sockaddr_addr_equal_def
      vsf_sysutil_sockaddr_ipv6_v4_def)

lemma addr_equal_refl: "a \<noteq> Sa_Other \<Longrightarrow> vsf_sysutil_sockaddr_addr_equal a a"
  by (cases a) (auto simp: vsf_sysutil_sockaddr_addr_equal_def)

lemma addr_equal_sym: "vsf_sysutil_sockaddr_addr_equal a b = vsf_sysutil_sockaddr_addr_equal b a"
  by (cases a; cases b) (auto simp: vsf_sysutil_sockaddr_addr_equal_def)

text \<open>An IPv4 address set on an IPv6 socket address reads back, and is the same address.\<close>

lemma set_ipv4addr_reads_back:
  assumes "vsf_sysutil_sockaddr_set_ipv4addr (Sa_In6 a p sc) raw = Inr b"
  shows "vsf_sysutil_sockaddr_ipv6_v4 b = Some (take 4 raw) \<and>
    vsf_sysutil_sockaddr_addr_equal b (Sa_In (take 4 raw) q)"
  using assms
  by (auto simp: vsf_sysutil_sockaddr_set_ipv4addr_def vsf_sysutil_sockaddr_ipv4_v6_def sa_copy_def
      vsf_sysutil_sockaddr_ipv6_v4_def vsf_sysutil_sockaddr_addr_equal_def v4_pattern_def
      split: if_splits)

end
