(* ===== verification/Str_Spec.thy ===== *)
theory Str_Spec
  imports Sysutil
begin

text \<open>
  What the string operations of \<open>str.c\<close> compute, on plain character lists. The theory \<open>Str_Refine\<close>
  shows that the buffers of \<open>Str\<close> implement these functions; the components of the FTP server that
  work with strings are modelled over them. The lemmas characterise searching and splitting: the first
  occurrence, the two sides of it, and the split at a character as a prefix and the rest.
\<close>

definition occurs_at :: "string \<Rightarrow> string \<Rightarrow> nat \<Rightarrow> bool" where
  "occurs_at t s i \<longleftrightarrow> take (length t) (drop i s) = t"

text \<open>The offsets at which a text of the length of \<open>t\<close> fits; none for the empty text.\<close>

definition offsets :: "string \<Rightarrow> string \<Rightarrow> nat list" where
  "offsets t s = (if t = [] \<or> length t > length s then [] else [0..<length s - length t + 1])"

definition s_locate_text :: "string \<Rightarrow> string \<Rightarrow> nat option" where
  "s_locate_text t s = find (occurs_at (c_str t) s) (offsets (c_str t) s)"

definition s_locate_text_reverse :: "string \<Rightarrow> string \<Rightarrow> nat option" where
  "s_locate_text_reverse t s = find (occurs_at (c_str t) s) (rev (offsets (c_str t) s))"

definition s_locate_chars :: "string \<Rightarrow> string \<Rightarrow> nat option" where
  "s_locate_chars cs s = find (\<lambda>i. s ! i \<in> set (c_str cs)) [0..<length s]"

definition split_at :: "string \<Rightarrow> string \<Rightarrow> nat option \<Rightarrow> string \<times> string" where
  "split_at t s r = (case r of None \<Rightarrow> (s, [])
                     | Some i \<Rightarrow> (take i s, drop (i + length (c_str t)) s))"

definition s_split_text :: "string \<Rightarrow> string \<Rightarrow> string \<times> string" where
  "s_split_text t s = split_at t s (s_locate_text t s)"

definition s_split_text_reverse :: "string \<Rightarrow> string \<Rightarrow> string \<times> string" where
  "s_split_text_reverse t s = split_at t s (s_locate_text_reverse t s)"

definition s_split_char :: "char \<Rightarrow> string \<Rightarrow> string \<times> string" where
  "s_split_char c s = s_split_text [c] s"

definition s_upper :: "string \<Rightarrow> string" where
  "s_upper = map vsf_sysutil_toupper"

definition s_getline :: "string \<Rightarrow> nat \<Rightarrow> (string \<times> nat) option" where
  "s_getline s pos =
     (if length s \<le> pos then None
      else let l = takeWhile (\<lambda>c. c \<noteq> CHR 0x0A) (drop pos s)
           in Some (l, min (length s) (pos + length l + 1)))"

lemma find_upt_Some:
  "find P [i..<j] = Some k \<longleftrightarrow> i \<le> k \<and> k < j \<and> P k \<and> (\<forall>m. i \<le> m \<and> m < k \<longrightarrow> \<not> P m)"
  (is "_ \<longleftrightarrow> ?R")
proof
  assume "find P [i..<j] = Some k"
  then obtain m where "m < j - i" "P (i + m)" "k = i + m" "\<forall>n<m. \<not> P (i + n)"
    by (auto simp: find_Some_iff)
  then show ?R by (auto simp: less_diff_conv) (metis add_diff_inverse_nat less_diff_conv2 linorder_not_le nat_add_left_cancel_less)
next
  assume r: ?R
  then have "k - i < j - i" "P (i + (k - i))" "\<forall>n<k - i. \<not> P (i + n)"
    by auto
  with r show "find P [i..<j] = Some k"
    by (auto simp: find_Some_iff intro!: exI [of _ "k - i"])
qed

lemma occurs_at_split: "occurs_at t s i \<Longrightarrow> s = take i s @ t @ drop (i + length t) s"
  by (metis occurs_at_def append_take_drop_id drop_drop add.commute)

lemma s_locate_text_Some:
  "s_locate_text t s = Some i \<longleftrightarrow>
     c_str t \<noteq> [] \<and> i + length (c_str t) \<le> length s \<and> occurs_at (c_str t) s i \<and>
     (\<forall>j<i. \<not> occurs_at (c_str t) s j)"
  by (auto simp: s_locate_text_def offsets_def find_upt_Some simp del: upt_Suc)

lemma s_locate_text_None:
  assumes "c_str t \<noteq> []"
  shows "s_locate_text t s = None \<longleftrightarrow> (\<forall>i. i + length (c_str t) \<le> length s \<longrightarrow> \<not> occurs_at (c_str t) s i)"
  using assms by (auto simp: s_locate_text_def offsets_def find_None_iff less_Suc_eq_le simp del: upt_Suc)

lemma s_split_text_hit:
  "s_locate_text t s = Some i \<Longrightarrow> s_split_text t s = (take i s, drop (i + length (c_str t)) s)"
  by (simp add: s_split_text_def split_at_def)

lemma s_split_text_miss: "s_locate_text t s = None \<Longrightarrow> s_split_text t s = (s, [])"
  by (simp add: s_split_text_def split_at_def)

lemma c_str_char: "c \<noteq> NUL \<Longrightarrow> c_str [c] = [c]"
  by (simp add: c_str_def)

lemma occurs_at_char: "occurs_at [c] s i \<longleftrightarrow> i < length s \<and> s ! i = c"
  by (cases "i < length s") (auto simp: occurs_at_def take_Suc_conv_app_nth hd_drop_conv_nth
      simp flip: Cons_nth_drop_Suc)

lemma s_split_char_eq:
  assumes "c \<noteq> NUL"
  shows "s_split_char c s = (takeWhile (\<lambda>x. x \<noteq> c) s, tl (dropWhile (\<lambda>x. x \<noteq> c) s))"
proof (cases "s_locate_text [c] s")
  case None
  then have "c \<notin> set s"
    using assms by (auto simp: s_locate_text_None c_str_char occurs_at_char in_set_conv_nth)
  then have "takeWhile (\<lambda>x. x \<noteq> c) s = s" "dropWhile (\<lambda>x. x \<noteq> c) s = []"
    by (auto simp: takeWhile_eq_all_conv dropWhile_eq_Nil_conv)
  with s_split_text_miss [OF None] show ?thesis
    by (simp only: s_split_char_def list.sel(2))
next
  case (Some i)
  then have i: "i < length s" "s ! i = c" "\<forall>j<i. s ! j \<noteq> c"
    using assms by (auto simp: s_locate_text_Some c_str_char occurs_at_char)
  have "takeWhile (\<lambda>x. x \<noteq> c) s = take i s"
    using i by (intro takeWhile_eq_take_P_nth) auto
  moreover from this have "dropWhile (\<lambda>x. x \<noteq> c) s = drop i s"
    by (metis append_take_drop_id same_append_eq takeWhile_dropWhile_id)
  ultimately show ?thesis
    using Some assms by (simp add: s_split_char_def s_split_text_hit c_str_char tl_drop drop_Suc)
qed

lemma s_split_char_length:
  "length (fst (s_split_char c s)) + length (snd (s_split_char c s)) \<le> length s"
  by (auto simp: s_split_char_def s_split_text_def split_at_def split: option.split)

lemma s_split_char_shorter: "s \<noteq> [] \<Longrightarrow> length (snd (s_split_char c s)) < length s"
  by (cases "s_locate_text [c] s")
    (auto simp: s_split_char_def s_split_text_miss s_split_text_hit s_locate_text_Some)

text \<open>Every occurrence replaced, from the left; the search goes on after the replaced text.\<close>

function s_replace_text :: "string \<Rightarrow> string \<Rightarrow> string \<Rightarrow> string" where
  "s_replace_text p_from p_to s =
     (case s_locate_text p_from s of
        None \<Rightarrow> s
      | Some i \<Rightarrow> take i s @ c_str p_to
                   @ s_replace_text p_from p_to (drop (i + length (c_str p_from)) s))"
  by pat_completeness auto
termination
  by (relation "measure (\<lambda>(p_from, p_to, s). length s)") (auto simp: s_locate_text_Some neq_Nil_conv)

declare s_replace_text.simps [simp del]

end
