(* ===== verification/Ascii.thy ===== *)
theory Ascii
  imports Prelude
begin

text \<open>
  The ASCII-mode conversions of \<open>src/server/vsftpd-3.0.3/ascii.c\<close>. \<open>vsf_ascii_ascii_to_bin\<close> works in
  place: the input starts one byte into the buffer, so that a carriage return kept from the block
  before has room; reads and writes are checked against the buffer. The lemmas relate the block-wise
  conversions, with their carried flag, to conversions of the whole stream.
\<close>

abbreviation CR :: char where "CR \<equiv> CHR 0x0D"
abbreviation LF :: char where "LF \<equiv> CHR 0x0A"

subsection \<open>From the network\<close>

record ascii_to_bin_ret =
  a2b_p_buf :: nat
  a2b_stored :: nat
  a2b_last_was_cr :: bool

text \<open>
  The loop: the buffer, the read index, the write position, the number of bytes written and the flag.
  \<open>k\<close> input bytes are left.
\<close>

fun ascii_to_bin_loop ::
    "nat \<Rightarrow> nat \<Rightarrow> char list \<Rightarrow> nat \<Rightarrow> nat \<Rightarrow> nat \<Rightarrow> bool \<Rightarrow> (char list \<times> nat \<times> bool) res" where
  "ascii_to_bin_loop in_len 0 buf i out written was_cr = Inr (buf, written, was_cr)"
| "ascii_to_bin_loop in_len (Suc k) buf i out written was_cr =
     bind_res (arr_read buf (i + 1)) (\<lambda>the_char.
     if the_char \<noteq> CR then
       bind_res (arr_write buf out the_char) (\<lambda>buf.
         ascii_to_bin_loop in_len k buf (i + 1) (out + 1) (written + 1) was_cr)
     else if i = in_len - 1 then ascii_to_bin_loop in_len k buf (i + 1) out written True
     else bind_res (arr_read buf (i + 2)) (\<lambda>next_char.
       if next_char \<noteq> LF then
         bind_res (arr_write buf out the_char) (\<lambda>buf.
           ascii_to_bin_loop in_len k buf (i + 1) (out + 1) (written + 1) was_cr)
       else ascii_to_bin_loop in_len k buf (i + 1) out written was_cr))"

definition vsf_ascii_ascii_to_bin ::
    "char list \<Rightarrow> nat \<Rightarrow> bool \<Rightarrow> (char list \<times> ascii_to_bin_ret) res" where
  "vsf_ascii_ascii_to_bin p_buf in_len prev_cr =
     bind_res
       (if prev_cr then
          if in_len = 0 then Inr True
          else bind_res (arr_read p_buf 1) (\<lambda>c. Inr (c \<noteq> LF))
        else Inr False) (\<lambda>keep_cr.
     bind_res (if keep_cr then arr_write p_buf 0 CR else Inr p_buf) (\<lambda>buf.
     bind_res (ascii_to_bin_loop in_len in_len buf 0 1 (if keep_cr then 1 else 0) False)
       (\<lambda>(buf, written, was_cr).
         Inr (buf, \<lparr>a2b_p_buf = (if keep_cr then 0 else 1), a2b_stored = written,
                    a2b_last_was_cr = was_cr\<rparr>))))"

subsection \<open>To the network\<close>

record bin_to_ascii_ret =
  b2a_stored :: nat
  b2a_last_was_cr :: bool

text \<open>What the loop stores to \<open>p_out\<close>, and the flag; the was_cr character is only compared with CR.\<close>

fun bin_to_ascii_loop :: "char list \<Rightarrow> char \<Rightarrow> bool \<Rightarrow> char list \<times> bool" where
  "bin_to_ascii_loop [] last_char flag = ([], flag)"
| "bin_to_ascii_loop (the_char # p_in) last_char flag =
     (let (out, f) = bin_to_ascii_loop p_in the_char (the_char = CR)
      in ((if the_char = LF \<and> last_char \<noteq> CR then [CR, the_char] else [the_char]) @ out, f))"

definition vsf_ascii_bin_to_ascii :: "char list \<Rightarrow> bool \<Rightarrow> char list \<times> bin_to_ascii_ret" where
  "vsf_ascii_bin_to_ascii p_in prev_cr =
     (let (out, flag) = bin_to_ascii_loop p_in (if prev_cr then CR else NUL) prev_cr
      in (out, \<lparr>b2a_stored = length out, b2a_last_was_cr = flag\<rparr>))"

subsection \<open>Conversions of a whole stream\<close>

fun to_bin :: "string \<Rightarrow> string" where
  "to_bin [] = []"
| "to_bin [c] = [c]"
| "to_bin (c # d # s) = (if c = CR \<and> d = LF then to_bin (d # s) else c # to_bin (d # s))"

fun to_ascii :: "char \<Rightarrow> string \<Rightarrow> string" where
  "to_ascii prev [] = []"
| "to_ascii prev (c # s) = (if c = LF \<and> prev \<noteq> CR then [CR, c] else [c]) @ to_ascii c s"

text \<open>A carriage return at the end is held back: it may be half of a line break.\<close>

fun to_bin_held :: "string \<Rightarrow> string" where
  "to_bin_held [] = []"
| "to_bin_held [c] = (if c = CR then [] else [c])"
| "to_bin_held (c # d # s) =
     (if c = CR \<and> d = LF then to_bin_held (d # s) else c # to_bin_held (d # s))"

definition ends_cr :: "string \<Rightarrow> bool" where
  "ends_cr s \<longleftrightarrow> s \<noteq> [] \<and> last s = CR"

lemma to_bin_held_cr: "to_bin s = to_bin_held s @ (if ends_cr s then [CR] else [])"
  by (induction s rule: to_bin.induct) (auto simp: ends_cr_def)

lemma to_bin_held_append:
  "to_bin_held (s @ t) = to_bin_held s @ to_bin_held ((if ends_cr s then [CR] else []) @ t)"
proof (induction s rule: to_bin.induct)
  case (2 c)
  then show ?case by (cases t) (auto simp: ends_cr_def)
qed (auto simp: ends_cr_def)


text \<open>
  The loop, from index \<open>i\<close> with \<open>k\<close> bytes left: what it writes is the conversion of the rest, and it
  never writes past the byte it reads.
\<close>

lemma ascii_to_bin_loop_held:
  assumes "out \<le> i + 1" "i + k < length buf" "n = i + k"
  shows "\<exists>buf'. ascii_to_bin_loop n k buf i out w l =
      Inr (buf', w + length (to_bin_held (take k (drop (i + 1) buf))),
           l \<or> ends_cr (take k (drop (i + 1) buf))) \<and>
    length buf' = length buf \<and>
    take (out + length (to_bin_held (take k (drop (i + 1) buf)))) buf' =
      take out buf @ to_bin_held (take k (drop (i + 1) buf))"
  using assms
proof (induction k arbitrary: i out buf w l)
  case 0
  then show ?case by (simp add: ends_cr_def)
next
  case (Suc k)
  define c where "c = buf ! (i + 1)"
  define rest where "rest = take k (drop (i + 2) buf)"
  have i: "i + 1 < length buf" "out < length buf" using Suc.prems by auto
  have block: "take (Suc k) (drop (i + 1) buf) = c # rest"
    using i by (simp add: c_def rest_def Cons_nth_drop_Suc [symmetric] del: drop_Suc)
  have stores: "\<exists>buf'. bind_res (arr_write buf out c) (\<lambda>buf.
        ascii_to_bin_loop n k buf (i + 1) (out + 1) (w + 1) l) =
      Inr (buf', w + length (c # to_bin_held rest), l \<or> ends_cr rest) \<and>
    length buf' = length buf \<and>
    take (out + length (c # to_bin_held rest)) buf' = take out buf @ c # to_bin_held rest"
  proof -
    have "take k (drop (i + 1 + 1) (buf[out := c])) = rest"
      using Suc.prems(1) by (simp add: rest_def)
    moreover have "take (out + 1) (buf[out := c]) = take out buf @ [c]"
      using i(2) by (simp add: take_Suc_conv_app_nth)
    ultimately show ?thesis
      using Suc.IH [of "out + 1" "i + 1" "buf[out := c]" "w + 1" l] Suc.prems i(2)
      by (simp add: arr_write_def)
  qed
  have skip: "\<exists>buf'. ascii_to_bin_loop n k buf (i + 1) out w l' =
      Inr (buf', w + length (to_bin_held rest), l' \<or> ends_cr rest) \<and>
    length buf' = length buf \<and> take (out + length (to_bin_held rest)) buf' = take out buf @ to_bin_held rest"
    for l'
    using Suc.IH [of out "i + 1" buf w l'] Suc.prems by (simp add: rest_def)
  have step: "ascii_to_bin_loop n (Suc k) buf i out w l =
    (if c \<noteq> CR then bind_res (arr_write buf out c) (\<lambda>buf.
        ascii_to_bin_loop n k buf (i + 1) (out + 1) (w + 1) l)
     else if k = 0 then ascii_to_bin_loop n k buf (i + 1) out w True
     else if hd rest \<noteq> LF then bind_res (arr_write buf out c) (\<lambda>buf.
        ascii_to_bin_loop n k buf (i + 1) (out + 1) (w + 1) l)
     else ascii_to_bin_loop n k buf (i + 1) out w l)"
    using i Suc.prems by (auto simp: c_def rest_def arr_read_def hd_drop_conv_nth)
  show ?case
  proof (cases rest)
    case Nil
    with Suc.prems have "k = 0" by (auto simp: rest_def)
    with Nil stores skip [of True] show ?thesis
      unfolding block step by (auto simp: ends_cr_def)
  next
    case (Cons d rest')
    then have "k \<noteq> 0" by (cases k) (auto simp: rest_def)
    with Cons stores skip [of l] show ?thesis
      unfolding block step by (auto simp: ends_cr_def)
  qed
qed

definition converted :: "char list \<times> ascii_to_bin_ret \<Rightarrow> string" where
  "converted = (\<lambda>(buf, r). take (a2b_stored r) (drop (a2b_p_buf r) buf))"

text \<open>A block \<open>d\<close>, behind the spare byte of the buffer and with anything after it.\<close>

lemma ascii_to_bin_block:
  "\<exists>r. vsf_ascii_ascii_to_bin (x # d @ rest) (length d) prev_cr = Inr r \<and>
     converted r = (if d = [] then (if prev_cr then [CR] else [])
                    else to_bin_held ((if prev_cr then [CR] else []) @ d)) \<and>
     a2b_last_was_cr (snd r) = ends_cr d \<and> length (fst r) = length (x # d @ rest)"
proof -
  define keep where "keep \<longleftrightarrow> prev_cr \<and> (d = [] \<or> hd d \<noteq> LF)"
  define y where "y = (if keep then CR else x)"
  have buf: "(if keep then arr_write (x # d @ rest) 0 CR else Inr (x # d @ rest)) = Inr (y # d @ rest)"
    by (simp add: y_def arr_write_def)
  have first: "(if prev_cr then if length d = 0 then Inr True
       else bind_res (arr_read (x # d @ rest) 1) (\<lambda>c. Inr (c \<noteq> LF)) else Inr False) = Inr keep"
    by (cases d) (auto simp: keep_def arr_read_def)
  obtain buf' where buf': "ascii_to_bin_loop (length d) (length d) (y # d @ rest) 0 1 (if keep then 1 else 0) False =
      Inr (buf', (if keep then 1 else 0) + length (to_bin_held d), ends_cr d)"
    "length buf' = length (y # d @ rest)"
    "take (1 + length (to_bin_held d)) buf' = y # to_bin_held d"
    using ascii_to_bin_loop_held [of 1 0 "length d" "y # d @ rest" "length d" "if keep then 1 else 0" False]
    by auto
  have "vsf_ascii_ascii_to_bin (x # d @ rest) (length d) prev_cr =
    Inr (buf', \<lparr>a2b_p_buf = (if keep then 0 else 1),
      a2b_stored = (if keep then 1 else 0) + length (to_bin_held d), a2b_last_was_cr = ends_cr d\<rparr>)"
    unfolding vsf_ascii_ascii_to_bin_def first bind_res_Inr buf buf'(1) by simp
  moreover have "take (length (to_bin_held d)) (drop 1 buf') = to_bin_held d"
    using buf'(3) by (cases buf') auto
  moreover have "(if keep then CR # to_bin_held d else to_bin_held d) =
      (if d = [] then (if prev_cr then [CR] else []) else to_bin_held ((if prev_cr then [CR] else []) @ d))"
    by (cases d) (auto simp: keep_def)
  ultimately show ?thesis
    using buf'(2,3) by (auto simp: converted_def y_def keep_def)
qed

subsection \<open>To the network, block by block\<close>

lemma bin_to_ascii_loop_stream:
  "bin_to_ascii_loop s c flag = (to_ascii c s, if s = [] then flag else ends_cr s)"
  by (induction s arbitrary: c flag) (auto simp: ends_cr_def)

lemma to_ascii_append: "to_ascii c (s @ t) = to_ascii c s @ to_ascii (if s = [] then c else last s) t"
  by (induction s arbitrary: c) auto

lemma to_ascii_prev: "(c = CR) = (d = CR) \<Longrightarrow> to_ascii c s = to_ascii d s"
  by (cases s) auto

lemma bin_to_ascii_block:
  "vsf_ascii_bin_to_ascii s prev_cr =
     (to_ascii (if prev_cr then CR else NUL) s,
      \<lparr>b2a_stored = length (to_ascii (if prev_cr then CR else NUL) s),
       b2a_last_was_cr = (if s = [] then prev_cr else ends_cr s)\<rparr>)"
  by (simp add: vsf_ascii_bin_to_ascii_def bin_to_ascii_loop_stream)

lemma length_to_ascii: "length (to_ascii c s) \<le> 2 * length s"
proof (induction s arbitrary: c)
  case (Cons a s)
  from Cons [of a] show ?case by auto
qed simp

lemma to_bin_Cons: "to_bin (c # s) = (if c = CR \<and> s \<noteq> [] \<and> hd s = LF then to_bin s else c # to_bin s)"
  by (cases s) auto

lemma to_ascii_Nil: "to_ascii c s = [] \<longleftrightarrow> s = []"
  by (cases s) auto

lemma hd_to_ascii: "s \<noteq> [] \<Longrightarrow> hd (to_ascii c s) = (if hd s = LF \<and> c \<noteq> CR then CR else hd s)"
  by (cases s) auto

lemma to_bin_to_ascii: "to_bin (to_ascii c s) = to_bin s"
proof (induction s arbitrary: c)
  case (Cons a s)
  have "to_bin (a # to_ascii a s) = to_bin (a # s)"
    using Cons.IH by (auto simp: to_bin_Cons to_ascii_Nil hd_to_ascii)
  then show ?case
    by (cases "a = LF") (auto simp: to_bin_Cons [of CR])
qed simp

end
