(* ===== verification/Ftp_Transfer.thy ===== *)
theory Ftp_Transfer
  imports Ascii
begin

text \<open>
  File transfers, \<open>src/server/vsftpd-3.0.3/ftpdataio.c\<close>: the receiving loop \<open>do_file_recv\<close> and the
  sending loop \<open>do_file_send_rwloop\<close> with their conversions. What the system calls return is given:
  the results of the reads, one after another (an error or the bytes read; end of file for ever after
  the last), and the result of a write for the data written so far and the data to write.

  The loops get fuel; the lemmas show that two rounds more than there are reads are enough, and relate
  what is written to the conversion of the whole stream.
\<close>

definition VSFTP_DATA_BUFSIZE :: nat where
  "VSFTP_DATA_BUFSIZE = 65536"

definition get_chunk_size :: "nat \<Rightarrow> nat" where
  "get_chunk_size tunable_trans_chunk_size =
     (if tunable_trans_chunk_size < VSFTP_DATA_BUFSIZE \<and> tunable_trans_chunk_size > 0
      then if tunable_trans_chunk_size < 4096 then 4096 else tunable_trans_chunk_size
      else VSFTP_DATA_BUFSIZE)"

record vsf_transfer_ret =
  retval :: int
  transferred :: nat

text \<open>A read returns an error or bytes; no bytes is the end.\<close>

type_synonym read_result = "unit + string"

definition next_read :: "read_result list \<Rightarrow> read_result \<times> read_result list" where
  "next_read reads = (case reads of [] \<Rightarrow> (Inr [], []) | r # rs \<Rightarrow> (r, rs))"

text \<open>What a write of \<open>data\<close> after \<open>sent\<close> adds, when it returns \<open>n\<close>.\<close>

definition written :: "string \<Rightarrow> string \<Rightarrow> int \<Rightarrow> string" where
  "written sent data n = sent @ take (nat n) data"

text \<open>Reading into the buffer from its second byte on.\<close>

definition read_into :: "char list \<Rightarrow> string \<Rightarrow> char list res" where
  "read_into buf d =
     (if length d < length buf then Inr (take 1 buf @ d @ drop (1 + length d) buf)
      else Inl OutOfBounds)"

text \<open>The result: the return value, and the file.\<close>

type_synonym transfer = "vsf_transfer_ret \<times> string"

fun recv_loop :: "(string \<Rightarrow> string \<Rightarrow> int) \<Rightarrow> bool \<Rightarrow> nat \<Rightarrow> read_result list \<Rightarrow> char list \<Rightarrow> bool \<Rightarrow>
    nat \<Rightarrow> string \<Rightarrow> transfer option res" where
  "recv_loop wr is_ascii 0 reads buf prev_cr count dest = Inr None"
| "recv_loop wr is_ascii (Suc fuel) reads buf prev_cr count dest =
     (case next_read reads of
        (Inl _, reads) \<Rightarrow> Inr (Some (\<lparr>retval = -2, transferred = count\<rparr>, dest))
      | (Inr d, reads) \<Rightarrow>
          if d = [] \<and> \<not> prev_cr then Inr (Some (\<lparr>retval = 0, transferred = count\<rparr>, dest))
          else bind_res (read_into buf d) (\<lambda>buf.
            bind_res
              (if is_ascii then
                 bind_res (vsf_ascii_ascii_to_bin buf (length d) prev_cr) (\<lambda>(buf, r).
                   Inr (buf, take (a2b_stored r) (drop (a2b_p_buf r) buf), a2b_last_was_cr r))
               else Inr (buf, take (length d) (drop 1 buf), prev_cr)) (\<lambda>(buf, data, prev_cr).
            let n = wr dest data; count = count + length d; dest = written dest data n in
              if n < 0 \<or> n \<noteq> int (length data)
              then Inr (Some (\<lparr>retval = -1, transferred = count\<rparr>, dest))
              else recv_loop wr is_ascii fuel reads buf prev_cr count dest)))"

definition do_file_recv ::
    "(string \<Rightarrow> string \<Rightarrow> int) \<Rightarrow> bool \<Rightarrow> read_result list \<Rightarrow> char list \<Rightarrow> string \<Rightarrow> transfer option res" where
  "do_file_recv wr is_ascii reads p_recvbuf dest =
     recv_loop wr is_ascii (length reads + 2) reads p_recvbuf False 0 dest"

text \<open>
  Sending. The ASCII buffer is twice the size of the read buffer; \<open>p_asciibuf\<close> is written from its
  start, so only the room is checked.
\<close>

fun send_loop :: "(string \<Rightarrow> string \<Rightarrow> int) \<Rightarrow> bool \<Rightarrow> nat \<Rightarrow> read_result list \<Rightarrow> bool \<Rightarrow> nat \<Rightarrow> string \<Rightarrow>
    transfer option res" where
  "send_loop wr is_ascii 0 reads prev_cr count sent = Inr None"
| "send_loop wr is_ascii (Suc fuel) reads prev_cr count sent =
     (case next_read reads of
        (Inl _, reads) \<Rightarrow> Inr (Some (\<lparr>retval = -1, transferred = count\<rparr>, sent))
      | (Inr d, reads) \<Rightarrow>
          if d = [] then Inr (Some (\<lparr>retval = 0, transferred = count\<rparr>, sent))
          else
            let (data, prev_cr) =
              (if is_ascii then let (out, r) = vsf_ascii_bin_to_ascii d prev_cr
                                in (take (b2a_stored r) out, b2a_last_was_cr r)
               else (d, prev_cr))
            in if is_ascii \<and> length data > 2 * VSFTP_DATA_BUFSIZE then Inl OutOfBounds
            else let n = wr sent data; sent = written sent data n;
                     count = (if n < 0 then count else count + nat n)
              in if n < 0 \<or> n \<noteq> int (length data)
                 then Inr (Some (\<lparr>retval = -2, transferred = count\<rparr>, sent))
                 else send_loop wr is_ascii fuel reads prev_cr count sent)"

definition do_file_send_rwloop ::
    "(string \<Rightarrow> string \<Rightarrow> int) \<Rightarrow> bool \<Rightarrow> read_result list \<Rightarrow> string \<Rightarrow> transfer option res" where
  "do_file_send_rwloop wr is_ascii reads sent =
     send_loop wr is_ascii (length reads + 2) reads False 0 sent"

subsection \<open>One round\<close>

lemma next_read_simps [simp]:
  "next_read [] = (Inr [], [])" "next_read (r # rs) = (r, rs)"
  by (simp_all add: next_read_def)

lemma read_into_shape:
  assumes "length d < length buf"
  shows "\<exists>x rest. read_into buf d = Inr (x # d @ rest) \<and> length (x # d @ rest) = length buf"
  using assms by (cases buf) (auto simp: read_into_def)

text \<open>What a block adds to the dest, and the flag it leaves.\<close>

definition block_data :: "bool \<Rightarrow> bool \<Rightarrow> string \<Rightarrow> string" where
  "block_data is_ascii prev_cr d =
     (if \<not> is_ascii then d
      else if d = [] then (if prev_cr then [CR] else [])
      else to_bin_held ((if prev_cr then [CR] else []) @ d))"

definition block_flag :: "bool \<Rightarrow> bool \<Rightarrow> string \<Rightarrow> bool" where
  "block_flag is_ascii prev_cr d = (if is_ascii then ends_cr d else prev_cr)"

lemma recv_round:
  assumes d: "length d < length buf" and go: "\<not> (d = [] \<and> \<not> prev_cr)"
    and reads: "next_read reads = (Inr d, rs)"
  shows "\<exists>buf'. length buf' = length buf \<and>
    recv_loop wr is_ascii (Suc fuel) reads buf prev_cr count dest =
    (let data = block_data is_ascii prev_cr d; n = wr dest data; dest' = written dest data n in
     if n < 0 \<or> n \<noteq> int (length data)
     then Inr (Some (\<lparr>retval = -1, transferred = count + length d\<rparr>, dest'))
     else recv_loop wr is_ascii fuel rs buf' (block_flag is_ascii prev_cr d) (count + length d) dest')"
proof -
  obtain x rest where into: "read_into buf d = Inr (x # d @ rest)" "length (x # d @ rest) = length buf"
    using read_into_shape [OF d] by blast
  show ?thesis
  proof (cases is_ascii)
    case True
    obtain buf' r where "vsf_ascii_ascii_to_bin (x # d @ rest) (length d) prev_cr = Inr (buf', r)"
      "converted (buf', r) = block_data True prev_cr d" "a2b_last_was_cr r = ends_cr d"
      "length buf' = length buf"
      using ascii_to_bin_block [of x d rest prev_cr] into(2) by (auto simp: block_data_def)
    with True go reads into show ?thesis
      by (auto simp: converted_def block_flag_def Let_def intro!: exI [of _ buf'])
  next
    case False
    with go reads into show ?thesis
      by (auto simp: block_data_def block_flag_def Let_def intro!: exI [of _ "x # d @ rest"])
  qed
qed

subsection \<open>Receiving ends\<close>

definition fits :: "nat \<Rightarrow> read_result \<Rightarrow> bool" where
  "fits n r = (case r of Inl _ \<Rightarrow> True | Inr d \<Rightarrow> length d \<le> n)"

lemma recv_loop_ends:
  "length buf = Suc n \<Longrightarrow> list_all (fits n) reads \<Longrightarrow>
   length reads + 2 \<le> fuel \<or> reads = [] \<and> \<not> prev_cr \<and> 1 \<le> fuel \<Longrightarrow> is_ascii \<or> \<not> prev_cr \<Longrightarrow>
   holds (recv_loop wr is_ascii fuel reads buf prev_cr count dest) no_fault (\<lambda>r. r \<noteq> None)"
proof (induction fuel arbitrary: reads buf prev_cr count dest)
  case (Suc fuel)
  obtain r rs where nr: "next_read reads = (r, rs)" by (cases "next_read reads")
  show ?case
  proof (cases r)
    case (Inl e)
    with nr show ?thesis by simp
  next
    case (Inr d)
    show ?thesis
    proof (cases "d = [] \<and> \<not> prev_cr")
      case True
      with nr Inr show ?thesis by simp
    next
      case False
      have "d = [] \<and> rs = [] \<or> reads = Inr d # rs"
        using nr Inr by (cases reads) auto
      moreover have "fits n (Inr d) \<longleftrightarrow> length d \<le> n" by (simp add: fits_def)
      ultimately have d: "length d < length buf" and rs: "list_all (fits n) rs"
        using Suc.prems(1,2) by auto
      have fuel: "length rs + 2 \<le> fuel \<or> rs = [] \<and> \<not> block_flag is_ascii prev_cr d \<and> 1 \<le> fuel"
      proof (cases reads)
        case Nil
        with Suc.prems nr Inr False show ?thesis by (auto simp: block_flag_def ends_cr_def)
      next
        case (Cons a as)
        with Suc.prems nr Inr False show ?thesis
          by (auto simp: block_flag_def)
      qed
      obtain buf' where "length buf' = length buf"
        "recv_loop wr is_ascii (Suc fuel) reads buf prev_cr count dest =
         (let data = block_data is_ascii prev_cr d; n = wr dest data; dest' = written dest data n in
          if n < 0 \<or> n \<noteq> int (length data)
          then Inr (Some (\<lparr>retval = -1, transferred = count + length d\<rparr>, dest'))
          else recv_loop wr is_ascii fuel rs buf' (block_flag is_ascii prev_cr d) (count + length d) dest')"
        using recv_round [OF d False] nr Inr by blast
      moreover have "is_ascii \<or> \<not> block_flag is_ascii prev_cr d"
        using Suc.prems(4) by (auto simp: block_flag_def)
      ultimately show ?thesis
        using Suc.IH [OF _ rs fuel] Suc.prems(1) by (auto simp: Let_def)
    qed
  qed
qed simp

subsection \<open>A stream received\<close>

lemma to_bin_append:
  "to_bin (s @ t) = to_bin_held s @ to_bin ((if ends_cr s then [CR] else []) @ t)"
  using to_bin_held_append [of s t] by (auto simp: to_bin_held_cr ends_cr_def)

abbreviation all_written :: "string \<Rightarrow> string \<Rightarrow> int" where
  "all_written \<equiv> (\<lambda>dest data. int (length data))"

lemma written_all [simp]: "written dest data (int (length data)) = dest @ data"
  by (simp add: written_def)

lemma recv_loop_stream:
  "length buf = Suc n \<Longrightarrow> list_all (\<lambda>d. d \<noteq> [] \<and> length d \<le> n) ds \<Longrightarrow> length ds + 2 \<le> fuel \<Longrightarrow>
   is_ascii \<or> \<not> prev_cr \<Longrightarrow>
   recv_loop all_written is_ascii fuel (map Inr ds) buf prev_cr count dest =
     Inr (Some (\<lparr>retval = 0, transferred = count + length (concat ds)\<rparr>,
       dest @ (if is_ascii then to_bin ((if prev_cr then [CR] else []) @ concat ds) else concat ds)))"
proof (induction ds arbitrary: fuel buf prev_cr count dest)
  case Nil
  then obtain fuel' where fuel: "fuel = Suc (Suc fuel')" by (cases fuel; cases "fuel - 1") auto
  show ?case
  proof (cases prev_cr)
    case True
    with Nil have "is_ascii" "length ([] :: string) < length buf" by auto
    with recv_round [of "[]" buf prev_cr "[]" "[]" all_written is_ascii "Suc fuel'" count dest] True
    show ?thesis
      by (auto simp: fuel block_data_def block_flag_def ends_cr_def Let_def)
  next
    case False
    then show ?thesis by (simp add: fuel)
  qed
next
  case (Cons d ds)
  then obtain fuel' where fuel: "fuel = Suc fuel'" by (cases fuel) auto
  have d: "length d < length buf" "d \<noteq> []" using Cons.prems by auto
  obtain buf' where buf': "length buf' = length buf"
    "recv_loop all_written is_ascii fuel (map Inr (d # ds)) buf prev_cr count dest =
     recv_loop all_written is_ascii fuel' (map Inr ds) buf' (block_flag is_ascii prev_cr d)
       (count + length d) (dest @ block_data is_ascii prev_cr d)"
    using recv_round [OF d(1), of prev_cr "map Inr (d # ds)" "map Inr ds" all_written is_ascii fuel' count dest] d(2)
    by (auto simp: fuel Let_def)
  have "is_ascii \<or> \<not> block_flag is_ascii prev_cr d"
    using Cons.prems by (auto simp: block_flag_def)
  from Cons.IH [OF _ _ _ this, of buf' fuel' "count + length d" "dest @ block_data is_ascii prev_cr d"]
    buf' Cons.prems fuel d(2)
  show ?case
    using to_bin_append [of "(if prev_cr then [CR] else []) @ d" "concat ds"]
    by (auto simp: block_data_def block_flag_def ends_cr_def)
qed

subsection \<open>A stream sent\<close>

lemma send_loop_stream:
  "list_all (\<lambda>d. d \<noteq> [] \<and> length d \<le> VSFTP_DATA_BUFSIZE) ds \<Longrightarrow> length ds + 1 \<le> fuel \<Longrightarrow>
   send_loop all_written is_ascii fuel (map Inr ds) prev_cr count sent =
     (let data = (if is_ascii then to_ascii (if prev_cr then CR else NUL) (concat ds) else concat ds)
      in Inr (Some (\<lparr>retval = 0, transferred = count + length data\<rparr>, sent @ data)))"
proof (induction ds arbitrary: fuel prev_cr count sent)
  case Nil
  then obtain fuel' where "fuel = Suc fuel'" by (cases fuel) auto
  then show ?case by (simp add: Let_def)
next
  case (Cons d ds)
  then obtain fuel' where fuel: "fuel = Suc fuel'" by (cases fuel) auto
  have d: "d \<noteq> []" "length d \<le> VSFTP_DATA_BUFSIZE" using Cons.prems by simp_all
  show ?case
  proof (cases is_ascii)
    case True
    define data where "data = to_ascii (if prev_cr then CR else NUL) d"
    have "length data \<le> 2 * VSFTP_DATA_BUFSIZE"
      using length_to_ascii [of "if prev_cr then CR else NUL" d] d(2) by (simp add: data_def)
    then have "send_loop all_written is_ascii fuel (map Inr (d # ds)) prev_cr count sent =
        send_loop all_written is_ascii fuel' (map Inr ds) (ends_cr d) (count + length data) (sent @ data)"
      using True d(1) by (simp add: fuel bin_to_ascii_block Let_def data_def)
    moreover have "to_ascii (last d) (concat ds) = to_ascii (if ends_cr d then CR else NUL) (concat ds)"
      using d(1) by (intro to_ascii_prev) (auto simp: ends_cr_def)
    ultimately show ?thesis
      using Cons.IH [of fuel' "ends_cr d" "count + length data" "sent @ data"] Cons.prems True d(1)
      by (simp add: fuel data_def to_ascii_append Let_def)
  next
    case False
    with Cons.IH [of fuel' prev_cr "count + length d" "sent @ d"] Cons.prems d(1) fuel
    show ?thesis by (simp add: Let_def)
  qed
qed

subsection \<open>Claims\<close>

text \<open>
  C25. Receiving a file ends, whatever the reads and writes return, and stays inside the receive buffer
  of one byte more than a block, as long as no read returns more than a block.
\<close>

theorem do_file_recv_ends:
  assumes "length p_recvbuf = VSFTP_DATA_BUFSIZE + 1" "list_all (fits VSFTP_DATA_BUFSIZE) reads"
  shows "holds (do_file_recv wr is_ascii reads p_recvbuf dest) no_fault (\<lambda>r. r \<noteq> None)"
  unfolding do_file_recv_def using assms by (intro recv_loop_ends) simp_all

theorem do_file_recv_ends_witness:
  "holds (do_file_recv (\<lambda>f d. -1) True [Inr ''a'', Inl ()] (replicate (VSFTP_DATA_BUFSIZE + 1) NUL) [])
     no_fault (\<lambda>r. r \<noteq> None)"
  by (rule do_file_recv_ends) (simp_all add: fits_def VSFTP_DATA_BUFSIZE_def)

text \<open>
  A file received in ASCII mode is the stream with every CR LF made LF, wherever the stream is cut
  into blocks (a carriage return at the end of a block is kept back and decided by the next one); in
  binary mode it is the stream itself. The length reported is that of the stream.
\<close>

theorem received_file:
  assumes "length p_recvbuf = VSFTP_DATA_BUFSIZE + 1"
    "list_all (\<lambda>d. d \<noteq> [] \<and> length d \<le> VSFTP_DATA_BUFSIZE) ds"
  shows "do_file_recv all_written is_ascii (map Inr ds) p_recvbuf [] =
    Inr (Some (\<lparr>retval = 0, transferred = length (concat ds)\<rparr>,
      if is_ascii then to_bin (concat ds) else concat ds))"
  unfolding do_file_recv_def using recv_loop_stream [OF _ assms(2)] assms(1)
  by (simp del: recv_loop.simps)

theorem received_file_witness:
  "do_file_recv all_written True (map Inr [[CHR ''a'', CR], [LF, CHR ''b'']])
     (replicate (VSFTP_DATA_BUFSIZE + 1) NUL) [] =
   Inr (Some (\<lparr>retval = 0, transferred = length (concat [[CHR ''a'', CR], [LF, CHR ''b'']])\<rparr>,
     if True then to_bin (concat [[CHR ''a'', CR], [LF, CHR ''b'']])
     else concat [[CHR ''a'', CR], [LF, CHR ''b'']]))"
  by (rule received_file) (simp_all add: VSFTP_DATA_BUFSIZE_def)

fun no_crlf :: "string \<Rightarrow> bool" where
  "no_crlf (c # d # s) \<longleftrightarrow> \<not> (c = CR \<and> d = LF) \<and> no_crlf (d # s)"
| "no_crlf _ \<longleftrightarrow> True"

lemma to_bin_no_crlf: "no_crlf s \<Longrightarrow> to_bin s = s"
  by (induction s rule: no_crlf.induct) (auto simp: to_bin_Cons)

text \<open>
  C24. A file without CR LF pairs survives an ASCII transfer in both directions: what the sending loop
  puts on the wire, cut into any blocks, the receiving loop turns back into the file.
\<close>

theorem ascii_transfer_roundtrip:
  assumes "length p_recvbuf = VSFTP_DATA_BUFSIZE + 1"
    "list_all (\<lambda>d. d \<noteq> [] \<and> length d \<le> VSFTP_DATA_BUFSIZE) ds"
    "list_all (\<lambda>d. d \<noteq> [] \<and> length d \<le> VSFTP_DATA_BUFSIZE) net"
    "do_file_send_rwloop all_written True (map Inr ds) [] = Inr (Some (r, concat net))"
    "no_crlf (concat ds)"
  shows "\<exists>r'. do_file_recv all_written True (map Inr net) p_recvbuf [] = Inr (Some (r', concat ds))"
proof -
  have "concat net = to_ascii NUL (concat ds)"
    using assms(4) send_loop_stream [OF assms(2), of "length ds + 2" True False 0 "[]"]
    by (simp add: do_file_send_rwloop_def Let_def del: send_loop.simps)
  then show ?thesis
    using recv_loop_stream [OF _ assms(3), of p_recvbuf "length net + 2" True False 0 "[]"] assms(1,5)
    by (simp add: do_file_recv_def to_bin_to_ascii to_bin_no_crlf del: recv_loop.simps)
qed

theorem ascii_transfer_roundtrip_witness:
  "\<exists>r'. do_file_recv all_written True (map Inr [[CHR ''a'', CR], [LF, CHR ''b'']])
     (replicate (VSFTP_DATA_BUFSIZE + 1) NUL) [] = Inr (Some (r', concat [[CHR ''a'', LF], ''b'']))"
  by (rule ascii_transfer_roundtrip [where r = "\<lparr>retval = 0, transferred = 4\<rparr>"])
    (simp_all add: VSFTP_DATA_BUFSIZE_def do_file_send_rwloop_def vsf_ascii_bin_to_ascii_def written_def)

end
