(* ===== verification/Vsf_Session.thy ===== *)
theory Vsf_Session
  imports Sockaddr Str_Spec Ftp_Transfer
begin

unbundle bit_operations_syntax

text \<open>
  The state of an FTP session and its surroundings: the session structure of
  \<open>src/server/vsftpd-3.0.3/session.h\<close>, the settings of \<open>tunables.h\<close> the modelled code reads, and the
  operating system as a record of functions that answer a system call from the history of everything
  that was done before it. The session keeps that history, newest first, in \<open>trace\<close>.

  A run ends in a value or in a fault together with the history up to it, so that properties of the
  history cover the last, failing command as well. The build has no SSL (\<open>builddefs.h\<close>), the
  structure members for it are left out but for the two flags that are tested.
\<close>

subsection \<open>The operating system\<close>

datatype syscall =
    Getcwd | Chdir string | Mkdir string nat | Rmdir string | Unlink string
  | Rename string string | Chmod string "32 word" | SetModtime string int
  | OpenRead string | Create string | CreateExclusive string | OpenDir string | ReadDir string
  | Stat string | Lstat string | Readlink string | Fstat int | DirStat string
  | LockRead int | LockWrite int | Unlock int | DeactivateNoblock int | GetOffset int
  | LseekTo int int | LseekEnd int | Ftruncate int | Fchmod int nat | Fchown int int
  | CloseFd int | CloseFailok int | CloseDir string | SetUmask "32 word"
  | Socket bool | BindTo int sockaddr | ListenOn int | AcceptFrom int | ConnectTo int sockaddr
  | RandomByte | GetTime | Getpwnam string | ReadFile string | ReceiveFd
  | Transfer int int | Sendfile int int int | WriteData string | Sleep
  | EnterDir string | Chroot string | Setuid int | Setgid int | Seteuid int | Setegid int
  | Initgroups string int | ClearGroups | KeepCapabilities | AdoptCapabilities bool bool
  | SetNoFds | SetNoProcs | WriteAccess string | Getuid | Geteuid | Getegid
  | Getspnam string | Getusershell | Fork | ForkNewnet | SocketPair | WaitChild | ShutdownControl | OpenLog string

text \<open>
  \<open>EnterDir\<close> is the call of \<open>chdir\<close> with which a process takes its place before it serves a client,
  \<open>Chdir\<close> the one for a directory a client has named.
\<close>

text \<open>What the history records: system calls, bytes sent to the client, and lines logged.\<close>

datatype event = Sys syscall | Sent string | Logged int string | Syslogged string

record statbuf =
  st_regfile :: bool
  st_dir :: bool
  st_symlink :: bool
  st_readable_other :: bool
  st_uid :: int
  st_gid :: int
  st_links :: nat
  st_size :: int
  st_mtime :: int
  st_perms :: string

text \<open>Entries of the user database, as far as they are read.\<close>

record passwd =
  pw_name :: string
  pw_passwd :: string
  pw_uid :: int
  pw_gid :: int
  pw_dir :: string
  pw_shell :: string

record spwd =
  sp_pwdp :: string
  sp_lstchg :: int
  sp_max :: int
  sp_expire :: int

text \<open>
  What arrives on the control connection: a line without its newline, a line that does not fit the
  buffer, the end of the connection, or nothing until the idle timeout. And the signals during a
  transfer: out of band data with what is then read from the control connection, or the alarm.
\<close>

datatype input = Line string | TooLong | HangUp | IdleTimeout

datatype signal = SigUrg input | SigAlrm

text \<open>
  The decoder of uploaded captures as the session uses it: for the bytes of a file, if it can be opened,
  and its name, the reply, and the decoder with what its static variables are after the call.
\<close>

codatatype decoder = Decoder (decode: "nat list option \<Rightarrow> string \<Rightarrow> (string \<times> decoder) res")

record os =
  os_ret :: "event list \<Rightarrow> syscall \<Rightarrow> int"
  os_errno :: "event list \<Rightarrow> nat"
  os_stat :: "event list \<Rightarrow> syscall \<Rightarrow> statbuf option"
  os_text :: "event list \<Rightarrow> syscall \<Rightarrow> string option"
  os_names :: "event list \<Rightarrow> syscall \<Rightarrow> string list"
  os_file :: "event list \<Rightarrow> string \<Rightarrow> nat list option"
  os_peer :: "event list \<Rightarrow> sockaddr"
  os_write :: "event list \<Rightarrow> string \<Rightarrow> int"
  os_reads :: "event list \<Rightarrow> read_result list"
  os_wr :: "event list \<Rightarrow> string \<Rightarrow> string \<Rightarrow> int"
  os_signals :: "event list \<Rightarrow> signal list"
  os_time :: "event list \<Rightarrow> int \<times> int"
  os_date :: "event list \<Rightarrow> string"
  os_stat_date :: "statbuf \<Rightarrow> bool \<Rightarrow> int \<Rightarrow> string"
  os_numeric_date :: "statbuf \<Rightarrow> bool \<Rightarrow> string"
  os_parse_time :: "string \<Rightarrow> int"
  os_timezone :: int
  os_pid :: nat
  os_double :: "int \<Rightarrow> int \<Rightarrow> int \<Rightarrow> string"
  os_inet_ntop :: "sockaddr \<Rightarrow> string"
  os_inet_ntoa :: "string \<Rightarrow> string"
  os_inet_aton :: "string \<Rightarrow> string option"
  os_user_name :: "int \<Rightarrow> string option"
  os_group_name :: "int \<Rightarrow> string option"
  os_pwnam :: "event list \<Rightarrow> string \<Rightarrow> passwd option"
  os_shells :: "event list \<Rightarrow> string list"
  os_shadow :: "event list \<Rightarrow> string \<Rightarrow> spwd option"
  os_crypt :: "string \<Rightarrow> string \<Rightarrow> string option"
  os_has_capabilities :: bool
  os_has_capabilities_as_non_root :: bool
  os_local_addr :: sockaddr
  os_remote_addr :: sockaddr
  os_fd_is_socket :: bool

subsection \<open>Settings\<close>

text \<open>A text setting that is a null pointer is \<open>None\<close>.\<close>

record tunables_system =
  tunable_xferlog_enable :: bool
  tunable_xferlog_std_format :: bool
  tunable_xferlog_file :: "string option"
  tunable_vsftpd_log_file :: "string option"
  tunable_dual_log_enable :: bool
  tunable_use_sendfile :: bool
  tunable_listen :: bool
  tunable_listen_ipv6 :: bool
  tunable_listen_port :: nat
  tunable_listen_address :: "string option"
  tunable_listen_address6 :: "string option"
  tunable_background :: bool
  tunable_session_support :: bool
  tunable_pasv_addr_resolve :: bool
  tunable_debug_ssl :: bool
  tunable_require_cert :: bool
  tunable_validate_cert :: bool
  tunable_strict_ssl_read_eof :: bool
  tunable_strict_ssl_write_shutdown :: bool
  tunable_ssl_request_cert :: bool
  tunable_ptrace_sandbox :: bool
  tunable_isolate :: bool
  tunable_seccomp_sandbox :: bool
  tunable_accept_timeout :: nat
  tunable_connect_timeout :: nat
  tunable_file_open_mode :: nat
  tunable_pam_service_name :: "string option"
  tunable_rsa_cert_file :: "string option"
  tunable_dsa_cert_file :: "string option"
  tunable_ssl_ciphers :: "string option"
  tunable_rsa_private_key_file :: "string option"
  tunable_dsa_private_key_file :: "string option"
  tunable_ca_certs_file :: "string option"

record tunables_users = tunables_system +
  tunable_check_shell :: bool
  tunable_nopriv_user :: "string option"
  tunable_secure_chroot_dir :: "string option"
  tunable_anon_root :: "string option"
  tunable_local_root :: "string option"
  tunable_user_sub_token :: "string option"
  tunable_passwd_chroot_enable :: bool
  tunable_chroot_local_user :: bool
  tunable_chroot_list_enable :: bool
  tunable_chroot_list_file :: "string option"
  tunable_guest_enable :: bool
  tunable_guest_username :: "string option"
  tunable_virtual_use_local_privs :: bool
  tunable_allow_writeable_chroot :: bool
  tunable_user_config_dir :: "string option"
  tunable_userlist_file :: "string option"
  tunable_isolate_network :: bool
  tunable_run_as_launching_user :: bool
  tunable_allow_anon_ssl :: bool
  tunable_force_local_logins_ssl :: bool
  tunable_force_anon_logins_ssl :: bool
  tunable_implicit_ssl :: bool
  tunable_deny_email_enable :: bool
  tunable_banned_email_file :: "string option"
  tunable_secure_email_list_enable :: bool
  tunable_email_password_file :: "string option"
  tunable_banner_file :: "string option"
  tunable_tcp_wrappers :: bool
  tunable_setproctitle_enable :: bool
  tunable_chown_username :: "string option"

record tunables_login = tunables_users +
  tunable_anonymous_enable :: bool
  tunable_local_enable :: bool
  tunable_ftp_enable :: bool
  tunable_http_enable :: bool
  tunable_userlist_enable :: bool
  tunable_userlist_deny :: bool
  tunable_no_anon_password :: bool
  tunable_delay_failed_login :: nat
  tunable_delay_successful_login :: nat
  tunable_max_login_fails :: nat
  tunable_max_clients :: nat
  tunable_max_per_ip :: nat
  tunable_ftp_username :: "string option"
  tunable_ftpd_banner :: "string option"

record tunables_log = tunables_login +
  tunable_log_ftp_protocol :: bool
  tunable_syslog_enable :: bool
  tunable_no_log_lock :: bool
  tunable_dirmessage_enable :: bool
  tunable_message_file :: "string option"
  tunable_idle_session_timeout :: nat
  tunable_data_connection_timeout :: nat
  tunable_deny_file :: "string option"
  tunable_hide_file :: "string option"
  tunable_hide_ids :: bool
  tunable_text_userdb_names :: bool
  tunable_use_localtime :: bool
  tunable_force_dot_files :: bool
  tunable_ls_recurse_enable :: bool
  tunable_async_abor_enable :: bool

record tunables_net = tunables_log +
  tunable_one_process_model :: bool
  tunable_pasv_enable :: bool
  tunable_port_enable :: bool
  tunable_pasv_promiscuous :: bool
  tunable_port_promiscuous :: bool
  tunable_pasv_min_port :: nat
  tunable_pasv_max_port :: nat
  tunable_pasv_address :: "string option"
  tunable_connect_from_port_20 :: bool
  tunable_ftp_data_port :: nat
  tunable_trans_chunk_size :: nat
  tunable_ssl_enable :: bool
  tunable_require_ssl_reuse :: bool
  tunable_sslv2 :: bool
  tunable_sslv3 :: bool
  tunable_tlsv1 :: bool
  tunable_force_local_data_ssl :: bool
  tunable_force_anon_data_ssl :: bool

record tunables = tunables_net +
  tunable_write_enable :: bool
  tunable_download_enable :: bool
  tunable_dirlist_enable :: bool
  tunable_chmod_enable :: bool
  tunable_mdtm_write :: bool
  tunable_anon_upload_enable :: bool
  tunable_anon_mkdir_write_enable :: bool
  tunable_anon_other_write_enable :: bool
  tunable_anon_world_readable_only :: bool
  tunable_ascii_upload_enable :: bool
  tunable_ascii_download_enable :: bool
  tunable_chown_uploads :: bool
  tunable_chown_upload_mode :: nat
  tunable_lock_upload_files :: bool
  tunable_delete_failed_uploads :: bool
  tunable_tilde_user_enable :: bool
  tunable_anon_umask :: "32 word"
  tunable_local_umask :: "32 word"
  tunable_anon_max_rate :: nat
  tunable_local_max_rate :: nat
  tunable_cmds_allowed :: "string option"
  tunable_cmds_denied :: "string option"

subsection \<open>The session\<close>

text \<open>
  The privileged parent of the two process model has its own copy of the structure, of which only the
  listening socket is ever different from the child's; it is \<open>parent_listen_fd\<close>.
\<close>

record vsf_connection =
  p_local_addr :: sockaddr
  p_remote_addr :: sockaddr
  data_timeout :: bool
  pasv_listen_fd :: int
  parent_listen_fd :: int
  p_port_sockaddr :: "sockaddr option"
  data_fd :: int
  data_progress :: bool
  bw_rate_max :: nat
  control_use_ssl :: bool
  data_use_ssl :: bool
  umask :: "32 word"
  trace :: "event list"

record vsf_logging = vsf_connection +
  is_anonymous :: bool
  is_guest :: bool
  user_str :: string
  anon_pass_str :: string
  remote_ip_str :: string
  xferlog_fd :: int
  vsftpd_log_fd :: int
  log_type :: nat
  log_start_sec :: int
  log_start_usec :: int
  log_str :: string
  transfer_size :: int
  is_ascii :: bool

record vsf_session = vsf_logging +
  restart_pos :: int
  rnfr_filename_str :: string
  abor_received :: bool
  epsv_all :: bool
  is_http :: bool
  http_get_arg :: string
  p_visited_dir_list :: "string list"
  anon_ftp_uid :: int
  guest_user_uid :: int
  anon_upload_chown_uid :: int
  banned_email_str :: string
  email_passwords_str :: string
  userlist_str :: string
  banner_str :: string
  tcp_wrapper_ok :: bool
  ftp_cmd_str :: string
  ftp_arg_str :: string
  num_clients :: nat
  num_this_ip :: nat
  home_str :: string
  login_fails :: nat
  tpms_decoder :: decoder

subsection \<open>Runs\<close>

type_synonym 'a run = "(fault \<times> event list) + 'a"

definition and_then :: "'a run \<Rightarrow> ('a \<Rightarrow> 'b run) \<Rightarrow> 'b run" where
  "and_then m f = (case m of Inl e \<Rightarrow> Inl e | Inr x \<Rightarrow> f x)"

lemma and_then_simps [simp]:
  "and_then (Inl e) f = Inl e" "and_then (Inr x) f = f x"
  by (simp_all add: and_then_def)

lemma and_then_cong [fundef_cong]:
  "m = m' \<Longrightarrow> (\<And>x. m' = Inr x \<Longrightarrow> f x = f' x) \<Longrightarrow> and_then m f = and_then m' f'"
  by (cases m') (auto simp: and_then_def)

text \<open>A fault of a function that does not touch the session.\<close>

definition lifted :: "vsf_session \<Rightarrow> 'a res \<Rightarrow> 'a run" where
  "lifted s m = (case m of Inl e \<Rightarrow> Inl (e, trace s) | Inr x \<Rightarrow> Inr x)"

text \<open>\<open>ends m E Q\<close>: a fault and the history up to it satisfy \<open>E\<close>, a value satisfies \<open>Q\<close>.\<close>

definition ends :: "'a run \<Rightarrow> (fault \<Rightarrow> event list \<Rightarrow> bool) \<Rightarrow> ('a \<Rightarrow> bool) \<Rightarrow> bool" where
  "ends m E Q = (case m of Inl (e, tr) \<Rightarrow> E e tr | Inr x \<Rightarrow> Q x)"

named_theorems ends_simps \<open>what the session operations do\<close>

lemma ends_values [simp, ends_simps]:
  "ends (Inl (e, tr)) E Q = E e tr" "ends (Inr x) E Q = Q x"
  by (simp_all add: ends_def)

lemma ends_and_then [ends_simps]:
  "ends (and_then m f) E Q = ends m E (\<lambda>x. ends (f x) E Q)"
  by (cases m) (auto simp: ends_def)

lemma ends_lifted [ends_simps]:
  "ends (lifted s m) E Q = holds m (\<lambda>e. E e (trace s)) Q"
  by (cases m) (auto simp: lifted_def)

lemma ends_if [ends_simps]:
  "ends (if b then m else m') E Q = (if b then ends m E Q else ends m' E Q)"
  by simp

lemma ends_prod [ends_simps]:
  "ends (case p of (x, y) \<Rightarrow> f x y) E Q = (case p of (x, y) \<Rightarrow> ends (f x y) E Q)"
  by (simp split: prod.split)

lemma ends_option [ends_simps]:
  "ends (case p of None \<Rightarrow> m | Some x \<Rightarrow> f x) E Q =
     (case p of None \<Rightarrow> ends m E Q | Some x \<Rightarrow> ends (f x) E Q)"
  by (simp split: option.split)

lemma ends_conseq:
  "ends m E P \<Longrightarrow> (\<And>x. P x \<Longrightarrow> Q x) \<Longrightarrow> (\<And>e tr. E e tr \<Longrightarrow> F e tr) \<Longrightarrow> ends m F Q"
  by (cases m) (auto simp: ends_def split: prod.splits)

lemma ends_bindI:
  "ends m E P \<Longrightarrow> (\<And>x. P x \<Longrightarrow> ends (f x) E Q) \<Longrightarrow> ends (and_then m f) E Q"
  by (cases m) (auto simp: ends_def)

lemma ends_bind2I:
  "ends m E (\<lambda>(x, y). P x y) \<Longrightarrow> (\<And>x y. P x y \<Longrightarrow> ends (f (x, y)) E Q) \<Longrightarrow> ends (and_then m f) E Q"
  by (cases m) (auto simp: ends_def)

subsection \<open>Leaving\<close>

text \<open>
  \<open>bug\<close> and \<open>die\<close> of \<open>utility.c\<close>: with the debugging switch that is set there, \<open>die\<close> is \<open>bug\<close>. The
  reason is sent to the client, whatever becomes of the write.
\<close>

definition oops_reply :: "string \<Rightarrow> event" where
  "oops_reply p_text = Sent (''500 OOPS: '' @ p_text @ [CHR 0x0D, CHR 0x0A])"

definition bug :: "string \<Rightarrow> vsf_session \<Rightarrow> 'a run" where
  "bug p_text s = Inl (Bug p_text, oops_reply p_text # trace s)"

definition die :: "string \<Rightarrow> vsf_session \<Rightarrow> 'a run" where
  "die p_text s = Inl (Die p_text, oops_reply p_text # trace s)"

definition vsf_sysutil_exit :: "int \<Rightarrow> vsf_session \<Rightarrow> 'a run" where
  "vsf_sysutil_exit exit_code s = Inl (Exit exit_code, trace s)"

subsection \<open>System calls\<close>

abbreviation note_event :: "event \<Rightarrow> vsf_session \<Rightarrow> vsf_session" where
  "note_event e s \<equiv> s\<lparr>trace := e # trace s\<rparr>"

text \<open>Steps that only add events of a kind to the history.\<close>

definition adds :: "(event \<Rightarrow> bool) \<Rightarrow> vsf_session \<Rightarrow> vsf_session \<Rightarrow> bool" where
  "adds P s s' \<longleftrightarrow> (\<exists>es. list_all P es \<and> s' = s\<lparr>trace := es @ trace s\<rparr>)"

lemma adds_refl [simp, intro]: "adds P s s"
  unfolding adds_def by (rule exI [of _ "[]"]) simp

lemma adds_event: "P e \<Longrightarrow> adds P s (note_event e s)"
  unfolding adds_def by (rule exI [of _ "[e]"]) simp

lemma adds_trans:
  assumes "adds P s s'" "adds P s' s''"
  shows "adds P s s''"
proof -
  obtain es es' where "list_all P es" "s' = s\<lparr>trace := es @ trace s\<rparr>"
    "list_all P es'" "s'' = s'\<lparr>trace := es' @ trace s'\<rparr>"
    using assms by (auto simp: adds_def)
  then show ?thesis
    unfolding adds_def by (intro exI [of _ "es' @ es"]) simp
qed

lemma adds_mono: "adds P s s' \<Longrightarrow> (\<And>e. P e \<Longrightarrow> R e) \<Longrightarrow> adds R s s'"
  by (auto simp: adds_def list_all_iff)

text \<open>A call, its result, and a call that ends the process when it fails.\<close>

definition sys :: "os \<Rightarrow> syscall \<Rightarrow> vsf_session \<Rightarrow> int \<times> vsf_session" where
  "sys W c s = (os_ret W (trace s) c, note_event (Sys c) s)"

definition sys_or_die :: "os \<Rightarrow> string \<Rightarrow> syscall \<Rightarrow> vsf_session \<Rightarrow> vsf_session run" where
  "sys_or_die W p_text c s =
     (let (r, s) = sys W c s in if r < 0 then die p_text s else Inr s)"

definition sys_text :: "os \<Rightarrow> syscall \<Rightarrow> vsf_session \<Rightarrow> string option \<times> vsf_session" where
  "sys_text W c s = (os_text W (trace s) c, note_event (Sys c) s)"

text \<open>\<open>stat\<close> and its relatives answer with a structure or fail.\<close>

definition sys_stat :: "os \<Rightarrow> syscall \<Rightarrow> vsf_session \<Rightarrow> statbuf option \<times> vsf_session" where
  "sys_stat W c s = (os_stat W (trace s) c, note_event (Sys c) s)"

definition vsf_sysutil_fstat :: "os \<Rightarrow> int \<Rightarrow> vsf_session \<Rightarrow> (statbuf \<times> vsf_session) run" where
  "vsf_sysutil_fstat W fd s =
     (let (st, s) = sys_stat W (Fstat fd) s in
      case st of None \<Rightarrow> die ''fstat'' s | Some st \<Rightarrow> Inr (st, s))"

definition vsf_sysutil_lseek_to :: "os \<Rightarrow> int \<Rightarrow> int \<Rightarrow> vsf_session \<Rightarrow> vsf_session run" where
  "vsf_sysutil_lseek_to W fd seek_pos s =
     (if seek_pos < 0 then die ''negative seek_pos in vsf_sysutil_lseek_to'' s
      else sys_or_die W ''lseek'' (LseekTo fd seek_pos) s)"

definition vsf_sysutil_statbuf_get_size :: "statbuf \<Rightarrow> vsf_session \<Rightarrow> int run" where
  "vsf_sysutil_statbuf_get_size st s =
     (if st_size st < 0 then die ''invalid inode size in vsf_sysutil_statbuf_get_size'' s
      else Inr (st_size st))"

text \<open>\<open>getcwd\<close>; empty when it fails.\<close>

definition str_getcwd :: "os \<Rightarrow> vsf_session \<Rightarrow> string \<times> vsf_session" where
  "str_getcwd W s = (let (t, s) = sys_text W Getcwd s in (case t of None \<Rightarrow> [] | Some t \<Rightarrow> c_str t, s))"

definition vsf_sysutil_set_umask :: "os \<Rightarrow> 32 word \<Rightarrow> vsf_session \<Rightarrow> vsf_session" where
  "vsf_sysutil_set_umask W new_umask s =
     (let m = new_umask AND 0x1FF in snd (sys W (SetUmask m) (s\<lparr>umask := m\<rparr>)))"

end
