(* ===== verification/Vsf_Logging.thy ===== *)
theory Vsf_Logging
  imports Vsf_Session
begin

text \<open>
  Logging, \<open>src/server/vsftpd-3.0.3/logging.c\<close>: the pending entry of the session, the two line formats,
  and the lock around a write to a log file. Dates, the process number and the printed transfer rate
  (floating point) are the operating system's. The lemmas give the effect on the session, the one
  internal check that can fail, and that every line written to a file is printable.
\<close>

definition kVSFLogEntryNull :: nat where "kVSFLogEntryNull = 1"
definition kVSFLogEntryDownload :: nat where "kVSFLogEntryDownload = 2"
definition kVSFLogEntryUpload :: nat where "kVSFLogEntryUpload = 3"
definition kVSFLogEntryMkdir :: nat where "kVSFLogEntryMkdir = 4"
definition kVSFLogEntryLogin :: nat where "kVSFLogEntryLogin = 5"
definition kVSFLogEntryFTPInput :: nat where "kVSFLogEntryFTPInput = 6"
definition kVSFLogEntryFTPOutput :: nat where "kVSFLogEntryFTPOutput = 7"
definition kVSFLogEntryConnection :: nat where "kVSFLogEntryConnection = 8"
definition kVSFLogEntryDelete :: nat where "kVSFLogEntryDelete = 9"
definition kVSFLogEntryRename :: nat where "kVSFLogEntryRename = 10"
definition kVSFLogEntryRmdir :: nat where "kVSFLogEntryRmdir = 11"
definition kVSFLogEntryChmod :: nat where "kVSFLogEntryChmod = 12"
definition kVSFLogEntryDebug :: nat where "kVSFLogEntryDebug = 13"

lemmas log_entry_defs =
  kVSFLogEntryNull_def kVSFLogEntryDownload_def kVSFLogEntryUpload_def kVSFLogEntryMkdir_def
  kVSFLogEntryLogin_def kVSFLogEntryFTPInput_def kVSFLogEntryFTPOutput_def
  kVSFLogEntryConnection_def kVSFLogEntryDelete_def kVSFLogEntryRename_def kVSFLogEntryRmdir_def
  kVSFLogEntryChmod_def kVSFLogEntryDebug_def

definition s_replace_char :: "char \<Rightarrow> char \<Rightarrow> string \<Rightarrow> string" where
  "s_replace_char c_from c_to s = map (\<lambda>c. if c = c_from then c_to else c) s"

definition s_replace_unprintable :: "char \<Rightarrow> string \<Rightarrow> string" where
  "s_replace_unprintable new_char s = map (\<lambda>c. if \<not> vsf_sysutil_isprint c then new_char else c) s"

definition vsf_log_type_is_transfer :: "nat \<Rightarrow> bool" where
  "vsf_log_type_is_transfer type \<longleftrightarrow> type = kVSFLogEntryDownload \<or> type = kVSFLogEntryUpload"

definition vsf_log_start_entry :: "os \<Rightarrow> nat \<Rightarrow> vsf_session \<Rightarrow> vsf_session run" where
  "vsf_log_start_entry W what s =
     (if log_type s \<noteq> 0 then bug ''non null log_type in vsf_log_start_entry'' s
      else let s = s\<lparr>log_type := what, log_start_sec := 0, log_start_usec := 0,
                     transfer_size := 0, log_str := []\<rparr> in
        if vsf_log_type_is_transfer what
        then let (sec, usec) = os_time W (trace s) in
          Inr (note_event (Sys GetTime) (s\<lparr>log_start_sec := sec, log_start_usec := usec\<rparr>))
        else Inr s)"

definition vsf_log_entry_pending :: "vsf_session \<Rightarrow> bool" where
  "vsf_log_entry_pending s \<longleftrightarrow> log_type s \<noteq> 0"

definition vsf_log_clear_entry :: "vsf_session \<Rightarrow> vsf_session" where
  "vsf_log_clear_entry s = s\<lparr>log_type := 0\<rparr>"

text \<open>The line of the wu-ftpd format.\<close>

definition vsf_log_do_log_wuftpd_format :: "os \<Rightarrow> bool \<Rightarrow> vsf_session \<Rightarrow> string" where
  "vsf_log_do_log_wuftpd_format W succeeded s =
     (let what = log_type s;
          delta_sec = fst (os_time W (trace s)) - log_start_sec s;
          delta_sec = (if delta_sec \<le> 0 then 1 else delta_sec)
      in os_date W (trace s) @ '' '' @ fmt_lu (nat delta_sec) @ '' '' @ remote_ip_str s @ '' ''
         @ fmt_ld (transfer_size s) @ '' ''
         @ s_replace_char (CHR '' '') (CHR ''_'') (log_str s) @ '' ''
         @ (if is_ascii s then ''a '' else ''b '') @ ''_ ''
         @ (if what = kVSFLogEntryUpload then ''i '' else ''o '')
         @ (if is_anonymous s \<and> \<not> is_guest s then ''a '' @ anon_pass_str s
            else (if is_guest s then ''g '' else ''r '') @ user_str s)
         @ '' '' @ ''ftp 0 * '' @ (if succeeded then ''c'' else ''i''))"

definition log_action :: "nat \<Rightarrow> string option" where
  "log_action what =
     (if what = kVSFLogEntryDownload then Some ''DOWNLOAD''
      else if what = kVSFLogEntryUpload then Some ''UPLOAD''
      else if what = kVSFLogEntryMkdir then Some ''MKDIR''
      else if what = kVSFLogEntryLogin then Some ''LOGIN''
      else if what = kVSFLogEntryFTPInput then Some ''FTP command''
      else if what = kVSFLogEntryFTPOutput then Some ''FTP response''
      else if what = kVSFLogEntryConnection then Some ''CONNECT''
      else if what = kVSFLogEntryDelete then Some ''DELETE''
      else if what = kVSFLogEntryRename then Some ''RENAME''
      else if what = kVSFLogEntryRmdir then Some ''RMDIR''
      else if what = kVSFLogEntryChmod then Some ''CHMOD''
      else if what = kVSFLogEntryDebug then Some ''DEBUG''
      else None)"

text \<open>The line of vsftpd's own format, with the text \<open>p_log_str\<close>; the check of the entry type in it.\<close>

definition vsf_log_do_log_vsftpd_format ::
    "tunables \<Rightarrow> os \<Rightarrow> bool \<Rightarrow> nat \<Rightarrow> string \<Rightarrow> vsf_session \<Rightarrow> string run" where
  "vsf_log_do_log_vsftpd_format T W succeeded what p_log_str s =
     (case log_action what of None \<Rightarrow> bug ''bad entry_type in vsf_log_do_log'' s
      | Some action \<Rightarrow>
         let (sec, usec) = os_time W (trace s) in
         Inr ((if \<not> tunable_syslog_enable T
               then os_date W (trace s) @ '' [pid '' @ fmt_lu (os_pid W) @ ''] '' else [])
           @ (if user_str s \<noteq> [] then ''['' @ user_str s @ ''] '' else [])
           @ (if what \<noteq> kVSFLogEntryFTPInput \<and> what \<noteq> kVSFLogEntryFTPOutput \<and>
                 what \<noteq> kVSFLogEntryConnection \<and> what \<noteq> kVSFLogEntryDebug
              then if succeeded then ''OK '' else ''FAIL '' else [])
           @ action
           @ '': Client '' @ [CHR 0x22] @ remote_ip_str s @ [CHR 0x22]
           @ (if what = kVSFLogEntryLogin \<and> anon_pass_str s \<noteq> []
              then '', anon password '' @ [CHR 0x22] @ anon_pass_str s @ [CHR 0x22] else [])
           @ (if p_log_str \<noteq> [] then '', '' @ [CHR 0x22] @ p_log_str @ [CHR 0x22] else [])
           @ (if what \<noteq> kVSFLogEntryFTPInput \<and> what \<noteq> kVSFLogEntryFTPOutput \<and>
                 what \<noteq> kVSFLogEntryDebug
              then (if transfer_size s \<noteq> 0 then '', '' @ fmt_ld (transfer_size s) @ '' bytes'' else [])
                @ (if vsf_log_type_is_transfer what
                   then '', '' @ os_double W (transfer_size s) (sec - log_start_sec s) (usec - log_start_usec s)
                     @ ''Kbyte/sec''
                   else [])
              else [])))"

definition vsf_log_do_log_to_file :: "tunables \<Rightarrow> os \<Rightarrow> int \<Rightarrow> string \<Rightarrow> vsf_session \<Rightarrow> vsf_session" where
  "vsf_log_do_log_to_file T W fd p_str s =
     (let (r, s) = (if \<not> tunable_no_log_lock T then sys W (LockWrite fd) s else (0, s)) in
      if \<not> tunable_no_log_lock T \<and> r < 0 then s
      else let s = note_event (Logged fd (s_replace_unprintable (CHR ''?'') p_str @ [CHR 0x0A])) s in
        if \<not> tunable_no_log_lock T then snd (sys W (Unlock fd) s) else s)"

definition vsf_log_common :: "tunables \<Rightarrow> os \<Rightarrow> bool \<Rightarrow> nat \<Rightarrow> string \<Rightarrow> vsf_session \<Rightarrow> vsf_session run" where
  "vsf_log_common T W succeeded what p_str s =
     (let s = (if xferlog_fd s \<noteq> -1 \<and> vsf_log_type_is_transfer what
               then vsf_log_do_log_to_file T W (xferlog_fd s) (vsf_log_do_log_wuftpd_format W succeeded s) s
               else s) in
      and_then
        (if vsftpd_log_fd s \<noteq> -1
         then and_then (vsf_log_do_log_vsftpd_format T W succeeded what p_str s) (\<lambda>line.
              Inr (vsf_log_do_log_to_file T W (vsftpd_log_fd s) line s))
         else Inr s) (\<lambda>s.
      if tunable_syslog_enable T
      then and_then (vsf_log_do_log_vsftpd_format T W succeeded what p_str s) (\<lambda>line.
           Inr (note_event (Syslogged line) s))
      else Inr s))"

definition vsf_log_line :: "tunables \<Rightarrow> os \<Rightarrow> nat \<Rightarrow> string \<Rightarrow> vsf_session \<Rightarrow> vsf_session run" where
  "vsf_log_line T W what p_str s = vsf_log_common T W True what p_str s"

definition vsf_log_do_log :: "tunables \<Rightarrow> os \<Rightarrow> bool \<Rightarrow> vsf_session \<Rightarrow> vsf_session run" where
  "vsf_log_do_log T W succeeded s =
     and_then (vsf_log_common T W succeeded (log_type s) (log_str s) s) (\<lambda>s.
     Inr (s\<lparr>log_type := 0\<rparr>))"

subsection \<open>What logging does to the session\<close>

text \<open>Events of logging: locks, and lines of printable characters that end in their only newline.\<close>

definition log_event :: "event \<Rightarrow> bool" where
  "log_event e \<longleftrightarrow>
     (case e of
        Sys (LockWrite fd) \<Rightarrow> True | Sys (Unlock fd) \<Rightarrow> True | Sys GetTime \<Rightarrow> True
      | Logged fd l \<Rightarrow> (\<exists>t. l = t @ [CHR 0x0A] \<and> list_all vsf_sysutil_isprint t)
      | Syslogged l \<Rightarrow> True
      | _ \<Rightarrow> False)"

lemma printable_line: "list_all vsf_sysutil_isprint (s_replace_unprintable (CHR ''?'') t)"
  by (auto simp: s_replace_unprintable_def list_all_iff vsf_sysutil_isprint_def)

lemma log_to_file_logs: "adds log_event s (vsf_log_do_log_to_file T W fd p_str s)"
proof -
  define l where "l = Logged fd (s_replace_unprintable (CHR ''?'') p_str @ [CHR 0x0A])"
  have l: "log_event l"
    using printable_line by (auto simp: l_def log_event_def)
  have lock: "log_event (Sys (LockWrite fd))" "log_event (Sys (Unlock fd))"
    by (simp_all add: log_event_def)
  consider (unlocked) "tunable_no_log_lock T"
    | (failed) "\<not> tunable_no_log_lock T" "os_ret W (trace s) (LockWrite fd) < 0"
    | (locked) "\<not> tunable_no_log_lock T" "\<not> os_ret W (trace s) (LockWrite fd) < 0"
    by blast
  then show ?thesis
  proof cases
    case unlocked
    then have "vsf_log_do_log_to_file T W fd p_str s = s\<lparr>trace := [l] @ trace s\<rparr>"
      by (simp add: vsf_log_do_log_to_file_def l_def)
    with l show ?thesis unfolding adds_def by (intro exI [of _ "[l]"]) simp
  next
    case failed
    then have "vsf_log_do_log_to_file T W fd p_str s = s\<lparr>trace := [Sys (LockWrite fd)] @ trace s\<rparr>"
      by (simp add: vsf_log_do_log_to_file_def sys_def)
    with lock show ?thesis unfolding adds_def by (intro exI [of _ "[Sys (LockWrite fd)]"]) simp
  next
    case locked
    then have "vsf_log_do_log_to_file T W fd p_str s =
        s\<lparr>trace := [Sys (Unlock fd), l, Sys (LockWrite fd)] @ trace s\<rparr>"
      by (simp add: vsf_log_do_log_to_file_def l_def sys_def)
    with l lock show ?thesis
      unfolding adds_def by (intro exI [of _ "[Sys (Unlock fd), l, Sys (LockWrite fd)]"]) simp
  qed
qed

lemma vsftpd_format_value:
  assumes "log_action what \<noteq> None"
  shows "\<exists>line. vsf_log_do_log_vsftpd_format T W succeeded what p_str s = Inr line"
proof -
  obtain action where "log_action what = Some action" using assms by blast
  then show ?thesis
    by (simp only: vsf_log_do_log_vsftpd_format_def option.case Let_def split_beta) blast
qed

lemma log_common_logs:
  assumes "log_action what \<noteq> None"
  shows "\<exists>s'. vsf_log_common T W succeeded what p_str s = Inr s' \<and> adds log_event s s'"
proof -
  define s1 where "s1 = (if xferlog_fd s \<noteq> -1 \<and> vsf_log_type_is_transfer what
    then vsf_log_do_log_to_file T W (xferlog_fd s) (vsf_log_do_log_wuftpd_format W succeeded s) s else s)"
  have s1: "adds log_event s s1" by (simp add: s1_def log_to_file_logs)
  obtain line where line: "vsf_log_do_log_vsftpd_format T W succeeded what p_str s1 = Inr line"
    using vsftpd_format_value [OF assms] by blast
  define s2 where "s2 = (if vsftpd_log_fd s1 \<noteq> -1
    then vsf_log_do_log_to_file T W (vsftpd_log_fd s1) line s1 else s1)"
  have s2: "adds log_event s s2"
    using s1 by (auto simp: s2_def intro: adds_trans log_to_file_logs)
  obtain line' where line': "vsf_log_do_log_vsftpd_format T W succeeded what p_str s2 = Inr line'"
    using vsftpd_format_value [OF assms] by blast
  have s3: "adds log_event s (note_event (Syslogged line') s2)"
    using s2 by (rule adds_trans) (simp add: adds_event log_event_def)
  have "vsf_log_common T W succeeded what p_str s =
      Inr (if tunable_syslog_enable T then note_event (Syslogged line') s2 else s2)"
    unfolding vsf_log_common_def Let_def s1_def [symmetric]
    using line line' by (simp add: s2_def split: if_splits)
  with s2 s3 show ?thesis by simp
qed

text \<open>The rules for the other components: a pending entry is of a known type.\<close>

lemma log_common_ends:
  assumes "log_action what \<noteq> None" "\<And>s'. adds log_event s s' \<Longrightarrow> Q s'"
  shows "ends (vsf_log_common T W succeeded what p_str s) E Q"
  using log_common_logs [OF assms(1), of T W succeeded p_str s] assms(2) by auto

lemma log_do_log_ends:
  assumes "log_action (log_type s) \<noteq> None" "\<And>s'. adds log_event s s' \<Longrightarrow> Q (s'\<lparr>log_type := 0\<rparr>)"
  shows "ends (vsf_log_do_log T W succeeded s) E Q"
  using log_common_logs [OF assms(1), of T W succeeded "log_str s" s] assms(2)
  by (auto simp: vsf_log_do_log_def)

end
