(* ===== verification/Ftp_Cmdio.thy ===== *)
theory Ftp_Cmdio
  imports Vsf_Logging
begin

text \<open>
  The control connection: replies and commands (\<open>ftpcmdio.c\<close>, \<open>ftpcodes.h\<close>, the write paths of
  \<open>readwrite.c\<close> and \<open>netstr.c\<close> without SSL), the answers to FEAT and OPTS (\<open>vsf_features.c\<close>,
  \<open>opts.c\<close>) and the directory messages (\<open>banner.c\<close>). Commands are matched in upper case.

  The lemmas describe a reply as one line, and a received command as text without NUL characters.
\<close>

abbreviation "FTP_DATACONN \<equiv> (150::nat)"
abbreviation "FTP_NOOPOK \<equiv> (200::nat)"
abbreviation "FTP_TYPEOK \<equiv> (200::nat)"
abbreviation "FTP_PORTOK \<equiv> (200::nat)"
abbreviation "FTP_EPRTOK \<equiv> (200::nat)"
abbreviation "FTP_UMASKOK \<equiv> (200::nat)"
abbreviation "FTP_CHMODOK \<equiv> (200::nat)"
abbreviation "FTP_EPSVALLOK \<equiv> (200::nat)"
abbreviation "FTP_STRUOK \<equiv> (200::nat)"
abbreviation "FTP_MODEOK \<equiv> (200::nat)"
abbreviation "FTP_OPTSOK \<equiv> (200::nat)"
abbreviation "FTP_ALLOOK \<equiv> (202::nat)"
abbreviation "FTP_FEAT \<equiv> (211::nat)"
abbreviation "FTP_STATOK \<equiv> (211::nat)"
abbreviation "FTP_SIZEOK \<equiv> (213::nat)"
abbreviation "FTP_MDTMOK \<equiv> (213::nat)"
abbreviation "FTP_STATFILE_OK \<equiv> (213::nat)"
abbreviation "FTP_SITEHELP \<equiv> (214::nat)"
abbreviation "FTP_HELP \<equiv> (214::nat)"
abbreviation "FTP_SYSTOK \<equiv> (215::nat)"
abbreviation "FTP_GREET \<equiv> (220::nat)"
abbreviation "FTP_GOODBYE \<equiv> (221::nat)"
abbreviation "FTP_ABOR_NOCONN \<equiv> (225::nat)"
abbreviation "FTP_TRANSFEROK \<equiv> (226::nat)"
abbreviation "FTP_ABOROK \<equiv> (226::nat)"
abbreviation "FTP_PASVOK \<equiv> (227::nat)"
abbreviation "FTP_EPSVOK \<equiv> (229::nat)"
abbreviation "FTP_LOGINOK \<equiv> (230::nat)"
abbreviation "FTP_CWDOK \<equiv> (250::nat)"
abbreviation "FTP_RMDIROK \<equiv> (250::nat)"
abbreviation "FTP_DELEOK \<equiv> (250::nat)"
abbreviation "FTP_RENAMEOK \<equiv> (250::nat)"
abbreviation "FTP_PWDOK \<equiv> (257::nat)"
abbreviation "FTP_MKDIROK \<equiv> (257::nat)"
abbreviation "FTP_GIVEPWORD \<equiv> (331::nat)"
abbreviation "FTP_RESTOK \<equiv> (350::nat)"
abbreviation "FTP_RNFROK \<equiv> (350::nat)"
abbreviation "FTP_IDLE_TIMEOUT \<equiv> (421::nat)"
abbreviation "FTP_DATA_TIMEOUT \<equiv> (421::nat)"
abbreviation "FTP_TOO_MANY_USERS \<equiv> (421::nat)"
abbreviation "FTP_IP_LIMIT \<equiv> (421::nat)"
abbreviation "FTP_IP_DENY \<equiv> (421::nat)"
abbreviation "FTP_BADSENDCONN \<equiv> (425::nat)"
abbreviation "FTP_BADSENDNET \<equiv> (426::nat)"
abbreviation "FTP_BADSENDFILE \<equiv> (451::nat)"
abbreviation "FTP_BADCMD \<equiv> (500::nat)"
abbreviation "FTP_BADOPTS \<equiv> (501::nat)"
abbreviation "FTP_COMMANDNOTIMPL \<equiv> (502::nat)"
abbreviation "FTP_NEEDUSER \<equiv> (503::nat)"
abbreviation "FTP_NEEDRNFR \<equiv> (503::nat)"
abbreviation "FTP_BADSTRU \<equiv> (504::nat)"
abbreviation "FTP_BADMODE \<equiv> (504::nat)"
abbreviation "FTP_NEEDENCRYPT \<equiv> (522::nat)"
abbreviation "FTP_EPSVBAD \<equiv> (522::nat)"
abbreviation "FTP_DATATLSBAD \<equiv> (522::nat)"
abbreviation "FTP_LOGINERR \<equiv> (530::nat)"
abbreviation "FTP_FILEFAIL \<equiv> (550::nat)"
abbreviation "FTP_NOPERM \<equiv> (550::nat)"
abbreviation "FTP_UPLOADFAIL \<equiv> (553::nat)"

abbreviation crlf :: string where
  "crlf \<equiv> [CHR 0x0D, CHR 0x0A]"

subsection \<open>Writing\<close>

definition str_netfd_write :: "os \<Rightarrow> string \<Rightarrow> vsf_session \<Rightarrow> (int \<times> vsf_session) run" where
  "str_netfd_write W p_str s =
     (if p_str = [] then bug ''zero str_len in str_netfd_write'' s
      else let r = os_write W (trace s) p_str; s = note_event (Sent p_str) s in
        Inr (if r < 0 \<or> r \<noteq> int (length p_str) then -1 else 0, s))"

text \<open>To the control connection and to the data connection. Without SSL in the build, an encrypted
  write only fails.\<close>

definition ftp_write_str_control :: "os \<Rightarrow> string \<Rightarrow> vsf_session \<Rightarrow> (int \<times> vsf_session) run" where
  "ftp_write_str_control W p_str s =
     (if control_use_ssl s then Inr (-1, s) else str_netfd_write W p_str s)"

definition ftp_write_str_data :: "os \<Rightarrow> string \<Rightarrow> vsf_session \<Rightarrow> (int \<times> vsf_session) run" where
  "ftp_write_str_data W p_str s =
     (if data_use_ssl s then Inr (-1, s)
      else if p_str = [] then bug ''zero str_len in str_netfd_write'' s
      else let (r, s) = sys W (WriteData p_str) s in
        Inr (if r < 0 \<or> r \<noteq> int (length p_str) then -1 else 0, s))"

definition vsf_cmdio_write_raw :: "tunables \<Rightarrow> os \<Rightarrow> string \<Rightarrow> vsf_session \<Rightarrow> vsf_session run" where
  "vsf_cmdio_write_raw T W p_text s =
     (let the_str = c_str p_text in
      and_then (if tunable_log_ftp_protocol T then vsf_log_line T W kVSFLogEntryFTPOutput the_str s
                else Inr s) (\<lambda>s.
      and_then (ftp_write_str_control W the_str s) (\<lambda>(r, s).
      if r \<noteq> 0 then die ''ftp_write_str'' s else Inr s)))"

text \<open>The reply line: telnet characters doubled, and newlines made NUL.\<close>

definition reply_line :: "nat \<Rightarrow> char \<Rightarrow> string \<Rightarrow> string" where
  "reply_line status sep p_str =
     fmt_lu status @ [sep]
     @ s_replace_char (CHR 0x0A) NUL (s_replace_text [CHR 0xFF] [CHR 0xFF, CHR 0xFF] p_str)
     @ crlf"

definition ftp_write_str_common ::
    "tunables \<Rightarrow> os \<Rightarrow> nat \<Rightarrow> char \<Rightarrow> string \<Rightarrow> vsf_session \<Rightarrow> vsf_session run" where
  "ftp_write_str_common T W status sep p_str s =
     and_then (if tunable_log_ftp_protocol T
               then vsf_log_line T W kVSFLogEntryFTPOutput (fmt_lu status @ [sep] @ p_str) s
               else Inr s) (\<lambda>s.
     and_then (ftp_write_str_control W (reply_line status sep p_str) s) (\<lambda>(r, s).
     if r \<noteq> 0 then die ''ftp_write'' s else Inr s))"

definition ftp_write_text_common ::
    "tunables \<Rightarrow> os \<Rightarrow> nat \<Rightarrow> string \<Rightarrow> char \<Rightarrow> vsf_session \<Rightarrow> vsf_session run" where
  "ftp_write_text_common T W status p_text sep s = ftp_write_str_common T W status sep (c_str p_text) s"

definition vsf_cmdio_write :: "tunables \<Rightarrow> os \<Rightarrow> nat \<Rightarrow> string \<Rightarrow> vsf_session \<Rightarrow> vsf_session run" where
  "vsf_cmdio_write T W status p_text s = ftp_write_text_common T W status p_text (CHR '' '') s"

definition vsf_cmdio_write_hyphen :: "tunables \<Rightarrow> os \<Rightarrow> nat \<Rightarrow> string \<Rightarrow> vsf_session \<Rightarrow> vsf_session run" where
  "vsf_cmdio_write_hyphen T W status p_text s = ftp_write_text_common T W status p_text (CHR ''-'') s"

definition vsf_cmdio_write_str :: "tunables \<Rightarrow> os \<Rightarrow> nat \<Rightarrow> string \<Rightarrow> vsf_session \<Rightarrow> vsf_session run" where
  "vsf_cmdio_write_str T W status p_str s = ftp_write_str_common T W status (CHR '' '') p_str s"

definition vsf_cmdio_write_str_hyphen ::
    "tunables \<Rightarrow> os \<Rightarrow> nat \<Rightarrow> string \<Rightarrow> vsf_session \<Rightarrow> vsf_session run" where
  "vsf_cmdio_write_str_hyphen T W status p_str s = ftp_write_str_common T W status (CHR ''-'') p_str s"

definition vsf_cmdio_write_exit ::
    "tunables \<Rightarrow> os \<Rightarrow> nat \<Rightarrow> string \<Rightarrow> int \<Rightarrow> vsf_session \<Rightarrow> 'a run" where
  "vsf_cmdio_write_exit T W status p_text exit_val s =
     and_then (vsf_cmdio_write T W status p_text s) (\<lambda>s. vsf_sysutil_exit exit_val s)"

subsection \<open>Reading\<close>

text \<open>The line as the server takes it: NUL characters made newlines, trailing carriage returns cut.\<close>

definition control_getline :: "string \<Rightarrow> string" where
  "control_getline raw =
     rev (dropWhile (\<lambda>c. c = CHR 0x0D) (rev (s_replace_char NUL (CHR 0x0A) raw)))"

definition split_command :: "string \<Rightarrow> string \<times> string" where
  "split_command l =
     (let (cmd, arg) = (if l = '' '' then (l, []) else s_split_char (CHR '' '') l)
      in (s_upper cmd, arg))"

definition VSFTP_MAX_COMMAND_LINE :: nat where
  "VSFTP_MAX_COMMAND_LINE = 4096"

text \<open>A line that does not fit the buffer with its newline is too long.\<close>

definition vsf_cmdio_get_cmd_and_arg ::
    "tunables \<Rightarrow> os \<Rightarrow> input \<Rightarrow> vsf_session \<Rightarrow> ((string \<times> string) \<times> vsf_session) run" where
  "vsf_cmdio_get_cmd_and_arg T W inp s =
     (case inp of
        IdleTimeout \<Rightarrow> vsf_cmdio_write_exit T W FTP_IDLE_TIMEOUT ''Timeout.'' 1 s
      | HangUp \<Rightarrow> vsf_sysutil_exit 1 s
      | TooLong \<Rightarrow> vsf_cmdio_write_exit T W FTP_BADCMD ''Input line too long.'' 1 s
      | Line raw \<Rightarrow>
          if VSFTP_MAX_COMMAND_LINE \<le> length raw
          then vsf_cmdio_write_exit T W FTP_BADCMD ''Input line too long.'' 1 s
          else let (cmd, arg) = split_command (control_getline raw) in
          and_then
            (if tunable_log_ftp_protocol T then
               vsf_log_line T W kVSFLogEntryFTPInput
                 (if cmd = ''PASS'' then ''PASS <password>''
                  else cmd @ (if arg \<noteq> [] then '' '' @ arg else [])) s
             else Inr s) (\<lambda>s.
          Inr ((cmd, arg), s)))"

subsection \<open>FEAT, OPTS, banners\<close>

text \<open>Several raw lines, one after another.\<close>

fun write_raws :: "tunables \<Rightarrow> os \<Rightarrow> string list \<Rightarrow> vsf_session \<Rightarrow> vsf_session run" where
  "write_raws T W [] s = Inr s"
| "write_raws T W (l # ls) s = and_then (vsf_cmdio_write_raw T W l s) (write_raws T W ls)"

definition feat_lines :: "tunables \<Rightarrow> string list" where
  "feat_lines T =
     (if tunable_ssl_enable T
      then (if tunable_sslv2 T \<or> tunable_sslv3 T then ['' AUTH SSL'' @ crlf] else [])
        @ (if tunable_tlsv1 T then ['' AUTH TLS'' @ crlf] else [])
      else [])
     @ (if tunable_port_enable T then ['' EPRT'' @ crlf] else [])
     @ (if tunable_pasv_enable T then ['' EPSV'' @ crlf] else [])
     @ ['' MDTM'' @ crlf]
     @ (if tunable_pasv_enable T then ['' PASV'' @ crlf] else [])
     @ (if tunable_ssl_enable T then ['' PBSZ'' @ crlf, '' PROT'' @ crlf] else [])
     @ ['' REST STREAM'' @ crlf, '' SIZE'' @ crlf, '' TVFS'' @ crlf, '' UTF8'' @ crlf]"

definition handle_feat :: "tunables \<Rightarrow> os \<Rightarrow> vsf_session \<Rightarrow> vsf_session run" where
  "handle_feat T W s =
     and_then (vsf_cmdio_write_hyphen T W FTP_FEAT ''Features:'' s) (\<lambda>s.
     and_then (write_raws T W (feat_lines T) s) (\<lambda>s.
     vsf_cmdio_write T W FTP_FEAT ''End'' s))"

definition handle_opts :: "tunables \<Rightarrow> os \<Rightarrow> vsf_session \<Rightarrow> vsf_session run" where
  "handle_opts T W s =
     (let s = s\<lparr>ftp_arg_str := s_upper (ftp_arg_str s)\<rparr> in
      if ftp_arg_str s = ''UTF8 ON''
      then vsf_cmdio_write T W FTP_OPTSOK ''Always in UTF8 mode.'' s
      else vsf_cmdio_write T W FTP_BADOPTS ''Option not understood.'' s)"

text \<open>The lines of a text; a final newline does not start another line.\<close>

function text_lines :: "string \<Rightarrow> nat \<Rightarrow> string list" where
  "text_lines s pos =
     (case s_getline s pos of None \<Rightarrow> [] | Some (l, pos) \<Rightarrow> l # text_lines s pos)"
  by pat_completeness auto
termination
  by (relation "measure (\<lambda>(s, pos). length s - pos)") (auto simp: s_getline_def Let_def split: if_splits)

declare text_lines.simps [simp del]

fun write_lines :: "tunables \<Rightarrow> os \<Rightarrow> nat \<Rightarrow> string list \<Rightarrow> vsf_session \<Rightarrow> vsf_session run" where
  "write_lines T W ftpcode [] s = Inr s"
| "write_lines T W ftpcode (l # ls) s =
     and_then (vsf_cmdio_write_str_hyphen T W ftpcode l s) (write_lines T W ftpcode ls)"

definition vsf_banner_write :: "tunables \<Rightarrow> os \<Rightarrow> string \<Rightarrow> nat \<Rightarrow> vsf_session \<Rightarrow> vsf_session run" where
  "vsf_banner_write T W p_str ftpcode s = write_lines T W ftpcode (text_lines p_str 0) s"

definition VSFTP_MAX_VISIT_REMEMBER :: nat where
  "VSFTP_MAX_VISIT_REMEMBER = 100"

definition VSFTP_MAX_MSGFILE_SIZE :: nat where
  "VSFTP_MAX_MSGFILE_SIZE = 4000"

text \<open>At most \<open>maxsize\<close> bytes of a file; nothing when it cannot be read.\<close>

definition str_fileread :: "os \<Rightarrow> string \<Rightarrow> nat \<Rightarrow> vsf_session \<Rightarrow> string \<times> vsf_session" where
  "str_fileread W p_filename maxsize s =
     (let (t, s) = sys_text W (ReadFile p_filename) s in
      (case t of None \<Rightarrow> [] | Some t \<Rightarrow> take maxsize t, s))"

definition vsf_banner_dir_changed :: "tunables \<Rightarrow> os \<Rightarrow> nat \<Rightarrow> vsf_session \<Rightarrow> vsf_session run" where
  "vsf_banner_dir_changed T W ftpcode s =
     (if \<not> tunable_dirmessage_enable T then Inr s
      else let (dir_str, s) = str_getcwd W s in
        if dir_str \<in> set (p_visited_dir_list s) then Inr s
        else let
            s = (if length (p_visited_dir_list s) < VSFTP_MAX_VISIT_REMEMBER
                 then s\<lparr>p_visited_dir_list := p_visited_dir_list s @ [dir_str]\<rparr> else s);
            (msg, s) = (case tunable_message_file T of
                None \<Rightarrow> ([], s) | Some f \<Rightarrow> str_fileread W f VSFTP_MAX_MSGFILE_SIZE s)
          in vsf_banner_write T W msg ftpcode s)"

end
