(* ===== verification/Ls_Filter.thy ===== *)
theory Ls_Filter
  imports Str_Spec
begin

text \<open>
  The file name filter of \<open>src/server/vsftpd-3.0.3/ls.c\<close> (wildcards and braces, with a bound on the
  iterations that all nested calls share) and the access checks of \<open>access.c\<close> that use it. The pointer
  \<open>iters\<close> is threaded through as a number. The reference is the relation \<open>glob\<close>: a filter that passes
  is a match of it; the converse holds without stars, and fails with them, because the text after a
  star is looked up once only, at its first occurrence.
\<close>

definition VSFTP_MATCHITERS_MAX :: nat where
  "VSFTP_MATCHITERS_MAX = 1000"

definition s_mid_to_end :: "string \<Rightarrow> nat \<Rightarrow> string res" where
  "s_mid_to_end s indexx =
     (if indexx > length s then Inl (Bug ''invalid indexx in str_mid_to_end'') else Inr (drop indexx s))"

text \<open>The text in front of the next special character, what follows it, and the character (or none).\<close>

definition next_token :: "string \<Rightarrow> string \<times> string \<times> char" where
  "next_token filter_remain =
     (case s_locate_chars ''*?{'' filter_remain of
        Some indexx \<Rightarrow> (take indexx filter_remain, drop (indexx + 1) filter_remain, filter_remain ! indexx)
      | None \<Rightarrow> (filter_remain, [], NUL))"

text \<open>What is left of the name after the text that has to be there; \<open>None\<close> when it is not.\<close>

definition match_needed :: "string \<Rightarrow> string \<Rightarrow> bool \<Rightarrow> string option res" where
  "match_needed name_remain needed must_match_at_current_pos =
     (if needed = [] then Inr (Some name_remain)
      else case s_locate_text needed name_remain of
          None \<Rightarrow> Inr None
        | Some indexx \<Rightarrow>
            if must_match_at_current_pos \<and> indexx > 0 then Inr None
            else bind_res (s_mid_to_end name_remain (indexx + length needed)) (\<lambda>n. Inr (Some n)))"

lemma next_token_length:
  assumes "f \<noteq> []"
  shows "length (fst (snd (next_token f))) < length f"
proof (cases "s_locate_chars ''*?{'' f")
  case None
  with assms show ?thesis by (simp add: next_token_def)
next
  case (Some i)
  then have "i < length f"
    by (auto simp: s_locate_chars_def find_Some_iff)
  with Some assms show ?thesis by (simp add: next_token_def)
qed

lemma next_token_shorter: "(needed, remain, tok) = next_token f \<Longrightarrow> f \<noteq> [] \<Longrightarrow> length remain < length f"
  using next_token_length [of f] by (metis fst_conv snd_conv)

lemma s_split_char_found:
  assumes "s_locate_text [c] s \<noteq> None"
  shows "length (fst (s_split_char c s)) + length (snd (s_split_char c s)) < length s"
proof -
  obtain i where i: "s_locate_text [c] s = Some i" using assms by blast
  then have "c_str [c] \<noteq> []" "i + length (c_str [c]) \<le> length s"
    by (simp_all add: s_locate_text_Some)
  moreover have "0 < length (c_str [c])" using calculation(1) by simp
  ultimately have "length s - length (c_str [c]) < length s" by arith
  with i show ?thesis
    by (auto simp: s_split_char_def s_split_text_hit [OF i] s_locate_text_Some)
qed

function (sequential) filter_loop :: "string \<Rightarrow> string \<Rightarrow> nat \<Rightarrow> char \<Rightarrow> bool \<Rightarrow> (bool \<times> nat) res"
  and brace_loop :: "string \<Rightarrow> string \<Rightarrow> string \<Rightarrow> string \<Rightarrow> nat \<Rightarrow> (bool \<times> nat) res" where
  "filter_loop name filter_remain iters last_token must_match_at_current_pos =
     (if filter_remain = [] \<or> \<not> iters < VSFTP_MATCHITERS_MAX
      then Inr (\<not> (length name > 0 \<and> last_token \<noteq> CHR ''*'') \<and> iters \<noteq> VSFTP_MATCHITERS_MAX, iters)
      else let (needed, remain, last_token) = next_token filter_remain; iters = iters + 1 in
        case match_needed name needed must_match_at_current_pos of
          Inl e \<Rightarrow> Inl e
        | Inr None \<Rightarrow> Inr (False, iters)
        | Inr (Some name) \<Rightarrow>
            if last_token = CHR ''?'' then
              if name = [] then Inr (False, iters)
              else filter_loop (tl name) remain iters last_token True
            else if last_token = CHR ''{'' then
              if s_locate_text ''}'' remain \<noteq> None then
                let (brace_list, rest) = s_split_char (CHR ''}'') remain;
                    (item, temp) = s_split_char (CHR '','') brace_list
                in brace_loop name item temp rest iters
              else if name = [] \<or> hd name \<noteq> CHR ''{'' then Inr (False, iters)
              else filter_loop (tl name) remain iters last_token True
            else filter_loop name remain iters last_token False)"
| "brace_loop name item temp rest iters =
     (if item = [] then Inr (False, iters)
      else case filter_loop name (item @ rest) iters NUL True of
          Inl e \<Rightarrow> Inl e
        | Inr (ret, iters) \<Rightarrow>
            if ret then Inr (True, iters)
            else let (item, temp) = s_split_char (CHR '','') temp
                 in brace_loop name item temp rest iters)"
  by pat_completeness auto
termination
proof (relation "measure (\<lambda>x. case x of Inl (n, f, i, l, m) \<Rightarrow> 2 * length f
      | Inr (n, item, temp, rest, i) \<Rightarrow> 2 * (length item + length temp + length rest) + 1)";
    clarsimp simp del: One_nat_def)
  fix needed remain brace_list rest item temp :: string
  fix f :: string and y
  assume f: "f \<noteq> []" "(needed, remain, CHR ''{'') = next_token f"
    and i: "s_locate_text ''}'' remain = Some y"
    and b: "(brace_list, rest) = s_split_char (CHR ''}'') remain"
    "(item, temp) = s_split_char (CHR '','') brace_list"
  have "length remain < length f"
    by (rule next_token_shorter [OF f(2,1)])
  moreover have "length brace_list + length rest < length remain"
    using s_split_char_found [of "CHR ''}''" remain] i b by (metis fst_conv snd_conv option.distinct(1))
  moreover have "length item + length temp \<le> length brace_list"
    using s_split_char_length [of "CHR '',''" brace_list] b by (metis fst_conv snd_conv)
  ultimately show "2 * length item + 2 * length temp + 2 * length rest + 1 < 2 * length f"
    by linarith
next
  fix item temp item' temp' :: string
  assume sp: "item \<noteq> []" "(item', temp') = s_split_char (CHR '','') temp"
  then have "0 < length item" by simp
  moreover have "length item' + length temp' \<le> length temp"
    using s_split_char_length [of "CHR '',''" temp] sp(2) by (metis fst_conv snd_conv)
  ultimately show "2 * length item' + 2 * length temp' < 2 * length item + 2 * length temp"
    by linarith
qed (blast intro: next_token_shorter)+

declare filter_loop.simps [simp del] brace_loop.simps [simp del]

definition vsf_filename_passes_filter :: "string \<Rightarrow> string \<Rightarrow> nat \<Rightarrow> (bool \<times> nat) res" where
  "vsf_filename_passes_filter p_filename_str p_filter_str iters =
     filter_loop p_filename_str p_filter_str iters NUL True"


subsection \<open>The reference relation\<close>

text \<open>The alternatives of a brace list: its parts between commas, up to the first empty one.\<close>

function brace_items :: "string \<Rightarrow> string list" where
  "brace_items s =
     (let item = takeWhile (\<lambda>c. c \<noteq> CHR '','') s
      in if item = [] then [] else item # brace_items (tl (dropWhile (\<lambda>c. c \<noteq> CHR '','') s)))"
  by pat_completeness auto
termination
proof (relation "measure length")
  fix s item :: string
  assume "item = takeWhile (\<lambda>c. c \<noteq> CHR '','') s" "item \<noteq> []"
  then have "0 < length s" by (cases s) auto
  moreover have "length (dropWhile (\<lambda>c. c \<noteq> CHR '','') s) \<le> length s"
    by (rule length_dropWhile_le)
  ultimately show "(tl (dropWhile (\<lambda>c. c \<noteq> CHR '','') s), s) \<in> measure length"
    by (simp del: length_greater_0_conv)
qed simp

declare brace_items.simps [simp del]

abbreviation special :: "char \<Rightarrow> bool" where
  "special c \<equiv> c = CHR ''*'' \<or> c = CHR ''?'' \<or> c = CHR ''{''"

inductive glob :: "string \<Rightarrow> string \<Rightarrow> bool" where
  glob_end: "glob [] []"
| glob_star: "glob f n \<Longrightarrow> glob (CHR ''*'' # f) (p @ n)"
| glob_any: "glob f n \<Longrightarrow> glob (CHR ''?'' # f) (c # n)"
| glob_brace: "CHR ''}'' \<notin> set bl \<Longrightarrow> item \<in> set (brace_items bl) \<Longrightarrow> glob (item @ rest) n \<Longrightarrow>
    glob (CHR ''{'' # bl @ CHR ''}'' # rest) n"
| glob_open: "CHR ''}'' \<notin> set f \<Longrightarrow> glob f n \<Longrightarrow> glob (CHR ''{'' # f) (CHR ''{'' # n)"
| glob_char: "\<not> special c \<Longrightarrow> glob f n \<Longrightarrow> glob (c # f) (c # n)"

inductive_simps glob_nil_iff: "glob [] n"
inductive_cases glob_consE: "glob (c # f) n"

lemma glob_any_iff: "glob (CHR ''?'' # f) n \<longleftrightarrow> (\<exists>c n'. n = c # n' \<and> glob f n')"
proof
  assume "glob (CHR ''?'' # f) n"
  then show "\<exists>c n'. n = c # n' \<and> glob f n'" by (rule glob_consE) simp_all
qed (auto intro: glob_any)

lemma glob_char_iff:
  assumes c: "\<not> special c"
  shows "glob (c # f) n \<longleftrightarrow> (\<exists>n'. n = c # n' \<and> glob f n')"
proof
  assume "glob (c # f) n"
  then show "\<exists>n'. n = c # n' \<and> glob f n'" by (rule glob_consE) (use c in simp_all)
qed (use c in \<open>auto intro: glob_char\<close>)

lemma glob_open_iff:
  assumes f: "CHR ''}'' \<notin> set f"
  shows "glob (CHR ''{'' # f) n \<longleftrightarrow> (\<exists>n'. n = CHR ''{'' # n' \<and> glob f n')"
proof
  assume "glob (CHR ''{'' # f) n"
  then show "\<exists>n'. n = CHR ''{'' # n' \<and> glob f n'"
    by (rule glob_consE) (use f in auto)
qed (use f in \<open>auto intro: glob_open\<close>)

lemma takeWhile_to: "x \<notin> set a \<Longrightarrow> takeWhile (\<lambda>c. c \<noteq> x) (a @ x # b) = a"
  by (induction a) auto

lemma glob_brace_iff:
  assumes "CHR ''}'' \<notin> set bl"
  shows "glob (CHR ''{'' # bl @ CHR ''}'' # rest) n \<longleftrightarrow>
    (\<exists>item \<in> set (brace_items bl). glob (item @ rest) n)"
proof
  assume "glob (CHR ''{'' # bl @ CHR ''}'' # rest) n"
  then show "\<exists>item \<in> set (brace_items bl). glob (item @ rest) n"
  proof (rule glob_consE)
    fix bl' item rest'
    assume eq: "bl @ CHR ''}'' # rest = bl' @ CHR ''}'' # rest'" "CHR ''}'' \<notin> set bl'"
      and "item \<in> set (brace_items bl')" "glob (item @ rest') n"
    moreover have "bl = bl'"
      using arg_cong [OF eq(1), of "takeWhile (\<lambda>c. c \<noteq> CHR ''}'')"] eq(2) assms
      by (simp add: takeWhile_to)
    ultimately show ?thesis by auto
  qed simp_all
qed (auto intro: glob_brace [OF assms])

lemma glob_text_iff:
  "\<forall>c \<in> set t. \<not> special c \<Longrightarrow> glob (t @ f) n \<longleftrightarrow> (\<exists>n'. n = t @ n' \<and> glob f n')"
  by (induction t arbitrary: n) (auto simp: glob_char_iff)


subsection \<open>One step of the matcher\<close>

lemma s_locate_chars_special:
  "s_locate_chars ''*?{'' f = Some i \<longleftrightarrow> i < length f \<and> special (f ! i) \<and> (\<forall>j<i. \<not> special (f ! j))"
  by (auto simp: s_locate_chars_def find_upt_Some c_str_def)

lemma next_token_none:
  assumes "s_locate_chars ''*?{'' f = None"
  shows "next_token f = (f, [], NUL)" "\<forall>c \<in> set f. \<not> special c"
proof -
  show "next_token f = (f, [], NUL)" by (simp add: next_token_def assms)
  show "\<forall>c \<in> set f. \<not> special c"
    using assms by (auto simp: s_locate_chars_def find_None_iff c_str_def in_set_conv_nth)
qed

lemma next_token_some:
  assumes "s_locate_chars ''*?{'' f = Some i"
  obtains needed remain tok where "next_token f = (needed, remain, tok)" "f = needed @ tok # remain"
    "\<forall>c \<in> set needed. \<not> special c" "special tok"
proof (rule that)
  show "next_token f = (take i f, drop (i + 1) f, f ! i)"
    using assms by (simp add: next_token_def)
  show "f = take i f @ f ! i # drop (i + 1) f" "special (f ! i)"
    using assms by (simp_all add: s_locate_chars_special id_take_nth_drop)
  show "\<forall>c \<in> set (take i f). \<not> special c"
    using assms by (auto simp: s_locate_chars_special in_set_conv_nth)
qed

lemma match_needed_cases:
  assumes "NUL \<notin> set t"
  obtains (no) "match_needed name t must = Inr None" "\<forall>n'. must \<longrightarrow> name \<noteq> t @ n'"
  | (yes) k n' where "match_needed name t must = Inr (Some n')" "drop k name = t @ n'" "must \<Longrightarrow> k = 0"
proof (cases "t = []")
  case True
  then show thesis by (intro yes [of name 0]) (simp_all add: match_needed_def)
next
  case False
  have t: "c_str t = t" by (rule c_str_id [OF assms])
  show thesis
  proof (cases "s_locate_text t name")
    case None
    have "name \<noteq> t @ n'" for n'
      using None [unfolded s_locate_text_None [of t name, unfolded t, OF False], rule_format, of 0]
      by (auto simp: occurs_at_def)
    with None False show thesis by (intro no) (simp_all add: match_needed_def)
  next
    case (Some i)
    then have i: "i + length t \<le> length name" "occurs_at t name i" "\<forall>j<i. \<not> occurs_at t name j"
      by (simp_all add: s_locate_text_Some t)
    show thesis
    proof (cases "must \<and> i > 0")
      case True
      moreover from True i(3) have "name \<noteq> t @ n'" for n'
        by (auto simp: occurs_at_def)
      ultimately show thesis using Some False by (intro no) (simp_all add: match_needed_def)
    next
      case nf: False
      have "drop i name = t @ drop (i + length t) name"
        using i(2) by (metis occurs_at_def append_take_drop_id drop_drop add.commute)
      with i Some False nf show thesis
        by (intro yes [of "drop (i + length t) name" i])
          (simp_all add: match_needed_def s_mid_to_end_def)
    qed
  qed
qed


subsection \<open>The matcher against the relation\<close>

text \<open>
  What a call promises: it ends without a fault, the count does not decrease and stays within the
  bound, a match is one of the relation (anywhere in the name after a star), and without stars below
  the bound every match is found.
\<close>

definition loop_ok :: "(bool \<times> nat) res \<Rightarrow> nat \<Rightarrow> string \<Rightarrow> char \<Rightarrow> string \<Rightarrow> bool" where
  "loop_ok res iters f tok name \<longleftrightarrow>
     (\<exists>r it. res = Inr (r, it) \<and> iters \<le> it \<and> it \<le> VSFTP_MATCHITERS_MAX
        \<and> (r \<longrightarrow> it < VSFTP_MATCHITERS_MAX
               \<and> (if tok = CHR ''*'' then \<exists>k. glob f (drop k name) else glob f name))
        \<and> (it < VSFTP_MATCHITERS_MAX \<and> CHR ''*'' \<notin> set f \<and> tok \<noteq> CHR ''*'' \<and> glob f name \<longrightarrow> r))"

definition brace_ok :: "(bool \<times> nat) res \<Rightarrow> nat \<Rightarrow> string list \<Rightarrow> string \<Rightarrow> string \<Rightarrow> bool" where
  "brace_ok res iters alts rest name \<longleftrightarrow>
     (\<exists>r it. res = Inr (r, it) \<and> iters \<le> it \<and> it \<le> VSFTP_MATCHITERS_MAX
        \<and> (r \<longrightarrow> it < VSFTP_MATCHITERS_MAX \<and> (\<exists>i \<in> set alts. glob (i @ rest) name))
        \<and> (it < VSFTP_MATCHITERS_MAX \<and> (\<forall>i \<in> set alts. CHR ''*'' \<notin> set (i @ rest))
             \<and> (\<exists>i \<in> set alts. glob (i @ rest) name) \<longrightarrow> r))"

lemma loop_ok_NUL:
  "loop_ok res iters f NUL name \<longleftrightarrow>
     (\<exists>r it. res = Inr (r, it) \<and> iters \<le> it \<and> it \<le> VSFTP_MATCHITERS_MAX
        \<and> (r \<longrightarrow> it < VSFTP_MATCHITERS_MAX \<and> glob f name)
        \<and> (it < VSFTP_MATCHITERS_MAX \<and> CHR ''*'' \<notin> set f \<and> glob f name \<longrightarrow> r))"
  by (simp add: loop_ok_def)

lemma loop_ok_fail:
  assumes "iters \<le> it" "it \<le> VSFTP_MATCHITERS_MAX" "tok \<noteq> CHR ''*'' \<Longrightarrow> \<not> glob f name"
  shows "loop_ok (Inr (False, it)) iters f tok name"
  using assms by (auto simp: loop_ok_def)

lemma loop_ok_conseq:
  assumes "loop_ok res iters' f' tok' name'" "iters \<le> iters'"
    and "tok' \<noteq> CHR ''*'' \<Longrightarrow> glob f' name' \<Longrightarrow> if tok = CHR ''*'' then \<exists>k. glob f (drop k name) else glob f name"
    and "\<And>k. tok' = CHR ''*'' \<Longrightarrow> glob f' (drop k name') \<Longrightarrow>
      if tok = CHR ''*'' then \<exists>k. glob f (drop k name) else glob f name"
    and "tok \<noteq> CHR ''*'' \<Longrightarrow> CHR ''*'' \<notin> set f \<Longrightarrow> glob f name \<Longrightarrow>
      tok' \<noteq> CHR ''*'' \<and> CHR ''*'' \<notin> set f' \<and> glob f' name'"
  shows "loop_ok res iters f tok name"
proof -
  obtain r it where r: "res = Inr (r, it)" "iters' \<le> it" "it \<le> VSFTP_MATCHITERS_MAX"
    and sound: "r \<Longrightarrow> it < VSFTP_MATCHITERS_MAX"
      "r \<Longrightarrow> if tok' = CHR ''*'' then \<exists>k. glob f' (drop k name') else glob f' name'"
    and compl: "it < VSFTP_MATCHITERS_MAX \<Longrightarrow> CHR ''*'' \<notin> set f' \<Longrightarrow> tok' \<noteq> CHR ''*'' \<Longrightarrow> glob f' name' \<Longrightarrow> r"
    using assms(1) unfolding loop_ok_def by blast
  have "if tok = CHR ''*'' then \<exists>k. glob f (drop k name) else glob f name" if r
    using sound(2) [OF that] assms(3,4) by (auto split: if_splits)
  moreover have r if "it < VSFTP_MATCHITERS_MAX" "CHR ''*'' \<notin> set f" "tok \<noteq> CHR ''*''" "glob f name"
    using compl [OF that(1)] assms(5) [OF that(3,2,4)] by blast
  ultimately show ?thesis
    unfolding loop_ok_def using r sound(1) assms(2) by (intro exI [of _ r] exI [of _ it]) auto
qed

lemma brace_items_step:
  "s_split_char (CHR '','') s = (item, temp) \<Longrightarrow>
    brace_items s = (if item = [] then [] else item # brace_items temp)"
  by (subst brace_items.simps) (auto simp: s_split_char_eq Let_def)

lemma s_split_char_hit:
  assumes "s_split_char c s = (a, b)" "c \<noteq> NUL" "c \<in> set s"
  shows "s = a @ c # b" "c \<notin> set a"
proof -
  have "s = takeWhile (\<lambda>x. x \<noteq> c) s @ c # tl (dropWhile (\<lambda>x. x \<noteq> c) s)"
    using assms(3) by (induction s) auto
  with assms(1) show "s = a @ c # b" by (simp add: s_split_char_eq [OF assms(2)])
  show "c \<notin> set a"
    using assms(1) by (auto simp: s_split_char_eq [OF assms(2)] dest: set_takeWhileD)
qed

lemma brace_items_set: "i \<in> set (brace_items s) \<Longrightarrow> set i \<subseteq> set s"
proof (induction s rule: brace_items.induct)
  case (1 s)
  show ?case
  proof (cases "takeWhile (\<lambda>c. c \<noteq> CHR '','') s = []")
    case True
    with "1.prems" show ?thesis by (subst (asm) brace_items.simps) simp
  next
    case False
    have tl: "set (tl (dropWhile (\<lambda>c. c \<noteq> CHR '','') s)) \<subseteq> set s"
      by (metis list.set_sel(2) list.sel(2) set_dropWhileD subsetI)
    from False "1.prems" consider "i = takeWhile (\<lambda>c. c \<noteq> CHR '','') s"
      | "i \<in> set (brace_items (tl (dropWhile (\<lambda>c. c \<noteq> CHR '','') s)))"
      by (subst (asm) brace_items.simps) (auto simp: Let_def)
    then show ?thesis
    proof cases
      case 1
      then show ?thesis by (auto dest: set_takeWhileD)
    next
      case 2
      from "1.IH" [OF refl False this] tl show ?thesis by simp
    qed
  qed
qed

lemma s_split_char_set:
  "s_split_char c s = (a, b) \<Longrightarrow> c \<noteq> NUL \<Longrightarrow> set a \<subseteq> set s \<and> set b \<subseteq> set s"
  by (auto simp: s_split_char_eq dest: set_takeWhileD list.set_sel(2) [rotated] set_dropWhileD)
    (metis list.sel(2) list.set_sel(2) set_dropWhileD)

lemma brace_loop_ok:
  assumes filter: "\<And>f name iters. length f < N \<Longrightarrow> NUL \<notin> set f \<Longrightarrow> iters \<le> VSFTP_MATCHITERS_MAX \<Longrightarrow>
      loop_ok (filter_loop name f iters NUL True) iters f NUL name"
    and "length item + length temp + length rest < N" "NUL \<notin> set item \<union> set temp \<union> set rest"
      "iters \<le> VSFTP_MATCHITERS_MAX"
  shows "brace_ok (brace_loop name item temp rest iters) iters
    (if item = [] then [] else item # brace_items temp) rest name"
  using assms(2-)
proof (induction "length item + length temp" arbitrary: item temp iters rule: less_induct)
  case less
  show ?case
  proof (cases "item = []")
    case True
    with less.prems show ?thesis by (auto simp: brace_loop.simps brace_ok_def intro: exI [of _ False])
  next
    case False
    obtain item' temp' where sp: "s_split_char (CHR '','') temp = (item', temp')"
      by (cases "s_split_char (CHR '','') temp")
    have items: "brace_items temp = (if item' = [] then [] else item' # brace_items temp')"
      by (rule brace_items_step [OF sp])
    obtain r it where r: "filter_loop name (item @ rest) iters NUL True = Inr (r, it)"
      "iters \<le> it" "it \<le> VSFTP_MATCHITERS_MAX" "r \<Longrightarrow> it < VSFTP_MATCHITERS_MAX \<and> glob (item @ rest) name"
      "it < VSFTP_MATCHITERS_MAX \<Longrightarrow> CHR ''*'' \<notin> set (item @ rest) \<Longrightarrow> glob (item @ rest) name \<Longrightarrow> r"
      using filter [of "item @ rest" iters name] less.prems by (auto simp: loop_ok_def)
    show ?thesis
    proof (cases r)
      case True
      with r False show ?thesis
        by (subst brace_loop.simps) (auto simp: brace_ok_def intro: exI [of _ True])
    next
      case nr: False
      have len: "length item' + length temp' \<le> length temp"
        using s_split_char_length [of "CHR '',''" temp] sp by simp
      have "length item' + length temp' < length item + length temp"
        using False len by (cases item) auto
      moreover have "NUL \<notin> set item' \<union> set temp' \<union> set rest"
        using s_split_char_set [OF sp] less.prems(2) by auto
      moreover have "length item' + length temp' + length rest < N"
        using len less.prems(1) by linarith
      ultimately have ih: "brace_ok (brace_loop name item' temp' rest it) it (brace_items temp) rest name"
        unfolding items using r(3) by (intro less.hyps)
      have eq: "brace_loop name item temp rest iters = brace_loop name item' temp' rest it"
        using False r(1) nr sp by (subst brace_loop.simps) simp
      from ih obtain r' it' where ih: "brace_loop name item' temp' rest it = Inr (r', it')"
        "it \<le> it'" "it' \<le> VSFTP_MATCHITERS_MAX" "r' \<Longrightarrow> it' < VSFTP_MATCHITERS_MAX"
        "r' \<Longrightarrow> \<exists>i \<in> set (brace_items temp). glob (i @ rest) name"
        "it' < VSFTP_MATCHITERS_MAX \<Longrightarrow> \<forall>i \<in> set (brace_items temp). CHR ''*'' \<notin> set (i @ rest) \<Longrightarrow>
          \<exists>i \<in> set (brace_items temp). glob (i @ rest) name \<Longrightarrow> r'"
        unfolding brace_ok_def by blast
      have found: "r'" if "it' < VSFTP_MATCHITERS_MAX"
        "\<forall>i \<in> set (item # brace_items temp). CHR ''*'' \<notin> set (i @ rest)"
        "\<exists>i \<in> set (item # brace_items temp). glob (i @ rest) name"
      proof -
        have "\<not> glob (item @ rest) name"
          using r(5) nr that(1,2) ih(2) by auto
        with that ih(6) show ?thesis by auto
      qed
      have "brace_loop name item temp rest iters = Inr (r', it')"
        unfolding eq by (rule ih(1))
      moreover have "r' \<longrightarrow> it' < VSFTP_MATCHITERS_MAX \<and> (\<exists>i \<in> set (item # brace_items temp). glob (i @ rest) name)"
        using ih(4,5) by (meson list.set_intros(2))
      moreover have "iters \<le> it'" using r(2) ih(2) by linarith
      moreover have "it' < VSFTP_MATCHITERS_MAX \<and> (\<forall>i \<in> set (item # brace_items temp). CHR ''*'' \<notin> set (i @ rest)) \<and>
          (\<exists>i \<in> set (item # brace_items temp). glob (i @ rest) name) \<longrightarrow> r'"
        using found by blast
      ultimately show ?thesis
        unfolding brace_ok_def if_not_P [OF False]
        using ih(3) by (intro exI conjI) assumption+
    qed
  qed
qed


lemma filter_loop_stop:
  "f = [] \<or> \<not> iters < VSFTP_MATCHITERS_MAX \<Longrightarrow>
    filter_loop name f iters tok must =
      Inr (\<not> (length name > 0 \<and> tok \<noteq> CHR ''*'') \<and> iters \<noteq> VSFTP_MATCHITERS_MAX, iters)"
  by (subst filter_loop.simps) simp

lemma loop_stop_ok:
  "f = [] \<or> iters = VSFTP_MATCHITERS_MAX \<Longrightarrow> iters \<le> VSFTP_MATCHITERS_MAX \<Longrightarrow>
    loop_ok (filter_loop name f iters tok must) iters f tok name"
  by (auto simp: loop_ok_def filter_loop_stop glob_nil_iff intro: exI [of _ "length name"])

lemma brace_loop_ok_glob:
  assumes "brace_ok res iters (brace_items bl) rest name" "CHR ''}'' \<notin> set bl"
  shows "loop_ok res iters (CHR ''{'' # bl @ CHR ''}'' # rest) NUL name"
proof -
  obtain r it where r: "res = Inr (r, it)" "iters \<le> it" "it \<le> VSFTP_MATCHITERS_MAX"
    "r \<Longrightarrow> it < VSFTP_MATCHITERS_MAX" "r \<Longrightarrow> \<exists>i \<in> set (brace_items bl). glob (i @ rest) name"
    "it < VSFTP_MATCHITERS_MAX \<Longrightarrow> \<forall>i \<in> set (brace_items bl). CHR ''*'' \<notin> set (i @ rest) \<Longrightarrow>
      \<exists>i \<in> set (brace_items bl). glob (i @ rest) name \<Longrightarrow> r"
    using assms(1) unfolding brace_ok_def by blast
  have "\<forall>i \<in> set (brace_items bl). CHR ''*'' \<notin> set (i @ rest)"
    if "CHR ''*'' \<notin> set (CHR ''{'' # bl @ CHR ''}'' # rest)"
    using that brace_items_set [of _ bl] by auto
  then have "it < VSFTP_MATCHITERS_MAX \<and> CHR ''*'' \<notin> set (CHR ''{'' # bl @ CHR ''}'' # rest) \<and>
      (\<exists>i \<in> set (brace_items bl). glob (i @ rest) name) \<longrightarrow> r"
    using r(6) by blast
  moreover have "r \<longrightarrow> it < VSFTP_MATCHITERS_MAX \<and> (\<exists>i \<in> set (brace_items bl). glob (i @ rest) name)"
    using r(4,5) by blast
  ultimately show ?thesis
    unfolding loop_ok_NUL glob_brace_iff [OF assms(2)]
    using r(1-3) by (intro exI conjI) assumption+
qed

text \<open>What follows the special character, for the name that is left.\<close>

abbreviation after_token :: "string \<Rightarrow> string \<Rightarrow> nat \<Rightarrow> char \<Rightarrow> (bool \<times> nat) res" where
  "after_token name remain iters tok \<equiv>
    (if tok = CHR ''?'' then
       if name = [] then Inr (False, iters)
       else filter_loop (tl name) remain iters tok True
     else if tok = CHR ''{'' then
       if s_locate_text ''}'' remain \<noteq> None then
         let (brace_list, rest) = s_split_char (CHR ''}'') remain;
             (item, temp) = s_split_char (CHR '','') brace_list
         in brace_loop name item temp rest iters
       else if name = [] \<or> hd name \<noteq> CHR ''{'' then Inr (False, iters)
       else filter_loop (tl name) remain iters tok True
     else filter_loop name remain iters tok False)"

lemma filter_loop_step:
  assumes "f \<noteq> []" "iters < VSFTP_MATCHITERS_MAX" "next_token f = (needed, remain, t)"
    and "match_needed name needed must = Inr (Some n)"
  shows "filter_loop name f iters tok must = after_token n remain (iters + 1) t"
  using assms by (subst filter_loop.simps) (simp cong: if_cong)

lemma after_token_ok:
  assumes IH: "\<And>g name iters tok must. length g \<le> length remain \<Longrightarrow> NUL \<notin> set g \<Longrightarrow>
      iters \<le> VSFTP_MATCHITERS_MAX \<Longrightarrow> (g \<noteq> [] \<longrightarrow> must = (tok \<noteq> CHR ''*'')) \<Longrightarrow>
      loop_ok (filter_loop name g iters tok must) iters g tok name"
    and "special tok" "NUL \<notin> set remain" "iters \<le> VSFTP_MATCHITERS_MAX"
  shows "loop_ok (after_token name remain iters tok) iters (tok # remain) NUL name"
proof -
  consider (any) "tok = CHR ''?''" | (brace) "tok = CHR ''{''" | (star) "tok = CHR ''*''"
    using assms(2) by blast
  then show ?thesis
  proof cases
    case any
    show ?thesis
    proof (cases name)
      case Nil
      with any assms(4) show ?thesis by (simp add: loop_ok_fail glob_any_iff)
    next
      case (Cons c n)
      have "loop_ok (filter_loop n remain iters tok True) iters remain tok n"
        by (rule IH) (use any assms in auto)
      then have "loop_ok (filter_loop n remain iters tok True) iters (tok # remain) NUL name"
        by (rule loop_ok_conseq) (auto simp: any Cons glob_any_iff)
      then show ?thesis by (simp add: any Cons)
    qed
  next
    case star
    have "loop_ok (filter_loop name remain iters tok False) iters remain tok name"
      by (rule IH) (use star assms in auto)
    then have "loop_ok (filter_loop name remain iters tok False) iters (tok # remain) NUL name"
    proof (rule loop_ok_conseq)
      fix k
      assume "glob remain (drop k name)"
      then have "glob (CHR ''*'' # remain) (take k name @ drop k name)" by (rule glob_star)
      then show "if NUL = CHR ''*'' then \<exists>k. glob (tok # remain) (drop k name) else glob (tok # remain) name"
        by (simp add: star)
    qed (simp_all add: star)
    then show ?thesis by (simp add: star)
  next
    case brace
    show ?thesis
    proof (cases "s_locate_text ''}'' remain")
      case None
      then have no: "CHR ''}'' \<notin> set remain"
        by (auto simp: s_locate_text_None c_str_char occurs_at_char in_set_conv_nth)
      show ?thesis
      proof (cases "name = [] \<or> hd name \<noteq> CHR ''{''")
        case True
        with brace None assms(4) show ?thesis
          by (auto simp: glob_open_iff [OF no] intro!: loop_ok_fail)
      next
        case False
        then obtain n where n: "name = CHR ''{'' # n" by (cases name) auto
        have "loop_ok (filter_loop n remain iters tok True) iters remain tok n"
          by (rule IH) (use brace assms in auto)
        then have "loop_ok (filter_loop n remain iters tok True) iters (tok # remain) NUL name"
          by (rule loop_ok_conseq) (auto simp: brace n glob_open_iff [OF no])
        then show ?thesis by (simp add: brace n None)
      qed
    next
      case (Some i)
      obtain bl rest where bl: "s_split_char (CHR ''}'') remain = (bl, rest)"
        by (cases "s_split_char (CHR ''}'') remain")
      obtain item temp where it: "s_split_char (CHR '','') bl = (item, temp)"
        by (cases "s_split_char (CHR '','') bl")
      from Some have "CHR ''}'' \<in> set remain"
        by (auto simp: s_locate_text_Some c_str_char occurs_at_char in_set_conv_nth)
      then have remain: "remain = bl @ CHR ''}'' # rest" "CHR ''}'' \<notin> set bl"
        using s_split_char_hit [OF bl] by simp_all
      have sub: "set item \<subseteq> set bl" "set temp \<subseteq> set bl" "length item + length temp \<le> length bl"
        using s_split_char_set [OF it] s_split_char_length [of "CHR '',''" bl] it by auto
      have items: "brace_items bl = (if item = [] then [] else item # brace_items temp)"
        by (rule brace_items_step [OF it])
      have "brace_ok (brace_loop name item temp rest iters) iters (brace_items bl) rest name"
        unfolding items
      proof (rule brace_loop_ok [where N = "length remain"])
        show "length item + length temp + length rest < length remain"
          using sub(3) remain(1) by simp
        show "NUL \<notin> set item \<union> set temp \<union> set rest"
          using sub remain(1) assms(3) by auto
      qed (use IH assms(4) in auto)
      then have "loop_ok (brace_loop name item temp rest iters) iters (tok # remain) NUL name"
        unfolding brace remain(1) by (rule brace_loop_ok_glob [OF _ remain(2)])
      then show ?thesis by (simp add: brace Some bl it)
    qed
  qed
qed


lemma filter_loop_ok:
  "NUL \<notin> set f \<Longrightarrow> iters \<le> VSFTP_MATCHITERS_MAX \<Longrightarrow> (f \<noteq> [] \<longrightarrow> must = (tok \<noteq> CHR ''*'')) \<Longrightarrow>
    loop_ok (filter_loop name f iters tok must) iters f tok name"
proof (induction f arbitrary: name iters tok must rule: length_induct)
  case (1 f)
  show ?case
  proof (cases "f = [] \<or> iters = VSFTP_MATCHITERS_MAX")
    case True
    with "1.prems"(2) show ?thesis by (simp add: loop_stop_ok)
  next
    case False
    with "1.prems" have f: "f \<noteq> []" "iters < VSFTP_MATCHITERS_MAX" "must = (tok \<noteq> CHR ''*'')"
      by auto
    note unfold = filter_loop.simps [of name f iters tok must]
    show ?thesis
    proof (cases "s_locate_chars ''*?{'' f")
      case None
      note nt = next_token_none [OF None]
      have glob: "glob f n \<longleftrightarrow> n = f" for n
        using glob_text_iff [OF nt(2), of "[]" n] by (simp add: glob_nil_iff)
      from "1.prems"(1) show ?thesis
      proof (cases rule: match_needed_cases [where name = name and must = must])
        case no
        with f nt(1) show ?thesis
          by (subst unfold) (auto simp: glob intro!: loop_ok_fail)
      next
        case (yes k n')
        with f nt(1) have "filter_loop name f iters tok must = filter_loop n' [] (iters + 1) NUL False"
          by (subst unfold) simp
        also have "loop_ok \<dots> (iters + 1) [] NUL n'"
          using f by (intro loop_stop_ok) auto
        finally show ?thesis
          by (rule loop_ok_conseq) (use yes(2,3) f(3) in \<open>auto simp: glob glob_nil_iff\<close>)
      qed
    next
      case (Some i)
      then obtain needed remain t where nt: "next_token f = (needed, remain, t)"
        and eq: "f = needed @ t # remain" and plain: "\<forall>c \<in> set needed. \<not> special c" and t: "special t"
        by (rule next_token_some)
      have glob: "glob f n \<longleftrightarrow> (\<exists>n'. n = needed @ n' \<and> glob (t # remain) n')" for n
        unfolding eq by (rule glob_text_iff [OF plain])
      have nul: "NUL \<notin> set needed" "NUL \<notin> set remain"
        using "1.prems"(1) by (auto simp: eq)
      from nul(1) show ?thesis
      proof (cases rule: match_needed_cases [where name = name and must = must])
        case no
        with f nt show ?thesis
          by (subst unfold) (auto simp: glob intro!: loop_ok_fail)
      next
        case (yes k n')
        define res where "res = filter_loop name f iters tok must"
        have "loop_ok res (iters + 1) (t # remain) NUL n'"
          unfolding res_def filter_loop_step [OF f(1,2) nt yes(1)]
          by (rule after_token_ok, rule "1.IH" [rule_format]) (use f in \<open>auto simp: eq nul t\<close>)
        then show ?thesis
          unfolding res_def [symmetric]
        proof (rule loop_ok_conseq)
          assume "glob (t # remain) n'"
          with yes(2) have "glob f (drop k name)" by (auto simp: glob)
          with yes(3) f(3) show "if tok = CHR ''*'' then \<exists>k. glob f (drop k name) else glob f name"
            by auto
        next
          assume "tok \<noteq> CHR ''*''" "CHR ''*'' \<notin> set f" "glob f name"
          with yes(2,3) f(3) eq glob
          show "NUL \<noteq> CHR ''*'' \<and> CHR ''*'' \<notin> set (t # remain) \<and> glob (t # remain) n'"
            by auto
        qed simp_all
      qed
    qed
  qed
qed


subsection \<open>Access checks\<close>

text \<open>A tunable is null (\<open>None\<close>) or a text.\<close>

definition access_match :: "string option \<Rightarrow> string \<Rightarrow> bool res" where
  "access_match tunable p_filename_str =
     (case tunable of None \<Rightarrow> Inr True
      | Some t \<Rightarrow>
          bind_res (vsf_filename_passes_filter p_filename_str (c_str t) 0) (\<lambda>(ret, iters).
            if ret then Inr False
            else Inr (s_locate_text (c_str t) p_filename_str = None)))"

definition vsf_access_check_file :: "string option \<Rightarrow> string \<Rightarrow> bool res" where
  "vsf_access_check_file tunable_deny_file p_filename_str = access_match tunable_deny_file p_filename_str"

definition vsf_access_check_file_visible :: "string option \<Rightarrow> string \<Rightarrow> bool res" where
  "vsf_access_check_file_visible tunable_hide_file p_filename_str =
     access_match tunable_hide_file p_filename_str"

lemma nul_c_str: "NUL \<notin> set (c_str t)"
  by (auto simp: c_str_def dest: set_takeWhileD)

lemma filter_ok:
  "NUL \<notin> set f \<Longrightarrow> loop_ok (vsf_filename_passes_filter name f 0) 0 f NUL name"
  unfolding vsf_filename_passes_filter_def
  by (rule filter_loop_ok) (simp_all add: VSFTP_MATCHITERS_MAX_def)

subsection \<open>Claims\<close>

text \<open>
  C27. For a filter without NUL characters the matcher ends without a fault within its bound of
  iterations, and a name passes only if it is a match of the filter in the sense of the relation.
\<close>

theorem filter_sound:
  assumes "NUL \<notin> set filter_str"
  shows "\<exists>r it. vsf_filename_passes_filter name filter_str 0 = Inr (r, it) \<and>
    it \<le> VSFTP_MATCHITERS_MAX \<and> (r \<longrightarrow> glob filter_str name)"
  using filter_ok [OF assms, of name] unfolding loop_ok_NUL by blast

theorem filter_sound_witness:
  "vsf_filename_passes_filter ''a.mp3'' ''{*.mp3,*.mov}'' 0 = Inr (True, 3) \<and>
    (3::nat) \<le> VSFTP_MATCHITERS_MAX \<and> glob ''{*.mp3,*.mov}'' ''a.mp3''"
proof -
  have run: "vsf_filename_passes_filter ''a.mp3'' ''{*.mp3,*.mov}'' 0 = Inr (True, 3)"
    by code_simp
  have "NUL \<notin> set ''{*.mp3,*.mov}''" by simp
  from filter_sound [OF this, of "''a.mp3''"] run show ?thesis by auto
qed

text \<open>
  C28. Without stars, and when the bound of iterations is not reached, the matcher decides the
  relation: question marks, brace lists and plain text are handled completely.
\<close>

theorem filter_complete_without_stars:
  assumes "NUL \<notin> set filter_str" "CHR ''*'' \<notin> set filter_str"
    and "vsf_filename_passes_filter name filter_str 0 = Inr (r, it)" "it < VSFTP_MATCHITERS_MAX"
  shows "r \<longleftrightarrow> glob filter_str name"
  using filter_ok [OF assms(1), of name] assms(2-) unfolding loop_ok_NUL by auto

theorem filter_complete_without_stars_witness:
  "True \<longleftrightarrow> glob ''a{b,c?}d'' ''acxd''"
proof (rule filter_complete_without_stars)
  show "vsf_filename_passes_filter ''acxd'' ''a{b,c?}d'' 0 = Inr (True, 4)"
    by code_simp
qed (simp_all add: VSFTP_MATCHITERS_MAX_def)

text \<open>
  With stars it does not: the text after a star is only tried at its first occurrence, so that a
  name with the denied extension twice is a match that the matcher misses, and a file that
  the setting is meant to deny is allowed.
\<close>

theorem deny_file_bypassed:
  "glob ''*.mp3'' ''x.mp3.mp3'' \<and>
   vsf_access_check_file (Some ''*.mp3'') ''x.mp3'' = Inr False \<and>
   vsf_access_check_file (Some ''*.mp3'') ''x.mp3.mp3'' = Inr True"
proof -
  have "glob (CHR ''*'' # ''.mp3'') (''x.mp3'' @ ''.mp3'')"
    by (rule glob_star, (rule glob_char, simp)+, rule glob_end)
  then have "glob ''*.mp3'' ''x.mp3.mp3''" by simp
  moreover have "vsf_access_check_file (Some ''*.mp3'') ''x.mp3'' = Inr False" by code_simp
  moreover have "vsf_access_check_file (Some ''*.mp3'') ''x.mp3.mp3'' = Inr True" by code_simp
  ultimately show ?thesis by simp
qed

text \<open>
  C29. A file that the access check allows neither contains the text of the setting nor, for a setting
  without stars whose match stays below the bound, matches it as a filter.
\<close>

theorem allowed_file_unmatched:
  assumes "vsf_access_check_file (Some t) name = Inr True"
  shows "s_locate_text (c_str t) name = None \<and>
    (\<exists>it. vsf_filename_passes_filter name (c_str t) 0 = Inr (False, it) \<and>
      (it < VSFTP_MATCHITERS_MAX \<and> CHR ''*'' \<notin> set (c_str t) \<longrightarrow> \<not> glob (c_str t) name))"
proof -
  from assms obtain it where it: "vsf_filename_passes_filter name (c_str t) 0 = Inr (False, it)"
    and no: "s_locate_text (c_str t) name = None"
    by (auto simp: vsf_access_check_file_def access_match_def split: if_splits)
  moreover have "\<not> glob (c_str t) name"
    if "it < VSFTP_MATCHITERS_MAX \<and> CHR ''*'' \<notin> set (c_str t)"
    using filter_ok [OF nul_c_str, of name t] that unfolding loop_ok_NUL it by auto
  ultimately show ?thesis by blast
qed

theorem allowed_file_unmatched_witness:
  "vsf_access_check_file (Some ''secret'') ''a.txt'' = Inr True \<and>
    s_locate_text (c_str ''secret'') ''a.txt'' = None \<and> \<not> glob (c_str ''secret'') ''a.txt''"
proof -
  have run: "vsf_access_check_file (Some ''secret'') ''a.txt'' = Inr True" by code_simp
  have "vsf_filename_passes_filter ''a.txt'' (c_str ''secret'') 0 = Inr (False, 1)" by code_simp
  moreover have "CHR ''*'' \<notin> set (c_str ''secret'')" by code_simp
  ultimately show ?thesis
    using allowed_file_unmatched [OF run] run by (simp add: VSFTP_MATCHITERS_MAX_def)
qed

end
