(* ===== verification/Vsf_Policy.thy ===== *)
theory Vsf_Policy
  imports Ftp_Cmdio Ls_Filter
begin

text \<open>
  What a session after login may do, over the events of its history: which settings and which check
  of the file name stand in front of every call that touches a file, where the server may connect
  to, what a log line consists of. And how a session may end: by an exit, or by a failure of the
  operating system or the network, but by none of the server's internal consistency checks and by no
  access outside a buffer.

  The rules here run the output operations symbolically: a goal about the session after a write
  becomes one about the session with some harmless events more.
\<close>

definition access_ok :: "tunables \<Rightarrow> string \<Rightarrow> bool" where
  "access_ok T p \<longleftrightarrow> vsf_access_check_file (tunable_deny_file T) p = Inr True"

definition may_write :: "tunables \<Rightarrow> bool \<Rightarrow> bool \<Rightarrow> bool" where
  "may_write T an anon_enable \<longleftrightarrow> tunable_write_enable T \<and> (anon_enable \<or> \<not> an)"

text \<open>
  \<open>an\<close>: the login is anonymous; \<open>ra\<close>: the address of the client. An anonymous client without the
  right to other writes never opens an existing file for writing.
\<close>

fun permitted :: "tunables \<Rightarrow> bool \<Rightarrow> sockaddr \<Rightarrow> event \<Rightarrow> bool" where
  "permitted T an ra (Sys c) =
     (case c of
        Chdir p \<Rightarrow> access_ok T p
      | OpenRead p \<Rightarrow> access_ok T p \<and> tunable_download_enable T
      | Create p \<Rightarrow> access_ok T p \<and> may_write T an (tunable_anon_other_write_enable T)
      | CreateExclusive p \<Rightarrow> access_ok T p
          \<and> may_write T an (tunable_anon_upload_enable T \<or> tunable_anon_other_write_enable T)
      | Mkdir p m \<Rightarrow> access_ok T p \<and> may_write T an (tunable_anon_mkdir_write_enable T)
      | Rmdir p \<Rightarrow> access_ok T p \<and> may_write T an (tunable_anon_other_write_enable T)
      | Unlink p \<Rightarrow> access_ok T p
          \<and> may_write T an (tunable_anon_other_write_enable T
               \<or> tunable_delete_failed_uploads T \<and> tunable_anon_upload_enable T)
      | Rename p q \<Rightarrow> access_ok T p \<and> access_ok T q
          \<and> may_write T an (tunable_anon_other_write_enable T)
      | Chmod p m \<Rightarrow> access_ok T p \<and> may_write T an False \<and> tunable_chmod_enable T
      | SetModtime p t \<Rightarrow> access_ok T p \<and> tunable_mdtm_write T
          \<and> may_write T an (tunable_anon_other_write_enable T)
      | ConnectTo fd a \<Rightarrow> \<not> vsf_sysutil_is_port_reserved (sa_port a)
          \<and> (tunable_port_promiscuous T \<or> vsf_sysutil_sockaddr_addr_equal ra a)
      | _ \<Rightarrow> True)"
| "permitted T an ra (Logged fd l) = (\<exists>t. l = t @ [CHR 0x0A] \<and> list_all vsf_sysutil_isprint t)"
| "permitted T an ra _ = True"

text \<open>The failures of the outside world after which \<open>die\<close> is called.\<close>

definition env_dies :: "string list" where
  "env_dies = [''ftp_write'', ''ftp_write_str'', ''fstat'', ''lseek'', ''ftruncate'', ''fchmod'', ''fchown'',
     ''close'', ''closedir'', ''fcntl'', ''socket'', ''listen'', ''no passed fd'', ''vsf_sysutil_bind'',
     ''vsf_sysutil_bind / listen'', ''invalid pasv_address'', ''Illegal port request'',
     ''invalid inode size in vsf_sysutil_statbuf_get_size'', ''invalid fd in cmd_process_chown'',
     ''can only support ipv4 and ipv6 currently'', ''excessive strlist'',
     ''calc_num_send: negative file offset or send count'']"

definition expected_fault :: "fault \<Rightarrow> bool" where
  "expected_fault f \<longleftrightarrow> (case f of Exit n \<Rightarrow> True | Die m \<Rightarrow> m \<in> set env_dies | _ \<Rightarrow> False)"

text \<open>The decoder runs in the session, and a fault of it ends the session.\<close>

definition analysis_fault :: "fault \<Rightarrow> bool" where
  "analysis_fault f \<longleftrightarrow> (case f of InAnalysis e \<Rightarrow> True | _ \<Rightarrow> False)"

text \<open>And it may go on for ever, but not before billions of system calls: STOU with every name taken.\<close>

definition fails :: "tunables \<Rightarrow> bool \<Rightarrow> sockaddr \<Rightarrow> fault \<Rightarrow> event list \<Rightarrow> bool" where
  "fails T an ra f tr \<longleftrightarrow>
     (expected_fault f \<or> analysis_fault f \<or> f = Diverges \<and> 2 ^ 32 - 1 \<le> length tr) \<and>
     list_all (permitted T an ra) tr"

text \<open>The output of the server itself: log lines and bytes to the client.\<close>

definition io_event :: "event \<Rightarrow> bool" where
  "io_event e \<longleftrightarrow> log_event e \<or> (\<exists>t. e = Sent t)"

lemma io_permitted: "io_event e \<Longrightarrow> permitted T an ra e"
  by (cases e) (auto simp: io_event_def log_event_def split: syscall.splits)

lemma io_list_permitted [simp]: "list_all io_event es \<Longrightarrow> list_all (permitted T an ra) es"
  by (auto simp: list_all_iff io_permitted)

lemma log_io: "list_all log_event es \<Longrightarrow> list_all io_event es"
  by (auto simp: list_all_iff io_event_def)

lemma fails_die [simp]:
  "fails T an ra (Die m) tr \<longleftrightarrow> m \<in> set env_dies \<and> list_all (permitted T an ra) tr"
  "fails T an ra (Exit n) tr \<longleftrightarrow> list_all (permitted T an ra) tr"
  "\<not> fails T an ra (Bug m) tr" "\<not> fails T an ra OutOfBounds tr" "\<not> fails T an ra NullDeref tr"
  "\<not> fails T an ra Uninit tr"
  "fails T an ra (InAnalysis e) tr \<longleftrightarrow> list_all (permitted T an ra) tr"
  "fails T an ra Diverges tr \<longleftrightarrow> 2 ^ 32 - 1 \<le> length tr \<and> list_all (permitted T an ra) tr"
  by (simp_all add: fails_def expected_fault_def analysis_fault_def)

lemma permitted_oops [simp]: "permitted T an ra (oops_reply m)"
  by (simp add: oops_reply_def)

lemma die_ends:
  "m \<in> set env_dies \<Longrightarrow> list_all (permitted T an ra) (trace s) \<Longrightarrow> ends (die m s) (fails T an ra) Q"
  by (simp add: die_def)

lemma exit_ends:
  "list_all (permitted T an ra) (trace s) \<Longrightarrow> ends (vsf_sysutil_exit n s) (fails T an ra) Q"
  by (simp add: vsf_sysutil_exit_def)

subsection \<open>Output\<close>

lemma adds_io:
  assumes "adds log_event s s'" "\<And>es. list_all io_event es \<Longrightarrow> Q (s\<lparr>trace := es @ trace s\<rparr>)"
  shows "Q s'"
  using assms by (auto simp: adds_def dest: log_io)

lemma log_ends:
  assumes "log_action what \<noteq> None" "\<And>es. list_all io_event es \<Longrightarrow> Q (s\<lparr>trace := es @ trace s\<rparr>)"
  shows "ends (vsf_log_common T W succeeded what p_str s) E Q"
  by (rule log_common_ends [OF assms(1)]) (erule adds_io, rule assms(2))

lemma do_log_ends:
  assumes "log_action (log_type s) \<noteq> None"
    "\<And>es. list_all io_event es \<Longrightarrow> Q (s\<lparr>trace := es @ trace s, log_type := 0\<rparr>)"
  shows "ends (vsf_log_do_log T W succeeded s) E Q"
  by (rule log_do_log_ends [OF assms(1)]) (erule adds_io, simp add: assms(2))

lemma opt_log_ends:
  assumes "log_action what \<noteq> None" "\<And>es. list_all io_event es \<Longrightarrow> Q (s\<lparr>trace := es @ trace s\<rparr>)"
  shows "ends (if b then vsf_log_line T W what p_str s else Inr s) E Q"
proof -
  have "ends (vsf_log_common T W True what p_str s) E Q"
    by (rule log_ends [OF assms(1)]) (rule assms(2))
  with assms(2) [of "[]"] show ?thesis by (simp add: vsf_log_line_def)
qed

lemma FTPOutput_action [simp]: "log_action kVSFLogEntryFTPOutput \<noteq> None" "log_action kVSFLogEntryFTPInput \<noteq> None"
  by (simp_all add: log_action_def log_entry_defs)

lemma write_control_ends:
  assumes "t \<noteq> []"
    "\<And>r es. list_all io_event es \<Longrightarrow> Q (r, s\<lparr>trace := es @ trace s\<rparr>)"
  shows "ends (ftp_write_str_control W t s) E Q"
  using assms(2) [of "[]" "-1"] assms(2) [of "[Sent t]"] assms(1)
  by (simp add: ftp_write_str_control_def str_netfd_write_def Let_def io_event_def)

lemma write_checked_ends:
  assumes "t \<noteq> []" "m \<in> set env_dies" "list_all (permitted T an ra) (trace s)"
    "\<And>es. list_all (permitted T an ra) es \<Longrightarrow> Q (s\<lparr>trace := es @ trace s\<rparr>)"
  shows "ends (and_then (if b then vsf_log_line T W kVSFLogEntryFTPOutput l s else Inr s) (\<lambda>s.
    and_then (ftp_write_str_control W t s) (\<lambda>(r, s). if r \<noteq> 0 then die m s else Inr s)))
    (fails T an ra) Q"
proof -
  have "ends (ftp_write_str_control W t (s\<lparr>trace := es @ trace s\<rparr>)) (fails T an ra)
      (\<lambda>(r, s). ends (if r \<noteq> 0 then die m s else Inr s) (fails T an ra) Q)"
    if es: "list_all io_event es" for es
  proof (rule write_control_ends [OF assms(1)])
    fix r fs
    assume fs: "list_all io_event fs"
    from es fs have "list_all (permitted T an ra) (fs @ es)" by simp
    from assms(4) [OF this] es fs
    show "case (r, (s\<lparr>trace := es @ trace s\<rparr>)\<lparr>trace := fs @ trace (s\<lparr>trace := es @ trace s\<rparr>)\<rparr>) of
        (r, s) \<Rightarrow> ends (if r \<noteq> 0 then die m s else Inr s) (fails T an ra) Q"
      using assms(2,3) by (simp add: die_def)
  qed
  then show ?thesis
    unfolding ends_and_then ends_prod by (intro opt_log_ends) simp_all
qed

lemma write_common_ends:
  assumes "list_all (permitted T an ra) (trace s)"
    "\<And>es. list_all (permitted T an ra) es \<Longrightarrow> Q (s\<lparr>trace := es @ trace s\<rparr>)"
  shows "ends (ftp_write_str_common T W status sep p_str s) (fails T an ra) Q"
  unfolding ftp_write_str_common_def
  by (rule write_checked_ends) (use assms in \<open>simp_all add: reply_line_def env_dies_def\<close>)

lemma write_raw_ends:
  assumes "c_str p_text \<noteq> []" "list_all (permitted T an ra) (trace s)"
    "\<And>es. list_all (permitted T an ra) es \<Longrightarrow> Q (s\<lparr>trace := es @ trace s\<rparr>)"
  shows "ends (vsf_cmdio_write_raw T W p_text s) (fails T an ra) Q"
  unfolding vsf_cmdio_write_raw_def Let_def
  by (rule write_checked_ends) (use assms in \<open>simp_all add: env_dies_def\<close>)

lemmas write_defs = vsf_cmdio_write_def vsf_cmdio_write_hyphen_def vsf_cmdio_write_str_def
  vsf_cmdio_write_str_hyphen_def ftp_write_text_common_def

lemma write_ends:
  assumes "list_all (permitted T an ra) (trace s)"
    "\<And>es. list_all (permitted T an ra) es \<Longrightarrow> Q (s\<lparr>trace := es @ trace s\<rparr>)"
  shows "ends (vsf_cmdio_write T W status p_text s) (fails T an ra) Q"
    "ends (vsf_cmdio_write_hyphen T W status p_text s) (fails T an ra) Q"
    "ends (vsf_cmdio_write_str T W status p_text s) (fails T an ra) Q"
    "ends (vsf_cmdio_write_str_hyphen T W status p_text s) (fails T an ra) Q"
  unfolding write_defs by (rule write_common_ends [OF assms(1)], erule assms(2))+

lemma write_exit_ends:
  assumes "list_all (permitted T an ra) (trace s)"
  shows "ends (vsf_cmdio_write_exit T W status p_text n s) (fails T an ra) Q"
  unfolding vsf_cmdio_write_exit_def ends_and_then
  by (rule write_ends [OF assms]) (use assms in \<open>simp add: exit_ends\<close>)

lemma write_raws_ends:
  assumes "\<forall>l \<in> set ls. c_str l \<noteq> []" "list_all (permitted T an ra) (trace s)"
    "\<And>es. list_all (permitted T an ra) es \<Longrightarrow> Q (s\<lparr>trace := es @ trace s\<rparr>)"
  shows "ends (write_raws T W ls s) (fails T an ra) Q"
  using assms
proof (induction ls arbitrary: s)
  case Nil
  then show ?case using Nil(3) [of "[]"] by simp
next
  case (Cons l ls)
  have "ends (vsf_cmdio_write_raw T W l s) (fails T an ra) (\<lambda>s. ends (write_raws T W ls s) (fails T an ra) Q)"
  proof (rule write_raw_ends)
    fix es
    assume es: "list_all (permitted T an ra) es"
    show "ends (write_raws T W ls (s\<lparr>trace := es @ trace s\<rparr>)) (fails T an ra) Q"
    proof (rule Cons.IH)
      fix fs
      assume "list_all (permitted T an ra) fs"
      with es Cons.prems(3) [of "fs @ es"]
      show "Q (s\<lparr>trace := es @ trace s\<rparr>\<lparr>trace := fs @ trace (s\<lparr>trace := es @ trace s\<rparr>)\<rparr>)" by simp
    qed (use Cons.prems es in simp_all)
  qed (use Cons.prems in simp_all)
  then show ?case by (simp add: ends_and_then)
qed

lemma write_lines_ends:
  assumes "list_all (permitted T an ra) (trace s)"
    "\<And>es. list_all (permitted T an ra) es \<Longrightarrow> Q (s\<lparr>trace := es @ trace s\<rparr>)"
  shows "ends (write_lines T W ftpcode ls s) (fails T an ra) Q"
  using assms
proof (induction ls arbitrary: s)
  case Nil
  then show ?case using Nil(2) [of "[]"] by simp
next
  case (Cons l ls)
  have "ends (vsf_cmdio_write_str_hyphen T W ftpcode l s) (fails T an ra)
      (\<lambda>s. ends (write_lines T W ftpcode ls s) (fails T an ra) Q)"
  proof (rule write_ends(4) [OF Cons.prems(1)])
    fix es
    assume es: "list_all (permitted T an ra) es"
    show "ends (write_lines T W ftpcode ls (s\<lparr>trace := es @ trace s\<rparr>)) (fails T an ra) Q"
    proof (rule Cons.IH)
      fix fs
      assume "list_all (permitted T an ra) fs"
      with es Cons.prems(2) [of "fs @ es"]
      show "Q (s\<lparr>trace := es @ trace s\<rparr>\<lparr>trace := fs @ trace (s\<lparr>trace := es @ trace s\<rparr>)\<rparr>)" by simp
    qed (use Cons.prems es in simp_all)
  qed
  then show ?case by (simp add: ends_and_then)
qed

end
