(* ===== verification/Vsf_Privops.thy ===== *)
theory Vsf_Privops
  imports Vsf_Policy
begin

text \<open>
  The operations that need privileges, \<open>src/server/vsftpd-3.0.3/privops.c\<close>: the listening socket of a
  passive transfer, the socket of an active one, and the change of the owner of an upload. In the one
  process model (\<open>oneprocess.c\<close>) the session's own process runs them; in the two process model
  (\<open>twoprocess.c\<close>, \<open>postprivparent.c\<close>) it sends a request to its privileged parent and reads the
  reply. A request and its reply are one step here; \<open>proc\<close> says in which process an operation runs,
  and so which listening socket it means. Socket options are left out.

  The lemmas give the port range of passive transfers, and the rules for the session policy.
\<close>

datatype proc = ChildProc | ParentProc

definition listen_fd :: "proc \<Rightarrow> vsf_session \<Rightarrow> int" where
  "listen_fd who s = (case who of ChildProc \<Rightarrow> pasv_listen_fd s | ParentProc \<Rightarrow> parent_listen_fd s)"

definition set_listen_fd :: "proc \<Rightarrow> int \<Rightarrow> vsf_session \<Rightarrow> vsf_session" where
  "set_listen_fd who fd s =
     (case who of ChildProc \<Rightarrow> s\<lparr>pasv_listen_fd := fd\<rparr> | ParentProc \<Rightarrow> s\<lparr>parent_listen_fd := fd\<rparr>)"

definition EADDRINUSE :: nat where "EADDRINUSE = 98"
definition EACCES :: nat where "EACCES = 13"

definition vsf_sysutil_get_ipsock :: "os \<Rightarrow> sockaddr \<Rightarrow> vsf_session \<Rightarrow> (int \<times> vsf_session) run" where
  "vsf_sysutil_get_ipsock W p_addr s =
     (case p_addr of Sa_Other \<Rightarrow> bug ''bad family'' s
      | _ \<Rightarrow> let (fd, s) = sys W (Socket (vsf_sysutil_sockaddr_is_ipv6 p_addr)) s in
          if fd < 0 then die ''socket'' s else Inr (fd, s))"

subsection \<open>Active transfers\<close>

text \<open>Binding, and once more after a pause when the address is in use.\<close>

fun bind_tries :: "os \<Rightarrow> int \<Rightarrow> sockaddr \<Rightarrow> nat \<Rightarrow> vsf_session \<Rightarrow> vsf_session run" where
  "bind_tries W fd a 0 s = Inr s"
| "bind_tries W fd a (Suc k) s =
     (let (r, s) = sys W (BindTo fd a) s in
      if r = 0 then Inr s
      else if os_errno W (trace s) \<noteq> EADDRINUSE \<or> k = 0 then die ''vsf_sysutil_bind'' s
      else let (_, s) = sys W RandomByte s; (_, s) = sys W Sleep s in bind_tries W fd a k s)"

definition connect_data :: "os \<Rightarrow> int \<Rightarrow> nat \<Rightarrow> bool \<Rightarrow> vsf_session \<Rightarrow> (int \<times> vsf_session) run" where
  "connect_data W fd remote_port use_port_sockaddr s =
     and_then
       (if use_port_sockaddr
        then (case p_port_sockaddr s of None \<Rightarrow> Inl (NullDeref, trace s) | Some a \<Rightarrow> Inr a)
        else lifted s (vsf_sysutil_sockaddr_set_port (p_remote_addr s) remote_port)) (\<lambda>a.
     let (r, s) = sys W (ConnectTo fd a) s in
     if r < 0 then and_then (sys_or_die W ''close'' (CloseFd fd) s) (\<lambda>s. Inr (-1, s))
     else Inr (fd, s))"

definition vsf_privop_get_ftp_port_sock ::
    "tunables \<Rightarrow> os \<Rightarrow> proc \<Rightarrow> nat \<Rightarrow> bool \<Rightarrow> vsf_session \<Rightarrow> (int \<times> vsf_session) run" where
  "vsf_privop_get_ftp_port_sock T W who remote_port use_port_sockaddr s =
     and_then (vsf_sysutil_get_ipsock W (p_local_addr s) s) (\<lambda>(fd, s).
     if listen_fd who s \<noteq> -1 then die ''listed fd is active?'' s
     else if vsf_sysutil_is_port_reserved remote_port then die ''Illegal port request'' s
     else
       let port = (if tunable_connect_from_port_20 T then tunable_ftp_data_port T mod 2 ^ 16 else 0) in
       and_then (lifted s (bind_res (vsf_sysutil_sockaddr_clone (p_local_addr s)) (\<lambda>a.
         vsf_sysutil_sockaddr_set_port a port))) (\<lambda>a.
       and_then (bind_tries W fd a 2 s) (\<lambda>s.
       connect_data W fd remote_port use_port_sockaddr s)))"

subsection \<open>Passive transfers\<close>

definition vsf_privop_pasv_cleanup :: "os \<Rightarrow> proc \<Rightarrow> vsf_session \<Rightarrow> vsf_session run" where
  "vsf_privop_pasv_cleanup W who s =
     (if listen_fd who s \<noteq> -1
      then and_then (sys_or_die W ''close'' (CloseFd (listen_fd who s)) s) (\<lambda>s.
           Inr (set_listen_fd who (-1) s))
      else Inr s)"

definition vsf_privop_pasv_active :: "proc \<Rightarrow> vsf_session \<Rightarrow> bool" where
  "vsf_privop_pasv_active who s \<longleftrightarrow> listen_fd who s \<noteq> -1"

definition vsf_sysutil_get_random_byte :: "os \<Rightarrow> vsf_session \<Rightarrow> nat \<times> vsf_session" where
  "vsf_sysutil_get_random_byte W s = (let (r, s) = sys W RandomByte s in (nat (r mod 256), s))"

text \<open>The random port: the product of doubles is exact, the conversion cuts.\<close>

definition scaled_port :: "nat \<Rightarrow> nat \<Rightarrow> nat \<Rightarrow> nat" where
  "scaled_port min_port max_port the_port = min_port + the_port * (max_port - min_port + 1) div 65536"

definition port_range :: "tunables \<Rightarrow> nat \<times> nat" where
  "port_range T =
     (let min_port = 1024; max_port = 65535;
          min_port = (if tunable_pasv_min_port T > min_port \<and> tunable_pasv_min_port T \<le> max_port
                      then tunable_pasv_min_port T else min_port);
          max_port = (if tunable_pasv_max_port T \<ge> min_port \<and> tunable_pasv_max_port T < max_port
                      then tunable_pasv_max_port T else max_port)
      in (min_port, max_port))"

text \<open>One attempt: the port when the socket listens, \<open>None\<close> when the port is taken.\<close>

definition bind_listen :: "os \<Rightarrow> proc \<Rightarrow> int \<Rightarrow> nat \<Rightarrow> vsf_session \<Rightarrow> (nat option \<times> vsf_session) run" where
  "bind_listen W who fd the_port s =
     and_then (lifted s (bind_res (vsf_sysutil_sockaddr_clone (p_local_addr s)) (\<lambda>a.
       vsf_sysutil_sockaddr_set_port a the_port))) (\<lambda>a.
     let (r, s) = sys W (BindTo fd a) s in
     and_then
       (if r < 0 then Inr (r, s)
        else let (r, s) = sys W (ListenOn fd) s in
          if r < 0 \<and> os_errno W (trace s) \<noteq> EADDRINUSE then die ''listen'' s else Inr (r, s)) (\<lambda>(r, s).
     if r \<ge> 0 then Inr (Some the_port, s)
     else if os_errno W (trace s) = EADDRINUSE \<or> os_errno W (trace s) = EACCES
       then and_then (sys_or_die W ''close'' (CloseFd fd) s) (\<lambda>s. Inr (None, set_listen_fd who (-1) s))
     else die ''vsf_sysutil_bind / listen'' s))"

definition pasv_attempt ::
    "tunables \<Rightarrow> os \<Rightarrow> proc \<Rightarrow> vsf_session \<Rightarrow> (nat option \<times> vsf_session) run" where
  "pasv_attempt T W who s =
     (let (hi, s) = vsf_sysutil_get_random_byte W s;
          (lo, s) = vsf_sysutil_get_random_byte W s;
          the_port = scaled_port (fst (port_range T)) (snd (port_range T)) (hi * 256 + lo);
          (fd, s) = sys W (Socket (vsf_sysutil_sockaddr_is_ipv6 (p_local_addr s))) s
      in if fd < 0 then die ''socket'' s
         else bind_listen W who fd the_port (set_listen_fd who fd s))"

fun pasv_tries :: "tunables \<Rightarrow> os \<Rightarrow> proc \<Rightarrow> nat \<Rightarrow> vsf_session \<Rightarrow> (nat \<times> vsf_session) run" where
  "pasv_tries T W who 0 s = die ''vsf_sysutil_bind'' s"
| "pasv_tries T W who (Suc k) s =
     and_then (pasv_attempt T W who s) (\<lambda>(port, s).
       case port of Some the_port \<Rightarrow> Inr (the_port, s) | None \<Rightarrow> pasv_tries T W who k s)"

definition vsf_privop_pasv_listen ::
    "tunables \<Rightarrow> os \<Rightarrow> proc \<Rightarrow> vsf_session \<Rightarrow> (nat \<times> vsf_session) run" where
  "vsf_privop_pasv_listen T W who s =
     (if listen_fd who s \<noteq> -1 then die ''listed fd already active'' s
      else pasv_tries T W who 9 s)"

definition vsf_privop_accept_pasv ::
    "tunables \<Rightarrow> os \<Rightarrow> proc \<Rightarrow> vsf_session \<Rightarrow> (int \<times> vsf_session) run" where
  "vsf_privop_accept_pasv T W who s =
     (if listen_fd who s = -1 then die ''listed fd not active'' s
      else let (remote_fd, s) = sys W (AcceptFrom (listen_fd who s)) s; peer = os_peer W (trace s) in
        if remote_fd < 0 then Inr (-1, s)
        else if peer = Sa_Other then die ''can only support ipv4 and ipv6 currently'' s
        else if \<not> tunable_pasv_promiscuous T \<and> \<not> vsf_sysutil_sockaddr_addr_equal (p_remote_addr s) peer
          then and_then (sys_or_die W ''close'' (CloseFd remote_fd) s) (\<lambda>s. Inr (-2, s))
        else Inr (remote_fd, s))"

subsection \<open>The owner of an upload\<close>

definition vsf_privop_do_file_chown :: "os \<Rightarrow> int \<Rightarrow> vsf_session \<Rightarrow> vsf_session run" where
  "vsf_privop_do_file_chown W fd s =
     and_then (vsf_sysutil_fstat W fd s) (\<lambda>(st, s).
     if st_uid st = anon_upload_chown_uid s then Inr s
     else if anon_upload_chown_uid s = -1 \<or> \<not> st_regfile st \<or>
       (st_uid st \<noteq> anon_ftp_uid s \<and> st_uid st \<noteq> guest_user_uid s)
       then die ''invalid fd in cmd_process_chown'' s
     else sys_or_die W ''fchown'' (Fchown fd (anon_upload_chown_uid s)) s)"

subsection \<open>One process\<close>

definition vsf_one_process_get_priv_data_sock ::
    "tunables \<Rightarrow> os \<Rightarrow> vsf_session \<Rightarrow> (int \<times> vsf_session) run" where
  "vsf_one_process_get_priv_data_sock T W s =
     (case p_port_sockaddr s of None \<Rightarrow> Inl (NullDeref, trace s)
      | Some a \<Rightarrow>
          and_then (lifted s (vsf_sysutil_sockaddr_get_port a)) (\<lambda>port.
          vsf_privop_get_ftp_port_sock T W ChildProc port True s))"

definition vsf_one_process_pasv_cleanup :: "os \<Rightarrow> vsf_session \<Rightarrow> vsf_session run" where
  "vsf_one_process_pasv_cleanup W s = vsf_privop_pasv_cleanup W ChildProc s"

definition vsf_one_process_pasv_active :: "vsf_session \<Rightarrow> bool" where
  "vsf_one_process_pasv_active s = vsf_privop_pasv_active ChildProc s"

definition vsf_one_process_listen :: "tunables \<Rightarrow> os \<Rightarrow> vsf_session \<Rightarrow> (nat \<times> vsf_session) run" where
  "vsf_one_process_listen T W s = vsf_privop_pasv_listen T W ChildProc s"

definition vsf_one_process_get_pasv_fd :: "tunables \<Rightarrow> os \<Rightarrow> vsf_session \<Rightarrow> (int \<times> vsf_session) run" where
  "vsf_one_process_get_pasv_fd T W s = vsf_privop_accept_pasv T W ChildProc s"

definition vsf_one_process_chown_upload :: "os \<Rightarrow> int \<Rightarrow> vsf_session \<Rightarrow> vsf_session run" where
  "vsf_one_process_chown_upload W fd s = vsf_privop_do_file_chown W fd s"

subsection \<open>Two processes\<close>

datatype priv_request = PRIV_SOCK_CHOWN int | PRIV_SOCK_GET_DATA_SOCK nat | PRIV_SOCK_PASV_CLEANUP
  | PRIV_SOCK_PASV_ACTIVE | PRIV_SOCK_PASV_LISTEN | PRIV_SOCK_PASV_ACCEPT

datatype priv_message = RESULT_OK | RESULT_BAD | SendInt int | SendFd int

definition cmd_process_chown :: "os \<Rightarrow> int \<Rightarrow> vsf_session \<Rightarrow> (priv_message list \<times> vsf_session) run" where
  "cmd_process_chown W fd s =
     (let (the_fd, s) = sys W ReceiveFd s in
      if the_fd < 0 then die ''no passed fd'' s
      else and_then (vsf_privop_do_file_chown W the_fd s) (\<lambda>s.
           and_then (sys_or_die W ''close'' (CloseFd the_fd) s) (\<lambda>s. Inr ([RESULT_OK], s))))"

definition cmd_process_get_data_sock ::
    "tunables \<Rightarrow> os \<Rightarrow> nat \<Rightarrow> vsf_session \<Rightarrow> (priv_message list \<times> vsf_session) run" where
  "cmd_process_get_data_sock T W port s =
     and_then (vsf_privop_get_ftp_port_sock T W ParentProc port False s) (\<lambda>(sock_fd, s).
     if sock_fd = -1 then Inr ([RESULT_BAD], s)
     else and_then (sys_or_die W ''close'' (CloseFd sock_fd) s) (\<lambda>s.
          Inr ([RESULT_OK, SendFd sock_fd], s)))"

definition cmd_process_pasv_cleanup :: "os \<Rightarrow> vsf_session \<Rightarrow> (priv_message list \<times> vsf_session) run" where
  "cmd_process_pasv_cleanup W s =
     and_then (vsf_privop_pasv_cleanup W ParentProc s) (\<lambda>s. Inr ([RESULT_OK], s))"

definition cmd_process_pasv_active :: "vsf_session \<Rightarrow> (priv_message list \<times> vsf_session) run" where
  "cmd_process_pasv_active s = Inr ([SendInt (if vsf_privop_pasv_active ParentProc s then 1 else 0)], s)"

definition cmd_process_pasv_listen ::
    "tunables \<Rightarrow> os \<Rightarrow> vsf_session \<Rightarrow> (priv_message list \<times> vsf_session) run" where
  "cmd_process_pasv_listen T W s =
     and_then (vsf_privop_pasv_listen T W ParentProc s) (\<lambda>(port, s). Inr ([SendInt (int port)], s))"

definition cmd_process_pasv_accept ::
    "tunables \<Rightarrow> os \<Rightarrow> vsf_session \<Rightarrow> (priv_message list \<times> vsf_session) run" where
  "cmd_process_pasv_accept T W s =
     and_then (vsf_privop_accept_pasv T W ParentProc s) (\<lambda>(fd, s).
     if fd < 0 then Inr ([RESULT_BAD, SendInt fd], s)
     else and_then (sys_or_die W ''close'' (CloseFd fd) s) (\<lambda>s. Inr ([RESULT_OK, SendFd fd], s)))"

definition process_post_login_req ::
    "tunables \<Rightarrow> os \<Rightarrow> priv_request \<Rightarrow> vsf_session \<Rightarrow> (priv_message list \<times> vsf_session) run" where
  "process_post_login_req T W cmd s =
     (case cmd of
        PRIV_SOCK_CHOWN fd \<Rightarrow>
          if tunable_chown_uploads T then cmd_process_chown W fd s
          else die ''bad request in process_post_login_req'' s
      | PRIV_SOCK_GET_DATA_SOCK port \<Rightarrow> cmd_process_get_data_sock T W port s
      | PRIV_SOCK_PASV_CLEANUP \<Rightarrow> cmd_process_pasv_cleanup W s
      | PRIV_SOCK_PASV_ACTIVE \<Rightarrow> cmd_process_pasv_active s
      | PRIV_SOCK_PASV_LISTEN \<Rightarrow> cmd_process_pasv_listen T W s
      | PRIV_SOCK_PASV_ACCEPT \<Rightarrow> cmd_process_pasv_accept T W s)"

text \<open>The child's side. A message of the wrong kind is not read as another.\<close>

definition priv_sock_recv_fd :: "os \<Rightarrow> vsf_session \<Rightarrow> (int \<times> vsf_session) run" where
  "priv_sock_recv_fd W s =
     (let (fd, s) = sys W ReceiveFd s in if fd < 0 then die ''no passed fd'' s else Inr (fd, s))"

definition vsf_two_process_get_priv_data_sock ::
    "tunables \<Rightarrow> os \<Rightarrow> vsf_session \<Rightarrow> (int \<times> vsf_session) run" where
  "vsf_two_process_get_priv_data_sock T W s =
     (case p_port_sockaddr s of None \<Rightarrow> Inl (NullDeref, trace s)
      | Some a \<Rightarrow>
          and_then (lifted s (vsf_sysutil_sockaddr_get_port a)) (\<lambda>port.
          and_then (process_post_login_req T W (PRIV_SOCK_GET_DATA_SOCK port) s) (\<lambda>(msgs, s).
          case msgs of
            [RESULT_BAD] \<Rightarrow> Inr (-1, s)
          | [RESULT_OK, SendFd fd] \<Rightarrow> priv_sock_recv_fd W s
          | _ \<Rightarrow> die ''could not get privileged socket'' s)))"

definition vsf_two_process_pasv_cleanup :: "tunables \<Rightarrow> os \<Rightarrow> vsf_session \<Rightarrow> vsf_session run" where
  "vsf_two_process_pasv_cleanup T W s =
     and_then (process_post_login_req T W PRIV_SOCK_PASV_CLEANUP s) (\<lambda>(msgs, s).
     if msgs \<noteq> [RESULT_OK] then die ''could not clean up socket'' s else Inr s)"

definition vsf_two_process_pasv_active :: "tunables \<Rightarrow> os \<Rightarrow> vsf_session \<Rightarrow> (bool \<times> vsf_session) run" where
  "vsf_two_process_pasv_active T W s =
     and_then (process_post_login_req T W PRIV_SOCK_PASV_ACTIVE s) (\<lambda>(msgs, s).
     case msgs of [SendInt n] \<Rightarrow> Inr (n \<noteq> 0, s) | _ \<Rightarrow> die ''priv_sock_get_int'' s)"

definition vsf_two_process_listen :: "tunables \<Rightarrow> os \<Rightarrow> vsf_session \<Rightarrow> (nat \<times> vsf_session) run" where
  "vsf_two_process_listen T W s =
     and_then (process_post_login_req T W PRIV_SOCK_PASV_LISTEN s) (\<lambda>(msgs, s).
     case msgs of [SendInt n] \<Rightarrow> Inr (nat (n mod 2 ^ 16), s) | _ \<Rightarrow> die ''priv_sock_get_int'' s)"

definition vsf_two_process_get_pasv_fd :: "tunables \<Rightarrow> os \<Rightarrow> vsf_session \<Rightarrow> (int \<times> vsf_session) run" where
  "vsf_two_process_get_pasv_fd T W s =
     and_then (process_post_login_req T W PRIV_SOCK_PASV_ACCEPT s) (\<lambda>(msgs, s).
     case msgs of
       [RESULT_BAD, SendInt n] \<Rightarrow> Inr (n, s)
     | [RESULT_OK, SendFd fd] \<Rightarrow> priv_sock_recv_fd W s
     | _ \<Rightarrow> die ''could not accept on listening socket'' s)"

definition vsf_two_process_chown_upload :: "tunables \<Rightarrow> os \<Rightarrow> int \<Rightarrow> vsf_session \<Rightarrow> vsf_session run" where
  "vsf_two_process_chown_upload T W fd s =
     and_then (process_post_login_req T W (PRIV_SOCK_CHOWN fd) s) (\<lambda>(msgs, s).
     if msgs \<noteq> [RESULT_OK] then die ''unexpected failure in vsf_two_process_chown_upload'' s else Inr s)"


subsection \<open>Rules\<close>

lemma scaled_port_range:
  assumes "r < 65536" "lo \<le> hi"
  shows "lo \<le> scaled_port lo hi r \<and> scaled_port lo hi r \<le> hi"
proof -
  have "r * (hi - lo + 1) \<le> 65535 * (hi - lo + 1)"
    using assms(1) by (intro mult_le_mono1) simp
  also have "\<dots> < 65536 * (hi - lo + 1)" by simp
  finally have "r * (hi - lo + 1) div 65536 < hi - lo + 1"
    by (simp add: div_less_iff_less_mult mult.commute)
  with assms(2) show ?thesis by (simp add: scaled_port_def)
qed

lemma port_range_ok: "1024 \<le> fst (port_range T) \<and> fst (port_range T) \<le> snd (port_range T) \<and> snd (port_range T) \<le> 65535"
  by (simp add: port_range_def Let_def)

lemma set_listen_fd_simps [simp]:
  "listen_fd who (set_listen_fd who fd s) = fd"
  "trace (set_listen_fd who fd s) = trace s"
  "p_local_addr (set_listen_fd who fd s) = p_local_addr s"
  "set_listen_fd who fd' (set_listen_fd who fd s) = set_listen_fd who fd' s"
  "set_listen_fd who fd (s\<lparr>trace := tr\<rparr>) = set_listen_fd who fd s\<lparr>trace := tr\<rparr>"
  "listen_fd who (s\<lparr>trace := tr\<rparr>) = listen_fd who s"
  by (cases who; simp add: listen_fd_def set_listen_fd_def)+

lemma set_listen_fd_same: "listen_fd who s = fd \<Longrightarrow> set_listen_fd who fd s = s"
  by (cases who) (auto simp: listen_fd_def set_listen_fd_def)

abbreviation ok_trace :: "tunables \<Rightarrow> bool \<Rightarrow> sockaddr \<Rightarrow> vsf_session \<Rightarrow> bool" where
  "ok_trace T an ra s \<equiv> list_all (permitted T an ra) (trace s)"

lemma sys_or_die_ends:
  assumes "m \<in> set env_dies" "permitted T an ra (Sys c)" "ok_trace T an ra s"
    "Q (s\<lparr>trace := Sys c # trace s\<rparr>)"
  shows "ends (sys_or_die W m c s) (fails T an ra) Q"
  using assms by (simp add: sys_or_die_def sys_def die_def)

lemma in_env_dies [simp]:
  "''close'' \<in> set env_dies" "''socket'' \<in> set env_dies" "''listen'' \<in> set env_dies"
  "''vsf_sysutil_bind'' \<in> set env_dies" "''vsf_sysutil_bind / listen'' \<in> set env_dies"
  "''no passed fd'' \<in> set env_dies" "''fstat'' \<in> set env_dies" "''fchown'' \<in> set env_dies"
  "''Illegal port request'' \<in> set env_dies" "''invalid fd in cmd_process_chown'' \<in> set env_dies"
  "''can only support ipv4 and ipv6 currently'' \<in> set env_dies" "''lseek'' \<in> set env_dies"
  "''ftruncate'' \<in> set env_dies" "''fchmod'' \<in> set env_dies" "''closedir'' \<in> set env_dies"
  "''fcntl'' \<in> set env_dies" "''invalid pasv_address'' \<in> set env_dies"
  "''invalid inode size in vsf_sysutil_statbuf_get_size'' \<in> set env_dies"
  "''excessive strlist'' \<in> set env_dies"
  "''calc_num_send: negative file offset or send count'' \<in> set env_dies"
  by (simp_all add: env_dies_def)

lemma privop_pasv_cleanup_ends:
  assumes "ok_trace T an ra s"
    "\<And>es. list_all (permitted T an ra) es \<Longrightarrow> Q (set_listen_fd who (-1) (s\<lparr>trace := es @ trace s\<rparr>))"
  shows "ends (vsf_privop_pasv_cleanup W who s) (fails T an ra) Q"
proof (cases "listen_fd who s = -1")
  case True
  with assms(2) [of "[]"] show ?thesis
    by (simp add: vsf_privop_pasv_cleanup_def set_listen_fd_same)
next
  case False
  with assms(2) [of "[Sys (CloseFd (listen_fd who s))]"] show ?thesis
    by (auto simp: vsf_privop_pasv_cleanup_def ends_and_then intro!: sys_or_die_ends assms(1))
qed

lemma clone_port_ends:
  assumes "ok_trace T an ra s" "\<And>a. Q a"
  shows "ends (lifted s (bind_res (vsf_sysutil_sockaddr_clone la) (\<lambda>a.
    vsf_sysutil_sockaddr_set_port a p))) (fails T an ra) Q"
  using assms
  by (cases la) (auto simp: ends_lifted vsf_sysutil_sockaddr_clone_def vsf_sysutil_sockaddr_set_port_def)

lemma bind_tries_ends:
  assumes "ok_trace T an ra s"
    "\<And>es. list_all (permitted T an ra) es \<Longrightarrow> Q (s\<lparr>trace := es @ trace s\<rparr>)"
  shows "ends (bind_tries W fd a k s) (fails T an ra) Q"
  using assms
proof (induction k arbitrary: s)
  case 0
  then show ?case using 0(2) [of "[]"] by simp
next
  case (Suc k)
  define b where "b = Sys (BindTo fd a)"
  have b: "permitted T an ra b" by (simp add: b_def)
  have again: "ends (bind_tries W fd a k (s\<lparr>trace := Sys Sleep # Sys RandomByte # b # trace s\<rparr>)) (fails T an ra) Q"
  proof (rule Suc.IH)
    fix es
    assume "list_all (permitted T an ra) es"
    with b Suc.prems(2) [of "es @ [Sys Sleep, Sys RandomByte, b]"]
    show "Q (s\<lparr>trace := Sys Sleep # Sys RandomByte # b # trace s\<rparr>
      \<lparr>trace := es @ trace (s\<lparr>trace := Sys Sleep # Sys RandomByte # b # trace s\<rparr>)\<rparr>)" by simp
  qed (use b Suc.prems(1) in simp)
  from b Suc.prems(2) [of "[b]"] have "Q (s\<lparr>trace := b # trace s\<rparr>)" by simp
  with again Suc.prems(1) show ?case
    by (simp add: sys_def b_def die_def ends_if)
qed

text \<open>A passive listener: the port is in the range, and the socket is there.\<close>

lemma bind_listen_ends:
  assumes ok: "ok_trace T an ra s"
    and some: "\<And>es. list_all (permitted T an ra) es \<Longrightarrow> Q (Some port, s\<lparr>trace := es @ trace s\<rparr>)"
    and none: "\<And>es. list_all (permitted T an ra) es \<Longrightarrow>
      Q (None, set_listen_fd who (-1) (s\<lparr>trace := es @ trace s\<rparr>))"
  shows "ends (bind_listen W who fd port s) (fails T an ra) Q"
  unfolding bind_listen_def ends_and_then
proof (rule clone_port_ends [OF ok])
  fix a
  from some [of "[Sys (ListenOn fd), Sys (BindTo fd a)]"] none [of "[Sys (CloseFd fd), Sys (BindTo fd a)]"]
    none [of "[Sys (CloseFd fd), Sys (ListenOn fd), Sys (BindTo fd a)]"] ok
  show "ends (let (r, s) = sys W (BindTo fd a) s in
     and_then
       (if r < 0 then Inr (r, s)
        else let (r, s) = sys W (ListenOn fd) s in
          if r < 0 \<and> os_errno W (trace s) \<noteq> EADDRINUSE then die ''listen'' s else Inr (r, s)) (\<lambda>(r, s).
     if r \<ge> 0 then Inr (Some port, s)
     else if os_errno W (trace s) = EADDRINUSE \<or> os_errno W (trace s) = EACCES
       then and_then (sys_or_die W ''close'' (CloseFd fd) s) (\<lambda>s. Inr (None, set_listen_fd who (-1) s))
     else die ''vsf_sysutil_bind / listen'' s)) (fails T an ra) Q"
    by (simp add: sys_def die_def sys_or_die_def Let_def)
qed

lemma pasv_attempt_ends:
  assumes ok: "ok_trace T an ra s"
    and some: "\<And>es fd port. list_all (permitted T an ra) es \<Longrightarrow> 0 \<le> fd \<Longrightarrow>
      fst (port_range T) \<le> port \<Longrightarrow> port \<le> snd (port_range T) \<Longrightarrow>
      Q (Some port, set_listen_fd who fd (s\<lparr>trace := es @ trace s\<rparr>))"
    and none: "\<And>es. list_all (permitted T an ra) es \<Longrightarrow>
      Q (None, set_listen_fd who (-1) (s\<lparr>trace := es @ trace s\<rparr>))"
  shows "ends (pasv_attempt T W who s) (fails T an ra) Q"
proof -
  define b1 where "b1 = nat (os_ret W (trace s) RandomByte mod 256)"
  define b2 where "b2 = nat (os_ret W (Sys RandomByte # trace s) RandomByte mod 256)"
  define port where "port = scaled_port (fst (port_range T)) (snd (port_range T)) (b1 * 256 + b2)"
  define c where "c = Socket (vsf_sysutil_sockaddr_is_ipv6 (p_local_addr s))"
  define es where "es = [Sys c, Sys RandomByte, Sys RandomByte]"
  define fd where "fd = os_ret W (Sys RandomByte # Sys RandomByte # trace s) c"
  have es: "list_all (permitted T an ra) es" by (simp add: es_def c_def)
  have "b1 < 256" "b2 < 256" by (simp_all add: b1_def b2_def nat_less_iff)
  then have "b1 * 256 + b2 < 65536" by simp
  then have port: "fst (port_range T) \<le> port" "port \<le> snd (port_range T)"
    using scaled_port_range port_range_ok [of T] by (auto simp: port_def)
  have eq: "pasv_attempt T W who s =
      (if fd < 0 then die ''socket'' (s\<lparr>trace := es @ trace s\<rparr>)
       else bind_listen W who fd port (set_listen_fd who fd (s\<lparr>trace := es @ trace s\<rparr>)))"
    by (simp add: pasv_attempt_def vsf_sysutil_get_random_byte_def sys_def b1_def b2_def port_def
        fd_def c_def es_def)
  have "ends (bind_listen W who fd port (set_listen_fd who fd (s\<lparr>trace := es @ trace s\<rparr>))) (fails T an ra) Q"
    if "0 \<le> fd"
  proof (rule bind_listen_ends)
    fix fs
    assume fs: "list_all (permitted T an ra) fs"
    from es fs have "list_all (permitted T an ra) (fs @ es)" by simp
    from some [OF this that port] none [OF this]
    show "Q (Some port, set_listen_fd who fd (s\<lparr>trace := es @ trace s\<rparr>)
        \<lparr>trace := fs @ trace (set_listen_fd who fd (s\<lparr>trace := es @ trace s\<rparr>))\<rparr>)"
      and "Q (None, set_listen_fd who (- 1) (set_listen_fd who fd (s\<lparr>trace := es @ trace s\<rparr>)
        \<lparr>trace := fs @ trace (set_listen_fd who fd (s\<lparr>trace := es @ trace s\<rparr>))\<rparr>))"
      by simp_all
  qed (use ok es in simp)
  then show ?thesis
    using ok es by (simp add: eq die_def)
qed

lemma pasv_tries_ends:
  assumes "ok_trace T an ra s"
    and "\<And>es fd port. list_all (permitted T an ra) es \<Longrightarrow> 0 \<le> fd \<Longrightarrow>
      fst (port_range T) \<le> port \<Longrightarrow> port \<le> snd (port_range T) \<Longrightarrow>
      Q (port, set_listen_fd who fd (s\<lparr>trace := es @ trace s\<rparr>))"
  shows "ends (pasv_tries T W who k s) (fails T an ra) Q"
  using assms
proof (induction k arbitrary: s)
  case 0
  then show ?case by (simp add: die_def)
next
  case (Suc k)
  have "ends (pasv_tries T W who k (set_listen_fd who (- 1) (s\<lparr>trace := es @ trace s\<rparr>))) (fails T an ra) Q"
    if es: "list_all (permitted T an ra) es" for es
  proof (rule Suc.IH)
    fix fs fd port
    assume "list_all (permitted T an ra) fs" "0 \<le> (fd::int)" "fst (port_range T) \<le> port"
      "port \<le> snd (port_range T)"
    with es Suc.prems(2) [of "fs @ es" fd port]
    show "Q (port, set_listen_fd who fd (set_listen_fd who (- 1) (s\<lparr>trace := es @ trace s\<rparr>)
        \<lparr>trace := fs @ trace (set_listen_fd who (- 1) (s\<lparr>trace := es @ trace s\<rparr>))\<rparr>))"
      by simp
  qed (use es Suc.prems(1) in simp)
  with Suc.prems show ?case
    by (simp add: ends_and_then) (rule pasv_attempt_ends, auto)
qed

lemma privop_pasv_listen_ends:
  assumes "ok_trace T an ra s" "listen_fd who s = -1"
    and "\<And>es fd port. list_all (permitted T an ra) es \<Longrightarrow> 0 \<le> fd \<Longrightarrow>
      fst (port_range T) \<le> port \<Longrightarrow> port \<le> snd (port_range T) \<Longrightarrow>
      Q (port, set_listen_fd who fd (s\<lparr>trace := es @ trace s\<rparr>))"
  shows "ends (vsf_privop_pasv_listen T W who s) (fails T an ra) Q"
  using assms by (simp add: vsf_privop_pasv_listen_def pasv_tries_ends)

lemma privop_accept_ends:
  assumes "ok_trace T an ra s" "listen_fd who s \<noteq> -1"
    and "\<And>es fd. list_all (permitted T an ra) es \<Longrightarrow> fd = -2 \<or> fd = -1 \<or> 0 \<le> fd \<Longrightarrow>
      Q (fd, s\<lparr>trace := es @ trace s\<rparr>)"
  shows "ends (vsf_privop_accept_pasv T W who s) (fails T an ra) Q"
  using assms(1,2) assms(3) [of "[Sys (AcceptFrom (listen_fd who s))]"]
    assms(3) [of "[Sys (CloseFd fd), Sys (AcceptFrom (listen_fd who s))]" for fd]
  by (simp add: vsf_privop_accept_pasv_def sys_def die_def sys_or_die_def Let_def)

lemma get_ipsock_ends:
  assumes "ok_trace T an ra s" "la \<noteq> Sa_Other"
    and "\<And>es fd. list_all (permitted T an ra) es \<Longrightarrow> 0 \<le> fd \<Longrightarrow> Q (fd, s\<lparr>trace := es @ trace s\<rparr>)"
  shows "ends (vsf_sysutil_get_ipsock W la s) (fails T an ra) Q"
  using assms(1,2) assms(3) [of "[Sys (Socket (vsf_sysutil_sockaddr_is_ipv6 la))]"]
  by (cases la) (simp_all add: vsf_sysutil_get_ipsock_def sys_def die_def)

text \<open>The target of a connection: the address of PORT, or the client's with the port.\<close>

definition connect_target :: "tunables \<Rightarrow> sockaddr \<Rightarrow> bool \<Rightarrow> nat \<Rightarrow> vsf_session \<Rightarrow> bool" where
  "connect_target T ra use_port remote_port s \<longleftrightarrow>
     (if use_port
      then \<exists>a. p_port_sockaddr s = Some a \<and> sa_port a = remote_port
        \<and> (tunable_port_promiscuous T \<or> vsf_sysutil_sockaddr_addr_equal ra a)
      else p_remote_addr s = ra \<and> ra \<noteq> Sa_Other)"

lemma connect_ends:
  assumes "ok_trace T an ra s" "permitted T an ra (Sys (ConnectTo fd a))" "0 \<le> fd"
    and "\<And>es fd. list_all (permitted T an ra) es \<Longrightarrow> fd = -1 \<or> 0 \<le> fd \<Longrightarrow> Q (fd, s\<lparr>trace := es @ trace s\<rparr>)"
  shows "ends (let (r, s) = sys W (ConnectTo fd a) s in
       if r < 0 then and_then (sys_or_die W ''close'' (CloseFd fd) s) (\<lambda>s. Inr (-1, s))
       else Inr (fd, s)) (fails T an ra) Q"
  using assms(1,2,3) assms(4) [of "[Sys (ConnectTo fd a)]" fd]
    assms(4) [of "[Sys (CloseFd fd), Sys (ConnectTo fd a)]" "-1"]
  by (simp add: sys_def sys_or_die_def die_def Let_def)

lemma connect_data_ends:
  assumes ok: "ok_trace T an ra s" and target: "connect_target T ra use_port remote_port s"
    and port: "\<not> vsf_sysutil_is_port_reserved remote_port" "0 \<le> fd"
    and Q: "\<And>es fd. list_all (permitted T an ra) es \<Longrightarrow> fd = -1 \<or> 0 \<le> fd \<Longrightarrow> Q (fd, s\<lparr>trace := es @ trace s\<rparr>)"
  shows "ends (connect_data W fd remote_port use_port s) (fails T an ra) Q"
proof -
  have conn: "ends (let (r, s) = sys W (ConnectTo fd a) s in
       if r < 0 then and_then (sys_or_die W ''close'' (CloseFd fd) s) (\<lambda>s. Inr (-1, s))
       else Inr (fd, s)) (fails T an ra) Q"
    if "sa_port a = remote_port" "tunable_port_promiscuous T \<or> vsf_sysutil_sockaddr_addr_equal ra a" for a
    by (rule connect_ends [OF ok _ port(2)]) (use that port in simp, rule Q)
  show ?thesis
  proof (cases use_port)
    case True
    then obtain a where "p_port_sockaddr s = Some a" "sa_port a = remote_port"
      "tunable_port_promiscuous T \<or> vsf_sysutil_sockaddr_addr_equal ra a"
      using target by (auto simp: connect_target_def)
    with conn [of a] True show ?thesis by (simp add: connect_data_def)
  next
    case False
    with target have ra: "p_remote_addr s = ra" "ra \<noteq> Sa_Other" by (auto simp: connect_target_def)
    then obtain a where a: "vsf_sysutil_sockaddr_set_port ra remote_port = Inr a" "sa_port a = remote_port"
      by (cases ra) (simp_all add: vsf_sysutil_sockaddr_set_port_def)
    have "vsf_sysutil_sockaddr_addr_equal ra a"
      using addr_equal_set_port [OF a(1), of ra] addr_equal_refl [OF ra(2)] by simp
    with conn [of a] False ra(1) a show ?thesis by (simp add: connect_data_def lifted_def)
  qed
qed

lemma privop_port_sock_ends:
  assumes ok: "ok_trace T an ra s" and "listen_fd who s = -1" and la: "p_local_addr s \<noteq> Sa_Other"
    and target: "connect_target T ra use_port remote_port s"
    and Q: "\<And>es fd. list_all (permitted T an ra) es \<Longrightarrow> fd = -1 \<or> 0 \<le> fd \<Longrightarrow> Q (fd, s\<lparr>trace := es @ trace s\<rparr>)"
  shows "ends (vsf_privop_get_ftp_port_sock T W who remote_port use_port s) (fails T an ra) Q"
  unfolding vsf_privop_get_ftp_port_sock_def ends_and_then
proof (rule get_ipsock_ends [OF ok la])
  fix es and fd :: int
  assume es: "list_all (permitted T an ra) es" and fd: "0 \<le> fd"
  define s1 where "s1 = s\<lparr>trace := es @ trace s\<rparr>"
  have ok1: "ok_trace T an ra s1" "listen_fd who s1 = -1"
    using ok es assms(2) by (simp_all add: s1_def)
  have connect: "ends (bind_tries W fd a 2 s1) (fails T an ra)
      (\<lambda>s. ends (connect_data W fd remote_port use_port s) (fails T an ra) Q)"
    if "\<not> vsf_sysutil_is_port_reserved remote_port" for a
  proof (rule bind_tries_ends [OF ok1(1)])
    fix fs
    assume fs: "list_all (permitted T an ra) fs"
    show "ends (connect_data W fd remote_port use_port (s1\<lparr>trace := fs @ trace s1\<rparr>)) (fails T an ra) Q"
    proof (rule connect_data_ends [OF _ _ that fd])
      fix gs and fd' :: int
      assume "list_all (permitted T an ra) gs" "fd' = -1 \<or> 0 \<le> fd'"
      with es fs Q [of "gs @ fs @ es" fd']
      show "Q (fd', s1\<lparr>trace := fs @ trace s1\<rparr>\<lparr>trace := gs @ trace (s1\<lparr>trace := fs @ trace s1\<rparr>)\<rparr>)"
        by (simp add: s1_def)
    qed (use ok1 fs target in \<open>simp_all add: s1_def connect_target_def\<close>)
  qed
  show "ends (case (fd, s\<lparr>trace := es @ trace s\<rparr>) of (fd, s) \<Rightarrow>
      if listen_fd who s \<noteq> -1 then die ''listed fd is active?'' s
      else if vsf_sysutil_is_port_reserved remote_port then die ''Illegal port request'' s
      else
       let port = (if tunable_connect_from_port_20 T then tunable_ftp_data_port T mod 2 ^ 16 else 0) in
       and_then (lifted s (bind_res (vsf_sysutil_sockaddr_clone (p_local_addr s)) (\<lambda>a.
         vsf_sysutil_sockaddr_set_port a port))) (\<lambda>a.
       and_then (bind_tries W fd a 2 s) (\<lambda>s.
       connect_data W fd remote_port use_port s))) (fails T an ra) Q"
    unfolding s1_def [symmetric] split_conv Let_def
  proof (cases "vsf_sysutil_is_port_reserved remote_port")
    case True
    with ok1 show "ends (if listen_fd who s1 \<noteq> -1 then die ''listed fd is active?'' s1
      else if vsf_sysutil_is_port_reserved remote_port then die ''Illegal port request'' s1
      else and_then (lifted s1 (bind_res (vsf_sysutil_sockaddr_clone (p_local_addr s1)) (\<lambda>a.
         vsf_sysutil_sockaddr_set_port a
          (if tunable_connect_from_port_20 T then tunable_ftp_data_port T mod 2 ^ 16 else 0)))) (\<lambda>a.
       and_then (bind_tries W fd a 2 s1) (connect_data W fd remote_port use_port))) (fails T an ra) Q"
      by (simp add: die_def)
  next
    case False
    note cl = clone_port_ends [OF ok1(1), where Q = "\<lambda>a. ends (bind_tries W fd a 2 s1) (fails T an ra)
      (\<lambda>s. ends (connect_data W fd remote_port use_port s) (fails T an ra) Q)", OF connect [OF False]]
    from cl ok1 False show "ends (if listen_fd who s1 \<noteq> -1 then die ''listed fd is active?'' s1
      else if vsf_sysutil_is_port_reserved remote_port then die ''Illegal port request'' s1
      else and_then (lifted s1 (bind_res (vsf_sysutil_sockaddr_clone (p_local_addr s1)) (\<lambda>a.
         vsf_sysutil_sockaddr_set_port a
          (if tunable_connect_from_port_20 T then tunable_ftp_data_port T mod 2 ^ 16 else 0)))) (\<lambda>a.
       and_then (bind_tries W fd a 2 s1) (connect_data W fd remote_port use_port))) (fails T an ra) Q"
      by (simp add: ends_and_then)
  qed
qed

subsection \<open>The two models\<close>

text \<open>The process that holds the listening socket.\<close>

definition proc_of :: "tunables \<Rightarrow> proc" where
  "proc_of T = (if tunable_one_process_model T then ChildProc else ParentProc)"

lemma two_process_pasv_cleanup_eq:
  "vsf_two_process_pasv_cleanup T W s = vsf_privop_pasv_cleanup W ParentProc s"
  by (cases "vsf_privop_pasv_cleanup W ParentProc s")
    (simp_all add: vsf_two_process_pasv_cleanup_def process_post_login_req_def cmd_process_pasv_cleanup_def)

lemma two_process_pasv_active_eq:
  "vsf_two_process_pasv_active T W s = Inr (vsf_privop_pasv_active ParentProc s, s)"
  by (simp add: vsf_two_process_pasv_active_def process_post_login_req_def cmd_process_pasv_active_def)

lemma two_process_listen_ends:
  assumes "ok_trace T an ra s" "listen_fd ParentProc s = -1"
    and Q: "\<And>es fd port. list_all (permitted T an ra) es \<Longrightarrow> 0 \<le> fd \<Longrightarrow>
      fst (port_range T) \<le> port \<Longrightarrow> port \<le> snd (port_range T) \<Longrightarrow>
      Q (port, set_listen_fd ParentProc fd (s\<lparr>trace := es @ trace s\<rparr>))"
  shows "ends (vsf_two_process_listen T W s) (fails T an ra) Q"
proof -
  have "ends (vsf_privop_pasv_listen T W ParentProc s) (fails T an ra)
      (\<lambda>(port, s). Q (nat (int port mod 2 ^ 16), s))"
  proof (rule privop_pasv_listen_ends [OF assms(1,2)])
    fix es fd port
    assume "list_all (permitted T an ra) es" "0 \<le> (fd::int)" "fst (port_range T) \<le> port" "port \<le> snd (port_range T)"
    moreover from this port_range_ok [of T] have "nat (int port mod 2 ^ 16) = port" by simp
    ultimately show "case (port, set_listen_fd ParentProc fd (s\<lparr>trace := es @ trace s\<rparr>)) of
        (port, s) \<Rightarrow> Q (nat (int port mod 2 ^ 16), s)"
      using Q [of es fd port] by simp
  qed
  then show ?thesis
    by (simp add: vsf_two_process_listen_def process_post_login_req_def cmd_process_pasv_listen_def
        ends_and_then split_beta) (erule ends_conseq, auto simp: split_beta)
qed

lemma recv_fd_ends:
  assumes "ok_trace T an ra s"
    and "\<And>es fd. list_all (permitted T an ra) es \<Longrightarrow> 0 \<le> fd \<Longrightarrow> Q (fd, s\<lparr>trace := es @ trace s\<rparr>)"
  shows "ends (priv_sock_recv_fd W s) (fails T an ra) Q"
  using assms(1) assms(2) [of "[Sys ReceiveFd]"] by (simp add: priv_sock_recv_fd_def sys_def die_def)

text \<open>The parent closes its copy of a descriptor it has passed on.\<close>

lemma close_and_recv_ends:
  assumes ok: "ok_trace T an ra s"
    and Q: "\<And>es fd. list_all (permitted T an ra) es \<Longrightarrow> 0 \<le> fd \<Longrightarrow> Q (fd, s\<lparr>trace := es @ trace s\<rparr>)"
  shows "ends (sys_or_die W ''close'' (CloseFd fd) s) (fails T an ra)
    (\<lambda>s. ends (priv_sock_recv_fd W s) (fails T an ra) Q)"
proof (rule sys_or_die_ends)
  show "ends (priv_sock_recv_fd W (s\<lparr>trace := Sys (CloseFd fd) # trace s\<rparr>)) (fails T an ra) Q"
  proof (rule recv_fd_ends)
    fix es and fd' :: int
    assume "list_all (permitted T an ra) es" "0 \<le> fd'"
    with Q [of "es @ [Sys (CloseFd fd)]" fd']
    show "Q (fd', s\<lparr>trace := Sys (CloseFd fd) # trace s\<rparr>\<lparr>trace := es @ trace (s\<lparr>trace := Sys (CloseFd fd) # trace s\<rparr>)\<rparr>)"
      by simp
  qed (use ok in simp)
qed (use ok in simp_all)

lemma two_process_pasv_fd_ends:
  assumes ok: "ok_trace T an ra s" and on: "listen_fd ParentProc s \<noteq> -1"
    and Q: "\<And>es fd. list_all (permitted T an ra) es \<Longrightarrow> fd = -2 \<or> fd = -1 \<or> 0 \<le> fd \<Longrightarrow>
      Q (fd, s\<lparr>trace := es @ trace s\<rparr>)"
  shows "ends (vsf_two_process_get_pasv_fd T W s) (fails T an ra) Q"
proof -
  have "ends (vsf_privop_accept_pasv T W ParentProc s) (fails T an ra)
      (\<lambda>(fd, s). if fd < 0 then Q (fd, s)
        else ends (sys_or_die W ''close'' (CloseFd fd) s) (fails T an ra)
          (\<lambda>s. ends (priv_sock_recv_fd W s) (fails T an ra) Q))"
  proof (rule privop_accept_ends [OF ok on])
    fix es and fd :: int
    assume es: "list_all (permitted T an ra) es" and fd: "fd = -2 \<or> fd = -1 \<or> 0 \<le> fd"
    define s1 where "s1 = s\<lparr>trace := es @ trace s\<rparr>"
    have "ends (sys_or_die W ''close'' (CloseFd fd) s1) (fails T an ra)
        (\<lambda>s. ends (priv_sock_recv_fd W s) (fails T an ra) Q)"
    proof (rule close_and_recv_ends)
      fix fs and fd' :: int
      assume "list_all (permitted T an ra) fs" "0 \<le> fd'"
      with es Q [of "fs @ es" fd'] show "Q (fd', s1\<lparr>trace := fs @ trace s1\<rparr>)" by (simp add: s1_def)
    qed (use ok es in \<open>simp add: s1_def\<close>)
    with Q [OF es fd] fd show "case (fd, s\<lparr>trace := es @ trace s\<rparr>) of (fd, s) \<Rightarrow> if fd < 0 then Q (fd, s)
        else ends (sys_or_die W ''close'' (CloseFd fd) s) (fails T an ra)
          (\<lambda>s. ends (priv_sock_recv_fd W s) (fails T an ra) Q)"
      by (simp add: s1_def)
  qed
  then show ?thesis
    by (simp add: vsf_two_process_get_pasv_fd_def process_post_login_req_def cmd_process_pasv_accept_def
        ends_and_then split_beta ends_if cong: if_cong) (erule ends_conseq, auto split: if_splits)
qed

lemma two_process_data_sock_ends:
  assumes ok: "ok_trace T an ra s" and off: "listen_fd ParentProc s = -1"
    and la: "p_local_addr s \<noteq> Sa_Other" and ra: "p_remote_addr s = ra" "ra \<noteq> Sa_Other"
    and port: "p_port_sockaddr s = Some a" "a \<noteq> Sa_Other"
    and Q: "\<And>es fd. list_all (permitted T an ra) es \<Longrightarrow> fd = -1 \<or> 0 \<le> fd \<Longrightarrow>
      Q (fd, s\<lparr>trace := es @ trace s\<rparr>)"
  shows "ends (vsf_two_process_get_priv_data_sock T W s) (fails T an ra) Q"
proof -
  from port(2) obtain p where p: "vsf_sysutil_sockaddr_get_port a = Inr p"
    by (cases a) (simp_all add: vsf_sysutil_sockaddr_get_port_def)
  have "ends (vsf_privop_get_ftp_port_sock T W ParentProc p False s) (fails T an ra)
      (\<lambda>(fd, s). if fd = -1 then Q (-1, s)
        else ends (sys_or_die W ''close'' (CloseFd fd) s) (fails T an ra)
          (\<lambda>s. ends (priv_sock_recv_fd W s) (fails T an ra) Q))"
  proof (rule privop_port_sock_ends [OF ok off la])
    fix es and fd :: int
    assume es: "list_all (permitted T an ra) es" and fd: "fd = -1 \<or> 0 \<le> fd"
    define s1 where "s1 = s\<lparr>trace := es @ trace s\<rparr>"
    have "ends (sys_or_die W ''close'' (CloseFd fd) s1) (fails T an ra)
        (\<lambda>s. ends (priv_sock_recv_fd W s) (fails T an ra) Q)"
    proof (rule close_and_recv_ends)
      fix fs and fd' :: int
      assume "list_all (permitted T an ra) fs" "0 \<le> fd'"
      with es Q [of "fs @ es" fd'] show "Q (fd', s1\<lparr>trace := fs @ trace s1\<rparr>)" by (simp add: s1_def)
    qed (use ok es in \<open>simp add: s1_def\<close>)
    with Q [OF es fd] show "case (fd, s\<lparr>trace := es @ trace s\<rparr>) of (fd, s) \<Rightarrow> if fd = -1 then Q (-1, s)
        else ends (sys_or_die W ''close'' (CloseFd fd) s) (fails T an ra)
          (\<lambda>s. ends (priv_sock_recv_fd W s) (fails T an ra) Q)"
      by (auto simp: s1_def)
  qed (use ra in \<open>simp add: connect_target_def\<close>)
  then show ?thesis
    using port p
    by (simp add: vsf_two_process_get_priv_data_sock_def process_post_login_req_def
        cmd_process_get_data_sock_def ends_and_then split_beta ends_if lifted_def cong: if_cong)
      (erule ends_conseq, auto split: if_splits)
qed

lemma one_process_data_sock_ends:
  assumes ok: "ok_trace T an ra s" and off: "pasv_listen_fd s = -1"
    and la: "p_local_addr s \<noteq> Sa_Other"
    and port: "p_port_sockaddr s = Some a" "a \<noteq> Sa_Other"
      "tunable_port_promiscuous T \<or> vsf_sysutil_sockaddr_addr_equal ra a"
    and Q: "\<And>es fd. list_all (permitted T an ra) es \<Longrightarrow> fd = -1 \<or> 0 \<le> fd \<Longrightarrow>
      Q (fd, s\<lparr>trace := es @ trace s\<rparr>)"
  shows "ends (vsf_one_process_get_priv_data_sock T W s) (fails T an ra) Q"
proof -
  from port(2) have p: "vsf_sysutil_sockaddr_get_port a = Inr (sa_port a)"
    by (cases a) (simp_all add: vsf_sysutil_sockaddr_get_port_def)
  have "ends (vsf_privop_get_ftp_port_sock T W ChildProc (sa_port a) True s) (fails T an ra) Q"
    by (rule privop_port_sock_ends [OF ok _ la])
      (use off port Q in \<open>simp_all add: listen_fd_def connect_target_def\<close>)
  with port p show ?thesis by (simp add: vsf_one_process_get_priv_data_sock_def lifted_def)
qed

lemma fstat_ends:
  assumes "ok_trace T an ra s"
    and "\<And>es st. list_all (permitted T an ra) es \<Longrightarrow> Q (st, s\<lparr>trace := es @ trace s\<rparr>)"
  shows "ends (vsf_sysutil_fstat W fd s) (fails T an ra) Q"
  using assms(1) assms(2) [of "[Sys (Fstat fd)]"]
  by (simp add: vsf_sysutil_fstat_def sys_stat_def die_def split: option.split)

lemma chown_ends:
  assumes ok: "ok_trace T an ra s"
    and Q: "\<And>es. list_all (permitted T an ra) es \<Longrightarrow> Q (s\<lparr>trace := es @ trace s\<rparr>)"
  shows "ends (vsf_privop_do_file_chown W fd s) (fails T an ra) Q"
  unfolding vsf_privop_do_file_chown_def ends_and_then
proof (rule fstat_ends [OF ok])
  fix es st
  assume es: "list_all (permitted T an ra) es"
  from es ok Q [OF es] Q [of "Sys (Fchown fd (anon_upload_chown_uid s)) # es"]
  show "ends (case (st, s\<lparr>trace := es @ trace s\<rparr>) of (st, s) \<Rightarrow>
      if st_uid st = anon_upload_chown_uid s then Inr s
      else if anon_upload_chown_uid s = -1 \<or> \<not> st_regfile st \<or>
        (st_uid st \<noteq> anon_ftp_uid s \<and> st_uid st \<noteq> guest_user_uid s)
        then die ''invalid fd in cmd_process_chown'' s
      else sys_or_die W ''fchown'' (Fchown fd (anon_upload_chown_uid s)) s) (fails T an ra) Q"
    by (auto simp: die_def intro!: sys_or_die_ends)
qed

lemma two_process_chown_ends:
  assumes ok: "ok_trace T an ra s" and "tunable_chown_uploads T"
    and Q: "\<And>es. list_all (permitted T an ra) es \<Longrightarrow> Q (s\<lparr>trace := es @ trace s\<rparr>)"
  shows "ends (vsf_two_process_chown_upload T W fd s) (fails T an ra) Q"
proof -
  define rfd where "rfd = os_ret W (trace s) ReceiveFd"
  define s1 where "s1 = s\<lparr>trace := Sys ReceiveFd # trace s\<rparr>"
  have ok1: "ok_trace T an ra s1" using ok by (simp add: s1_def)
  have "ends (vsf_privop_do_file_chown W rfd s1) (fails T an ra)
      (\<lambda>s. ends (sys_or_die W ''close'' (CloseFd rfd) s) (fails T an ra) Q)"
  proof (rule chown_ends [OF ok1])
    fix es
    assume es: "list_all (permitted T an ra) es"
    from es Q [of "Sys (CloseFd rfd) # es @ [Sys ReceiveFd]"] ok1
    show "ends (sys_or_die W ''close'' (CloseFd rfd) (s1\<lparr>trace := es @ trace s1\<rparr>)) (fails T an ra) Q"
      by (intro sys_or_die_ends) (simp_all add: s1_def)
  qed
  with assms(2) ok show ?thesis
    by (simp add: vsf_two_process_chown_upload_def process_post_login_req_def cmd_process_chown_def
        sys_def ends_and_then die_def s1_def rfd_def)
qed

end
