(* ===== verification/Vsf_Start.thy ===== *)
theory Vsf_Start
  imports Vsf_Session
begin

text \<open>
  The default settings (\<open>tunables_load_defaults\<close> of \<open>tunables.c\<close>) and the session a connection starts
  with (\<open>main\<close> of \<open>main.c\<close>), as far as the model has members for them. And a plain operating system, on
  which every call succeeds: concrete inputs for the lemmas about sessions.
\<close>

definition tunables_load_defaults :: tunables where
  "tunables_load_defaults = \<lparr>
    tunable_xferlog_enable = False, tunable_xferlog_std_format = False,
    tunable_xferlog_file = Some ''/var/log/xferlog'',
    tunable_vsftpd_log_file = Some ''/var/log/vsftpd.log'', tunable_dual_log_enable = False,
    tunable_use_sendfile = True, tunable_listen = True, tunable_listen_ipv6 = False,
    tunable_listen_port = 21, tunable_listen_address = None, tunable_listen_address6 = None,
    tunable_background = False, tunable_session_support = False, tunable_pasv_addr_resolve = False,
    tunable_debug_ssl = False, tunable_require_cert = False, tunable_validate_cert = False,
    tunable_strict_ssl_read_eof = True, tunable_strict_ssl_write_shutdown = False,
    tunable_ssl_request_cert = True, tunable_ptrace_sandbox = False, tunable_isolate = True,
    tunable_seccomp_sandbox = True, tunable_accept_timeout = 60, tunable_connect_timeout = 60,
    tunable_file_open_mode = 438, tunable_pam_service_name = Some ''ftp'',
    tunable_rsa_cert_file = Some ''/usr/share/ssl/certs/vsftpd.pem'', tunable_dsa_cert_file = None,
    tunable_ssl_ciphers = Some ''ECDHE-RSA-AES256-GCM-SHA384'', tunable_rsa_private_key_file = None,
    tunable_dsa_private_key_file = None, tunable_ca_certs_file = None, tunable_check_shell = True,
    tunable_nopriv_user = Some ''nobody'', tunable_secure_chroot_dir = Some ''/usr/share/empty'',
    tunable_anon_root = None, tunable_local_root = None, tunable_user_sub_token = None,
    tunable_passwd_chroot_enable = False, tunable_chroot_local_user = False,
    tunable_chroot_list_enable = False, tunable_chroot_list_file = Some ''/etc/vsftpd.chroot_list'',
    tunable_guest_enable = False, tunable_guest_username = Some ''ftp'',
    tunable_virtual_use_local_privs = False, tunable_allow_writeable_chroot = True,
    tunable_user_config_dir = None, tunable_userlist_file = Some ''/etc/vsftpd.user_list'',
    tunable_isolate_network = True, tunable_run_as_launching_user = False,
    tunable_allow_anon_ssl = False, tunable_force_local_logins_ssl = True,
    tunable_force_anon_logins_ssl = False, tunable_implicit_ssl = False,
    tunable_deny_email_enable = False,
    tunable_banned_email_file = Some ''/etc/vsftpd.banned_emails'',
    tunable_secure_email_list_enable = False,
    tunable_email_password_file = Some ''/etc/vsftpd.email_passwords'', tunable_banner_file = None,
    tunable_tcp_wrappers = False, tunable_setproctitle_enable = False,
    tunable_chown_username = Some ''bmck'',
    tunable_anonymous_enable = True, tunable_local_enable = False,
    tunable_ftp_enable = True, tunable_http_enable = False,
    tunable_userlist_enable = False, tunable_userlist_deny = True,
    tunable_no_anon_password = False, tunable_delay_failed_login = 1,
    tunable_delay_successful_login = 0, tunable_max_login_fails = 3,
    tunable_max_clients = 2000, tunable_max_per_ip = 50,
    tunable_ftp_username = Some ''ftp'', tunable_ftpd_banner = None,
    tunable_log_ftp_protocol = False, tunable_syslog_enable = False,
    tunable_no_log_lock = False, tunable_dirmessage_enable = False,
    tunable_message_file = Some ''.message'', tunable_idle_session_timeout = 300,
    tunable_data_connection_timeout = 300, tunable_deny_file = None, tunable_hide_file = None,
    tunable_hide_ids = False, tunable_text_userdb_names = False, tunable_use_localtime = False,
    tunable_force_dot_files = False, tunable_ls_recurse_enable = False,
    tunable_async_abor_enable = False,
    tunable_one_process_model = False, tunable_pasv_enable = True, tunable_port_enable = True,
    tunable_pasv_promiscuous = False, tunable_port_promiscuous = False,
    tunable_pasv_min_port = 5001, tunable_pasv_max_port = 0, tunable_pasv_address = None,
    tunable_connect_from_port_20 = False, tunable_ftp_data_port = 20, tunable_trans_chunk_size = 0,
    tunable_ssl_enable = False, tunable_require_ssl_reuse = True, tunable_sslv2 = False,
    tunable_sslv3 = False, tunable_tlsv1 = True, tunable_force_local_data_ssl = True,
    tunable_force_anon_data_ssl = False,
    tunable_write_enable = False, tunable_download_enable = True, tunable_dirlist_enable = True,
    tunable_chmod_enable = True, tunable_mdtm_write = True, tunable_anon_upload_enable = False,
    tunable_anon_mkdir_write_enable = False, tunable_anon_other_write_enable = False,
    tunable_anon_world_readable_only = True, tunable_ascii_upload_enable = False,
    tunable_ascii_download_enable = False, tunable_chown_uploads = False,
    tunable_chown_upload_mode = 384, tunable_lock_upload_files = True,
    tunable_delete_failed_uploads = False, tunable_tilde_user_enable = False,
    tunable_anon_umask = 63, tunable_local_umask = 63, tunable_anon_max_rate = 0,
    tunable_local_max_rate = 0, tunable_cmds_allowed = None, tunable_cmds_denied = None\<rparr>"

text \<open>A decoder that finds no packet in any file.\<close>

primcorec silent_decoder :: decoder where
  "silent_decoder =
     Decoder (\<lambda>content fn. map_sum id (map_prod id (\<lambda>_. silent_decoder)) (Inr ('',,,'' @ fn, ())))"

text \<open>The addresses and the client's address as text are filled in when the connection is there.\<close>

definition new_session :: "sockaddr \<Rightarrow> sockaddr \<Rightarrow> string \<Rightarrow> vsf_session" where
  "new_session local remote ip = \<lparr>
    p_local_addr = local, p_remote_addr = remote, data_timeout = False,
    pasv_listen_fd = -1, parent_listen_fd = -1, p_port_sockaddr = None, data_fd = -1,
    data_progress = False, bw_rate_max = 0, control_use_ssl = False, data_use_ssl = False,
    umask = 0, trace = [],
    is_anonymous = True, is_guest = False, user_str = [], anon_pass_str = [],
    remote_ip_str = ip, xferlog_fd = -1, vsftpd_log_fd = -1, log_type = 0, log_start_sec = 0,
    log_start_usec = 0, log_str = [], transfer_size = 0, is_ascii = True,
    restart_pos = 0, rnfr_filename_str = [], abor_received = False, epsv_all = False,
    is_http = False, http_get_arg = [], p_visited_dir_list = [],
    anon_ftp_uid = -1, guest_user_uid = -1, anon_upload_chown_uid = -1,
    banned_email_str = [], email_passwords_str = [], userlist_str = [], banner_str = [],
    tcp_wrapper_ok = True, ftp_cmd_str = [], ftp_arg_str = [], num_clients = 0, num_this_ip = 0,
    home_str = [], login_fails = 0, tpms_decoder = silent_decoder\<rparr>"

definition plain_stat :: statbuf where
  "plain_stat = \<lparr>st_regfile = True, st_dir = False, st_symlink = False, st_readable_other = True,
     st_uid = 0, st_gid = 0, st_links = 1, st_size = 0, st_mtime = 0, st_perms = ''-rw-r--r--''\<rparr>"

definition plain_os :: os where
  "plain_os = \<lparr>
     os_ret = (\<lambda>tr c. case c of WriteData t \<Rightarrow> int (length t) | Socket b \<Rightarrow> 5 | AcceptFrom fd \<Rightarrow> 6
       | OpenRead f \<Rightarrow> 7 | Create f \<Rightarrow> 7 | CreateExclusive f \<Rightarrow> 7 | ReceiveFd \<Rightarrow> 8 | _ \<Rightarrow> 0),
     os_errno = (\<lambda>tr. 0), os_stat = (\<lambda>tr c. Some plain_stat),
     os_text = (\<lambda>tr c. case c of Getcwd \<Rightarrow> Some ''/'' | _ \<Rightarrow> None),
     os_names = (\<lambda>tr c. []), os_file = (\<lambda>tr f. Some []), os_peer = (\<lambda>tr. Sa_Other),
     os_write = (\<lambda>tr t. int (length t)), os_reads = (\<lambda>tr. []),
     os_wr = (\<lambda>tr sent t. int (length t)), os_signals = (\<lambda>tr. []),
     os_time = (\<lambda>tr. (0, 0)), os_date = (\<lambda>tr. ''Thu Jan  1 00:00:00 1970''),
     os_stat_date = (\<lambda>st b t. ''Jan 01 00:00''), os_numeric_date = (\<lambda>st b. ''19700101000000''),
     os_parse_time = (\<lambda>t. 0), os_timezone = 0, os_pid = 1, os_double = (\<lambda>a b c. ''0.00''),
     os_inet_ntop = (\<lambda>a. ''127.0.0.1''), os_inet_ntoa = (\<lambda>b. ''127.0.0.1''), os_inet_aton = (\<lambda>t. None),
     os_user_name = (\<lambda>u. None), os_group_name = (\<lambda>g. None),
     os_pwnam = (\<lambda>tr u. None), os_shells = (\<lambda>tr. []), os_shadow = (\<lambda>tr u. None),
     os_crypt = (\<lambda>key salt. Some []), os_has_capabilities = True,
     os_has_capabilities_as_non_root = True, os_local_addr = Sa_Other, os_remote_addr = Sa_Other,
     os_fd_is_socket = True\<rparr>"

end
