(* ===== verification/Str.thy ===== *)
theory Str
  imports Sysutil
begin

text \<open>
  The string buffers of \<open>src/server/vsftpd-3.0.3/str.c\<close>: a block of bytes, the length of the string
  in it and the size of the block. Every operation is modelled on the buffers, with the checks of the
  code and every access to the block checked. Texts (\<open>const char*\<close>) are character lists read up to
  their first NUL; a null buffer is an empty block, so that an access to it is out of bounds.
  A function-local static string is a parameter that holds whatever the previous call left in it.
\<close>

record mystr =
  p_buf :: "bytes option"
  len :: nat
  alloc_bytes :: nat

definition INIT_MYSTR :: mystr where
  "INIT_MYSTR = \<lparr>p_buf = None, len = 0, alloc_bytes = 0\<rparr>"

definition block :: "mystr \<Rightarrow> bytes" where
  "block s = (case p_buf s of None \<Rightarrow> [] | Some b \<Rightarrow> b)"

subsection \<open>Allocation\<close>

definition s_setbuf :: "mystr \<Rightarrow> bytes \<Rightarrow> mystr res" where
  "s_setbuf s b =
     (if p_buf s \<noteq> None then Inl (Bug ''p_buf not NULL when setting it'')
      else Inr (s\<lparr>p_buf := Some b\<rparr>))"

definition str_free :: "mystr \<Rightarrow> mystr" where
  "str_free s = s\<lparr>p_buf := None, len := 0, alloc_bytes := 0\<rparr>"

definition private_str_alloc_memchunk :: "mystr \<Rightarrow> bytes \<Rightarrow> nat \<Rightarrow> mystr res" where
  "private_str_alloc_memchunk s p_src n =
     (if uint_wrap (n + 1) < n then Inl (Bug ''integer overflow'')
      else let buf_needed = uint_wrap (n + 1) in
        bind_res
          (if buf_needed > alloc_bytes s then
             bind_res (vsf_sysutil_malloc buf_needed) (\<lambda>b.
             bind_res (s_setbuf (str_free s) b) (\<lambda>s.
               Inr (s\<lparr>alloc_bytes := buf_needed\<rparr>)))
           else Inr s) (\<lambda>s.
        bind_res (vsf_sysutil_memcpy (block s) 0 p_src n) (\<lambda>b.
        bind_res (arr_write b n (Some NUL)) (\<lambda>b.
          Inr (s\<lparr>p_buf := Some b, len := n\<rparr>)))))"

definition private_str_append_memchunk :: "mystr \<Rightarrow> bytes \<Rightarrow> nat \<Rightarrow> mystr res" where
  "private_str_append_memchunk s p_src n =
     (if uint_wrap (n + len s) < n then Inl (Bug ''integer overflow'')
      else let buf_needed = uint_wrap (n + len s) in
        if uint_wrap (buf_needed + 1) < buf_needed then Inl (Bug ''integer overflow'')
        else let buf_needed = uint_wrap (buf_needed + 1) in
          bind_res
            (if buf_needed > alloc_bytes s then
               bind_res (vsf_sysutil_realloc (block s) buf_needed) (\<lambda>b.
                 Inr (s\<lparr>p_buf := Some b, alloc_bytes := buf_needed\<rparr>))
             else Inr s) (\<lambda>s.
          bind_res (vsf_sysutil_memcpy (block s) (len s) p_src n) (\<lambda>b.
          bind_res (arr_write b (len s + n) (Some NUL)) (\<lambda>b.
            Inr (s\<lparr>p_buf := Some b, len := len s + n\<rparr>)))))"

definition str_alloc_text :: "mystr \<Rightarrow> string \<Rightarrow> mystr res" where
  "str_alloc_text s p_src =
     bind_res (vsf_sysutil_strlen p_src) (\<lambda>n. private_str_alloc_memchunk s (text_bytes p_src) n)"

definition str_copy :: "mystr \<Rightarrow> mystr \<Rightarrow> mystr res" where
  "str_copy p_dest p_src = private_str_alloc_memchunk p_dest (block p_src) (len p_src)"

text \<open>Every position of the search is read; \<open>len\<close> counts them.\<close>

fun alt_term_len :: "bytes \<Rightarrow> char \<Rightarrow> nat \<Rightarrow> nat res" where
  "alt_term_len [] term n = Inl OutOfBounds"
| "alt_term_len (None # p) term n = Inl Uninit"
| "alt_term_len (Some c # p) term n =
     (if c = term then Inr n
      else if uint_wrap (n + 1) = 0 then Inl (Bug ''integer overflow'')
      else alt_term_len p term (n + 1))"

definition str_alloc_alt_term :: "mystr \<Rightarrow> bytes \<Rightarrow> char \<Rightarrow> mystr res" where
  "str_alloc_alt_term s p_src term =
     bind_res (alt_term_len p_src term 0) (\<lambda>n. private_str_alloc_memchunk s p_src n)"

definition str_alloc_ulong :: "mystr \<Rightarrow> nat \<Rightarrow> mystr res" where
  "str_alloc_ulong s n = str_alloc_text s (vsf_sysutil_ulong_to_str n)"

definition str_trunc :: "mystr \<Rightarrow> nat \<Rightarrow> mystr res" where
  "str_trunc s trunc_len =
     (if trunc_len \<ge> alloc_bytes s
      then Inl (Bug ''trunc_len not smaller than alloc_bytes in str_trunc'')
      else bind_res (arr_write (block s) trunc_len (Some NUL)) (\<lambda>b.
             Inr (s\<lparr>len := trunc_len, p_buf := Some b\<rparr>)))"

text \<open>\<open>str_getbuf\<close> gives an unused string an empty buffer; the pointer it returns is the block.\<close>

definition str_getbuf :: "mystr \<Rightarrow> mystr res" where
  "str_getbuf s =
     (if p_buf s = None then
        if len s \<noteq> 0 \<or> alloc_bytes s \<noteq> 0
        then Inl (Bug ''p_buf NULL and len or alloc_bytes != 0 in str_getbuf'')
        else private_str_alloc_memchunk s [] 0
      else Inr s)"

definition str_empty :: "mystr \<Rightarrow> mystr res" where
  "str_empty s = bind_res (str_getbuf s) (\<lambda>s. str_trunc s 0)"

definition str_reserve :: "mystr \<Rightarrow> nat \<Rightarrow> mystr res" where
  "str_reserve s res_len =
     (let res_len = uint_wrap (res_len + 1) in
      if res_len = 0 then Inl (Bug ''integer overflow'')
      else bind_res
        (if res_len > alloc_bytes s then
           bind_res (vsf_sysutil_realloc (block s) res_len) (\<lambda>b.
             Inr (s\<lparr>p_buf := Some b, alloc_bytes := res_len\<rparr>))
         else Inr s) (\<lambda>s.
        bind_res (arr_write (block s) (res_len - 1) (Some NUL)) (\<lambda>b. Inr (s\<lparr>p_buf := Some b\<rparr>))))"

definition str_isempty :: "mystr \<Rightarrow> bool" where
  "str_isempty s \<longleftrightarrow> len s = 0"

definition str_getlen :: "mystr \<Rightarrow> nat" where
  "str_getlen s = len s"

text \<open>The text a buffer holds when it is used as a \<open>const char*\<close>.\<close>

definition read_text :: "bytes \<Rightarrow> string res" where
  "read_text b =
     (let p = takeWhile (\<lambda>x. x \<noteq> Some NUL) b in
      if length p = length b then Inl OutOfBounds
      else if None \<in> set p then Inl Uninit
      else Inr (map the p))"

definition str_text :: "mystr \<Rightarrow> string res" where
  "str_text s = bind_res (str_getbuf s) (\<lambda>s. read_text (block s))"

subsection \<open>Comparison\<close>

text \<open>The difference of two unsigned lengths, converted to \<open>int\<close>.\<close>

definition uint_diff :: "nat \<Rightarrow> nat \<Rightarrow> int" where
  "uint_diff m n = sint (of_nat m - of_nat n :: 32 word)"

definition str_equal_internal :: "bytes \<Rightarrow> nat \<Rightarrow> bytes \<Rightarrow> nat \<Rightarrow> int res" where
  "str_equal_internal p_buf1 buf1_len p_buf2 buf2_len =
     (let minlen = (if buf2_len < buf1_len then buf2_len else buf1_len) in
      bind_res (vsf_sysutil_memcmp p_buf1 0 p_buf2 minlen) (\<lambda>retval.
        if retval \<noteq> 0 \<or> buf1_len = buf2_len then Inr retval
        else Inr (uint_diff buf1_len buf2_len)))"

definition str_strcmp :: "mystr \<Rightarrow> mystr \<Rightarrow> int res" where
  "str_strcmp s1 s2 = str_equal_internal (block s1) (len s1) (block s2) (len s2)"

definition str_equal :: "mystr \<Rightarrow> mystr \<Rightarrow> bool res" where
  "str_equal s1 s2 = bind_res (str_strcmp s1 s2) (\<lambda>r. Inr (r = 0))"

definition str_equal_text :: "mystr \<Rightarrow> string \<Rightarrow> bool res" where
  "str_equal_text s p_text =
     bind_res (vsf_sysutil_strlen p_text) (\<lambda>cmplen.
     bind_res (str_equal_internal (block s) (len s) (text_bytes p_text) cmplen) (\<lambda>r. Inr (r = 0)))"

subsection \<open>Appending\<close>

definition str_append_str :: "mystr \<Rightarrow> mystr \<Rightarrow> mystr res" where
  "str_append_str s other = private_str_append_memchunk s (block other) (len other)"

definition str_append_text :: "mystr \<Rightarrow> string \<Rightarrow> mystr res" where
  "str_append_text s p_src =
     bind_res (vsf_sysutil_strlen p_src) (\<lambda>n. private_str_append_memchunk s (text_bytes p_src) n)"

definition str_append_char :: "mystr \<Rightarrow> char \<Rightarrow> mystr res" where
  "str_append_char s c = private_str_append_memchunk s [Some c] 1"

definition str_append_ulong :: "mystr \<Rightarrow> nat \<Rightarrow> mystr res" where
  "str_append_ulong s n = str_append_text s (vsf_sysutil_ulong_to_str n)"

fun append_spaces :: "nat \<Rightarrow> mystr \<Rightarrow> mystr res" where
  "append_spaces 0 s = Inr s"
| "append_spaces (Suc k) s = bind_res (str_append_char s (CHR '' '')) (append_spaces k)"

definition str_rpad :: "mystr \<Rightarrow> nat \<Rightarrow> mystr res" where
  "str_rpad s min_width =
     (if len s \<ge> min_width then Inr s else append_spaces (min_width - len s) s)"

definition str_lpad :: "mystr \<Rightarrow> mystr \<Rightarrow> nat \<Rightarrow> mystr res" where
  "str_lpad s_tmp s min_width =
     (if len s \<ge> min_width then Inr s
      else bind_res (str_empty s_tmp) (\<lambda>tmp.
           bind_res (append_spaces (min_width - len s) tmp) (\<lambda>tmp.
           bind_res (str_append_str tmp s) (\<lambda>tmp. str_copy s tmp))))"

subsection \<open>Loops over the characters\<close>

text \<open>
  \<open>update_chars f i k b\<close>: the loop \<open>for (; k steps; i++) b[i] = f(b[i])\<close> that the in-place
  operations share.
\<close>

fun update_chars :: "(char \<Rightarrow> char) \<Rightarrow> nat \<Rightarrow> nat \<Rightarrow> bytes \<Rightarrow> bytes res" where
  "update_chars f i 0 b = Inr b"
| "update_chars f i (Suc k) b =
     bind_res (read_bytes b i 1) (\<lambda>c.
     bind_res (arr_write b i (Some (f (hd c)))) (update_chars f (i + 1) k))"

definition in_place :: "(char \<Rightarrow> char) \<Rightarrow> mystr \<Rightarrow> mystr res" where
  "in_place f s =
     (if len s = 0 then Inr s
      else bind_res (update_chars f 0 (len s) (block s)) (\<lambda>b. Inr (s\<lparr>p_buf := Some b\<rparr>)))"

definition str_upper :: "mystr \<Rightarrow> mystr res" where
  "str_upper = in_place vsf_sysutil_toupper"

definition str_replace_char :: "mystr \<Rightarrow> char \<Rightarrow> char \<Rightarrow> mystr res" where
  "str_replace_char s old new = in_place (\<lambda>c. if c = old then new else c) s"

definition str_replace_unprintable :: "mystr \<Rightarrow> char \<Rightarrow> mystr res" where
  "str_replace_unprintable s new = in_place (\<lambda>c. if \<not> vsf_sysutil_isprint c then new else c) s"

text \<open>The loop that stops at the first character in a class.\<close>

fun some_char :: "(char \<Rightarrow> bool) \<Rightarrow> nat \<Rightarrow> nat \<Rightarrow> bytes \<Rightarrow> bool res" where
  "some_char P i 0 b = Inr False"
| "some_char P i (Suc k) b =
     bind_res (read_bytes b i 1) (\<lambda>c. if P (hd c) then Inr True else some_char P (i + 1) k b)"

definition str_contains_space :: "mystr \<Rightarrow> bool res" where
  "str_contains_space s = some_char vsf_sysutil_isspace 0 (len s) (block s)"

definition str_all_space :: "mystr \<Rightarrow> bool res" where
  "str_all_space s =
     bind_res (some_char (\<lambda>c. \<not> vsf_sysutil_isspace c) 0 (len s) (block s)) (\<lambda>r. Inr (\<not> r))"

definition str_contains_unprintable :: "mystr \<Rightarrow> bool res" where
  "str_contains_unprintable s = some_char (\<lambda>c. \<not> vsf_sysutil_isprint c) 0 (len s) (block s)"

subsection \<open>Locating\<close>

record str_locate_result =
  found :: bool
  index :: nat
  char_found :: char

definition not_found :: str_locate_result where
  "not_found = \<lparr>found = False, index = 0, char_found = NUL\<rparr>"

definition found_at :: "nat \<Rightarrow> str_locate_result" where
  "found_at i = \<lparr>found = True, index = i, char_found = NUL\<rparr>"

text \<open>\<open>k\<close> positions from \<open>i\<close> upwards.\<close>

fun locate_loop :: "bytes \<Rightarrow> string \<Rightarrow> nat \<Rightarrow> nat \<Rightarrow> nat \<Rightarrow> str_locate_result res" where
  "locate_loop b p_text text_len i 0 = Inr not_found"
| "locate_loop b p_text text_len i (Suc k) =
     bind_res (vsf_sysutil_memcmp b i (text_bytes p_text) text_len) (\<lambda>r.
     if r = 0 then Inr (found_at i) else locate_loop b p_text text_len (i + 1) k)"

definition str_locate_text :: "mystr \<Rightarrow> string \<Rightarrow> str_locate_result res" where
  "str_locate_text s p_text =
     bind_res (vsf_sysutil_strlen p_text) (\<lambda>text_len.
     if text_len = 0 \<or> text_len > len s then Inr not_found
     else locate_loop (block s) p_text text_len 0 (len s - text_len + 1))"

text \<open>From \<open>i\<close> downwards.\<close>

fun locate_reverse_loop :: "bytes \<Rightarrow> string \<Rightarrow> nat \<Rightarrow> nat \<Rightarrow> str_locate_result res" where
  "locate_reverse_loop b p_text text_len i =
     bind_res (vsf_sysutil_memcmp b i (text_bytes p_text) text_len) (\<lambda>r.
     if r = 0 then Inr (found_at i)
     else case i of 0 \<Rightarrow> Inr not_found | Suc j \<Rightarrow> locate_reverse_loop b p_text text_len j)"

declare locate_reverse_loop.simps [simp del]

definition str_locate_text_reverse :: "mystr \<Rightarrow> string \<Rightarrow> str_locate_result res" where
  "str_locate_text_reverse s p_text =
     bind_res (vsf_sysutil_strlen p_text) (\<lambda>text_len.
     if text_len = 0 \<or> text_len > len s then Inr not_found
     else locate_reverse_loop (block s) p_text text_len (len s - text_len))"

definition str_locate_str :: "mystr \<Rightarrow> mystr \<Rightarrow> str_locate_result res" where
  "str_locate_str s look = bind_res (str_text look) (str_locate_text s)"

definition str_locate_str_reverse :: "mystr \<Rightarrow> mystr \<Rightarrow> str_locate_result res" where
  "str_locate_str_reverse s look = bind_res (str_text look) (str_locate_text_reverse s)"

definition str_locate_char :: "mystr \<Rightarrow> char \<Rightarrow> str_locate_result res" where
  "str_locate_char s look_char = str_locate_text s [look_char]"

fun locate_chars_loop :: "bytes \<Rightarrow> string \<Rightarrow> nat \<Rightarrow> nat \<Rightarrow> str_locate_result res" where
  "locate_chars_loop b chars i 0 = Inr not_found"
| "locate_chars_loop b chars i (Suc k) =
     bind_res (read_bytes b i 1) (\<lambda>c.
     if hd c \<in> set chars then Inr \<lparr>found = True, index = i, char_found = hd c\<rparr>
     else locate_chars_loop b chars (i + 1) k)"

definition str_locate_chars :: "mystr \<Rightarrow> string \<Rightarrow> str_locate_result res" where
  "str_locate_chars s p_chars =
     bind_res (vsf_sysutil_strlen p_chars) (\<lambda>num_chars.
       locate_chars_loop (block s) (c_str p_chars) 0 (len s))"

subsection \<open>Splitting\<close>

text \<open>The results are the new source (the left side) and the new right side.\<close>

definition str_split_text_common :: "mystr \<Rightarrow> mystr \<Rightarrow> string \<Rightarrow> bool \<Rightarrow> (mystr \<times> mystr) res" where
  "str_split_text_common p_src p_rhs p_text is_reverse =
     bind_res (vsf_sysutil_strlen p_text) (\<lambda>search_len.
     bind_res (if is_reverse then str_locate_text_reverse p_src p_text
               else str_locate_text p_src p_text) (\<lambda>locate_result.
     if \<not> found locate_result then bind_res (str_empty p_rhs) (\<lambda>p_rhs. Inr (p_src, p_rhs))
     else let indexx = index locate_result in
       if uint_wrap (indexx + search_len) > len p_src
       then Inl (Bug ''indexx invalid in str_split_text'')
       else
         bind_res (private_str_alloc_memchunk p_rhs (drop (indexx + search_len) (block p_src))
                     (len p_src - indexx - search_len)) (\<lambda>p_rhs.
         bind_res (str_trunc p_src indexx) (\<lambda>p_src. Inr (p_src, p_rhs)))))"

definition str_split_text :: "mystr \<Rightarrow> mystr \<Rightarrow> string \<Rightarrow> (mystr \<times> mystr) res" where
  "str_split_text p_src p_rhs p_text = str_split_text_common p_src p_rhs p_text False"

definition str_split_text_reverse :: "mystr \<Rightarrow> mystr \<Rightarrow> string \<Rightarrow> (mystr \<times> mystr) res" where
  "str_split_text_reverse p_src p_rhs p_text = str_split_text_common p_src p_rhs p_text True"

definition str_split_char :: "mystr \<Rightarrow> mystr \<Rightarrow> char \<Rightarrow> (mystr \<times> mystr) res" where
  "str_split_char p_src p_rhs c = str_split_text p_src p_rhs [c]"

definition str_split_char_reverse :: "mystr \<Rightarrow> mystr \<Rightarrow> char \<Rightarrow> (mystr \<times> mystr) res" where
  "str_split_char_reverse p_src p_rhs c = str_split_text_reverse p_src p_rhs [c]"

subsection \<open>Parts\<close>

definition str_left :: "mystr \<Rightarrow> mystr \<Rightarrow> nat \<Rightarrow> mystr res" where
  "str_left s p_out chars =
     (if chars > len s then Inl (Bug ''chars invalid in str_left'')
      else private_str_alloc_memchunk p_out (block s) chars)"

definition str_right :: "mystr \<Rightarrow> mystr \<Rightarrow> nat \<Rightarrow> mystr res" where
  "str_right s p_out chars =
     (if chars > len s then Inl (Bug ''chars invalid in str_right'')
      else private_str_alloc_memchunk p_out (drop (len s - chars) (block s)) chars)"

definition str_mid_to_end :: "mystr \<Rightarrow> mystr \<Rightarrow> nat \<Rightarrow> mystr res" where
  "str_mid_to_end s p_out indexx =
     (if indexx > len s then Inl (Bug ''invalid indexx in str_mid_to_end'')
      else private_str_alloc_memchunk p_out (drop indexx (block s)) (len s - indexx))"

definition str_get_char_at :: "mystr \<Rightarrow> nat \<Rightarrow> char res" where
  "str_get_char_at s indexx =
     (if indexx \<ge> len s then Inl (Bug ''bad indexx in str_get_char_at'')
      else bind_res (read_bytes (block s) indexx 1) (\<lambda>c. Inr (hd c)))"

subsection \<open>Numbers\<close>

definition str_atoi :: "mystr \<Rightarrow> int res" where
  "str_atoi s = bind_res (str_text s) (\<lambda>t. Inr (vsf_sysutil_atoi t))"

definition str_a_to_filesize_t :: "mystr \<Rightarrow> nat res" where
  "str_a_to_filesize_t s = bind_res (str_text s) vsf_sysutil_a_to_filesize_t"

definition str_octal_to_uint :: "mystr \<Rightarrow> 32 word res" where
  "str_octal_to_uint s = bind_res (str_text s) (\<lambda>t. Inr (vsf_sysutil_octal_to_uint t))"

subsection \<open>Lines\<close>

text \<open>The end of a line: \<open>k\<close> characters are left from \<open>i\<close>.\<close>

fun line_end :: "bytes \<Rightarrow> nat \<Rightarrow> nat \<Rightarrow> nat res" where
  "line_end b i 0 = Inr i"
| "line_end b i (Suc k) =
     bind_res (read_bytes b i 1) (\<lambda>c.
     if hd c = CHR 0x0A then Inr i
     else if uint_wrap (i + 1) = 0 then Inl (Bug ''integer overflow'')
     else line_end b (i + 1) k)"

text \<open>The line break itself is skipped.\<close>

definition skip_newline :: "bytes \<Rightarrow> nat \<Rightarrow> nat \<Rightarrow> nat res" where
  "skip_newline b buf_len curr_pos =
     (if curr_pos < buf_len then
        bind_res (read_bytes b curr_pos 1) (\<lambda>c.
        if hd c = CHR 0x0A then
          if uint_wrap (curr_pos + 1) = 0 then Inl (Bug ''integer overflow'') else Inr (curr_pos + 1)
        else Inr curr_pos)
      else Inr curr_pos)"

text \<open>\<open>None\<close> when no line is left; else the line and the position after it.\<close>

definition str_getline :: "mystr \<Rightarrow> mystr \<Rightarrow> nat \<Rightarrow> (mystr \<times> nat option) res" where
  "str_getline s p_line_str start_pos =
     bind_res (str_getbuf s) (\<lambda>s.
     if start_pos > len s then Inl (Bug ''p_pos out of range in str_getline'')
     else bind_res (str_empty p_line_str) (\<lambda>p_line_str.
       if start_pos = len s then Inr (p_line_str, None)
       else bind_res (line_end (block s) start_pos (len s - start_pos)) (\<lambda>curr_pos.
         let out_len = curr_pos - start_pos in
         bind_res (skip_newline (block s) (len s) curr_pos) (\<lambda>curr_pos.
         bind_res (private_str_alloc_memchunk p_line_str (drop start_pos (block s)) out_len)
           (\<lambda>p_line_str. Inr (p_line_str, Some curr_pos))))))"

subsection \<open>Replacing a text\<close>

lemma memchunk_len: "private_str_alloc_memchunk s src n = Inr s' \<Longrightarrow> len s' = n"
  by (auto simp: private_str_alloc_memchunk_def Let_def split: if_splits)

lemma str_empty_len: "str_empty s = Inr s' \<Longrightarrow> len s' = 0"
  by (auto simp: str_empty_def str_trunc_def split: if_splits)

lemma locate_loop_index:
  "locate_loop b t n i k = Inr r \<Longrightarrow> found r \<Longrightarrow> i \<le> index r \<and> index r < i + k"
  by (induction b t n i k rule: locate_loop.induct)
    (fastforce simp: not_found_def found_at_def split: if_splits)+

lemma split_text_len:
  assumes "str_split_text s r t = Inr (s', r')"
  shows "len r' = 0 \<or> len r' < len s"
proof -
  consider "len r' = 0"
    | n i where "vsf_sysutil_strlen t = Inr n" "n \<noteq> 0" "n \<le> len s" "len r' = len s - i - n"
    using assms
    by (auto simp: str_split_text_def str_split_text_common_def str_locate_text_def Let_def
        not_found_def dest!: memchunk_len str_empty_len split: if_splits)
  then show ?thesis
    by cases auto
qed

text \<open>
  The loop of \<open>str_replace_text\<close>: the destination, the left and the right chunk. It ends because the
  right chunk is empty or shorter than the left one.
\<close>

function replace_loop :: "string \<Rightarrow> string \<Rightarrow> mystr \<Rightarrow> mystr \<Rightarrow> mystr \<Rightarrow> mystr res" where
  "replace_loop p_from p_to s lhs rhs =
     (let lhs_len = len lhs in
      bind_res (str_split_text lhs rhs p_from) (\<lambda>(lhs, rhs).
      bind_res (str_append_str s lhs) (\<lambda>s.
      bind_res (if len lhs < lhs_len then str_append_text s p_to else Inr s) (\<lambda>s.
      bind_res (str_copy lhs rhs) (\<lambda>lhs.
      if str_isempty lhs then Inr s else replace_loop p_from p_to s lhs rhs)))))"
  by pat_completeness auto
termination
proof (relation "measure (\<lambda>(p_from, p_to, s, lhs, rhs). len lhs)"; clarsimp)
  fix p_from lhs rhs lhs' rhs' lhs''
  assume "str_split_text lhs rhs p_from = Inr (lhs', rhs')" "str_copy lhs' rhs' = Inr lhs''"
    and "\<not> str_isempty lhs''"
  then show "len lhs'' < len lhs"
    using split_text_len [of lhs rhs p_from lhs' rhs'] by (auto simp: str_copy_def str_isempty_def dest!: memchunk_len)
qed

declare replace_loop.simps [simp del]

definition str_replace_text :: "mystr \<Rightarrow> mystr \<Rightarrow> mystr \<Rightarrow> string \<Rightarrow> string \<Rightarrow> mystr res" where
  "str_replace_text s_lhs s_rhs s p_from p_to =
     bind_res (str_copy s_lhs s) (\<lambda>lhs. replace_loop p_from p_to (str_free s) lhs s_rhs)"

subsection \<open>Searching a line\<close>

lemma line_end_le: "line_end b i k = Inr j \<Longrightarrow> i \<le> j \<and> j \<le> i + k"
  by (induction b i k rule: line_end.induct) (fastforce split: if_splits)+

lemma line_end_stop: "line_end b i (Suc k) = Inr i \<Longrightarrow> \<exists>c. read_bytes b i 1 = Inr c \<and> hd c = CHR 0x0A"
  by (auto dest!: line_end_le split: if_splits)

lemma skip_newline_le: "skip_newline b n c = Inr q \<Longrightarrow> c \<le> q \<and> (c \<le> n \<longrightarrow> q \<le> n)"
  by (auto simp: skip_newline_def split: if_splits)

lemma line_progress:
  assumes c: "line_end b p (n - p) = Inr c" and p: "p < n" and q: "skip_newline b n c = Inr q"
  shows "p < q \<and> q \<le> n"
proof (cases "c = p")
  case True
  have "Suc (n - p - 1) = n - p"
    using p by simp
  with c True have "line_end b p (Suc (n - p - 1)) = Inr p"
    by (simp only:)
  then obtain d where "read_bytes b p 1 = Inr d" "hd d = CHR 0x0A"
    using line_end_stop by blast
  with q p True show ?thesis
    by (auto simp: skip_newline_def split: if_splits)
next
  case False
  with line_end_le [OF c] p skip_newline_le [OF q] show ?thesis by auto
qed

lemma getline_progress:
  assumes "str_getline s l p = Inr (l', Some q)"
  shows "p < q \<and> q \<le> len s"
proof (cases "p_buf s")
  case None
  with assms show ?thesis
    by (auto simp: str_getline_def str_getbuf_def dest!: memchunk_len split: if_splits)
next
  case (Some b)
  with assms show ?thesis
    using line_progress [of "block s" p "len s"]
    by (auto simp: str_getline_def str_getbuf_def Let_def split: if_splits)
qed

function contains_line_loop :: "mystr \<Rightarrow> mystr \<Rightarrow> mystr \<Rightarrow> nat \<Rightarrow> bool res" where
  "contains_line_loop s line cur pos =
     bind_res (str_getline s cur pos) (\<lambda>(cur, p). case p of
       None \<Rightarrow> Inr False
     | Some pos \<Rightarrow>
         bind_res (str_equal cur line) (\<lambda>e.
         if e then Inr True else contains_line_loop s line cur pos))"
  by pat_completeness auto
termination
  by (relation "measure (\<lambda>(s, line, cur, pos). len s - pos)") (auto dest!: getline_progress)

declare contains_line_loop.simps [simp del]

definition str_contains_line :: "mystr \<Rightarrow> mystr \<Rightarrow> mystr \<Rightarrow> bool res" where
  "str_contains_line s_curr s line = contains_line_loop s line s_curr 0"

end
