(* ===== verification/Str_Refine.thy ===== *)
theory Str_Refine
  imports Str Str_Spec
begin

text \<open>
  The string buffers implement strings: every operation of \<open>Str\<close> on buffers that represent strings
  runs without a fault, as long as the result stays below \<open>INT_MAX\<close>, and its result represents what
  \<open>Str_Spec\<close> computes. Operations that change one string share a contract, stated as a locale.
\<close>

subsection \<open>Representation\<close>

definition rep :: "mystr \<Rightarrow> string \<Rightarrow> bool" where
  "rep s t \<longleftrightarrow>
     (case p_buf s of
        None \<Rightarrow> t = [] \<and> len s = 0 \<and> alloc_bytes s = 0
      | Some b \<Rightarrow> (\<exists>rest. b = map Some t @ Some NUL # rest) \<and> len s = length t \<and>
                  alloc_bytes s = length b \<and> length b \<le> INT_MAX)"

text \<open>A buffer is allocated.\<close>

definition rep_buf :: "mystr \<Rightarrow> string \<Rightarrow> bool" where
  "rep_buf s t \<longleftrightarrow> rep s t \<and> p_buf s \<noteq> None"

lemma rep_buf_rep: "rep_buf s t \<Longrightarrow> rep s t"
  by (simp add: rep_buf_def)

lemma rep_bufE:
  assumes "rep_buf s t"
  obtains rest where "p_buf s = Some (map Some t @ Some NUL # rest)" "len s = length t"
    "alloc_bytes s = length t + 1 + length rest" "length t + 1 + length rest \<le> INT_MAX"
  using assms by (auto simp: rep_buf_def rep_def)

lemma rep_bufI:
  "p_buf s = Some (map Some t @ Some NUL # rest) \<Longrightarrow> len s = length t \<Longrightarrow>
   alloc_bytes s = length t + 1 + length rest \<Longrightarrow> length t + 1 + length rest \<le> INT_MAX \<Longrightarrow> rep_buf s t"
  by (auto simp: rep_buf_def rep_def)

lemma rep_cases:
  assumes "rep s t"
  obtains "s = INIT_MYSTR" "t = []" | "rep_buf s t"
  using assms by (cases "p_buf s") (auto simp: rep_def rep_buf_def INIT_MYSTR_def)

lemma rep_INIT [simp]: "rep INIT_MYSTR []"
  by (simp add: rep_def INIT_MYSTR_def)

lemma rep_len: "rep s t \<Longrightarrow> len s = length t"
  by (auto simp: rep_def split: option.splits)

lemma rep_length: "rep s t \<Longrightarrow> length t < INT_MAX"
  by (auto simp: rep_def INT_MAX_def split: option.splits)

lemma rep_block: "rep s t \<Longrightarrow> \<exists>rest. block s = map Some t @ rest"
  by (auto simp: rep_def block_def split: option.splits)

lemma rep_free [simp]: "rep (str_free s) []"
  by (simp add: rep_def str_free_def)

lemma uint_wrap_id: "n < 2 ^ 32 \<Longrightarrow> uint_wrap n = n"
  by (simp add: uint_wrap_def)

lemma take_app: "n = length u \<Longrightarrow> take n (u @ v) = u" "n = length u \<Longrightarrow> drop n (u @ v) = v"
  by simp_all

subsection \<open>Filling a buffer\<close>

lemma alloc_rep:
  assumes "rep s t" and src: "src = map Some u @ rest" and n: "n = length u" "length u < INT_MAX"
  shows "holds (private_str_alloc_memchunk s src n) no_fault (\<lambda>s'. rep_buf s' u)"
proof -
  have n': "uint_wrap (n + 1) = n + 1" "n + 1 \<le> INT_MAX" "INT_MAX < 2 ^ 32"
    using n by (simp_all add: INT_MAX_def uint_wrap_id)
  define ready where "ready = (if n + 1 > alloc_bytes s
    then s\<lparr>p_buf := Some (replicate (n + 1) None), len := 0, alloc_bytes := n + 1\<rparr> else s)"
  have fill: "private_str_alloc_memchunk s src n =
    bind_res (vsf_sysutil_memcpy (block ready) 0 src n) (\<lambda>b.
    bind_res (arr_write b n (Some NUL)) (\<lambda>b. Inr (ready\<lparr>p_buf := Some b, len := n\<rparr>)))"
    using n' by (simp add: private_str_alloc_memchunk_def Let_def ready_def vsf_sysutil_malloc_def
        s_setbuf_def str_free_def block_def)
  have "length (block ready) = alloc_bytes ready \<and> n < alloc_bytes ready \<and> alloc_bytes ready \<le> INT_MAX"
    using assms n' by (auto simp: ready_def block_def rep_def split: option.splits)
  then obtain b where b: "block ready = b" "n < length b" "length b = alloc_bytes ready" "length b \<le> INT_MAX"
    by auto
  have copy: "vsf_sysutil_memcpy b 0 src n = Inr (map Some u @ drop n b)"
    using b n n' src by (auto simp: vsf_sysutil_memcpy_def)
  have "b = take n b @ b ! n # drop (n + 1) b"
    using b by (simp add: id_take_nth_drop)
  then have "drop n b = b ! n # drop (n + 1) b"
    using b by (simp add: Cons_nth_drop_Suc)
  then have "(map Some u @ drop n b)[n := Some NUL] = map Some u @ Some NUL # drop (n + 1) b"
    using n by (simp add: list_update_append)
  then show ?thesis
    unfolding fill b(1) copy
    using b n by (simp add: holds_bind arr_write_def rep_bufI [where rest = "drop (n + 1) b"])
qed

lemma append_rep:
  assumes "rep s t" and src: "src = map Some u @ rest" and n: "n = length u"
    and small: "length t + length u < INT_MAX"
  shows "holds (private_str_append_memchunk s src n) no_fault (\<lambda>s'. rep_buf s' (t @ u))"
proof -
  define m where "m = length t + n + 1"
  have m: "m \<le> INT_MAX" "INT_MAX < 2 ^ 32"
    using small n by (simp_all add: m_def INT_MAX_def)
  have len: "len s = length t" using assms(1) by (rule rep_len)
  define b where "b = (if m > alloc_bytes s
    then take m (block s) @ replicate (m - length (block s)) None else block s)"
  define k where "k = (if m > alloc_bytes s then m else alloc_bytes s)"
  have wraps: "uint_wrap (n + length t) = n + length t" "uint_wrap (n + length t + 1) = m"
      "uint_wrap (Suc (n + length t)) = m" "\<not> m < n + length t"
    using m by (simp_all add: uint_wrap_id m_def)
  have m_pos: "0 < m" by (simp add: m_def)
  have fill: "private_str_append_memchunk s src n =
    bind_res (vsf_sysutil_memcpy b (length t) src n) (\<lambda>b.
    bind_res (arr_write b (length t + n) (Some NUL)) (\<lambda>b.
      Inr (s\<lparr>alloc_bytes := k, p_buf := Some b, len := length t + n\<rparr>)))"
    using m by (simp add: private_str_append_memchunk_def wraps len Let_def b_def k_def
        vsf_sysutil_realloc_def block_def m_pos)
  obtain rest' where blk: "block s = map Some t @ rest'"
    using rep_block [OF assms(1)] by blast
  have size: "length (block s) = alloc_bytes s" "alloc_bytes s \<le> INT_MAX"
    using assms(1) by (auto simp: rep_def block_def split: option.splits)
  define tail where "tail = rest' @ (if m > alloc_bytes s then replicate (m - length (block s)) None else [])"
  have b: "b = map Some t @ tail" "length b = k" "k \<le> INT_MAX" "m \<le> k"
    using blk size m by (auto simp add: b_def k_def tail_def)
  then have tail: "n < length tail" by (simp add: m_def)
  have copy: "vsf_sysutil_memcpy b (length t) src n = Inr (map Some (t @ u) @ drop n tail)"
    using b m n src by (auto simp: vsf_sysutil_memcpy_def m_def)
  have "drop n tail = tail ! n # drop (n + 1) tail"
    using tail by (simp add: Cons_nth_drop_Suc)
  then have "(map Some (t @ u) @ drop n tail)[length t + n := Some NUL] =
      map Some (t @ u) @ Some NUL # drop (n + 1) tail"
    using n by (simp add: list_update_append)
  then show ?thesis
    unfolding fill copy
    using b n tail by (simp add: holds_bind arr_write_def rep_bufI [where rest = "drop (n + 1) tail"])
qed
subsection \<open>The contract of an operation on one string\<close>

text \<open>
  \<open>op\<close> implements the string function \<open>aop\<close> on strings with \<open>pre\<close>. The client's lemma is that
  operations with this contract can be chained.
\<close>

locale str_op =
  fixes op :: "mystr \<Rightarrow> mystr res"
    and aop :: "string \<Rightarrow> string"
    and pre :: "string \<Rightarrow> bool"
  assumes implements: "rep s t \<Longrightarrow> pre t \<Longrightarrow> holds (op s) no_fault (\<lambda>s'. rep s' (aop t))"
begin

lemma before:
  assumes "rep s t" "pre t" "\<And>s'. rep s' (aop t) \<Longrightarrow> holds (f s') no_fault Q"
  shows "holds (bind_res (op s) f) no_fault Q"
  by (rule holds_bindI [OF implements [OF assms(1,2)]]) (rule assms(3))

end

definition short_text :: "string \<Rightarrow> bool" where
  "short_text t \<longleftrightarrow> length (c_str t) \<le> INT_MAX div 8"

lemma strlen_short [simp]: "short_text t \<Longrightarrow> vsf_sysutil_strlen t = Inr (length (c_str t))"
  by (simp add: short_text_def vsf_sysutil_strlen_def)

lemma str_alloc_text_rep:
  "rep s t \<Longrightarrow> short_text u \<Longrightarrow> holds (str_alloc_text s u) no_fault (\<lambda>s'. rep_buf s' (c_str u))"
  unfolding str_alloc_text_def
  by (simp add: text_bytes_def, rule alloc_rep) (auto simp: short_text_def INT_MAX_def)

lemma str_copy_rep:
  assumes "rep d t" "rep s u"
  shows "holds (str_copy d s) no_fault (\<lambda>s'. rep_buf s' u)"
proof -
  obtain rest where "block s = map Some u @ rest"
    using rep_block [OF assms(2)] by blast
  then show ?thesis
    unfolding str_copy_def
    using assms by (intro alloc_rep) (auto simp: rep_len rep_length)
qed

lemma str_getbuf_rep: "rep s t \<Longrightarrow> holds (str_getbuf s) no_fault (\<lambda>s'. rep_buf s' t)"
proof (erule rep_cases)
  assume s: "s = INIT_MYSTR" "t = []"
  have "holds (private_str_alloc_memchunk s [] 0) no_fault (\<lambda>s'. rep_buf s' [])"
    by (rule alloc_rep [where t = "[]" and rest = "[]"]) (use s in \<open>simp_all add: INT_MAX_def\<close>)
  with s show ?thesis
    by (simp add: str_getbuf_def INIT_MYSTR_def)
qed (auto simp: str_getbuf_def rep_buf_def)

lemma str_trunc_rep:
  assumes "rep_buf s t" "n \<le> length t"
  shows "holds (str_trunc s n) no_fault (\<lambda>s'. rep_buf s' (take n t))"
  using assms(1)
proof (rule rep_bufE)
  fix rest
  assume s: "p_buf s = Some (map Some t @ Some NUL # rest)" "len s = length t"
    "alloc_bytes s = length t + 1 + length rest" "length t + 1 + length rest \<le> INT_MAX"
  define all where "all = map Some t @ Some NUL # rest"
  have "n < length all" using assms(2) by (simp add: all_def)
  then have "all[n := Some NUL] = take n all @ Some NUL # drop (n + 1) all"
    by (simp add: upd_conv_take_nth_drop)
  moreover have "take n all = map Some (take n t)"
    using assms(2) by (simp add: all_def take_map)
  ultimately have upd: "all[n := Some NUL] = map Some (take n t) @ Some NUL # drop (n + 1) all"
    by simp
  have "length all = alloc_bytes s" using s by (simp add: all_def)
  with s assms(2) show ?thesis
    unfolding str_trunc_def block_def s(1) all_def [symmetric]
    by (simp add: holds_bind arr_write_def upd) (auto intro!: rep_bufI)
qed

lemma str_empty_rep: "rep s t \<Longrightarrow> holds (str_empty s) no_fault (\<lambda>s'. rep_buf s' [])"
  unfolding str_empty_def
  by (erule holds_bindI [OF str_getbuf_rep]) (use str_trunc_rep [of _ t 0] in simp)

lemma str_append_str_rep:
  assumes "rep s t" "rep v u" "length t + length u < INT_MAX"
  shows "holds (str_append_str s v) no_fault (\<lambda>s'. rep_buf s' (t @ u))"
proof -
  obtain rest where "block v = map Some u @ rest"
    using rep_block [OF assms(2)] by blast
  then show ?thesis
    unfolding str_append_str_def
    using assms by (intro append_rep) (auto simp: rep_len)
qed

lemma str_append_text_rep:
  assumes "rep s t" "short_text u" "length t + length (c_str u) < INT_MAX"
  shows "holds (str_append_text s u) no_fault (\<lambda>s'. rep_buf s' (t @ c_str u))"
  unfolding str_append_text_def strlen_short [OF assms(2)]
  using assms by (simp add: text_bytes_def) (rule append_rep, auto)

lemma str_append_char_rep:
  assumes "rep s t" "length t + 1 < INT_MAX"
  shows "holds (str_append_char s c) no_fault (\<lambda>s'. rep_buf s' (t @ [c]))"
  unfolding str_append_char_def
  using assms by (intro append_rep [where rest = "[]"]) auto

lemma append_spaces_rep:
  "rep s t \<Longrightarrow> length t + k < INT_MAX \<Longrightarrow>
   holds (append_spaces k s) no_fault (\<lambda>s'. rep s' (t @ replicate k (CHR '' '')))"
proof (induction k arbitrary: s t)
  case (Suc k)
  from Suc.prems have "holds (str_append_char s (CHR '' '')) no_fault (\<lambda>s'. rep_buf s' (t @ '' ''))"
    by (intro str_append_char_rep) simp_all
  then show ?case
  proof (simp, rule holds_bindI)
    fix s' assume "rep_buf s' (t @ '' '')"
    with Suc.IH [of s' "t @ '' ''"] Suc.prems
    show "holds (append_spaces k s') no_fault (\<lambda>s'. rep s' (t @ CHR '' '' # replicate k (CHR '' '')))"
      by (simp add: rep_buf_rep)
  qed
qed simp

interpretation append_text: str_op "\<lambda>s. str_append_text s u" "\<lambda>t. t @ c_str u"
    "\<lambda>t. short_text u \<and> length t + length (c_str u) < INT_MAX" for u
  by unfold_locales (auto intro: holds_conseq [OF str_append_text_rep] rep_buf_rep)

interpretation append_char: str_op "\<lambda>s. str_append_char s c" "\<lambda>t. t @ [c]"
    "\<lambda>t. length t + 1 < INT_MAX" for c
  by unfold_locales (auto intro: holds_conseq [OF str_append_char_rep] rep_buf_rep)

lemma str_rpad_rep:
  "rep s t \<Longrightarrow> w < INT_MAX \<Longrightarrow>
   holds (str_rpad s w) no_fault (\<lambda>s'. rep s' (t @ replicate (w - length t) (CHR '' '')))"
  by (auto simp: str_rpad_def rep_len intro: append_spaces_rep)

lemma str_lpad_rep:
  assumes "rep tmp v" "rep s t" "w < INT_MAX"
  shows "holds (str_lpad tmp s w) no_fault (\<lambda>s'. rep s' (replicate (w - length t) (CHR '' '') @ t))"
proof (cases "length t < w")
  case True
  have len: "len s = length t" using assms(2) by (rule rep_len)
  show ?thesis
    unfolding str_lpad_def len
    using True assms
    by (simp, intro holds_bindI [OF str_empty_rep [OF assms(1)]]
        holds_bindI [OF append_spaces_rep [where t = "[]"]]
        holds_bindI [OF str_append_str_rep [OF _ assms(2)]]
        holds_conseq [OF str_copy_rep [OF assms(2)]])
      (auto intro: rep_buf_rep)
qed (use assms in \<open>simp add: str_lpad_def rep_len\<close>)

subsection \<open>Loops over the characters\<close>

lemma read_char: "i < length t \<Longrightarrow> read_bytes (map Some t @ rest) i (Suc 0) = Inr [t ! i]"
  by (simp add: read_bytes_def drop_map take_map hd_drop_conv_nth take_Suc)

lemma update_chars_map:
  "i + k \<le> length t \<Longrightarrow> update_chars f i k (map Some t @ rest) =
     Inr (map Some (take i t @ map f (take k (drop i t)) @ drop (i + k) t) @ rest)"
proof (induction k arbitrary: i t)
  case (Suc k)
  then have i: "i < length t" by simp
  have upd: "(map Some t @ rest)[i := Some c] = map Some (t[i := c]) @ rest" for c
    using i by (simp add: list_update_append map_update)
  have "take (Suc i) (t[i := c]) = take i t @ [c]" "drop (Suc i) (t[i := c]) = drop (Suc i) t" for c
    using i by (simp_all add: take_Suc_conv_app_nth)
  moreover have "take (Suc k) (drop i t) = t ! i # take k (drop (Suc i) t)"
    using i by (simp flip: Cons_nth_drop_Suc)
  ultimately show ?case
    using Suc.IH [of "Suc i" "t[i := f (t ! i)]"] Suc.prems i
    by (simp add: read_char upd arr_write_def)
qed simp

lemma in_place_rep:
  assumes "rep s t"
  shows "holds (in_place f s) no_fault (\<lambda>s'. rep s' (map f t))"
  using assms
proof (cases rule: rep_cases)
  case 1
  then show ?thesis by (simp add: in_place_def INIT_MYSTR_def rep_def)
next
  case 2
  from 2 obtain rest where s: "p_buf s = Some (map Some t @ Some NUL # rest)" "len s = length t"
    "alloc_bytes s = length t + 1 + length rest" "length t + 1 + length rest \<le> INT_MAX"
    by (rule rep_bufE)
  show ?thesis
  proof (cases "t = []")
    case True
    with s assms show ?thesis by (simp add: in_place_def)
  next
    case False
    have "update_chars f 0 (length t) (map Some t @ Some NUL # rest) =
        Inr (map Some (map f t) @ Some NUL # rest)"
      by (subst update_chars_map) simp_all
    with s False have "in_place f s = Inr (s\<lparr>p_buf := Some (map Some (map f t) @ Some NUL # rest)\<rparr>)"
      by (simp add: in_place_def block_def)
    with s show ?thesis by (auto intro!: rep_buf_rep rep_bufI)
  qed
qed

interpretation upper: str_op str_upper s_upper "\<lambda>_. True"
  by unfold_locales (simp add: str_upper_def s_upper_def in_place_rep)

interpretation replace_char: str_op "\<lambda>s. str_replace_char s old new"
    "map (\<lambda>c. if c = old then new else c)" "\<lambda>_. True" for old new
  by unfold_locales (simp add: str_replace_char_def in_place_rep)

interpretation replace_unprintable: str_op "\<lambda>s. str_replace_unprintable s new"
    "map (\<lambda>c. if \<not> vsf_sysutil_isprint c then new else c)" "\<lambda>_. True" for new
  by unfold_locales (simp add: str_replace_unprintable_def in_place_rep)

lemma some_char_map:
  "i + k \<le> length t \<Longrightarrow>
   some_char P i k (map Some t @ rest) = Inr (\<exists>c \<in> set (take k (drop i t)). P c)"
proof (induction k arbitrary: i)
  case (Suc k)
  then have "take (Suc k) (drop i t) = t ! i # take k (drop (Suc i) t)"
    by (simp flip: Cons_nth_drop_Suc)
  with Suc show ?case by (simp add: read_char)
qed simp

lemma some_char_rep:
  assumes "rep s t"
  shows "some_char P 0 (len s) (block s) = Inr (\<exists>c \<in> set t. P c)"
proof -
  obtain rest where "block s = map Some t @ rest"
    using rep_block [OF assms] by blast
  with assms show ?thesis by (simp add: some_char_map rep_len)
qed

lemma str_contains_unprintable_rep:
  "rep s t \<Longrightarrow> str_contains_unprintable s = Inr (\<exists>c \<in> set t. \<not> vsf_sysutil_isprint c)"
  by (simp add: str_contains_unprintable_def some_char_rep)

lemma str_contains_space_rep:
  "rep s t \<Longrightarrow> str_contains_space s = Inr (\<exists>c \<in> set t. vsf_sysutil_isspace c)"
  by (simp add: str_contains_space_def some_char_rep)

lemma str_all_space_rep:
  "rep s t \<Longrightarrow> str_all_space s = Inr (\<forall>c \<in> set t. vsf_sysutil_isspace c)"
  by (simp add: str_all_space_def some_char_rep)

subsection \<open>Comparison\<close>

lemma read_prefix:
  "i + n \<le> length t \<Longrightarrow> read_bytes (map Some t @ rest) i n = Inr (take n (drop i t))"
  by (auto simp: read_bytes_def drop_map take_map comp_def)

lemma memcmp_map:
  assumes "i + n \<le> length t" "n \<le> length u"
  shows "vsf_sysutil_memcmp (map Some t @ rest) i (map Some u @ rest') n =
    Inr (memcmp_chars (take n (drop i t)) (take n u))"
  using assms read_prefix [of 0 n u rest'] by (simp add: vsf_sysutil_memcmp_def read_prefix)

text \<open>The order of strings: lexicographic in the codes, a prefix before its extensions.\<close>

definition s_compare :: "string \<Rightarrow> string \<Rightarrow> int" where
  "s_compare t u =
     (let r = memcmp_chars t u in if r \<noteq> 0 \<or> length t = length u then r
      else int (length t) - int (length u))"

lemma memcmp_chars_take:
  "memcmp_chars (take (min (length t) (length u)) t) (take (min (length t) (length u)) u) = memcmp_chars t u"
  by (induction t u rule: memcmp_chars.induct) auto

lemma uint_diff_int:
  assumes "m < INT_MAX" "n < INT_MAX"
  shows "uint_diff m n = int m - int n"
proof -
  have "uint_diff m n = signed_take_bit 31 (int m - int n)"
  proof -
    have "(of_nat m - of_nat n :: 32 word) = of_int (int m - int n)"
      by simp
    then show ?thesis
      unfolding uint_diff_def by (simp only: signed_of_int) simp
  qed
  also have "\<dots> = int m - int n"
    using assms by (intro signed_take_bit_int_eq_self) (simp_all add: INT_MAX_def)
  finally show ?thesis .
qed

lemma str_equal_internal_map:
  assumes "length t < INT_MAX" "length u < INT_MAX"
  shows "str_equal_internal (map Some t @ r) (length t) (map Some u @ r') (length u) = Inr (s_compare t u)"
proof -
  define n where "n = (if length u < length t then length u else length t)"
  have n: "n = min (length t) (length u)" by (simp add: n_def)
  then have "vsf_sysutil_memcmp (map Some t @ r) 0 (map Some u @ r') n = Inr (memcmp_chars t u)"
    using memcmp_map [of 0 n t u r r'] memcmp_chars_take [of t u] by simp
  then show ?thesis
    using assms unfolding str_equal_internal_def n_def [symmetric]
    by (simp add: s_compare_def Let_def uint_diff_int)
qed

lemma str_strcmp_rep:
  assumes "rep s t" "rep v u"
  shows "str_strcmp s v = Inr (s_compare t u)"
proof -
  obtain r where "block s = map Some t @ r"
    using rep_block [OF assms(1)] by blast
  moreover obtain r' where "block v = map Some u @ r'"
    using rep_block [OF assms(2)] by blast
  ultimately show ?thesis
    using assms by (simp add: str_strcmp_def rep_len rep_length str_equal_internal_map)
qed

lemma s_compare_0: "s_compare t u = 0 \<longleftrightarrow> t = u"
  by (auto simp: s_compare_def Let_def memcmp_chars_eq split: if_splits)

lemma str_equal_rep: "rep s t \<Longrightarrow> rep v u \<Longrightarrow> str_equal s v = Inr (t = u)"
  by (simp add: str_equal_def str_strcmp_rep s_compare_0)

lemma str_equal_text_rep:
  assumes "rep s t" "short_text u"
  shows "str_equal_text s u = Inr (t = c_str u)"
proof -
  obtain r where "block s = map Some t @ r"
    using rep_block [OF assms(1)] by blast
  moreover have "length (c_str u) < INT_MAX"
    using assms(2) by (simp add: short_text_def INT_MAX_def)
  ultimately show ?thesis
    using assms rep_length [OF assms(1)]
      str_equal_internal_map [of t "c_str u" r "[Some NUL]"]
    by (simp add: str_equal_text_def text_bytes_def rep_len s_compare_0)
qed

end
