(* ===== verification/Str_Search.thy ===== *)
theory Str_Search
  imports Str_Refine
begin

text \<open>
  Searching, splitting, replacing and reading lines on buffers: the refinement of \<open>Str_Spec\<close>,
  continued. The claims about the string layer are here.
\<close>

lemma holds_ex: "holds m no_fault Q \<Longrightarrow> \<exists>r. m = Inr r \<and> Q r"
  by (cases m) simp_all

subsection \<open>Searching\<close>

lemma locate_loop_map:
  assumes "u \<noteq> []" "i + k + length u \<le> length t + 1" "NUL \<notin> set u"
  shows "locate_loop (map Some t @ rest) u (length u) i k =
    Inr (case find (occurs_at u t) [i..<i + k] of None \<Rightarrow> not_found | Some j \<Rightarrow> found_at j)"
  using assms(2)
proof (induction k arbitrary: i)
  case (Suc k)
  have "vsf_sysutil_memcmp (map Some t @ rest) i (text_bytes u) (length u) =
      Inr (memcmp_chars (take (length u) (drop i t)) u)"
    using memcmp_map [of i "length u" t u rest "[Some NUL]"] Suc.prems assms(3)
    by (simp add: text_bytes_def c_str_id)
  moreover have "memcmp_chars (take (length u) (drop i t)) u = 0 \<longleftrightarrow> occurs_at u t i"
    using Suc.prems by (subst memcmp_chars_eq) (auto simp: occurs_at_def)
  moreover have "[i..<i + Suc k] = i # [Suc i..<Suc i + k]"
    by (simp add: upt_conv_Cons del: upt_Suc)
  ultimately show ?case
    using Suc.IH [of "Suc i"] Suc.prems by (simp del: upt_Suc)
qed simp

lemma locate_reverse_loop_map:
  assumes "u \<noteq> []" "i + length u \<le> length t" "NUL \<notin> set u"
  shows "locate_reverse_loop (map Some t @ rest) u (length u) i =
    Inr (case find (occurs_at u t) (rev [0..<i + 1]) of None \<Rightarrow> not_found | Some j \<Rightarrow> found_at j)"
  using assms(2)
proof (induction i)
  case 0
  then show ?case
    using memcmp_map [of 0 "length u" t u rest "[Some NUL]"] assms(3)
    by (simp add: locate_reverse_loop.simps text_bytes_def c_str_id memcmp_chars_eq occurs_at_def)
next
  case (Suc i)
  have "vsf_sysutil_memcmp (map Some t @ rest) (Suc i) (text_bytes u) (length u) =
      Inr (memcmp_chars (take (length u) (drop (Suc i) t)) u)"
    using memcmp_map [of "Suc i" "length u" t u rest "[Some NUL]"] Suc.prems assms(3)
    by (simp add: text_bytes_def c_str_id)
  moreover have "memcmp_chars (take (length u) (drop (Suc i) t)) u = 0 \<longleftrightarrow> occurs_at u t (Suc i)"
    using Suc.prems by (subst memcmp_chars_eq) (auto simp: occurs_at_def)
  ultimately show ?case
    using Suc by (simp add: locate_reverse_loop.simps [of _ _ _ "Suc i"])
qed

definition locate_result :: "nat option \<Rightarrow> str_locate_result" where
  "locate_result r = (case r of None \<Rightarrow> not_found | Some i \<Rightarrow> found_at i)"

lemma c_str_idem [simp]: "c_str (c_str t) = c_str t" "NUL \<notin> set (c_str t)"
  by (auto simp: c_str_def dest: set_takeWhileD intro: takeWhile_eq_all_conv [THEN iffD2])

lemma locate_loop_c_str:
  "locate_loop b u n i k = locate_loop b (c_str u) n i k"
  by (induction b u n i k rule: locate_loop.induct) (auto simp: text_bytes_def intro!: bind_res_cong)

lemma locate_reverse_loop_c_str:
  "locate_reverse_loop b u n i = locate_reverse_loop b (c_str u) n i"
proof (induction i)
  case (Suc i)
  then show ?case
    by (simp add: locate_reverse_loop.simps [of _ _ _ "Suc i"] text_bytes_def cong: if_cong)
qed (simp add: locate_reverse_loop.simps text_bytes_def cong: if_cong)

lemma str_locate_text_rep:
  assumes "rep s t" "short_text u"
  shows "str_locate_text s u = Inr (locate_result (s_locate_text u t))"
proof -
  obtain rest where b: "block s = map Some t @ rest"
    using rep_block [OF assms(1)] by blast
  show ?thesis
    using assms locate_loop_map [of "c_str u" 0 "length t - length (c_str u) + 1" t rest]
    by (auto simp: str_locate_text_def b rep_len locate_loop_c_str [of _ u] s_locate_text_def
        offsets_def locate_result_def simp del: upt_Suc locate_loop.simps)
qed

lemma str_locate_text_reverse_rep:
  assumes "rep s t" "short_text u"
  shows "str_locate_text_reverse s u = Inr (locate_result (s_locate_text_reverse u t))"
proof -
  obtain rest where b: "block s = map Some t @ rest"
    using rep_block [OF assms(1)] by blast
  show ?thesis
    using assms locate_reverse_loop_map [of "c_str u" "length t - length (c_str u)" t rest]
    by (auto simp: str_locate_text_reverse_def b rep_len locate_reverse_loop_c_str [of _ u]
        s_locate_text_reverse_def offsets_def locate_result_def simp del: upt_Suc)
qed

lemma takeWhile_text:
  "takeWhile (\<lambda>x. x \<noteq> Some NUL) (map Some t @ Some NUL # rest) = map Some (c_str t)"
  by (induction t) (auto simp: c_str_def)

lemma str_text_rep:
  assumes "rep s t"
  shows "str_text s = Inr (c_str t)"
proof -
  have "holds (str_getbuf s) no_fault (\<lambda>s'. rep_buf s' t)"
    by (rule str_getbuf_rep [OF assms])
  then obtain s' where s': "str_getbuf s = Inr s'" "rep_buf s' t"
    by (cases "str_getbuf s") auto
  from s'(2) obtain rest where "block s' = map Some t @ Some NUL # rest"
    by (auto elim: rep_bufE simp: block_def)
  moreover have "length (c_str t) \<noteq> length t + 1 + length rest"
    using length_c_str [of t] by simp
  ultimately show ?thesis
    by (auto simp: str_text_def s'(1) read_text_def takeWhile_text Let_def comp_def)
qed

lemma str_locate_str_rep:
  assumes "rep s t" "rep v u" "short_text u"
  shows "str_locate_str s v = Inr (locate_result (s_locate_text u t))"
  using str_locate_text_rep [OF assms(1), of "c_str u"] assms(3)
  by (simp add: str_locate_str_def str_text_rep [OF assms(2)] short_text_def s_locate_text_def)

lemma locate_chars_loop_map:
  "i + k \<le> length t \<Longrightarrow> locate_chars_loop (map Some t @ rest) cs i k =
    Inr (case find (\<lambda>i. t ! i \<in> set cs) [i..<i + k] of
           None \<Rightarrow> not_found
         | Some j \<Rightarrow> \<lparr>found = True, index = j, char_found = t ! j\<rparr>)"
proof (induction k arbitrary: i)
  case (Suc k)
  have "[i..<i + Suc k] = i # [Suc i..<Suc i + k]"
    by (simp add: upt_conv_Cons del: upt_Suc)
  with Suc show ?case by (simp add: read_char del: upt_Suc)
qed simp

lemma str_locate_chars_rep:
  assumes "rep s t" "short_text cs"
  shows "str_locate_chars s cs = Inr (case s_locate_chars cs t of
      None \<Rightarrow> not_found
    | Some j \<Rightarrow> \<lparr>found = True, index = j, char_found = t ! j\<rparr>)"
proof -
  obtain rest where "block s = map Some t @ rest"
    using rep_block [OF assms(1)] by blast
  with assms show ?thesis
    by (simp add: str_locate_chars_def s_locate_chars_def rep_len locate_chars_loop_map)
qed

subsection \<open>Splitting\<close>

definition rep_pair :: "mystr \<times> mystr \<Rightarrow> string \<times> string \<Rightarrow> bool" where
  "rep_pair = (\<lambda>(s, r) (t, u). rep s t \<and> rep r u)"

lemma split_common_rep:
  assumes s: "rep s t" and r: "rep r v" and short: "short_text u"
    and loc: "(if rv then str_locate_text_reverse s u else str_locate_text s u) = Inr (locate_result l)"
    and fits: "\<And>i. l = Some i \<Longrightarrow> i + length (c_str u) \<le> length t"
  shows "holds (str_split_text_common s r u rv) no_fault (\<lambda>p. rep_pair p (split_at u t l))"
proof (cases l)
  case None
  with s show ?thesis
    unfolding str_split_text_common_def loc
    by (simp add: short locate_result_def not_found_def holds_bind split_at_def)
      (rule holds_conseq [OF str_empty_rep [OF r]], simp add: rep_pair_def rep_buf_rep)
next
  case (Some i)
  then have i: "i + length (c_str u) \<le> length t" by (rule fits)
  obtain rest where b: "block s = map Some t @ rest"
    using rep_block [OF s] by blast
  define n where "n = i + length (c_str u)"
  have n: "uint_wrap n = n" "n \<le> length t"
    using i rep_length [OF s] by (simp_all add: n_def INT_MAX_def uint_wrap_id)
  have right: "holds (private_str_alloc_memchunk r (drop n (block s)) (length t - n))
      no_fault (\<lambda>r'. rep_buf r' (drop n t))"
    by (rule alloc_rep [OF r, where rest = rest]) (use b n rep_length [OF s] in \<open>auto simp: n_def drop_map\<close>)
  have left: "holds (str_trunc s i) no_fault (\<lambda>s'. rep_buf s' (take i t))"
  proof (cases rule: rep_cases [OF s])
    case 1
    with Some loc show ?thesis
      by (auto simp: locate_result_def found_at_def str_locate_text_def str_locate_text_reverse_def
          INIT_MYSTR_def short not_found_def split: if_splits)
  next
    case 2
    with i show ?thesis by (intro str_trunc_rep) simp_all
  qed
  show ?thesis
    unfolding str_split_text_common_def loc using Some n s
    by (simp add: short locate_result_def found_at_def Let_def rep_len split_at_def flip: n_def)
      (intro holds_bindI [OF right] holds_bindI [OF left]; simp add: rep_pair_def rep_buf_rep)
qed

lemma str_split_text_rep:
  assumes "rep s t" "rep r v" "short_text u"
  shows "holds (str_split_text s r u) no_fault (\<lambda>p. rep_pair p (s_split_text u t))"
  unfolding str_split_text_def s_split_text_def
  using assms by (intro split_common_rep) (auto simp: str_locate_text_rep s_locate_text_Some)

lemma find_set: "find P xs = Some x \<Longrightarrow> x \<in> set xs"
  by (induction xs) (auto split: if_splits)

lemma str_split_text_reverse_rep:
  assumes "rep s t" "rep r v" "short_text u"
  shows "holds (str_split_text_reverse s r u) no_fault (\<lambda>p. rep_pair p (s_split_text_reverse u t))"
  unfolding str_split_text_reverse_def s_split_text_reverse_def
  using assms
  by (intro split_common_rep)
    (auto simp: str_locate_text_reverse_rep s_locate_text_reverse_def offsets_def
      simp del: upt_Suc dest!: find_set split: if_splits)

subsection \<open>Replacing\<close>

lemma s_replace_miss: "s_locate_text f t = None \<Longrightarrow> s_replace_text f to t = t"
  by (simp add: s_replace_text.simps [of f to t])

lemma s_replace_hit:
  "s_locate_text f t = Some i \<Longrightarrow> s_replace_text f to t =
     take i t @ c_str to @ s_replace_text f to (drop (i + length (c_str f)) t)"
  by (simp add: s_replace_text.simps [of f to t])

lemma s_locate_Nil [simp]: "s_locate_text f [] = None"
  by (simp add: s_locate_text_def offsets_def)

lemma s_replace_Nil [simp]: "s_replace_text f to [] = []"
  by (simp add: s_replace_miss)

text \<open>One round of the loop appends the text before the first occurrence and its replacement.\<close>

definition replaced_head :: "string \<Rightarrow> string \<Rightarrow> string \<Rightarrow> string" where
  "replaced_head f to t =
     (case s_locate_text f t of None \<Rightarrow> t | Some i \<Rightarrow> take i t @ c_str to)"

lemma replaced_head_tail:
  "s_replace_text f to t = replaced_head f to t @ s_replace_text f to (snd (s_split_text f t))"
  by (cases "s_locate_text f t")
    (simp_all add: replaced_head_def s_replace_miss s_replace_hit s_split_text_miss s_split_text_hit)

lemma split_hit_length:
  assumes "s_locate_text f t = Some i"
  shows "i < length t" "length (snd (s_split_text f t)) < length t"
proof -
  from assms have "i + length (c_str f) \<le> length t" "0 < length (c_str f)"
    by (simp_all add: s_locate_text_Some)
  then have "i < length t \<and> length t - (i + length (c_str f)) < length t"
    by linarith
  then show "i < length t" "length (snd (s_split_text f t)) < length t"
    using s_split_text_hit [OF assms] by simp_all
qed

lemma split_hit_shorter:
  "length (fst (s_split_text f t)) < length t \<longleftrightarrow> s_locate_text f t \<noteq> None"
  by (cases "s_locate_text f t")
    (simp_all add: s_split_text_miss s_split_text_hit split_hit_length)

lemma split_rest_shorter: "snd (s_split_text f t) \<noteq> [] \<Longrightarrow> length (snd (s_split_text f t)) < length t"
  by (cases "s_locate_text f t") (simp_all add: s_split_text_miss split_hit_length)

lemma replace_loop_rep:
  assumes "short_text f" "short_text to"
  shows "rep s d \<Longrightarrow> rep lhs t \<Longrightarrow> rep rhs v \<Longrightarrow>
    length d + length (s_replace_text f to t) < INT_MAX \<Longrightarrow>
    holds (replace_loop f to s lhs rhs) no_fault (\<lambda>s'. rep s' (d @ s_replace_text f to t))"
proof (induction "length t" arbitrary: t d s lhs rhs v rule: less_induct)
  case less
  obtain l w where lw: "s_split_text f t = (l, w)" by (cases "s_split_text f t")
  have whole: "s_replace_text f to t = replaced_head f to t @ s_replace_text f to w"
    using replaced_head_tail [of f to t] lw by simp
  have head: "replaced_head f to t = l @ (if length l < length t then c_str to else [])"
    using split_hit_shorter [of f t] lw
    by (cases "s_locate_text f t") (auto simp: replaced_head_def s_split_text_miss s_split_text_hit)
  have bound: "length d + length l + length (if length l < length t then c_str to else []) +
      length (s_replace_text f to w) < INT_MAX"
    using less.prems(4) by (simp add: whole head)
  have len: "len lhs = length t" using less.prems(2) by (rule rep_len)
  show ?case
    unfolding replace_loop.simps [of f to s lhs rhs] len
    unfolding Let_def
  proof (rule holds_bindI [OF str_split_text_rep [OF less.prems(2,3) assms(1)]], clarsimp simp: lw rep_pair_def)
    fix lhs' rhs' assume l: "rep lhs' l" and w: "rep rhs' w"
    have l_len: "len lhs' = length l" using l by (rule rep_len)
    show "holds (bind_res (str_append_str s lhs') (\<lambda>s.
        bind_res (if len lhs' < length t then str_append_text s to else Inr s) (\<lambda>s.
        bind_res (str_copy lhs' rhs') (\<lambda>lhs.
        if str_isempty lhs then Inr s else replace_loop f to s lhs rhs')))) no_fault
      (\<lambda>s'. rep s' (d @ s_replace_text f to t))"
    proof (rule holds_bindI [OF str_append_str_rep [OF less.prems(1) l]], use bound in linarith)
      fix s1 assume s1: "rep_buf s1 (d @ l)"
      have "holds (if len lhs' < length t then str_append_text s1 to else Inr s1) no_fault
          (\<lambda>s2. rep s2 (d @ replaced_head f to t))"
        using holds_conseq [OF str_append_text_rep [OF rep_buf_rep [OF s1] assms(2)] rep_buf_rep] bound s1
        by (auto simp: l_len head rep_buf_rep)
      then show "holds (bind_res (if len lhs' < length t then str_append_text s1 to else Inr s1) (\<lambda>s.
          bind_res (str_copy lhs' rhs') (\<lambda>lhs.
          if str_isempty lhs then Inr s else replace_loop f to s lhs rhs'))) no_fault
        (\<lambda>s'. rep s' (d @ s_replace_text f to t))"
      proof (rule holds_bindI)
        fix s2 assume s2: "rep s2 (d @ replaced_head f to t)"
        show "holds (bind_res (str_copy lhs' rhs') (\<lambda>lhs.
            if str_isempty lhs then Inr s2 else replace_loop f to s2 lhs rhs')) no_fault
          (\<lambda>s'. rep s' (d @ s_replace_text f to t))"
        proof (rule holds_bindI [OF str_copy_rep [OF l w]])
          fix lhs2 assume c: "rep_buf lhs2 w"
          show "holds (if str_isempty lhs2 then Inr s2 else replace_loop f to s2 lhs2 rhs') no_fault
            (\<lambda>s'. rep s' (d @ s_replace_text f to t))"
          proof (cases "w = []")
            case True
            with s2 c show ?thesis
              by (simp add: str_isempty_def rep_len [OF rep_buf_rep [OF c]] whole)
          next
            case False
            with split_rest_shorter [of f t] lw have "length w < length t" by simp
            from less.hyps [OF this s2 rep_buf_rep [OF c] w] bound False show ?thesis
              by (simp add: str_isempty_def rep_len [OF rep_buf_rep [OF c]] whole head)
          qed
        qed
      qed
    qed
  qed
qed

lemma str_replace_text_rep:
  assumes "rep lhs v" "rep rhs w" "rep s t" "short_text f" "short_text to"
    "length (s_replace_text f to t) < INT_MAX"
  shows "holds (str_replace_text lhs rhs s f to) no_fault (\<lambda>s'. rep s' (s_replace_text f to t))"
  unfolding str_replace_text_def
proof (rule holds_bindI [OF str_copy_rep [OF assms(1,3)]])
  fix lhs' assume "rep_buf lhs' t"
  then have "holds (replace_loop f to (str_free s) lhs' rhs) no_fault
      (\<lambda>s'. rep s' ([] @ s_replace_text f to t))"
    using assms by (intro replace_loop_rep) (simp_all add: rep_buf_rep)
  then show "holds (replace_loop f to (str_free s) lhs' rhs) no_fault
      (\<lambda>s'. rep s' (s_replace_text f to t))"
    by simp
qed

subsection \<open>Parts and numbers\<close>

lemma part_rep:
  assumes "rep s t" "rep out v" "i + n \<le> length t"
  shows "holds (private_str_alloc_memchunk out (drop i (block s)) n) no_fault
    (\<lambda>s'. rep_buf s' (take n (drop i t)))"
proof -
  obtain rest where "block s = map Some t @ rest"
    using rep_block [OF assms(1)] by blast
  then have "drop i (block s) = map Some (take n (drop i t)) @ map Some (drop (i + n) t) @ rest"
  proof -
    have "drop i t = take n (drop i t) @ drop (i + n) t"
      by (metis append_take_drop_id drop_drop add.commute)
    then have "drop i (map Some t) = map Some (take n (drop i t)) @ map Some (drop (i + n) t)"
      by (metis drop_map map_append)
    with \<open>block s = _\<close> assms(3) show ?thesis by simp
  qed
  then show ?thesis
    by (rule alloc_rep [OF assms(2)]) (use assms rep_length [OF assms(1)] in auto)
qed

lemma str_left_rep:
  "rep s t \<Longrightarrow> rep out v \<Longrightarrow> n \<le> length t \<Longrightarrow>
   holds (str_left s out n) no_fault (\<lambda>s'. rep_buf s' (take n t))"
  using part_rep [of s t out v 0 n] by (simp add: str_left_def rep_len)

lemma str_right_rep:
  "rep s t \<Longrightarrow> rep out v \<Longrightarrow> n \<le> length t \<Longrightarrow>
   holds (str_right s out n) no_fault (\<lambda>s'. rep_buf s' (drop (length t - n) t))"
  using part_rep [of s t out v "length t - n" n] by (simp add: str_right_def rep_len)

lemma str_mid_to_end_rep:
  "rep s t \<Longrightarrow> rep out v \<Longrightarrow> i \<le> length t \<Longrightarrow>
   holds (str_mid_to_end s out i) no_fault (\<lambda>s'. rep_buf s' (drop i t))"
  using part_rep [of s t out v i "length t - i"] by (simp add: str_mid_to_end_def rep_len)

lemma str_get_char_at_rep:
  assumes "rep s t"
  shows "str_get_char_at s i =
    (if i < length t then Inr (t ! i) else Inl (Bug ''bad indexx in str_get_char_at''))"
proof -
  obtain rest where "block s = map Some t @ rest"
    using rep_block [OF assms] by blast
  with assms show ?thesis by (auto simp: str_get_char_at_def rep_len read_char)
qed

lemma str_atoi_rep: "rep s t \<Longrightarrow> str_atoi s = Inr (vsf_sysutil_atoi (c_str t))"
  by (simp add: str_atoi_def str_text_rep)

subsection \<open>Lines\<close>

lemma line_end_map:
  "i + k \<le> length t \<Longrightarrow> length t < INT_MAX \<Longrightarrow> line_end (map Some t @ rest) i k =
     Inr (i + length (takeWhile (\<lambda>c. c \<noteq> CHR 0x0A) (take k (drop i t))))"
proof (induction k arbitrary: i)
  case (Suc k)
  then have "take (Suc k) (drop i t) = t ! i # take k (drop (Suc i) t)"
    by (simp flip: Cons_nth_drop_Suc)
  moreover have "uint_wrap (i + 1) \<noteq> 0"
    using Suc.prems by (subst uint_wrap_id) (simp_all add: INT_MAX_def)
  ultimately show ?case
    using Suc.IH [of "i + 1"] Suc.prems by (simp add: read_char)
qed simp

definition rep_line :: "mystr \<times> nat option \<Rightarrow> (string \<times> nat) option \<Rightarrow> bool" where
  "rep_line = (\<lambda>(l, q) r. case r of
     None \<Rightarrow> q = None \<and> rep l []
   | Some (line, pos) \<Rightarrow> q = Some pos \<and> rep l line)"

lemma str_getline_rep:
  assumes s: "rep s t" and l: "rep l v" and pos: "pos \<le> length t"
  shows "holds (str_getline s l pos) no_fault (\<lambda>r. rep_line r (s_getline t pos))"
proof -
  obtain s' where s': "str_getbuf s = Inr s'" "rep_buf s' t"
    using holds_ex [OF str_getbuf_rep [OF s]] by blast
  obtain l' where l': "str_empty l = Inr l'" "rep_buf l' []"
    using holds_ex [OF str_empty_rep [OF l]] by blast
  have len: "len s' = length t" using s'(2) by (simp add: rep_len rep_buf_rep)
  show ?thesis
  proof (cases "pos = length t")
    case True
    with s' l' len show ?thesis
      by (simp add: str_getline_def s_getline_def rep_line_def rep_buf_rep)
  next
    case False
    obtain rest where b: "block s' = map Some t @ rest"
      using rep_block [OF rep_buf_rep [OF s'(2)]] by blast
    have small: "length t < INT_MAX" by (rule rep_length [OF s])
    define line where "line = takeWhile (\<lambda>c. c \<noteq> CHR 0x0A) (drop pos t)"
    define e where "e = pos + length line"
    have e: "line_end (block s') pos (length t - pos) = Inr e"
      using pos small by (simp add: b line_end_map e_def line_def)
    have le: "e \<le> length t"
      using length_takeWhile_le [of "\<lambda>c. c \<noteq> CHR 0x0A" "drop pos t"] pos by (simp add: e_def line_def)
    have stop: "e < length t \<Longrightarrow> t ! e = CHR 0x0A"
      using nth_length_takeWhile [of "\<lambda>c. c \<noteq> CHR 0x0A" "drop pos t"] pos by (simp add: e_def line_def)
    have skip: "skip_newline (block s') (length t) e = Inr (min (length t) (e + 1))"
      using stop le small by (auto simp: skip_newline_def b read_char uint_wrap_id INT_MAX_def)
    have "take (e - pos) (drop pos t) = line"
      by (simp add: e_def line_def flip: takeWhile_eq_take)
    then obtain l2 where l2: "private_str_alloc_memchunk l' (drop pos (block s')) (e - pos) = Inr l2"
        "rep_buf l2 line"
      using holds_ex [OF part_rep [OF rep_buf_rep [OF s'(2)] rep_buf_rep [OF l'(2)], of pos "e - pos"]] le
      by (auto simp: e_def)
    have "str_getline s l pos = Inr (l2, Some (min (length t) (e + 1)))"
      using False pos by (simp add: str_getline_def s' l' len e skip l2 Let_def)
    moreover have "s_getline t pos = Some (line, min (length t) (e + 1))"
      using False pos by (simp add: s_getline_def line_def e_def Let_def)
    ultimately show ?thesis
      using l2 by (simp add: rep_line_def rep_buf_rep)
  qed
qed

function s_lines :: "string \<Rightarrow> string list" where
  "s_lines t =
     (if t = [] then []
      else takeWhile (\<lambda>c. c \<noteq> CHR 0x0A) t # s_lines (tl (dropWhile (\<lambda>c. c \<noteq> CHR 0x0A) t)))"
  by pat_completeness auto
termination
  by (relation "measure length") (auto simp: less_Suc_eq_le intro!: diff_less_mono2 le_less_trans
      [OF diff_le_mono [OF length_dropWhile_le]] dest: length_greater_0_conv [THEN iffD2])

declare s_lines.simps [simp del]

lemma s_lines_getline:
  assumes "s_getline t pos = Some (line, q)"
  shows "s_lines (drop pos t) = line # s_lines (drop q t)" "pos < q" "q \<le> length t"
proof -
  define d where "d = drop pos t"
  have d: "pos < length t" "d \<noteq> []" "line = takeWhile (\<lambda>c. c \<noteq> CHR 0x0A) d"
    "q = min (length t) (pos + length line + 1)"
    using assms by (auto simp: s_getline_def d_def Let_def not_le split: if_splits)
  have "dropWhile (\<lambda>c. c \<noteq> CHR 0x0A) d = drop (length line) d"
    by (simp add: d(3) dropWhile_eq_drop)
  then have "tl (dropWhile (\<lambda>c. c \<noteq> CHR 0x0A) d) = drop (pos + length line + 1) t"
    by (simp add: d_def tl_drop drop_Suc add.commute flip: drop_Suc)
  moreover have "drop (pos + length line + 1) t = drop q t"
    by (simp add: d(4) min_def)
  ultimately show "s_lines (drop pos t) = line # s_lines (drop q t)"
    using d by (simp add: s_lines.simps [of d] flip: d_def)
  show "pos < q" "q \<le> length t" using d by auto
qed

lemma contains_line_loop_rep:
  "rep s t \<Longrightarrow> rep ls u \<Longrightarrow> rep cur v \<Longrightarrow> pos \<le> length t \<Longrightarrow>
   contains_line_loop s ls cur pos = Inr (u \<in> set (s_lines (drop pos t)))"
proof (induction "length t - pos" arbitrary: pos cur v rule: less_induct)
  case less
  obtain cur' q where cq: "str_getline s cur pos = Inr (cur', q)" "rep_line (cur', q) (s_getline t pos)"
    using holds_ex [OF str_getline_rep [OF less.prems(1,3,4)]] by auto
  show ?case
  proof (cases "s_getline t pos")
    case None
    moreover from None less.prems(4) have "pos = length t"
      by (auto simp: s_getline_def Let_def split: if_splits)
    ultimately show ?thesis
      using cq by (simp add: contains_line_loop.simps [of s] rep_line_def s_lines.simps)
  next
    case (Some lq)
    then obtain line p where lp: "s_getline t pos = Some (line, p)" by (cases lq) auto
    then have q: "q = Some p" "rep cur' line" using cq by (simp_all add: rep_line_def)
    note adv = s_lines_getline [OF lp]
    have "contains_line_loop s ls cur' p = Inr (u \<in> set (s_lines (drop p t)))"
      using less.hyps [OF _ less.prems(1,2) q(2) adv(3)] adv(2,3) by simp
    then show ?thesis
      using cq(1) q less.prems(2)
      by (simp add: contains_line_loop.simps [of s] str_equal_rep adv(1))
  qed
qed

lemma str_contains_line_rep:
  "rep cur v \<Longrightarrow> rep s t \<Longrightarrow> rep ls u \<Longrightarrow> str_contains_line cur s ls = Inr (u \<in> set (s_lines t))"
  using contains_line_loop_rep [of s t ls u cur v 0] by (simp add: str_contains_line_def)

subsection \<open>Order\<close>

definition code_less :: "(char \<times> char) set" where
  "code_less = {(a, b). code a < code b}"

lemma s_compare_lexord: "s_compare t u < 0 \<longleftrightarrow> (t, u) \<in> lexord code_less"
proof (induction t arbitrary: u)
  case Nil
  then show ?case by (cases u) (auto simp: s_compare_def)
next
  case (Cons a t)
  show ?case
  proof (cases u)
    case (Cons b v)
    with Cons.IH [of v] show ?thesis
      using code_inj [of a b]
      by (cases "code a" "code b" rule: linorder_cases)
        (auto simp: s_compare_def code_less_def Let_def simp del: code_inj)
  qed (simp add: s_compare_def)
qed

subsection \<open>Claims\<close>

text \<open>A buffer that holds a string, exactly filled.\<close>

definition filled_with :: "string \<Rightarrow> mystr" where
  "filled_with t = \<lparr>p_buf = Some (map Some t @ [Some NUL]), len = length t, alloc_bytes = length t + 1\<rparr>"

lemma rep_filled_with [simp]: "length t < INT_MAX \<Longrightarrow> rep (filled_with t) t"
  by (auto simp: rep_def filled_with_def)

text \<open>The two sides of the first occurrence of \<open>u\<close> in \<open>t\<close>; all of \<open>t\<close> when there is none.\<close>

definition first_split :: "string \<Rightarrow> string \<Rightarrow> string \<Rightarrow> string \<Rightarrow> bool" where
  "first_split u t l w \<longleftrightarrow>
     (if c_str u \<noteq> [] \<and> (\<exists>i. i + length (c_str u) \<le> length t \<and> occurs_at (c_str u) t i)
      then t = l @ c_str u @ w \<and> (\<forall>j<length l. \<not> occurs_at (c_str u) t j)
      else l = t \<and> w = [])"

lemma first_split_split_text: "first_split u t (fst (s_split_text u t)) (snd (s_split_text u t))"
proof (cases "s_locate_text u t")
  case None
  then have "\<not> (c_str u \<noteq> [] \<and> (\<exists>i. i + length (c_str u) \<le> length t \<and> occurs_at (c_str u) t i))"
    using s_locate_text_None by blast
  with None show ?thesis by (simp add: first_split_def s_split_text_miss)
next
  case (Some i)
  then have "c_str u \<noteq> [] \<and> (\<exists>i. i + length (c_str u) \<le> length t \<and> occurs_at (c_str u) t i)"
    by (auto simp: s_locate_text_Some)
  moreover have "t = take i t @ c_str u @ drop (i + length (c_str u)) t"
    using Some by (intro occurs_at_split) (simp add: s_locate_text_Some)
  ultimately show ?thesis
    using Some s_locate_text_Some [of u t i] by (simp add: first_split_def s_split_text_hit)
qed

text \<open>
  C23. Splitting a string at a text runs without a fault and leaves the text before its first occurrence
  on the left and the text after it on the right; when there is none (or the text is empty) the left
  side is unchanged and the right side empty.
\<close>

theorem str_split_text_first:
  assumes "rep s t" "rep r v" "short_text u"
  shows "holds (str_split_text s r u) no_fault
    (\<lambda>(s', r'). \<exists>l w. rep s' l \<and> rep r' w \<and> first_split u t l w)"
  by (rule holds_conseq [OF str_split_text_rep [OF assms]])
    (use first_split_split_text [of u t] in \<open>auto simp: rep_pair_def split: prod.splits\<close>)

theorem str_split_text_first_witness:
  "holds (str_split_text (filled_with ''a::b::c'') INIT_MYSTR ''::'') no_fault
    (\<lambda>(s', r'). \<exists>l w. rep s' l \<and> rep r' w \<and> first_split ''::'' ''a::b::c'' l w)"
  by (rule str_split_text_first [OF rep_filled_with rep_INIT])
    (simp_all add: INT_MAX_def short_text_def c_str_def)

text \<open>
  C22. \<open>str_replace_text\<close> ends without a fault, whatever the two texts are, and computes the reference
  function: every occurrence from the left replaced, the search going on after the replacement.
\<close>

theorem str_replace_text_refines:
  assumes "rep lhs v" "rep rhs w" "rep s t" "short_text f" "short_text to"
    "length (s_replace_text f to t) < INT_MAX"
  shows "holds (str_replace_text lhs rhs s f to) no_fault (\<lambda>s'. rep s' (s_replace_text f to t))"
  using assms by (rule str_replace_text_rep)

theorem str_replace_text_refines_witness:
  "holds (str_replace_text INIT_MYSTR INIT_MYSTR (filled_with ''a b c'') '' '' ''--'') no_fault
     (\<lambda>s'. rep s' ''a--b--c'')"
proof -
  have "s_replace_text '' '' ''--'' ''a b c'' = ''a--b--c''"
    by code_simp
  with str_replace_text_refines [OF rep_INIT rep_INIT rep_filled_with, of "''a b c''" "'' ''" "''--''"]
  show ?thesis by (simp add: INT_MAX_def short_text_def c_str_def)
qed

text \<open>
  \<open>str_contains_line\<close> answers whether the string is one of the lines of the text: what
  \<open>str_getline\<close> yields call after call, without the line breaks. The loop ends.
\<close>

theorem str_contains_line_lines:
  assumes "rep cur v" "rep s t" "rep ls u"
  shows "str_contains_line cur s ls = Inr (u \<in> set (s_lines t))"
  using assms by (rule str_contains_line_rep)

theorem str_contains_line_lines_witness:
  "str_contains_line INIT_MYSTR (filled_with ''a'') (filled_with ''a'') = Inr (''a'' \<in> set (s_lines ''a''))"
  by (rule str_contains_line_lines [OF rep_INIT]) (simp_all add: INT_MAX_def)

text \<open>
  \<open>str_strcmp\<close> orders strings lexicographically by unsigned character codes, a prefix first: it is
  negative exactly below, zero exactly on equal strings, whatever the block behind them.
\<close>

theorem str_strcmp_order:
  assumes "rep s t" "rep v u"
  shows "\<exists>r. str_strcmp s v = Inr r \<and> (r < 0 \<longleftrightarrow> (t, u) \<in> lexord code_less) \<and> (r = 0 \<longleftrightarrow> t = u)"
  using str_strcmp_rep [OF assms] by (simp add: s_compare_lexord s_compare_0)

theorem str_strcmp_order_witness:
  "\<exists>r. str_strcmp (filled_with ''ab'') (filled_with ''abc'') = Inr r \<and>
     (r < 0 \<longleftrightarrow> (''ab'', ''abc'') \<in> lexord code_less) \<and> (r = 0 \<longleftrightarrow> ''ab'' = ''abc'')"
  by (rule str_strcmp_order) (simp_all add: INT_MAX_def)

end
