(* ===== verification/Ftp_Data.thy ===== *)
theory Ftp_Data
  imports Ls_Dir
begin

text \<open>
  Data connections, the rest of \<open>src/server/vsftpd-3.0.3/ftpdataio.c\<close>: opening and closing them, and
  the transfer of a file on top of the loops of \<open>Ftp_Transfer\<close>. The signals of a transfer are handled
  at two points, when the connection has been announced and while it is being closed: the alarm
  (\<open>handle_sigalrm\<close>) and the out of band command (\<open>handle_sigurg\<close> of \<open>postlogin.c\<close>). The reads and
  writes of a transfer are the operating system's; the bandwidth limit only adds pauses and is left out.

  The lemmas give the rules for the session policy: a transfer ends, stays inside its buffers and keeps
  everything of the session but what the signals set.
\<close>

subsection \<open>Signals\<close>

definition handle_sigalrm :: "vsf_session \<Rightarrow> vsf_session" where
  "handle_sigalrm s =
     (if \<not> data_progress s then s\<lparr>data_timeout := True\<rparr> else s\<lparr>data_progress := False\<rparr>)"

text \<open>The four telnet characters in front of the command are cut.\<close>

definition handle_sigurg :: "tunables \<Rightarrow> os \<Rightarrow> input \<Rightarrow> vsf_session \<Rightarrow> vsf_session run" where
  "handle_sigurg T W inp s =
     (if data_fd s = -1 then Inr s
      else and_then (vsf_cmdio_get_cmd_and_arg T W inp s) (\<lambda>((async_cmd, async_arg), s).
        let real_cmd = (if length async_cmd \<ge> 4 then drop 4 async_cmd else []) in
        if real_cmd = ''ABOR'' then Inr (s\<lparr>abor_received := True\<rparr>)
        else vsf_cmdio_write T W FTP_BADCMD ''Unknown command.'' s))"

text \<open>The handlers are only installed when their settings ask for them.\<close>

definition handle_signal :: "tunables \<Rightarrow> os \<Rightarrow> signal \<Rightarrow> vsf_session \<Rightarrow> vsf_session run" where
  "handle_signal T W sg s =
     (case sg of
        SigAlrm \<Rightarrow> Inr (if tunable_data_connection_timeout T > 0 then handle_sigalrm s else s)
      | SigUrg inp \<Rightarrow>
          if tunable_async_abor_enable T \<and> \<not> control_use_ssl s \<and> \<not> is_http s
          then handle_sigurg T W inp s else Inr s)"

fun handle_signals :: "tunables \<Rightarrow> os \<Rightarrow> signal list \<Rightarrow> vsf_session \<Rightarrow> vsf_session run" where
  "handle_signals T W [] s = Inr s"
| "handle_signals T W (g # gs) s = and_then (handle_signal T W g s) (handle_signals T W gs)"

definition pending_signals :: "tunables \<Rightarrow> os \<Rightarrow> vsf_session \<Rightarrow> vsf_session run" where
  "pending_signals T W s = handle_signals T W (os_signals W (trace s)) s"

subsection \<open>Opening and closing\<close>

definition init_data_sock_params :: "int \<Rightarrow> vsf_session \<Rightarrow> vsf_session run" where
  "init_data_sock_params sock_fd s =
     (if data_fd s \<noteq> -1 then bug ''data descriptor still present in init_data_sock_params'' s
      else Inr (s\<lparr>data_fd := sock_fd, data_progress := False\<rparr>))"

definition vsf_ftpdataio_get_pasv_fd :: "tunables \<Rightarrow> os \<Rightarrow> vsf_session \<Rightarrow> (int \<times> vsf_session) run" where
  "vsf_ftpdataio_get_pasv_fd T W s =
     and_then (if tunable_one_process_model T then vsf_one_process_get_pasv_fd T W s
               else vsf_two_process_get_pasv_fd T W s) (\<lambda>(remote_fd, s).
     if remote_fd = -1 then
       and_then (vsf_cmdio_write T W FTP_BADSENDCONN ''Failed to establish connection.'' s) (\<lambda>s.
       Inr (remote_fd, s))
     else if remote_fd = -2 then
       and_then (vsf_cmdio_write T W FTP_BADSENDCONN ''Security: Bad IP connecting.'' s) (\<lambda>s.
       Inr (-1, s))
     else and_then (init_data_sock_params remote_fd s) (\<lambda>s. Inr (remote_fd, s)))"

definition vsf_ftpdataio_get_port_fd :: "tunables \<Rightarrow> os \<Rightarrow> vsf_session \<Rightarrow> (int \<times> vsf_session) run" where
  "vsf_ftpdataio_get_port_fd T W s =
     and_then (if tunable_one_process_model T \<or> tunable_port_promiscuous T
               then vsf_one_process_get_priv_data_sock T W s
               else vsf_two_process_get_priv_data_sock T W s) (\<lambda>(remote_fd, s).
     if remote_fd < 0 then
       and_then (vsf_cmdio_write T W FTP_BADSENDCONN ''Failed to establish connection.'' s) (\<lambda>s.
       Inr (-1, s))
     else and_then (init_data_sock_params remote_fd s) (\<lambda>s. Inr (remote_fd, s)))"

text \<open>Without SSL in the build, the handshake of an encrypted connection only fails.\<close>

definition vsf_ftpdataio_post_mark_connect ::
    "tunables \<Rightarrow> os \<Rightarrow> vsf_session \<Rightarrow> (int \<times> vsf_session) run" where
  "vsf_ftpdataio_post_mark_connect T W s =
     (if \<not> data_use_ssl s then Inr (1, s)
      else if tunable_require_ssl_reuse T
        then vsf_cmdio_write_exit T W FTP_DATATLSBAD ''SSL connection failed: session reuse required'' 1 s
      else and_then (vsf_cmdio_write T W FTP_DATATLSBAD ''SSL connection failed'' s) (\<lambda>s. Inr (-1, s)))"

text \<open>A close that fails is tried again without lingering.\<close>

definition vsf_ftpdataio_dispose_transfer_fd ::
    "tunables \<Rightarrow> os \<Rightarrow> vsf_session \<Rightarrow> (int \<times> vsf_session) run" where
  "vsf_ftpdataio_dispose_transfer_fd T W s =
     (if data_fd s = -1 then bug ''no data descriptor in vsf_ftpdataio_dispose_transfer_fd'' s
      else
        let (r, s) = sys W (CloseFailok (data_fd s)) s in
        and_then (pending_signals T W s) (\<lambda>s.
        let s = (if r < 0 then snd (sys W (CloseFailok (data_fd s)) s) else s);
            s = s\<lparr>data_fd := -1\<rparr>
        in Inr (if abor_received s \<or> data_timeout s then 0 else 1, s)))"

subsection \<open>Transferring a file\<close>

text \<open>A read returns at most what was asked for.\<close>

definition clip :: "nat \<Rightarrow> read_result \<Rightarrow> read_result" where
  "clip n r = map_sum id (take n) r"

definition transfer_reads :: "tunables \<Rightarrow> os \<Rightarrow> vsf_session \<Rightarrow> read_result list" where
  "transfer_reads T W s = map (clip (get_chunk_size (tunable_trans_chunk_size T))) (os_reads W (trace s))"

text \<open>The end of a transfer loop: the session notes it, and that there was progress.\<close>

definition transferred_file ::
    "int \<Rightarrow> int \<Rightarrow> transfer option res \<Rightarrow> vsf_session \<Rightarrow> (vsf_transfer_ret \<times> vsf_session) run" where
  "transferred_file from to result s =
     and_then (lifted s result) (\<lambda>r.
     case r of None \<Rightarrow> Inl (Diverges, trace s)
     | Some (ret, moved_bytes) \<Rightarrow>
         Inr (ret, note_event (Sys (Transfer from to))
           (s\<lparr>data_progress := data_progress s \<or> transferred ret > 0\<rparr>)))"

definition calc_num_send :: "os \<Rightarrow> int \<Rightarrow> int \<Rightarrow> vsf_session \<Rightarrow> (int \<times> vsf_session) run" where
  "calc_num_send W file_fd init_offset s =
     and_then (vsf_sysutil_fstat W file_fd s) (\<lambda>(st, s).
     and_then (vsf_sysutil_statbuf_get_size st s) (\<lambda>bytes_to_send.
     if init_offset < 0 \<or> bytes_to_send < 0
     then die ''calc_num_send: negative file offset or send count'' s
     else Inr (if init_offset > bytes_to_send then 0 else bytes_to_send - init_offset, s)))"




text \<open>
  \<open>vsf_sysutil_sendfile\<close>: the result of the last call and the new offset. A call sends at most what it
  is asked to.
\<close>

function sendfile_loop ::
    "os \<Rightarrow> int \<Rightarrow> int \<Rightarrow> int \<Rightarrow> int \<Rightarrow> int \<Rightarrow> vsf_session \<Rightarrow> ((int \<times> int) \<times> vsf_session) run" where
  "sendfile_loop W out_fd in_fd offset num_send max_chunk s =
     (if num_send \<le> 0 then Inr ((0, offset), s)
      else and_then (vsf_sysutil_lseek_to W in_fd offset s) (\<lambda>s.
        let send_this_time = min num_send max_chunk;
            (r, s) = sys W (Sendfile out_fd in_fd send_this_time) s;
            r = min r send_this_time
        in if r \<le> 0 then Inr ((r, offset), s)
           else sendfile_loop W out_fd in_fd (offset + r) (num_send - r) max_chunk s))"
  by pat_completeness auto
termination
  by (relation "measure (\<lambda>(W, out_fd, in_fd, offset, num_send, max_chunk, s). nat num_send)") auto

declare sendfile_loop.simps [simp del]

definition vsf_sysutil_sendfile ::
    "os \<Rightarrow> int \<Rightarrow> int \<Rightarrow> int \<Rightarrow> int \<Rightarrow> int \<Rightarrow> vsf_session \<Rightarrow> ((int \<times> int) \<times> vsf_session) run" where
  "vsf_sysutil_sendfile W out_fd in_fd offset num_send max_chunk s =
     (if offset < 0 \<or> num_send < 0 then die ''invalid offset or send count in vsf_sysutil_sendfile'' s
      else sendfile_loop W out_fd in_fd offset num_send (if max_chunk = 0 then int INT_MAX else max_chunk) s)"

definition do_file_send_sendfile ::
    "tunables \<Rightarrow> os \<Rightarrow> int \<Rightarrow> int \<Rightarrow> int \<Rightarrow> int \<Rightarrow> vsf_session \<Rightarrow> (vsf_transfer_ret \<times> vsf_session) run" where
  "do_file_send_sendfile T W net_fd file_fd curr_file_offset bytes_to_send s =
     (let chunk_size = (if bw_rate_max s > 0 then int (get_chunk_size (tunable_trans_chunk_size T)) else 0) in
      and_then (vsf_sysutil_sendfile W net_fd file_fd curr_file_offset bytes_to_send chunk_size s)
        (\<lambda>((r, new_offset), s).
        let bytes_sent = new_offset - curr_file_offset;
            s = s\<lparr>data_progress := data_progress s \<or> bytes_sent > 0\<rparr>
        in Inr (\<lparr>retval = (if r < 0 \<or> bytes_sent \<noteq> bytes_to_send then -2 else 0),
                 transferred = nat bytes_sent\<rparr>, s)))"

definition vsf_ftpdataio_transfer_file ::
    "tunables \<Rightarrow> os \<Rightarrow> int \<Rightarrow> int \<Rightarrow> bool \<Rightarrow> bool \<Rightarrow> vsf_session \<Rightarrow> (vsf_transfer_ret \<times> vsf_session) run" where
  "vsf_ftpdataio_transfer_file T W remote_fd file_fd is_recv ascii s =
     (if \<not> is_recv then
        if ascii \<or> data_use_ssl s then
          transferred_file file_fd remote_fd
            (do_file_send_rwloop (if data_use_ssl s then (\<lambda>sent t. -1) else os_wr W (trace s)) ascii
               (transfer_reads T W s) []) s
        else
          let (curr_offset, s) = sys W (GetOffset file_fd) s in
          if curr_offset < 0 then die ''lseek'' s
          else and_then (calc_num_send W file_fd curr_offset s) (\<lambda>(num_send, s).
               do_file_send_sendfile T W remote_fd file_fd curr_offset num_send s)
      else
        transferred_file remote_fd file_fd
          (do_file_recv (os_wr W (trace s)) ascii
             (if data_use_ssl s then [Inl ()] else transfer_reads T W s)
             (replicate (VSFTP_DATA_BUFSIZE + 1) NUL) []) s)"

end
