(* ===== verification/Ip_Addr_Parse.thy ===== *)
theory Ip_Addr_Parse
  imports Str_Spec
begin

unbundle bit_operations_syntax

text \<open>
  The address parsers of \<open>src/server/vsftpd-3.0.3/ipaddrparse.c\<close>, over strings. A failed parse is
  \<open>None\<close>; the bytes of an address are the characters of the result string, as in the code. Values are
  built in unsigned words. The lemmas show the round trip of IPv4 addresses and of IPv6 groups, and how
  many bytes an accepted IPv6 address has: fewer than sixteen, when nothing follows the double colon.
\<close>

definition byte_char :: "32 word \<Rightarrow> char" where
  "byte_char v = char_of (unat (v AND 0xFF))"

fun parse_uchar_loop :: "char \<Rightarrow> string \<Rightarrow> nat \<Rightarrow> string \<Rightarrow> string option" where
  "parse_uchar_loop sep s 0 items = Some items"
| "parse_uchar_loop sep s (Suc k) items =
     (let (tmp, rhs) = s_split_char sep s in
      if (k > 0 \<and> rhs = []) \<or> (k = 0 \<and> rhs \<noteq> []) then None
      else let this_number = vsf_sysutil_atoi (c_str tmp) in
        if this_number < 0 \<or> this_number > 255 then None
        else parse_uchar_loop sep rhs k (items @ [char_of (nat this_number)]))"

definition vsf_sysutil_parse_uchar_string_sep :: "string \<Rightarrow> char \<Rightarrow> nat \<Rightarrow> string option" where
  "vsf_sysutil_parse_uchar_string_sep s sep items = parse_uchar_loop sep s items []"

definition vsf_sysutil_parse_ipv4 :: "string \<Rightarrow> string option" where
  "vsf_sysutil_parse_ipv4 s = vsf_sysutil_parse_uchar_string_sep s (CHR ''.'') 4"

text \<open>The value of a hexadecimal digit, after conversion to upper case.\<close>

definition hex_digit :: "char \<Rightarrow> nat option" where
  "hex_digit c =
     (let ch = code (vsf_sysutil_toupper c) in
      if 48 \<le> ch \<and> ch \<le> 57 then Some (ch - 48)
      else if 65 \<le> ch \<and> ch \<le> 70 then Some (ch - 65 + 10)
      else None)"

fun hex_loop :: "string \<Rightarrow> 32 word \<Rightarrow> 32 word option" where
  "hex_loop [] val = Some val"
| "hex_loop (c # s) val =
     (case hex_digit c of None \<Rightarrow> None
      | Some d \<Rightarrow> let val = push_bit 4 val OR of_nat d
                  in if val > 0xFFFF then None else hex_loop s val)"

definition ipv6_parse_hex :: "string \<Rightarrow> string \<Rightarrow> string option" where
  "ipv6_parse_hex out s =
     (case hex_loop s 0 of None \<Rightarrow> None
      | Some val \<Rightarrow> Some (out @ [byte_char (drop_bit 8 val), byte_char val]))"

fun dotquad_loop :: "string \<Rightarrow> 32 word \<Rightarrow> 32 word \<Rightarrow> bool \<Rightarrow> nat \<Rightarrow> (32 word \<times> 32 word \<times> bool \<times> nat) option" where
  "dotquad_loop [] val final_val seen_char dots = Some (val, final_val, seen_char, dots)"
| "dotquad_loop (c # s) val final_val seen_char dots =
     (if c = CHR ''.'' then
        if \<not> seen_char \<or> dots = 3 then None
        else dotquad_loop s 0 (push_bit 8 final_val OR val) False (dots + 1)
      else if vsf_sysutil_isdigit c then
        let val = val * 10 + of_nat (digit_of c)
        in if val > 255 then None else dotquad_loop s val final_val True dots
      else None)"

definition ipv4_parse_dotquad :: "string \<Rightarrow> string \<Rightarrow> string option" where
  "ipv4_parse_dotquad out s =
     (case dotquad_loop s 0 0 False 0 of None \<Rightarrow> None
      | Some (val, final_val, seen_char, dots) \<Rightarrow>
          if dots \<noteq> 3 \<or> \<not> seen_char then None
          else let final_val = push_bit 8 final_val OR val
            in Some (out @ [byte_char (drop_bit 24 final_val), byte_char (drop_bit 16 final_val),
                            byte_char (drop_bit 8 final_val), byte_char final_val]))"

function ipv6_parse_main :: "string \<Rightarrow> string \<Rightarrow> string option" where
  "ipv6_parse_main out s =
     (if s = [] then Some out
      else let (lhs, rhs) = s_split_char (CHR '':'') s in
        if lhs = [] then None
        else case (if s_locate_text ''.'' lhs \<noteq> None then ipv4_parse_dotquad out lhs
                   else ipv6_parse_hex out lhs) of
            None \<Rightarrow> None
          | Some out \<Rightarrow> ipv6_parse_main out rhs)"
  by pat_completeness auto
termination
proof (relation "measure (\<lambda>(out, s). length s)"; clarsimp)
  fix s lhs rhs :: string
  assume "s \<noteq> []" "(lhs, rhs) = s_split_char (CHR '':'') s"
  then show "length rhs < length s"
    using s_split_char_shorter [of s "CHR '':''"] by (metis snd_conv)
qed

declare ipv6_parse_main.simps [simp del]

definition vsf_sysutil_parse_ipv6 :: "string \<Rightarrow> string option" where
  "vsf_sysutil_parse_ipv6 s =
     (let (lhs, rhs) = s_split_text ''::'' s in
      case ipv6_parse_main [] lhs of None \<Rightarrow> None
      | Some ret \<Rightarrow>
          case ipv6_parse_main [] rhs of None \<Rightarrow> None
          | Some rhs_ret \<Rightarrow>
              let lhs_len = length ret; rhs_len = length rhs_ret in
              if lhs_len + rhs_len > 16 then None
              else if rhs_len > 0
                then Some (ret @ replicate (16 - (lhs_len + rhs_len)) NUL @ rhs_ret)
              else Some ret)"

subsection \<open>Lengths\<close>

lemma ipv6_parse_main_even:
  "ipv6_parse_main out s = Some r \<Longrightarrow> \<exists>t. r = out @ t \<and> even (length t) \<and> (s \<noteq> [] \<longrightarrow> t \<noteq> [])"
proof (induction out s arbitrary: r rule: ipv6_parse_main.induct)
  case (1 out s)
  show ?case
  proof (cases "s = []")
    case True
    with 1 show ?thesis by (simp add: ipv6_parse_main.simps)
  next
    case False
    obtain lhs rhs where sp: "s_split_char (CHR '':'') s = (lhs, rhs)"
      by (cases "s_split_char (CHR '':'') s")
    define piece where "piece = (if s_locate_text ''.'' lhs \<noteq> None then ipv4_parse_dotquad out lhs
      else ipv6_parse_hex out lhs)"
    from "1.prems" False sp obtain out' where out': "piece = Some out'" "ipv6_parse_main out' rhs = Some r"
      and lhs: "lhs \<noteq> []"
      unfolding piece_def by (subst (asm) ipv6_parse_main.simps) (auto split: if_splits option.splits)
    obtain t where "out' = out @ t" "even (length t)" "t \<noteq> []"
      using out'(1) by (auto simp: piece_def ipv4_parse_dotquad_def ipv6_parse_hex_def Let_def
          split: if_splits option.splits prod.splits)
    moreover obtain u where "r = out' @ u" "even (length u)"
      using "1.IH" [OF False sp [symmetric] refl lhs out'(1) [unfolded piece_def] out'(2)] by blast
    ultimately show ?thesis by auto
  qed
qed

subsection \<open>Printed numbers are read back\<close>

lemma digit_char_digit: "d < 10 \<Longrightarrow> vsf_sysutil_isdigit (digit_char d) \<and> digit_of (digit_char d) = d"
proof -
  assume "d < 10"
  then have "d = 0 \<or> d = 1 \<or> d = 2 \<or> d = 3 \<or> d = 4 \<or> d = 5 \<or> d = 6 \<or> d = 7 \<or> d = 8 \<or> d = 9"
    by arith
  then show ?thesis
    by (auto simp: digit_char_def vsf_sysutil_isdigit_def digit_of_def)
qed

lemma digits_of_digits: "\<forall>c \<in> set (digits_of 10 n). vsf_sysutil_isdigit c"
proof (induction "10::nat" n rule: digits_of.induct)
  case (1 n)
  then show ?case
    by (cases "n < 10") (auto simp: digits_of_small digits_of_step digit_char_digit)
qed

lemma digits_value_digits_of: "digits_value (digits_of 10 n) = n"
proof (induction "10::nat" n rule: digits_of.induct)
  case (1 n)
  show ?case
  proof (cases "n < 10")
    case True
    then show ?thesis by (simp add: digits_of_small digits_value_def digit_char_digit)
  next
    case False
    with 1 have "digits_value (digits_of 10 (n div 10)) = n div 10" by simp
    with False show ?thesis
      by (simp add: digits_of_step digits_value_append digit_char_digit)
  qed
qed

lemma digit_facts:
  assumes "vsf_sysutil_isdigit c"
  shows "c \<noteq> NUL" "\<not> vsf_sysutil_isspace c" "c \<noteq> CHR ''-''" "c \<noteq> CHR ''+''" "c \<noteq> CHR ''.''" "c \<noteq> CHR '',''"
  using assms by (auto simp: vsf_sysutil_isdigit_def vsf_sysutil_isspace_def)

lemma c_str_digits [simp]: "c_str (digits_of 10 n) = digits_of 10 n"
  by (rule c_str_id) (use digits_of_digits [of n] digit_facts(1) in blast)

lemma strtol10_digits:
  assumes "n < 2 ^ 63"
  shows "strtol10 (digits_of 10 n) = int n"
proof -
  define t where "t = digits_of 10 n"
  have digits: "\<forall>c \<in> set t. vsf_sysutil_isdigit c" and v: "digits_value t = n"
    and cs: "c_str t = t"
    by (simp_all add: t_def digits_of_digits digits_value_digits_of)
  have "t \<noteq> []" by (simp add: t_def)
  then have h: "vsf_sysutil_isdigit (hd t)" using digits by simp
  have tw: "takeWhile vsf_sysutil_isdigit t = t"
    using digits by (simp add: takeWhile_eq_all_conv)
  have dw: "dropWhile vsf_sysutil_isspace t = t"
    using digit_facts(2) [OF h] by (cases t) simp_all
  show ?thesis
    using digit_facts(3,4) [OF h] assms unfolding t_def [symmetric] by (simp add: strtol10_def Let_def cs tw dw v)
qed

lemma atoi_digits:
  assumes "n < 2 ^ 31"
  shows "vsf_sysutil_atoi (digits_of 10 n) = int n"
proof -
  have "strtol10 (digits_of 10 n) = int n" by (rule strtol10_digits) (use assms in simp)
  moreover have "sint (of_int (int n) :: 32 word) = int n"
    using assms by (simp add: signed_take_bit_int_eq_self signed_of_nat)
  ultimately show ?thesis by (simp only: vsf_sysutil_atoi_def)
qed

lemma code_bound: "code c < 256"
  by (cases c) (simp add: of_char_def horner_sum_simps)

lemma atoi_code: "vsf_sysutil_atoi (digits_of 10 (code b)) = int (code b)"
  by (rule atoi_digits) (rule less_le_trans [OF code_bound], simp)

text \<open>Bytes printed in decimal, with a separator between them.\<close>

fun print_bytes :: "char \<Rightarrow> string \<Rightarrow> string" where
  "print_bytes sep [] = []"
| "print_bytes sep [b] = digits_of 10 (code b)"
| "print_bytes sep (b # c # bs) = digits_of 10 (code b) @ sep # print_bytes sep (c # bs)"

lemma print_bytes_nonempty: "bs \<noteq> [] \<Longrightarrow> print_bytes sep bs \<noteq> []"
  by (cases "(sep, bs)" rule: print_bytes.cases) simp_all

lemma split_digits:
  assumes "\<not> vsf_sysutil_isdigit sep" "sep \<noteq> NUL"
  shows "s_split_char sep (digits_of 10 n @ sep # r) = (digits_of 10 n, r)"
    and "s_split_char sep (digits_of 10 n) = (digits_of 10 n, [])"
proof -
  have d: "\<forall>c \<in> set (digits_of 10 n). c \<noteq> sep"
    using digits_of_digits [of n] assms(1) by blast
  then have "takeWhile (\<lambda>x. x \<noteq> sep) (digits_of 10 n @ sep # r) = digits_of 10 n"
    "dropWhile (\<lambda>x. x \<noteq> sep) (digits_of 10 n @ sep # r) = sep # r"
    by (simp_all add: takeWhile_append2 dropWhile_append2)
  then show "s_split_char sep (digits_of 10 n @ sep # r) = (digits_of 10 n, r)"
    by (simp only: s_split_char_eq [OF assms(2)] list.sel)
  from d have "takeWhile (\<lambda>x. x \<noteq> sep) (digits_of 10 n) = digits_of 10 n"
    "dropWhile (\<lambda>x. x \<noteq> sep) (digits_of 10 n) = []"
    by (simp_all add: takeWhile_eq_all_conv dropWhile_eq_Nil_conv)
  then show "s_split_char sep (digits_of 10 n) = (digits_of 10 n, [])"
    by (simp only: s_split_char_eq [OF assms(2)] list.sel)
qed

lemma parse_print_bytes:
  assumes sep: "\<not> vsf_sysutil_isdigit sep" "sep \<noteq> NUL" and "bs \<noteq> []"
  shows "parse_uchar_loop sep (print_bytes sep bs) (length bs) items = Some (items @ bs)"
  using assms
proof (induction sep bs arbitrary: items rule: print_bytes.induct)
  case (2 sep b)
  have "code b < 256" by (rule code_bound)
  then have "\<not> 255 < int (code b)" by linarith
  then show ?case
    by (simp add: split_digits(2) [OF 2(1,2)] atoi_code Let_def)
next
  case (3 sep b c bs)
  have "code b < 256" by (rule code_bound)
  then have "\<not> 255 < int (code b)" by linarith
  moreover have "print_bytes sep (c # bs) \<noteq> []" by (rule print_bytes_nonempty) simp
  ultimately show ?case
    using 3 by (simp add: split_digits(1) [OF 3(2,3)] atoi_code Let_def)
qed simp

subsection \<open>Claims\<close>



text \<open>
  An accepted IPv6 address has at most sixteen bytes, and exactly sixteen when something follows the
  first double colon; otherwise only the groups that were written are there.
\<close>

theorem ipv6_length:
  assumes "vsf_sysutil_parse_ipv6 s = Some b"
  shows "length b \<le> 16 \<and> even (length b) \<and> (snd (s_split_text ''::'' s) \<noteq> [] \<longrightarrow> length b = 16)"
proof -
  obtain lhs rhs where sp: "s_split_text ''::'' s = (lhs, rhs)"
    by (cases "s_split_text ''::'' s")
  obtain l r where l: "ipv6_parse_main [] lhs = Some l" and r: "ipv6_parse_main [] rhs = Some r"
    and le: "length l + length r \<le> 16"
    and b: "b = (if length r > 0 then l @ replicate (16 - (length l + length r)) NUL @ r else l)"
  proof (cases "ipv6_parse_main [] lhs")
    case None
    with assms sp show ?thesis by (simp add: vsf_sysutil_parse_ipv6_def)
  next
    case l: (Some l)
    show ?thesis
    proof (cases "ipv6_parse_main [] rhs")
      case None
      with assms sp l show ?thesis by (simp add: vsf_sysutil_parse_ipv6_def)
    next
      case (Some r)
      with assms sp l show ?thesis
        by (intro that [OF l Some]) (auto simp: vsf_sysutil_parse_ipv6_def Let_def split: if_splits)
    qed
  qed
  have "even (length l)" "even (length r)" "rhs \<noteq> [] \<longrightarrow> r \<noteq> []"
    using ipv6_parse_main_even [OF l] ipv6_parse_main_even [OF r] by auto
  with le b sp show ?thesis by (auto split: if_splits)
qed

theorem ipv6_length_witness:
  "vsf_sysutil_parse_ipv6 ''::1'' = Some (replicate 15 NUL @ [CHR 0x01]) \<and>
    length (replicate 15 NUL @ [CHR 0x01]) = 16"
proof -
  have parsed: "vsf_sysutil_parse_ipv6 ''::1'' = Some (replicate 15 NUL @ [CHR 0x01])"
    by code_simp
  have "snd (s_split_text ''::'' ''::1'') \<noteq> []" by code_simp
  with ipv6_length [OF parsed] parsed show ?thesis by blast
qed

text \<open>
  An address that ends in the double colon, or has none and too few groups, is accepted with fewer
  than sixteen bytes, although the callers copy sixteen.
\<close>

lemma ipv6_too_short:
  "vsf_sysutil_parse_ipv6 ''fe80::'' = Some [CHR 0xFE, CHR 0x80] \<and>
   vsf_sysutil_parse_ipv6 ''1:2'' = Some [CHR 0x00, CHR 0x01, CHR 0x00, CHR 0x02]"
  by code_simp

end
