(* ===== verification/Postlogin.thy ===== *)
theory Postlogin
  imports Ftp_Data Ip_Addr_Parse
begin

text \<open>
  The commands after login, \<open>src/server/vsftpd-3.0.3/postlogin.c\<close>: one definition per handler, the
  chain that picks the handler, and the loop over what the client sends. A file name reaches the
  operating system as a C string.

  The recursion of \<open>pasv_active\<close> and \<open>port_active\<close> into each other gets fuel; it is infinite when a
  port and a passive listener are both there. The names that STOU tries are counted by an unsigned
  integer, and when it wraps the run is taken not to end. Process titles are left out.
\<close>

subsection \<open>Port and passive\<close>

fun port_active :: "tunables \<Rightarrow> os \<Rightarrow> nat \<Rightarrow> vsf_session \<Rightarrow> (bool \<times> vsf_session) run"
  and pasv_active :: "tunables \<Rightarrow> os \<Rightarrow> nat \<Rightarrow> vsf_session \<Rightarrow> (bool \<times> vsf_session) run" where
  "port_active T W 0 s = Inl (Diverges, trace s)"
| "port_active T W (Suc n) s =
     (if p_port_sockaddr s \<noteq> None then
        and_then (pasv_active T W n s) (\<lambda>(ret, s).
        if ret then bug ''port and pasv both active'' s else Inr (True, s))
      else Inr (False, s))"
| "pasv_active T W 0 s = Inl (Diverges, trace s)"
| "pasv_active T W (Suc n) s =
     and_then (if tunable_one_process_model T then Inr (vsf_one_process_pasv_active s, s)
               else vsf_two_process_pasv_active T W s) (\<lambda>(ret, s).
     if ret then
       and_then (port_active T W n s) (\<lambda>(p, s).
       if p then bug ''pasv and port both active'' s else Inr (True, s))
     else Inr (False, s))"

text \<open>Two calls deep is all a session with at most one of them needs.\<close>

definition ACTIVE_DEPTH :: nat where
  "ACTIVE_DEPTH = 2"

definition port_cleanup :: "vsf_session \<Rightarrow> vsf_session" where
  "port_cleanup s = s\<lparr>p_port_sockaddr := None\<rparr>"

definition pasv_cleanup :: "tunables \<Rightarrow> os \<Rightarrow> vsf_session \<Rightarrow> vsf_session run" where
  "pasv_cleanup T W s =
     (if tunable_one_process_model T then vsf_one_process_pasv_cleanup W s
      else vsf_two_process_pasv_cleanup T W s)"

text \<open>\<open>!pasv_active && !port_active\<close>\<close>

definition neither_active :: "tunables \<Rightarrow> os \<Rightarrow> vsf_session \<Rightarrow> (bool \<times> vsf_session) run" where
  "neither_active T W s =
     and_then (pasv_active T W ACTIVE_DEPTH s) (\<lambda>(p, s).
     if p then Inr (False, s)
     else and_then (port_active T W ACTIVE_DEPTH s) (\<lambda>(q, s). Inr (\<not> q, s)))"

subsection \<open>File names\<close>

definition resolve_tilde :: "tunables \<Rightarrow> os \<Rightarrow> string \<Rightarrow> vsf_session \<Rightarrow> string \<times> vsf_session" where
  "resolve_tilde T W p_str s =
     (if p_str \<noteq> [] \<and> hd p_str = CHR ''~'' then
        if length p_str = 1 \<or> p_str ! 1 = CHR ''/''
        then (home_str s @ snd (s_split_char (CHR ''~'') p_str), s)
        else if tunable_tilde_user_enable T then
          let (user, rhs) = s_split_char (CHR ''/'') (snd (s_split_char (CHR ''~'') p_str));
              (home, s) = sys_text W (Getpwnam (c_str user)) s
          in (case home of None \<Rightarrow> p_str
              | Some h \<Rightarrow> c_str h @ (if rhs \<noteq> [] then ''/'' @ rhs else []), s)
        else (p_str, s)
      else (p_str, s))"

definition prepend_path_to_filename :: "os \<Rightarrow> string \<Rightarrow> vsf_session \<Rightarrow> string \<times> vsf_session" where
  "prepend_path_to_filename W p_str s =
     (if p_str = [] \<or> hd p_str \<noteq> CHR ''/'' then
        let (cwd, s) = str_getcwd W s
        in (cwd @ (if cwd = [] \<or> last cwd \<noteq> CHR ''/'' then ''/'' else []) @ p_str, s)
      else (p_str, s))"

text \<open>The argument of the command, resolved in place.\<close>

definition resolve_arg :: "tunables \<Rightarrow> os \<Rightarrow> vsf_session \<Rightarrow> vsf_session" where
  "resolve_arg T W s =
     (let (arg, s) = resolve_tilde T W (ftp_arg_str s) s in s\<lparr>ftp_arg_str := arg\<rparr>)"

text \<open>A log entry for a file.\<close>

definition start_entry :: "os \<Rightarrow> nat \<Rightarrow> string \<Rightarrow> vsf_session \<Rightarrow> vsf_session run" where
  "start_entry W what p_str s =
     and_then (vsf_log_start_entry W what s) (\<lambda>s.
     let (l, s) = prepend_path_to_filename W p_str s in Inr (s\<lparr>log_str := l\<rparr>))"

text \<open>What follows only happens to a file that may be accessed.\<close>

definition with_access ::
    "tunables \<Rightarrow> os \<Rightarrow> string \<Rightarrow> (vsf_session \<Rightarrow> vsf_session run) \<Rightarrow> vsf_session \<Rightarrow> vsf_session run" where
  "with_access T W p_str k s =
     and_then (lifted s (vsf_access_check_file (tunable_deny_file T) p_str)) (\<lambda>ok.
     if ok then k s else vsf_cmdio_write T W FTP_NOPERM ''Permission denied.'' s)"

subsection \<open>The data connection\<close>

definition data_transfer_checks_ok :: "tunables \<Rightarrow> os \<Rightarrow> vsf_session \<Rightarrow> (bool \<times> vsf_session) run" where
  "data_transfer_checks_ok T W s =
     and_then (neither_active T W s) (\<lambda>(neither, s).
     if neither then
       and_then (vsf_cmdio_write T W FTP_BADSENDCONN ''Use PORT or PASV first.'' s) (\<lambda>s. Inr (False, s))
     else if tunable_ssl_enable T \<and> \<not> data_use_ssl s \<and>
       (tunable_force_local_data_ssl T \<and> \<not> is_anonymous s \<or> tunable_force_anon_data_ssl T \<and> is_anonymous s)
     then and_then (vsf_cmdio_write T W FTP_NEEDENCRYPT ''Data connections must be encrypted.'' s) (\<lambda>s.
       Inr (False, s))
     else Inr (True, s))"

text \<open>The connection is there and announced; signals come in from here on.\<close>

definition mark_transfer ::
    "tunables \<Rightarrow> os \<Rightarrow> string \<Rightarrow> int \<Rightarrow> vsf_session \<Rightarrow> (int \<times> vsf_session) run" where
  "mark_transfer T W p_status_msg remote_fd s =
     and_then (vsf_cmdio_write T W FTP_DATACONN p_status_msg s) (\<lambda>s.
     and_then (vsf_ftpdataio_post_mark_connect T W s) (\<lambda>(r, s).
     if r \<noteq> 1 then and_then (vsf_ftpdataio_dispose_transfer_fd T W s) (\<lambda>(_, s). Inr (-1, s))
     else and_then (pending_signals T W s) (\<lambda>s. Inr (remote_fd, s))))"

definition get_remote_transfer_fd ::
    "tunables \<Rightarrow> os \<Rightarrow> string \<Rightarrow> vsf_session \<Rightarrow> (int \<times> vsf_session) run" where
  "get_remote_transfer_fd T W p_status_msg s =
     and_then (neither_active T W s) (\<lambda>(neither, s).
     if neither then bug ''neither PORT nor PASV active in get_remote_transfer_fd'' s
     else
       let s = s\<lparr>abor_received := False\<rparr> in
       and_then (pasv_active T W ACTIVE_DEPTH s) (\<lambda>(pasv, s).
       and_then (if pasv then vsf_ftpdataio_get_pasv_fd T W s else vsf_ftpdataio_get_port_fd T W s)
         (\<lambda>(remote_fd, s).
       if remote_fd < 0 then Inr (remote_fd, s) else mark_transfer T W p_status_msg remote_fd s)))"

definition check_abor :: "tunables \<Rightarrow> os \<Rightarrow> vsf_session \<Rightarrow> vsf_session run" where
  "check_abor T W s =
     (if abor_received s
      then vsf_cmdio_write T W FTP_ABOROK ''ABOR successful.'' (s\<lparr>abor_received := False\<rparr>)
      else Inr s)"

definition port_pasv_cleanup :: "tunables \<Rightarrow> os \<Rightarrow> vsf_session \<Rightarrow> vsf_session run" where
  "port_pasv_cleanup T W s = pasv_cleanup T W (port_cleanup s)"

text \<open>The reply when a transfer is over.\<close>

definition transfer_reply :: "tunables \<Rightarrow> os \<Rightarrow> string \<Rightarrow> string \<Rightarrow> int \<Rightarrow> vsf_session \<Rightarrow> vsf_session run" where
  "transfer_reply T W local_msg net_msg r s =
     (if r = -1 then vsf_cmdio_write T W FTP_BADSENDFILE local_msg s
      else if r = -2 then
        (if \<not> data_timeout s then vsf_cmdio_write T W FTP_BADSENDNET net_msg s else Inr s)
      else vsf_cmdio_write T W FTP_TRANSFEROK ''Transfer complete.'' s)"

subsection \<open>Directories\<close>

definition quoted :: "string \<Rightarrow> string" where
  "quoted p = s_replace_text [CHR 0x22] [CHR 0x22, CHR 0x22] p"

definition handle_pwd :: "tunables \<Rightarrow> os \<Rightarrow> vsf_session \<Rightarrow> vsf_session run" where
  "handle_pwd T W s =
     (let (cwd, s) = str_getcwd W s in
      vsf_cmdio_write_str T W FTP_PWDOK
        ([CHR 0x22] @ quoted cwd @ [CHR 0x22] @ '' is the current directory'') s)"

definition handle_cwd :: "tunables \<Rightarrow> os \<Rightarrow> vsf_session \<Rightarrow> vsf_session run" where
  "handle_cwd T W s =
     (let s = resolve_arg T W s; arg = ftp_arg_str s in
      with_access T W arg (\<lambda>s.
        let (r, s) = sys W (Chdir (c_str arg)) s in
        if r = 0 then
          and_then (vsf_banner_dir_changed T W FTP_CWDOK s) (\<lambda>s.
          vsf_cmdio_write T W FTP_CWDOK ''Directory successfully changed.'' s)
        else vsf_cmdio_write T W FTP_FILEFAIL ''Failed to change directory.'' s) s)"

definition handle_cdup :: "tunables \<Rightarrow> os \<Rightarrow> vsf_session \<Rightarrow> vsf_session run" where
  "handle_cdup T W s = handle_cwd T W (s\<lparr>ftp_arg_str := ''..''\<rparr>)"

definition handle_mkd :: "tunables \<Rightarrow> os \<Rightarrow> vsf_session \<Rightarrow> vsf_session run" where
  "handle_mkd T W s =
     (let s = resolve_arg T W s; arg = ftp_arg_str s in
      and_then (start_entry W kVSFLogEntryMkdir arg s) (\<lambda>s.
      with_access T W arg (\<lambda>s.
        let (r, s) = sys W (Mkdir (c_str arg) 511) s in
        if r \<noteq> 0 then vsf_cmdio_write T W FTP_FILEFAIL ''Create directory operation failed.'' s
        else and_then (vsf_log_do_log T W True s) (\<lambda>s.
          let (p, s) = prepend_path_to_filename W arg s in
          vsf_cmdio_write_str T W FTP_MKDIROK
            ([CHR 0x22] @ quoted p @ [CHR 0x22] @ '' created'') s)) s))"

definition handle_rmd :: "tunables \<Rightarrow> os \<Rightarrow> vsf_session \<Rightarrow> vsf_session run" where
  "handle_rmd T W s =
     (let s = resolve_arg T W s; arg = ftp_arg_str s in
      and_then (start_entry W kVSFLogEntryRmdir arg s) (\<lambda>s.
      with_access T W arg (\<lambda>s.
        let (r, s) = sys W (Rmdir (c_str arg)) s in
        if r \<noteq> 0 then vsf_cmdio_write T W FTP_FILEFAIL ''Remove directory operation failed.'' s
        else and_then (vsf_log_do_log T W True s) (\<lambda>s.
          vsf_cmdio_write T W FTP_RMDIROK ''Remove directory operation successful.'' s)) s))"

definition handle_dele :: "tunables \<Rightarrow> os \<Rightarrow> vsf_session \<Rightarrow> vsf_session run" where
  "handle_dele T W s =
     (let s = resolve_arg T W s; arg = ftp_arg_str s in
      and_then (start_entry W kVSFLogEntryDelete arg s) (\<lambda>s.
      with_access T W arg (\<lambda>s.
        let (r, s) = sys W (Unlink (c_str arg)) s in
        if r \<noteq> 0 then vsf_cmdio_write T W FTP_FILEFAIL ''Delete operation failed.'' s
        else and_then (vsf_log_do_log T W True s) (\<lambda>s.
          vsf_cmdio_write T W FTP_DELEOK ''Delete operation successful.'' s)) s))"

subsection \<open>Renaming\<close>

definition handle_rnfr :: "tunables \<Rightarrow> os \<Rightarrow> vsf_session \<Rightarrow> vsf_session run" where
  "handle_rnfr T W s =
     (let s = resolve_arg T W (s\<lparr>rnfr_filename_str := []\<rparr>); arg = ftp_arg_str s in
      and_then (lifted s (vsf_access_check_file (tunable_deny_file T) arg)) (\<lambda>ok.
      if \<not> ok then
        and_then (start_entry W kVSFLogEntryRename arg s) (\<lambda>s.
        vsf_cmdio_write T W FTP_NOPERM ''Permission denied.'' s)
      else let (st, s) = sys_stat W (Stat (c_str arg)) s in
        if st \<noteq> None then
          vsf_cmdio_write T W FTP_RNFROK ''Ready for RNTO.'' (s\<lparr>rnfr_filename_str := arg\<rparr>)
        else
          and_then (start_entry W kVSFLogEntryRename arg s) (\<lambda>s.
          vsf_cmdio_write T W FTP_FILEFAIL ''RNFR command failed.'' s)))"

definition handle_rnto :: "tunables \<Rightarrow> os \<Rightarrow> vsf_session \<Rightarrow> vsf_session run" where
  "handle_rnto T W s =
     (if rnfr_filename_str s = [] then vsf_cmdio_write T W FTP_NEEDRNFR ''RNFR required first.'' s
      else let from = rnfr_filename_str s; s = resolve_arg T W s; arg = ftp_arg_str s in
        and_then (start_entry W kVSFLogEntryRename from s) (\<lambda>s.
        let (p, s) = prepend_path_to_filename W arg s; s = s\<lparr>log_str := log_str s @ '' '' @ p\<rparr> in
        with_access T W arg (\<lambda>s.
          let (r, s) = sys W (Rename (c_str from) (c_str arg)) s; s = s\<lparr>rnfr_filename_str := []\<rparr> in
          if r = 0 then
            and_then (vsf_log_do_log T W True s) (\<lambda>s.
            vsf_cmdio_write T W FTP_RENAMEOK ''Rename successful.'' s)
          else vsf_cmdio_write T W FTP_FILEFAIL ''Rename failed.'' s) s))"

end
