(* ===== verification/Post_Transfer.thy ===== *)
theory Post_Transfer
  imports Postlogin
begin

text \<open>
  The commands that transfer something, \<open>src/server/vsftpd-3.0.3/postlogin.c\<close>: RETR, the uploads STOR,
  APPE and STOU, and the listings LIST, NLST and STAT of a file. The parts of the long handlers, before
  and after the transfer, are definitions of their own.
\<close>

subsection \<open>RETR\<close>

text \<open>The mark: what is opened, in which mode. The size is checked when it is printed.\<close>

definition retr_mark :: "tunables \<Rightarrow> statbuf \<Rightarrow> vsf_session \<Rightarrow> string run" where
  "retr_mark T st s =
     and_then (vsf_sysutil_statbuf_get_size st s) (\<lambda>sz.
     Inr (''Opening '' @ (if tunable_ascii_download_enable T \<and> is_ascii s then ''ASCII'' else ''BINARY'')
       @ '' mode data connection for '' @ ftp_arg_str s @ '' ('' @ fmt_ld sz @ '' bytes).''))"

text \<open>After the loop: closing, logging, replying.\<close>

definition retr_finish :: "tunables \<Rightarrow> os \<Rightarrow> bool \<Rightarrow> vsf_transfer_ret \<Rightarrow> vsf_session \<Rightarrow> vsf_session run" where
  "retr_finish T W http tr s =
     and_then (if http then Inr (retval tr, s)
               else and_then (vsf_ftpdataio_dispose_transfer_fd T W s) (\<lambda>(d, s).
                 Inr (if d \<noteq> 1 \<and> retval tr = 0 then -2 else retval tr, s))) (\<lambda>(r, s).
     let s = s\<lparr>transfer_size := int (transferred tr)\<rparr> in
     and_then (if r = 0 then vsf_log_do_log T W True s else Inr s) (\<lambda>s.
     if http then Inr s
     else
       and_then (transfer_reply T W ''Failure reading local file.'' ''Failure writing network stream.'' r s) (\<lambda>s.
       and_then (check_abor T W s) (\<lambda>s.
       port_pasv_cleanup T W s))))"

text \<open>The file is open and may be sent.\<close>

definition retr_send ::
    "tunables \<Rightarrow> os \<Rightarrow> bool \<Rightarrow> int \<Rightarrow> int \<Rightarrow> statbuf \<Rightarrow> vsf_session \<Rightarrow> vsf_session run" where
  "retr_send T W http opened_file offset st s =
     and_then (if offset \<noteq> 0 then vsf_sysutil_lseek_to W opened_file offset s else Inr s) (\<lambda>s.
     and_then (retr_mark T st s) (\<lambda>mark.
     and_then (if http then Inr (0, s) else get_remote_transfer_fd T W (c_str mark) s) (\<lambda>(remote_fd, s).
     if remote_fd < 0 then port_pasv_cleanup T W s
     else
       and_then (vsf_ftpdataio_transfer_file T W remote_fd opened_file False
                   (tunable_ascii_download_enable T \<and> is_ascii s) s) (\<lambda>(tr, s).
       retr_finish T W http tr s))))"

text \<open>The checks on the open file; it is closed whatever happens.\<close>

definition retr_opened ::
    "tunables \<Rightarrow> os \<Rightarrow> bool \<Rightarrow> int \<Rightarrow> int \<Rightarrow> vsf_session \<Rightarrow> vsf_session run" where
  "retr_opened T W http opened_file offset s =
     (let s = (if tunable_lock_upload_files T then snd (sys W (LockRead opened_file) s) else s) in
      and_then (vsf_sysutil_fstat W opened_file s) (\<lambda>(st, s).
      and_then
        (if \<not> st_regfile st then
           and_then (vsf_cmdio_write T W FTP_FILEFAIL ''Failed to open file.'' s) (\<lambda>s.
           Inr (if st_dir st then vsf_log_clear_entry s else s))
         else
           and_then (sys_or_die W ''fcntl'' (DeactivateNoblock opened_file) s) (\<lambda>s.
           if is_anonymous s \<and> tunable_anon_world_readable_only T \<and> \<not> st_readable_other st
           then vsf_cmdio_write T W FTP_FILEFAIL ''Failed to open file.'' s
           else retr_send T W http opened_file offset st s)) (\<lambda>s.
      sys_or_die W ''close'' (CloseFd opened_file) s)))"

definition handle_retr :: "tunables \<Rightarrow> os \<Rightarrow> bool \<Rightarrow> vsf_session \<Rightarrow> vsf_session run" where
  "handle_retr T W http s =
     (let offset = restart_pos s; s = s\<lparr>restart_pos := 0\<rparr> in
      and_then (if http then Inr (True, s) else data_transfer_checks_ok T W s) (\<lambda>(ok, s).
      if \<not> ok then Inr s
      else if is_ascii s \<and> offset \<noteq> 0
        then vsf_cmdio_write T W FTP_FILEFAIL ''No support for resume of ASCII transfer.'' s
      else let s = resolve_arg T W s; arg = ftp_arg_str s in
        and_then (start_entry W kVSFLogEntryDownload arg s) (\<lambda>s.
        with_access T W arg (\<lambda>s.
          let (fd, s) = sys W (OpenRead (c_str arg)) s in
          if fd < 0 then vsf_cmdio_write T W FTP_FILEFAIL ''Failed to open file.'' s
          else retr_opened T W http fd offset s) s)))"

subsection \<open>Uploads\<close>

text \<open>The name is free when \<open>stat\<close> fails; the suffix is a 32-bit counter.\<close>

function unique_loop :: "os \<Rightarrow> string \<Rightarrow> nat \<Rightarrow> vsf_session \<Rightarrow> (string \<times> vsf_session) run" where
  "unique_loop W base suffix s =
     (if 2 ^ 32 \<le> suffix then Inl (Diverges, trace s)
      else let p = base @ ''.'' @ fmt_lu suffix; (st, s) = sys_stat W (Stat (c_str p)) s in
        if st = None then Inr (p, s) else unique_loop W base (suffix + 1) s)"
  by pat_completeness auto
termination
  by (relation "measure (\<lambda>(W, base, suffix, s). 2 ^ 32 - suffix)") auto

declare unique_loop.simps [simp del]

definition get_unique_filename :: "os \<Rightarrow> string \<Rightarrow> vsf_session \<Rightarrow> (string \<times> vsf_session) run" where
  "get_unique_filename W p_base_str s =
     (if p_base_str = [] then unique_loop W ''STOU'' 1 s
      else let (st, s) = sys_stat W (Stat (c_str p_base_str)) s in
        if st = None then Inr (p_base_str, s) else unique_loop W p_base_str 1 s)"

text \<open>From the open file to the connection: owner, lock, length and position.\<close>

definition upload_chown :: "tunables \<Rightarrow> os \<Rightarrow> int \<Rightarrow> vsf_session \<Rightarrow> vsf_session run" where
  "upload_chown T W fd s =
     (if is_anonymous s \<and> tunable_chown_uploads T then
        and_then (sys_or_die W ''fchmod'' (Fchmod fd (tunable_chown_upload_mode T mod 512)) s) (\<lambda>s.
        if tunable_one_process_model T then vsf_one_process_chown_upload W fd s
        else vsf_two_process_chown_upload T W fd s)
      else Inr s)"

definition upload_prepare ::
    "tunables \<Rightarrow> os \<Rightarrow> int \<Rightarrow> bool \<Rightarrow> bool \<Rightarrow> int \<Rightarrow> vsf_session \<Rightarrow> vsf_session run" where
  "upload_prepare T W fd is_append do_truncate offset s =
     and_then (vsf_sysutil_fstat W fd s) (\<lambda>(st, s).
     and_then (if st_regfile st then sys_or_die W ''fcntl'' (DeactivateNoblock fd) s else Inr s) (\<lambda>s.
     and_then (upload_chown T W fd s) (\<lambda>s.
     let s = (if tunable_lock_upload_files T then snd (sys W (LockWrite fd) s) else s) in
     and_then
       (if do_truncate then
          and_then (sys_or_die W ''ftruncate'' (Ftruncate fd) s) (\<lambda>s. vsf_sysutil_lseek_to W fd 0 s)
        else Inr s) (\<lambda>s.
     if \<not> is_append \<and> offset \<noteq> 0 then vsf_sysutil_lseek_to W fd offset s
     else if is_append then sys_or_die W ''lseek'' (LseekEnd fd) s
     else Inr s))))"

text \<open>The uploaded file is analysed; a fault of the analysis ends the session.\<close>

definition analysed :: "os \<Rightarrow> string \<Rightarrow> vsf_session \<Rightarrow> (string \<times> vsf_session) run" where
  "analysed W fn s =
     (case decode (tpms_decoder s) (os_file W (trace s) fn) fn of
        Inl e \<Rightarrow> Inl (InAnalysis e, trace s)
      | Inr (ret_string, d) \<Rightarrow> Inr (ret_string, note_event (Sys (ReadFile fn)) (s\<lparr>tpms_decoder := d\<rparr>)))"

text \<open>The reply to a complete upload is the report of the analysis, which is logged as well.\<close>

definition upload_reply :: "tunables \<Rightarrow> os \<Rightarrow> string \<Rightarrow> int \<Rightarrow> vsf_session \<Rightarrow> vsf_session run" where
  "upload_reply T W filename r s =
     (if r = -1 then vsf_cmdio_write T W FTP_BADSENDFILE ''Failure writing to local file.'' s
      else if r = -2 then
        (if \<not> data_timeout s then vsf_cmdio_write T W FTP_BADSENDNET ''Failure reading network stream.'' s
         else Inr s)
      else
        and_then (analysed W (c_str filename) s) (\<lambda>(ret_string, s).
        and_then (vsf_log_line T W kVSFLogEntryDebug (c_str ret_string) s) (\<lambda>s.
        vsf_cmdio_write T W FTP_TRANSFEROK ret_string s)))"

text \<open>The result tells whether the upload succeeded.\<close>

definition upload_receive ::
    "tunables \<Rightarrow> os \<Rightarrow> string \<Rightarrow> int \<Rightarrow> int \<Rightarrow> vsf_session \<Rightarrow> (bool \<times> vsf_session) run" where
  "upload_receive T W filename remote_fd fd s =
     and_then (vsf_ftpdataio_transfer_file T W remote_fd fd True
                 (tunable_ascii_upload_enable T \<and> is_ascii s) s) (\<lambda>(tr, s).
     and_then (vsf_ftpdataio_dispose_transfer_fd T W s) (\<lambda>(d, s).
     let r = (if d \<noteq> 1 \<and> retval tr = 0 then -2 else retval tr);
         s = s\<lparr>transfer_size := int (transferred tr)\<rparr> in
     and_then (if r = 0 then vsf_log_do_log T W True s else Inr s) (\<lambda>s.
     and_then (upload_reply T W filename r s) (\<lambda>s.
     and_then (check_abor T W s) (\<lambda>s. Inr (r = 0, s))))))"

definition upload_opened ::
    "tunables \<Rightarrow> os \<Rightarrow> string \<Rightarrow> int \<Rightarrow> bool \<Rightarrow> bool \<Rightarrow> bool \<Rightarrow> int \<Rightarrow> vsf_session \<Rightarrow> vsf_session run" where
  "upload_opened T W filename fd is_append is_unique do_truncate offset s =
     and_then (upload_prepare T W fd is_append do_truncate offset s) (\<lambda>s.
     and_then (get_remote_transfer_fd T W
       (if is_unique then c_str (''FILE: '' @ filename) else ''Ok to send data.'') s) (\<lambda>(remote_fd, s).
     and_then (if remote_fd < 0 then Inr (False, s) else upload_receive T W filename remote_fd fd s) (\<lambda>(success, s).
     and_then (port_pasv_cleanup T W s) (\<lambda>s.
     let s = (if tunable_delete_failed_uploads T \<and> \<not> success
              then snd (sys W (Unlink (c_str filename)) s) else s)
     in sys_or_die W ''close'' (CloseFd fd) s))))"

definition handle_upload_common ::
    "tunables \<Rightarrow> os \<Rightarrow> bool \<Rightarrow> bool \<Rightarrow> vsf_session \<Rightarrow> vsf_session run" where
  "handle_upload_common T W is_append is_unique s =
     (let offset = restart_pos s; s = s\<lparr>restart_pos := 0\<rparr> in
      and_then (data_transfer_checks_ok T W s) (\<lambda>(ok, s).
      if \<not> ok then Inr s
      else let s = resolve_arg T W s; arg = ftp_arg_str s in
        and_then (if is_unique then get_unique_filename W arg s else Inr (arg, s)) (\<lambda>(filename, s).
        and_then (start_entry W kVSFLogEntryUpload arg s) (\<lambda>s.
        with_access T W filename (\<lambda>s.
          let exclusive = (is_unique \<or> is_anonymous s \<and> \<not> tunable_anon_other_write_enable T);
              (fd, s) = sys W (if exclusive then CreateExclusive (c_str filename)
                               else Create (c_str filename)) s
          in if fd < 0 then vsf_cmdio_write T W FTP_UPLOADFAIL ''Could not create file.'' s
             else upload_opened T W filename fd is_append is_unique
               (\<not> exclusive \<and> \<not> is_append \<and> offset = 0) offset s) s))))"

definition handle_stor :: "tunables \<Rightarrow> os \<Rightarrow> vsf_session \<Rightarrow> vsf_session run" where
  "handle_stor T W s = handle_upload_common T W False False s"

definition handle_appe :: "tunables \<Rightarrow> os \<Rightarrow> vsf_session \<Rightarrow> vsf_session run" where
  "handle_appe T W s = handle_upload_common T W True False s"

definition handle_stou :: "tunables \<Rightarrow> os \<Rightarrow> vsf_session \<Rightarrow> vsf_session run" where
  "handle_stou T W s = handle_upload_common T W False True s"

subsection \<open>Listings\<close>

text \<open>The options and the filter of a listing command.\<close>

definition list_arguments :: "string \<Rightarrow> string \<times> string" where
  "list_arguments arg =
     (if arg \<noteq> [] \<and> hd arg = CHR ''-'' then s_split_char (CHR '' '') (drop 1 arg) else ([], arg))"

definition s_split_char_reverse :: "char \<Rightarrow> string \<Rightarrow> string \<times> string" where
  "s_split_char_reverse c s = s_split_text_reverse [c] s"

text \<open>
  What to list, when a filter is given or not: whether the directory is open, its name, and the filter
  that is left.
\<close>

definition open_listing ::
    "os \<Rightarrow> bool \<Rightarrow> string \<Rightarrow> vsf_session \<Rightarrow> (bool \<times> string \<times> string) \<times> vsf_session" where
  "open_listing W given filt s =
     (if \<not> given then let (opened, s) = str_opendir W ''.'' s in ((opened, ''.'', []), s)
      else let (opened, s) = str_opendir W filt s in
        if opened then ((True, filt, []), s)
        else let
            (dir_name, filt) =
              (if CHR ''/'' \<in> set filt
               then let (d, f) = s_split_char_reverse (CHR ''/'') filt
                    in (if d = [] then ''/'' else d, f)
               else (''.'', filt));
            (opened, s) = str_opendir W dir_name s
          in ((opened, dir_name, filt), s))"

definition list_reply ::
    "tunables \<Rightarrow> os \<Rightarrow> bool \<Rightarrow> bool \<Rightarrow> int \<Rightarrow> vsf_session \<Rightarrow> vsf_session run" where
  "list_reply T W stat_cmd readable r s =
     (if stat_cmd then vsf_cmdio_write T W FTP_STATFILE_OK ''End of status'' s
      else if r \<noteq> 0 then
        (if \<not> data_timeout s then vsf_cmdio_write T W FTP_BADSENDNET ''Failure writing network stream.'' s
         else Inr s)
      else if \<not> readable then
        vsf_cmdio_write T W FTP_TRANSFEROK ''Transfer done (but failed to open directory).'' s
      else vsf_cmdio_write T W FTP_TRANSFEROK ''Directory send OK.'' s)"

text \<open>The listing itself, over the data connection or the control connection.\<close>

definition list_send ::
    "tunables \<Rightarrow> os \<Rightarrow> bool \<Rightarrow> bool \<Rightarrow> bool \<Rightarrow> string \<Rightarrow> string \<Rightarrow> string \<Rightarrow> vsf_session \<Rightarrow> vsf_session run" where
  "list_send T W full_details stat_cmd opened dir_name opts filt s =
     and_then
       (if is_anonymous s \<and> opened \<and> tunable_anon_world_readable_only T then
          let (st, s) = sys_stat W (DirStat dir_name) s in
          case st of None \<Rightarrow> die ''fstat'' s | Some st \<Rightarrow> Inr (st_readable_other st, s)
        else Inr (True, s)) (\<lambda>(dir_allow_read, s).
     and_then (if opened \<and> dir_allow_read
               then vsf_ftpdataio_transfer_dir T W stat_cmd dir_name opts filt full_details s
               else Inr (0, s)) (\<lambda>(r, s).
     and_then (if \<not> stat_cmd then
                 and_then (vsf_ftpdataio_dispose_transfer_fd T W s) (\<lambda>(d, s).
                 Inr (if d \<noteq> 1 \<and> r = 0 then -1 else r, s))
               else Inr (r, s)) (\<lambda>(r, s).
     and_then (list_reply T W stat_cmd (opened \<and> dir_allow_read) r s) (\<lambda>s.
     check_abor T W s))))"

definition list_transfer ::
    "tunables \<Rightarrow> os \<Rightarrow> bool \<Rightarrow> bool \<Rightarrow> string \<Rightarrow> bool \<Rightarrow> string \<Rightarrow> vsf_session \<Rightarrow> vsf_session run" where
  "list_transfer T W full_details stat_cmd opts given filt s =
     (let ((opened, dir_name, filt), s) = open_listing W given filt s in
      and_then
        (if stat_cmd then
           and_then (vsf_cmdio_write_hyphen T W FTP_STATFILE_OK ''Status follows:'' s) (\<lambda>s.
           list_send T W full_details True opened dir_name (opts @ ''a'') filt s)
         else
           and_then (get_remote_transfer_fd T W ''Here comes the directory listing.'' s) (\<lambda>(remote_fd, s).
           if remote_fd < 0 then Inr s
           else list_send T W full_details False opened dir_name opts filt s)) (\<lambda>s.
      and_then (if opened then vsf_sysutil_closedir W dir_name s else Inr s) (\<lambda>s.
      if \<not> stat_cmd then port_pasv_cleanup T W s else Inr s)))"

definition handle_dir_common :: "tunables \<Rightarrow> os \<Rightarrow> bool \<Rightarrow> bool \<Rightarrow> vsf_session \<Rightarrow> vsf_session run" where
  "handle_dir_common T W full_details stat_cmd s =
     and_then (if stat_cmd then Inr (True, s) else data_transfer_checks_ok T W s) (\<lambda>(ok, s).
     if \<not> ok then Inr s
     else let (opts, filt) = list_arguments (ftp_arg_str s) in
       if filt = [] then list_transfer T W full_details stat_cmd opts False [] s
       else let (filt, s) = resolve_tilde T W filt s in
         with_access T W filt (list_transfer T W full_details stat_cmd opts True filt) s)"

definition handle_list :: "tunables \<Rightarrow> os \<Rightarrow> vsf_session \<Rightarrow> vsf_session run" where
  "handle_list T W s = handle_dir_common T W True False s"

definition handle_nlst :: "tunables \<Rightarrow> os \<Rightarrow> vsf_session \<Rightarrow> vsf_session run" where
  "handle_nlst T W s = handle_dir_common T W False False s"

definition handle_stat_file :: "tunables \<Rightarrow> os \<Rightarrow> vsf_session \<Rightarrow> vsf_session run" where
  "handle_stat_file T W s = handle_dir_common T W True True s"

end
