(* ===== verification/Post_Commands.thy ===== *)
theory Post_Commands
  imports Post_Transfer
begin

text \<open>
  The other commands after login and the command loop, \<open>src/server/vsftpd-3.0.3/postlogin.c\<close>. The chain
  that picks the handler is cut into four pieces in the order of the code. The loop takes a list of
  inputs; when it is used up the session waits for the next one.
\<close>

subsection \<open>PASV, PORT and EPRT\<close>

text \<open>The answer to EPSV with an argument that is no more than an answer.\<close>

definition epsv_argument :: "tunables \<Rightarrow> os \<Rightarrow> vsf_session \<Rightarrow> (bool \<times> vsf_session) run" where
  "epsv_argument T W s =
     (let s = s\<lparr>ftp_arg_str := s_upper (ftp_arg_str s)\<rparr> in
      if ftp_arg_str s = ''ALL'' then
        and_then (vsf_cmdio_write T W FTP_EPSVALLOK ''EPSV ALL ok.'' (s\<lparr>epsv_all := True\<rparr>)) (\<lambda>s.
        Inr (True, s))
      else let argval = vsf_sysutil_atoi (c_str (ftp_arg_str s)) in
        if argval < 1 \<or> argval > 2 \<or> (\<not> vsf_sysutil_sockaddr_is_ipv6 (p_local_addr s) \<and> argval = 2)
        then and_then (vsf_cmdio_write T W FTP_EPSVBAD ''Bad network protocol.'' s) (\<lambda>s. Inr (True, s))
        else Inr (False, s))"

text \<open>The address that PASV reports.\<close>

definition pasv_report_addr :: "tunables \<Rightarrow> os \<Rightarrow> vsf_session \<Rightarrow> sockaddr run" where
  "pasv_report_addr T W s =
     (case tunable_pasv_address T of
        Some t \<Rightarrow> (case os_inet_aton W t of None \<Rightarrow> die ''invalid pasv_address'' s | Some a \<Rightarrow> Inr (Sa_In a 0))
      | None \<Rightarrow> lifted s (vsf_sysutil_sockaddr_clone (p_local_addr s)))"

definition pasv_reply :: "os \<Rightarrow> bool \<Rightarrow> sockaddr \<Rightarrow> nat \<Rightarrow> string" where
  "pasv_reply W ipv6 a the_port =
     s_replace_char (CHR ''.'') (CHR '','')
       (''Entering Passive Mode (''
        @ (if \<not> ipv6 then c_str (os_inet_ntop W a)
           else case vsf_sysutil_sockaddr_ipv6_v4 a of
               Some v4 \<Rightarrow> c_str (os_inet_ntoa W v4) | None \<Rightarrow> ''0,0,0,0''))
     @ '','' @ fmt_lu (the_port div 256) @ '','' @ fmt_lu (the_port mod 256) @ '').''"

definition handle_pasv :: "tunables \<Rightarrow> os \<Rightarrow> bool \<Rightarrow> vsf_session \<Rightarrow> vsf_session run" where
  "handle_pasv T W is_epsv s =
     and_then (if is_epsv \<and> ftp_arg_str s \<noteq> [] then epsv_argument T W s else Inr (False, s)) (\<lambda>(done, s).
     if done then Inr s
     else
       and_then (pasv_cleanup T W s) (\<lambda>s.
       let s = port_cleanup s in
       and_then (if tunable_one_process_model T then vsf_one_process_listen T W s
                 else vsf_two_process_listen T W s) (\<lambda>(the_port, s).
       if is_epsv then
         vsf_cmdio_write_str T W FTP_EPSVOK
           (''Entering Extended Passive Mode (|||'' @ fmt_lu the_port @ ''|)'') s
       else
         and_then (pasv_report_addr T W s) (\<lambda>a.
         vsf_cmdio_write_str T W FTP_PASVOK
           (pasv_reply W (vsf_sysutil_sockaddr_is_ipv6 (p_local_addr s)) a the_port) s))))"

text \<open>The address of PORT or EPRT is taken, unless it is not the client's or the port is reserved.\<close>

definition accept_port :: "tunables \<Rightarrow> os \<Rightarrow> sockaddr \<Rightarrow> nat \<Rightarrow> string \<Rightarrow> string \<Rightarrow> vsf_session \<Rightarrow> vsf_session run" where
  "accept_port T W a the_port bad_msg good_msg s =
     (let s = s\<lparr>p_port_sockaddr := Some a\<rparr> in
      if \<not> tunable_port_promiscuous T \<and>
        (\<not> vsf_sysutil_sockaddr_addr_equal (p_remote_addr s) a \<or> vsf_sysutil_is_port_reserved the_port)
      then and_then (vsf_cmdio_write T W FTP_BADCMD bad_msg s) (\<lambda>s. Inr (port_cleanup s))
      else vsf_cmdio_write T W FTP_PORTOK good_msg s)"

definition handle_port :: "tunables \<Rightarrow> os \<Rightarrow> vsf_session \<Rightarrow> vsf_session run" where
  "handle_port T W s =
     and_then (pasv_cleanup T W s) (\<lambda>s.
     let s = port_cleanup s in
     case vsf_sysutil_parse_uchar_string_sep (ftp_arg_str s) (CHR '','') 6 of
       None \<Rightarrow> vsf_cmdio_write T W FTP_BADCMD ''Illegal PORT command.'' s
     | Some vals \<Rightarrow>
         let the_port = of_char (vals ! 4) * 256 + of_char (vals ! 5) in
         and_then (lifted s
           (bind_res (vsf_sysutil_sockaddr_clone (p_local_addr s)) (\<lambda>a.
            bind_res (vsf_sysutil_sockaddr_set_ipv4addr a vals) (\<lambda>a.
            vsf_sysutil_sockaddr_set_port a the_port)))) (\<lambda>a.
         accept_port T W a the_port ''Illegal PORT command.''
           ''PORT command successful. Consider using PASV.'' s))"

text \<open>The argument of EPRT: an answer, or the protocol, the raw address and the port.\<close>

definition eprt_fields :: "bool \<Rightarrow> string \<Rightarrow> string + int \<times> string \<times> nat" where
  "eprt_fields ipv6 arg =
     (let bad = Inl ''Bad EPRT command.'';
          (part1, part2) = s_split_char (CHR ''|'') arg
      in if part1 \<noteq> [] then bad
      else let
          (part2, part1) = s_split_char (CHR ''|'') part2;
          proto = vsf_sysutil_atoi (c_str part2)
        in if proto < 1 \<or> proto > 2 \<or> (\<not> ipv6 \<and> proto = 2) then Inl ''Bad EPRT protocol.''
        else let (part1, part2) = s_split_char (CHR ''|'') part1 in
          case (if proto = 2 then vsf_sysutil_parse_ipv6 (fst (s_split_char (CHR ''%'') part1))
                else vsf_sysutil_parse_ipv4 part1) of
            None \<Rightarrow> bad
          | Some raw \<Rightarrow>
              let (part2, part1) = s_split_char (CHR ''|'') part2 in
              if part1 \<noteq> [] \<or> part2 = [] then bad
              else let port = vsf_sysutil_atoi (c_str part2) in
                if port < 0 \<or> port > 65535 then bad else Inr (proto, raw, nat port))"

definition handle_eprt :: "tunables \<Rightarrow> os \<Rightarrow> vsf_session \<Rightarrow> vsf_session run" where
  "handle_eprt T W s =
     and_then (pasv_cleanup T W (port_cleanup s)) (\<lambda>s.
     case eprt_fields (vsf_sysutil_sockaddr_is_ipv6 (p_local_addr s)) (ftp_arg_str s) of
       Inl msg \<Rightarrow> vsf_cmdio_write T W FTP_BADCMD msg s
     | Inr (proto, raw, port) \<Rightarrow>
         and_then (lifted s
           (bind_res (vsf_sysutil_sockaddr_clone (p_local_addr s)) (\<lambda>a.
            bind_res (if proto = 2 then vsf_sysutil_sockaddr_set_ipv6addr a raw
                      else vsf_sysutil_sockaddr_set_ipv4addr a raw) (\<lambda>a.
            vsf_sysutil_sockaddr_set_port a port)))) (\<lambda>a.
         accept_port T W a port ''Illegal EPRT command.''
           ''EPRT command successful. Consider using EPSV.'' s))"

subsection \<open>Modes and file facts\<close>

definition handle_type :: "tunables \<Rightarrow> os \<Rightarrow> vsf_session \<Rightarrow> vsf_session run" where
  "handle_type T W s =
     (let s = s\<lparr>ftp_arg_str := s_upper (ftp_arg_str s)\<rparr>; arg = ftp_arg_str s in
      if arg = ''I'' \<or> arg = ''L8'' \<or> arg = ''L 8''
      then vsf_cmdio_write T W FTP_TYPEOK ''Switching to Binary mode.'' (s\<lparr>is_ascii := False\<rparr>)
      else if arg = ''A'' \<or> arg = ''A N''
      then vsf_cmdio_write T W FTP_TYPEOK ''Switching to ASCII mode.'' (s\<lparr>is_ascii := True\<rparr>)
      else vsf_cmdio_write T W FTP_BADCMD ''Unrecognised TYPE command.'' s)"

definition handle_rest :: "tunables \<Rightarrow> os \<Rightarrow> vsf_session \<Rightarrow> vsf_session run" where
  "handle_rest T W s =
     and_then (lifted s (vsf_sysutil_a_to_filesize_t (c_str (ftp_arg_str s)))) (\<lambda>val.
     vsf_cmdio_write_str T W FTP_RESTOK (''Restart position accepted ('' @ fmt_ld (int val) @ '').'')
       (s\<lparr>restart_pos := int val\<rparr>))"

definition handle_size :: "tunables \<Rightarrow> os \<Rightarrow> vsf_session \<Rightarrow> vsf_session run" where
  "handle_size T W s =
     (let s = resolve_arg T W s; arg = ftp_arg_str s in
      with_access T W arg (\<lambda>s.
        let (st, s) = sys_stat W (Stat (c_str arg)) s in
        case st of None \<Rightarrow> vsf_cmdio_write T W FTP_FILEFAIL ''Could not get file size.'' s
        | Some st \<Rightarrow>
            if \<not> st_regfile st then vsf_cmdio_write T W FTP_FILEFAIL ''Could not get file size.'' s
            else and_then (vsf_sysutil_statbuf_get_size st s) (\<lambda>sz.
              vsf_cmdio_write_str T W FTP_SIZEOK (fmt_ld sz) s)) s)"

text \<open>Whether the argument of MDTM is a time and a name; the test comes before the argument is resolved.\<close>

definition mdtm_time_given :: "string \<Rightarrow> bool" where
  "mdtm_time_given arg =
     (case s_locate_text '' '' arg of None \<Rightarrow> False
      | Some i \<Rightarrow> vsf_sysutil_isdigit (arg ! 0) \<and>
          (i = 8 \<or> i = 14 \<or> (i > 15 \<and> arg ! 14 = CHR ''.'')))"

definition mdtm_write :: "tunables \<Rightarrow> os \<Rightarrow> string \<Rightarrow> int \<Rightarrow> vsf_session \<Rightarrow> vsf_session run" where
  "mdtm_write T W arg modtime s =
     (let (st, s) = sys_stat W (Stat (c_str arg)) s;
          fail = vsf_cmdio_write T W FTP_FILEFAIL ''Could not set file modification time.''
      in case st of None \<Rightarrow> fail s
      | Some st \<Rightarrow>
          if \<not> st_regfile st then fail s
          else let
              (r, s) = sys W (SetModtime (c_str arg)
                (if tunable_use_localtime T then modtime else modtime - os_timezone W)) s
            in if r \<noteq> 0 then fail s
               else vsf_cmdio_write T W FTP_MDTMOK ''File modification time set.'' s)"

definition mdtm_report :: "tunables \<Rightarrow> os \<Rightarrow> statbuf option \<Rightarrow> vsf_session \<Rightarrow> vsf_session run" where
  "mdtm_report T W st s =
     (let fail = vsf_cmdio_write T W FTP_FILEFAIL ''Could not get file modification time.'' in
      case st of None \<Rightarrow> fail s
      | Some st \<Rightarrow>
          if \<not> st_regfile st then fail s
          else vsf_cmdio_write_str T W FTP_MDTMOK
            (c_str (os_numeric_date W st (tunable_use_localtime T))) s)"

definition handle_mdtm :: "tunables \<Rightarrow> os \<Rightarrow> vsf_session \<Rightarrow> vsf_session run" where
  "handle_mdtm T W s =
     (let (st, s) = sys_stat W (Stat (c_str (ftp_arg_str s))) s;
          do_write = (tunable_mdtm_write T \<and> st = None \<and> mdtm_time_given (ftp_arg_str s));
          (time, name) = s_split_char (CHR '' '') (ftp_arg_str s);
          modtime = (if do_write then os_parse_time W (c_str time) else 0);
          s = resolve_arg T W (if do_write then s\<lparr>ftp_arg_str := name\<rparr> else s);
          arg = ftp_arg_str s
      in with_access T W arg (\<lambda>s.
           if do_write \<and> tunable_write_enable T \<and>
             (tunable_anon_other_write_enable T \<or> \<not> is_anonymous s)
           then mdtm_write T W arg modtime s
           else mdtm_report T W st s) s)"

subsection \<open>SITE\<close>

definition handle_site_chmod :: "tunables \<Rightarrow> os \<Rightarrow> string \<Rightarrow> vsf_session \<Rightarrow> vsf_session run" where
  "handle_site_chmod T W p_arg_str s =
     (let (mode, file) = s_split_char (CHR '' '') p_arg_str in
      if p_arg_str = [] \<or> file = []
      then vsf_cmdio_write T W FTP_BADCMD ''SITE CHMOD needs 2 arguments.'' s
      else let (file, s) = resolve_tilde T W file s in
        and_then (start_entry W kVSFLogEntryChmod file s) (\<lambda>s.
        let s = s\<lparr>log_str := log_str s @ '' '' @ mode\<rparr> in
        with_access T W file (\<lambda>s.
          let perms = vsf_sysutil_octal_to_uint (c_str mode);
              (r, s) = sys W (Chmod (c_str file) (perms AND 0x1FF)) s
          in if r < 0 then vsf_cmdio_write T W FTP_FILEFAIL ''SITE CHMOD command failed.'' s
             else and_then (vsf_log_do_log T W True s) (\<lambda>s.
               vsf_cmdio_write T W FTP_CHMODOK ''SITE CHMOD command ok.'' s)) s))"

definition vsf_sysutil_uint_to_octal :: "32 word \<Rightarrow> string" where
  "vsf_sysutil_uint_to_octal the_uint =
     (if the_uint = 0 then ''0'' else ''0'' @ digits_of 8 (unat the_uint))"

definition handle_site_umask :: "tunables \<Rightarrow> os \<Rightarrow> string \<Rightarrow> vsf_session \<Rightarrow> vsf_session run" where
  "handle_site_umask T W p_arg_str s =
     (if p_arg_str = [] then
        vsf_cmdio_write_str T W FTP_UMASKOK
          (''Your current UMASK is '' @ vsf_sysutil_uint_to_octal (umask s)) s
      else let s = vsf_sysutil_set_umask W (vsf_sysutil_octal_to_uint (c_str p_arg_str)) s in
        vsf_cmdio_write_str T W FTP_UMASKOK (''UMASK set to '' @ vsf_sysutil_uint_to_octal (umask s)) s)"

definition handle_site :: "tunables \<Rightarrow> os \<Rightarrow> vsf_session \<Rightarrow> vsf_session run" where
  "handle_site T W s =
     (let (cmd, args) = s_split_char (CHR '' '') (ftp_arg_str s);
          cmd = s_upper cmd;
          s = s\<lparr>ftp_arg_str := cmd\<rparr>;
          chmod = (tunable_write_enable T \<and> tunable_chmod_enable T)
      in if chmod \<and> cmd = ''CHMOD'' then handle_site_chmod T W args s
         else if cmd = ''UMASK'' then handle_site_umask T W args s
         else if cmd = ''HELP''
           then vsf_cmdio_write T W FTP_SITEHELP (if chmod then ''CHMOD UMASK HELP'' else ''UMASK HELP'') s
         else vsf_cmdio_write T W FTP_BADCMD ''Unknown SITE command.'' s)"

end
