(* ===== verification/Post_Loop.thy ===== *)
theory Post_Loop
  imports Post_Commands
begin

text \<open>
  Status and help, the chain of commands and the command loop, \<open>process_post_login\<close> of
  \<open>src/server/vsftpd-3.0.3/postlogin.c\<close>, and the one request of an HTTP connection. The chain is cut into
  four pieces in the order of the code.
\<close>

subsection \<open>Status and help\<close>

definition help_lines :: "string list" where
  "help_lines =
     ['' ABOR ACCT ALLO APPE CDUP CWD  DELE EPRT EPSV FEAT HELP LIST MDTM MKD'' @ crlf,
      '' MODE NLST NOOP OPTS PASS PASV PORT PWD  QUIT REIN REST RETR RMD  RNFR'' @ crlf,
      '' RNTO SITE SIZE SMNT STAT STOR STOU STRU SYST TYPE USER XCUP XCWD XMKD'' @ crlf,
      '' XPWD XRMD'' @ crlf]"

definition handle_help :: "tunables \<Rightarrow> os \<Rightarrow> vsf_session \<Rightarrow> vsf_session run" where
  "handle_help T W s =
     and_then (vsf_cmdio_write_hyphen T W FTP_HELP ''The following commands are recognized.'' s) (\<lambda>s.
     and_then (write_raws T W help_lines s) (\<lambda>s.
     vsf_cmdio_write T W FTP_HELP ''Help OK.'' s))"

text \<open>The raw writes of STAT, one after another; a line can be several of them.\<close>

definition stat_texts :: "tunables \<Rightarrow> vsf_session \<Rightarrow> string list" where
  "stat_texts T s =
     [''     Connected to '', remote_ip_str s, crlf, ''     Logged in as '', user_str s, crlf,
      ''     TYPE: '', (if is_ascii s then ''ASCII'' else ''BINARY'') @ crlf]
     @ (if bw_rate_max s = 0 then [''     No session bandwidth limit'' @ crlf]
        else [''     Session bandwidth limit in byte/s is '', vsf_sysutil_ulong_to_str (bw_rate_max s), crlf])
     @ (if tunable_idle_session_timeout T = 0 then [''     No session timeout'' @ crlf]
        else [''     Session timeout in seconds is '',
              vsf_sysutil_ulong_to_str (tunable_idle_session_timeout T), crlf])
     @ [''     Control connection is '' @ (if control_use_ssl s then ''encrypted'' else ''plain text'') @ crlf,
        ''     Data connections will be '' @ (if data_use_ssl s then ''encrypted'' else ''plain text'') @ crlf]
     @ (if num_clients s > 0
        then [''     At session startup, client count was '', vsf_sysutil_ulong_to_str (num_clients s), crlf]
        else [])
     @ [''     vsFTPd 0.6.4 - secure, fast, stable'' @ crlf]"

definition handle_stat :: "tunables \<Rightarrow> os \<Rightarrow> vsf_session \<Rightarrow> vsf_session run" where
  "handle_stat T W s =
     and_then (vsf_cmdio_write_hyphen T W FTP_STATOK ''FTP server status:'' s) (\<lambda>s.
     and_then (write_raws T W (stat_texts T s) s) (\<lambda>s.
     vsf_cmdio_write T W FTP_STATOK ''End of status'' s))"

definition handle_logged_in_user :: "tunables \<Rightarrow> os \<Rightarrow> vsf_session \<Rightarrow> vsf_session run" where
  "handle_logged_in_user T W s =
     (if is_anonymous s then vsf_cmdio_write T W FTP_LOGINERR ''Can't change from guest user.'' s
      else if user_str s = ftp_arg_str s
        then vsf_cmdio_write T W FTP_GIVEPWORD ''Any password will do.'' s
      else vsf_cmdio_write T W FTP_LOGINERR ''Can't change to another user.'' s)"

definition handle_logged_in_pass :: "tunables \<Rightarrow> os \<Rightarrow> vsf_session \<Rightarrow> vsf_session run" where
  "handle_logged_in_pass T W s = vsf_cmdio_write T W FTP_LOGINOK ''Already logged in.'' s"

text \<open>STRU and MODE have one value each.\<close>

definition fixed_argument :: "tunables \<Rightarrow> os \<Rightarrow> string \<Rightarrow> nat \<Rightarrow> string \<Rightarrow> nat \<Rightarrow> string \<Rightarrow> vsf_session \<Rightarrow>
    vsf_session run" where
  "fixed_argument T W arg good good_msg bad bad_msg s =
     (let s = s\<lparr>ftp_arg_str := s_upper (ftp_arg_str s)\<rparr> in
      if ftp_arg_str s = arg then vsf_cmdio_write T W good good_msg s
      else vsf_cmdio_write T W bad bad_msg s)"

subsection \<open>The chain\<close>

definition known_commands :: "string list" where
  "known_commands =
     [''PASV'', ''PORT'', ''STOR'', ''MKD'', ''XMKD'', ''RMD'', ''XRMD'', ''DELE'', ''RNFR'', ''RNTO'',
      ''SITE'', ''APPE'', ''EPSV'', ''EPRT'', ''RETR'', ''LIST'', ''NLST'', ''STOU'', ''ALLO'', ''REIN'',
      ''ACCT'', ''SMNT'', ''FEAT'', ''OPTS'', ''STAT'', ''PBSZ'', ''PROT'']"

text \<open>Without SSL in the build, PBSZ and PROT do nothing at all.\<close>

definition dispatch_last :: "tunables \<Rightarrow> os \<Rightarrow> string \<Rightarrow> vsf_session \<Rightarrow> vsf_session run" where
  "dispatch_last T W cmd s =
     (if tunable_ssl_enable T \<and> cmd = ''PBSZ'' then Inr s
      else if tunable_ssl_enable T \<and> cmd = ''PROT'' then Inr s
      else if cmd = ''USER'' then handle_logged_in_user T W s
      else if cmd = ''PASS'' then handle_logged_in_pass T W s
      else if cmd \<in> set known_commands then vsf_cmdio_write T W FTP_NOPERM ''Permission denied.'' s
      else if cmd = [] \<and> ftp_arg_str s = [] then Inr s
      else if cmd \<in> {''GET'', ''POST'', ''HEAD'', ''OPTIONS'', ''CONNECT''}
        then vsf_cmdio_write_exit T W FTP_BADCMD ''HTTP protocol commands not allowed.'' 1 s
      else vsf_cmdio_write T W FTP_BADCMD ''Unknown command.'' s)"

definition telnet_abor :: string where
  "telnet_abor = [CHR 0xFF, CHR 0xF4, CHR 0xFF, CHR 0xF2] @ ''ABOR''"

definition dispatch_info :: "tunables \<Rightarrow> os \<Rightarrow> string \<Rightarrow> vsf_session \<Rightarrow> vsf_session run" where
  "dispatch_info T W cmd s =
     (if cmd = ''ABOR'' \<or> cmd = telnet_abor
        then vsf_cmdio_write T W FTP_ABOR_NOCONN ''No transfer to ABOR.'' s
      else if tunable_write_enable T \<and> (tunable_anon_other_write_enable T \<or> \<not> is_anonymous s) \<and>
        cmd = ''APPE'' then handle_appe T W s
      else if cmd = ''MDTM'' then handle_mdtm T W s
      else if tunable_port_enable T \<and> cmd = ''EPRT'' then handle_eprt T W s
      else if cmd = ''STRU''
        then fixed_argument T W ''F'' FTP_STRUOK ''Structure set to F.'' FTP_BADSTRU ''Bad STRU command.'' s
      else if cmd = ''MODE''
        then fixed_argument T W ''S'' FTP_MODEOK ''Mode set to S.'' FTP_BADMODE ''Bad MODE command.'' s
      else if tunable_write_enable T \<and> (tunable_anon_upload_enable T \<or> \<not> is_anonymous s) \<and>
        cmd = ''STOU'' then handle_stou T W s
      else if cmd = ''ALLO'' then vsf_cmdio_write T W FTP_ALLOOK ''ALLO command ignored.'' s
      else if cmd = ''REIN'' then vsf_cmdio_write T W FTP_COMMANDNOTIMPL ''REIN not implemented.'' s
      else if cmd = ''ACCT'' then vsf_cmdio_write T W FTP_COMMANDNOTIMPL ''ACCT not implemented.'' s
      else if cmd = ''SMNT'' then vsf_cmdio_write T W FTP_COMMANDNOTIMPL ''SMNT not implemented.'' s
      else if cmd = ''FEAT'' then handle_feat T W s
      else if cmd = ''OPTS'' then handle_opts T W s
      else if cmd = ''STAT'' \<and> ftp_arg_str s = [] then handle_stat T W s
      else if tunable_dirlist_enable T \<and> cmd = ''STAT'' then handle_stat_file T W s
      else dispatch_last T W cmd s)"

definition dispatch_write :: "tunables \<Rightarrow> os \<Rightarrow> string \<Rightarrow> vsf_session \<Rightarrow> vsf_session run" where
  "dispatch_write T W cmd s =
     (let w = (\<lambda>anon_enable. tunable_write_enable T \<and> (anon_enable \<or> \<not> is_anonymous s)) in
      if w (tunable_anon_upload_enable T) \<and> cmd = ''STOR'' then handle_stor T W s
      else if w (tunable_anon_mkdir_write_enable T) \<and> (cmd = ''MKD'' \<or> cmd = ''XMKD'') then handle_mkd T W s
      else if w (tunable_anon_other_write_enable T) \<and> (cmd = ''RMD'' \<or> cmd = ''XRMD'') then handle_rmd T W s
      else if w (tunable_anon_other_write_enable T) \<and> cmd = ''DELE'' then handle_dele T W s
      else if cmd = ''REST'' then handle_rest T W s
      else if w (tunable_anon_other_write_enable T) \<and> cmd = ''RNFR'' then handle_rnfr T W s
      else if w (tunable_anon_other_write_enable T) \<and> cmd = ''RNTO'' then handle_rnto T W s
      else if tunable_dirlist_enable T \<and> cmd = ''NLST'' then handle_nlst T W s
      else if cmd = ''SIZE'' then handle_size T W s
      else if \<not> is_anonymous s \<and> cmd = ''SITE'' then handle_site T W s
      else dispatch_info T W cmd s)"

definition dispatch :: "tunables \<Rightarrow> os \<Rightarrow> string \<Rightarrow> vsf_session \<Rightarrow> vsf_session run" where
  "dispatch T W cmd s =
     (if cmd = ''QUIT'' then vsf_cmdio_write_exit T W FTP_GOODBYE ''Goodbye.'' 0 s
      else if cmd = ''PWD'' \<or> cmd = ''XPWD'' then handle_pwd T W s
      else if cmd = ''CWD'' \<or> cmd = ''XCWD'' then handle_cwd T W s
      else if cmd = ''CDUP'' \<or> cmd = ''XCUP'' then handle_cdup T W s
      else if tunable_pasv_enable T \<and> \<not> epsv_all s \<and> (cmd = ''PASV'' \<or> cmd = ''P@SW'')
        then handle_pasv T W False s
      else if tunable_pasv_enable T \<and> cmd = ''EPSV'' then handle_pasv T W True s
      else if tunable_download_enable T \<and> cmd = ''RETR'' then handle_retr T W False s
      else if cmd = ''NOOP'' then vsf_cmdio_write T W FTP_NOOPOK ''NOOP ok.'' s
      else if cmd = ''SYST'' then vsf_cmdio_write T W FTP_SYSTOK ''UNIX Type: L8'' s
      else if cmd = ''HELP'' then handle_help T W s
      else if tunable_dirlist_enable T \<and> cmd = ''LIST'' then handle_list T W s
      else if cmd = ''TYPE'' then handle_type T W s
      else if tunable_port_enable T \<and> \<not> epsv_all s \<and> cmd = ''PORT'' then handle_port T W s
      else dispatch_write T W cmd s)"

subsection \<open>The loop\<close>

text \<open>A comma separated list of commands, up to its first empty item.\<close>

lemma split_char_snd_length:
  assumes "s \<noteq> []"
  shows "length (snd (s_split_char c s)) < length s"
proof (cases "s_locate_text [c] s = None")
  case True
  with assms show ?thesis by (simp add: s_split_char_def s_split_text_def split_at_def)
next
  case False
  from s_split_char_found [OF False] show ?thesis by simp
qed

lemma split_char_fst_nonempty: "fst (s_split_char c s) \<noteq> [] \<Longrightarrow> s \<noteq> []"
  by (auto simp: s_split_char_def s_split_text_def split_at_def s_locate_text_def offsets_def c_str_def)

function cmd_listed :: "string \<Rightarrow> string \<Rightarrow> bool" where
  "cmd_listed src cmd =
     (let item = fst (s_split_char (CHR '','') src); rhs = snd (s_split_char (CHR '','') src) in
      if item = [] then False else if item = cmd then True else cmd_listed rhs cmd)"
  by pat_completeness auto
termination
  by (relation "measure (\<lambda>(src, cmd). length src)")
    (use split_char_snd_length split_char_fst_nonempty in auto)

declare cmd_listed.simps [simp del]

definition cmd_ok :: "tunables \<Rightarrow> string \<Rightarrow> bool" where
  "cmd_ok T cmd \<longleftrightarrow>
     (case tunable_cmds_allowed T of None \<Rightarrow> True | Some l \<Rightarrow> cmd_listed (c_str l) cmd) \<and>
     (case tunable_cmds_denied T of None \<Rightarrow> True | Some l \<Rightarrow> \<not> cmd_listed (c_str l) cmd)"

definition after_command :: "tunables \<Rightarrow> os \<Rightarrow> vsf_session \<Rightarrow> vsf_session run" where
  "after_command T W s =
     and_then (if vsf_log_entry_pending s then vsf_log_do_log T W False s else Inr s) (\<lambda>s.
     if data_timeout s
     then vsf_cmdio_write_exit T W FTP_DATA_TIMEOUT ''Data timeout. Reconnect. Sorry.'' 1 s
     else Inr s)"

definition one_command :: "tunables \<Rightarrow> os \<Rightarrow> input \<Rightarrow> vsf_session \<Rightarrow> vsf_session run" where
  "one_command T W inp s =
     and_then (vsf_cmdio_get_cmd_and_arg T W inp s) (\<lambda>((cmd, arg), s).
     let s = s\<lparr>ftp_cmd_str := cmd, ftp_arg_str := arg\<rparr> in
     and_then (if cmd_ok T cmd then dispatch T W cmd s
               else vsf_cmdio_write T W FTP_NOPERM ''Permission denied.'' s) (\<lambda>s.
     after_command T W s))"

fun command_loop :: "tunables \<Rightarrow> os \<Rightarrow> input list \<Rightarrow> vsf_session \<Rightarrow> vsf_session run" where
  "command_loop T W [] s = Inr s"
| "command_loop T W (inp # inps) s = and_then (one_command T W inp s) (command_loop T W inps)"

subsection \<open>HTTP\<close>

text \<open>The headers, up to an empty line; whether it has come.\<close>

fun eat_headers :: "tunables \<Rightarrow> os \<Rightarrow> input list \<Rightarrow> vsf_session \<Rightarrow> (bool \<times> vsf_session) run" where
  "eat_headers T W [] s = Inr (False, s)"
| "eat_headers T W (inp # inps) s =
     and_then (vsf_cmdio_get_cmd_and_arg T W inp s) (\<lambda>((cmd, arg), s).
     let s = s\<lparr>ftp_cmd_str := cmd, ftp_arg_str := arg\<rparr> in
     if cmd = [] \<and> arg = [] then Inr (True, s) else eat_headers T W inps s)"

definition http_header_lines :: "string list" where
  "http_header_lines =
     [''HTTP/1.1 200 OK'' @ crlf, ''Server: vsftpd'' @ crlf, ''Connection: close'' @ crlf,
      ''X-Frame-Options: SAMEORIGIN'' @ crlf, ''X-Content-Type-Options: nosniff'' @ crlf]"

definition handle_http :: "tunables \<Rightarrow> os \<Rightarrow> input list \<Rightarrow> vsf_session \<Rightarrow> vsf_session run" where
  "handle_http T W inputs s =
     (if \<not> tunable_download_enable T then bug ''HTTP needs download - fix your config'' s
      else and_then (eat_headers T W inputs s) (\<lambda>(complete, s).
        if \<not> complete then Inr s
        else and_then (write_raws T W http_header_lines s) (\<lambda>s.
          let path = fst (s_split_char (CHR '' '') (http_get_arg s));
              (base, ext) = s_split_char (CHR ''.'') path;
              ext = s_upper ext;
              s = s\<lparr>ftp_arg_str := path, http_get_arg := base, ftp_cmd_str := ext\<rparr>
          in and_then (vsf_cmdio_write_raw T W
                (if ext = ''HTML'' \<or> ext = ''HTM'' then ''Content-Type: text/html'' @ crlf
                 else ''Content-Type: dunno'' @ crlf) s) (\<lambda>s.
             and_then (vsf_cmdio_write_raw T W crlf s) (\<lambda>s.
             and_then (handle_retr T W True (s\<lparr>is_ascii := False, restart_pos := 0\<rparr>)) (\<lambda>s.
             and_then (if vsf_log_entry_pending s then vsf_log_do_log T W False s else Inr s) (\<lambda>s.
             vsf_sysutil_exit 0 s)))))))"

subsection \<open>After login\<close>

definition start_session :: "tunables \<Rightarrow> os \<Rightarrow> vsf_session \<Rightarrow> vsf_session" where
  "start_session T W s =
     (let (home, s) = str_getcwd W s; s = s\<lparr>home_str := home\<rparr> in
      if is_anonymous s
      then (vsf_sysutil_set_umask W (tunable_anon_umask T) s)\<lparr>bw_rate_max := tunable_anon_max_rate T\<rparr>
      else (vsf_sysutil_set_umask W (tunable_local_umask T) s)\<lparr>bw_rate_max := tunable_local_max_rate T\<rparr>)"

definition process_post_login :: "tunables \<Rightarrow> os \<Rightarrow> input list \<Rightarrow> vsf_session \<Rightarrow> vsf_session run" where
  "process_post_login T W inputs s =
     (let s = start_session T W s in
      if is_http s then handle_http T W inputs s
      else
        and_then (vsf_banner_dir_changed T W FTP_LOGINOK s) (\<lambda>s.
        and_then (vsf_cmdio_write T W FTP_LOGINOK ''Login successful.'' s) (\<lambda>s.
        command_loop T W inputs s)))"

end
