(* ===== verification/Vsf_Serving.thy ===== *)
theory Vsf_Serving
  imports Post_Loop
begin

text \<open>
  The invariant of a session after login, and the rules for the operations the handlers share: each
  keeps the invariant and the policy of \<open>Vsf_Policy\<close>, and fails only as the policy allows.
\<close>

subsection \<open>The invariant\<close>

text \<open>Everything but the history and the data connection.\<close>

definition regular :: "tunables \<Rightarrow> bool \<Rightarrow> sockaddr \<Rightarrow> vsf_session \<Rightarrow> bool" where
  "regular T an ra s \<longleftrightarrow>
     is_anonymous s = an \<and> p_remote_addr s = ra \<and> ra \<noteq> Sa_Other \<and>
     (\<exists>a p. p_local_addr s = Sa_In a p) \<and>
     c_str (remote_ip_str s) \<noteq> [] \<and> c_str (user_str s) \<noteq> [] \<and>
     0 \<le> restart_pos s \<and> NUL \<notin> set (home_str s) \<and>
     (rnfr_filename_str s = [] \<or> access_ok T (rnfr_filename_str s) \<and> NUL \<notin> set (rnfr_filename_str s)) \<and>
     (log_type s = 0 \<or> log_action (log_type s) \<noteq> None) \<and>
     (p_port_sockaddr s = None \<or> listen_fd (proc_of T) s = -1) \<and>
     (tunable_one_process_model T \<or> pasv_listen_fd s = -1) \<and>
     (\<forall>a. p_port_sockaddr s = Some a \<longrightarrow>
        a \<noteq> Sa_Other \<and> (tunable_port_promiscuous T \<or> vsf_sysutil_sockaddr_addr_equal ra a))"

text \<open>Between two commands, and inside a command.\<close>

abbreviation serving :: "tunables \<Rightarrow> bool \<Rightarrow> sockaddr \<Rightarrow> vsf_session \<Rightarrow> bool" where
  "serving T an ra s \<equiv> ok_trace T an ra s \<and> regular T an ra s \<and> data_fd s = -1"

definition command_text :: "vsf_session \<Rightarrow> bool" where
  "command_text s \<longleftrightarrow> NUL \<notin> set (ftp_arg_str s)"

lemma listen_fd_upd [simp]:
  "listen_fd who (s\<lparr>data_timeout := a\<rparr>) = listen_fd who s"
  "listen_fd who (s\<lparr>p_port_sockaddr := b\<rparr>) = listen_fd who s"
  "listen_fd who (s\<lparr>data_fd := c\<rparr>) = listen_fd who s"
  "listen_fd who (s\<lparr>data_progress := a\<rparr>) = listen_fd who s"
  "listen_fd who (s\<lparr>bw_rate_max := n\<rparr>) = listen_fd who s"
  "listen_fd who (s\<lparr>umask := w\<rparr>) = listen_fd who s"
  "listen_fd who (s\<lparr>log_type := n\<rparr>) = listen_fd who s"
  "listen_fd who (s\<lparr>log_start_sec := c\<rparr>) = listen_fd who s"
  "listen_fd who (s\<lparr>log_start_usec := c\<rparr>) = listen_fd who s"
  "listen_fd who (s\<lparr>log_str := t\<rparr>) = listen_fd who s"
  "listen_fd who (s\<lparr>transfer_size := c\<rparr>) = listen_fd who s"
  "listen_fd who (s\<lparr>is_ascii := a\<rparr>) = listen_fd who s"
  "listen_fd who (s\<lparr>restart_pos := c\<rparr>) = listen_fd who s"
  "listen_fd who (s\<lparr>rnfr_filename_str := t\<rparr>) = listen_fd who s"
  "listen_fd who (s\<lparr>abor_received := a\<rparr>) = listen_fd who s"
  "listen_fd who (s\<lparr>epsv_all := a\<rparr>) = listen_fd who s"
  "listen_fd who (s\<lparr>http_get_arg := t\<rparr>) = listen_fd who s"
  "listen_fd who (s\<lparr>p_visited_dir_list := ts\<rparr>) = listen_fd who s"
  "listen_fd who (s\<lparr>ftp_cmd_str := t\<rparr>) = listen_fd who s"
  "listen_fd who (s\<lparr>ftp_arg_str := t\<rparr>) = listen_fd who s"
  "listen_fd who (s\<lparr>home_str := t\<rparr>) = listen_fd who s"
  "listen_fd who (s\<lparr>tpms_decoder := d\<rparr>) = listen_fd who s"
  by (cases who; simp add: listen_fd_def)+

lemma regular_upd [simp]:
  "regular T an ra (s\<lparr>trace := tr\<rparr>) = regular T an ra s"
  "regular T an ra (s\<lparr>data_timeout := a\<rparr>) = regular T an ra s"
  "regular T an ra (s\<lparr>data_fd := c\<rparr>) = regular T an ra s"
  "regular T an ra (s\<lparr>data_progress := a\<rparr>) = regular T an ra s"
  "regular T an ra (s\<lparr>bw_rate_max := n\<rparr>) = regular T an ra s"
  "regular T an ra (s\<lparr>umask := w\<rparr>) = regular T an ra s"
  "regular T an ra (s\<lparr>log_start_sec := c\<rparr>) = regular T an ra s"
  "regular T an ra (s\<lparr>log_start_usec := c\<rparr>) = regular T an ra s"
  "regular T an ra (s\<lparr>log_str := t\<rparr>) = regular T an ra s"
  "regular T an ra (s\<lparr>transfer_size := c\<rparr>) = regular T an ra s"
  "regular T an ra (s\<lparr>is_ascii := a\<rparr>) = regular T an ra s"
  "regular T an ra (s\<lparr>abor_received := a\<rparr>) = regular T an ra s"
  "regular T an ra (s\<lparr>epsv_all := a\<rparr>) = regular T an ra s"
  "regular T an ra (s\<lparr>http_get_arg := t\<rparr>) = regular T an ra s"
  "regular T an ra (s\<lparr>p_visited_dir_list := ts\<rparr>) = regular T an ra s"
  "regular T an ra (s\<lparr>ftp_cmd_str := t\<rparr>) = regular T an ra s"
  "regular T an ra (s\<lparr>ftp_arg_str := t\<rparr>) = regular T an ra s"
  "regular T an ra (s\<lparr>tpms_decoder := d\<rparr>) = regular T an ra s"
  by (simp_all add: regular_def)

lemma regular_set:
  "regular T an ra s \<Longrightarrow> 0 \<le> c \<Longrightarrow> regular T an ra (s\<lparr>restart_pos := c\<rparr>)"
  "regular T an ra s \<Longrightarrow> n = 0 \<or> log_action n \<noteq> None \<Longrightarrow> regular T an ra (s\<lparr>log_type := n\<rparr>)"
  "regular T an ra s \<Longrightarrow> t = [] \<or> access_ok T t \<and> NUL \<notin> set t \<Longrightarrow>
    regular T an ra (s\<lparr>rnfr_filename_str := t\<rparr>)"
  "regular T an ra s \<Longrightarrow> regular T an ra (s\<lparr>p_port_sockaddr := None\<rparr>)"
  "regular T an ra s \<Longrightarrow> listen_fd (proc_of T) s = -1 \<Longrightarrow> a \<noteq> Sa_Other \<Longrightarrow>
    tunable_port_promiscuous T \<or> vsf_sysutil_sockaddr_addr_equal ra a \<Longrightarrow>
    regular T an ra (s\<lparr>p_port_sockaddr := Some a\<rparr>)"
  "regular T an ra s \<Longrightarrow> NUL \<notin> set t \<Longrightarrow> regular T an ra (s\<lparr>home_str := t\<rparr>)"
  by (auto simp: regular_def)

lemma regular_listen:
  assumes "regular T an ra s" "p_port_sockaddr s = None \<or> fd = -1"
  shows "regular T an ra (set_listen_fd (proc_of T) fd s)"
  using assms by (auto simp: regular_def set_listen_fd_def listen_fd_def proc_of_def)

lemma set_listen_fd_fields [simp]:
  "data_fd (set_listen_fd who fd s) = data_fd s"
  "p_port_sockaddr (set_listen_fd who fd s) = p_port_sockaddr s"
  "log_type (set_listen_fd who fd s) = log_type s"
  "ftp_arg_str (set_listen_fd who fd s) = ftp_arg_str s"
  "restart_pos (set_listen_fd who fd s) = restart_pos s"
  by (cases who; simp add: set_listen_fd_def)+

text \<open>What the invariant says of the members the rules ask for.\<close>

lemma regularD:
  assumes "regular T an ra s"
  shows "is_anonymous s = an" "p_remote_addr s = ra" "ra \<noteq> Sa_Other" "p_local_addr s \<noteq> Sa_Other"
    "\<not> vsf_sysutil_sockaddr_is_ipv6 (p_local_addr s)" "0 \<le> restart_pos s"
    "log_type s \<noteq> 0 \<Longrightarrow> log_action (log_type s) \<noteq> None"
    "p_port_sockaddr s \<noteq> None \<Longrightarrow> listen_fd (proc_of T) s = -1"
    "NUL \<notin> set (home_str s)" "c_str (remote_ip_str s) \<noteq> []" "c_str (user_str s) \<noteq> []"
  using assms by (auto simp: regular_def vsf_sysutil_sockaddr_is_ipv6_def)

subsection \<open>What an operation keeps\<close>

text \<open>
  An operation that leaves the log entry \<open>n\<close> open, touches no connection and changes neither the
  argument of the command nor the decoder.
\<close>

definition kept :: "tunables \<Rightarrow> bool \<Rightarrow> sockaddr \<Rightarrow> nat \<Rightarrow> vsf_session \<Rightarrow> vsf_session \<Rightarrow> bool" where
  "kept T an ra n s s' \<longleftrightarrow> ok_trace T an ra s' \<and> regular T an ra s' \<and> log_type s' = n \<and>
     data_fd s' = data_fd s \<and> p_port_sockaddr s' = p_port_sockaddr s \<and>
     listen_fd (proc_of T) s' = listen_fd (proc_of T) s \<and> ftp_arg_str s' = ftp_arg_str s \<and>
     tpms_decoder s' = tpms_decoder s"

abbreviation sound :: "tunables \<Rightarrow> bool \<Rightarrow> sockaddr \<Rightarrow> vsf_session \<Rightarrow> bool" where
  "sound T an ra s \<equiv> ok_trace T an ra s \<and> regular T an ra s"

lemma kept_trace:
  "sound T an ra s \<Longrightarrow> list_all (permitted T an ra) es \<Longrightarrow>
    kept T an ra (log_type s) s (s\<lparr>trace := es @ trace s\<rparr>)"
  by (simp add: kept_def)

lemma kept_refl: "sound T an ra s \<Longrightarrow> kept T an ra (log_type s) s s"
  by (simp add: kept_def)

lemma kept_trans: "kept T an ra n s s' \<Longrightarrow> kept T an ra m s' s'' \<Longrightarrow> kept T an ra m s s''"
  by (simp add: kept_def)

lemma kept_sound: "kept T an ra n s s' \<Longrightarrow> sound T an ra s'"
  by (simp add: kept_def)

lemma write_kept:
  assumes "sound T an ra s" "\<And>s'. kept T an ra (log_type s) s s' \<Longrightarrow> Q s'"
  shows "ends (vsf_cmdio_write T W status t s) (fails T an ra) Q"
    "ends (vsf_cmdio_write_hyphen T W status t s) (fails T an ra) Q"
    "ends (vsf_cmdio_write_str T W status t s) (fails T an ra) Q"
    "ends (vsf_cmdio_write_str_hyphen T W status t s) (fails T an ra) Q"
  using assms by (auto intro!: write_ends kept_trace)

lemma write_raws_kept:
  assumes "sound T an ra s" "\<forall>l \<in> set ls. c_str l \<noteq> []"
    "\<And>s'. kept T an ra (log_type s) s s' \<Longrightarrow> Q s'"
  shows "ends (write_raws T W ls s) (fails T an ra) Q"
  using assms by (auto intro!: write_raws_ends kept_trace)

lemma write_exit_kept: "sound T an ra s \<Longrightarrow> ends (vsf_cmdio_write_exit T W status t n s) (fails T an ra) Q"
  by (simp add: write_exit_ends)

lemma sys_kept:
  "sound T an ra s \<Longrightarrow> permitted T an ra (Sys c) \<Longrightarrow> sys W c s = (r, s') \<Longrightarrow>
    kept T an ra (log_type s) s s'"
  by (auto simp: sys_def kept_def)

lemma sys_stat_kept:
  "sound T an ra s \<Longrightarrow> permitted T an ra (Sys c) \<Longrightarrow> sys_stat W c s = (r, s') \<Longrightarrow>
    kept T an ra (log_type s) s s'"
  by (auto simp: sys_stat_def kept_def)

lemma sys_or_die_kept:
  assumes "sound T an ra s" "permitted T an ra (Sys c)" "m \<in> set env_dies"
    "\<And>s'. kept T an ra (log_type s) s s' \<Longrightarrow> Q s'"
  shows "ends (sys_or_die W m c s) (fails T an ra) Q"
  using assms by (auto intro!: sys_or_die_ends simp: kept_def)

lemma fstat_kept:
  assumes "sound T an ra s" "\<And>st s'. kept T an ra (log_type s) s s' \<Longrightarrow> Q (st, s')"
  shows "ends (vsf_sysutil_fstat W fd s) (fails T an ra) Q"
  using assms by (auto intro!: fstat_ends kept_trace)

lemma get_size_kept:
  assumes "sound T an ra s" "\<And>n. 0 \<le> n \<Longrightarrow> Q n"
  shows "ends (vsf_sysutil_statbuf_get_size st s) (fails T an ra) Q"
  using assms by (auto simp: vsf_sysutil_statbuf_get_size_def die_def)

lemma lseek_kept:
  assumes "sound T an ra s" "0 \<le> n" "\<And>s'. kept T an ra (log_type s) s s' \<Longrightarrow> Q s'"
  shows "ends (vsf_sysutil_lseek_to W fd n s) (fails T an ra) Q"
  using assms by (auto simp: vsf_sysutil_lseek_to_def intro!: sys_or_die_kept)

lemma do_log_kept:
  assumes "sound T an ra s" "log_type s \<noteq> 0" "\<And>s'. kept T an ra 0 s s' \<Longrightarrow> Q s'"
  shows "ends (vsf_log_do_log T W b s) (fails T an ra) Q"
  using assms by (auto intro!: do_log_ends simp: kept_def regular_set dest: regularD)

subsection \<open>File names\<close>

lemma access_check_value: "\<exists>b. vsf_access_check_file f p = Inr b"
proof (cases f)
  case (Some t)
  obtain r it where "vsf_filename_passes_filter p (c_str t) 0 = Inr (r, it)"
    using filter_ok [OF nul_c_str, of p t] unfolding loop_ok_NUL by blast
  with Some show ?thesis by (auto simp: vsf_access_check_file_def access_match_def)
qed (auto simp: vsf_access_check_file_def access_match_def)

lemma access_ok_c_str: "access_ok T p \<Longrightarrow> NUL \<notin> set p \<Longrightarrow> access_ok T (c_str p)"
  by (simp add: c_str_id)

lemma with_access_kept:
  assumes "sound T an ra s"
    and "access_ok T p \<Longrightarrow> ends (k s) (fails T an ra) Q"
    and "\<And>s'. kept T an ra (log_type s) s s' \<Longrightarrow> Q s'"
  shows "ends (with_access T W p k s) (fails T an ra) Q"
proof -
  obtain b where b: "vsf_access_check_file (tunable_deny_file T) p = Inr b"
    using access_check_value by blast
  have "ends (vsf_cmdio_write T W FTP_NOPERM ''Permission denied.'' s) (fails T an ra) Q"
    by (rule write_kept [OF assms(1)]) (rule assms(3))
  with b assms(2) show ?thesis
    by (cases b) (simp_all add: with_access_def lifted_def access_ok_def)
qed

lemma split_char_set: "set (fst (s_split_char c t)) \<union> set (snd (s_split_char c t)) \<subseteq> set t"
  by (auto simp: s_split_char_def s_split_text_def split_at_def split: option.splits
      dest: in_set_takeD in_set_dropD)

lemma sys_text_kept:
  "sound T an ra s \<Longrightarrow> permitted T an ra (Sys c) \<Longrightarrow> sys_text W c s = (r, s') \<Longrightarrow>
    kept T an ra (log_type s) s s'"
  by (auto simp: sys_text_def kept_def)

lemma getcwd_kept:
  assumes "sound T an ra s" "str_getcwd W s = (p', s')"
  shows "kept T an ra (log_type s) s s' \<and> NUL \<notin> set p'"
  using assms nul_c_str
  by (auto simp: str_getcwd_def split_beta sys_text_def kept_def split: option.splits)

lemma resolve_tilde_kept:
  assumes "sound T an ra s" "NUL \<notin> set p" "resolve_tilde T W p s = (p', s')"
  shows "kept T an ra (log_type s) s s' \<and> NUL \<notin> set p'"
proof -
  define rest where "rest = snd (s_split_char (CHR ''~'') p)"
  define user where "user = s_split_char (CHR ''/'') rest"
  have sub: "set rest \<subseteq> set p" "set (snd user) \<subseteq> set p"
    using split_char_set [of "CHR ''~''" p] split_char_set [of "CHR ''/''" rest]
    by (auto simp: user_def rest_def)
  have "NUL \<notin> set (home_str s)" using assms(1) regularD(9) by blast
  with sub assms nul_c_str kept_refl [OF assms(1)] show ?thesis
    by (auto simp: resolve_tilde_def rest_def [symmetric] user_def [symmetric] split_beta Let_def
        sys_text_def kept_def split: if_splits option.splits)
qed

lemma resolve_arg_kept:
  assumes "sound T an ra s" "command_text s"
  shows "sound T an ra (resolve_arg T W s) \<and> command_text (resolve_arg T W s) \<and>
    kept T an ra (log_type s) (s\<lparr>ftp_arg_str := ftp_arg_str (resolve_arg T W s)\<rparr>) (resolve_arg T W s)"
proof -
  obtain p' s' where r: "resolve_tilde T W (ftp_arg_str s) s = (p', s')" by (cases "resolve_tilde T W (ftp_arg_str s) s")
  from resolve_tilde_kept [OF assms(1) _ r] assms(2) show ?thesis
    by (auto simp: resolve_arg_def r kept_def command_text_def)
qed

lemma prepend_path_kept:
  assumes "sound T an ra s" "prepend_path_to_filename W p s = (p', s')"
  shows "kept T an ra (log_type s) s s'"
proof (cases "p = [] \<or> hd p \<noteq> CHR ''/''")
  case True
  obtain d s1 where "str_getcwd W s = (d, s1)" by (cases "str_getcwd W s")
  with True assms getcwd_kept [OF assms(1) this] show ?thesis
    by (auto simp: prepend_path_to_filename_def)
next
  case False
  with assms kept_refl [OF assms(1)] show ?thesis by (auto simp: prepend_path_to_filename_def)
qed

lemma start_entry_kept:
  assumes "sound T an ra s" "log_type s = 0" "log_action what \<noteq> None"
    and "\<And>s'. kept T an ra what s s' \<Longrightarrow> Q s'"
  shows "ends (start_entry W what p s) (fails T an ra) Q"
proof -
  have "ends (vsf_log_start_entry W what s) (\<lambda>f tr. False) (kept T an ra what s)"
    using assms(1-3)
    by (auto simp: vsf_log_start_entry_def Let_def split_beta kept_def intro!: regular_set)
  then obtain s1 where s1: "vsf_log_start_entry W what s = Inr s1" "kept T an ra what s s1"
    by (auto simp: ends_def split: sum.splits)
  obtain l s2 where l: "prepend_path_to_filename W p s1 = (l, s2)"
    by (cases "prepend_path_to_filename W p s1")
  from prepend_path_kept [OF kept_sound [OF s1(2)] l] s1 l have "kept T an ra what s (s2\<lparr>log_str := l\<rparr>)"
    by (auto simp: kept_def)
  with assms(4) s1 l show ?thesis by (simp add: start_entry_def)
qed

lemma dir_changed_kept:
  assumes "sound T an ra s" "\<And>s'. kept T an ra (log_type s) s s' \<Longrightarrow> Q s'"
  shows "ends (vsf_banner_dir_changed T W n s) (fails T an ra) Q"
proof (cases "tunable_dirmessage_enable T")
  case False
  with assms kept_refl [OF assms(1)] show ?thesis by (simp add: vsf_banner_dir_changed_def)
next
  case True
  obtain d s1 where s1: "str_getcwd W s = (d, s1)" by (cases "str_getcwd W s")
  from getcwd_kept [OF assms(1) s1] have k1: "kept T an ra (log_type s) s s1" by simp
  define s2 where "s2 = (if length (p_visited_dir_list s1) < VSFTP_MAX_VISIT_REMEMBER
    then s1\<lparr>p_visited_dir_list := p_visited_dir_list s1 @ [d]\<rparr> else s1)"
  have k2: "kept T an ra (log_type s) s s2" using k1 by (auto simp: s2_def kept_def)
  obtain msg s3 where s3: "(case tunable_message_file T of None \<Rightarrow> ([], s2)
      | Some f \<Rightarrow> str_fileread W f VSFTP_MAX_MSGFILE_SIZE s2) = (msg, s3)"
    by (metis surj_pair)
  then have k3: "kept T an ra (log_type s) s s3"
    using k2 by (auto simp: str_fileread_def sys_text_def kept_def split_beta split: option.splits)
  have "ends (vsf_banner_write T W msg n s3) (fails T an ra) Q"
    unfolding vsf_banner_write_def
    by (rule write_lines_ends) (use k3 assms(2) in \<open>auto simp: kept_def\<close>)
  with True assms(2) s1 k1 show ?thesis
    by (simp add: vsf_banner_dir_changed_def s2_def [symmetric] s3 Let_def)
qed

end
