(* ===== verification/Vsf_Connections.thy ===== *)
theory Vsf_Connections
  imports Vsf_Serving
begin

text \<open>
  The rules of \<open>Vsf_Serving\<close> for commands from the client, signals and data connections: at most one of
  a port and a passive listener is there, a data connection is closed before the next is opened, and
  what a signal does to the session leaves the rest of it alone.
\<close>

subsection \<open>Commands and signals\<close>

lemma control_getline_text: "NUL \<notin> set (control_getline raw)"
  by (auto simp: control_getline_def s_replace_char_def dest: set_dropWhileD)

lemma control_getline_length: "length (control_getline raw) \<le> length raw"
  using length_dropWhile_le [of "\<lambda>c. c = CHR 0x0D" "rev (s_replace_char NUL (CHR 0x0A) raw)"]
  by (simp add: control_getline_def s_replace_char_def)

lemma split_command_arg:
  assumes "split_command l = (cmd, arg)"
  shows "set arg \<subseteq> set l \<and> length arg \<le> length l"
proof -
  have "length (snd (s_split_char c l)) \<le> length l" for c
    by (auto simp: s_split_char_def s_split_text_def split_at_def split: option.split)
  moreover have "set (snd (s_split_char c l)) \<subseteq> set l" for c
    using split_char_set [of c l] by auto
  moreover have "arg = [] \<or> arg = snd (s_split_char (CHR '' '') l)"
    using assms by (auto simp: split_command_def split_beta split: if_splits)
  ultimately show ?thesis by auto
qed

lemma opt_log_line_kept:
  assumes "sound T an ra s" "what = kVSFLogEntryFTPInput \<or> what = kVSFLogEntryFTPOutput"
    "\<And>s'. kept T an ra (log_type s) s s' \<Longrightarrow> http_get_arg s' = http_get_arg s \<Longrightarrow> Q s'"
  shows "ends (if b then vsf_log_line T W what t s else Inr s) (fails T an ra) Q"
proof (rule opt_log_ends)
  show "log_action what \<noteq> None" using assms(2) FTPOutput_action by blast
  show "Q (s\<lparr>trace := es @ trace s\<rparr>)" if "list_all io_event es" for es
    by (rule assms(3), rule kept_trace [OF assms(1)]) (simp_all add: that)
qed

lemma get_cmd_kept:
  assumes "sound T an ra s"
    and Q: "\<And>cmd arg s'. kept T an ra (log_type s) s s' \<Longrightarrow> NUL \<notin> set arg \<Longrightarrow>
      length arg < VSFTP_MAX_COMMAND_LINE \<Longrightarrow> http_get_arg s' = http_get_arg s \<Longrightarrow> Q ((cmd, arg), s')"
  shows "ends (vsf_cmdio_get_cmd_and_arg T W inp s) (fails T an ra) Q"
proof (cases inp)
  case (Line raw)
  show ?thesis
  proof (cases "VSFTP_MAX_COMMAND_LINE \<le> length raw")
    case True
    with Line assms(1) show ?thesis
      by (simp add: vsf_cmdio_get_cmd_and_arg_def write_exit_kept)
  next
    case False
    obtain cmd arg where ca: "split_command (control_getline raw) = (cmd, arg)"
      by (cases "split_command (control_getline raw)")
    have arg: "NUL \<notin> set arg" "length arg < VSFTP_MAX_COMMAND_LINE"
      using split_command_arg [OF ca] control_getline_text [of raw] control_getline_length [of raw] False
      by auto
    from Q [OF _ this, of _ cmd] have
      "ends (if tunable_log_ftp_protocol T then vsf_log_line T W kVSFLogEntryFTPInput t s else Inr s)
        (fails T an ra) (\<lambda>s. Q ((cmd, arg), s))" for t
      by (intro opt_log_line_kept [OF assms(1)]) auto
    with Line False ca show ?thesis
      by (simp add: vsf_cmdio_get_cmd_and_arg_def ends_and_then del: not_le)
  qed
qed (use assms(1) in \<open>simp_all add: vsf_cmdio_get_cmd_and_arg_def write_exit_kept exit_ends\<close>)

lemma sigurg_kept:
  assumes "sound T an ra s" "\<And>s'. kept T an ra (log_type s) s s' \<Longrightarrow> Q s'"
  shows "ends (handle_sigurg T W inp s) (fails T an ra) Q"
proof (cases "data_fd s = -1")
  case True
  with assms kept_refl show ?thesis by (simp add: handle_sigurg_def)
next
  case False
  then show ?thesis
    using assms
    by (auto simp: handle_sigurg_def ends_simps Let_def kept_def intro!: get_cmd_kept write_kept)
qed

lemma signals_kept:
  assumes "sound T an ra s" "\<And>s'. kept T an ra (log_type s) s s' \<Longrightarrow> Q s'"
  shows "ends (handle_signals T W gs s) (fails T an ra) Q"
  using assms
proof (induction gs arbitrary: s)
  case Nil
  then show ?case using kept_refl by simp
next
  case (Cons g gs)
  have "ends (handle_signal T W g s) (fails T an ra) (\<lambda>s'. kept T an ra (log_type s) s s')"
  proof (cases g)
    case (SigUrg inp)
    with Cons.prems(1) kept_refl show ?thesis by (simp add: handle_signal_def sigurg_kept)
  next
    case SigAlrm
    with Cons.prems(1) show ?thesis by (simp add: handle_signal_def handle_sigalrm_def kept_def)
  qed
  then show ?case
    unfolding handle_signals.simps
  proof (rule ends_bindI)
    fix s1
    assume k: "kept T an ra (log_type s) s s1"
    show "ends (handle_signals T W gs s1) (fails T an ra) Q"
    proof (rule Cons.IH)
      fix s2
      assume "kept T an ra (log_type s1) s1 s2"
      with k show "Q s2" by (intro Cons.prems(2) kept_trans [OF k]) (simp add: kept_def)
    qed (use k in \<open>simp_all add: kept_def\<close>)
  qed
qed

lemma pending_signals_kept:
  assumes "sound T an ra s" "\<And>s'. kept T an ra (log_type s) s s' \<Longrightarrow> Q s'"
  shows "ends (pending_signals T W s) (fails T an ra) Q"
  unfolding pending_signals_def using assms by (rule signals_kept)

subsection \<open>At most one way to connect\<close>

abbreviation some_active :: "tunables \<Rightarrow> vsf_session \<Rightarrow> bool" where
  "some_active T s \<equiv> p_port_sockaddr s \<noteq> None \<or> listen_fd (proc_of T) s \<noteq> -1"

lemma pasv_listening:
  "(if tunable_one_process_model T then Inr (vsf_one_process_pasv_active s, s)
    else vsf_two_process_pasv_active T W s) = Inr (listen_fd (proc_of T) s \<noteq> -1, s)"
  by (simp add: vsf_one_process_pasv_active_def two_process_pasv_active_eq vsf_privop_pasv_active_def
      proc_of_def)

lemma active_eq:
  assumes "p_port_sockaddr s = None \<or> listen_fd (proc_of T) s = -1"
  shows "pasv_active T W ACTIVE_DEPTH s = Inr (listen_fd (proc_of T) s \<noteq> -1, s)"
    "port_active T W ACTIVE_DEPTH s = Inr (p_port_sockaddr s \<noteq> None, s)"
    "neither_active T W s = Inr (\<not> some_active T s, s)"
proof -
  show p: "pasv_active T W ACTIVE_DEPTH s = Inr (listen_fd (proc_of T) s \<noteq> -1, s)"
    and q: "port_active T W ACTIVE_DEPTH s = Inr (p_port_sockaddr s \<noteq> None, s)"
    using assms by (auto simp: ACTIVE_DEPTH_def numeral_2_eq_2 pasv_listening)
  show "neither_active T W s = Inr (\<not> some_active T s, s)"
    by (simp add: neither_active_def p q)
qed

text \<open>With both, the two functions call each other for ever, and the checks in them are not reached.\<close>

lemma both_active_diverges:
  assumes "p_port_sockaddr s \<noteq> None" "listen_fd (proc_of T) s \<noteq> -1"
  shows "port_active T W n s = Inl (Diverges, trace s) \<and> pasv_active T W n s = Inl (Diverges, trace s)"
  using assms by (induction n) (auto simp: pasv_listening)

lemma regular_active:
  assumes "regular T an ra s"
  shows "pasv_active T W ACTIVE_DEPTH s = Inr (listen_fd (proc_of T) s \<noteq> -1, s)"
    "neither_active T W s = Inr (\<not> some_active T s, s)"
proof -
  have one: "p_port_sockaddr s = None \<or> listen_fd (proc_of T) s = -1"
    using assms by (simp add: regular_def)
  show "pasv_active T W ACTIVE_DEPTH s = Inr (listen_fd (proc_of T) s \<noteq> -1, s)"
    "neither_active T W s = Inr (\<not> some_active T s, s)"
    by (rule active_eq [OF one])+
qed

lemma pasv_cleanup_kept:
  assumes "sound T an ra s"
    "\<And>s'. kept T an ra (log_type s) (set_listen_fd (proc_of T) (-1) s) s' \<Longrightarrow> Q s'"
  shows "ends (pasv_cleanup T W s) (fails T an ra) Q"
proof -
  have "pasv_cleanup T W s = vsf_privop_pasv_cleanup W (proc_of T) s"
    by (simp add: pasv_cleanup_def vsf_one_process_pasv_cleanup_def two_process_pasv_cleanup_eq proc_of_def)
  moreover have "ends (vsf_privop_pasv_cleanup W (proc_of T) s) (fails T an ra) Q"
  proof (rule privop_pasv_cleanup_ends)
    show "Q (set_listen_fd (proc_of T) (-1) (s\<lparr>trace := es @ trace s\<rparr>))"
      if "list_all (permitted T an ra) es" for es
      by (rule assms(2)) (use that assms(1) in \<open>auto simp: kept_def intro!: regular_listen\<close>)
  qed (use assms(1) in simp)
  ultimately show ?thesis by simp
qed

text \<open>Neither a port nor a listener is left.\<close>

abbreviation cleaned :: "tunables \<Rightarrow> vsf_session \<Rightarrow> vsf_session" where
  "cleaned T s \<equiv> set_listen_fd (proc_of T) (-1) (s\<lparr>p_port_sockaddr := None\<rparr>)"

lemma port_pasv_cleanup_kept:
  assumes "sound T an ra s" "\<And>s'. kept T an ra (log_type s) (cleaned T s) s' \<Longrightarrow> Q s'"
  shows "ends (port_pasv_cleanup T W s) (fails T an ra) Q"
  unfolding port_pasv_cleanup_def port_cleanup_def
  by (rule pasv_cleanup_kept) (use assms in \<open>auto intro: regular_set\<close>)

lemma checks_ok_kept:
  assumes "sound T an ra s"
    "\<And>b s'. kept T an ra (log_type s) s s' \<Longrightarrow> b \<Longrightarrow> some_active T s' \<Longrightarrow> Q (True, s')"
    "\<And>s'. kept T an ra (log_type s) s s' \<Longrightarrow> Q (False, s')"
  shows "ends (data_transfer_checks_ok T W s) (fails T an ra) Q"
  using assms kept_refl [OF assms(1)]
  by (auto simp: data_transfer_checks_ok_def regular_active [of T an ra] ends_simps intro!: write_kept)

subsection \<open>Opening and closing\<close>

text \<open>The result of opening: no connection, or the descriptor of one.\<close>

definition opened_fd :: "tunables \<Rightarrow> bool \<Rightarrow> sockaddr \<Rightarrow> vsf_session \<Rightarrow> int \<times> vsf_session \<Rightarrow> bool" where
  "opened_fd T an ra s r \<longleftrightarrow>
     (case r of (fd, s') \<Rightarrow>
        fd < 0 \<and> kept T an ra (log_type s) s s' \<or> 0 \<le> fd \<and> kept T an ra (log_type s) (s\<lparr>data_fd := fd\<rparr>) s')"

lemma init_data_sock_kept:
  assumes "sound T an ra s" "data_fd s = -1" "0 \<le> fd"
  shows "ends (and_then (init_data_sock_params fd s) (\<lambda>s. Inr (fd, s))) (fails T an ra) (opened_fd T an ra s)"
  using assms by (simp add: init_data_sock_params_def opened_fd_def kept_def)

lemma no_connection_kept:
  assumes "sound T an ra s" "fd < 0"
  shows "ends (and_then (vsf_cmdio_write T W status t s) (\<lambda>s. Inr (fd, s))) (fails T an ra) (opened_fd T an ra s)"
  unfolding ends_and_then by (rule write_kept) (use assms in \<open>simp_all add: opened_fd_def\<close>)

lemma opened_fd_from:
  "kept T an ra (log_type s) s s1 \<Longrightarrow> opened_fd T an ra s1 r \<Longrightarrow> opened_fd T an ra s r"
  by (auto simp: opened_fd_def kept_def)

lemma get_pasv_fd_kept:
  assumes "sound T an ra s" "data_fd s = -1" "listen_fd (proc_of T) s \<noteq> -1"
  shows "ends (vsf_ftpdataio_get_pasv_fd T W s) (fails T an ra) (opened_fd T an ra s)"
  unfolding vsf_ftpdataio_get_pasv_fd_def
proof (rule ends_bindI)
  define P where "P = (\<lambda>(fd, s'). (fd = -2 \<or> fd = -1 \<or> (0::int) \<le> fd) \<and> kept T an ra (log_type s) s s')"
  have P: "P (fd, s\<lparr>trace := es @ trace s\<rparr>)"
    if "list_all (permitted T an ra) es" "fd = -2 \<or> fd = -1 \<or> 0 \<le> fd" for es fd
    using kept_trace [OF assms(1) that(1)] that(2) by (simp add: P_def)
  show "ends (if tunable_one_process_model T then vsf_one_process_get_pasv_fd T W s
      else vsf_two_process_get_pasv_fd T W s) (fails T an ra) P"
    using assms P
    by (auto simp: vsf_one_process_get_pasv_fd_def proc_of_def
        intro!: privop_accept_ends two_process_pasv_fd_ends)
  fix r
  assume "P r"
  then obtain fd s1 where r: "r = (fd, s1)" "fd = -2 \<or> fd = -1 \<or> 0 \<le> fd" "kept T an ra (log_type s) s s1"
    by (cases r) (auto simp: P_def)
  then have s1: "sound T an ra s1" "data_fd s1 = -1" using assms(2) by (simp_all add: kept_def)
  have "ends (case r of (remote_fd, s) \<Rightarrow>
     if remote_fd = -1 then
       and_then (vsf_cmdio_write T W FTP_BADSENDCONN ''Failed to establish connection.'' s) (\<lambda>s.
       Inr (remote_fd, s))
     else if remote_fd = -2 then
       and_then (vsf_cmdio_write T W FTP_BADSENDCONN ''Security: Bad IP connecting.'' s) (\<lambda>s.
       Inr (-1, s))
     else and_then (init_data_sock_params remote_fd s) (\<lambda>s. Inr (remote_fd, s)))
     (fails T an ra) (opened_fd T an ra s1)"
    using no_connection_kept [OF s1(1)] init_data_sock_kept [OF s1] r(2) by (auto simp: r(1))
  then show "ends (case r of (remote_fd, s) \<Rightarrow>
     if remote_fd = -1 then
       and_then (vsf_cmdio_write T W FTP_BADSENDCONN ''Failed to establish connection.'' s) (\<lambda>s.
       Inr (remote_fd, s))
     else if remote_fd = -2 then
       and_then (vsf_cmdio_write T W FTP_BADSENDCONN ''Security: Bad IP connecting.'' s) (\<lambda>s.
       Inr (-1, s))
     else and_then (init_data_sock_params remote_fd s) (\<lambda>s. Inr (remote_fd, s)))
     (fails T an ra) (opened_fd T an ra s)"
    by (rule ends_conseq) (use opened_fd_from [OF r(3)] in auto)
qed

lemma get_port_fd_kept:
  assumes "sound T an ra s" "data_fd s = -1" "p_port_sockaddr s \<noteq> None"
  shows "ends (vsf_ftpdataio_get_port_fd T W s) (fails T an ra) (opened_fd T an ra s)"
  unfolding vsf_ftpdataio_get_port_fd_def
proof (rule ends_bindI)
  define P where "P = (\<lambda>(fd, s'). (fd = -1 \<or> (0::int) \<le> fd) \<and> kept T an ra (log_type s) s s')"
  have P: "P (fd, s\<lparr>trace := es @ trace s\<rparr>)"
    if "list_all (permitted T an ra) es" "fd = -1 \<or> 0 \<le> fd" for es fd
    using kept_trace [OF assms(1) that(1)] that(2) by (simp add: P_def)
  obtain a where a: "p_port_sockaddr s = Some a" using assms(3) by blast
  from assms(1) a have reg: "a \<noteq> Sa_Other" "tunable_port_promiscuous T \<or> vsf_sysutil_sockaddr_addr_equal ra a"
    "listen_fd (proc_of T) s = -1" "pasv_listen_fd s = -1" "p_local_addr s \<noteq> Sa_Other"
    "p_remote_addr s = ra" "ra \<noteq> Sa_Other"
    by (auto simp: regular_def proc_of_def listen_fd_def split: if_splits)
  have "ends (vsf_one_process_get_priv_data_sock T W s) (fails T an ra) P"
    by (rule one_process_data_sock_ends) (use assms(1) a reg P in auto)
  moreover have "ends (vsf_two_process_get_priv_data_sock T W s) (fails T an ra) P"
    if "\<not> tunable_one_process_model T"
    by (rule two_process_data_sock_ends) (use that assms(1) a reg P in \<open>auto simp: proc_of_def\<close>)
  ultimately show "ends (if tunable_one_process_model T \<or> tunable_port_promiscuous T
      then vsf_one_process_get_priv_data_sock T W s else vsf_two_process_get_priv_data_sock T W s)
      (fails T an ra) P"
    by simp
  fix r
  assume "P r"
  then obtain fd s1 where r: "r = (fd, s1)" "fd = -1 \<or> 0 \<le> fd" "kept T an ra (log_type s) s s1"
    by (cases r) (auto simp: P_def)
  then have s1: "sound T an ra s1" "data_fd s1 = -1" using assms(2) by (simp_all add: kept_def)
  have "ends (case r of (remote_fd, s) \<Rightarrow>
     if remote_fd < 0 then
       and_then (vsf_cmdio_write T W FTP_BADSENDCONN ''Failed to establish connection.'' s) (\<lambda>s.
       Inr (-1, s))
     else and_then (init_data_sock_params remote_fd s) (\<lambda>s. Inr (remote_fd, s)))
     (fails T an ra) (opened_fd T an ra s1)"
    using no_connection_kept [OF s1(1)] init_data_sock_kept [OF s1] r(2) by (auto simp: r(1))
  then show "ends (case r of (remote_fd, s) \<Rightarrow>
     if remote_fd < 0 then
       and_then (vsf_cmdio_write T W FTP_BADSENDCONN ''Failed to establish connection.'' s) (\<lambda>s.
       Inr (-1, s))
     else and_then (init_data_sock_params remote_fd s) (\<lambda>s. Inr (remote_fd, s)))
     (fails T an ra) (opened_fd T an ra s)"
    by (rule ends_conseq) (use opened_fd_from [OF r(3)] in auto)
qed

lemma dispose_kept:
  assumes "sound T an ra s" "data_fd s \<noteq> -1"
    and Q: "\<And>r s'. kept T an ra (log_type s) (s\<lparr>data_fd := -1\<rparr>) s' \<Longrightarrow> Q (r, s')"
  shows "ends (vsf_ftpdataio_dispose_transfer_fd T W s) (fails T an ra) Q"
proof -
  obtain r s1 where s1: "sys W (CloseFailok (data_fd s)) s = (r, s1)"
    by (cases "sys W (CloseFailok (data_fd s)) s")
  have k1: "kept T an ra (log_type s) s s1" by (rule sys_kept [OF assms(1) _ s1]) simp
  define close where "close s = (if r < 0 then snd (sys W (CloseFailok (data_fd s)) s) else s)\<lparr>data_fd := -1\<rparr>" for s :: vsf_session
  have "ends (pending_signals T W s1) (fails T an ra)
      (\<lambda>s. Q (if abor_received (close s) \<or> data_timeout (close s) then 0 else 1, close s))"
  proof (rule pending_signals_kept)
    fix s2
    assume "kept T an ra (log_type s1) s1 s2"
    with k1 have "kept T an ra (log_type s) (s\<lparr>data_fd := -1\<rparr>) (close s2)"
      by (auto simp: kept_def close_def sys_def)
    then show "Q (if abor_received (close s2) \<or> data_timeout (close s2) then 0 else 1, close s2)" by (rule Q)
  qed (use k1 in \<open>auto simp: kept_def\<close>)
  with assms(2) s1 show ?thesis
    by (simp add: vsf_ftpdataio_dispose_transfer_fd_def Let_def close_def ends_and_then)
qed

lemma post_mark_kept:
  assumes "sound T an ra s" "Q (1, s)" "\<And>r s'. kept T an ra (log_type s) s s' \<Longrightarrow> r \<noteq> 1 \<Longrightarrow> Q (r, s')"
  shows "ends (vsf_ftpdataio_post_mark_connect T W s) (fails T an ra) Q"
  using assms
  by (auto simp: vsf_ftpdataio_post_mark_connect_def ends_and_then intro!: write_kept write_exit_kept)

lemma mark_transfer_kept:
  assumes "sound T an ra s" "data_fd s = fd" "0 \<le> fd"
    and Q: "\<And>s'. kept T an ra (log_type s) (s\<lparr>data_fd := -1\<rparr>) s' \<Longrightarrow> Q (-1, s')"
      "\<And>s'. kept T an ra (log_type s) s s' \<Longrightarrow> Q (fd, s')"
  shows "ends (mark_transfer T W t fd s) (fails T an ra) Q"
  unfolding mark_transfer_def ends_and_then
proof (rule write_kept [OF assms(1)])
  fix s1
  assume k1: "kept T an ra (log_type s) s s1"
  then have s1: "sound T an ra s1" "data_fd s1 = fd" using assms(2) by (simp_all add: kept_def)
  show "ends (vsf_ftpdataio_post_mark_connect T W s1) (fails T an ra)
     (\<lambda>x. ends (case x of (r, s) \<Rightarrow>
       if r \<noteq> 1 then and_then (vsf_ftpdataio_dispose_transfer_fd T W s) (\<lambda>(_, s). Inr (-1, s))
       else and_then (pending_signals T W s) (\<lambda>s. Inr (fd, s))) (fails T an ra) Q)"
  proof (rule post_mark_kept [OF s1(1)])
    have "ends (pending_signals T W s1) (fails T an ra) (\<lambda>s. Q (fd, s))"
      by (rule pending_signals_kept [OF s1(1)]) (use k1 Q(2) in \<open>auto simp: kept_def\<close>)
    then show "ends (case (1, s1) of (r, s) \<Rightarrow>
       if r \<noteq> 1 then and_then (vsf_ftpdataio_dispose_transfer_fd T W s) (\<lambda>(_, s). Inr (-1, s))
       else and_then (pending_signals T W s) (\<lambda>s. Inr (fd, s))) (fails T an ra) Q"
      by (simp add: ends_and_then)
    fix r s2
    assume k2: "kept T an ra (log_type s1) s1 s2" and r: "r \<noteq> (1::int)"
    have "ends (vsf_ftpdataio_dispose_transfer_fd T W s2) (fails T an ra) (\<lambda>x. Q (-1, snd x))"
      by (rule dispose_kept) (use k1 k2 s1 assms(3) Q(1) in \<open>auto simp: kept_def\<close>)
    with r show "ends (case (r, s2) of (r, s) \<Rightarrow>
       if r \<noteq> 1 then and_then (vsf_ftpdataio_dispose_transfer_fd T W s) (\<lambda>(_, s). Inr (-1, s))
       else and_then (pending_signals T W s) (\<lambda>s. Inr (fd, s))) (fails T an ra) Q"
      by (simp add: ends_and_then split_beta)
  qed
qed

lemma remote_transfer_fd_kept:
  assumes "sound T an ra s" "data_fd s = -1" "some_active T s"
    and Q: "\<And>fd s'. fd < 0 \<Longrightarrow> kept T an ra (log_type s) s s' \<Longrightarrow> Q (fd, s')"
      "\<And>fd s'. 0 \<le> fd \<Longrightarrow> kept T an ra (log_type s) (s\<lparr>data_fd := fd\<rparr>) s' \<Longrightarrow> Q (fd, s')"
  shows "ends (get_remote_transfer_fd T W t s) (fails T an ra) Q"
proof -
  define s0 where "s0 = s\<lparr>abor_received := False\<rparr>"
  have s0: "sound T an ra s0" "data_fd s0 = -1" using assms(1,2) by (simp_all add: s0_def)
  have "ends (if listen_fd (proc_of T) s0 \<noteq> -1 then vsf_ftpdataio_get_pasv_fd T W s0
      else vsf_ftpdataio_get_port_fd T W s0) (fails T an ra) (opened_fd T an ra s0)"
    using get_pasv_fd_kept [OF s0] get_port_fd_kept [OF s0] assms(3) by (auto simp: s0_def)
  then have "ends (if listen_fd (proc_of T) s0 \<noteq> -1 then vsf_ftpdataio_get_pasv_fd T W s0
      else vsf_ftpdataio_get_port_fd T W s0) (fails T an ra)
      (\<lambda>(fd, s). ends (if fd < 0 then Inr (fd, s) else mark_transfer T W t fd s) (fails T an ra) Q)"
  proof (rule ends_conseq)
    fix r
    assume o: "opened_fd T an ra s0 r"
    obtain fd s1 where r: "r = (fd, s1)" by (cases r)
    show "case r of (fd, s) \<Rightarrow> ends (if fd < 0 then Inr (fd, s) else mark_transfer T W t fd s) (fails T an ra) Q"
    proof (cases "fd < 0")
      case True
      with o r have "kept T an ra (log_type s) s s1" by (auto simp: opened_fd_def kept_def s0_def)
      from Q(1) [OF True this] True r show ?thesis by simp
    next
      case False
      with o r have k: "kept T an ra (log_type s) (s\<lparr>data_fd := fd\<rparr>) s1"
        by (auto simp: opened_fd_def kept_def s0_def)
      have "ends (mark_transfer T W t fd s1) (fails T an ra) Q"
      proof (rule mark_transfer_kept)
        show "Q (-1, s')" if "kept T an ra (log_type s1) (s1\<lparr>data_fd := -1\<rparr>) s'" for s'
          by (rule Q(1)) (use that k assms(2) in \<open>auto simp: kept_def\<close>)
        show "Q (fd, s')" if "kept T an ra (log_type s1) s1 s'" for s'
          by (rule Q(2)) (use that k False in \<open>auto simp: kept_def\<close>)
      qed (use k False in \<open>auto simp: kept_def\<close>)
      with False r show ?thesis by simp
    qed
  qed
  moreover have "get_remote_transfer_fd T W t s =
      and_then (if listen_fd (proc_of T) s0 \<noteq> -1 then vsf_ftpdataio_get_pasv_fd T W s0
        else vsf_ftpdataio_get_port_fd T W s0) (\<lambda>(fd, s).
      if fd < 0 then Inr (fd, s) else mark_transfer T W t fd s)"
  proof -
    have "neither_active T W s = Inr (False, s)"
      using regular_active(2) [of T an ra s] assms(1,3) by simp
    moreover have "pasv_active T W ACTIVE_DEPTH s0 = Inr (listen_fd (proc_of T) s0 \<noteq> -1, s0)"
      using regular_active(1) [of T an ra s0] s0(1) by simp
    ultimately show ?thesis
      by (simp add: get_remote_transfer_fd_def s0_def [symmetric])
  qed
  ultimately show ?thesis by (simp only: ends_and_then split_def)
qed

lemma check_abor_kept:
  assumes "sound T an ra s" "\<And>s'. kept T an ra (log_type s) s s' \<Longrightarrow> Q s'"
  shows "ends (check_abor T W s) (fails T an ra) Q"
  using assms kept_refl [OF assms(1)]
  by (auto simp: check_abor_def kept_def intro!: write_kept)

lemma transfer_reply_kept:
  assumes "sound T an ra s" "\<And>s'. kept T an ra (log_type s) s s' \<Longrightarrow> Q s'"
  shows "ends (transfer_reply T W m1 m2 r s) (fails T an ra) Q"
  using assms kept_refl [OF assms(1)]
  by (auto simp: transfer_reply_def intro!: write_kept)

subsection \<open>Transfers\<close>

lemma clip_fits: "fits n (clip n r)"
  by (cases r) (simp_all add: fits_def clip_def)

lemma transfer_reads_fit: "list_all (fits (get_chunk_size (tunable_trans_chunk_size T))) (transfer_reads T W s)"
  by (auto simp: transfer_reads_def list_all_iff clip_fits)

lemma chunk_size_bound: "get_chunk_size n \<le> VSFTP_DATA_BUFSIZE"
  by (simp add: get_chunk_size_def VSFTP_DATA_BUFSIZE_def)

lemma fits_mono: "fits m r \<Longrightarrow> m \<le> n \<Longrightarrow> fits n r"
  by (auto simp: fits_def split: sum.splits)

lemma send_loop_ends:
  "list_all (fits VSFTP_DATA_BUFSIZE) reads \<Longrightarrow> length reads + 1 \<le> fuel \<Longrightarrow>
   holds (send_loop wr ascii fuel reads prev_cr cnt sent) no_fault (\<lambda>r. r \<noteq> None)"
proof (induction fuel arbitrary: reads prev_cr cnt sent)
  case (Suc fuel)
  obtain r rs where nr: "next_read reads = (r, rs)" by (cases "next_read reads")
  show ?case
  proof (cases r)
    case (Inl e)
    with nr show ?thesis by simp
  next
    case (Inr d)
    show ?thesis
    proof (cases "d = []")
      case True
      with nr Inr show ?thesis by simp
    next
      case False
      then have reads: "reads = Inr d # rs" using nr Inr by (cases reads) auto
      with Suc.prems have d: "length d \<le> VSFTP_DATA_BUFSIZE" and rs: "list_all (fits VSFTP_DATA_BUFSIZE) rs"
        "length rs + 1 \<le> fuel"
        by (simp_all, simp add: fits_def)
      have "length (to_ascii (if prev_cr then CR else NUL) d) \<le> 2 * VSFTP_DATA_BUFSIZE"
        using length_to_ascii [of "if prev_cr then CR else NUL" d] d by simp
      with nr Inr False Suc.IH [OF rs] show ?thesis
        by (cases ascii; cases prev_cr) (simp_all add: bin_to_ascii_block Let_def del: not_None_eq)
    qed
  qed
qed simp

lemma transferred_file_kept:
  assumes "sound T an ra s" "holds result no_fault (\<lambda>r. r \<noteq> None)"
    "\<And>tr s'. kept T an ra (log_type s) s s' \<Longrightarrow> Q (tr, s')"
  shows "ends (transferred_file from to result s) (fails T an ra) Q"
proof -
  obtain ret b where "result = Inr (Some (ret, b))"
    using assms(2) by (cases result) auto
  with assms(1,3) show ?thesis by (simp add: transferred_file_def lifted_def kept_def)
qed

lemma sendfile_loop_kept:
  assumes "sound T an ra s" "0 \<le> offset" "\<And>r s'. kept T an ra (log_type s) s s' \<Longrightarrow> Q (r, s')"
  shows "ends (sendfile_loop W out_fd in_fd offset num_send max_chunk s) (fails T an ra) Q"
  using assms
proof (induction W out_fd in_fd offset num_send max_chunk s rule: sendfile_loop.induct)
  case (1 W out_fd in_fd offset num_send max_chunk s)
  show ?case
  proof (cases "num_send \<le> 0")
    case True
    with "1.prems" kept_refl [OF "1.prems"(1)] show ?thesis by (simp add: sendfile_loop.simps)
  next
    case False
    define n where "n = min num_send max_chunk"
    have l: "ends (vsf_sysutil_lseek_to W in_fd offset s) (fails T an ra) (\<lambda>s1. kept T an ra (log_type s) s s1)"
      by (rule lseek_kept [OF "1.prems"(1,2)])
    show ?thesis
    proof (cases "vsf_sysutil_lseek_to W in_fd offset s")
      case (Inl f)
      with l False show ?thesis by (cases f) (simp add: sendfile_loop.simps)
    next
      case (Inr s1)
      with l have k1: "kept T an ra (log_type s) s s1" by simp
      obtain r s2 where s2: "sys W (Sendfile out_fd in_fd n) s1 = (r, s2)"
        by (cases "sys W (Sendfile out_fd in_fd n) s1")
      have "kept T an ra (log_type s1) s1 s2"
        by (rule sys_kept [OF kept_sound [OF k1] _ s2]) simp
      with k1 have k2: "kept T an ra (log_type s) s s2" by (auto simp: kept_def)
      have "ends (sendfile_loop W out_fd in_fd (offset + min r n) (num_send - min r n) max_chunk s2)
          (fails T an ra) Q" if "0 < min r n"
      proof (rule "1.IH" [OF False Inr n_def _ _ refl])
        show "Q (r, s')" if "kept T an ra (log_type s2) s2 s'" for r s'
          by (rule "1.prems"(3)) (use that k2 in \<open>auto simp: kept_def\<close>)
      qed (use that k2 "1.prems"(2) s2 in \<open>auto simp: kept_def\<close>)
      with False Inr s2 "1.prems"(3) [OF k2] show ?thesis
        by (simp add: sendfile_loop.simps [of W out_fd in_fd offset num_send] n_def [symmetric] Let_def not_le)
    qed
  qed
qed

lemma sendfile_kept:
  assumes "sound T an ra s" "0 \<le> offset" "0 \<le> n" "\<And>tr s'. kept T an ra (log_type s) s s' \<Longrightarrow> Q (tr, s')"
  shows "ends (do_file_send_sendfile T W net_fd file_fd offset n s) (fails T an ra) Q"
proof -
  have "ends (sendfile_loop W net_fd file_fd offset n c s) (fails T an ra)
      (\<lambda>r. Q (\<lparr>retval = (if fst (fst r) < 0 \<or> snd (fst r) - offset \<noteq> n then -2 else 0),
          transferred = nat (snd (fst r) - offset)\<rparr>,
        snd r\<lparr>data_progress := data_progress (snd r) \<or> snd (fst r) - offset > 0\<rparr>))" for c
    by (rule sendfile_loop_kept [OF assms(1,2)]) (rule assms(4), simp add: kept_def)
  with assms(2,3) show ?thesis
    by (simp only: do_file_send_sendfile_def vsf_sysutil_sendfile_def Let_def ends_and_then split_def
        ends_values not_less [symmetric] if_False simp_thms)
qed

lemma calc_num_send_kept:
  assumes "sound T an ra s" "0 \<le> offset" "\<And>n s'. 0 \<le> n \<Longrightarrow> kept T an ra (log_type s) s s' \<Longrightarrow> Q (n, s')"
  shows "ends (calc_num_send W fd offset s) (fails T an ra) Q"
  unfolding calc_num_send_def ends_and_then
proof (rule fstat_kept [OF assms(1)])
  fix st s1
  assume k: "kept T an ra (log_type s) s s1"
  have "ends (vsf_sysutil_statbuf_get_size st s1) (fails T an ra)
      (\<lambda>n. ends (if offset < 0 \<or> n < 0 then die ''calc_num_send: negative file offset or send count'' s1
        else Inr (if offset > n then 0 else n - offset, s1)) (fails T an ra) Q)"
    by (rule get_size_kept) (use k assms(2,3) in \<open>auto simp: kept_def\<close>)
  then show "ends (case (st, s1) of (st, s) \<Rightarrow>
     and_then (vsf_sysutil_statbuf_get_size st s) (\<lambda>bytes_to_send.
     if offset < 0 \<or> bytes_to_send < 0
     then die ''calc_num_send: negative file offset or send count'' s
     else Inr (if offset > bytes_to_send then 0 else bytes_to_send - offset, s))) (fails T an ra) Q"
    by (simp add: ends_and_then)
qed

lemma transfer_file_kept:
  assumes "sound T an ra s" and Q: "\<And>tr s'. kept T an ra (log_type s) s s' \<Longrightarrow> Q (tr, s')"
  shows "ends (vsf_ftpdataio_transfer_file T W remote_fd file_fd is_recv ascii s) (fails T an ra) Q"
proof -
  have reads: "list_all (fits VSFTP_DATA_BUFSIZE) (transfer_reads T W s)"
    using transfer_reads_fit [of T W s] chunk_size_bound [of "tunable_trans_chunk_size T"]
    by (auto simp: list_all_iff intro: fits_mono)
  have send: "holds (do_file_send_rwloop wr ascii (transfer_reads T W s) []) no_fault (\<lambda>r. r \<noteq> None)" for wr
    unfolding do_file_send_rwloop_def by (rule send_loop_ends [OF reads]) simp
  have recv: "holds (do_file_recv wr ascii rs (replicate (VSFTP_DATA_BUFSIZE + 1) NUL) []) no_fault (\<lambda>r. r \<noteq> None)"
    if "list_all (fits VSFTP_DATA_BUFSIZE) rs" for wr rs
    unfolding do_file_recv_def by (rule recv_loop_ends [where n = VSFTP_DATA_BUFSIZE]) (use that in simp_all)
  have offset: "ends (case sys W (GetOffset file_fd) s of (curr_offset, s) \<Rightarrow>
      if curr_offset < 0 then die ''lseek'' s
      else and_then (calc_num_send W file_fd curr_offset s) (\<lambda>(num_send, s).
        do_file_send_sendfile T W remote_fd file_fd curr_offset num_send s)) (fails T an ra) Q"
  proof (cases "sys W (GetOffset file_fd) s")
    case (Pair off s1)
    have k1: "kept T an ra (log_type s) s s1" by (rule sys_kept [OF assms(1) _ Pair]) simp
    have "ends (calc_num_send W file_fd off s1) (fails T an ra)
        (\<lambda>(n, s). ends (do_file_send_sendfile T W remote_fd file_fd off n s) (fails T an ra) Q)" if "0 \<le> off"
    proof (rule calc_num_send_kept)
      fix n s2
      assume n: "0 \<le> (n::int)" and k2: "kept T an ra (log_type s1) s1 s2"
      show "case (n, s2) of (n, s) \<Rightarrow> ends (do_file_send_sendfile T W remote_fd file_fd off n s) (fails T an ra) Q"
        unfolding split_conv
        by (rule sendfile_kept) (use that n k1 k2 in \<open>auto simp: kept_def intro!: Q\<close>)
    qed (use that k1 in \<open>auto simp: kept_def\<close>)
    then have "0 \<le> off \<Longrightarrow> ends (and_then (calc_num_send W file_fd off s1) (\<lambda>(num_send, s).
        do_file_send_sendfile T W remote_fd file_fd off num_send s)) (fails T an ra) Q"
      by (simp only: ends_and_then split_def)
    moreover have "ends (die ''lseek'' s1) (fails T an ra) Q"
      by (rule die_ends) (use k1 in \<open>simp_all add: kept_def env_dies_def\<close>)
    ultimately show ?thesis unfolding Pair by simp
  qed
  have reads': "list_all (fits VSFTP_DATA_BUFSIZE) (if data_use_ssl s then [Inl ()] else transfer_reads T W s)"
    using reads by (simp add: fits_def)
  note loop = transferred_file_kept [where Q = Q, OF assms(1)]
  from loop [OF send Q] loop [OF recv [OF reads'] Q] offset
  show ?thesis
    by (simp add: vsf_ftpdataio_transfer_file_def)
qed

end
