(* ===== verification/Vsf_Listings.thy ===== *)
theory Vsf_Listings
  imports Vsf_Connections
begin

text \<open>
  The rules of \<open>Vsf_Serving\<close> for listings: reading a directory never faults, whatever its entries are
  called and whatever the filter of the client is, no listing writes an empty block, and the walk through
  the directories of a recursive listing ends.
\<close>

lemma ends_bind_eqI:
  "ends m E P \<Longrightarrow> (\<And>x. m = Inr x \<Longrightarrow> P x \<Longrightarrow> ends (f x) E Q) \<Longrightarrow> ends (and_then m f) E Q"
  by (cases m) (auto simp: ends_def)

subsection \<open>Reading a directory\<close>

lemma entry_wanted_value:
  assumes "NUL \<notin> set (ls_filter m)"
  shows "\<exists>b. entry_wanted T m name = Inr b"
proof -
  obtain v where v: "vsf_access_check_file_visible (tunable_hide_file T) name = Inr v"
    using access_check_value unfolding vsf_access_check_file_def vsf_access_check_file_visible_def by blast
  obtain r it where "vsf_filename_passes_filter name (ls_filter m) 0 = Inr (r, it)"
    using filter_ok [OF assms, of name] unfolding loop_ok_NUL by blast
  with v show ?thesis by (auto simp: entry_wanted_def)
qed

lemma str_list_add_kept:
  assumes "sound T an ra s" "\<And>l'. node_str ` set (nodes l') = insert t (node_str ` set (nodes l)) \<Longrightarrow> Q l'"
  shows "ends (lifted s (str_list_add l t key)) (fails T an ra) Q"
  using assms by (auto simp: str_list_add_def ends_lifted env_dies_def Let_def)

lemma entry_line_kept:
  assumes "sound T an ra s"
    "\<And>l s'. kept T an ra (log_type s) s s' \<Longrightarrow> l \<noteq> [] \<Longrightarrow> Q (l, s')"
  shows "ends (entry_line T W m name path st s) (fails T an ra) Q"
proof (cases "ls_verbose m")
  case True
  have line: "ends (and_then (build_dir_line T W f st (ls_time m) s1) (\<lambda>l. Inr (l, s1))) (fails T an ra) Q"
    if "kept T an ra (log_type s) s s1" for f s1
    unfolding build_dir_line_def ends_and_then
    by (rule get_size_kept) (use that assms(2) in \<open>auto simp: kept_def\<close>)
  obtain t s1 where t: "sys_text W (Readlink path) s = (t, s1)" by (cases "sys_text W (Readlink path) s")
  have k: "kept T an ra (log_type s) s s1" by (rule sys_text_kept [OF assms(1) _ t]) simp
  with line [OF kept_refl [OF assms(1)]] line [OF k] True t show ?thesis
    by (auto simp: entry_line_def Let_def split: option.splits)
next
  case False
  with assms(2) [OF kept_refl [OF assms(1)]] show ?thesis by (simp add: entry_line_def)
qed

text \<open>The lines gathered are not empty.\<close>

definition lines_ok :: "mystr_list \<Rightarrow> bool" where
  "lines_ok l \<longleftrightarrow> [] \<notin> node_str ` set (nodes l)"

lemma read_entries_kept:
  assumes "sound T an ra s" "NUL \<notin> set (ls_filter m)" "lines_ok l"
    "\<And>l' subs s'. kept T an ra (log_type s) s s' \<Longrightarrow> lines_ok l' \<Longrightarrow> Q ((l', subs), s')"
  shows "ends (read_entries T W m ds l subs s) (fails T an ra) Q"
  using assms
proof (induction ds arbitrary: l subs s)
  case Nil
  then show ?case using kept_refl by simp
next
  case (Cons d ds)
  define name where "name = c_str d"
  define path where "path = ls_base m @ name"
  obtain b where b: "entry_wanted T m name = Inr b" using entry_wanted_value [OF Cons.prems(2)] by blast
  have later: "ends (read_entries T W m ds l1 subs1 s1) (fails T an ra) Q"
    if "kept T an ra (log_type s) s s1" "lines_ok l1" for l1 subs1 s1
  proof (rule Cons.IH [OF _ Cons.prems(2) that(2)])
    show "Q ((l', subs'), s')" if "kept T an ra (log_type s1) s1 s'" "lines_ok l'" for l' subs' s'
      by (rule Cons.prems(4)) (use that \<open>kept T an ra (log_type s) s s1\<close> in \<open>auto simp: kept_def\<close>)
  qed (use that in \<open>auto simp: kept_def\<close>)
  have entry: "ends (and_then (entry_line T W m name path st s1) (\<lambda>(line, s).
      and_then (lifted s (str_list_add l line key)) (\<lambda>l.
      and_then (if ls_subdirs m \<and> st_dir st then lifted s (str_list_add subs name sub_key) else Inr subs)
        (\<lambda>subs. read_entries T W m ds l subs s)))) (fails T an ra) Q"
    if k1: "kept T an ra (log_type s) s s1" for st s1 key sub_key
    unfolding ends_and_then
  proof (rule entry_line_kept [OF kept_sound [OF k1]], unfold split_conv ends_and_then)
    fix line :: string and s2
    assume k2: "kept T an ra (log_type s1) s1 s2" and line: "line \<noteq> []"
    have k: "kept T an ra (log_type s) s s2" using k1 k2 by (simp add: kept_def)
    show "ends (lifted s2 (str_list_add l line key)) (fails T an ra) (\<lambda>l.
        ends (if ls_subdirs m \<and> st_dir st then lifted s2 (str_list_add subs name sub_key) else Inr subs)
          (fails T an ra) (\<lambda>subs. ends (read_entries T W m ds l subs s2) (fails T an ra) Q))"
    proof (rule str_list_add_kept [OF kept_sound [OF k]])
      fix l' :: mystr_list
      assume "node_str ` set (nodes l') = insert line (node_str ` set (nodes l))"
      with line Cons.prems(3) have "lines_ok l'" by (auto simp: lines_ok_def)
      note next_entries = later [OF k this]
      have "ends (lifted s2 (str_list_add subs name sub_key)) (fails T an ra)
          (\<lambda>subs. ends (read_entries T W m ds l' subs s2) (fails T an ra) Q)"
        by (rule str_list_add_kept [OF kept_sound [OF k]]) (rule next_entries)
      with next_entries show "ends (if ls_subdirs m \<and> st_dir st then lifted s2 (str_list_add subs name sub_key)
          else Inr subs) (fails T an ra) (\<lambda>subs. ends (read_entries T W m ds l' subs s2) (fails T an ra) Q)"
        by simp
    qed
  qed
  obtain st s1 where st: "(if do_stat m then sys_stat W (Lstat path) s else (Some unread_stat, s)) = (st, s1)"
    by (metis surj_pair)
  then have "kept T an ra (log_type s) s s1"
    using kept_refl [OF Cons.prems(1)] by (auto simp: sys_stat_def kept_def split: if_splits)
  with entry [OF this] later [OF this Cons.prems(3)]
    later [OF kept_refl [OF Cons.prems(1)] Cons.prems(3)] Cons.prems(4) [OF kept_refl [OF Cons.prems(1)] Cons.prems(3)]
  show ?case
    by (cases b; cases st)
      (simp_all add: name_def [symmetric] path_def [symmetric] b lifted_def [of s "Inr _"] st Let_def)
qed

lemma lines_ok_sort: "lines_ok (str_list_sort l r) = lines_ok l"
  by (simp add: lines_ok_def str_list_sort_def)

lemma populate_kept:
  assumes "sound T an ra s" "NUL \<notin> set filt"
    "\<And>l subs s'. kept T an ra (log_type s) s s' \<Longrightarrow> lines_ok l \<Longrightarrow> Q ((l, subs), s')"
  shows "ends (vsf_ls_populate_dir_list T W subdirs base opts filt verbose s) (fails T an ra) Q"
  unfolding vsf_ls_populate_dir_list_def Let_def ends_and_then
proof (rule read_entries_kept)
  show "NUL \<notin> set (ls_filter (ls_mode_of subdirs base opts filt verbose (fst (os_time W (trace s)))))"
    using assms(2) by (simp add: ls_mode_of_def Let_def)
  show "lines_ok empty_strlist" by (simp add: lines_ok_def empty_strlist_def)
qed (use assms in \<open>auto simp: kept_def lines_ok_sort\<close>)

subsection \<open>Writing it\<close>

lemma write_target_kept:
  assumes "sound T an ra s" "t \<noteq> []" "\<And>r s'. kept T an ra (log_type s) s s' \<Longrightarrow> Q (r, s')"
  shows "ends (ftp_write_str W target t s) (fails T an ra) Q"
proof (cases target)
  case kVSFRWControl
  have "ends (ftp_write_str_control W t s) (fails T an ra) Q"
    by (rule write_control_ends [OF assms(2)]) (rule assms(3), rule kept_trace [OF assms(1)], simp)
  with kVSFRWControl show ?thesis by (simp add: ftp_write_str_def)
next
  case kVSFRWData
  with assms kept_refl [OF assms(1)] show ?thesis
    by (auto simp: ftp_write_str_def ftp_write_str_data_def sys_def kept_def)
qed

lemma write_dir_loop_kept:
  assumes "sound T an ra s" "[] \<notin> set ls" "\<And>r s'. kept T an ra (log_type s) s s' \<Longrightarrow> Q (r, s')"
  shows "ends (write_dir_loop W target ls buf s) (fails T an ra) Q"
  using assms
proof (induction ls arbitrary: buf s)
  case Nil
  then show ?case using kept_refl by simp
next
  case (Cons l ls)
  have more: "ends (write_dir_loop W target ls b s1) (fails T an ra) Q" if "kept T an ra (log_type s) s s1" for b s1
  proof (rule Cons.IH)
    show "Q (r, s')" if "kept T an ra (log_type s1) s1 s'" for r s'
      by (rule Cons.prems(3)) (use that \<open>kept T an ra (log_type s) s s1\<close> in \<open>auto simp: kept_def\<close>)
  qed (use that Cons.prems in \<open>auto simp: kept_def\<close>)
  have "ends (and_then (ftp_write_str W target (buf @ l) s) (\<lambda>(r, s).
      if r \<noteq> 0 then Inr (True, s) else write_dir_loop W target ls [] s)) (fails T an ra) Q"
    unfolding ends_and_then
    by (rule write_target_kept) (use Cons.prems more in auto)
  with more [OF kept_refl [OF Cons.prems(1)]] show ?case by (simp add: Let_def)
qed

lemma closedir_kept:
  assumes "sound T an ra s" "\<And>s'. kept T an ra (log_type s) s s' \<Longrightarrow> Q s'"
  shows "ends (vsf_sysutil_closedir W p s) (fails T an ra) Q"
  unfolding vsf_sysutil_closedir_def
  by (rule sys_or_die_kept) (use assms in \<open>simp_all add: env_dies_def\<close>)

lemma opendir_kept:
  "sound T an ra s \<Longrightarrow> str_opendir W p s = (b, s') \<Longrightarrow> kept T an ra (log_type s) s s'"
  by (auto simp: str_opendir_def sys_def kept_def)

text \<open>The walk through the directories.\<close>

lemma transfer_dirs_kept:
  "sound T an ra s \<Longrightarrow> NUL \<notin> set filt \<Longrightarrow>
    ends (transfer_dir_internal T W target base opts filt verbose s) (fails T an ra)
      (\<lambda>(r, s'). kept T an ra (log_type s) s s')"
  "sound T an ra s \<Longrightarrow> NUL \<notin> set filt \<Longrightarrow>
    ends (transfer_subdirs T W target ds base opts filt verbose s) (fails T an ra)
      (\<lambda>(r, s'). kept T an ra (log_type s) s s')"
proof (induction T W target base opts filt verbose s and T W target ds base opts filt verbose s
    rule: transfer_dir_internal_transfer_subdirs.induct)
  case (1 T W target base opts filt verbose s)
  define subdirs where "subdirs \<longleftrightarrow> has_option (CHR ''R'') opts \<and> tunable_ls_recurse_enable T"
  show ?case
    unfolding transfer_dir_internal.simps [of T W target base] Let_def subdirs_def [symmetric]
  proof (rule ends_bind_eqI [OF populate_kept [OF "1.prems", where Q = "\<lambda>((l, subs), s').
      kept T an ra (log_type s) s s' \<and> lines_ok l"]])
    fix x
    assume x: "vsf_ls_populate_dir_list T W subdirs base opts filt verbose s = Inr x"
      "(\<lambda>((l, subs), s'). kept T an ra (log_type s) s s' \<and> lines_ok l) x"
    obtain l subs s1 where x1: "x = ((l, subs), s1)" by (metis surj_pair)
    with x have k1: "kept T an ra (log_type s) s s1" and l: "[] \<notin> set (map node_str (nodes l))"
      by (auto simp: lines_ok_def)
    show "ends ((\<lambda>((l, subs), s).
      and_then (if subdirs then and_then (ftp_write_str W target (base @ '':'' @ crlf) s) (\<lambda>(r, s). Inr (r \<noteq> 0, s))
                else Inr (False, s)) (\<lambda>(failed, s).
      and_then (if \<not> failed then write_dir_list W l target s else Inr (failed, s)) (\<lambda>(failed, s).
      if failed then Inr (True, s)
      else transfer_subdirs T W target (map node_str (nodes subs)) base opts filt verbose s))) x)
      (fails T an ra) (\<lambda>(r, s'). kept T an ra (log_type s) s s')"
      unfolding x1 split_conv
    proof (rule ends_bind_eqI [where P = "\<lambda>(r, s'). kept T an ra (log_type s) s s'"])
      show "ends (if subdirs then and_then (ftp_write_str W target (base @ '':'' @ crlf) s1) (\<lambda>(r, s). Inr (r \<noteq> 0, s))
          else Inr (False, s1)) (fails T an ra) (\<lambda>(r, s'). kept T an ra (log_type s) s s')"
        using k1 by (auto simp: ends_and_then kept_def intro!: write_target_kept)
      fix y
      assume y: "(if subdirs then and_then (ftp_write_str W target (base @ '':'' @ crlf) s1) (\<lambda>(r, s). Inr (r \<noteq> 0, s))
          else Inr (False, s1)) = Inr y" "case y of (r, s') \<Rightarrow> kept T an ra (log_type s) s s'"
      obtain f s2 where y1: "y = (f, s2)" by (cases y)
      with y have k2: "kept T an ra (log_type s) s s2" by simp
      show "ends (case y of (failed, s) \<Rightarrow>
        and_then (if \<not> failed then write_dir_list W l target s else Inr (failed, s)) (\<lambda>(failed, s).
        if failed then Inr (True, s)
        else transfer_subdirs T W target (map node_str (nodes subs)) base opts filt verbose s))
        (fails T an ra) (\<lambda>(r, s'). kept T an ra (log_type s) s s')"
        unfolding y1 split_conv
      proof (rule ends_bind_eqI [where P = "\<lambda>(r, s'). kept T an ra (log_type s) s s'"])
        show "ends (if \<not> f then write_dir_list W l target s2 else Inr (f, s2)) (fails T an ra)
            (\<lambda>(r, s'). kept T an ra (log_type s) s s')"
          using k2 l by (auto simp: write_dir_list_def kept_def intro!: write_dir_loop_kept)
        fix z
        assume z: "(if \<not> f then write_dir_list W l target s2 else Inr (f, s2)) = Inr z"
          "case z of (r, s') \<Rightarrow> kept T an ra (log_type s) s s'"
        obtain g s3 where z1: "z = (g, s3)" by (cases z)
        with z have k3: "kept T an ra (log_type s) s s3" by simp
        show "ends (case z of (failed, s) \<Rightarrow> if failed then Inr (True, s)
          else transfer_subdirs T W target (map node_str (nodes subs)) base opts filt verbose s)
          (fails T an ra) (\<lambda>(r, s'). kept T an ra (log_type s) s s')"
        proof (cases g)
          case False
          have "ends (transfer_subdirs T W target (map node_str (nodes subs)) base opts filt verbose s3)
              (fails T an ra) (\<lambda>(r, s'). kept T an ra (log_type s3) s3 s')"
            by (rule "1.IH" [OF subdirs_def x(1) x1 [symmetric] refl y(1) y1 [symmetric] z(1) z1 [symmetric] False])
              (use k3 "1.prems" in \<open>simp_all add: kept_def\<close>)
          then show ?thesis
            unfolding z1 split_conv if_not_P [OF False]
            by (rule ends_conseq) (use k3 in \<open>auto simp: kept_def\<close>)
        qed (simp add: z1 k3)
      qed
    qed
  qed (simp_all add: kept_def)
next
  case (2 T W target base opts filt verbose s)
  then show ?case by (simp add: transfer_subdirs.simps kept_refl)
next
  case (3 T W target d ds base opts filt verbose s)
  define sub where "sub = base @ ''/'' @ d"
  obtain opened s1 where o: "str_opendir W sub s = (opened, s1)" by (cases "str_opendir W sub s")
  have k1: "kept T an ra (log_type s) s s1" by (rule opendir_kept [OF "3.prems"(1) o])
  show ?case
  proof (cases "d = ''.'' \<or> d = ''..''")
    case True
    then show ?thesis using "3.IH"(1) [OF True] "3.prems" by (simp add: transfer_subdirs.simps)
  next
    case dots: False
    show ?thesis
    proof (cases "\<not> opened \<or> \<not> length sub < PATH_MAX")
      case True
      have "ends (transfer_subdirs T W target ds base opts filt verbose s1) (fails T an ra)
          (\<lambda>(r, s'). kept T an ra (log_type s) s s')"
        by (rule ends_conseq [OF "3.IH"(2) [OF dots sub_def refl o [symmetric] True]])
          (use k1 "3.prems" in \<open>auto simp: kept_def\<close>)
      then show ?thesis
        by (simp only: transfer_subdirs.simps(2) [of T W target d ds] sub_def [symmetric] Let_def
            if_not_P [OF dots] o split_conv if_P [OF True])
    next
      case opn: False
      have "ends (and_then (ftp_write_str W target crlf s1) (\<lambda>(r, s).
          if r \<noteq> 0 then and_then (vsf_sysutil_closedir W sub s) (\<lambda>s. Inr (True, s))
          else
            and_then (transfer_dir_internal T W target sub opts filt verbose s) (\<lambda>(failed, s).
            and_then (vsf_sysutil_closedir W sub s) (\<lambda>s.
            if failed then Inr (True, s)
            else transfer_subdirs T W target ds base opts filt verbose s)))) (fails T an ra)
          (\<lambda>(r, s'). kept T an ra (log_type s) s s')"
      proof (rule ends_bind_eqI [OF write_target_kept [OF kept_sound [OF k1], where Q = "\<lambda>(r, s'). kept T an ra (log_type s) s s'"]])
        fix x
        assume x: "ftp_write_str W target crlf s1 = Inr x" "case x of (r, s') \<Rightarrow> kept T an ra (log_type s) s s'"
        obtain r s2 where x1: "x = (r, s2)" by (cases x)
        with x have k2: "kept T an ra (log_type s) s s2" by simp
        have close: "ends (and_then (vsf_sysutil_closedir W sub s2) (\<lambda>s. Inr (True, s))) (fails T an ra)
            (\<lambda>(r, s'). kept T an ra (log_type s) s s')"
          unfolding ends_and_then
          by (rule closedir_kept [OF kept_sound [OF k2]]) (use k2 in \<open>simp add: kept_def\<close>)
        have walk: "ends (and_then (transfer_dir_internal T W target sub opts filt verbose s2) (\<lambda>(failed, s).
            and_then (vsf_sysutil_closedir W sub s) (\<lambda>s.
            if failed then Inr (True, s)
            else transfer_subdirs T W target ds base opts filt verbose s))) (fails T an ra)
            (\<lambda>(r, s'). kept T an ra (log_type s) s s')" if r: "r = 0"
        proof (rule ends_bind_eqI)
          have r': "\<not> r \<noteq> 0" using r by simp
          show "ends (transfer_dir_internal T W target sub opts filt verbose s2) (fails T an ra)
              (\<lambda>(r, s'). kept T an ra (log_type s2) s2 s')"
            by (rule "3.IH"(3) [OF dots sub_def refl o [symmetric] opn x(1) x1 [symmetric] r'])
              (use k2 "3.prems" in \<open>simp_all add: kept_def\<close>)
          fix y
          assume y: "transfer_dir_internal T W target sub opts filt verbose s2 = Inr y"
            "case y of (r, s') \<Rightarrow> kept T an ra (log_type s2) s2 s'"
          obtain f s3 where y1: "y = (f, s3)" by (cases y)
          with y k2 have k3: "kept T an ra (log_type s) s s3" by (simp add: kept_def)
          show "ends (case y of (failed, s) \<Rightarrow> and_then (vsf_sysutil_closedir W sub s) (\<lambda>s.
              if failed then Inr (True, s)
              else transfer_subdirs T W target ds base opts filt verbose s)) (fails T an ra)
              (\<lambda>(r, s'). kept T an ra (log_type s) s s')"
            unfolding y1 split_conv
          proof (rule ends_bind_eqI [OF closedir_kept [OF kept_sound [OF k3], where Q = "\<lambda>s'. kept T an ra (log_type s) s s'"]])
            fix s4
            assume c: "vsf_sysutil_closedir W sub s3 = Inr s4" and k4: "kept T an ra (log_type s) s s4"
            show "ends (if f then Inr (True, s4) else transfer_subdirs T W target ds base opts filt verbose s4)
                (fails T an ra) (\<lambda>(r, s'). kept T an ra (log_type s) s s')"
            proof (cases f)
              case False
              have "ends (transfer_subdirs T W target ds base opts filt verbose s4) (fails T an ra)
                  (\<lambda>(r, s'). kept T an ra (log_type s) s s')"
                by (rule ends_conseq [OF "3.IH"(4) [OF dots sub_def refl o [symmetric] opn x(1) x1 [symmetric] r' y(1) y1 [symmetric] c False]])
                  (use k4 "3.prems" in \<open>auto simp: kept_def\<close>)
              with False show ?thesis by simp
            qed (simp add: k4)
          qed (use k3 in \<open>simp add: kept_def\<close>)
        qed
        show "ends (case x of (r, s) \<Rightarrow>
          if r \<noteq> 0 then and_then (vsf_sysutil_closedir W sub s) (\<lambda>s. Inr (True, s))
          else
            and_then (transfer_dir_internal T W target sub opts filt verbose s) (\<lambda>(failed, s).
            and_then (vsf_sysutil_closedir W sub s) (\<lambda>s.
            if failed then Inr (True, s)
            else transfer_subdirs T W target ds base opts filt verbose s))) (fails T an ra)
          (\<lambda>(r, s'). kept T an ra (log_type s) s s')"
          unfolding x1 split_conv using close walk by simp
      qed (use k1 in \<open>simp_all add: kept_def\<close>)
      then show ?thesis
        by (simp only: transfer_subdirs.simps(2) [of T W target d ds] sub_def [symmetric] Let_def
            if_not_P [OF dots] o split_conv if_not_P [OF opn])
    qed
  qed
qed

lemma transfer_dir_kept:
  assumes "sound T an ra s" "NUL \<notin> set filt" "\<And>r s'. kept T an ra (log_type s) s s' \<Longrightarrow> Q (r, s')"
  shows "ends (vsf_ftpdataio_transfer_dir T W is_control base opts filt verbose s) (fails T an ra) Q"
  unfolding vsf_ftpdataio_transfer_dir_def ends_and_then
  by (rule ends_conseq [OF transfer_dirs_kept(1) [OF assms(1,2)]]) (auto intro: assms(3))

end
