(* ===== verification/Vsf_Handlers.thy ===== *)
theory Vsf_Handlers
  imports Vsf_Listings
begin

text \<open>
  Every command handler of \<open>postlogin.c\<close> keeps the session serving: it comes back with the invariant of
  \<open>Vsf_Serving\<close> and no data connection, or ends in an exit or in a failure of the outside world, and
  the history stays within the policy. The contract of a handler is the locale \<open>command_handler\<close>; its
  lemma is that the loop may go on after the command.
\<close>

subsection \<open>The contract\<close>

text \<open>What a handler may rely on: the session of the command loop, with a command just read.\<close>

definition commanded :: "tunables \<Rightarrow> bool \<Rightarrow> sockaddr \<Rightarrow> vsf_session \<Rightarrow> bool" where
  "commanded T an ra s \<longleftrightarrow> serving T an ra s \<and> log_type s = 0 \<and> command_text s \<and>
     length (ftp_arg_str s) < VSFTP_MAX_COMMAND_LINE"

text \<open>Between two commands there is no open log entry.\<close>

definition idle :: "tunables \<Rightarrow> bool \<Rightarrow> sockaddr \<Rightarrow> vsf_session \<Rightarrow> bool" where
  "idle T an ra s \<longleftrightarrow> serving T an ra s \<and> log_type s = 0"

lemma after_command_idle:
  assumes "serving T an ra s"
  shows "ends (after_command T W s) (fails T an ra) (idle T an ra)"
proof -
  have timeout: "ends (if data_timeout s'
      then vsf_cmdio_write_exit T W FTP_DATA_TIMEOUT ''Data timeout. Reconnect. Sorry.'' 1 s'
      else Inr s') (fails T an ra) (idle T an ra)" if "kept T an ra 0 s s'" for s'
    using that assms by (auto simp: idle_def kept_def intro!: write_exit_kept)
  show ?thesis
  proof (cases "log_type s = 0")
    case True
    with timeout kept_refl [of T an ra s] assms show ?thesis
      by (simp add: after_command_def vsf_log_entry_pending_def)
  next
    case False
    have d: "ends (vsf_log_do_log T W False s) (fails T an ra) (kept T an ra 0 s)"
      using assms False by (intro do_log_kept) auto
    from False show ?thesis
      by (simp add: after_command_def vsf_log_entry_pending_def) (rule ends_bindI [OF d], erule timeout)
  qed
qed

locale command_handler =
  fixes h :: "tunables \<Rightarrow> os \<Rightarrow> vsf_session \<Rightarrow> vsf_session run"
    and enabled :: "tunables \<Rightarrow> bool \<Rightarrow> bool"
  assumes keeps: "enabled T an \<Longrightarrow> commanded T an ra s \<Longrightarrow> ends (h T W s) (fails T an ra) (serving T an ra)"
begin

lemma next_command:
  assumes "enabled T an" "commanded T an ra s"
  shows "ends (and_then (h T W s) (after_command T W)) (fails T an ra) (idle T an ra)"
  by (rule ends_bindI [OF keeps [OF assms]]) (rule after_command_idle)

end

subsection \<open>Common ends of a handler\<close>

lemma kept_serving: "kept T an ra n s s' \<Longrightarrow> data_fd s = -1 \<Longrightarrow> serving T an ra s'"
  by (simp add: kept_def)

lemma write_serving:
  assumes "sound T an ra s" "data_fd s = -1"
  shows "ends (vsf_cmdio_write T W status t s) (fails T an ra) (serving T an ra)"
    "ends (vsf_cmdio_write_str T W status t s) (fails T an ra) (serving T an ra)"
  by (rule write_kept [OF assms(1)], erule kept_serving, rule assms(2))+

text \<open>A successful operation is logged, then answered.\<close>

lemma log_and_reply:
  assumes "sound T an ra s" "data_fd s = -1" "log_type s \<noteq> 0"
    "\<And>s'. kept T an ra 0 s s' \<Longrightarrow> ends (k s') (fails T an ra) (serving T an ra)"
  shows "ends (and_then (vsf_log_do_log T W b s) k) (fails T an ra) (serving T an ra)"
  unfolding ends_and_then using assms by (intro do_log_kept) auto

lemma with_access_serving:
  assumes "sound T an ra s" "data_fd s = -1"
    "access_ok T p \<Longrightarrow> ends (k s) (fails T an ra) (serving T an ra)"
  shows "ends (with_access T W p k s) (fails T an ra) (serving T an ra)"
  by (rule with_access_kept [OF assms(1)]) (use assms kept_serving in blast)+

lemma resolved:
  assumes "commanded T an ra s" "s' = resolve_arg T W s"
  shows "sound T an ra s'" "data_fd s' = -1" "log_type s' = 0" "command_text s'"
    "rnfr_filename_str s' = rnfr_filename_str s" "some_active T s' \<longleftrightarrow> some_active T s"
proof -
  have "sound T an ra s" "command_text s" using assms(1) by (simp_all add: commanded_def)
  from resolve_arg_kept [OF this, of W] assms show "sound T an ra s'" "data_fd s' = -1" "log_type s' = 0" "command_text s'"
    "some_active T s' \<longleftrightarrow> some_active T s"
    by (auto simp: commanded_def kept_def)
  show "rnfr_filename_str s' = rnfr_filename_str s"
    by (auto simp: assms(2) resolve_arg_def resolve_tilde_def sys_text_def Let_def split: prod.splits)
qed

text \<open>An entry is started for one name, then the access to a name is checked.\<close>

lemma logged_access:
  assumes "sound T an ra s" "data_fd s = -1" "log_type s = 0" "log_action what \<noteq> None"
    and "\<And>s'. kept T an ra what s s' \<Longrightarrow> access_ok T p \<Longrightarrow> ends (k s') (fails T an ra) (serving T an ra)"
  shows "ends (and_then (start_entry W what t s) (with_access T W p k)) (fails T an ra) (serving T an ra)"
  unfolding ends_and_then
proof (rule start_entry_kept [OF assms(1,3,4)])
  fix s1
  assume k1: "kept T an ra what s s1"
  show "ends (with_access T W p k s1) (fails T an ra) (serving T an ra)"
    by (rule with_access_serving [OF kept_sound [OF k1]], use k1 assms(2) in \<open>simp add: kept_def\<close>,
      rule assms(5) [OF k1])
qed

text \<open>The frame of the commands on a file: the name is resolved, an entry started, access checked.\<close>

lemma file_command:
  assumes c: "commanded T an ra s" and what: "log_action what \<noteq> None"
    and k: "\<And>s'. sound T an ra s' \<Longrightarrow> data_fd s' = -1 \<Longrightarrow> log_type s' = what \<Longrightarrow> NUL \<notin> set arg \<Longrightarrow>
      access_ok T arg \<Longrightarrow> (some_active T s' \<longleftrightarrow> some_active T s) \<Longrightarrow>
      ends (k s') (fails T an ra) (serving T an ra)"
    and arg: "arg = ftp_arg_str (resolve_arg T W s)"
  shows "ends (and_then (start_entry W what arg (resolve_arg T W s)) (with_access T W arg k))
    (fails T an ra) (serving T an ra)"
proof -
  note r = resolved [OF c refl, of W]
  show ?thesis
    by (rule logged_access [OF r(1-3) what], rule k)
      (use r(2,4,6) arg in \<open>auto simp: kept_def command_text_def\<close>)
qed

lemma log_entry_actions [simp]:
  "log_action kVSFLogEntryMkdir \<noteq> None" "log_action kVSFLogEntryRmdir \<noteq> None"
  "log_action kVSFLogEntryDelete \<noteq> None" "log_action kVSFLogEntryRename \<noteq> None"
  "log_action kVSFLogEntryDownload \<noteq> None" "log_action kVSFLogEntryUpload \<noteq> None"
  "log_action kVSFLogEntryChmod \<noteq> None"
  by (simp_all add: log_action_def log_entry_defs)

lemma log_entry_not_0 [simp]:
  "kVSFLogEntryMkdir \<noteq> 0" "kVSFLogEntryRmdir \<noteq> 0" "kVSFLogEntryDelete \<noteq> 0" "kVSFLogEntryRename \<noteq> 0"
  "kVSFLogEntryDownload \<noteq> 0" "kVSFLogEntryUpload \<noteq> 0" "kVSFLogEntryChmod \<noteq> 0"
  by (simp_all add: log_entry_defs)

subsection \<open>Directories\<close>

lemma commandedD:
  assumes "commanded T an ra s"
  shows "sound T an ra s" "data_fd s = -1" "log_type s = 0" "NUL \<notin> set (ftp_arg_str s)"
    "length (ftp_arg_str s) < VSFTP_MAX_COMMAND_LINE"
  using assms by (simp_all add: commanded_def command_text_def)

interpretation pwd: command_handler handle_pwd "\<lambda>T an. True"
proof
  fix T an ra s W
  assume c: "commanded T an ra s"
  obtain cwd s1 where s1: "str_getcwd W s = (cwd, s1)" by (cases "str_getcwd W s")
  from getcwd_kept [OF commandedD(1) [OF c] s1] have "kept T an ra (log_type s) s s1" by simp
  with c show "ends (handle_pwd T W s) (fails T an ra) (serving T an ra)"
    unfolding handle_pwd_def s1 Let_def split_conv
    by (intro write_serving) (auto simp: kept_def commanded_def)
qed

interpretation cwd: command_handler handle_cwd "\<lambda>T an. True"
proof
  fix T an ra s W
  assume c: "commanded T an ra s"
  define s1 where "s1 = resolve_arg T W s"
  note r = resolved [OF c s1_def]
  show "ends (handle_cwd T W s) (fails T an ra) (serving T an ra)"
    unfolding handle_cwd_def Let_def s1_def [symmetric]
  proof (rule with_access_serving [OF r(1,2)])
    assume ok: "access_ok T (ftp_arg_str s1)"
    obtain x s2 where s2: "sys W (Chdir (c_str (ftp_arg_str s1))) s1 = (x, s2)"
      by (cases "sys W (Chdir (c_str (ftp_arg_str s1))) s1")
    have k: "kept T an ra (log_type s1) s1 s2"
      by (rule sys_kept [OF r(1) _ s2]) (use ok r(4) in \<open>simp add: access_ok_c_str command_text_def\<close>)
    then have s2ok: "sound T an ra s2" "data_fd s2 = -1" using r by (simp_all add: kept_def)
    have "ends (vsf_banner_dir_changed T W FTP_CWDOK s2) (fails T an ra)
        (\<lambda>s. ends (vsf_cmdio_write T W FTP_CWDOK ''Directory successfully changed.'' s) (fails T an ra) (serving T an ra))"
      by (rule dir_changed_kept [OF s2ok(1)], rule write_serving) (use s2ok in \<open>auto simp: kept_def\<close>)
    with write_serving [OF s2ok]
    show "ends (case sys W (Chdir (c_str (ftp_arg_str s1))) s1 of (r, s) \<Rightarrow> if r = 0 then
        and_then (vsf_banner_dir_changed T W FTP_CWDOK s) (\<lambda>s.
        vsf_cmdio_write T W FTP_CWDOK ''Directory successfully changed.'' s)
      else vsf_cmdio_write T W FTP_FILEFAIL ''Failed to change directory.'' s) (fails T an ra) (serving T an ra)"
      by (simp add: s2 ends_and_then)
  qed
qed

interpretation cdup: command_handler handle_cdup "\<lambda>T an. True"
proof
  fix T an ra s W
  assume "commanded T an ra s"
  then have "commanded T an ra (s\<lparr>ftp_arg_str := ''..''\<rparr>)"
    by (simp add: commanded_def command_text_def VSFTP_MAX_COMMAND_LINE_def)
  then show "ends (handle_cdup T W s) (fails T an ra) (serving T an ra)"
    unfolding handle_cdup_def by (rule cwd.keeps [OF TrueI])
qed

text \<open>A call on a file, a failure of which is only answered.\<close>

lemma call_on_file:
  assumes "sound T an ra s" "data_fd s = -1" "permitted T an ra (Sys c)"
    "\<And>r s'. kept T an ra (log_type s) s s' \<Longrightarrow> ends (k (r, s')) (fails T an ra) (serving T an ra)"
  shows "ends (k (sys W c s)) (fails T an ra) (serving T an ra)"
  using assms(4) [OF sys_kept [OF assms(1,3)]] by (cases "sys W c s") auto

interpretation mkd: command_handler handle_mkd "\<lambda>T an. may_write T an (tunable_anon_mkdir_write_enable T)"
proof
  fix T an ra s W
  assume may: "may_write T an (tunable_anon_mkdir_write_enable T)" and c: "commanded T an ra s"
  show "ends (handle_mkd T W s) (fails T an ra) (serving T an ra)"
    unfolding handle_mkd_def Let_def
  proof (rule file_command [OF c], simp)
    fix s1
    assume s1: "sound T an ra s1" "data_fd s1 = -1" "log_type s1 = kVSFLogEntryMkdir"
      "NUL \<notin> set (ftp_arg_str (resolve_arg T W s))" "access_ok T (ftp_arg_str (resolve_arg T W s))"
    define arg where "arg = ftp_arg_str (resolve_arg T W s)"
    show "ends (case sys W (Mkdir (c_str (ftp_arg_str (resolve_arg T W s))) 511) s1 of (r, s') \<Rightarrow>
      if r \<noteq> 0 then vsf_cmdio_write T W FTP_FILEFAIL ''Create directory operation failed.'' s'
      else and_then (vsf_log_do_log T W True s') (\<lambda>s'.
        case prepend_path_to_filename W (ftp_arg_str (resolve_arg T W s)) s' of (p, s') \<Rightarrow>
        vsf_cmdio_write_str T W FTP_MKDIROK
            ([CHR 0x22] @ quoted p @ [CHR 0x22] @ '' created'') s')) (fails T an ra) (serving T an ra)"
      unfolding arg_def [symmetric]
    proof (rule call_on_file [OF s1(1,2)])
      show "permitted T an ra (Sys (Mkdir (c_str arg) 511))"
        using s1 may by (simp add: access_ok_c_str arg_def)
      fix r s2
      assume k: "kept T an ra (log_type s1) s1 s2"
      then have s2: "sound T an ra s2" "data_fd s2 = -1" "log_type s2 \<noteq> 0"
        using s1 by (simp_all add: kept_def)
      have "ends (and_then (vsf_log_do_log T W True s2) (\<lambda>s'. case prepend_path_to_filename W arg s' of (p, s') \<Rightarrow>
        vsf_cmdio_write_str T W FTP_MKDIROK
            ([CHR 0x22] @ quoted p @ [CHR 0x22] @ '' created'') s')) (fails T an ra) (serving T an ra)"
      proof (rule log_and_reply [OF s2])
        fix s3
        assume k3: "kept T an ra 0 s2 s3"
        obtain p s4 where p: "prepend_path_to_filename W arg s3 = (p, s4)"
          by (cases "prepend_path_to_filename W arg s3")
        from prepend_path_kept [OF kept_sound [OF k3] p] k3 s2
        show "ends (case prepend_path_to_filename W arg s3 of (p, s') \<Rightarrow>
            vsf_cmdio_write_str T W FTP_MKDIROK
                ([CHR 0x22] @ quoted p @ [CHR 0x22] @ '' created'') s') (fails T an ra) (serving T an ra)"
          unfolding p split_conv by (intro write_serving) (auto simp: kept_def)
      qed
      with write_serving [OF s2(1,2)]
      show "ends (case (r, s2) of (r, s') \<Rightarrow>
        if r \<noteq> 0 then vsf_cmdio_write T W FTP_FILEFAIL ''Create directory operation failed.'' s'
        else and_then (vsf_log_do_log T W True s') (\<lambda>s'. case prepend_path_to_filename W arg s' of (p, s') \<Rightarrow>
        vsf_cmdio_write_str T W FTP_MKDIROK
            ([CHR 0x22] @ quoted p @ [CHR 0x22] @ '' created'') s')) (fails T an ra) (serving T an ra)"
        by simp
    qed
  qed (rule refl)
qed

lemma logged_call:
  assumes "sound T an ra s" "data_fd s = -1" "log_type s \<noteq> 0" "permitted T an ra (Sys c)"
  shows "ends (case sys W c s of (r, s) \<Rightarrow> if bad r then vsf_cmdio_write T W n t s
    else and_then (vsf_log_do_log T W True s) (vsf_cmdio_write T W m u)) (fails T an ra) (serving T an ra)"
proof (rule call_on_file [OF assms(1,2,4)])
  fix r s1
  assume k: "kept T an ra (log_type s) s s1"
  with assms have s1: "sound T an ra s1" "data_fd s1 = -1" "log_type s1 \<noteq> 0" by (simp_all add: kept_def)
  have "ends (and_then (vsf_log_do_log T W True s1) (vsf_cmdio_write T W m u)) (fails T an ra) (serving T an ra)"
    by (rule log_and_reply [OF s1], rule write_serving) (use s1 in \<open>auto simp: kept_def\<close>)
  with write_serving [OF s1(1,2)]
  show "ends (case (r, s1) of (r, s) \<Rightarrow> if bad r then vsf_cmdio_write T W n t s
    else and_then (vsf_log_do_log T W True s) (vsf_cmdio_write T W m u)) (fails T an ra) (serving T an ra)"
    by simp
qed

interpretation rmd: command_handler handle_rmd "\<lambda>T an. may_write T an (tunable_anon_other_write_enable T)"
proof
  fix T an ra s W
  assume "may_write T an (tunable_anon_other_write_enable T)" and c: "commanded T an ra s"
  then show "ends (handle_rmd T W s) (fails T an ra) (serving T an ra)"
    unfolding handle_rmd_def Let_def
    by (intro file_command [OF c] logged_call) (simp_all add: access_ok_c_str)
qed

interpretation dele: command_handler handle_dele "\<lambda>T an. may_write T an (tunable_anon_other_write_enable T)"
proof
  fix T an ra s W
  assume "may_write T an (tunable_anon_other_write_enable T)" and c: "commanded T an ra s"
  then show "ends (handle_dele T W s) (fails T an ra) (serving T an ra)"
    unfolding handle_dele_def Let_def
    by (intro file_command [OF c] logged_call) (auto simp: access_ok_c_str may_write_def)
qed

subsection \<open>Renaming\<close>

lemma sys_stat_cases:
  assumes "sound T an ra s" "permitted T an ra (Sys c)"
    "\<And>st s'. kept T an ra (log_type s) s s' \<Longrightarrow> ends (k (st, s')) (fails T an ra) Q"
  shows "ends (k (sys_stat W c s)) (fails T an ra) Q"
  using assms(3) [OF sys_stat_kept [OF assms(1,2)]] by (cases "sys_stat W c s") auto

lemma commanded_upd [simp]:
  "command_text (s\<lparr>rnfr_filename_str := t\<rparr>) = command_text s"
  "command_text (s\<lparr>restart_pos := c\<rparr>) = command_text s"
  "command_text (s\<lparr>is_ascii := a\<rparr>) = command_text s"
  by (simp_all add: command_text_def)

interpretation rnfr: command_handler handle_rnfr "\<lambda>T an. True"
proof
  fix T an ra s W
  assume c: "commanded T an ra s"
  define s1 where "s1 = resolve_arg T W (s\<lparr>rnfr_filename_str := []\<rparr>)"
  define arg where "arg = ftp_arg_str s1"
  have "commanded T an ra (s\<lparr>rnfr_filename_str := []\<rparr>)"
    using c by (auto simp: commanded_def intro: regular_set)
  note r = resolved [OF this s1_def]
  have refuse: "ends (and_then (start_entry W kVSFLogEntryRename arg s') (vsf_cmdio_write T W n t))
      (fails T an ra) (serving T an ra)" if "kept T an ra 0 s1 s'" for s' n t
    unfolding ends_and_then
    by (rule start_entry_kept [OF kept_sound [OF that]], use that in \<open>simp add: kept_def\<close>, simp,
        rule write_serving) (use that r in \<open>auto simp: kept_def\<close>)
  obtain ok where ok: "vsf_access_check_file (tunable_deny_file T) arg = Inr ok"
    using access_check_value by blast
  have found: "ends (vsf_cmdio_write T W n t (s'\<lparr>rnfr_filename_str := arg\<rparr>)) (fails T an ra) (serving T an ra)"
    if "kept T an ra 0 s1 s'" ok for s' n t
    by (rule write_serving)
      (use that ok r in \<open>auto simp: kept_def access_ok_def command_text_def arg_def intro: regular_set\<close>)
  have "ends (case sys_stat W (Stat (c_str arg)) s1 of (st, s) \<Rightarrow>
      if st \<noteq> None then vsf_cmdio_write T W FTP_RNFROK ''Ready for RNTO.'' (s\<lparr>rnfr_filename_str := arg\<rparr>)
      else and_then (start_entry W kVSFLogEntryRename arg s) (\<lambda>s.
        vsf_cmdio_write T W FTP_FILEFAIL ''RNFR command failed.'' s)) (fails T an ra) (serving T an ra)" if ok
    by (rule sys_stat_cases [OF r(1)]) (use that r(3) found refuse in auto)
  with refuse [OF kept_refl [OF r(1), unfolded r(3)]]
  show "ends (handle_rnfr T W s) (fails T an ra) (serving T an ra)"
    by (simp add: handle_rnfr_def s1_def [symmetric] arg_def [symmetric] ok lifted_def)
qed

interpretation rnto: command_handler handle_rnto "\<lambda>T an. may_write T an (tunable_anon_other_write_enable T)"
proof
  fix T an ra s W
  assume may: "may_write T an (tunable_anon_other_write_enable T)" and c: "commanded T an ra s"
  define s1 where "s1 = resolve_arg T W s"
  define arg where "arg = ftp_arg_str s1"
  define src where "src = rnfr_filename_str s"
  note r = resolved [OF c s1_def]
  show "ends (handle_rnto T W s) (fails T an ra) (serving T an ra)"
  proof (cases "src = []")
    case True
    with c show ?thesis by (simp add: handle_rnto_def src_def write_serving commanded_def)
  next
    case False
    from c have "regular T an ra s" by (simp add: commanded_def)
    with False have src: "access_ok T src" "NUL \<notin> set src" by (auto simp: regular_def src_def)
    have rename: "ends (case sys W (Rename (c_str src) (c_str arg)) s2 of (r, s) \<Rightarrow>
        if r = 0 then and_then (vsf_log_do_log T W True (s\<lparr>rnfr_filename_str := []\<rparr>))
          (vsf_cmdio_write T W FTP_RENAMEOK ''Rename successful.'')
        else vsf_cmdio_write T W FTP_FILEFAIL ''Rename failed.'' (s\<lparr>rnfr_filename_str := []\<rparr>))
        (fails T an ra) (serving T an ra)"
      if s2: "sound T an ra s2" "data_fd s2 = -1" "log_type s2 \<noteq> 0" and ok: "access_ok T arg" for s2
    proof (rule call_on_file [OF s2(1,2)])
      show "permitted T an ra (Sys (Rename (c_str src) (c_str arg)))"
        using may src ok r(4) by (simp add: access_ok_c_str arg_def command_text_def)
      fix x s3
      assume k: "kept T an ra (log_type s2) s2 s3"
      define s4 where "s4 = s3\<lparr>rnfr_filename_str := []\<rparr>"
      have s4: "sound T an ra s4" "data_fd s4 = -1" "log_type s4 \<noteq> 0"
        using k s2 by (auto simp: s4_def kept_def intro: regular_set)
      have "ends (and_then (vsf_log_do_log T W True s4) (vsf_cmdio_write T W FTP_RENAMEOK ''Rename successful.''))
          (fails T an ra) (serving T an ra)"
        by (rule log_and_reply [OF s4], rule write_serving) (use s4 in \<open>auto simp: kept_def\<close>)
      with write_serving [OF s4(1,2)]
      show "ends (case (x, s3) of (r, s) \<Rightarrow>
          if r = 0 then and_then (vsf_log_do_log T W True (s\<lparr>rnfr_filename_str := []\<rparr>))
            (vsf_cmdio_write T W FTP_RENAMEOK ''Rename successful.'')
          else vsf_cmdio_write T W FTP_FILEFAIL ''Rename failed.'' (s\<lparr>rnfr_filename_str := []\<rparr>))
          (fails T an ra) (serving T an ra)"
        by (simp add: s4_def [symmetric])
    qed
    have "ends (start_entry W kVSFLogEntryRename src s1) (fails T an ra) (\<lambda>s. ends
        (case prepend_path_to_filename W arg s of (p, s) \<Rightarrow>
          with_access T W arg (\<lambda>s. case sys W (Rename (c_str src) (c_str arg)) s of (r, s) \<Rightarrow>
            if r = 0 then and_then (vsf_log_do_log T W True (s\<lparr>rnfr_filename_str := []\<rparr>))
              (vsf_cmdio_write T W FTP_RENAMEOK ''Rename successful.'')
            else vsf_cmdio_write T W FTP_FILEFAIL ''Rename failed.'' (s\<lparr>rnfr_filename_str := []\<rparr>))
          (s\<lparr>log_str := log_str s @ '' '' @ p\<rparr>)) (fails T an ra) (serving T an ra))"
    proof (rule start_entry_kept [OF r(1,3)], simp)
      fix s2
      assume k: "kept T an ra kVSFLogEntryRename s1 s2"
      obtain p s3 where p: "prepend_path_to_filename W arg s2 = (p, s3)"
        by (cases "prepend_path_to_filename W arg s2")
      from prepend_path_kept [OF kept_sound [OF k] p] k r
      have s3: "sound T an ra (s3\<lparr>log_str := log_str s3 @ '' '' @ p\<rparr>)"
        "data_fd (s3\<lparr>log_str := log_str s3 @ '' '' @ p\<rparr>) = -1"
        "log_type (s3\<lparr>log_str := log_str s3 @ '' '' @ p\<rparr>) \<noteq> 0"
        by (simp_all add: kept_def)
      show "ends (case prepend_path_to_filename W arg s2 of (p, s) \<Rightarrow>
          with_access T W arg (\<lambda>s. case sys W (Rename (c_str src) (c_str arg)) s of (r, s) \<Rightarrow>
            if r = 0 then and_then (vsf_log_do_log T W True (s\<lparr>rnfr_filename_str := []\<rparr>))
              (vsf_cmdio_write T W FTP_RENAMEOK ''Rename successful.'')
            else vsf_cmdio_write T W FTP_FILEFAIL ''Rename failed.'' (s\<lparr>rnfr_filename_str := []\<rparr>))
          (s\<lparr>log_str := log_str s @ '' '' @ p\<rparr>)) (fails T an ra) (serving T an ra)"
        unfolding p split_conv by (rule with_access_serving [OF s3(1,2)], rule rename [OF s3])
    qed
    with False show ?thesis
      by (simp add: handle_rnto_def src_def [symmetric] s1_def [symmetric] arg_def [symmetric] Let_def ends_and_then)
  qed
qed

subsection \<open>Modes and file facts\<close>

interpretation type_cmd: command_handler handle_type "\<lambda>T an. True"
  by unfold_locales (auto simp: handle_type_def Let_def commanded_def intro!: write_serving)

lemma strlen_command: "length t < VSFTP_MAX_COMMAND_LINE \<Longrightarrow> vsf_sysutil_strlen (c_str t) = Inr (length (c_str t))"
  using length_takeWhile_le [of "\<lambda>c. c \<noteq> NUL" t]
  by (simp add: vsf_sysutil_strlen_def VSFTP_MAX_COMMAND_LINE_def c_str_def INT_MAX_def takeWhile_takeWhile)

interpretation rest: command_handler handle_rest "\<lambda>T an. True"
proof
  fix T an ra s W
  assume c: "commanded T an ra s"
  obtain v where "vsf_sysutil_a_to_filesize_t (c_str (ftp_arg_str s)) = Inr v"
    using strlen_command [OF commandedD(5) [OF c]]
    by (cases "15 < length (c_str (ftp_arg_str s))") (simp_all add: vsf_sysutil_a_to_filesize_t_def)
  with c show "ends (handle_rest T W s) (fails T an ra) (serving T an ra)"
    by (auto simp: handle_rest_def lifted_def commanded_def intro!: write_serving regular_set)
qed

interpretation size_cmd: command_handler handle_size "\<lambda>T an. True"
proof
  fix T an ra s W
  assume c: "commanded T an ra s"
  define s1 where "s1 = resolve_arg T W s"
  note r = resolved [OF c s1_def]
  show "ends (handle_size T W s) (fails T an ra) (serving T an ra)"
    unfolding handle_size_def Let_def s1_def [symmetric]
  proof (rule with_access_serving [OF r(1,2)], rule sys_stat_cases [OF r(1)], simp)
    fix st s2
    assume "kept T an ra (log_type s1) s1 s2"
    then have s2: "sound T an ra s2" "data_fd s2 = -1" using r by (simp_all add: kept_def)
    have "ends (and_then (vsf_sysutil_statbuf_get_size x s2) (\<lambda>sz.
        vsf_cmdio_write_str T W FTP_SIZEOK (fmt_ld sz) s2)) (fails T an ra) (serving T an ra)" for x
      unfolding ends_and_then by (rule get_size_kept [OF s2(1)]) (rule write_serving [OF s2])
    with write_serving [OF s2]
    show "ends (case (st, s2) of (st, s) \<Rightarrow> (case st of
        None \<Rightarrow> vsf_cmdio_write T W FTP_FILEFAIL ''Could not get file size.'' s
      | Some st \<Rightarrow> if \<not> st_regfile st then vsf_cmdio_write T W FTP_FILEFAIL ''Could not get file size.'' s
          else and_then (vsf_sysutil_statbuf_get_size st s) (\<lambda>sz.
            vsf_cmdio_write_str T W FTP_SIZEOK (fmt_ld sz) s))) (fails T an ra) (serving T an ra)"
      by (cases st) simp_all
  qed
qed

lemma mdtm_report_serving:
  assumes "sound T an ra s" "data_fd s = -1"
  shows "ends (mdtm_report T W st s) (fails T an ra) (serving T an ra)"
  using write_serving [OF assms] by (cases st) (simp_all add: mdtm_report_def Let_def)

lemma mdtm_write_serving:
  assumes s: "sound T an ra s" "data_fd s = -1" and "access_ok T (c_str arg)" "tunable_mdtm_write T"
    "may_write T an (tunable_anon_other_write_enable T)"
  shows "ends (mdtm_write T W arg t s) (fails T an ra) (serving T an ra)"
  unfolding mdtm_write_def Let_def
proof (rule sys_stat_cases [OF s(1)], simp)
  fix st s1
  assume "kept T an ra (log_type s) s s1"
  then have s1: "sound T an ra s1" "data_fd s1 = -1" using s by (simp_all add: kept_def)
  define c where "c = SetModtime (c_str arg) (if tunable_use_localtime T then t else t - os_timezone W)"
  have "ends (case sys W c s1 of (r, s) \<Rightarrow>
      if r \<noteq> 0 then vsf_cmdio_write T W FTP_FILEFAIL ''Could not set file modification time.'' s
      else vsf_cmdio_write T W FTP_MDTMOK ''File modification time set.'' s) (fails T an ra) (serving T an ra)"
  proof (rule call_on_file [OF s1])
    show "permitted T an ra (Sys c)" using assms(3-5) by (simp add: c_def)
    fix r s2
    assume "kept T an ra (log_type s1) s1 s2"
    then have "sound T an ra s2" "data_fd s2 = -1" using s1 by (simp_all add: kept_def)
    from write_serving [OF this] show "ends (case (r, s2) of (r, s) \<Rightarrow>
      if r \<noteq> 0 then vsf_cmdio_write T W FTP_FILEFAIL ''Could not set file modification time.'' s
      else vsf_cmdio_write T W FTP_MDTMOK ''File modification time set.'' s) (fails T an ra) (serving T an ra)"
      by simp
  qed
  with write_serving [OF s1]
  show "ends (case (st, s1) of (st, s) \<Rightarrow> (case st of
      None \<Rightarrow> vsf_cmdio_write T W FTP_FILEFAIL ''Could not set file modification time.'' s
    | Some st \<Rightarrow> if \<not> st_regfile st
        then vsf_cmdio_write T W FTP_FILEFAIL ''Could not set file modification time.'' s
        else case sys W (SetModtime (c_str arg) (if tunable_use_localtime T then t else t - os_timezone W)) s of
          (r, s) \<Rightarrow> if r \<noteq> 0 then vsf_cmdio_write T W FTP_FILEFAIL ''Could not set file modification time.'' s
            else vsf_cmdio_write T W FTP_MDTMOK ''File modification time set.'' s)) (fails T an ra) (serving T an ra)"
    by (cases st) (simp_all add: c_def)
qed

lemma split_arg:
  assumes "commanded T an ra s" "s_split_char c (ftp_arg_str s) = (a, b)"
  shows "NUL \<notin> set a" "NUL \<notin> set b" "length b < VSFTP_MAX_COMMAND_LINE"
proof -
  show "NUL \<notin> set a" "NUL \<notin> set b"
    using split_char_set [of c "ftp_arg_str s"] commandedD(4) [OF assms(1)] assms(2) by auto
  have "length b \<le> length (ftp_arg_str s)"
    using assms(2) by (auto simp: s_split_char_def s_split_text_def split_at_def split: option.splits)
  with commandedD(5) [OF assms(1)] show "length b < VSFTP_MAX_COMMAND_LINE" by simp
qed

interpretation mdtm: command_handler handle_mdtm "\<lambda>T an. True"
proof
  fix T an ra s W
  assume c: "commanded T an ra s"
  obtain st s0 where s0: "sys_stat W (Stat (c_str (ftp_arg_str s))) s = (st, s0)"
    by (cases "sys_stat W (Stat (c_str (ftp_arg_str s))) s")
  have k0: "kept T an ra 0 s s0"
    using sys_stat_kept [OF commandedD(1) [OF c] _ s0] commandedD(3) [OF c] by simp
  obtain time name where sp: "s_split_char (CHR '' '') (ftp_arg_str s0) = (time, name)"
    by (cases "s_split_char (CHR '' '') (ftp_arg_str s0)")
  have c0: "commanded T an ra s0" using c k0 by (simp add: kept_def commanded_def command_text_def)
  define do_write where "do_write \<longleftrightarrow> tunable_mdtm_write T \<and> st = None \<and> mdtm_time_given (ftp_arg_str s0)"
  define s1 where "s1 = resolve_arg T W (if do_write then s0\<lparr>ftp_arg_str := name\<rparr> else s0)"
  have "commanded T an ra (if do_write then s0\<lparr>ftp_arg_str := name\<rparr> else s0)"
    using c0 split_arg [OF c0 sp] by (simp add: commanded_def command_text_def)
  note r = resolved [OF this s1_def]
  have "ends (with_access T W (ftp_arg_str s1) (\<lambda>s.
      if do_write \<and> tunable_write_enable T \<and> (tunable_anon_other_write_enable T \<or> \<not> is_anonymous s)
      then mdtm_write T W (ftp_arg_str s1) (if do_write then os_parse_time W (c_str time) else 0) s
      else mdtm_report T W st s) s1) (fails T an ra) (serving T an ra)"
  proof (rule with_access_serving [OF r(1,2)])
    assume "access_ok T (ftp_arg_str s1)"
    then have ok: "access_ok T (c_str (ftp_arg_str s1))" using r(4) by (simp add: access_ok_c_str command_text_def)
    have "is_anonymous s1 = an" using r(1) regularD(1) by blast
    then show "ends (if do_write \<and> tunable_write_enable T \<and> (tunable_anon_other_write_enable T \<or> \<not> is_anonymous s1)
      then mdtm_write T W (ftp_arg_str s1) (if do_write then os_parse_time W (c_str time) else 0) s1
      else mdtm_report T W st s1) (fails T an ra) (serving T an ra)"
      using mdtm_report_serving [OF r(1,2)] mdtm_write_serving [OF r(1,2) ok]
      by (simp add: do_write_def may_write_def)
  qed
  then show "ends (handle_mdtm T W s) (fails T an ra) (serving T an ra)"
    by (simp only: handle_mdtm_def s0 sp Let_def split_conv do_write_def [symmetric] s1_def [symmetric])
qed

subsection \<open>SITE and status\<close>

lemma set_umask_kept: "sound T an ra s \<Longrightarrow> kept T an ra (log_type s) s (vsf_sysutil_set_umask W m s)"
  by (simp add: vsf_sysutil_set_umask_def sys_def kept_def Let_def)

lemma site_chmod_serving:
  assumes c: "sound T an ra s" "data_fd s = -1" "log_type s = 0" and p: "NUL \<notin> set p"
    and may: "may_write T an False" "tunable_chmod_enable T"
  shows "ends (handle_site_chmod T W p s) (fails T an ra) (serving T an ra)"
proof -
  obtain mode fname where sp: "s_split_char (CHR '' '') p = (mode, fname)" by (cases "s_split_char (CHR '' '') p")
  have fname: "NUL \<notin> set fname" using split_char_set [of "CHR '' ''" p] p sp by auto
  obtain f s1 where f: "resolve_tilde T W fname s = (f, s1)" by (cases "resolve_tilde T W fname s")
  from resolve_tilde_kept [OF c(1) fname f] have k: "kept T an ra 0 s s1" and fn: "NUL \<notin> set f"
    using c(3) by simp_all
  then have s1: "sound T an ra s1" "data_fd s1 = -1" "log_type s1 = 0" using c by (simp_all add: kept_def)
  have "ends (start_entry W kVSFLogEntryChmod f s1) (fails T an ra) (\<lambda>s. ends
      (with_access T W f (\<lambda>s. case sys W (Chmod (c_str f) (vsf_sysutil_octal_to_uint (c_str mode) AND 0x1FF)) s of
        (r, s) \<Rightarrow> if r < 0 then vsf_cmdio_write T W FTP_FILEFAIL ''SITE CHMOD command failed.'' s
          else and_then (vsf_log_do_log T W True s) (vsf_cmdio_write T W FTP_CHMODOK ''SITE CHMOD command ok.''))
        (s\<lparr>log_str := log_str s @ '' '' @ mode\<rparr>)) (fails T an ra) (serving T an ra))"
  proof (rule start_entry_kept [OF s1(1,3)], simp, rule with_access_serving)
    fix s2
    assume k: "kept T an ra kVSFLogEntryChmod s1 s2"
    then have s2: "sound T an ra (s2\<lparr>log_str := log_str s2 @ '' '' @ mode\<rparr>)"
      "data_fd (s2\<lparr>log_str := log_str s2 @ '' '' @ mode\<rparr>) = -1"
      "log_type (s2\<lparr>log_str := log_str s2 @ '' '' @ mode\<rparr>) \<noteq> 0"
      using s1 by (simp_all add: kept_def)
    then show "sound T an ra (s2\<lparr>log_str := log_str s2 @ '' '' @ mode\<rparr>)"
      "data_fd (s2\<lparr>log_str := log_str s2 @ '' '' @ mode\<rparr>) = -1" by blast+
    assume "access_ok T f"
    then show "ends (case sys W (Chmod (c_str f) (vsf_sysutil_octal_to_uint (c_str mode) AND 0x1FF))
          (s2\<lparr>log_str := log_str s2 @ '' '' @ mode\<rparr>) of
        (r, s) \<Rightarrow> if r < 0 then vsf_cmdio_write T W FTP_FILEFAIL ''SITE CHMOD command failed.'' s
          else and_then (vsf_log_do_log T W True s) (vsf_cmdio_write T W FTP_CHMODOK ''SITE CHMOD command ok.''))
        (fails T an ra) (serving T an ra)"
      by (intro logged_call [OF s2]) (use may fn in \<open>simp add: access_ok_c_str\<close>)
  qed
  with write_serving [OF c(1,2)] show ?thesis
    by (simp add: handle_site_chmod_def sp f Let_def ends_and_then)
qed

interpretation site: command_handler handle_site "\<lambda>T an. \<not> an"
proof
  fix T an ra s W
  assume an: "\<not> an" and c: "commanded T an ra s"
  obtain cmd args where sp: "s_split_char (CHR '' '') (ftp_arg_str s) = (cmd, args)"
    by (cases "s_split_char (CHR '' '') (ftp_arg_str s)")
  define u where "u = s_upper cmd"
  define s1 where "s1 = s\<lparr>ftp_arg_str := u\<rparr>"
  have s1: "sound T an ra s1" "data_fd s1 = -1" "log_type s1 = 0"
    using c by (simp_all add: s1_def commanded_def)
  have chmod: "ends (handle_site_chmod T W args s1) (fails T an ra) (serving T an ra)"
    if "tunable_write_enable T" "tunable_chmod_enable T"
    by (rule site_chmod_serving [OF s1 split_arg(2) [OF c sp]]) (use that an in \<open>simp_all add: may_write_def\<close>)
  have "ends (handle_site_umask T W args s1) (fails T an ra) (serving T an ra)"
    using write_serving [OF s1(1,2)] set_umask_kept [OF s1(1)] s1
    by (auto simp: handle_site_umask_def Let_def kept_def intro!: write_serving)
  with write_serving [OF s1(1,2)] chmod show "ends (handle_site T W s) (fails T an ra) (serving T an ra)"
    unfolding handle_site_def sp Let_def split_conv u_def [symmetric] s1_def [symmetric] by auto
qed

text \<open>A first line, raw lines, a last line.\<close>

lemma lines_serving:
  assumes "commanded T an ra s" "\<And>s1. kept T an ra 0 s s1 \<Longrightarrow> \<forall>l \<in> set (ls s1). c_str l \<noteq> []"
  shows "ends (and_then (vsf_cmdio_write_hyphen T W n t s) (\<lambda>s. and_then (write_raws T W (ls s) s)
    (\<lambda>s. vsf_cmdio_write T W m u s))) (fails T an ra) (serving T an ra)"
  unfolding ends_and_then
proof (rule write_kept(2) [OF commandedD(1) [OF assms(1)]])
  fix s1
  assume k1: "kept T an ra (log_type s) s s1"
  then have k1': "kept T an ra 0 s s1" using assms(1) by (simp add: commanded_def)
  show "ends (write_raws T W (ls s1) s1) (fails T an ra)
      (\<lambda>s. ends (vsf_cmdio_write T W m u s) (fails T an ra) (serving T an ra))"
  proof (rule write_raws_kept [OF kept_sound [OF k1]])
    fix s2
    assume "kept T an ra (log_type s1) s1 s2"
    then show "ends (vsf_cmdio_write T W m u s2) (fails T an ra) (serving T an ra)"
      by (intro write_serving) (use k1 commandedD(2) [OF assms(1)] in \<open>simp_all add: kept_def\<close>)
  qed (use assms(2) k1' in blast)
qed

lemma c_str_nonempty: "t \<noteq> [] \<Longrightarrow> NUL \<notin> set t \<Longrightarrow> c_str t \<noteq> []"
  by (simp add: c_str_id)

lemma c_str_Cons [simp]: "c_str (c # t) = [] \<longleftrightarrow> c = NUL"
  by (simp add: c_str_def)

interpretation help_cmd: command_handler handle_help "\<lambda>T an. True"
  by unfold_locales
    (unfold handle_help_def, rule lines_serving, simp_all add: help_lines_def)

lemma ulong_not_empty [simp]: "c_str (vsf_sysutil_ulong_to_str n) \<noteq> []"
  unfolding vsf_sysutil_ulong_to_str_def fmt_lu_def by (rule c_str_nonempty) (simp_all add: digits_of_no_NUL)

interpretation stat: command_handler handle_stat "\<lambda>T an. True"
proof
  fix T an ra s W
  assume c: "commanded T an ra s"
  show "ends (handle_stat T W s) (fails T an ra) (serving T an ra)"
    unfolding handle_stat_def
  proof (rule lines_serving [OF c])
    fix s1
    assume "kept T an ra 0 s s1"
    then have "regular T an ra s1" by (simp add: kept_def)
    then show "\<forall>l \<in> set (stat_texts T s1). c_str l \<noteq> []"
      using regularD(10,11) [of T an ra s1] unfolding list_all_iff [symmetric] by (simp add: stat_texts_def)
  qed
qed

lemma feat_texts: "list_all (\<lambda>l. c_str l \<noteq> []) (feat_lines T)"
  by (simp add: feat_lines_def)

interpretation feat: command_handler handle_feat "\<lambda>T an. True"
  by unfold_locales
    (unfold handle_feat_def, rule lines_serving, use feat_texts in \<open>simp_all add: list_all_iff\<close>)

interpretation opts: command_handler handle_opts "\<lambda>T an. True"
  by unfold_locales (auto simp: handle_opts_def Let_def commanded_def intro!: write_serving)

interpretation fixed: command_handler "\<lambda>T W. fixed_argument T W arg good good_msg bad bad_msg" "\<lambda>T an. True"
  for arg good good_msg bad bad_msg
  by unfold_locales (auto simp: fixed_argument_def Let_def commanded_def intro!: write_serving)

interpretation user_cmd: command_handler handle_logged_in_user "\<lambda>T an. True"
  by unfold_locales (auto simp: handle_logged_in_user_def commanded_def intro!: write_serving)

interpretation pass_cmd: command_handler handle_logged_in_pass "\<lambda>T an. True"
  by unfold_locales (auto simp: handle_logged_in_pass_def commanded_def intro!: write_serving)

subsection \<open>PASV, PORT and EPRT\<close>

lemma epsv_argument_kept:
  assumes "sound T an ra s" "data_fd s = -1"
  shows "ends (epsv_argument T W s) (fails T an ra) (\<lambda>(b, s'). serving T an ra s')"
proof -
  have reply: "ends (and_then (vsf_cmdio_write T W n t s') (\<lambda>s. Inr (True, s))) (fails T an ra)
      (\<lambda>(b, s'). serving T an ra s')" if "sound T an ra s'" "data_fd s' = -1" for n t s'
    unfolding ends_and_then using write_serving(1) [OF that] by simp
  from assms show ?thesis
    by (auto simp: epsv_argument_def Let_def intro!: reply)
qed

text \<open>Any open port or listener is dropped first.\<close>

lemma fresh_connection:
  assumes "sound T an ra s" "data_fd s = -1"
    "\<And>s'. serving T an ra s' \<Longrightarrow> \<not> some_active T s' \<Longrightarrow> ftp_arg_str s' = ftp_arg_str s \<Longrightarrow>
      ends (k s') (fails T an ra) (serving T an ra)"
  shows "ends (and_then (pasv_cleanup T W (port_cleanup s)) k) (fails T an ra) (serving T an ra)"
    "ends (and_then (pasv_cleanup T W s) (\<lambda>s. k (port_cleanup s))) (fails T an ra) (serving T an ra)"
proof -
  show "ends (and_then (pasv_cleanup T W (port_cleanup s)) k) (fails T an ra) (serving T an ra)"
    unfolding ends_and_then port_cleanup_def
    by (rule pasv_cleanup_kept)
      (use assms in \<open>auto simp: kept_def intro!: assms(3) regular_set\<close>)
  show "ends (and_then (pasv_cleanup T W s) (\<lambda>s. k (port_cleanup s))) (fails T an ra) (serving T an ra)"
    unfolding ends_and_then port_cleanup_def
    by (rule pasv_cleanup_kept)
      (use assms in \<open>auto simp: kept_def intro!: assms(3) regular_set\<close>)
qed

lemma listen_kept:
  assumes "sound T an ra s" "\<not> some_active T s"
    "\<And>port s'. fst (port_range T) \<le> port \<Longrightarrow> port \<le> snd (port_range T) \<Longrightarrow> sound T an ra s' \<Longrightarrow>
      data_fd s' = data_fd s \<Longrightarrow> Q (port, s')"
  shows "ends (if tunable_one_process_model T then vsf_one_process_listen T W s
    else vsf_two_process_listen T W s) (fails T an ra) Q"
proof -
  have Q: "Q (port, set_listen_fd (proc_of T) fd (s\<lparr>trace := es @ trace s\<rparr>))"
    if "list_all (permitted T an ra) es" "fst (port_range T) \<le> port" "port \<le> snd (port_range T)" for es fd port
    by (rule assms(3)) (use that assms(1,2) in \<open>auto intro!: regular_listen\<close>)
  from assms(1,2) Q show ?thesis
    by (cases "tunable_one_process_model T")
      (auto simp: vsf_one_process_listen_def proc_of_def intro!: privop_pasv_listen_ends two_process_listen_ends)
qed

lemma pasv_report_addr_kept:
  assumes "sound T an ra s" "\<And>a. Q a"
  shows "ends (pasv_report_addr T W s) (fails T an ra) Q"
proof -
  from assms(1) have "p_local_addr s \<noteq> Sa_Other" using regularD(4) by blast
  with assms show ?thesis
    by (cases "p_local_addr s")
      (auto simp: pasv_report_addr_def vsf_sysutil_sockaddr_clone_def lifted_def env_dies_def
        intro!: die_ends split: option.split)
qed

interpretation pasv: command_handler "\<lambda>T W. handle_pasv T W is_epsv" "\<lambda>T an. True" for is_epsv
proof
  fix T an ra s W
  assume c: "commanded T an ra s"
  have listen: "ends (and_then (if tunable_one_process_model T then vsf_one_process_listen T W s1
        else vsf_two_process_listen T W s1) (\<lambda>(the_port, s).
      if is_epsv then
        vsf_cmdio_write_str T W FTP_EPSVOK (''Entering Extended Passive Mode (|||'' @ fmt_lu the_port @ ''|)'') s
      else and_then (pasv_report_addr T W s) (\<lambda>a.
        vsf_cmdio_write_str T W FTP_PASVOK
          (pasv_reply W (vsf_sysutil_sockaddr_is_ipv6 (p_local_addr s)) a the_port) s)))
      (fails T an ra) (serving T an ra)" if "serving T an ra s1" "\<not> some_active T s1" for s1
    unfolding ends_and_then
  proof (rule listen_kept)
    fix port s2
    assume "sound T an ra s2" "data_fd s2 = data_fd s1"
    with that have s2: "sound T an ra s2" "data_fd s2 = -1" by simp_all
    have "ends (pasv_report_addr T W s2) (fails T an ra) (\<lambda>a. ends
        (vsf_cmdio_write_str T W FTP_PASVOK
          (pasv_reply W (vsf_sysutil_sockaddr_is_ipv6 (p_local_addr s2)) a port) s2) (fails T an ra) (serving T an ra))"
      by (rule pasv_report_addr_kept [OF s2(1)]) (rule write_serving [OF s2])
    with write_serving [OF s2] show "ends (case (port, s2) of (the_port, s) \<Rightarrow>
      if is_epsv then
        vsf_cmdio_write_str T W FTP_EPSVOK (''Entering Extended Passive Mode (|||'' @ fmt_lu the_port @ ''|)'') s
      else and_then (pasv_report_addr T W s) (\<lambda>a.
        vsf_cmdio_write_str T W FTP_PASVOK
          (pasv_reply W (vsf_sysutil_sockaddr_is_ipv6 (p_local_addr s)) a the_port) s))
      (fails T an ra) (serving T an ra)" by (simp add: ends_and_then)
  qed (use that in simp_all)
  show "ends (handle_pasv T W is_epsv s) (fails T an ra) (serving T an ra)"
    unfolding handle_pasv_def
  proof (rule ends_bindI)
    show "ends (if is_epsv \<and> ftp_arg_str s \<noteq> [] then epsv_argument T W s else Inr (False, s))
        (fails T an ra) (\<lambda>(b, s'). serving T an ra s')"
      using epsv_argument_kept [OF commandedD(1,2) [OF c]] c by (simp add: commanded_def)
    fix x :: "bool \<times> vsf_session"
    assume x: "case x of (b, s') \<Rightarrow> serving T an ra s'"
    obtain b s1 where x1: "x = (b, s1)" by (cases x)
    with x have s1: "sound T an ra s1" "data_fd s1 = -1" by simp_all
    show "ends (case x of (done, s) \<Rightarrow> if done then Inr s
      else and_then (pasv_cleanup T W s) (\<lambda>s.
        let s = port_cleanup s in
        and_then (if tunable_one_process_model T then vsf_one_process_listen T W s
                  else vsf_two_process_listen T W s) (\<lambda>(the_port, s).
        if is_epsv then
          vsf_cmdio_write_str T W FTP_EPSVOK (''Entering Extended Passive Mode (|||'' @ fmt_lu the_port @ ''|)'') s
        else and_then (pasv_report_addr T W s) (\<lambda>a.
          vsf_cmdio_write_str T W FTP_PASVOK
            (pasv_reply W (vsf_sysutil_sockaddr_is_ipv6 (p_local_addr s)) a the_port) s))))
      (fails T an ra) (serving T an ra)"
      unfolding x1 split_conv Let_def
      using fresh_connection(2) [OF s1 listen] s1 by (cases b) simp_all
  qed
qed

lemma accept_port_serving:
  assumes "sound T an ra s" "data_fd s = -1" "\<not> some_active T s" "a \<noteq> Sa_Other"
  shows "ends (accept_port T W a port bad good s) (fails T an ra) (serving T an ra)"
proof -
  have ra: "p_remote_addr s = ra" using assms(1) regularD(2) by blast
  have bad: "ends (and_then (vsf_cmdio_write T W FTP_BADCMD bad (s\<lparr>p_port_sockaddr := Some a\<rparr>))
      (\<lambda>s. Inr (port_cleanup s))) (fails T an ra) (serving T an ra)"
    unfolding ends_and_then
    by (rule write_ends) (use assms in \<open>auto simp: port_cleanup_def intro: regular_set\<close>)
  have "ends (vsf_cmdio_write T W FTP_PORTOK good (s\<lparr>p_port_sockaddr := Some a\<rparr>)) (fails T an ra) (serving T an ra)"
    if "tunable_port_promiscuous T \<or> vsf_sysutil_sockaddr_addr_equal ra a"
    by (rule write_serving) (use that assms in \<open>auto intro: regular_set\<close>)
  with bad ra show ?thesis by (auto simp: accept_port_def Let_def)
qed

lemma uchar_loop_length:
  "parse_uchar_loop s sep n acc = Some r \<Longrightarrow> length r = n + length acc"
  by (induction s sep n acc rule: parse_uchar_loop.induct)
    (auto simp: Let_def split: if_splits prod.splits option.splits)

text \<open>The address of a command with an IPv4 session.\<close>

lemma command_addr:
  assumes "p_local_addr s = Sa_In a0 p0" "4 \<le> length raw"
  shows "lifted s (bind_res (vsf_sysutil_sockaddr_clone (p_local_addr s)) (\<lambda>a.
      bind_res (vsf_sysutil_sockaddr_set_ipv4addr a raw) (\<lambda>a. vsf_sysutil_sockaddr_set_port a port))) =
    Inr (Sa_In (take 4 raw) port)"
  using assms by (simp add: lifted_def vsf_sysutil_sockaddr_clone_def vsf_sysutil_sockaddr_set_ipv4addr_def
      sa_copy_def vsf_sysutil_sockaddr_set_port_def)

interpretation port_cmd: command_handler handle_port "\<lambda>T an. True"
proof
  fix T an ra s W
  assume c: "commanded T an ra s"
  show "ends (handle_port T W s) (fails T an ra) (serving T an ra)"
    unfolding handle_port_def Let_def
  proof (rule fresh_connection(2) [OF commandedD(1,2) [OF c]])
    fix s1
    assume s1: "serving T an ra s1" "\<not> some_active T s1"
    then have ok: "sound T an ra s1" "data_fd s1 = -1" by simp_all
    from s1 obtain a0 p0 where la: "p_local_addr s1 = Sa_In a0 p0" by (auto simp: regular_def)
    show "ends (case vsf_sysutil_parse_uchar_string_sep (ftp_arg_str s1) (CHR '','') 6 of
        None \<Rightarrow> vsf_cmdio_write T W FTP_BADCMD ''Illegal PORT command.'' s1
      | Some vals \<Rightarrow> and_then (lifted s1
            (bind_res (vsf_sysutil_sockaddr_clone (p_local_addr s1)) (\<lambda>a.
             bind_res (vsf_sysutil_sockaddr_set_ipv4addr a vals) (\<lambda>a.
             vsf_sysutil_sockaddr_set_port a (of_char (vals ! 4) * 256 + of_char (vals ! 5)))))) (\<lambda>a.
          accept_port T W a (of_char (vals ! 4) * 256 + of_char (vals ! 5)) ''Illegal PORT command.''
            ''PORT command successful. Consider using PASV.'' s1)) (fails T an ra) (serving T an ra)"
    proof (cases "vsf_sysutil_parse_uchar_string_sep (ftp_arg_str s1) (CHR '','') 6")
      case (Some vals)
      then have "4 \<le> length vals"
        by (auto simp: vsf_sysutil_parse_uchar_string_sep_def dest: uchar_loop_length)
      from command_addr [OF la this] accept_port_serving [OF ok s1(2)] Some show ?thesis by simp
    qed (use write_serving [OF ok] in simp)
  qed
qed

lemma eprt_fields_ipv4:
  assumes "eprt_fields False arg = Inr (proto, raw, port)"
  shows "proto = 1 \<and> 4 \<le> length raw"
  using assms
  by (auto simp: eprt_fields_def Let_def vsf_sysutil_parse_ipv4_def vsf_sysutil_parse_uchar_string_sep_def
      dest!: uchar_loop_length split: if_splits prod.splits option.splits)

interpretation eprt: command_handler handle_eprt "\<lambda>T an. True"
proof
  fix T an ra s W
  assume c: "commanded T an ra s"
  show "ends (handle_eprt T W s) (fails T an ra) (serving T an ra)"
    unfolding handle_eprt_def
  proof (rule fresh_connection(1) [OF commandedD(1,2) [OF c]])
    fix s1
    assume s1: "serving T an ra s1" "\<not> some_active T s1"
    then have ok: "sound T an ra s1" "data_fd s1 = -1" by simp_all
    from s1 obtain a0 p0 where la: "p_local_addr s1 = Sa_In a0 p0" by (auto simp: regular_def)
    then have v4: "vsf_sysutil_sockaddr_is_ipv6 (p_local_addr s1) = False"
      by (simp add: vsf_sysutil_sockaddr_is_ipv6_def)
    show "ends (case eprt_fields (vsf_sysutil_sockaddr_is_ipv6 (p_local_addr s1)) (ftp_arg_str s1) of
        Inl msg \<Rightarrow> vsf_cmdio_write T W FTP_BADCMD msg s1
      | Inr (proto, raw, port) \<Rightarrow>
          and_then (lifted s1
            (bind_res (vsf_sysutil_sockaddr_clone (p_local_addr s1)) (\<lambda>a.
             bind_res (if proto = 2 then vsf_sysutil_sockaddr_set_ipv6addr a raw
                       else vsf_sysutil_sockaddr_set_ipv4addr a raw) (\<lambda>a.
             vsf_sysutil_sockaddr_set_port a port)))) (\<lambda>a.
          accept_port T W a port ''Illegal EPRT command.''
            ''EPRT command successful. Consider using EPSV.'' s1)) (fails T an ra) (serving T an ra)"
    proof (cases "eprt_fields False (ftp_arg_str s1)")
      case (Inr x)
      obtain proto raw port where x: "x = (proto, raw, port)" by (cases x)
      from eprt_fields_ipv4 [of "ftp_arg_str s1" proto raw port] Inr x have "proto = 1" "4 \<le> length raw" by simp_all
      with command_addr [OF la] accept_port_serving [OF ok s1(2)] Inr x show ?thesis by (simp add: v4)
    qed (use write_serving [OF ok] in \<open>simp add: v4\<close>)
  qed
qed

end
