(* ===== verification/Vsf_Transfers.thy ===== *)
theory Vsf_Transfers
  imports Vsf_Handlers
begin

text \<open>
  The contract of \<open>Vsf_Handlers\<close> for the commands that transfer something: RETR, also as the answer to an
  HTTP request, the uploads and the listings. A handler closes the data connection and drops the port or
  listener in every branch behind the connection.
\<close>

subsection \<open>Downloads\<close>

text \<open>The end of a transfer: the entry is logged if all went well, and answered.\<close>

lemma transfer_done:
  assumes "sound T an ra s" "log_type s \<noteq> 0"
    "\<And>s'. sound T an ra s' \<Longrightarrow> data_fd s' = data_fd s \<Longrightarrow> ends (k s') (fails T an ra) Q"
  shows "ends (and_then (if b then vsf_log_do_log T W True s else Inr s) k) (fails T an ra) Q"
proof (cases b)
  case True
  then show ?thesis
    unfolding ends_and_then
    by (simp, intro do_log_kept [OF assms(1,2)]) (rule assms(3), simp_all add: kept_def)
qed (use assms(3) [OF assms(1)] in simp)

lemma then_check:
  assumes "ends m (fails T an ra) (\<lambda>s'. \<exists>d. kept T an ra (log_type s) (s\<lparr>tpms_decoder := d\<rparr>) s')"
    "\<And>s'. sound T an ra s' \<Longrightarrow> data_fd s' = data_fd s \<Longrightarrow> ends (k s') (fails T an ra) Q"
  shows "ends (and_then m (\<lambda>s. and_then (check_abor T W s) k)) (fails T an ra) Q"
proof (rule ends_bindI [OF assms(1)])
  fix s1
  assume "\<exists>d. kept T an ra (log_type s) (s\<lparr>tpms_decoder := d\<rparr>) s1"
  then obtain d where k1: "kept T an ra (log_type s) (s\<lparr>tpms_decoder := d\<rparr>) s1" by blast
  show "ends (and_then (check_abor T W s1) k) (fails T an ra) Q"
    unfolding ends_and_then
    by (rule check_abor_kept [OF kept_sound [OF k1]], rule assms(2)) (use k1 in \<open>simp_all add: kept_def\<close>)
qed

lemma reply_and_check:
  assumes "sound T an ra s"
    "\<And>s'. sound T an ra s' \<Longrightarrow> data_fd s' = data_fd s \<Longrightarrow> ends (k s') (fails T an ra) Q"
  shows "ends (and_then (transfer_reply T W m1 m2 r s) (\<lambda>s. and_then (check_abor T W s) k)) (fails T an ra) Q"
proof (rule then_check [OF transfer_reply_kept [OF assms(1)] assms(2)])
  show "\<exists>d. kept T an ra (log_type s) (s\<lparr>tpms_decoder := d\<rparr>) s'" if "kept T an ra (log_type s) s s'" for s'
    using that by (auto simp: kept_def)
qed

lemma cleanup_serving:
  assumes "sound T an ra s" "data_fd s = -1"
  shows "ends (port_pasv_cleanup T W s) (fails T an ra) (serving T an ra)"
  by (rule port_pasv_cleanup_kept [OF assms(1)]) (use assms(2) in \<open>simp add: kept_def\<close>)

lemma retr_finish_serving:
  assumes "sound T an ra s" "log_type s \<noteq> 0" "data_fd s \<noteq> -1 \<longleftrightarrow> \<not> http"
  shows "ends (retr_finish T W http tr s) (fails T an ra) (serving T an ra)"
  unfolding retr_finish_def Let_def
proof (rule ends_bindI)
  define P where "P = (\<lambda>(r::int, s'). sound T an ra s' \<and> log_type s' \<noteq> 0 \<and> data_fd s' = -1)"
  show "ends (if http then Inr (retval tr, s)
      else and_then (vsf_ftpdataio_dispose_transfer_fd T W s) (\<lambda>(d, s).
        Inr (if d \<noteq> 1 \<and> retval tr = 0 then -2 else retval tr, s))) (fails T an ra) P"
    using assms by (auto simp: ends_and_then P_def kept_def intro!: dispose_kept)
  fix x
  assume x: "P x"
  obtain r s1 where x1: "x = (r, s1)" by (cases x)
  define s2 where "s2 = s1\<lparr>transfer_size := int (transferred tr)\<rparr>"
  have s2: "sound T an ra s2" "log_type s2 \<noteq> 0" "data_fd s2 = -1" using x x1 by (simp_all add: s2_def P_def)
  have "ends (and_then (if r = 0 then vsf_log_do_log T W True s2 else Inr s2) (\<lambda>s.
      if http then Inr s
      else and_then (transfer_reply T W ''Failure reading local file.'' ''Failure writing network stream.'' r s)
        (\<lambda>s. and_then (check_abor T W s) (\<lambda>s. port_pasv_cleanup T W s)))) (fails T an ra) (serving T an ra)"
  proof (rule transfer_done [OF s2(1,2)])
    fix s3
    assume s3: "sound T an ra s3" "data_fd s3 = data_fd s2"
    have "ends (and_then (transfer_reply T W ''Failure reading local file.'' ''Failure writing network stream.'' r s3)
        (\<lambda>s. and_then (check_abor T W s) (\<lambda>s. port_pasv_cleanup T W s))) (fails T an ra) (serving T an ra)"
      by (rule reply_and_check [OF s3(1)], rule cleanup_serving) (use s3 s2 in simp_all)
    with s3 s2 show "ends (if http then Inr s3
      else and_then (transfer_reply T W ''Failure reading local file.'' ''Failure writing network stream.'' r s3)
        (\<lambda>s. and_then (check_abor T W s) (\<lambda>s. port_pasv_cleanup T W s))) (fails T an ra) (serving T an ra)"
      by simp
  qed
  then show "ends (case x of (r, s) \<Rightarrow>
      and_then (if r = 0 then vsf_log_do_log T W True (s\<lparr>transfer_size := int (transferred tr)\<rparr>)
        else Inr (s\<lparr>transfer_size := int (transferred tr)\<rparr>)) (\<lambda>s.
      if http then Inr s
      else and_then (transfer_reply T W ''Failure reading local file.'' ''Failure writing network stream.'' r s)
        (\<lambda>s. and_then (check_abor T W s) (\<lambda>s. port_pasv_cleanup T W s)))) (fails T an ra) (serving T an ra)"
    by (simp only: x1 s2_def split_conv)
qed

lemma retr_send_serving:
  assumes s: "sound T an ra s" "log_type s \<noteq> 0" "data_fd s = -1" and "0 \<le> offset" "http \<or> some_active T s"
  shows "ends (retr_send T W http fd offset st s) (fails T an ra) (serving T an ra)"
  unfolding retr_send_def
proof (rule ends_bindI)
  show "ends (if offset \<noteq> 0 then vsf_sysutil_lseek_to W fd offset s else Inr s) (fails T an ra)
      (kept T an ra (log_type s) s)"
    using assms kept_refl [OF s(1)] by (auto intro!: lseek_kept)
  fix s1
  assume k1: "kept T an ra (log_type s) s s1"
  then have s1: "sound T an ra s1" "log_type s1 \<noteq> 0" "data_fd s1 = -1" "http \<or> some_active T s1"
    using assms by (simp_all add: kept_def)
  show "ends (and_then (retr_mark T st s1) (\<lambda>mark.
      and_then (if http then Inr (0, s1) else get_remote_transfer_fd T W (c_str mark) s1) (\<lambda>(remote_fd, s).
      if remote_fd < 0 then port_pasv_cleanup T W s
      else
        and_then (vsf_ftpdataio_transfer_file T W remote_fd fd False
                    (tunable_ascii_download_enable T \<and> is_ascii s) s) (\<lambda>(tr, s).
        retr_finish T W http tr s)))) (fails T an ra) (serving T an ra)"
  proof (rule ends_bindI)
    show "ends (retr_mark T st s1) (fails T an ra) (\<lambda>_. True)"
      unfolding retr_mark_def ends_and_then by (rule get_size_kept [OF s1(1)]) simp
    fix mark
    show "ends (and_then (if http then Inr (0, s1) else get_remote_transfer_fd T W (c_str mark) s1) (\<lambda>(remote_fd, s).
      if remote_fd < 0 then port_pasv_cleanup T W s
      else
        and_then (vsf_ftpdataio_transfer_file T W remote_fd fd False
                    (tunable_ascii_download_enable T \<and> is_ascii s) s) (\<lambda>(tr, s).
        retr_finish T W http tr s))) (fails T an ra) (serving T an ra)"
    proof (rule ends_bindI)
      define P where "P = (\<lambda>(f::int, s'). sound T an ra s' \<and> log_type s' \<noteq> 0 \<and>
        (if f < 0 then data_fd s' = -1 else data_fd s' \<noteq> -1 \<longleftrightarrow> \<not> http))"
      show "ends (if http then Inr (0, s1) else get_remote_transfer_fd T W (c_str mark) s1) (fails T an ra) P"
        using s1 by (auto simp: P_def kept_def intro!: remote_transfer_fd_kept)
      fix x
      assume x: "P x"
      obtain f s2 where x1: "x = (f, s2)" by (cases x)
      with x have s2: "sound T an ra s2" "log_type s2 \<noteq> 0" and
        f: "f < 0 \<Longrightarrow> data_fd s2 = -1" "\<not> f < 0 \<Longrightarrow> data_fd s2 \<noteq> -1 \<longleftrightarrow> \<not> http"
        by (auto simp: P_def)
      have "ends (and_then (vsf_ftpdataio_transfer_file T W f fd False
          (tunable_ascii_download_enable T \<and> is_ascii s2) s2) (\<lambda>(tr, s).
          retr_finish T W http tr s)) (fails T an ra) (serving T an ra)" if "\<not> f < 0"
        unfolding ends_and_then
        by (rule transfer_file_kept [OF s2(1)])
          (use s2 f(2) [OF that] in \<open>auto simp: kept_def intro!: retr_finish_serving\<close>)
      with cleanup_serving [OF s2(1) f(1)]
      show "ends (case x of (remote_fd, s) \<Rightarrow>
        if remote_fd < 0 then port_pasv_cleanup T W s
        else
          and_then (vsf_ftpdataio_transfer_file T W remote_fd fd False
                      (tunable_ascii_download_enable T \<and> is_ascii s) s) (\<lambda>(tr, s).
          retr_finish T W http tr s)) (fails T an ra) (serving T an ra)"
        by (simp add: x1)
    qed
  qed
qed

lemma close_serving:
  assumes "serving T an ra s"
  shows "ends (sys_or_die W ''close'' (CloseFd fd) s) (fails T an ra) (serving T an ra)"
  by (rule sys_or_die_kept) (use assms in \<open>simp_all add: env_dies_def kept_def\<close>)

lemma maybe_sys_kept:
  assumes "sound T an ra s" "permitted T an ra (Sys c)"
  shows "kept T an ra (log_type s) s (if b then snd (sys W c s) else s)"
  using assms kept_refl [OF assms(1)] by (simp add: sys_def kept_def)

lemma retr_opened_serving:
  assumes s: "sound T an ra s" "log_type s \<noteq> 0" "data_fd s = -1" and "0 \<le> offset" "http \<or> some_active T s"
  shows "ends (retr_opened T W http fd offset s) (fails T an ra) (serving T an ra)"
proof -
  define s1 where "s1 = (if tunable_lock_upload_files T then snd (sys W (LockRead fd) s) else s)"
  have k1: "kept T an ra (log_type s) s s1" unfolding s1_def by (rule maybe_sys_kept [OF s(1)]) simp
  show ?thesis
    unfolding retr_opened_def Let_def s1_def [symmetric]
  proof (rule ends_bind2I)
    show "ends (vsf_sysutil_fstat W fd s1) (fails T an ra) (\<lambda>(st, s2). kept T an ra (log_type s1) s1 s2)"
      by (rule fstat_kept [OF kept_sound [OF k1]]) simp
    fix st :: statbuf and s2
    assume "kept T an ra (log_type s1) s1 s2"
    with k1 assms have s2: "sound T an ra s2" "log_type s2 \<noteq> 0" "data_fd s2 = -1" "http \<or> some_active T s2"
      by (simp_all add: kept_def)
    have "ends (vsf_cmdio_write T W FTP_FILEFAIL ''Failed to open file.'' s2) (fails T an ra)
        (\<lambda>s. serving T an ra (if st_dir st then vsf_log_clear_entry s else s))"
      by (rule write_kept [OF s2(1)])
        (use s2 in \<open>auto simp: kept_def vsf_log_clear_entry_def intro: regular_set\<close>)
    moreover have "ends (sys_or_die W ''fcntl'' (DeactivateNoblock fd) s2) (fails T an ra)
        (\<lambda>s. ends (if is_anonymous s \<and> tunable_anon_world_readable_only T \<and> \<not> st_readable_other st
          then vsf_cmdio_write T W FTP_FILEFAIL ''Failed to open file.'' s
          else retr_send T W http fd offset st s) (fails T an ra) (serving T an ra))"
    proof (rule sys_or_die_kept [OF s2(1)])
      fix s3
      assume "kept T an ra (log_type s2) s2 s3"
      with s2 have s3: "sound T an ra s3" "log_type s3 \<noteq> 0" "data_fd s3 = -1" "http \<or> some_active T s3"
        by (simp_all add: kept_def)
      from write_serving [OF s3(1,3)] retr_send_serving [OF s3(1-3) assms(4) s3(4)]
      show "ends (if is_anonymous s3 \<and> tunable_anon_world_readable_only T \<and> \<not> st_readable_other st
          then vsf_cmdio_write T W FTP_FILEFAIL ''Failed to open file.'' s3
          else retr_send T W http fd offset st s3) (fails T an ra) (serving T an ra)"
        by simp
    qed (simp_all add: env_dies_def)
    ultimately have "ends (if \<not> st_regfile st then
           and_then (vsf_cmdio_write T W FTP_FILEFAIL ''Failed to open file.'' s2) (\<lambda>s.
           Inr (if st_dir st then vsf_log_clear_entry s else s))
         else
           and_then (sys_or_die W ''fcntl'' (DeactivateNoblock fd) s2) (\<lambda>s.
           if is_anonymous s \<and> tunable_anon_world_readable_only T \<and> \<not> st_readable_other st
           then vsf_cmdio_write T W FTP_FILEFAIL ''Failed to open file.'' s
           else retr_send T W http fd offset st s)) (fails T an ra) (serving T an ra)"
      by (simp only: ends_and_then ends_if ends_values if_True if_False split: if_split) blast
    then show "ends (case (st, s2) of (st, s) \<Rightarrow> and_then
        (if \<not> st_regfile st then
           and_then (vsf_cmdio_write T W FTP_FILEFAIL ''Failed to open file.'' s) (\<lambda>s.
           Inr (if st_dir st then vsf_log_clear_entry s else s))
         else
           and_then (sys_or_die W ''fcntl'' (DeactivateNoblock fd) s) (\<lambda>s.
           if is_anonymous s \<and> tunable_anon_world_readable_only T \<and> \<not> st_readable_other st
           then vsf_cmdio_write T W FTP_FILEFAIL ''Failed to open file.'' s
           else retr_send T W http fd offset st s)) (\<lambda>s.
      sys_or_die W ''close'' (CloseFd fd) s)) (fails T an ra) (serving T an ra)"
      unfolding split_conv by (rule ends_bindI) (rule close_serving)
  qed
qed

interpretation retr: command_handler "\<lambda>T W. handle_retr T W http" "\<lambda>T an. tunable_download_enable T" for http
proof
  fix T an ra s W
  assume dl: "tunable_download_enable T" and c: "commanded T an ra s"
  define s0 where "s0 = s\<lparr>restart_pos := 0\<rparr>"
  have s0: "commanded T an ra s0" using c by (auto simp: s0_def commanded_def intro: regular_set)
  have "regular T an ra s" using c by (simp add: commanded_def)
  then have off: "0 \<le> restart_pos s" by (rule regularD(6))
  have main: "ends (and_then (start_entry W kVSFLogEntryDownload (ftp_arg_str (resolve_arg T W s1)) (resolve_arg T W s1))
      (with_access T W (ftp_arg_str (resolve_arg T W s1)) (\<lambda>s'.
        case sys W (OpenRead (c_str (ftp_arg_str (resolve_arg T W s1)))) s' of (fd, s') \<Rightarrow>
          if fd < 0 then vsf_cmdio_write T W FTP_FILEFAIL ''Failed to open file.'' s'
          else retr_opened T W http fd (restart_pos s) s'))) (fails T an ra) (serving T an ra)"
    if c1: "commanded T an ra s1" and active: "http \<or> some_active T s1" for s1
  proof (rule file_command [OF c1], simp)
    define arg where "arg = ftp_arg_str (resolve_arg T W s1)"
    fix s2
    assume s2: "sound T an ra s2" "data_fd s2 = -1" "log_type s2 = kVSFLogEntryDownload"
      "NUL \<notin> set (ftp_arg_str (resolve_arg T W s1))" "access_ok T (ftp_arg_str (resolve_arg T W s1))"
      "some_active T s2 \<longleftrightarrow> some_active T s1"
    show "ends (case sys W (OpenRead (c_str (ftp_arg_str (resolve_arg T W s1)))) s2 of (fd, s') \<Rightarrow>
        if fd < 0 then vsf_cmdio_write T W FTP_FILEFAIL ''Failed to open file.'' s'
        else retr_opened T W http fd (restart_pos s) s') (fails T an ra) (serving T an ra)"
      unfolding arg_def [symmetric]
    proof (rule call_on_file [OF s2(1,2)])
      show "permitted T an ra (Sys (OpenRead (c_str arg)))"
        using s2(4,5) dl by (simp add: access_ok_c_str arg_def)
      fix fd s3
      assume "kept T an ra (log_type s2) s2 s3"
      with s2 active have s3: "sound T an ra s3" "log_type s3 \<noteq> 0" "data_fd s3 = -1" "http \<or> some_active T s3"
        by (simp_all add: kept_def)
      from write_serving [OF s3(1,3)] retr_opened_serving [OF s3(1-3) off s3(4)]
      show "ends (case (fd, s3) of (fd, s') \<Rightarrow>
        if fd < 0 then vsf_cmdio_write T W FTP_FILEFAIL ''Failed to open file.'' s'
        else retr_opened T W http fd (restart_pos s) s') (fails T an ra) (serving T an ra)"
        by simp
    qed
  qed simp
  show "ends (handle_retr T W http s) (fails T an ra) (serving T an ra)"
    unfolding handle_retr_def Let_def s0_def [symmetric]
  proof (rule ends_bindI)
    show "ends (if http then Inr (True, s0) else data_transfer_checks_ok T W s0) (fails T an ra)
        (\<lambda>(b, s'). commanded T an ra s' \<and> (b \<longrightarrow> http \<or> some_active T s'))"
      using s0 by (auto simp: commanded_def command_text_def kept_def intro!: checks_ok_kept)
    fix x
    assume x: "case x of (b, s') \<Rightarrow> commanded T an ra s' \<and> (b \<longrightarrow> http \<or> some_active T s')"
    obtain b s1 where x1: "x = (b, s1)" by (cases x)
    with x have s1: "commanded T an ra s1" "b \<Longrightarrow> http \<or> some_active T s1" by simp_all
    from write_serving [OF commandedD(1,2) [OF s1(1)]] main [OF s1]
    show "ends (case x of (ok, s') \<Rightarrow>
      if \<not> ok then Inr s'
      else if is_ascii s' \<and> restart_pos s \<noteq> 0
        then vsf_cmdio_write T W FTP_FILEFAIL ''No support for resume of ASCII transfer.'' s'
      else and_then (start_entry W kVSFLogEntryDownload (ftp_arg_str (resolve_arg T W s')) (resolve_arg T W s'))
        (with_access T W (ftp_arg_str (resolve_arg T W s')) (\<lambda>s''.
          case sys W (OpenRead (c_str (ftp_arg_str (resolve_arg T W s')))) s'' of (fd, s'') \<Rightarrow>
          if fd < 0 then vsf_cmdio_write T W FTP_FILEFAIL ''Failed to open file.'' s''
          else retr_opened T W http fd (restart_pos s) s''))) (fails T an ra) (serving T an ra)"
      using s1(1) by (simp add: x1 commanded_def)
  qed
qed

subsection \<open>Uploads\<close>

lemma unique_loop_kept:
  assumes "sound T an ra s" "NUL \<notin> set base" "0 < suffix" "suffix - 1 \<le> length (trace s)"
    "\<And>p s'. kept T an ra (log_type s) s s' \<Longrightarrow> NUL \<notin> set p \<Longrightarrow> Q (p, s')"
  shows "ends (unique_loop W base suffix s) (fails T an ra) Q"
  using assms
proof (induction W base suffix s rule: unique_loop.induct)
  case (1 W base suffix s)
  show ?case
  proof (cases "2 ^ 32 \<le> suffix")
    case True
    with "1.prems" show ?thesis by (simp add: unique_loop.simps)
  next
    case False
    define p where "p = base @ ''.'' @ fmt_lu suffix"
    obtain st s1 where st: "sys_stat W (Stat (c_str p)) s = (st, s1)" by (cases "sys_stat W (Stat (c_str p)) s")
    have k: "kept T an ra (log_type s) s s1" by (rule sys_stat_kept [OF "1.prems"(1) _ st]) simp
    have len: "length (trace s1) = Suc (length (trace s))" using st by (auto simp: sys_stat_def)
    have "NUL \<notin> set p" using "1.prems"(2) by (simp add: p_def fmt_lu_def digits_of_no_NUL)
    note here = "1.prems"(5) [OF k this]
    have "ends (unique_loop W base (suffix + 1) s1) (fails T an ra) Q" if "st \<noteq> None"
    proof (rule "1.IH" [OF False p_def refl st [symmetric] that])
      show "Q (p', s')" if "kept T an ra (log_type s1) s1 s'" "NUL \<notin> set p'" for p' s'
        by (rule "1.prems"(5) [OF _ that(2)]) (use that k in \<open>simp add: kept_def\<close>)
    qed (use k len "1.prems" in \<open>simp_all add: kept_def\<close>)
    with here show ?thesis
      unfolding unique_loop.simps [of W base suffix s] if_not_P [OF False] Let_def p_def [symmetric] st split_conv
      by simp
  qed
qed

lemma unique_filename_kept:
  assumes "sound T an ra s" "NUL \<notin> set p"
    "\<And>p s'. kept T an ra (log_type s) s s' \<Longrightarrow> NUL \<notin> set p \<Longrightarrow> Q (p, s')"
  shows "ends (get_unique_filename W p s) (fails T an ra) Q"
proof -
  obtain st s1 where st: "sys_stat W (Stat (c_str p)) s = (st, s1)" by (cases "sys_stat W (Stat (c_str p)) s")
  have k: "kept T an ra (log_type s) s s1" by (rule sys_stat_kept [OF assms(1) _ st]) simp
  have "ends (unique_loop W p 1 s1) (fails T an ra) Q"
    by (rule unique_loop_kept) (use k assms in \<open>auto simp: kept_def\<close>)
  moreover have "ends (unique_loop W ''STOU'' 1 s) (fails T an ra) Q"
    by (rule unique_loop_kept [OF assms(1)]) (use assms(3) in auto)
  ultimately show ?thesis
    using st assms(2) assms(3) [OF k] by (simp add: get_unique_filename_def)
qed

lemma upload_chown_kept:
  assumes "sound T an ra s" "\<And>s'. kept T an ra (log_type s) s s' \<Longrightarrow> Q s'"
  shows "ends (upload_chown T W fd s) (fails T an ra) Q"
proof (cases "is_anonymous s \<and> tunable_chown_uploads T")
  case True
  have "ends (sys_or_die W ''fchmod'' (Fchmod fd (tunable_chown_upload_mode T mod 512)) s) (fails T an ra)
      (\<lambda>s. ends (if tunable_one_process_model T then vsf_one_process_chown_upload W fd s
        else vsf_two_process_chown_upload T W fd s) (fails T an ra) Q)"
  proof (rule sys_or_die_kept [OF assms(1)])
    fix s1
    assume k: "kept T an ra (log_type s) s s1"
    have Q: "Q (s1\<lparr>trace := es @ trace s1\<rparr>)" if "list_all (permitted T an ra) es" for es
      by (rule assms(2)) (use k that in \<open>simp add: kept_def\<close>)
    from k have ok: "ok_trace T an ra s1" by (simp add: kept_def)
    have "ends (vsf_one_process_chown_upload W fd s1) (fails T an ra) Q"
      unfolding vsf_one_process_chown_upload_def by (rule chown_ends [where Q = Q, OF ok Q])
    moreover have "ends (vsf_two_process_chown_upload T W fd s1) (fails T an ra) Q"
      by (rule two_process_chown_ends [where Q = Q, OF ok _ Q]) (use True in simp)
    ultimately show "ends (if tunable_one_process_model T then vsf_one_process_chown_upload W fd s1
        else vsf_two_process_chown_upload T W fd s1) (fails T an ra) Q" by simp
  qed (simp_all add: env_dies_def)
  with True show ?thesis by (simp add: upload_chown_def ends_and_then)
next
  case False
  with assms(2) [OF kept_refl [OF assms(1)]] show ?thesis by (auto simp: upload_chown_def)
qed

text \<open>Steps that keep everything, one after another.\<close>

lemma kept_bindI:
  assumes "ends m (fails T an ra) (kept T an ra n s)"
    "\<And>s'. kept T an ra n s s' \<Longrightarrow> ends (f s') (fails T an ra) Q"
  shows "ends (and_then m f) (fails T an ra) Q"
  using assms by (rule ends_bindI)

lemma upload_prepare_kept:
  assumes s: "sound T an ra s" and off: "0 \<le> offset"
    and Q: "\<And>s'. kept T an ra (log_type s) s s' \<Longrightarrow> Q s'"
  shows "ends (upload_prepare T W fd is_append do_truncate offset s) (fails T an ra) Q"
  unfolding upload_prepare_def
proof (rule ends_bind2I)
  let ?kept = "kept T an ra (log_type s) s"
  have k: "\<And>s s1 s2. kept T an ra (log_type s) s s1 \<Longrightarrow> kept T an ra (log_type s1) s1 s2 \<Longrightarrow>
      kept T an ra (log_type s) s s2"
    by (simp add: kept_def)
  have sys: "ends (sys_or_die W m c s1) (fails T an ra) ?kept"
    if "?kept s1" "permitted T an ra (Sys c)" "m \<in> set env_dies" for m c s1
    by (rule sys_or_die_kept [OF kept_sound [OF that(1)] that(2,3)]) (rule k [OF that(1)])
  have lseek: "ends (vsf_sysutil_lseek_to W fd n s1) (fails T an ra) ?kept" if "?kept s1" "0 \<le> n" for n s1
    by (rule lseek_kept [OF kept_sound [OF that(1)] that(2)]) (rule k [OF that(1)])
  show "ends (vsf_sysutil_fstat W fd s) (fails T an ra) (\<lambda>(st, s'). ?kept s')"
    by (rule fstat_kept [OF s]) simp
  fix st :: statbuf and s1
  assume k1: "?kept s1"
  have "ends (and_then (if st_regfile st then sys_or_die W ''fcntl'' (DeactivateNoblock fd) s1 else Inr s1) (\<lambda>s.
     and_then (upload_chown T W fd s) (\<lambda>s.
     let s = (if tunable_lock_upload_files T then snd (sys W (LockWrite fd) s) else s) in
     and_then
       (if do_truncate then
          and_then (sys_or_die W ''ftruncate'' (Ftruncate fd) s) (\<lambda>s. vsf_sysutil_lseek_to W fd 0 s)
        else Inr s) (\<lambda>s.
     if \<not> is_append \<and> offset \<noteq> 0 then vsf_sysutil_lseek_to W fd offset s
     else if is_append then sys_or_die W ''lseek'' (LseekEnd fd) s
     else Inr s)))) (fails T an ra) ?kept"
  proof (rule kept_bindI)
    show "ends (if st_regfile st then sys_or_die W ''fcntl'' (DeactivateNoblock fd) s1 else Inr s1)
        (fails T an ra) ?kept"
      using k1 sys [OF k1, of "DeactivateNoblock fd" "''fcntl''"] by (simp add: env_dies_def)
    fix s2
    assume k2: "?kept s2"
    show "ends (and_then (upload_chown T W fd s2) (\<lambda>s.
       let s = (if tunable_lock_upload_files T then snd (sys W (LockWrite fd) s) else s) in
       and_then
         (if do_truncate then
            and_then (sys_or_die W ''ftruncate'' (Ftruncate fd) s) (\<lambda>s. vsf_sysutil_lseek_to W fd 0 s)
          else Inr s) (\<lambda>s.
       if \<not> is_append \<and> offset \<noteq> 0 then vsf_sysutil_lseek_to W fd offset s
       else if is_append then sys_or_die W ''lseek'' (LseekEnd fd) s
       else Inr s))) (fails T an ra) ?kept"
    proof (rule kept_bindI)
      show "ends (upload_chown T W fd s2) (fails T an ra) ?kept"
        by (rule upload_chown_kept [OF kept_sound [OF k2]]) (rule k [OF k2])
      fix s3
      assume k3: "?kept s3"
      define s4 where "s4 = (if tunable_lock_upload_files T then snd (sys W (LockWrite fd) s3) else s3)"
      have k4: "?kept s4" unfolding s4_def by (rule k [OF k3], rule maybe_sys_kept [OF kept_sound [OF k3]]) simp
      show "ends (let s = (if tunable_lock_upload_files T then snd (sys W (LockWrite fd) s3) else s3) in
         and_then
           (if do_truncate then
              and_then (sys_or_die W ''ftruncate'' (Ftruncate fd) s) (\<lambda>s. vsf_sysutil_lseek_to W fd 0 s)
            else Inr s) (\<lambda>s.
         if \<not> is_append \<and> offset \<noteq> 0 then vsf_sysutil_lseek_to W fd offset s
         else if is_append then sys_or_die W ''lseek'' (LseekEnd fd) s
         else Inr s)) (fails T an ra) ?kept"
        unfolding Let_def s4_def [symmetric]
      proof (rule kept_bindI)
        have "ends (and_then (sys_or_die W ''ftruncate'' (Ftruncate fd) s4) (\<lambda>s. vsf_sysutil_lseek_to W fd 0 s))
            (fails T an ra) ?kept"
          by (rule kept_bindI [OF sys [OF k4]], simp, simp add: env_dies_def) (rule lseek, simp_all)
        with k4 show "ends (if do_truncate then
            and_then (sys_or_die W ''ftruncate'' (Ftruncate fd) s4) (\<lambda>s. vsf_sysutil_lseek_to W fd 0 s)
          else Inr s4) (fails T an ra) ?kept" by simp
        fix s5
        assume k5: "?kept s5"
        from sys [OF k5, of "LseekEnd fd" "''lseek''"] lseek [OF k5 off] k5
        show "ends (if \<not> is_append \<and> offset \<noteq> 0 then vsf_sysutil_lseek_to W fd offset s5
           else if is_append then sys_or_die W ''lseek'' (LseekEnd fd) s5
           else Inr s5) (fails T an ra) ?kept"
          by (simp add: env_dies_def)
      qed
    qed
  qed
  then show "ends (case (st, s1) of (st, s) \<Rightarrow>
     and_then (if st_regfile st then sys_or_die W ''fcntl'' (DeactivateNoblock fd) s else Inr s) (\<lambda>s.
     and_then (upload_chown T W fd s) (\<lambda>s.
     let s = (if tunable_lock_upload_files T then snd (sys W (LockWrite fd) s) else s) in
     and_then
       (if do_truncate then
          and_then (sys_or_die W ''ftruncate'' (Ftruncate fd) s) (\<lambda>s. vsf_sysutil_lseek_to W fd 0 s)
        else Inr s) (\<lambda>s.
     if \<not> is_append \<and> offset \<noteq> 0 then vsf_sysutil_lseek_to W fd offset s
     else if is_append then sys_or_die W ''lseek'' (LseekEnd fd) s
     else Inr s)))) (fails T an ra) Q"
    unfolding split_conv by (rule ends_conseq) (erule Q)
qed

text \<open>The analysis changes the decoder only, and may end the session.\<close>

lemma analysed_kept:
  assumes "sound T an ra s"
  shows "ends (analysed W fn s) (fails T an ra)
    (\<lambda>(t, s'). \<exists>d. kept T an ra (log_type s) (s\<lparr>tpms_decoder := d\<rparr>) s')"
  using assms by (auto simp: analysed_def ends_def kept_def split: sum.splits)

lemma Debug_action: "log_action kVSFLogEntryDebug \<noteq> None"
  by (simp add: log_action_def log_entry_defs)

lemma upload_reply_kept:
  assumes s: "sound T an ra s"
  shows "ends (upload_reply T W fname r s) (fails T an ra)
    (\<lambda>s'. \<exists>d. kept T an ra (log_type s) (s\<lparr>tpms_decoder := d\<rparr>) s')"
proof -
  let ?Q = "\<lambda>s'. \<exists>d. kept T an ra (log_type s) (s\<lparr>tpms_decoder := d\<rparr>) s'"
  have Q: "?Q s'" if "kept T an ra (log_type s) s s'" for s'
    using that by (auto simp: kept_def)
  have "ends (and_then (analysed W (c_str fname) s) (\<lambda>(t, s).
      and_then (vsf_log_line T W kVSFLogEntryDebug (c_str t) s) (vsf_cmdio_write T W FTP_TRANSFEROK t)))
      (fails T an ra) ?Q"
  proof (rule ends_bind2I [OF analysed_kept [OF s]])
    fix t s1
    assume "\<exists>d. kept T an ra (log_type s) (s\<lparr>tpms_decoder := d\<rparr>) s1"
    then have "ends (if True then vsf_log_line T W kVSFLogEntryDebug (c_str t) s1 else Inr s1) (fails T an ra)
        (\<lambda>s'. ends (vsf_cmdio_write T W FTP_TRANSFEROK t s') (fails T an ra) ?Q)"
      by (intro opt_log_ends [OF Debug_action] write_kept) (auto simp: kept_def)
    then show "ends (case (t, s1) of (t, s) \<Rightarrow> and_then (vsf_log_line T W kVSFLogEntryDebug (c_str t) s)
        (vsf_cmdio_write T W FTP_TRANSFEROK t)) (fails T an ra) ?Q"
      unfolding split_conv ends_and_then if_True .
  qed
  then show ?thesis
    unfolding upload_reply_def using kept_refl [OF s] Q by (auto intro!: write_kept [OF s])
qed

lemma upload_receive_kept:
  assumes "sound T an ra s" "log_type s \<noteq> 0" "data_fd s \<noteq> -1"
  shows "ends (upload_receive T W fname remote_fd fd s) (fails T an ra)
    (\<lambda>(b, s'). sound T an ra s' \<and> data_fd s' = -1)"
  unfolding upload_receive_def Let_def
proof (rule ends_bind2I)
  let ?finish = "\<lambda>r s. and_then (if r = 0 then vsf_log_do_log T W True s else Inr s) (\<lambda>s.
     and_then (upload_reply T W fname r s) (\<lambda>s.
     and_then (check_abor T W s) (\<lambda>s. Inr (r = 0, s))))"
  have finish: "ends (?finish r s1) (fails T an ra) (\<lambda>(b, s'). sound T an ra s' \<and> data_fd s' = -1)"
    if "sound T an ra s1" "log_type s1 \<noteq> 0" "data_fd s1 = -1" for r s1
    by (rule transfer_done [OF that(1,2)], rule then_check [OF upload_reply_kept]) (use that(3) in auto)
  show "ends (vsf_ftpdataio_transfer_file T W remote_fd fd True (tunable_ascii_upload_enable T \<and> is_ascii s) s)
      (fails T an ra) (\<lambda>(tr, s'). kept T an ra (log_type s) s s')"
    by (rule transfer_file_kept [OF assms(1)]) simp
  fix tr :: vsf_transfer_ret and s1
  assume k1: "kept T an ra (log_type s) s s1"
  have "ends (and_then (vsf_ftpdataio_dispose_transfer_fd T W s1) (\<lambda>(d, s).
      ?finish (if d \<noteq> 1 \<and> retval tr = 0 then -2 else retval tr) (s\<lparr>transfer_size := int (transferred tr)\<rparr>)))
      (fails T an ra) (\<lambda>(b, s'). sound T an ra s' \<and> data_fd s' = -1)"
  proof (rule ends_bind2I)
    show "ends (vsf_ftpdataio_dispose_transfer_fd T W s1) (fails T an ra)
        (\<lambda>(d, s'). kept T an ra (log_type s1) (s1\<lparr>data_fd := -1\<rparr>) s')"
      by (rule dispose_kept [OF kept_sound [OF k1]]) (use k1 assms(3) in \<open>simp_all add: kept_def\<close>)
    fix d :: int and s2
    assume "kept T an ra (log_type s1) (s1\<lparr>data_fd := -1\<rparr>) s2"
    with k1 assms(2) show "ends (case (d, s2) of (d, s) \<Rightarrow>
        ?finish (if d \<noteq> 1 \<and> retval tr = 0 then -2 else retval tr) (s\<lparr>transfer_size := int (transferred tr)\<rparr>))
        (fails T an ra) (\<lambda>(b, s'). sound T an ra s' \<and> data_fd s' = -1)"
      unfolding split_conv by (intro finish) (simp_all add: kept_def)
  qed
  then show "ends (case (tr, s1) of (tr, s) \<Rightarrow> and_then (vsf_ftpdataio_dispose_transfer_fd T W s) (\<lambda>(d, s).
      ?finish (if d \<noteq> 1 \<and> retval tr = 0 then -2 else retval tr) (s\<lparr>transfer_size := int (transferred tr)\<rparr>)))
      (fails T an ra) (\<lambda>(b, s'). sound T an ra s' \<and> data_fd s' = -1)"
    unfolding split_conv .
qed

lemma upload_opened_serving:
  assumes s: "sound T an ra s" "log_type s \<noteq> 0" "data_fd s = -1" "some_active T s" and "0 \<le> offset"
    and fname: "access_ok T fname" "NUL \<notin> set fname"
    and may: "may_write T an (tunable_anon_upload_enable T \<or> tunable_anon_other_write_enable T)"
  shows "ends (upload_opened T W fname fd is_append is_unique do_truncate offset s) (fails T an ra) (serving T an ra)"
  unfolding upload_opened_def Let_def
proof (rule kept_bindI)
  show "ends (upload_prepare T W fd is_append do_truncate offset s) (fails T an ra) (kept T an ra (log_type s) s)"
    by (rule upload_prepare_kept [OF s(1) assms(5)])
  fix s1
  assume "kept T an ra (log_type s) s s1"
  with s have s1: "sound T an ra s1" "log_type s1 \<noteq> 0" "data_fd s1 = -1" "some_active T s1"
    by (simp_all add: kept_def)
  have unlink: "permitted T an ra (Sys (Unlink (c_str fname)))" if "tunable_delete_failed_uploads T"
    using that may fname by (auto simp: access_ok_c_str may_write_def)
  have close: "ends (and_then (port_pasv_cleanup T W s2) (\<lambda>s.
      sys_or_die W ''close'' (CloseFd fd) (if tunable_delete_failed_uploads T \<and> \<not> success
        then snd (sys W (Unlink (c_str fname)) s) else s))) (fails T an ra) (serving T an ra)"
    if "sound T an ra s2" "data_fd s2 = -1" for success s2
  proof (rule ends_bindI [OF cleanup_serving [OF that]], rule close_serving)
    fix s3
    assume s3: "serving T an ra s3"
    show "serving T an ra (if tunable_delete_failed_uploads T \<and> \<not> success
        then snd (sys W (Unlink (c_str fname)) s3) else s3)"
      using s3 unlink maybe_sys_kept [where b = True and s = s3 and W = W and c = "Unlink (c_str fname)"]
      by (auto simp: kept_def)
  qed
  show "ends (and_then (get_remote_transfer_fd T W
       (if is_unique then c_str (''FILE: '' @ fname) else ''Ok to send data.'') s1) (\<lambda>(remote_fd, s).
     and_then (if remote_fd < 0 then Inr (False, s) else upload_receive T W fname remote_fd fd s) (\<lambda>(success, s).
     and_then (port_pasv_cleanup T W s) (\<lambda>s.
     sys_or_die W ''close'' (CloseFd fd) (if tunable_delete_failed_uploads T \<and> \<not> success
        then snd (sys W (Unlink (c_str fname)) s) else s))))) (fails T an ra) (serving T an ra)"
  proof (rule ends_bind2I)
    define P where "P = (\<lambda>(f::int) s'. sound T an ra s' \<and> log_type s' \<noteq> 0 \<and> (data_fd s' = -1 \<longleftrightarrow> f < 0))"
    show "ends (get_remote_transfer_fd T W
       (if is_unique then c_str (''FILE: '' @ fname) else ''Ok to send data.'') s1) (fails T an ra) (\<lambda>(f, s'). P f s')"
      by (rule remote_transfer_fd_kept [OF s1(1,3,4)]) (use s1 in \<open>auto simp: P_def kept_def\<close>)
    fix f s2
    assume P: "P f s2"
    have "ends (if f < 0 then Inr (False, s2) else upload_receive T W fname f fd s2) (fails T an ra)
        (\<lambda>(b, s'). sound T an ra s' \<and> data_fd s' = -1)"
      using P upload_receive_kept [of T an ra s2 W fname f fd] by (simp add: P_def)
    then have "ends (and_then (if f < 0 then Inr (False, s2) else upload_receive T W fname f fd s2) (\<lambda>(success, s).
       and_then (port_pasv_cleanup T W s) (\<lambda>s.
       sys_or_die W ''close'' (CloseFd fd) (if tunable_delete_failed_uploads T \<and> \<not> success
          then snd (sys W (Unlink (c_str fname)) s) else s)))) (fails T an ra) (serving T an ra)"
      by (rule ends_bind2I) (use close in auto)
    then show "ends (case (f, s2) of (remote_fd, s) \<Rightarrow>
       and_then (if remote_fd < 0 then Inr (False, s) else upload_receive T W fname remote_fd fd s) (\<lambda>(success, s).
       and_then (port_pasv_cleanup T W s) (\<lambda>s.
       sys_or_die W ''close'' (CloseFd fd) (if tunable_delete_failed_uploads T \<and> \<not> success
          then snd (sys W (Unlink (c_str fname)) s) else s)))) (fails T an ra) (serving T an ra)"
      unfolding split_conv .
  qed
qed

lemma upload_serving:
  assumes may: "may_write T an (tunable_anon_upload_enable T \<or> tunable_anon_other_write_enable T)"
    and c: "commanded T an ra s"
  shows "ends (handle_upload_common T W is_append is_unique s) (fails T an ra) (serving T an ra)"
proof -
  define offset where "offset = restart_pos s"
  define s0 where "s0 = s\<lparr>restart_pos := 0\<rparr>"
  have s0: "commanded T an ra s0" using c by (auto simp: s0_def commanded_def intro: regular_set)
  have "regular T an ra s" using c by (simp add: commanded_def)
  then have off: "0 \<le> offset" unfolding offset_def by (rule regularD(6))
  let ?excl = "\<lambda>s'. is_unique \<or> is_anonymous s' \<and> \<not> tunable_anon_other_write_enable T"
  let ?create = "\<lambda>fname s'. case sys W (if ?excl s' then CreateExclusive (c_str fname) else Create (c_str fname)) s' of
      (fd, s'') \<Rightarrow> if fd < 0 then vsf_cmdio_write T W FTP_UPLOADFAIL ''Could not create file.'' s''
        else upload_opened T W fname fd is_append is_unique (\<not> ?excl s' \<and> \<not> is_append \<and> offset = 0) offset s''"
  have create: "ends (?create fname s1) (fails T an ra) (serving T an ra)"
    if s1: "sound T an ra s1" "log_type s1 \<noteq> 0" "data_fd s1 = -1" "some_active T s1"
      and fname: "access_ok T fname" "NUL \<notin> set fname" for fname s1
  proof (rule call_on_file [OF s1(1,3)])
    from s1(1) have "is_anonymous s1 = an" using regularD(1) by blast
    with may fname show "permitted T an ra (Sys (if ?excl s1 then CreateExclusive (c_str fname) else Create (c_str fname)))"
      by (auto simp: access_ok_c_str may_write_def)
    fix fd s2
    assume "kept T an ra (log_type s1) s1 s2"
    with s1 have s2: "sound T an ra s2" "log_type s2 \<noteq> 0" "data_fd s2 = -1" "some_active T s2"
      by (simp_all add: kept_def)
    from write_serving [OF s2(1,3)] upload_opened_serving [OF s2 off fname may]
    show "ends (case (fd, s2) of (fd, s'') \<Rightarrow> if fd < 0 then vsf_cmdio_write T W FTP_UPLOADFAIL ''Could not create file.'' s''
        else upload_opened T W fname fd is_append is_unique (\<not> ?excl s1 \<and> \<not> is_append \<and> offset = 0) offset s'')
        (fails T an ra) (serving T an ra)"
      by simp
  qed
  have named: "ends (and_then (if is_unique then get_unique_filename W (ftp_arg_str s2) s2 else Inr (ftp_arg_str s2, s2))
      (\<lambda>(fname, s'). and_then (start_entry W kVSFLogEntryUpload (ftp_arg_str s2) s')
        (with_access T W fname (?create fname)))) (fails T an ra) (serving T an ra)"
    if s2: "sound T an ra s2" "data_fd s2 = -1" "log_type s2 = 0" "command_text s2" "some_active T s2" for s2
  proof (rule ends_bind2I)
    have "ends (get_unique_filename W (ftp_arg_str s2) s2) (fails T an ra)
        (\<lambda>(fname, s'). kept T an ra 0 s2 s' \<and> NUL \<notin> set fname)"
      by (rule unique_filename_kept [OF s2(1)]) (use s2(3,4) in \<open>auto simp: command_text_def\<close>)
    then show "ends (if is_unique then get_unique_filename W (ftp_arg_str s2) s2 else Inr (ftp_arg_str s2, s2))
        (fails T an ra) (\<lambda>(fname, s'). kept T an ra 0 s2 s' \<and> NUL \<notin> set fname)"
      using kept_refl [OF s2(1)] s2(3,4) by (simp add: command_text_def)
    fix fname :: string and s3
    assume k: "kept T an ra 0 s2 s3 \<and> NUL \<notin> set fname"
    have "ends (and_then (start_entry W kVSFLogEntryUpload (ftp_arg_str s2) s3) (with_access T W fname (?create fname)))
        (fails T an ra) (serving T an ra)"
      by (rule logged_access, use k in \<open>simp add: kept_def\<close>, use k s2 in \<open>simp add: kept_def\<close>,
        use k in \<open>simp add: kept_def\<close>, simp, rule create)
        (use k s2 in \<open>simp_all add: kept_def\<close>)
    then show "ends (case (fname, s3) of (fname, s') \<Rightarrow> and_then (start_entry W kVSFLogEntryUpload (ftp_arg_str s2) s')
        (with_access T W fname (?create fname))) (fails T an ra) (serving T an ra)"
      unfolding split_conv .
  qed
  show ?thesis
    unfolding handle_upload_common_def Let_def s0_def [symmetric] offset_def [symmetric]
  proof (rule ends_bind2I)
    show "ends (data_transfer_checks_ok T W s0) (fails T an ra)
        (\<lambda>(b, s'). commanded T an ra s' \<and> (b \<longrightarrow> some_active T s'))"
      using s0 by (auto simp: commanded_def command_text_def kept_def intro!: checks_ok_kept)
    fix b s1
    assume s1: "commanded T an ra s1 \<and> (b \<longrightarrow> some_active T s1)"
    then have c1: "commanded T an ra s1" by simp
    note r = resolved [OF c1 refl, of W]
    have "b \<Longrightarrow> some_active T (resolve_arg T W s1)" using s1 r(6) by simp
    from named [OF r(1-4) this] c1
    show "ends (case (b, s1) of (ok, s') \<Rightarrow> if \<not> ok then Inr s'
      else and_then (if is_unique then get_unique_filename W (ftp_arg_str (resolve_arg T W s')) (resolve_arg T W s')
          else Inr (ftp_arg_str (resolve_arg T W s'), resolve_arg T W s'))
        (\<lambda>(fname, s''). and_then (start_entry W kVSFLogEntryUpload (ftp_arg_str (resolve_arg T W s')) s'')
          (with_access T W fname (?create fname)))) (fails T an ra) (serving T an ra)"
      by (simp add: commanded_def)
  qed
qed

interpretation stor: command_handler handle_stor "\<lambda>T an. may_write T an (tunable_anon_upload_enable T)"
  by unfold_locales (auto simp: handle_stor_def may_write_def intro!: upload_serving)

interpretation appe: command_handler handle_appe "\<lambda>T an. may_write T an (tunable_anon_other_write_enable T)"
  by unfold_locales (auto simp: handle_appe_def may_write_def intro!: upload_serving)

interpretation stou: command_handler handle_stou "\<lambda>T an. may_write T an (tunable_anon_upload_enable T)"
  by unfold_locales (auto simp: handle_stou_def may_write_def intro!: upload_serving)

subsection \<open>Listings\<close>

lemma list_reply_kept:
  assumes "sound T an ra s" "\<And>s'. kept T an ra (log_type s) s s' \<Longrightarrow> Q s'"
  shows "ends (list_reply T W stat_cmd readable r s) (fails T an ra) Q"
  using assms(2) [OF kept_refl [OF assms(1)]] write_kept(1) [where Q = Q, OF assms]
  by (simp add: list_reply_def)

text \<open>\<open>stat_cmd\<close>: over the control connection, else there is a data connection to be closed.\<close>

lemma list_send_serving:
  assumes s: "sound T an ra s" and fd: "data_fd s = -1 \<longleftrightarrow> stat_cmd" and filt: "NUL \<notin> set filt"
  shows "ends (list_send T W full_details stat_cmd opened dir opts filt s) (fails T an ra) (serving T an ra)"
  unfolding list_send_def Let_def
proof (rule ends_bind2I)
  let ?open = "\<lambda>s'. sound T an ra s' \<and> (data_fd s' = -1 \<longleftrightarrow> stat_cmd)"
  obtain st s0 where st: "sys_stat W (DirStat dir) s = (st, s0)" by (cases "sys_stat W (DirStat dir) s")
  have "kept T an ra (log_type s) s s0" by (rule sys_stat_kept [OF s _ st]) simp
  with s fd st show "ends (if is_anonymous s \<and> opened \<and> tunable_anon_world_readable_only T then
          case sys_stat W (DirStat dir) s of (st, s) \<Rightarrow>
          (case st of None \<Rightarrow> die ''fstat'' s | Some st \<Rightarrow> Inr (st_readable_other st, s))
        else Inr (True, s)) (fails T an ra) (\<lambda>(b, s'). ?open s')"
    by (cases st) (auto simp: kept_def env_dies_def intro!: die_ends)
  fix readable s1
  assume s1: "?open s1"
  let ?close = "\<lambda>r s'. and_then (if \<not> stat_cmd then
                 and_then (vsf_ftpdataio_dispose_transfer_fd T W s') (\<lambda>(d, s').
                 Inr (if d \<noteq> 1 \<and> r = 0 then -1 else r, s'))
               else Inr (r, s')) (\<lambda>(r, s').
     and_then (list_reply T W stat_cmd (opened \<and> readable) r s') (check_abor T W))"
  have close: "ends (?close r s2) (fails T an ra) (serving T an ra)" if s2: "?open s2" for r s2
  proof (rule ends_bind2I)
    show "ends (if \<not> stat_cmd then and_then (vsf_ftpdataio_dispose_transfer_fd T W s2) (\<lambda>(d, s').
                 Inr (if d \<noteq> 1 \<and> r = 0 then -1 else r, s'))
               else Inr (r, s2)) (fails T an ra) (\<lambda>(r, s'). serving T an ra s')"
      using s2 by (auto simp: ends_and_then kept_def intro!: dispose_kept)
    fix r' s3
    assume s3: "serving T an ra s3"
    then have ok: "sound T an ra s3" by simp
    have "ends (list_reply T W stat_cmd (opened \<and> readable) r' s3) (fails T an ra)
        (\<lambda>s'. ends (check_abor T W s') (fails T an ra) (serving T an ra))"
      by (rule list_reply_kept [OF ok], rule check_abor_kept) (use s3 in \<open>auto simp: kept_def\<close>)
    then show "ends (case (r', s3) of (r, s') \<Rightarrow>
        and_then (list_reply T W stat_cmd (opened \<and> readable) r s') (check_abor T W)) (fails T an ra) (serving T an ra)"
      by (simp add: ends_and_then)
  qed
  have "ends (and_then (if opened \<and> readable
               then vsf_ftpdataio_transfer_dir T W stat_cmd dir opts filt full_details s1
               else Inr (0, s1)) (\<lambda>(r, s'). ?close r s')) (fails T an ra) (serving T an ra)"
  proof (rule ends_bind2I)
    have "ends (vsf_ftpdataio_transfer_dir T W stat_cmd dir opts filt full_details s1) (fails T an ra) (\<lambda>(r, s'). ?open s')"
      by (rule transfer_dir_kept [OF _ filt]) (use s1 in \<open>auto simp: kept_def\<close>)
    with s1 show "ends (if opened \<and> readable
               then vsf_ftpdataio_transfer_dir T W stat_cmd dir opts filt full_details s1
               else Inr (0, s1)) (fails T an ra) (\<lambda>(r, s'). ?open s')" by simp
    show "ends (case (r, s2) of (r, s') \<Rightarrow> ?close r s') (fails T an ra) (serving T an ra)" if "?open s2" for r s2
      unfolding split_conv by (rule close [OF that])
  qed
  then show "ends (case (readable, s1) of (readable, s') \<Rightarrow>
     and_then (if opened \<and> readable
               then vsf_ftpdataio_transfer_dir T W stat_cmd dir opts filt full_details s'
               else Inr (0, s')) (\<lambda>(r, s').
     and_then (if \<not> stat_cmd then
                 and_then (vsf_ftpdataio_dispose_transfer_fd T W s') (\<lambda>(d, s').
                 Inr (if d \<noteq> 1 \<and> r = 0 then -1 else r, s'))
               else Inr (r, s')) (\<lambda>(r, s').
     and_then (list_reply T W stat_cmd (opened \<and> readable) r s') (check_abor T W)))) (fails T an ra) (serving T an ra)"
    unfolding split_conv .
qed

lemma split_reverse_set: "set (snd (s_split_char_reverse c t)) \<subseteq> set t"
  by (auto simp: s_split_char_reverse_def s_split_text_reverse_def split_at_def split: option.splits dest: in_set_dropD)

lemma open_listing_kept:
  assumes "sound T an ra s" "NUL \<notin> set filt" "open_listing W given filt s = ((opened, dir, filt'), s')"
  shows "kept T an ra (log_type s) s s' \<and> NUL \<notin> set filt'"
proof -
  have k: "kept T an ra (log_type s) s (snd (str_opendir W p s))" for p
    using opendir_kept [OF assms(1)] by (metis prod.collapse)
  have "kept T an ra (log_type s) s (snd (str_opendir W q (snd (str_opendir W p s))))" for p q
    using opendir_kept [OF kept_sound [OF k]] k by (metis (no_types, lifting) kept_def prod.collapse)
  with k assms(2,3) split_reverse_set [of "CHR ''/''" filt] show ?thesis
    by (auto simp: open_listing_def Let_def split_beta split: if_splits)
qed

lemma list_transfer_serving:
  assumes s: "sound T an ra s" "data_fd s = -1" and active: "stat_cmd \<or> some_active T s" and filt: "NUL \<notin> set filt"
  shows "ends (list_transfer T W full_details stat_cmd opts given filt s) (fails T an ra) (serving T an ra)"
proof -
  obtain opened dir filt' s1 where o: "open_listing W given filt s = ((opened, dir, filt'), s1)" by (metis surj_pair)
  have k1: "kept T an ra (log_type s) s s1" and f': "NUL \<notin> set filt'"
    using open_listing_kept [OF s(1) filt o] by simp_all
  with s active have s1: "sound T an ra s1" "data_fd s1 = -1" "stat_cmd \<or> some_active T s1"
    by (simp_all add: kept_def)
  have ctl: "ends (and_then (vsf_cmdio_write_hyphen T W FTP_STATFILE_OK ''Status follows:'' s1) (\<lambda>s.
      list_send T W full_details True opened dir (opts @ ''a'') filt' s)) (fails T an ra) (serving T an ra)"
    unfolding ends_and_then
    by (rule write_kept(2) [OF s1(1)], rule list_send_serving [OF _ _ f']) (use s1 in \<open>auto simp: kept_def\<close>)
  have data: "ends (and_then (get_remote_transfer_fd T W ''Here comes the directory listing.'' s1) (\<lambda>(remote_fd, s).
      if remote_fd < 0 then Inr s else list_send T W full_details False opened dir opts filt' s))
      (fails T an ra) (serving T an ra)" if "some_active T s1"
  proof (rule ends_bind2I)
    show "ends (get_remote_transfer_fd T W ''Here comes the directory listing.'' s1) (fails T an ra)
        (\<lambda>(f, s'). sound T an ra s' \<and> (data_fd s' = -1 \<longleftrightarrow> f < 0))"
      by (rule remote_transfer_fd_kept [OF s1(1,2) that]) (use s1 in \<open>auto simp: kept_def\<close>)
    show "ends (case (f, s2) of (remote_fd, s) \<Rightarrow> if remote_fd < 0 then Inr s
        else list_send T W full_details False opened dir opts filt' s) (fails T an ra) (serving T an ra)"
      if "sound T an ra s2 \<and> (data_fd s2 = -1 \<longleftrightarrow> f < 0)" for f s2
      using that list_send_serving [OF _ _ f', of T an ra s2 False] by simp
  qed
  show ?thesis
    unfolding list_transfer_def o Let_def split_conv
  proof (rule ends_bindI)
    show "ends (if stat_cmd then
           and_then (vsf_cmdio_write_hyphen T W FTP_STATFILE_OK ''Status follows:'' s1) (\<lambda>s.
           list_send T W full_details True opened dir (opts @ ''a'') filt' s)
         else and_then (get_remote_transfer_fd T W ''Here comes the directory listing.'' s1) (\<lambda>(remote_fd, s).
           if remote_fd < 0 then Inr s else list_send T W full_details False opened dir opts filt' s))
        (fails T an ra) (serving T an ra)"
    proof (cases stat_cmd)
      case False
      with s1(3) have "some_active T s1" by blast
      from data [OF this] False show ?thesis by simp
    qed (use ctl in simp)
    fix s2
    assume s2: "serving T an ra s2"
    show "ends (and_then (if opened then vsf_sysutil_closedir W dir s2 else Inr s2) (\<lambda>s.
        if \<not> stat_cmd then port_pasv_cleanup T W s else Inr s)) (fails T an ra) (serving T an ra)"
    proof (rule ends_bindI)
      show "ends (if opened then vsf_sysutil_closedir W dir s2 else Inr s2) (fails T an ra) (serving T an ra)"
        using s2 by (auto simp: kept_def intro!: closedir_kept)
      show "ends (if \<not> stat_cmd then port_pasv_cleanup T W s3 else Inr s3) (fails T an ra) (serving T an ra)"
        if "serving T an ra s3" for s3
        using that cleanup_serving [of T an ra s3 W] by simp
    qed
  qed
qed

lemma dir_common_serving:
  assumes c: "commanded T an ra s"
  shows "ends (handle_dir_common T W full_details stat_cmd s) (fails T an ra) (serving T an ra)"
  unfolding handle_dir_common_def
proof (rule ends_bind2I)
  show "ends (if stat_cmd then Inr (True, s) else data_transfer_checks_ok T W s) (fails T an ra)
      (\<lambda>(b, s'). commanded T an ra s' \<and> (b \<longrightarrow> stat_cmd \<or> some_active T s'))"
    using c by (auto simp: commanded_def command_text_def kept_def intro!: checks_ok_kept)
  fix b s1
  assume s1: "commanded T an ra s1 \<and> (b \<longrightarrow> stat_cmd \<or> some_active T s1)"
  then have c1: "sound T an ra s1" "data_fd s1 = -1" "NUL \<notin> set (ftp_arg_str s1)"
    by (simp_all add: commanded_def command_text_def)
  obtain opts filt where la: "list_arguments (ftp_arg_str s1) = (opts, filt)"
    by (cases "list_arguments (ftp_arg_str s1)")
  have filt: "NUL \<notin> set filt"
    using la c1(3) split_char_set [of "CHR '' ''" "drop 1 (ftp_arg_str s1)"]
    by (auto simp: list_arguments_def split: if_splits dest: in_set_dropD)
  obtain f s2 where f: "resolve_tilde T W filt s1 = (f, s2)" by (cases "resolve_tilde T W filt s1")
  from resolve_tilde_kept [OF c1(1) filt f] have k: "kept T an ra (log_type s1) s1 s2" and fn: "NUL \<notin> set f" by simp_all
  have plain: "ends (list_transfer T W full_details stat_cmd opts False [] s1) (fails T an ra) (serving T an ra)" if b
    by (rule list_transfer_serving [OF c1(1,2)]) (use s1 that in simp_all)
  have named: "ends (with_access T W f (list_transfer T W full_details stat_cmd opts True f) s2)
      (fails T an ra) (serving T an ra)" if b
    by (rule with_access_serving, use k in \<open>simp add: kept_def\<close>, use k c1 in \<open>simp add: kept_def\<close>,
      rule list_transfer_serving) (use k c1 fn s1 that in \<open>simp_all add: kept_def\<close>)
  show "ends (case (b, s1) of (ok, s) \<Rightarrow> if \<not> ok then Inr s
     else let (opts, filt) = list_arguments (ftp_arg_str s) in
       if filt = [] then list_transfer T W full_details stat_cmd opts False [] s
       else let (filt, s) = resolve_tilde T W filt s in
         with_access T W filt (list_transfer T W full_details stat_cmd opts True filt) s)
      (fails T an ra) (serving T an ra)"
    using plain named s1 by (simp add: la f commanded_def)
qed

interpretation list: command_handler handle_list "\<lambda>T an. True"
  by unfold_locales (simp add: handle_list_def dir_common_serving)

interpretation nlst: command_handler handle_nlst "\<lambda>T an. True"
  by unfold_locales (simp add: handle_nlst_def dir_common_serving)

interpretation stat_file: command_handler handle_stat_file "\<lambda>T an. True"
  by unfold_locales (simp add: handle_stat_file_def dir_common_serving)

end
