(* ===== verification/Vsf_Loop.thy ===== *)
theory Vsf_Loop
  imports Vsf_Transfers Vsf_Start
begin

text \<open>
  The whole session after login: the chain of commands, the loop and the HTTP request rest on the
  contracts of the handlers. The claims are about \<open>process_post_login\<close>, with any client, any operating
  system and any settings.
\<close>

subsection \<open>The chain\<close>

lemma ends_ifI:
  "(b \<Longrightarrow> ends m E Q) \<Longrightarrow> (\<not> b \<Longrightarrow> ends m' E Q) \<Longrightarrow> ends (if b then m else m') E Q"
  by simp

lemma commanded_serving: "commanded T an ra s \<Longrightarrow> ends (Inr s) (fails T an ra) (serving T an ra)"
  by (simp add: commanded_def)

lemma commanded_reply:
  "commanded T an ra s \<Longrightarrow> ends (vsf_cmdio_write T W n t s) (fails T an ra) (serving T an ra)"
  "commanded T an ra s \<Longrightarrow> ends (vsf_cmdio_write_exit T W n t c s) (fails T an ra) Q"
  by (simp_all add: commanded_def write_serving write_exit_kept)

lemmas enabled_handlers = pwd.keeps cwd.keeps cdup.keeps mkd.keeps rmd.keeps dele.keeps rnfr.keeps
  rnto.keeps type_cmd.keeps rest.keeps size_cmd.keeps mdtm.keeps site.keeps help_cmd.keeps stat.keeps
  feat.keeps opts.keeps fixed.keeps user_cmd.keeps pass_cmd.keeps pasv.keeps port_cmd.keeps eprt.keeps
  retr.keeps stor.keeps appe.keeps stou.keeps list.keeps nlst.keeps stat_file.keeps

lemma dispatch_serving:
  assumes c: "commanded T an ra s"
  shows "ends (dispatch T W cmd s) (fails T an ra) (serving T an ra)"
proof -
  have an: "is_anonymous s = an" using c regularD(1) [of T an ra s] by (simp add: commanded_def)
  note rules = ends_ifI commanded_reply [OF c] commanded_serving [OF c] enabled_handlers [OF _ c]
  have "ends (dispatch_last T W cmd s) (fails T an ra) (serving T an ra)"
    unfolding dispatch_last_def by (intro rules TrueI)
  then have "ends (dispatch_info T W cmd s) (fails T an ra) (serving T an ra)"
    unfolding dispatch_info_def an by (intro rules TrueI) (simp_all add: may_write_def)
  then have "ends (dispatch_write T W cmd s) (fails T an ra) (serving T an ra)"
    unfolding dispatch_write_def an Let_def by (intro rules TrueI) (simp_all add: may_write_def)
  then show ?thesis
    unfolding dispatch_def by (intro rules TrueI) simp_all
qed

subsection \<open>The loop\<close>

lemma one_command_idle:
  assumes "idle T an ra s"
  shows "ends (one_command T W inp s) (fails T an ra) (idle T an ra)"
  unfolding one_command_def Let_def
proof (rule ends_bindI)
  let ?read = "\<lambda>((cmd, arg), s'). commanded T an ra (s'\<lparr>ftp_cmd_str := cmd, ftp_arg_str := arg\<rparr>)"
  show "ends (vsf_cmdio_get_cmd_and_arg T W inp s) (fails T an ra) ?read"
    by (rule get_cmd_kept)
      (use assms in \<open>auto simp: idle_def kept_def commanded_def command_text_def\<close>)
  fix x :: "(string \<times> string) \<times> vsf_session"
  assume x: "?read x"
  obtain cmd arg s1 where x1: "x = ((cmd, arg), s1)" by (metis surj_pair)
  define s2 where "s2 = s1\<lparr>ftp_cmd_str := cmd, ftp_arg_str := arg\<rparr>"
  have c: "commanded T an ra s2" using x x1 by (simp add: s2_def)
  have "ends (if cmd_ok T cmd then dispatch T W cmd s2
      else vsf_cmdio_write T W FTP_NOPERM ''Permission denied.'' s2) (fails T an ra) (serving T an ra)"
    using dispatch_serving [OF c] commanded_reply(1) [OF c] by simp
  then have "ends (and_then (if cmd_ok T cmd then dispatch T W cmd s2
      else vsf_cmdio_write T W FTP_NOPERM ''Permission denied.'' s2) (after_command T W))
      (fails T an ra) (idle T an ra)"
    by (rule ends_bindI) (rule after_command_idle)
  then show "ends ((\<lambda>((cmd, arg), s). and_then (if cmd_ok T cmd
      then dispatch T W cmd (s\<lparr>ftp_cmd_str := cmd, ftp_arg_str := arg\<rparr>)
      else vsf_cmdio_write T W FTP_NOPERM ''Permission denied.'' (s\<lparr>ftp_cmd_str := cmd, ftp_arg_str := arg\<rparr>))
      (after_command T W)) x) (fails T an ra) (idle T an ra)"
    by (simp only: x1 split_conv s2_def)
qed

lemma command_loop_idle:
  assumes "idle T an ra s"
  shows "ends (command_loop T W inps s) (fails T an ra) (idle T an ra)"
  using assms
proof (induction inps arbitrary: s)
  case (Cons inp inps)
  then show ?case by (auto intro: ends_bindI [OF one_command_idle])
qed simp

subsection \<open>HTTP\<close>

lemma eat_headers_idle:
  assumes "idle T an ra s"
  shows "ends (eat_headers T W inps s) (fails T an ra) (\<lambda>(b, s'). idle T an ra s' \<and> http_get_arg s' = http_get_arg s)"
  using assms
proof (induction inps arbitrary: s)
  case (Cons inp inps)
  let ?read = "\<lambda>((cmd, arg), s'). idle T an ra (s'\<lparr>ftp_cmd_str := cmd, ftp_arg_str := arg\<rparr>) \<and>
    http_get_arg s' = http_get_arg s"
  have "ends (vsf_cmdio_get_cmd_and_arg T W inp s) (fails T an ra) ?read"
    by (rule get_cmd_kept) (use Cons.prems in \<open>auto simp: idle_def kept_def\<close>)
  then show ?case
    unfolding eat_headers.simps Let_def
  proof (rule ends_bindI)
    fix x :: "(string \<times> string) \<times> vsf_session"
    assume x: "?read x"
    obtain cmd arg s1 where x1: "x = ((cmd, arg), s1)" by (metis surj_pair)
    define s2 where "s2 = s1\<lparr>ftp_cmd_str := cmd, ftp_arg_str := arg\<rparr>"
    have "idle T an ra s2" "http_get_arg s2 = http_get_arg s" using x x1 by (simp_all add: s2_def)
    with Cons.IH [of s2]
    show "ends ((\<lambda>((cmd, arg), s). if cmd = [] \<and> arg = []
        then Inr (True, s\<lparr>ftp_cmd_str := cmd, ftp_arg_str := arg\<rparr>)
        else eat_headers T W inps (s\<lparr>ftp_cmd_str := cmd, ftp_arg_str := arg\<rparr>)) x) (fails T an ra)
        (\<lambda>(b, s'). idle T an ra s' \<and> http_get_arg s' = http_get_arg s)"
      by (simp only: x1 split_conv s2_def [symmetric] ends_if ends_values simp_thms if_cancel)
  qed
qed simp

lemma header_lines: "list_all (\<lambda>l. c_str l \<noteq> []) http_header_lines"
  by (simp add: http_header_lines_def)

lemma write_raw_idle:
  assumes "idle T an ra s" "c_str l \<noteq> []" "\<And>s'. idle T an ra s' \<Longrightarrow> ftp_arg_str s' = ftp_arg_str s \<Longrightarrow>
    ends (k s') (fails T an ra) Q"
  shows "ends (and_then (vsf_cmdio_write_raw T W l s) k) (fails T an ra) Q"
  unfolding ends_and_then
proof (rule write_raw_ends [OF assms(2)])
  fix es
  assume "list_all (permitted T an ra) es"
  with assms(1) show "ends (k (s\<lparr>trace := es @ trace s\<rparr>)) (fails T an ra) Q"
    by (intro assms(3)) (simp_all add: idle_def)
qed (use assms(1) in \<open>simp add: idle_def\<close>)

text \<open>The request was read by the login; its argument is the file.\<close>

lemma handle_http_idle:
  assumes s: "idle T an ra s" and dl: "tunable_download_enable T"
    and arg: "NUL \<notin> set (http_get_arg s)" "length (http_get_arg s) < VSFTP_MAX_COMMAND_LINE"
  shows "ends (handle_http T W inps s) (fails T an ra) (idle T an ra)"
proof -
  define path where "path = fst (s_split_char (CHR '' '') (http_get_arg s))"
  obtain base ext where be: "s_split_char (CHR ''.'') path = (base, ext)" by (cases "s_split_char (CHR ''.'') path")
  define upd where "upd s' = s'\<lparr>ftp_arg_str := path, http_get_arg := base, ftp_cmd_str := s_upper ext\<rparr>" for s' :: vsf_session
  have path: "NUL \<notin> set path" "length path < VSFTP_MAX_COMMAND_LINE"
    using arg split_char_set [of "CHR '' ''" "http_get_arg s"]
    by (auto simp: path_def s_split_char_def s_split_text_def split_at_def split: option.splits)
  have send: "ends (and_then (handle_retr T W True (s'\<lparr>is_ascii := False, restart_pos := 0\<rparr>)) (\<lambda>s.
      and_then (if vsf_log_entry_pending s then vsf_log_do_log T W False s else Inr s) (vsf_sysutil_exit 0)))
      (fails T an ra) (idle T an ra)" if s': "idle T an ra s'" "ftp_arg_str s' = path" for s'
  proof (rule ends_bindI)
    show "ends (handle_retr T W True (s'\<lparr>is_ascii := False, restart_pos := 0\<rparr>)) (fails T an ra) (serving T an ra)"
      by (rule retr.keeps [OF dl])
        (use s' path in \<open>auto simp: commanded_def idle_def command_text_def intro: regular_set\<close>)
    fix s2
    assume s2: "serving T an ra s2"
    have bye: "ends (vsf_sysutil_exit 0 s3) (fails T an ra) (idle T an ra)" if "sound T an ra s3" for s3
      by (rule exit_ends) (use that in simp)
    show "ends (and_then (if vsf_log_entry_pending s2 then vsf_log_do_log T W False s2 else Inr s2) (vsf_sysutil_exit 0))
        (fails T an ra) (idle T an ra)"
    proof (cases "log_type s2 = 0")
      case False
      then show ?thesis
        unfolding vsf_log_entry_pending_def ends_and_then
        by (simp, intro do_log_kept) (use s2 bye in \<open>auto simp: kept_def\<close>)
    qed (use s2 bye in \<open>simp add: vsf_log_entry_pending_def\<close>)
  qed
  define ct where "ct = (if s_upper ext = ''HTML'' \<or> s_upper ext = ''HTM'' then ''Content-Type: text/html'' @ crlf
    else ''Content-Type: dunno'' @ crlf)"
  have ct: "c_str ct \<noteq> []" by (simp add: ct_def)
  have answer: "ends (let path = fst (s_split_char (CHR '' '') (http_get_arg s1));
          (base, ext) = s_split_char (CHR ''.'') path;
          ext = s_upper ext;
          s = s1\<lparr>ftp_arg_str := path, http_get_arg := base, ftp_cmd_str := ext\<rparr>
      in and_then (vsf_cmdio_write_raw T W
            (if ext = ''HTML'' \<or> ext = ''HTM'' then ''Content-Type: text/html'' @ crlf
             else ''Content-Type: dunno'' @ crlf) s) (\<lambda>s.
         and_then (vsf_cmdio_write_raw T W crlf s) (\<lambda>s.
         and_then (handle_retr T W True (s\<lparr>is_ascii := False, restart_pos := 0\<rparr>)) (\<lambda>s.
         and_then (if vsf_log_entry_pending s then vsf_log_do_log T W False s else Inr s) (vsf_sysutil_exit 0)))))
      (fails T an ra) (idle T an ra)" if s1: "idle T an ra s1" "http_get_arg s1 = http_get_arg s" for s1
    unfolding Let_def s1(2) path_def [symmetric] be split_conv ct_def [symmetric] upd_def [symmetric]
    by (rule write_raw_idle [OF _ ct], use s1 in \<open>simp add: upd_def idle_def\<close>,
      rule write_raw_idle, assumption, simp, rule send) (simp_all add: upd_def)
  have lines: "ends (write_raws T W http_header_lines s1) (fails T an ra)
      (\<lambda>s'. idle T an ra s' \<and> http_get_arg s' = http_get_arg s)"
    if s1: "idle T an ra s1" "http_get_arg s1 = http_get_arg s" for s1
    by (rule write_raws_ends) (use s1 header_lines in \<open>auto simp: idle_def list_all_iff\<close>)
  show ?thesis
    unfolding handle_http_def if_not_P [OF not_not [THEN iffD2, OF dl]]
  proof (rule ends_bind2I [OF eat_headers_idle [OF s]])
    fix complete s1
    assume "idle T an ra s1 \<and> http_get_arg s1 = http_get_arg s"
    then have s1: "idle T an ra s1" "http_get_arg s1 = http_get_arg s" by simp_all
    note a = ends_bindI [OF lines [OF s1] answer, OF conjunct1 conjunct2]
    show "ends (case (complete, s1) of (complete, s) \<Rightarrow> if \<not> complete then Inr s
        else and_then (write_raws T W http_header_lines s) (\<lambda>s.
          let path = fst (s_split_char (CHR '' '') (http_get_arg s));
              (base, ext) = s_split_char (CHR ''.'') path;
              ext = s_upper ext;
              s = s\<lparr>ftp_arg_str := path, http_get_arg := base, ftp_cmd_str := ext\<rparr>
          in and_then (vsf_cmdio_write_raw T W
                (if ext = ''HTML'' \<or> ext = ''HTM'' then ''Content-Type: text/html'' @ crlf
                 else ''Content-Type: dunno'' @ crlf) s) (\<lambda>s.
             and_then (vsf_cmdio_write_raw T W crlf s) (\<lambda>s.
             and_then (handle_retr T W True (s\<lparr>is_ascii := False, restart_pos := 0\<rparr>)) (\<lambda>s.
             and_then (if vsf_log_entry_pending s then vsf_log_do_log T W False s else Inr s) (\<lambda>s.
             vsf_sysutil_exit 0 s)))))) (fails T an ra) (idle T an ra)"
      unfolding split_conv by (rule ends_ifI, use s1(1) in simp, rule a)
  qed
qed

subsection \<open>After login\<close>

text \<open>
  What the login hands over: an IPv4 connection from \<open>ra\<close>, a user name, no data connection, no port, no
  listener, no open log entry, a history within the policy. An HTTP request needs downloads to be
  enabled, and its argument comes from a command line.
\<close>

definition logged_in :: "tunables \<Rightarrow> bool \<Rightarrow> sockaddr \<Rightarrow> vsf_session \<Rightarrow> bool" where
  "logged_in T an ra s \<longleftrightarrow>
     is_anonymous s = an \<and> p_remote_addr s = ra \<and> ra \<noteq> Sa_Other \<and>
     (case p_local_addr s of Sa_In a p \<Rightarrow> True | _ \<Rightarrow> False) \<and>
     c_str (remote_ip_str s) \<noteq> [] \<and> c_str (user_str s) \<noteq> [] \<and>
     restart_pos s = 0 \<and> rnfr_filename_str s = [] \<and> log_type s = 0 \<and> p_port_sockaddr s = None \<and>
     pasv_listen_fd s = -1 \<and> parent_listen_fd s = -1 \<and> data_fd s = -1 \<and>
     list_all (permitted T an ra) (trace s) \<and>
     (is_http s \<longrightarrow> tunable_download_enable T) \<and>
     NUL \<notin> set (http_get_arg s) \<and> length (http_get_arg s) < VSFTP_MAX_COMMAND_LINE"

lemma logged_in_idle:
  assumes "logged_in T an ra s" "NUL \<notin> set h" "list_all (permitted T an ra) es"
  shows "idle T an ra (s\<lparr>trace := es @ trace s, home_str := h, umask := u, bw_rate_max := b\<rparr>)"
  using assms by (auto simp: idle_def logged_in_def regular_def split: sockaddr.splits)

lemma start_session_idle:
  assumes "logged_in T an ra s"
  shows "idle T an ra (start_session T W s)" "is_http (start_session T W s) = is_http s"
    "http_get_arg (start_session T W s) = http_get_arg s"
proof -
  obtain home where home: "fst (str_getcwd W s) = home" "NUL \<notin> set home"
    using nul_c_str by (auto simp: str_getcwd_def split_beta split: option.split)
  define m where "m = (if is_anonymous s then tunable_anon_umask T else tunable_local_umask T) AND 0x1FF"
  define b where "b = (if is_anonymous s then tunable_anon_max_rate T else tunable_local_max_rate T)"
  have "start_session T W s = s\<lparr>trace := [Sys (SetUmask m), Sys Getcwd] @ trace s, home_str := home,
      umask := m, bw_rate_max := b\<rparr>"
    using home(1) by (simp add: start_session_def str_getcwd_def sys_text_def split_beta m_def b_def
        vsf_sysutil_set_umask_def sys_def Let_def)
  with logged_in_idle [OF assms home(2), where es = "[Sys (SetUmask m), Sys Getcwd]" and u = m and b = b]
  show "idle T an ra (start_session T W s)" "is_http (start_session T W s) = is_http s"
    "http_get_arg (start_session T W s) = http_get_arg s" by simp_all
qed

lemma process_post_login_idle:
  assumes "logged_in T an ra s"
  shows "ends (process_post_login T W inputs s) (fails T an ra) (idle T an ra)"
proof -
  define s1 where "s1 = start_session T W s"
  note s1 = start_session_idle [OF assms, of W, folded s1_def]
  have http: "ends (handle_http T W inputs s1) (fails T an ra) (idle T an ra)" if "is_http s"
    by (rule handle_http_idle [OF s1(1)]) (use assms that s1(3) in \<open>auto simp: logged_in_def\<close>)
  have "ends (vsf_banner_dir_changed T W FTP_LOGINOK s1) (fails T an ra) (\<lambda>s.
      ends (and_then (vsf_cmdio_write T W FTP_LOGINOK ''Login successful.'' s) (command_loop T W inputs))
        (fails T an ra) (idle T an ra))"
  proof (rule dir_changed_kept)
    show "sound T an ra s1" using s1(1) by (simp add: idle_def)
    fix s2
    assume "kept T an ra (log_type s1) s1 s2"
    with s1(1) have s2: "sound T an ra s2" "idle T an ra s2" by (simp_all add: kept_def idle_def)
    show "ends (and_then (vsf_cmdio_write T W FTP_LOGINOK ''Login successful.'' s2) (command_loop T W inputs))
        (fails T an ra) (idle T an ra)"
      unfolding ends_and_then
      by (rule write_kept(1) [OF s2(1)], rule command_loop_idle) (use s2 in \<open>simp add: kept_def idle_def\<close>)
  qed
  with http s1(2) show ?thesis
    by (simp add: process_post_login_def s1_def [symmetric] Let_def ends_and_then)
qed

text \<open>A client of the default server: an anonymous login from 1.2.3.5.\<close>

definition sample_session :: vsf_session where
  "sample_session = (new_session (Sa_In ''1234'' 21) (Sa_In ''1235'' 5000) ''1.2.3.5'')\<lparr>user_str := ''ftp''\<rparr>"

lemma sample_logged_in:
  "logged_in tunables_load_defaults True (Sa_In ''1235'' 5000) sample_session"
  by (simp add: logged_in_def sample_session_def new_session_def VSFTP_MAX_COMMAND_LINE_def)

subsection \<open>Claims\<close>



definition writing :: "event \<Rightarrow> bool" where
  "writing e \<longleftrightarrow> (case e of
     Sys c \<Rightarrow> (case c of Create p \<Rightarrow> True | CreateExclusive p \<Rightarrow> True | Mkdir p m \<Rightarrow> True
       | Rmdir p \<Rightarrow> True | Unlink p \<Rightarrow> True | Rename p q \<Rightarrow> True | Chmod p m \<Rightarrow> True
       | SetModtime p t \<Rightarrow> True | _ \<Rightarrow> False)
   | _ \<Rightarrow> False)"

lemma history_within:
  assumes "logged_in T an ra s" "\<And>e. permitted T an ra e \<Longrightarrow> P e"
  shows "ends (process_post_login T W inputs s) (\<lambda>f tr. list_all P tr) (\<lambda>s'. list_all P (trace s'))"
  by (rule ends_conseq [OF process_post_login_idle [OF assms(1)]])
    (auto simp: fails_def idle_def list_all_iff intro: assms(2))



definition homebound :: "sockaddr \<Rightarrow> event \<Rightarrow> bool" where
  "homebound ra e = (case e of
     Sys c \<Rightarrow> (case c of
         ConnectTo fd a \<Rightarrow> vsf_sysutil_sockaddr_addr_equal ra a \<and> \<not> vsf_sysutil_is_port_reserved (sa_port a)
       | _ \<Rightarrow> True)
   | _ \<Rightarrow> True)"



end
