(* ===== verification/Vsf_Edges.thy ===== *)
theory Vsf_Edges
  imports Vsf_Loop
begin

text \<open>
  The end of a session, and behaviour of the server that is easily overlooked: what it does with a short
  IPv6 address, and with a failed upload to a file that was there.
\<close>

subsection \<open>QUIT\<close>

lemma write_exit_ends_False:
  "sound T an ra s \<Longrightarrow> ends (vsf_cmdio_write_exit T W n t c s) (fails T an ra) (\<lambda>s'. False)"
  by (rule write_exit_kept)

lemma control_getline_plain:
  assumes "NUL \<notin> set t" "t \<noteq> [] \<Longrightarrow> last t \<noteq> CHR 0x0D"
  shows "control_getline t = t"
proof -
  have "s_replace_char NUL (CHR 0x0A) t = t"
    using assms(1) unfolding s_replace_char_def by (intro map_idI) auto
  with assms(2) show ?thesis
    by (cases t rule: rev_cases) (auto simp: control_getline_def)
qed

lemma split_QUIT: "split_command (control_getline ''QUIT'') = (''QUIT'', [])"
  by code_simp

lemma quit_command:
  assumes "idle T an ra s" "cmd_ok T ''QUIT''"
  shows "ends (one_command T W (Line ''QUIT'') s) (fails T an ra) (\<lambda>s'. False)"
proof -
  have "ends (if tunable_log_ftp_protocol T then vsf_log_line T W kVSFLogEntryFTPInput ''QUIT'' s else Inr s)
      (fails T an ra) (\<lambda>s1. ends (vsf_cmdio_write_exit T W FTP_GOODBYE ''Goodbye.'' 0
        (s1\<lparr>ftp_cmd_str := ''QUIT'', ftp_arg_str := []\<rparr>)) (fails T an ra) (\<lambda>s'. False))"
    by (rule opt_log_line_kept) (use assms(1) in \<open>auto simp: idle_def kept_def intro: write_exit_ends_False\<close>)
  then show ?thesis
    using assms(2)
    by (cases "tunable_log_ftp_protocol T")
      (simp_all add: one_command_def vsf_cmdio_get_cmd_and_arg_def split_QUIT VSFTP_MAX_COMMAND_LINE_def
        ends_and_then dispatch_def vsf_cmdio_write_exit_def vsf_sysutil_exit_def)
qed


lemma sample_idle: "idle tunables_load_defaults True (Sa_In ''1235'' 5000) sample_session"
  using logged_in_idle [OF sample_logged_in, of "[]" "[]" 0 0]
  by (simp add: sample_session_def new_session_def)


subsection \<open>A short IPv6 address\<close>

lemma short_eprt_fields:
  "eprt_fields True ''|2|1:2|5000|'' = Inr (2, [CHR 0x00, CHR 0x01, CHR 0x00, CHR 0x02], 5000)"
  by code_simp



subsection \<open>A failed upload\<close>


text \<open>A system on which no connection can be made, and a server that cleans up after uploads.\<close>

definition cut_off_os :: os where
  "cut_off_os = plain_os\<lparr>os_ret := (\<lambda>tr c. case c of ConnectTo fd a \<Rightarrow> -1 | _ \<Rightarrow> os_ret plain_os tr c)\<rparr>"

definition cleaning_server :: tunables where
  "cleaning_server = tunables_load_defaults\<lparr>tunable_one_process_model := True, tunable_write_enable := True,
     tunable_delete_failed_uploads := True\<rparr>"

definition appending_session :: vsf_session where
  "appending_session = sample_session\<lparr>p_port_sockaddr := Some (Sa_In ''1235'' 5001), is_anonymous := False\<rparr>"

lemma cut_off [simp]:
  "os_ret cut_off_os tr (ConnectTo fd a) = -1" "os_ret cut_off_os tr (CloseFd n) = 0"
  "os_ret cut_off_os tr (Socket b) = 5" "os_ret cut_off_os tr (BindTo n a) = 0"
  "os_ret cut_off_os tr (Unlink p) = 0" "os_ret cut_off_os tr (DeactivateNoblock n) = 0"
  "os_ret cut_off_os tr (LseekEnd n) = 0" "os_stat cut_off_os tr c = Some plain_stat"
  "os_write cut_off_os tr t = int (length t)"
  by (simp_all add: cut_off_os_def plain_os_def)

lemma cleaning [simp]:
  "tunable_one_process_model cleaning_server" "tunable_delete_failed_uploads cleaning_server"
  "tunable_lock_upload_files cleaning_server" "\<not> tunable_log_ftp_protocol cleaning_server"
  "\<not> tunable_connect_from_port_20 cleaning_server"
  by (simp_all add: cleaning_server_def tunables_load_defaults_def)

lemma appending [simp]:
  "\<not> is_anonymous appending_session" "trace appending_session = []" "pasv_listen_fd appending_session = -1"
  "p_port_sockaddr appending_session = Some (Sa_In ''1235'' 5001)" "\<not> control_use_ssl appending_session"
  "p_local_addr appending_session = Sa_In ''1234'' 21"
  by (simp_all add: appending_session_def sample_session_def new_session_def)

lemma append_prepared:
  "upload_prepare cleaning_server cut_off_os 7 True False 0 appending_session = Inr
     (appending_session\<lparr>trace := [Sys (LseekEnd 7), Sys (LockWrite 7), Sys (DeactivateNoblock 7), Sys (Fstat 7)]\<rparr>)"
  by (simp add: upload_prepare_def vsf_sysutil_fstat_def sys_stat_def upload_chown_def sys_or_die_def sys_def
      plain_stat_def Let_def)

lemma append_cut_off:
  "\<exists>tr'. get_remote_transfer_fd cleaning_server cut_off_os ''Ok to send data.'' (appending_session\<lparr>trace := tr\<rparr>) =
     Inr (-1, appending_session\<lparr>abor_received := False, trace := tr'\<rparr>)"
  by (simp add: get_remote_transfer_fd_def active_eq listen_fd_def proc_of_def Let_def numeral_2_eq_2
      vsf_ftpdataio_get_port_fd_def vsf_one_process_get_priv_data_sock_def lifted_def
      vsf_sysutil_sockaddr_get_port_def vsf_privop_get_ftp_port_sock_def vsf_sysutil_get_ipsock_def sys_def
      vsf_sysutil_is_port_reserved_def vsf_sysutil_sockaddr_clone_def vsf_sysutil_sockaddr_set_port_def
      connect_data_def sys_or_die_def vsf_cmdio_write_def ftp_write_text_common_def ftp_write_str_common_def
      ftp_write_str_control_def str_netfd_write_def reply_line_def)
    (rule exI, rule refl)


end
