(* ===== verification/Fleet_Server.thy ===== *)
theory Fleet_Server
  imports Vsf_Edges Tpms2_Packet
begin

text \<open>
  The FTP server and the decoder together: the server's session calls \<open>fleet_analysis\<close> on each complete
  upload and answers with its report, see \<open>src/server/postlogin.c\<close>. The decoder's static variables live
  as long as the process of the session.
\<close>

subsection \<open>The decoder in the session\<close>

primcorec decoder_of :: "('f, 'c, 'q, 'n) arith \<Rightarrow> ('f, 'c, 'q, 'n) tpms2 \<Rightarrow> decoder" where
  "decoder_of A st =
     Decoder (\<lambda>content fn. map_sum id (map_prod id (decoder_of A)) (fleet_analysis (\<lambda>f. content) A fn st))"

lemma fleet_analysis_file: "fleet_analysis (\<lambda>f. fopen fn) A fn st = fleet_analysis fopen A fn st"
  by (simp add: fleet_analysis_def analyze_file_def)

lemma decode_decoder_of:
  "decode (decoder_of A st) (fopen fn) fn = map_sum id (map_prod id (decoder_of A)) (fleet_analysis fopen A fn st)"
  by (simp add: fleet_analysis_file)

subsection \<open>What the steps after a transfer add to the history\<close>

lemma and_then_InrE:
  assumes "and_then m f = Inr y"
  obtains x where "m = Inr x" "f x = Inr y"
  using assms by (cases m) auto

lemma and_then_Inr2E:
  assumes "and_then m f = Inr y"
  obtains a b where "m = Inr (a, b)" "f (a, b) = Inr y"
  using assms by (cases m) auto

text \<open>An operation that only adds events.\<close>

definition grows :: "vsf_session \<Rightarrow> vsf_session \<Rightarrow> event list \<Rightarrow> bool" where
  "grows s s' es \<longleftrightarrow> trace s' = es @ trace s \<and> tpms_decoder s' = tpms_decoder s"

lemma opt_log_grows:
  assumes "(if b then vsf_log_line T W what t s else Inr s) = Inr s'" "log_action what \<noteq> None"
  shows "\<exists>es. grows s s' es"
proof (cases b)
  case True
  with assms log_common_logs [OF assms(2), of T W True t s] show ?thesis
    by (auto simp: vsf_log_line_def adds_def grows_def)
qed (use assms(1) in \<open>simp add: grows_def\<close>)

lemma write_sends:
  assumes "vsf_cmdio_write T W status t s = Inr s'"
  shows "\<exists>es. grows s s' es \<and> Sent (reply_line status (CHR '' '') (c_str t)) \<in> set es"
proof -
  let ?l = "reply_line status (CHR '' '') (c_str t)"
  obtain s1 where s1: "(if tunable_log_ftp_protocol T
      then vsf_log_line T W kVSFLogEntryFTPOutput (fmt_lu status @ '' '' @ c_str t) s else Inr s) = Inr s1"
    and s2: "and_then (ftp_write_str_control W ?l s1) (\<lambda>(r, s). if r \<noteq> 0 then die ''ftp_write'' s else Inr s) = Inr s'"
    using assms unfolding vsf_cmdio_write_def ftp_write_text_common_def ftp_write_str_common_def append.simps
    by (rule and_then_InrE)
  from s2 have s2: "ftp_write_str_control W ?l s1 = Inr (0, s')"
    by (rule and_then_InrE) (auto simp: die_def split: if_splits)
  obtain es where es: "grows s s1 es" using opt_log_grows [OF s1] by auto
  have "grows s1 s' [Sent ?l]"
    using s2 by (auto simp: ftp_write_str_control_def str_netfd_write_def grows_def Let_def reply_line_def split: if_splits)
  with es show ?thesis by (intro exI [of _ "Sent ?l # es"]) (simp add: grows_def)
qed

lemma check_abor_grows:
  assumes "check_abor T W s = Inr s'"
  shows "\<exists>es. grows s s' es"
  using assms write_sends [of T W FTP_ABOROK "''ABOR successful.''" "s\<lparr>abor_received := False\<rparr>" s']
  by (auto simp: check_abor_def grows_def split: if_splits)

subsection \<open>The reply\<close>

lemma upload_reply_reports:
  assumes "upload_reply T W fname 0 s = Inr s'"
  shows "\<exists>rep es. decode (tpms_decoder s) (os_file W (trace s) (c_str fname)) (c_str fname) = Inr (rep, tpms_decoder s') \<and>
    trace s' = es @ Sys (ReadFile (c_str fname)) # trace s \<and>
    Sent (reply_line FTP_TRANSFEROK (CHR '' '') (c_str rep)) \<in> set es"
proof -
  obtain rep d where d: "decode (tpms_decoder s) (os_file W (trace s) (c_str fname)) (c_str fname) = Inr (rep, d)"
    using assms by (auto simp: upload_reply_def analysed_def split: sum.splits)
  define s1 where "s1 = note_event (Sys (ReadFile (c_str fname))) (s\<lparr>tpms_decoder := d\<rparr>)"
  have "and_then (vsf_log_line T W kVSFLogEntryDebug (c_str rep) s1) (vsf_cmdio_write T W FTP_TRANSFEROK rep) = Inr s'"
    using assms d by (simp add: upload_reply_def analysed_def s1_def)
  then obtain s2 where s2: "vsf_log_line T W kVSFLogEntryDebug (c_str rep) s1 = Inr s2"
    "vsf_cmdio_write T W FTP_TRANSFEROK rep s2 = Inr s'"
    by (rule and_then_InrE)
  obtain es fs where "grows s1 s2 es" "grows s2 s' fs" "Sent (reply_line FTP_TRANSFEROK (CHR '' '') (c_str rep)) \<in> set fs"
    using opt_log_grows [of True, OF _ Debug_action] write_sends [OF s2(2)] s2(1) by force
  with d show ?thesis
    by (intro exI [of _ rep] exI [of _ "fs @ es"]) (simp add: grows_def s1_def)
qed

text \<open>The steps of a complete upload up to its reply leave the decoder as it is.\<close>

lemma upload_receive_reply:
  assumes s: "sound T an ra s" "log_type s \<noteq> 0" "data_fd s \<noteq> -1"
    and up: "upload_receive T W fname remote_fd fd s = Inr (True, s')"
  shows "\<exists>s1 s2. tpms_decoder s1 = tpms_decoder s \<and> upload_reply T W fname 0 s1 = Inr s2 \<and>
    check_abor T W s2 = Inr s'"
proof -
  obtain tr sa where a: "vsf_ftpdataio_transfer_file T W remote_fd fd True
      (tunable_ascii_upload_enable T \<and> is_ascii s) s = Inr (tr, sa)"
    and up1: "and_then (vsf_ftpdataio_dispose_transfer_fd T W sa) (\<lambda>(d, s).
      let r = (if d \<noteq> 1 \<and> retval tr = 0 then -2 else retval tr); s = s\<lparr>transfer_size := int (transferred tr)\<rparr> in
      and_then (if r = 0 then vsf_log_do_log T W True s else Inr s) (\<lambda>s.
      and_then (upload_reply T W fname r s) (\<lambda>s.
      and_then (check_abor T W s) (\<lambda>s. Inr (r = 0, s))))) = Inr (True, s')"
    using up unfolding upload_receive_def by (rule and_then_Inr2E) (rule that, assumption, unfold split_conv, assumption)
  have "ends (Inr (tr, sa)) (fails T an ra) (\<lambda>(tr :: vsf_transfer_ret, s'). kept T an ra (log_type s) s s')"
    unfolding a [symmetric] by (rule transfer_file_kept [OF s(1)]) simp
  then have ka: "kept T an ra (log_type s) s sa" by simp
  obtain d sb where b: "vsf_ftpdataio_dispose_transfer_fd T W sa = Inr (d, sb)"
    and up2: "(let r = (if d \<noteq> 1 \<and> retval tr = 0 then -2 else retval tr); s = sb\<lparr>transfer_size := int (transferred tr)\<rparr> in
      and_then (if r = 0 then vsf_log_do_log T W True s else Inr s) (\<lambda>s.
      and_then (upload_reply T W fname r s) (\<lambda>s.
      and_then (check_abor T W s) (\<lambda>s. Inr (r = 0, s))))) = Inr (True, s')"
    using up1 by (rule and_then_Inr2E) (rule that, assumption, unfold split_conv, assumption)
  have "ends (Inr (d, sb)) (fails T an ra) (\<lambda>(d :: int, s'). kept T an ra (log_type sa) (sa\<lparr>data_fd := -1\<rparr>) s')"
    unfolding b [symmetric] by (rule dispose_kept [OF kept_sound [OF ka]]) (use s(3) ka in \<open>simp_all add: kept_def\<close>)
  then have kb: "kept T an ra (log_type sa) (sa\<lparr>data_fd := -1\<rparr>) sb" by simp
  define r where "r = (if d \<noteq> 1 \<and> retval tr = 0 then -2 else retval tr)"
  define sc where "sc = sb\<lparr>transfer_size := int (transferred tr)\<rparr>"
  obtain sd where sd: "(if r = 0 then vsf_log_do_log T W True sc else Inr sc) = Inr sd"
    and up3: "and_then (upload_reply T W fname r sd) (\<lambda>s. and_then (check_abor T W s) (\<lambda>s. Inr (r = 0, s))) = Inr (True, s')"
    using up2 unfolding Let_def r_def [symmetric] sc_def [symmetric] by (rule and_then_InrE)
  obtain se where se: "upload_reply T W fname r sd = Inr se"
    and up4: "and_then (check_abor T W se) (\<lambda>s. Inr (r = 0, s)) = Inr (True, s')"
    using up3 by (rule and_then_InrE)
  from up4 have r: "r = 0" "check_abor T W se = Inr s'" by (auto elim: and_then_InrE)
  have "kept T an ra 0 sc sd"
    using do_log_kept [of T an ra sc "kept T an ra 0 sc" W True] sd r(1) ka kb s
    by (auto simp: sc_def kept_def)
  with ka kb se r show ?thesis by (auto simp: kept_def sc_def)
qed

subsection \<open>Claims\<close>

text \<open>
  C2. A complete upload is answered with the decoder's report on the uploaded file: the file that
  \<open>fleet_analysis\<close> opens under the name of the upload is analysed in the state the decoder was left in,
  the reply is 226 with the report, which is one of those C1 allows, and the session goes on with the
  decoder's new state.
\<close>

theorem upload_reported:
  assumes "sound T an ra s" "log_type s \<noteq> 0" "data_fd s \<noteq> -1"
    and "tpms_decoder s = decoder_of A st" "length (bits st) = 141" "length (symbols st) = 70"
    and "upload_receive T W fname remote_fd fd s = Inr (True, s')"
  shows "\<exists>before after report st'.
    fleet_analysis (os_file W before) A (c_str fname) st = Inr (report, st') \<and>
    reply_ok (c_str fname) (report, st') \<and> tpms_decoder s' = decoder_of A st' \<and>
    trace s' = after @ Sys (ReadFile (c_str fname)) # before \<and>
    Sent (reply_line FTP_TRANSFEROK (CHR '' '') (c_str report)) \<in> set after"
proof -
  obtain s1 s2 where s1: "tpms_decoder s1 = decoder_of A st" "upload_reply T W fname 0 s1 = Inr s2"
    and s2: "check_abor T W s2 = Inr s'"
    using upload_receive_reply [OF assms(1-3,7)] assms(4) by auto
  obtain report es where es: "decode (decoder_of A st) (os_file W (trace s1) (c_str fname)) (c_str fname) =
      Inr (report, tpms_decoder s2)"
    "trace s2 = es @ Sys (ReadFile (c_str fname)) # trace s1"
    "Sent (reply_line FTP_TRANSFEROK (CHR '' '') (c_str report)) \<in> set es"
    using upload_reply_reports [OF s1(2)] s1(1) by auto
  obtain st' where st': "fleet_analysis (os_file W (trace s1)) A (c_str fname) st = Inr (report, st')"
    "tpms_decoder s2 = decoder_of A st'"
    using es(1) unfolding decode_decoder_of
    by (cases "fleet_analysis (os_file W (trace s1)) A (c_str fname) st") auto
  have "reply_ok (c_str fname) (report, st')"
    using analysis_reply [OF assms(5,6), of "os_file W (trace s1)" A "c_str fname"] st'(1) by simp
  moreover obtain fs where "grows s2 s' fs" using check_abor_grows [OF s2] by blast
  ultimately show ?thesis
    using st' es
    by (intro exI [of _ "trace s1"] exI [of _ "fs @ es"] exI [of _ report] exI [of _ st']) (simp add: grows_def)
qed

text \<open>An upload of an empty file.\<close>

definition receiving_os :: os where
  "receiving_os = plain_os\<lparr>os_reads := (\<lambda>tr. [Inr []])\<rparr>"

definition uploading_session :: vsf_session where
  "uploading_session = sample_session\<lparr>data_fd := 6, log_type := kVSFLogEntryUpload,
     tpms_decoder := decoder_of rat_receiver initial_state\<rparr>"

lemma empty_file: "holds (fleet_analysis (\<lambda>f. Some []) rat_receiver ''a'' initial_state) (\<lambda>e. False) (\<lambda>(t, st'). t = '',,,a'')"
  by code_simp

lemma receiving [simp]:
  "os_reads receiving_os tr = [Inr []]" "os_file receiving_os tr f = Some []" "os_signals receiving_os tr = []"
  "os_ret receiving_os tr (CloseFailok n) = 0" "os_write receiving_os tr t = int (length t)"
  by (simp_all add: receiving_os_def plain_os_def)

lemma uploading [simp]:
  "data_fd uploading_session = 6" "log_type uploading_session = kVSFLogEntryUpload" "trace uploading_session = []"
  "\<not> data_use_ssl uploading_session" "\<not> control_use_ssl uploading_session" "vsftpd_log_fd uploading_session = -1"
  "xferlog_fd uploading_session = -1" "\<not> abor_received uploading_session" "\<not> data_timeout uploading_session"
  "tpms_decoder uploading_session = decoder_of rat_receiver initial_state"
  by (simp_all add: uploading_session_def sample_session_def new_session_def)

lemma uploading_sound: "sound tunables_load_defaults True (Sa_In ''1235'' 5000) uploading_session"
  using sample_idle by (auto simp: uploading_session_def idle_def regular_def log_action_def log_entry_defs)

lemma defaults [simp]:
  "\<not> tunable_ascii_upload_enable tunables_load_defaults" "\<not> tunable_syslog_enable tunables_load_defaults"
  "\<not> tunable_log_ftp_protocol tunables_load_defaults"
  by (simp_all add: tunables_load_defaults_def)

lemma empty_transfer:
  "vsf_ftpdataio_transfer_file tunables_load_defaults receiving_os 6 7 True False uploading_session =
     Inr (\<lparr>retval = 0, transferred = 0\<rparr>, note_event (Sys (Transfer 6 7)) (uploading_session\<lparr>data_progress := data_progress uploading_session\<rparr>))"
  by (simp add: vsf_ftpdataio_transfer_file_def transferred_file_def transfer_reads_def clip_def do_file_recv_def
      next_read_def numeral_eq_Suc lifted_def)

lemma empty_upload_receive:
  "\<exists>s'. upload_receive tunables_load_defaults receiving_os ''a'' 6 7 uploading_session = Inr (True, s')"
proof -
  obtain st' where "fleet_analysis (\<lambda>f. Some []) rat_receiver ''a'' initial_state = Inr ('',,,a'', st')"
    using empty_file by (auto simp: holds_def split: sum.splits)
  then show ?thesis
    by (simp add: upload_receive_def empty_transfer vsf_ftpdataio_dispose_transfer_fd_def sys_def pending_signals_def
        vsf_log_do_log_def vsf_log_common_def upload_reply_def analysed_def c_str_def check_abor_def
        vsf_log_line_def vsf_cmdio_write_def ftp_write_text_common_def ftp_write_str_common_def
        ftp_write_str_control_def str_netfd_write_def reply_line_def Let_def)
qed

theorem upload_reported_witness:
  "\<exists>s' before after report st'.
    upload_receive tunables_load_defaults receiving_os ''a'' 6 7 uploading_session = Inr (True, s') \<and>
    fleet_analysis (os_file receiving_os before) rat_receiver ''a'' initial_state = Inr (report, st') \<and>
    reply_ok ''a'' (report, st') \<and> tpms_decoder s' = decoder_of rat_receiver st' \<and>
    trace s' = after @ Sys (ReadFile ''a'') # before \<and>
    Sent (reply_line FTP_TRANSFEROK (CHR '' '') (c_str report)) \<in> set after"
proof -
  obtain s' where s': "upload_receive tunables_load_defaults receiving_os ''a'' 6 7 uploading_session = Inr (True, s')"
    using empty_upload_receive by blast
  with upload_reported [OF uploading_sound _ _ _ _ _ s', of rat_receiver initial_state] show ?thesis
    by (auto simp: c_str_def initial_state_def log_entry_defs)
qed

end
