(* ===== verification/Parseconf.thy ===== *)
theory Parseconf
  imports Ftp_Cmdio Vsf_Start Str_Search Ip_Addr_Parse
begin

text \<open>
  The configuration file, \<open>src/server/vsftpd-3.0.3/parseconf.c\<close>: the tables of the settings, one line of a
  file or option of the command line, and the loading of a file, with what ends the process and what is
  passed over when errors are not fatal; and the reload of the listener (\<open>handle_sighup\<close> of
  \<open>standalone.c\<close>).

  The lemmas say which files are accepted, and that a file with all the settings written out sets every
  one of them.
\<close>

subsection \<open>The tables\<close>

text \<open>
  A variable of the program is what reads it from the settings and what changes it there; a table gives
  every name its variable.
\<close>

type_synonym 'a variable = "(tunables \<Rightarrow> 'a) \<times> (('a \<Rightarrow> 'a) \<Rightarrow> tunables \<Rightarrow> tunables)"

type_synonym 'a table = "(string \<times> 'a variable) list"

definition parseconf_bool_array :: "bool table" where
  "parseconf_bool_array = [
    (''anonymous_enable'', tunable_anonymous_enable, tunable_anonymous_enable_update),
    (''local_enable'', tunable_local_enable, tunable_local_enable_update),
    (''pasv_enable'', tunable_pasv_enable, tunable_pasv_enable_update),
    (''port_enable'', tunable_port_enable, tunable_port_enable_update),
    (''chroot_local_user'', tunable_chroot_local_user, tunable_chroot_local_user_update),
    (''write_enable'', tunable_write_enable, tunable_write_enable_update),
    (''anon_upload_enable'', tunable_anon_upload_enable, tunable_anon_upload_enable_update),
    (''anon_mkdir_write_enable'', tunable_anon_mkdir_write_enable, tunable_anon_mkdir_write_enable_update),
    (''anon_other_write_enable'', tunable_anon_other_write_enable, tunable_anon_other_write_enable_update),
    (''chown_uploads'', tunable_chown_uploads, tunable_chown_uploads_update),
    (''connect_from_port_20'', tunable_connect_from_port_20, tunable_connect_from_port_20_update),
    (''xferlog_enable'', tunable_xferlog_enable, tunable_xferlog_enable_update),
    (''dirmessage_enable'', tunable_dirmessage_enable, tunable_dirmessage_enable_update),
    (''anon_world_readable_only'', tunable_anon_world_readable_only, tunable_anon_world_readable_only_update),
    (''async_abor_enable'', tunable_async_abor_enable, tunable_async_abor_enable_update),
    (''ascii_upload_enable'', tunable_ascii_upload_enable, tunable_ascii_upload_enable_update),
    (''ascii_download_enable'', tunable_ascii_download_enable, tunable_ascii_download_enable_update),
    (''one_process_model'', tunable_one_process_model, tunable_one_process_model_update),
    (''xferlog_std_format'', tunable_xferlog_std_format, tunable_xferlog_std_format_update),
    (''pasv_promiscuous'', tunable_pasv_promiscuous, tunable_pasv_promiscuous_update),
    (''deny_email_enable'', tunable_deny_email_enable, tunable_deny_email_enable_update),
    (''chroot_list_enable'', tunable_chroot_list_enable, tunable_chroot_list_enable_update),
    (''setproctitle_enable'', tunable_setproctitle_enable, tunable_setproctitle_enable_update),
    (''text_userdb_names'', tunable_text_userdb_names, tunable_text_userdb_names_update),
    (''ls_recurse_enable'', tunable_ls_recurse_enable, tunable_ls_recurse_enable_update),
    (''log_ftp_protocol'', tunable_log_ftp_protocol, tunable_log_ftp_protocol_update),
    (''guest_enable'', tunable_guest_enable, tunable_guest_enable_update),
    (''userlist_enable'', tunable_userlist_enable, tunable_userlist_enable_update),
    (''userlist_deny'', tunable_userlist_deny, tunable_userlist_deny_update),
    (''use_localtime'', tunable_use_localtime, tunable_use_localtime_update),
    (''check_shell'', tunable_check_shell, tunable_check_shell_update),
    (''hide_ids'', tunable_hide_ids, tunable_hide_ids_update),
    (''listen'', tunable_listen, tunable_listen_update),
    (''port_promiscuous'', tunable_port_promiscuous, tunable_port_promiscuous_update),
    (''passwd_chroot_enable'', tunable_passwd_chroot_enable, tunable_passwd_chroot_enable_update),
    (''no_anon_password'', tunable_no_anon_password, tunable_no_anon_password_update),
    (''tcp_wrappers'', tunable_tcp_wrappers, tunable_tcp_wrappers_update),
    (''use_sendfile'', tunable_use_sendfile, tunable_use_sendfile_update),
    (''force_dot_files'', tunable_force_dot_files, tunable_force_dot_files_update),
    (''listen_ipv6'', tunable_listen_ipv6, tunable_listen_ipv6_update),
    (''dual_log_enable'', tunable_dual_log_enable, tunable_dual_log_enable_update),
    (''syslog_enable'', tunable_syslog_enable, tunable_syslog_enable_update),
    (''background'', tunable_background, tunable_background_update),
    (''virtual_use_local_privs'', tunable_virtual_use_local_privs, tunable_virtual_use_local_privs_update),
    (''session_support'', tunable_session_support, tunable_session_support_update),
    (''download_enable'', tunable_download_enable, tunable_download_enable_update),
    (''dirlist_enable'', tunable_dirlist_enable, tunable_dirlist_enable_update),
    (''chmod_enable'', tunable_chmod_enable, tunable_chmod_enable_update),
    (''secure_email_list_enable'', tunable_secure_email_list_enable, tunable_secure_email_list_enable_update),
    (''run_as_launching_user'', tunable_run_as_launching_user, tunable_run_as_launching_user_update),
    (''no_log_lock'', tunable_no_log_lock, tunable_no_log_lock_update),
    (''ssl_enable'', tunable_ssl_enable, tunable_ssl_enable_update),
    (''allow_anon_ssl'', tunable_allow_anon_ssl, tunable_allow_anon_ssl_update),
    (''force_local_logins_ssl'', tunable_force_local_logins_ssl, tunable_force_local_logins_ssl_update),
    (''force_local_data_ssl'', tunable_force_local_data_ssl, tunable_force_local_data_ssl_update),
    (''ssl_sslv2'', tunable_sslv2, tunable_sslv2_update),
    (''ssl_sslv3'', tunable_sslv3, tunable_sslv3_update),
    (''ssl_tlsv1'', tunable_tlsv1, tunable_tlsv1_update),
    (''tilde_user_enable'', tunable_tilde_user_enable, tunable_tilde_user_enable_update),
    (''force_anon_logins_ssl'', tunable_force_anon_logins_ssl, tunable_force_anon_logins_ssl_update),
    (''force_anon_data_ssl'', tunable_force_anon_data_ssl, tunable_force_anon_data_ssl_update),
    (''mdtm_write'', tunable_mdtm_write, tunable_mdtm_write_update),
    (''lock_upload_files'', tunable_lock_upload_files, tunable_lock_upload_files_update),
    (''pasv_addr_resolve'', tunable_pasv_addr_resolve, tunable_pasv_addr_resolve_update),
    (''debug_ssl'', tunable_debug_ssl, tunable_debug_ssl_update),
    (''require_cert'', tunable_require_cert, tunable_require_cert_update),
    (''validate_cert'', tunable_validate_cert, tunable_validate_cert_update),
    (''strict_ssl_read_eof'', tunable_strict_ssl_read_eof, tunable_strict_ssl_read_eof_update),
    (''strict_ssl_write_shutdown'', tunable_strict_ssl_write_shutdown, tunable_strict_ssl_write_shutdown_update),
    (''ssl_request_cert'', tunable_ssl_request_cert, tunable_ssl_request_cert_update),
    (''delete_failed_uploads'', tunable_delete_failed_uploads, tunable_delete_failed_uploads_update),
    (''implicit_ssl'', tunable_implicit_ssl, tunable_implicit_ssl_update),
    (''ptrace_sandbox'', tunable_ptrace_sandbox, tunable_ptrace_sandbox_update),
    (''require_ssl_reuse'', tunable_require_ssl_reuse, tunable_require_ssl_reuse_update),
    (''isolate'', tunable_isolate, tunable_isolate_update),
    (''isolate_network'', tunable_isolate_network, tunable_isolate_network_update),
    (''ftp_enable'', tunable_ftp_enable, tunable_ftp_enable_update),
    (''http_enable'', tunable_http_enable, tunable_http_enable_update),
    (''seccomp_sandbox'', tunable_seccomp_sandbox, tunable_seccomp_sandbox_update),
    (''allow_writeable_chroot'', tunable_allow_writeable_chroot, tunable_allow_writeable_chroot_update)]"

definition parseconf_uint_array :: "nat table" where
  "parseconf_uint_array = [
    (''accept_timeout'', tunable_accept_timeout, tunable_accept_timeout_update),
    (''connect_timeout'', tunable_connect_timeout, tunable_connect_timeout_update),
    (''local_umask'', \<lambda>T. unat (tunable_local_umask T), \<lambda>f. tunable_local_umask_update (\<lambda>w. of_nat (f (unat w)))),
    (''anon_umask'', \<lambda>T. unat (tunable_anon_umask T), \<lambda>f. tunable_anon_umask_update (\<lambda>w. of_nat (f (unat w)))),
    (''ftp_data_port'', tunable_ftp_data_port, tunable_ftp_data_port_update),
    (''idle_session_timeout'', tunable_idle_session_timeout, tunable_idle_session_timeout_update),
    (''data_connection_timeout'', tunable_data_connection_timeout, tunable_data_connection_timeout_update),
    (''pasv_min_port'', tunable_pasv_min_port, tunable_pasv_min_port_update),
    (''pasv_max_port'', tunable_pasv_max_port, tunable_pasv_max_port_update),
    (''anon_max_rate'', tunable_anon_max_rate, tunable_anon_max_rate_update),
    (''local_max_rate'', tunable_local_max_rate, tunable_local_max_rate_update),
    (''listen_port'', tunable_listen_port, tunable_listen_port_update),
    (''max_clients'', tunable_max_clients, tunable_max_clients_update),
    (''file_open_mode'', tunable_file_open_mode, tunable_file_open_mode_update),
    (''max_per_ip'', tunable_max_per_ip, tunable_max_per_ip_update),
    (''trans_chunk_size'', tunable_trans_chunk_size, tunable_trans_chunk_size_update),
    (''delay_failed_login'', tunable_delay_failed_login, tunable_delay_failed_login_update),
    (''delay_successful_login'', tunable_delay_successful_login, tunable_delay_successful_login_update),
    (''max_login_fails'', tunable_max_login_fails, tunable_max_login_fails_update),
    (''chown_upload_mode'', tunable_chown_upload_mode, tunable_chown_upload_mode_update)]"

definition parseconf_str_array :: "string option table" where
  "parseconf_str_array = [
    (''secure_chroot_dir'', tunable_secure_chroot_dir, tunable_secure_chroot_dir_update),
    (''ftp_username'', tunable_ftp_username, tunable_ftp_username_update),
    (''chown_username'', tunable_chown_username, tunable_chown_username_update),
    (''xferlog_file'', tunable_xferlog_file, tunable_xferlog_file_update),
    (''vsftpd_log_file'', tunable_vsftpd_log_file, tunable_vsftpd_log_file_update),
    (''message_file'', tunable_message_file, tunable_message_file_update),
    (''nopriv_user'', tunable_nopriv_user, tunable_nopriv_user_update),
    (''ftpd_banner'', tunable_ftpd_banner, tunable_ftpd_banner_update),
    (''banned_email_file'', tunable_banned_email_file, tunable_banned_email_file_update),
    (''chroot_list_file'', tunable_chroot_list_file, tunable_chroot_list_file_update),
    (''pam_service_name'', tunable_pam_service_name, tunable_pam_service_name_update),
    (''guest_username'', tunable_guest_username, tunable_guest_username_update),
    (''userlist_file'', tunable_userlist_file, tunable_userlist_file_update),
    (''anon_root'', tunable_anon_root, tunable_anon_root_update),
    (''local_root'', tunable_local_root, tunable_local_root_update),
    (''banner_file'', tunable_banner_file, tunable_banner_file_update),
    (''pasv_address'', tunable_pasv_address, tunable_pasv_address_update),
    (''listen_address'', tunable_listen_address, tunable_listen_address_update),
    (''user_config_dir'', tunable_user_config_dir, tunable_user_config_dir_update),
    (''listen_address6'', tunable_listen_address6, tunable_listen_address6_update),
    (''cmds_allowed'', tunable_cmds_allowed, tunable_cmds_allowed_update),
    (''hide_file'', tunable_hide_file, tunable_hide_file_update),
    (''deny_file'', tunable_deny_file, tunable_deny_file_update),
    (''user_sub_token'', tunable_user_sub_token, tunable_user_sub_token_update),
    (''email_password_file'', tunable_email_password_file, tunable_email_password_file_update),
    (''rsa_cert_file'', tunable_rsa_cert_file, tunable_rsa_cert_file_update),
    (''dsa_cert_file'', tunable_dsa_cert_file, tunable_dsa_cert_file_update),
    (''ssl_ciphers'', tunable_ssl_ciphers, tunable_ssl_ciphers_update),
    (''rsa_private_key_file'', tunable_rsa_private_key_file, tunable_rsa_private_key_file_update),
    (''dsa_private_key_file'', tunable_dsa_private_key_file, tunable_dsa_private_key_file_update),
    (''ca_certs_file'', tunable_ca_certs_file, tunable_ca_certs_file_update),
    (''cmds_denied'', tunable_cmds_denied, tunable_cmds_denied_update)]"

definition set_variable :: "'a variable \<Rightarrow> 'a \<Rightarrow> tunables \<Rightarrow> tunables" where
  "set_variable p_variable x = snd p_variable (\<lambda>_. x)"

subsection \<open>A setting\<close>

text \<open>A message stands for the call of \<open>die\<close> with it.\<close>

definition die2_text :: "string \<Rightarrow> string option \<Rightarrow> string" where
  "die2_text p_text1 p_text2 = p_text1 @ (case p_text2 of None \<Rightarrow> ''(null)'' | Some t \<Rightarrow> t)"

definition bool_setting :: "string \<Rightarrow> bool option" where
  "bool_setting val =
     (let v = s_upper val in
      if v = ''YES'' \<or> v = ''TRUE'' \<or> v = ''1'' then Some True
      else if v = ''NO'' \<or> v = ''FALSE'' \<or> v = ''0'' then Some False
      else None)"

definition uint_setting :: "string \<Rightarrow> nat" where
  "uint_setting val =
     (if val \<noteq> [] \<and> hd val = CHR ''0'' then unat (vsf_sysutil_octal_to_uint val)
      else nat (vsf_sysutil_atoi val mod 2 ^ 32))"

definition vsf_parseconf_load_setting :: "string \<Rightarrow> bool \<Rightarrow> tunables \<Rightarrow> string + tunables" where
  "vsf_parseconf_load_setting p_setting errs_fatal T =
     (let (setting, val) = s_split_char (CHR ''='') (dropWhile vsf_sysutil_isspace (c_str p_setting)) in
      case map_of parseconf_str_array setting of
        Some v \<Rightarrow> Inr (set_variable v (if val = [] then None else Some val) T)
      | None \<Rightarrow>
          if val = []
          then if errs_fatal then Inl (die2_text ''missing value in config file for: '' (Some setting)) else Inr T
          else case map_of parseconf_bool_array setting of
            Some v \<Rightarrow>
              (case bool_setting val of
                 Some b \<Rightarrow> Inr (set_variable v b T)
               | None \<Rightarrow> if errs_fatal then Inl (die2_text ''bad bool value in config file for: '' (Some setting))
                   else Inr T)
          | None \<Rightarrow>
              case map_of parseconf_uint_array setting of
                Some v \<Rightarrow> Inr (set_variable v (uint_setting val) T)
              | None \<Rightarrow>
                  if errs_fatal then Inl (die2_text ''unrecognised variable in config file: '' (Some setting))
                  else Inr T)"

subsection \<open>A file\<close>

definition skipped_line :: "string \<Rightarrow> bool" where
  "skipped_line l \<longleftrightarrow> l = [] \<or> hd l = CHR ''#'' \<or> list_all vsf_sysutil_isspace l"

fun load_lines :: "bool \<Rightarrow> string list \<Rightarrow> tunables \<Rightarrow> string + tunables" where
  "load_lines errs_fatal [] T = Inr T"
| "load_lines errs_fatal (l # ls) T =
     (if skipped_line l then load_lines errs_fatal ls T
      else case vsf_parseconf_load_setting l errs_fatal T of
        Inl e \<Rightarrow> Inl e
      | Inr T' \<Rightarrow> load_lines errs_fatal ls T')"

definition VSFTP_CONF_FILE_MAX :: nat where
  "VSFTP_CONF_FILE_MAX = 100000"

text \<open>The contents of a file, or nothing when it cannot be read.\<close>

definition str_fileread_checked :: "os \<Rightarrow> string \<Rightarrow> nat \<Rightarrow> vsf_session \<Rightarrow> string option \<times> vsf_session" where
  "str_fileread_checked W p_filename maxsize s =
     (let (t, s) = sys_text W (ReadFile p_filename) s in (map_option (take maxsize) t, s))"

text \<open>The name of the file is kept for the reload, which gives none.\<close>

record parseconf =
  s_p_saved_filename :: "string option"
  settings :: tunables

definition vsf_parseconf_load_file ::
    "os \<Rightarrow> string option \<Rightarrow> bool \<Rightarrow> parseconf \<Rightarrow> vsf_session \<Rightarrow> (parseconf \<times> vsf_session) run" where
  "vsf_parseconf_load_file W p_filename errs_fatal C s =
     (let C = (case p_filename of None \<Rightarrow> C | Some f \<Rightarrow> C\<lparr>s_p_saved_filename := Some f\<rparr>) in
      case s_p_saved_filename C of
        None \<Rightarrow> bug ''null filename in vsf_parseconf_load_file'' s
      | Some f \<Rightarrow>
          let (t, s) = str_fileread_checked W f VSFTP_CONF_FILE_MAX s in
          case t of
            None \<Rightarrow>
              if errs_fatal then die (die2_text ''cannot read config file: '' (Some f)) s else Inr (C, s)
          | Some config_file_str \<Rightarrow>
              let (st, s) = sys_stat W (Stat f) s;
                  (uid, s) = sys W Getuid s
              in if (case st of None \<Rightarrow> True | Some st \<Rightarrow> st_uid st \<noteq> uid \<or> \<not> st_regfile st)
                 then die ''config file not owned by correct user, or not a file'' s
                 else case load_lines errs_fatal (text_lines config_file_str 0) (settings C) of
                   Inl e \<Rightarrow> die e s
                 | Inr T \<Rightarrow> Inr (C\<lparr>settings := T\<rparr>, s))"

text \<open>The listener reads its settings anew.\<close>

definition handle_sighup :: "os \<Rightarrow> parseconf \<Rightarrow> vsf_session \<Rightarrow> (parseconf \<times> vsf_session) run" where
  "handle_sighup W C s = vsf_parseconf_load_file W None False (C\<lparr>settings := tunables_load_defaults\<rparr>) s"

subsection \<open>Which files are accepted\<close>

text \<open>What a line of the file must be, whatever the settings were before.\<close>

definition setting_ok :: "string \<Rightarrow> bool" where
  "setting_ok p_setting =
     (let (setting, val) = s_split_char (CHR ''='') (dropWhile vsf_sysutil_isspace (c_str p_setting)) in
      setting \<in> fst ` set parseconf_str_array \<or>
      val \<noteq> [] \<and>
        (if setting \<in> fst ` set parseconf_bool_array then bool_setting val \<noteq> None
         else setting \<in> fst ` set parseconf_uint_array))"

definition line_ok :: "string \<Rightarrow> bool" where
  "line_ok l \<longleftrightarrow> skipped_line l \<or> setting_ok l"

lemma load_setting_ok:
  "if setting_ok l then \<exists>T'. \<forall>errs_fatal. vsf_parseconf_load_setting l errs_fatal T = Inr T'
   else (\<exists>e. vsf_parseconf_load_setting l True T = Inl e) \<and> vsf_parseconf_load_setting l False T = Inr T"
proof -
  obtain setting val where sv: "s_split_char (CHR ''='') (dropWhile vsf_sysutil_isspace (c_str l)) = (setting, val)"
    by (cases "s_split_char (CHR ''='') (dropWhile vsf_sysutil_isspace (c_str l))")
  note d = setting_ok_def vsf_parseconf_load_setting_def sv Let_def split_conv
  have str: "(setting \<in> fst ` set parseconf_str_array) = (map_of parseconf_str_array setting \<noteq> None)"
    and bool: "(setting \<in> fst ` set parseconf_bool_array) = (map_of parseconf_bool_array setting \<noteq> None)"
    and uint: "(setting \<in> fst ` set parseconf_uint_array) = (map_of parseconf_uint_array setting \<noteq> None)"
    by (auto simp: map_of_eq_None_iff)
  show ?thesis
  proof (cases "map_of parseconf_str_array setting")
    case None
    show ?thesis
    proof (cases "val = []")
      case False
      show ?thesis unfolding d str bool uint
        by (cases "map_of parseconf_bool_array setting"; cases "map_of parseconf_uint_array setting";
            cases "bool_setting val") (simp_all add: None False)
    qed (simp add: d str None)
  qed (simp add: d str)
qed

lemma load_lines_step:
  "if line_ok l then \<exists>T'. \<forall>errs_fatal ls. load_lines errs_fatal (l # ls) T = load_lines errs_fatal ls T'
   else (\<exists>e. \<forall>ls. load_lines True (l # ls) T = Inl e) \<and>
     (\<forall>ls. load_lines False (l # ls) T = load_lines False ls T)"
proof (cases "skipped_line l")
  case False
  then show ?thesis using load_setting_ok [of l T] by (auto simp: line_ok_def split: if_splits)
qed (auto simp: line_ok_def)

lemma load_lines_ok: "(\<exists>T'. load_lines True ls T = Inr T') = list_all line_ok ls"
proof (induction ls arbitrary: T)
  case (Cons l ls)
  show ?case
  proof (cases "line_ok l")
    case True
    with load_lines_step [of l T] obtain T' where "load_lines True (l # ls) T = load_lines True ls T'" by auto
    with Cons.IH [of T'] True show ?thesis by simp
  next
    case False
    with load_lines_step [of l T] show ?thesis by (auto simp del: load_lines.simps)
  qed
qed simp

lemma load_lines_forgiving: "load_lines False ls T = load_lines True (filter line_ok ls) T"
proof (induction ls arbitrary: T)
  case (Cons l ls)
  then show ?case using load_lines_step [of l T] by (auto simp del: load_lines.simps split: if_splits)
qed simp


subsection \<open>Writing all settings out\<close>

definition str_lines :: "tunables \<Rightarrow> string list" where
  "str_lines T = map (\<lambda>(n, g, u). n @ ''='' @ (case g T of None \<Rightarrow> [] | Some t \<Rightarrow> t)) parseconf_str_array"

definition bool_lines :: "tunables \<Rightarrow> string list" where
  "bool_lines T = map (\<lambda>(n, g, u). n @ ''='' @ (if g T then ''YES'' else ''NO'')) parseconf_bool_array"

definition uint_lines :: "tunables \<Rightarrow> string list" where
  "uint_lines T = map (\<lambda>(n, g, u). n @ ''='' @ fmt_lu (g T)) parseconf_uint_array"

definition conf_lines :: "tunables \<Rightarrow> string list" where
  "conf_lines T = str_lines T @ bool_lines T @ uint_lines T"

definition conf_text :: "tunables \<Rightarrow> string" where
  "conf_text T = concat (map (\<lambda>l. l @ [CHR 0x0A]) (conf_lines T))"

text \<open>Settings a file can express: 32-bit numbers, and texts of one line that are not empty.\<close>

definition expressible :: "tunables \<Rightarrow> bool" where
  "expressible T \<longleftrightarrow>
     list_all (\<lambda>(n, g, u). g T < 2 ^ 32) parseconf_uint_array \<and>
     list_all (\<lambda>(n, g, u). case g T of None \<Rightarrow> True | Some t \<Rightarrow> t \<noteq> [] \<and> NUL \<notin> set t \<and> CHR 0x0A \<notin> set t)
       parseconf_str_array \<and>
     length (conf_text T) \<le> VSFTP_CONF_FILE_MAX"

text \<open>The names in the tables are words, and no name is in two places.\<close>

definition name_char :: "char \<Rightarrow> bool" where
  "name_char c \<longleftrightarrow> 97 \<le> code c \<and> code c \<le> 122 \<or> c = CHR ''_'' \<or> vsf_sysutil_isdigit c"

definition name_ok :: "string \<Rightarrow> bool" where
  "name_ok n \<longleftrightarrow> n \<noteq> [] \<and> list_all name_char n"

lemma name_facts:
  assumes "name_ok n"
  shows "\<not> skipped_line (n @ ''='' @ t)"
    "NUL \<notin> set t \<Longrightarrow> s_split_char (CHR ''='') (dropWhile vsf_sysutil_isspace (c_str (n @ ''='' @ t))) = (n, t)"
proof -
  obtain c r where n: "n = c # r" using assms by (cases n) (auto simp: name_ok_def)
  have all: "\<forall>x \<in> set n. name_char x" using assms by (simp add: name_ok_def list_all_iff)
  then have c: "\<not> vsf_sysutil_isspace c" "c \<noteq> CHR ''#''"
    by (auto simp: n name_char_def vsf_sysutil_isspace_def vsf_sysutil_isdigit_def)
  then show "\<not> skipped_line (n @ ''='' @ t)" by (simp add: skipped_line_def n)
  have "CHR ''='' \<notin> set n" "NUL \<notin> set n"
    using all by (auto simp: name_char_def vsf_sysutil_isdigit_def)
  then show "s_split_char (CHR ''='') (dropWhile vsf_sysutil_isspace (c_str (n @ ''='' @ t))) = (n, t)"
    if "NUL \<notin> set t"
  proof -
    have "c_str (n @ ''='' @ t) = n @ ''='' @ t"
      by (rule c_str_id) (use that \<open>NUL \<notin> set n\<close> in auto)
    moreover have "dropWhile vsf_sysutil_isspace (n @ ''='' @ t) = n @ ''='' @ t" using c(1) by (simp add: n)
    moreover have "takeWhile (\<lambda>x. x \<noteq> CHR ''='') (n @ ''='' @ t) = n" "tl (dropWhile (\<lambda>x. x \<noteq> CHR ''='') (n @ ''='' @ t)) = t"
      using \<open>CHR ''='' \<notin> set n\<close> by (simp_all add: takeWhile_append dropWhile_append)
    ultimately show ?thesis by (simp add: s_split_char_eq)
  qed
qed

subsection \<open>Loading what was written\<close>

definition write_out :: "tunables \<Rightarrow> 'a table \<Rightarrow> tunables \<Rightarrow> tunables" where
  "write_out T0 t T = foldl (\<lambda>T (n, v). set_variable v (fst v T0) T) T t"

lemma write_out_simps:
  "write_out T0 [] T = T"
  "write_out T0 ((n, g, u) # t) T = write_out T0 t (u (\<lambda>_. g T0) T)"
  by (simp_all add: write_out_def set_variable_def)

text \<open>The tables reach every setting.\<close>

lemma all_settings:
  "write_out T0 parseconf_uint_array (write_out T0 parseconf_bool_array (write_out T0 parseconf_str_array T)) = T0"
  unfolding parseconf_str_array_def parseconf_bool_array_def parseconf_uint_array_def write_out_simps
  by (rule tunables.equality) simp_all

lemma atoi_wrapped:
  assumes "n < 2 ^ 32"
  shows "vsf_sysutil_atoi (digits_of 10 n) mod 2 ^ 32 = int n"
proof -
  have "strtol10 (digits_of 10 n) = int n" by (rule strtol10_digits) (use assms in simp)
  moreover have "sint (of_int (int n) :: 32 word) mod 2 ^ 32 = int n"
  proof -
    have "sint w mod 2 ^ 32 = uint w" for w :: "32 word"
      using uint_sint [of w] by (simp add: take_bit_eq_mod)
    then show ?thesis using assms by (simp add: unsigned_of_nat take_bit_nat_eq_self)
  qed
  ultimately show ?thesis by (simp only: vsf_sysutil_atoi_def)
qed

lemma leading_digit:
  "0 < n \<Longrightarrow> \<exists>c r. digits_of 10 n = c # r \<and> c \<noteq> CHR ''0''"
proof (induction "10::nat" n rule: digits_of.induct)
  case (1 n)
  show ?case
  proof (cases "n < 10")
    case True
    with 1(2) have "n \<in> set [1..<10]" by auto
    then show ?thesis by (auto simp: digits_of_small digit_char_def upt_rec)
  next
    case False
    then have "0 < n div 10" by (simp add: div_greater_zero_iff)
    with 1(1) False obtain c r where "digits_of 10 (n div 10) = c # r" "c \<noteq> CHR ''0''" by auto
    with False show ?thesis by (simp add: digits_of_step)
  qed
qed

lemma write_out_append: "write_out T0 (t @ t') T = write_out T0 t' (write_out T0 t T)"
  by (simp add: write_out_def)

lemma uint_setting_digits:
  assumes "n < 2 ^ 32"
  shows "uint_setting (digits_of 10 n) = n"
proof (cases "n = 0")
  case True
  then show ?thesis by (simp add: uint_setting_def digits_of_small digit_char_def vsf_sysutil_octal_to_uint_def c_str_def)
next
  case False
  obtain c r where cr: "digits_of 10 n = c # r" by (cases "digits_of 10 n") (use digits_of_nonempty in auto)
  have "c \<noteq> CHR ''0''" using leading_digit [of n] False cr by simp
  moreover have "vsf_sysutil_atoi (digits_of 10 n) mod 2 ^ 32 = int n"
    using assms by (rule atoi_wrapped)
  ultimately show ?thesis
    by (simp add: uint_setting_def cr)
qed

lemma load_line:
  assumes "name_ok n" "NUL \<notin> set t"
    and "\<And>T. vsf_parseconf_load_setting (n @ ''='' @ t) True T = Inr (f T)"
  shows "load_lines True ((n @ ''='' @ t) # ls) T = load_lines True ls (f T)"
  using name_facts(1) [OF assms(1), of t] assms(3) by simp

text \<open>A table whose lines each set their variable.\<close>

lemma load_table:
  assumes "\<And>n v T. (n, v) \<in> set t \<Longrightarrow> name_ok n \<and> NUL \<notin> set (p (fst v T0)) \<and>
      vsf_parseconf_load_setting (n @ ''='' @ p (fst v T0)) True T = Inr (set_variable v (fst v T0) T)"
  shows "load_lines True (map (\<lambda>(n, g, u). n @ ''='' @ p (g T0)) t @ ls) T = load_lines True ls (write_out T0 t T)"
  using assms
proof (induction t arbitrary: T)
  case Nil
  then show ?case by (simp add: write_out_def)
next
  case (Cons x t)
  obtain n g u where x: "x = (n, g, u)" by (metis surj_pair)
  have "name_ok n" "NUL \<notin> set (p (g T0))"
    "vsf_parseconf_load_setting (n @ ''='' @ p (g T0)) True T' = Inr (u (\<lambda>_. g T0) T')" for T'
    using Cons.prems [of n "(g, u)"] by (simp_all add: x set_variable_def)
  from load_line [OF this] Cons.IH [OF Cons.prems] show ?case
    by (simp add: x write_out_simps)
qed

lemma names_ok:
  "list_all (\<lambda>(n, v). name_ok n) parseconf_str_array"
  "list_all (\<lambda>(n, v). name_ok n) parseconf_bool_array"
  "list_all (\<lambda>(n, v). name_ok n) parseconf_uint_array"
  unfolding parseconf_str_array_def parseconf_bool_array_def parseconf_uint_array_def
  by (simp_all add: name_ok_def name_char_def vsf_sysutil_isdigit_def)

text \<open>Names read as numbers are compared fast.\<close>

fun enc :: "string \<Rightarrow> nat" where
  "enc [] = 0"
| "enc (c # cs) = code c + 256 * enc cs"

lemma names_enc:
  "distinct (map enc (map fst parseconf_str_array @ map fst parseconf_bool_array @ map fst parseconf_uint_array))"
  unfolding parseconf_str_array_def parseconf_bool_array_def parseconf_uint_array_def
  by simp

lemmas names_distinct = conjunct1 [OF iffD1 [OF distinct_map names_enc], unfolded distinct_append]

lemma table_disjoint:
  "(n, v) \<in> set t \<Longrightarrow> set (map fst t') \<inter> set (map fst t) = {} \<Longrightarrow> map_of t' n = None"
  by (force simp: map_of_eq_None_iff)

lemma table_name:
  assumes "(n, v) \<in> set t" "distinct (map fst t)"
  shows "map_of t n = Some v"
  using assms by (rule map_of_is_SomeI [rotated])

lemma load_str_lines:
  assumes "expressible T0"
  shows "load_lines True (str_lines T0 @ ls) T = load_lines True ls (write_out T0 parseconf_str_array T)"
  unfolding str_lines_def
proof (rule load_table)
  fix n v T
  assume n: "(n, v) \<in> set parseconf_str_array"
  define t where "t = (case fst v T0 of None \<Rightarrow> [] | Some t \<Rightarrow> t)"
  have "name_ok n" using names_ok(1) n by (auto simp: list_all_iff)
  have t: "NUL \<notin> set t" "fst v T0 = (if t = [] then None else Some t)"
    using assms n by (cases v; auto simp: expressible_def list_all_iff t_def split: option.splits)+
  have set: "vsf_parseconf_load_setting (n @ ''='' @ t) True T = Inr (set_variable v (fst v T0) T)"
    using name_facts(2) [OF \<open>name_ok n\<close> t(1)] table_name [OF n] names_distinct
    by (simp add: vsf_parseconf_load_setting_def t(2))
  from \<open>name_ok n\<close> t(1) set show "name_ok n \<and> NUL \<notin> set (case fst v T0 of None \<Rightarrow> [] | Some t \<Rightarrow> t) \<and>
      vsf_parseconf_load_setting (n @ ''='' @ (case fst v T0 of None \<Rightarrow> [] | Some t \<Rightarrow> t)) True T =
        Inr (set_variable v (fst v T0) T)"
    unfolding t_def by blast
qed

lemma load_bool_lines:
  "load_lines True (bool_lines T0 @ ls) T = load_lines True ls (write_out T0 parseconf_bool_array T)"
  unfolding bool_lines_def
proof (rule load_table)
  fix n v T
  assume n: "(n, v) \<in> set parseconf_bool_array"
  define t where "t = (if fst v T0 then ''YES'' else ''NO'')"
  have "name_ok n" using names_ok(2) n by (auto simp: list_all_iff)
  moreover have t: "NUL \<notin> set t" "t \<noteq> []" "bool_setting t = Some (fst v T0)"
    by (simp_all add: t_def bool_setting_def s_upper_def vsf_sysutil_toupper_def)
  moreover have "map_of parseconf_str_array n = None"
    by (rule table_disjoint [OF n]) (use names_distinct in \<open>simp add: Int_Un_distrib Int_commute\<close>)
  moreover from this have "vsf_parseconf_load_setting (n @ ''='' @ t) True T = Inr (set_variable v (fst v T0) T)"
    using name_facts(2) [OF \<open>name_ok n\<close> t(1)] table_name [OF n] names_distinct t
    by (simp add: vsf_parseconf_load_setting_def)
  ultimately show "name_ok n \<and> NUL \<notin> set (if fst v T0 then ''YES'' else ''NO'') \<and>
      vsf_parseconf_load_setting (n @ ''='' @ (if fst v T0 then ''YES'' else ''NO'')) True T =
        Inr (set_variable v (fst v T0) T)"
    by (simp only: t_def simp_thms)
qed

lemma load_uint_lines:
  assumes "expressible T0"
  shows "load_lines True (uint_lines T0 @ ls) T = load_lines True ls (write_out T0 parseconf_uint_array T)"
  unfolding uint_lines_def
proof (rule load_table)
  fix n v T
  assume n: "(n, v) \<in> set parseconf_uint_array"
  define t where "t = digits_of 10 (fst v T0)"
  have "name_ok n" using names_ok(3) n by (auto simp: list_all_iff)
  moreover have "fst v T0 < 2 ^ 32" using assms n by (cases v) (auto simp: expressible_def list_all_iff)
  then have t: "NUL \<notin> set t" "t \<noteq> []" "uint_setting t = fst v T0"
    using digits_of_no_NUL [of 10] uint_setting_digits [of "fst v T0"] by (simp_all add: t_def)
  moreover have "map_of parseconf_str_array n = None" "map_of parseconf_bool_array n = None"
    by (rule table_disjoint [OF n]; use names_distinct in \<open>simp add: Int_Un_distrib Int_commute\<close>)+
  moreover from this have "vsf_parseconf_load_setting (n @ ''='' @ t) True T = Inr (set_variable v (fst v T0) T)"
    using name_facts(2) [OF \<open>name_ok n\<close> t(1)] table_name [OF n] names_distinct t
    by (simp add: vsf_parseconf_load_setting_def)
  ultimately show "name_ok n \<and> NUL \<notin> set (fmt_lu (fst v T0)) \<and>
      vsf_parseconf_load_setting (n @ ''='' @ fmt_lu (fst v T0)) True T = Inr (set_variable v (fst v T0) T)"
    by (simp add: t_def fmt_lu_def)
qed

lemma load_conf_lines: "expressible T0 \<Longrightarrow> load_lines True (conf_lines T0) T = Inr T0"
  using load_str_lines [of T0 "bool_lines T0 @ uint_lines T0"] load_bool_lines [of T0 "uint_lines T0"]
    load_uint_lines [of T0 "[]"] all_settings [of T0]
  by (simp add: conf_lines_def)

text \<open>And the lines of the text are the lines that were written.\<close>

lemma text_lines_s_lines: "text_lines t pos = s_lines (drop pos t)"
proof (induction t pos rule: text_lines.induct)
  case (1 t pos)
  show ?case
  proof (cases "s_getline t pos")
    case None
    then have "drop pos t = []" by (simp add: s_getline_def Let_def split: if_splits)
    with None show ?thesis by (simp add: text_lines.simps [of t pos] s_lines.simps [of "[]"])
  next
    case (Some p)
    obtain l q where p: "p = (l, q)" by fastforce
    with Some 1 s_lines_getline(1) [of t pos l q] show ?thesis
      by (simp add: text_lines.simps [of t pos])
  qed
qed

lemma s_lines_concat:
  "list_all (\<lambda>l. CHR 0x0A \<notin> set l) ls \<Longrightarrow> s_lines (concat (map (\<lambda>l. l @ [CHR 0x0A]) ls)) = ls"
proof (induction ls)
  case Nil
  then show ?case by (simp add: s_lines.simps [of "[]"])
next
  case (Cons l ls)
  let ?r = "concat (map (\<lambda>l. l @ [CHR 0x0A]) ls)"
  have "takeWhile (\<lambda>c. c \<noteq> CHR 0x0A) (l @ CHR 0x0A # ?r) = l" "dropWhile (\<lambda>c. c \<noteq> CHR 0x0A) (l @ CHR 0x0A # ?r) = CHR 0x0A # ?r"
    using Cons.prems by (auto simp: takeWhile_append dropWhile_append)
  with Cons show ?case by (simp add: s_lines.simps [of "l @ CHR 0x0A # ?r"])
qed

lemma conf_lines_whole:
  assumes "expressible T0"
  shows "list_all (\<lambda>l. CHR 0x0A \<notin> set l) (conf_lines T0)"
proof -
  have n: "CHR 0x0A \<notin> set n" if "name_ok n" for n
    using that by (auto simp: name_ok_def list_all_iff name_char_def vsf_sysutil_isdigit_def)
  have d: "CHR 0x0A \<notin> set (fmt_lu k)" for k
    using digits_of_digits [of k] by (auto simp: fmt_lu_def vsf_sysutil_isdigit_def)
  have "list_all (\<lambda>l. CHR 0x0A \<notin> set l) (bool_lines T0)"
    unfolding bool_lines_def list.pred_map o_def
    by (rule list.pred_mono_strong [OF names_ok(2)]) (auto dest: n)
  moreover have "list_all (\<lambda>l. CHR 0x0A \<notin> set l) (uint_lines T0)"
    unfolding uint_lines_def list.pred_map o_def
    by (rule list.pred_mono_strong [OF names_ok(3)]) (auto dest: n simp: d)
  moreover have "list_all (\<lambda>l. CHR 0x0A \<notin> set l) (str_lines T0)"
  proof -
    have "list_all (\<lambda>(n, v). name_ok n \<and> (case fst v T0 of None \<Rightarrow> True | Some t \<Rightarrow> CHR 0x0A \<notin> set t)) parseconf_str_array"
      using names_ok(1) assms by (auto simp: list_all_iff expressible_def split: option.splits)
    then show ?thesis
      unfolding str_lines_def list.pred_map o_def
      by (rule list.pred_mono_strong) (auto dest: n split: option.splits)
  qed
  ultimately show ?thesis by (simp add: conf_lines_def)
qed

text \<open>
  C37. Every setting can be made by the configuration file, and only the one it names: a file with a line
  for each of the settings sets all of them to the values that were written out, whatever they were before.
\<close>

theorem config_roundtrip:
  assumes "expressible T" "os_text W (trace s) (ReadFile f) = Some (conf_text T)"
    and "os_stat W (Sys (ReadFile f) # trace s) (Stat f) = Some st" "st_regfile st"
    and "os_ret W (Sys (Stat f) # Sys (ReadFile f) # trace s) Getuid = st_uid st"
  shows "\<exists>s'. vsf_parseconf_load_file W (Some f) True C s =
    Inr (\<lparr>s_p_saved_filename = Some f, settings = T\<rparr>, s')"
proof -
  have "take VSFTP_CONF_FILE_MAX (conf_text T) = conf_text T" using assms(1) by (simp add: expressible_def)
  moreover have "text_lines (conf_text T) 0 = conf_lines T"
    using s_lines_concat [OF conf_lines_whole [OF assms(1)]] by (simp add: text_lines_s_lines conf_text_def)
  ultimately show ?thesis
    using assms load_conf_lines [OF assms(1), of "settings C"]
    by (simp add: vsf_parseconf_load_file_def str_fileread_checked_def sys_text_def sys_stat_def sys_def)
qed

text \<open>A machine whose file has the default settings, on which other settings were made before.\<close>

lemma length_conf_text: "length (conf_text T) = sum_list (map (\<lambda>l. Suc (length l)) (conf_lines T))"
  by (simp add: conf_text_def length_concat o_def)

lemma defaults_expressible: "expressible tunables_load_defaults"
proof -
  have "sum_list (map (\<lambda>l. Suc (length l)) (str_lines tunables_load_defaults)) \<le> 10000"
    by (simp add: str_lines_def parseconf_str_array_def tunables_load_defaults_def)
  moreover have "sum_list (map (\<lambda>l. Suc (length l)) (bool_lines tunables_load_defaults)) \<le> 10000"
    by (simp add: bool_lines_def parseconf_bool_array_def tunables_load_defaults_def)
  moreover have "sum_list (map (\<lambda>l. Suc (length l)) (uint_lines tunables_load_defaults)) \<le> 10000"
    by (simp add: uint_lines_def parseconf_uint_array_def tunables_load_defaults_def fmt_lu_def digits_of.simps)
  ultimately have "length (conf_text tunables_load_defaults) \<le> VSFTP_CONF_FILE_MAX"
    by (simp add: length_conf_text conf_lines_def VSFTP_CONF_FILE_MAX_def)
  then show ?thesis
    by (simp add: expressible_def parseconf_str_array_def parseconf_uint_array_def tunables_load_defaults_def)
qed

definition conf_os :: os where
  "conf_os = plain_os\<lparr>os_text := \<lambda>tr c. Some (conf_text tunables_load_defaults)\<rparr>"

theorem config_roundtrip_witness:
  "\<exists>s'. vsf_parseconf_load_file conf_os (Some ''vsftpd.conf'') True
       \<lparr>s_p_saved_filename = None, settings = tunables_load_defaults\<lparr>tunable_write_enable := True\<rparr>\<rparr>
       (new_session Sa_Other Sa_Other []) =
     Inr (\<lparr>s_p_saved_filename = Some ''vsftpd.conf'', settings = tunables_load_defaults\<rparr>, s')"
  by (rule config_roundtrip [OF defaults_expressible, where st = plain_stat])
    (simp_all add: conf_os_def plain_os_def plain_stat_def)

end
