(* ===== verification/Vsf_Login.thy ===== *)
theory Vsf_Login
  imports Parseconf Vsf_Privops
begin

text \<open>
  Logging in: the check of user and password (\<open>privops.c\<close>, and the check against the password
  files of \<open>sysdeputil.c\<close>, as the build has no PAM), the change of credentials of a process
  (\<open>secutil.c\<close>), and the login of the two process models (\<open>oneprocess.c\<close>, \<open>twoprocess.c\<close>). In the two
  process model the process that talks to the client sends its request to the privileged parent, which
  checks it and, when it is right, starts the process that serves the client from then on; the
  sockets between them and the signal handlers are left out, a request and its answer are one step.
  The sandboxes of \<open>seccompsandbox.c\<close> and \<open>ptracesandbox.c\<close> are left out.
\<close>

subsection \<open>System calls\<close>

text \<open>Calls for which every result but zero is a failure.\<close>

definition sys_zero :: "os \<Rightarrow> string \<Rightarrow> syscall \<Rightarrow> vsf_session \<Rightarrow> vsf_session run" where
  "sys_zero W p_text c s = (let (r, s) = sys W c s in if r \<noteq> 0 then die p_text s else Inr s)"

definition str_getpwnam :: "os \<Rightarrow> string \<Rightarrow> vsf_session \<Rightarrow> passwd option \<times> vsf_session" where
  "str_getpwnam W p_user_str s =
     (os_pwnam W (trace s) (c_str p_user_str), note_event (Sys (Getpwnam (c_str p_user_str))) s)"

definition vsf_sysutil_running_as_root :: "os \<Rightarrow> vsf_session \<Rightarrow> bool \<times> vsf_session" where
  "vsf_sysutil_running_as_root W s = (let (r, s) = sys W Getuid s in (r = 0, s))"

definition vsf_sysutil_fork :: "os \<Rightarrow> vsf_session \<Rightarrow> (int \<times> vsf_session) run" where
  "vsf_sysutil_fork W s = (let (r, s) = sys W Fork s in if r < 0 then die ''fork'' s else Inr (r, s))"

definition EPERM :: nat where "EPERM = 1"
definition EINVAL :: nat where "EINVAL = 22"
definition ENOENT :: nat where "ENOENT = 2"

text \<open>The code remembers that the call is not there; here the system is asked, and says so, every time.\<close>

definition vsf_sysutil_fork_newnet :: "os \<Rightarrow> vsf_session \<Rightarrow> (int \<times> vsf_session) run" where
  "vsf_sysutil_fork_newnet W s =
     (let (r, s) = sys W ForkNewnet s in
      if r \<noteq> -1 \<or> (os_errno W (trace s) \<noteq> EINVAL \<and> os_errno W (trace s) \<noteq> EPERM) then Inr (r, s)
      else vsf_sysutil_fork W s)"

subsection \<open>Passwords\<close>

definition VSFTP_USERNAME_MAX :: nat where "VSFTP_USERNAME_MAX = 128"
definition VSFTP_PASSWORD_MAX :: nat where "VSFTP_PASSWORD_MAX = 128"

text \<open>\<open>crypt\<close> may return a null pointer, which the comparison then reads.\<close>

definition crypt_matches :: "os \<Rightarrow> string \<Rightarrow> string \<Rightarrow> vsf_session \<Rightarrow> bool run" where
  "crypt_matches W p_pass_str stored s =
     (case os_crypt W (c_str p_pass_str) stored of
        None \<Rightarrow> Inl (NullDeref, trace s)
      | Some p_crypted \<Rightarrow> Inr (p_crypted = stored))"

definition shadow_expired :: "spwd \<Rightarrow> int \<Rightarrow> bool" where
  "shadow_expired p_spwd curr_time \<longleftrightarrow>
     (let days = tdiv curr_time (60 * 60 * 24) in
      sp_expire p_spwd > 0 \<and> sp_expire p_spwd < days \<or>
      sp_lstchg p_spwd > 0 \<and> sp_max p_spwd > 0 \<and> sp_lstchg p_spwd + sp_max p_spwd < days)"

definition vsf_sysdep_check_auth ::
    "tunables \<Rightarrow> os \<Rightarrow> string \<Rightarrow> string \<Rightarrow> vsf_session \<Rightarrow> (bool \<times> vsf_session) run" where
  "vsf_sysdep_check_auth T W p_user_str p_pass_str s =
     (let (p_pwd, s) = str_getpwnam W p_user_str s in
      case p_pwd of
        None \<Rightarrow> Inr (False, s)
      | Some p_pwd \<Rightarrow>
          let shells = os_shells W (trace s);
              s = (if tunable_check_shell T then note_event (Sys Getusershell) s else s)
          in if tunable_check_shell T \<and> pw_shell p_pwd \<notin> set shells then Inr (False, s)
          else let p_spwd = os_shadow W (trace s) (c_str p_user_str);
                   s = note_event (Sys (Getspnam (c_str p_user_str))) s;
                   files = and_then (crypt_matches W p_pass_str (pw_passwd p_pwd) s) (\<lambda>b. Inr (b, s))
          in case p_spwd of
            None \<Rightarrow> files
          | Some p_spwd \<Rightarrow>
              let (curr_time, _) = os_time W (trace s); s = note_event (Sys GetTime) s in
              if shadow_expired p_spwd curr_time then Inr (False, s)
              else and_then (crypt_matches W p_pass_str (sp_pwdp p_spwd) s) (\<lambda>b.
                if b then Inr (True, s)
                else and_then (crypt_matches W p_pass_str (pw_passwd p_pwd) s) (\<lambda>b. Inr (b, s))))"

subsection \<open>The login of the privileged process\<close>

datatype login_result = kVSFLoginNull | kVSFLoginFail | kVSFLoginAnon | kVSFLoginReal

definition setup_username_globals :: "string \<Rightarrow> vsf_session \<Rightarrow> vsf_session" where
  "setup_username_globals p_str s = s\<lparr>user_str := p_str\<rparr>"

definition text_setting :: "string option \<Rightarrow> string" where
  "text_setting t = (case t of None \<Rightarrow> [] | Some t \<Rightarrow> c_str t)"

definition handle_anonymous_login :: "tunables \<Rightarrow> string \<Rightarrow> vsf_session \<Rightarrow> login_result \<times> vsf_session" where
  "handle_anonymous_login T p_pass_str s =
     (if banned_email_str s \<noteq> [] \<and> p_pass_str \<in> set (s_lines (banned_email_str s)) then (kVSFLoginFail, s)
      else if email_passwords_str s \<noteq> [] \<and>
        (p_pass_str \<notin> set (s_lines (email_passwords_str s)) \<or> p_pass_str = []) then (kVSFLoginFail, s)
      else
        let anon = (if p_pass_str = [] then ''?'' else p_pass_str);
            anon = s_replace_char (CHR 0x0A) (CHR ''?'') (s_replace_char (CHR '' '') (CHR ''_'') anon);
            s = setup_username_globals (text_setting (tunable_ftp_username T)) (s\<lparr>anon_pass_str := anon\<rparr>)
        in (kVSFLoginAnon, s\<lparr>banned_email_str := [], email_passwords_str := []\<rparr>))"

definition handle_local_login ::
    "tunables \<Rightarrow> os \<Rightarrow> string \<Rightarrow> string \<Rightarrow> vsf_session \<Rightarrow> (login_result \<times> vsf_session) run" where
  "handle_local_login T W p_user_str p_pass_str s =
     and_then (vsf_sysdep_check_auth T W p_user_str p_pass_str s) (\<lambda>(b, s).
     if \<not> b then Inr (kVSFLoginFail, s)
     else Inr (kVSFLoginReal, setup_username_globals p_user_str s))"

definition anonymous_name :: "string \<Rightarrow> bool" where
  "anonymous_name user \<longleftrightarrow> s_upper user = ''FTP'' \<or> s_upper user = ''ANONYMOUS''"

text \<open>Names and passwords that are refused before anything is looked up.\<close>

definition dodgy_input :: "string \<Rightarrow> string \<Rightarrow> bool" where
  "dodgy_input p_user_str p_pass_str \<longleftrightarrow>
     p_user_str = [] \<or> length p_user_str > VSFTP_USERNAME_MAX \<or>
     \<not> vsf_sysutil_isalnum (hd p_user_str) \<and> hd p_user_str \<noteq> CHR ''_'' \<and> hd p_user_str \<noteq> CHR ''.'' \<or>
     list_ex vsf_sysutil_isspace p_user_str \<or> list_ex (\<lambda>c. \<not> vsf_sysutil_isprint c) p_user_str \<or>
     length p_pass_str > VSFTP_PASSWORD_MAX"

definition handle_login ::
    "tunables \<Rightarrow> os \<Rightarrow> string \<Rightarrow> string \<Rightarrow> vsf_session \<Rightarrow> (login_result \<times> vsf_session) run" where
  "handle_login T W p_user_str p_pass_str s =
     (if dodgy_input p_user_str p_pass_str then Inr (kVSFLoginFail, s)
      else if tunable_anonymous_enable T \<and> anonymous_name p_user_str
        then Inr (handle_anonymous_login T p_pass_str s)
      else if \<not> tunable_local_enable T then die ''unexpected local login in handle_login'' s
      else handle_local_login T W p_user_str p_pass_str s)"

definition pause :: "os \<Rightarrow> nat \<Rightarrow> vsf_session \<Rightarrow> vsf_session" where
  "pause W seconds s = (if seconds \<noteq> 0 then snd (sys W Sleep s) else s)"

definition vsf_privop_do_login ::
    "tunables \<Rightarrow> os \<Rightarrow> string \<Rightarrow> vsf_session \<Rightarrow> (login_result \<times> vsf_session) run" where
  "vsf_privop_do_login T W p_pass_str s =
     and_then (handle_login T W (user_str s) p_pass_str s) (\<lambda>(result, s).
     and_then (vsf_log_start_entry W kVSFLogEntryLogin s) (\<lambda>s.
     and_then (vsf_log_do_log T W (result \<noteq> kVSFLoginFail) s) (\<lambda>s.
     Inr (result, pause W (if result = kVSFLoginFail then tunable_delay_failed_login T
                           else tunable_delay_successful_login T) s))))"

subsection \<open>Credentials\<close>

datatype secutil_option = VSF_SECUTIL_OPTION_CHROOT | VSF_SECUTIL_OPTION_USE_GROUPS
  | VSF_SECUTIL_OPTION_CHANGE_EUID | VSF_SECUTIL_OPTION_NO_FDS | VSF_SECUTIL_OPTION_NO_PROCS
  | VSF_SECUTIL_OPTION_ALLOW_WRITEABLE_ROOT

text \<open>The capabilities a process can keep.\<close>

record capabilities =
  kCapabilityCAP_CHOWN :: bool
  kCapabilityCAP_NET_BIND_SERVICE :: bool

definition no_caps :: "capabilities \<Rightarrow> bool" where
  "no_caps caps \<longleftrightarrow> \<not> kCapabilityCAP_CHOWN caps \<and> \<not> kCapabilityCAP_NET_BIND_SERVICE caps"

definition vsf_sysdep_adopt_capabilities :: "os \<Rightarrow> capabilities \<Rightarrow> vsf_session \<Rightarrow> vsf_session run" where
  "vsf_sysdep_adopt_capabilities W caps s =
     sys_zero W ''cap_set_proc''
       (AdoptCapabilities (kCapabilityCAP_CHOWN caps) (kCapabilityCAP_NET_BIND_SERVICE caps)) s"

definition vsf_sysdep_keep_capabilities :: "os \<Rightarrow> vsf_session \<Rightarrow> vsf_session run" where
  "vsf_sysdep_keep_capabilities W s =
     (if \<not> os_has_capabilities_as_non_root W
      then bug ''asked to keep capabilities, but no support exists'' s
      else sys_or_die W ''prctl'' KeepCapabilities s)"

text \<open>The effective user and group of the user, and back to the ones before.\<close>

definition as_user :: "os \<Rightarrow> passwd \<Rightarrow> vsf_session \<Rightarrow> ((int \<times> int) \<times> vsf_session) run" where
  "as_user W p_user s =
     (let (saved_euid, s) = sys W Geteuid s in
      if saved_euid < 0 then die ''geteuid'' s
      else let (saved_egid, s) = sys W Getegid s in
        if saved_egid < 0 then die ''getegid'' s
        else and_then (sys_zero W ''setegid'' (Setegid (pw_gid p_user)) s) (\<lambda>s.
             and_then (sys_zero W ''seteuid'' (Seteuid (pw_uid p_user)) s) (\<lambda>s.
             Inr ((saved_euid, saved_egid), s))))"

definition back_again :: "os \<Rightarrow> int \<times> int \<Rightarrow> vsf_session \<Rightarrow> vsf_session run" where
  "back_again W saved s =
     and_then (sys_zero W ''seteuid'' (Seteuid (fst saved)) s) (\<lambda>s.
     sys_zero W ''setegid'' (Setegid (snd saved)) s)"

text \<open>The directory, the extra directory, and the jail. Without a jail the extra one may be missing.\<close>

definition enter_dirs ::
    "os \<Rightarrow> passwd \<Rightarrow> string \<Rightarrow> string \<Rightarrow> secutil_option list \<Rightarrow> vsf_session \<Rightarrow> vsf_session run" where
  "enter_dirs W p_user dir_str ext_dir_str options s =
     (let euid = (VSF_SECUTIL_OPTION_CHANGE_EUID \<in> set options);
          jail = (VSF_SECUTIL_OPTION_CHROOT \<in> set options)
      in
      and_then (if euid then as_user W p_user s else Inr ((0, 0), s)) (\<lambda>(saved, s).
      let (retval, s) = sys W (EnterDir (c_str dir_str)) s in
      if retval \<noteq> 0 then die (die2_text ''cannot change directory:'' (Some (c_str dir_str))) s
      else
        let (retval, s) = (if ext_dir_str \<noteq> [] then sys W (EnterDir (c_str ext_dir_str)) s else (0, s)) in
        if retval \<noteq> 0 \<and> jail then die (die2_text ''cannot change directory:'' (Some (c_str ext_dir_str))) s
        else and_then (if euid then back_again W saved s else Inr s) (\<lambda>s.
             if jail then sys_zero W ''chroot'' (Chroot ''.'') s else Inr s)))"

definition become_user ::
    "os \<Rightarrow> passwd \<Rightarrow> capabilities \<Rightarrow> secutil_option list \<Rightarrow> vsf_session \<Rightarrow> vsf_session run" where
  "become_user W p_user caps options s =
     and_then (sys_zero W ''setgid'' (Setgid (pw_gid p_user)) s) (\<lambda>s.
     and_then (sys_zero W ''setuid'' (Setuid (pw_uid p_user)) s) (\<lambda>s.
     and_then (if no_caps caps then Inr s else vsf_sysdep_adopt_capabilities W caps s) (\<lambda>s.
     and_then (if VSF_SECUTIL_OPTION_NO_PROCS \<in> set options then sys_zero W ''setrlimit NPROC'' SetNoProcs s
               else Inr s) (\<lambda>s.
     if VSF_SECUTIL_OPTION_CHROOT \<in> set options \<and> VSF_SECUTIL_OPTION_ALLOW_WRITEABLE_ROOT \<notin> set options
     then let (r, s) = sys W (WriteAccess ''/'') s in
       if r = 0 then die ''vsftpd: refusing to run with writable root inside chroot()'' s else Inr s
     else Inr s))))"

text \<open>The last part: a process that has to keep some privilege may need the system's help for it.\<close>

definition finish_credentials ::
    "os \<Rightarrow> passwd \<Rightarrow> capabilities \<Rightarrow> secutil_option list \<Rightarrow> vsf_session \<Rightarrow> vsf_session run" where
  "finish_credentials W p_user caps options s =
     (if no_caps caps then become_user W p_user caps options s
      else if \<not> os_has_capabilities W then Inr s
      else if \<not> os_has_capabilities_as_non_root W then vsf_sysdep_adopt_capabilities W caps s
      else and_then (vsf_sysdep_keep_capabilities W s) (become_user W p_user caps options))"

definition take_credentials ::
    "os \<Rightarrow> passwd \<Rightarrow> string \<Rightarrow> string \<Rightarrow> capabilities \<Rightarrow> secutil_option list \<Rightarrow>
     vsf_session \<Rightarrow> vsf_session run" where
  "take_credentials W p_user dir_str p_ext_dir_str caps options s =
     and_then (if VSF_SECUTIL_OPTION_USE_GROUPS \<in> set options
               then sys_zero W ''initgroups'' (Initgroups (pw_name p_user) (pw_gid p_user)) s
               else sys_zero W ''setgroups'' ClearGroups s) (\<lambda>s.
     and_then (enter_dirs W p_user dir_str p_ext_dir_str options s) (\<lambda>s.
     and_then (if VSF_SECUTIL_OPTION_NO_FDS \<in> set options
               then sys_zero W ''setrlimit NOFILE'' SetNoFds s else Inr s)
       (finish_credentials W p_user caps options)))"

text \<open>A directory that is not given is empty.\<close>

definition vsf_secutil_change_credentials ::
    "os \<Rightarrow> string \<Rightarrow> string \<Rightarrow> string \<Rightarrow> capabilities \<Rightarrow> secutil_option list \<Rightarrow>
     vsf_session \<Rightarrow> vsf_session run" where
  "vsf_secutil_change_credentials W p_user_str p_dir_str p_ext_dir_str caps options s =
     (let (root, s) = vsf_sysutil_running_as_root W s in
      if \<not> root then bug ''vsf_secutil_change_credentials: not running as root'' s
      else let (p_user, s) = str_getpwnam W p_user_str s in
      case p_user of
        None \<Rightarrow> die (die2_text ''cannot locate user entry:'' (Some (c_str p_user_str))) s
      | Some p_user \<Rightarrow>
          let dir_str = (if p_dir_str = [] then pw_dir p_user else p_dir_str) in
          take_credentials W p_user dir_str p_ext_dir_str caps options s)"

text \<open>The child that only talks to the client before the login, and the parent after it.\<close>

definition drop_all_privs :: "tunables \<Rightarrow> os \<Rightarrow> vsf_session \<Rightarrow> vsf_session run" where
  "drop_all_privs T W s =
     (let options = [VSF_SECUTIL_OPTION_CHROOT, VSF_SECUTIL_OPTION_NO_PROCS]
            @ (if \<not> tunable_ssl_enable T then [VSF_SECUTIL_OPTION_NO_FDS] else []);
          dir_str = text_setting (tunable_secure_chroot_dir T);
          (st, s) = sys_stat W (Lstat dir_str) s
      in if st = None
         then die (die2_text ''vsftpd: not found: directory given in 'secure_chroot_dir':'' (tunable_secure_chroot_dir T)) s
         else vsf_secutil_change_credentials W (text_setting (tunable_nopriv_user T)) dir_str []
           \<lparr>kCapabilityCAP_CHOWN = False, kCapabilityCAP_NET_BIND_SERVICE = False\<rparr> options s)"

definition helper_caps :: "tunables \<Rightarrow> capabilities" where
  "helper_caps T = \<lparr>kCapabilityCAP_CHOWN = tunable_chown_uploads T,
     kCapabilityCAP_NET_BIND_SERVICE = tunable_connect_from_port_20 T\<rparr>"

definition minimize_privilege :: "tunables \<Rightarrow> os \<Rightarrow> vsf_session \<Rightarrow> vsf_session run" where
  "minimize_privilege T W s =
     (if \<not> is_anonymous s \<and> tunable_session_support T then Inr s
      else vsf_secutil_change_credentials W (text_setting (tunable_nopriv_user T))
        (text_setting (tunable_secure_chroot_dir T)) [] (helper_caps T) [VSF_SECUTIL_OPTION_CHROOT] s)"

subsection \<open>The settings and the place of a user\<close>

definition handle_per_user_config ::
    "tunables \<Rightarrow> os \<Rightarrow> string \<Rightarrow> vsf_session \<Rightarrow> (tunables \<times> vsf_session) run" where
  "handle_per_user_config T W p_user_str s =
     (case tunable_user_config_dir T of
        None \<Rightarrow> Inr (T, s)
      | Some dir \<Rightarrow>
          if CHR ''/'' \<in> set p_user_str then Inr (T, s)
          else let filename = c_str (c_str dir @ ''/'' @ p_user_str);
                   (st, s) = sys_stat W (Stat filename) s
            in if st \<noteq> None
               then and_then (vsf_parseconf_load_file W (Some filename) True
                      \<lparr>s_p_saved_filename = None, settings = T\<rparr> s) (\<lambda>(C, s). Inr (settings C, s))
               else if os_errno W (trace s) \<noteq> ENOENT then die ''error opening per-user config file'' s
               else Inr (T, s))"

definition user_token :: "tunables \<Rightarrow> string \<Rightarrow> string \<Rightarrow> string" where
  "user_token T user dir =
     (case tunable_user_sub_token T of None \<Rightarrow> dir | Some tok \<Rightarrow> s_replace_text tok (c_str user) dir)"

text \<open>The user's directory, the one to go to in addition, and the one to go to last.\<close>

definition calculate_chdir_dir ::
    "tunables \<Rightarrow> os \<Rightarrow> bool \<Rightarrow> string \<Rightarrow> string \<Rightarrow> vsf_session \<Rightarrow> ((string \<times> string \<times> string) \<times> vsf_session) run" where
  "calculate_chdir_dir T W anon_login p_user_str p_orig_user_str s =
     (if anon_login then Inr (([], text_setting (tunable_anon_root T), []), s)
      else let (p_user, s) = str_getpwnam W p_user_str s in
        case p_user of
          None \<Rightarrow> die (die2_text ''cannot locate user entry:'' (Some (c_str p_user_str))) s
        | Some p_user \<Rightarrow>
            let userdir = user_token T p_orig_user_str (pw_dir p_user);
                chroot = (case tunable_local_root T of None \<Rightarrow> []
                          | Some r \<Rightarrow> user_token T p_orig_user_str (c_str r))
            in if tunable_passwd_chroot_enable T \<and> s_locate_text ''/./'' userdir \<noteq> None
               then let (userdir, chdir) = s_split_text ''/./'' userdir in Inr ((userdir, userdir, chdir), s)
               else Inr ((userdir, chroot, []), s))"

subsection \<open>Two processes\<close>

text \<open>
  What becomes of a login request: the process that talks to the client and the parent go on, or the
  client is served by a process with these settings.
\<close>

datatype login_step = Again vsf_session vsf_session | LoggedIn tunables vsf_session

definition login_child ::
    "tunables \<Rightarrow> os \<Rightarrow> string \<Rightarrow> bool \<Rightarrow> bool \<Rightarrow> vsf_session \<Rightarrow> login_step run" where
  "login_child T W p_orig_user_str do_chroot was_anon s =
     (let guest = (tunable_guest_enable T \<and> \<not> was_anon);
          s = (if guest then s\<lparr>is_guest := True\<rparr> else s);
          p_user_str = (if guest then text_setting (tunable_guest_username T) else p_orig_user_str);
          remapped = (guest \<and> \<not> tunable_virtual_use_local_privs T);
          anon = (was_anon \<or> remapped); do_chroot = (do_chroot \<or> remapped);
          secutil_option = [VSF_SECUTIL_OPTION_USE_GROUPS, VSF_SECUTIL_OPTION_NO_PROCS]
            @ (if do_chroot then [VSF_SECUTIL_OPTION_CHROOT] else [])
            @ (if \<not> anon then [VSF_SECUTIL_OPTION_CHANGE_EUID] else [])
            @ (if \<not> was_anon \<and> tunable_allow_writeable_chroot T
               then [VSF_SECUTIL_OPTION_ALLOW_WRITEABLE_ROOT] else [])
      in
      and_then (calculate_chdir_dir T W was_anon p_user_str p_orig_user_str s) (\<lambda>((userdir, chroot, chdir), s).
      and_then (vsf_secutil_change_credentials W p_user_str userdir chroot
        \<lparr>kCapabilityCAP_CHOWN = False, kCapabilityCAP_NET_BIND_SERVICE = False\<rparr> secutil_option s) (\<lambda>s.
      let s = (if chdir \<noteq> [] then snd (sys W (EnterDir (c_str chdir)) s) else s) in
      Inr (LoggedIn T (s\<lparr>is_anonymous := anon\<rparr>)))))"

text \<open>A fork that failed without a message leaves a parent that waits for a request on a closed socket.\<close>

definition common_do_login ::
    "tunables \<Rightarrow> os \<Rightarrow> string \<Rightarrow> bool \<Rightarrow> bool \<Rightarrow> vsf_session \<Rightarrow> login_step run" where
  "common_do_login T W p_user_str do_chroot anon s =
     (let s = (if \<not> control_use_ssl s then snd (sys W WaitChild s) else s) in
      and_then (handle_per_user_config T W p_user_str s) (\<lambda>(T, s).
      let s = s\<lparr>is_anonymous := anon\<rparr> in
      and_then (sys_zero W ''socketpair'' SocketPair s) (\<lambda>s.
      and_then (if tunable_isolate_network T \<and> \<not> tunable_port_promiscuous T
                then vsf_sysutil_fork_newnet W s else vsf_sysutil_fork W s) (\<lambda>(newpid, s).
      if newpid < 0 then die ''priv_sock_get_cmd'' s
      else login_child T W p_user_str do_chroot anon s))))"

text \<open>Whether a local user is put into a jail.\<close>

definition local_chroot :: "tunables \<Rightarrow> os \<Rightarrow> string \<Rightarrow> vsf_session \<Rightarrow> (bool \<times> vsf_session) run" where
  "local_chroot T W user s =
     (let do_chroot = tunable_chroot_local_user T in
      if \<not> tunable_chroot_list_enable T then Inr (do_chroot, s)
      else
        let (t, s) = (case tunable_chroot_list_file T of None \<Rightarrow> (None, s)
                      | Some f \<Rightarrow> str_fileread_checked W (c_str f) VSFTP_CONF_FILE_MAX s)
        in case t of
          None \<Rightarrow> die (die2_text ''could not read chroot() list file:'' (tunable_chroot_list_file T)) s
        | Some chroot_list \<Rightarrow>
            Inr (if user \<in> set (s_lines chroot_list) then \<not> do_chroot else do_chroot, s))"

text \<open>\<open>c\<close> is the process that talks to the client, \<open>p\<close> the parent; the history goes on in one line.\<close>

definition process_login_req ::
    "tunables \<Rightarrow> os \<Rightarrow> string \<Rightarrow> vsf_session \<Rightarrow> vsf_session \<Rightarrow> login_step run" where
  "process_login_req T W p_pass_str c p =
     (let p = p\<lparr>trace := trace c, user_str := user_str c,
                control_use_ssl := control_use_ssl c \<and> tunable_ssl_enable T,
                data_use_ssl := data_use_ssl c \<and> tunable_ssl_enable T\<rparr>
      in
      and_then (vsf_privop_do_login T W p_pass_str p) (\<lambda>(e_login_result, p).
      case e_login_result of
        kVSFLoginFail \<Rightarrow> Inr (Again (c\<lparr>trace := trace p\<rparr>) p)
      | kVSFLoginAnon \<Rightarrow>
          let p = p\<lparr>user_str := text_setting (tunable_ftp_username T)\<rparr> in
          common_do_login T W (user_str p) True True p
      | kVSFLoginReal \<Rightarrow>
          and_then (local_chroot T W (user_str p) p) (\<lambda>(do_chroot, p).
          common_do_login T W (user_str p) do_chroot False p)
      | kVSFLoginNull \<Rightarrow> bug ''weird state in process_login_request'' p))"

definition vsf_two_process_login ::
    "tunables \<Rightarrow> os \<Rightarrow> string \<Rightarrow> vsf_session \<Rightarrow> vsf_session \<Rightarrow> login_step run" where
  "vsf_two_process_login T W p_pass_str c p = process_login_req T W p_pass_str c p"

subsection \<open>One process\<close>

definition vsf_one_process_login ::
    "tunables \<Rightarrow> os \<Rightarrow> string \<Rightarrow> vsf_session \<Rightarrow> vsf_session \<Rightarrow> login_step run" where
  "vsf_one_process_login T W p_pass_str c p =
     and_then (vsf_privop_do_login T W p_pass_str c) (\<lambda>(login_result, c).
     case login_result of
       kVSFLoginFail \<Rightarrow> Inr (Again c p)
     | kVSFLoginAnon \<Rightarrow> Inr (LoggedIn T (c\<lparr>is_anonymous := True\<rparr>))
     | _ \<Rightarrow> bug ''bad state in vsf_one_process_login'' c)"

end
