(* ===== verification/Prelogin.thy ===== *)
theory Prelogin
  imports Vsf_Login Post_Loop
begin

text \<open>
  A connection from its start to its end: the commands before the login (\<open>src/server/prelogin.c\<close>), the
  start of the two process models (\<open>oneprocess.c\<close>, \<open>twoprocess.c\<close>) and what \<open>main.c\<close> does for a client
  once the listener has handed it over. The inputs of the client that the login leaves are the inputs of
  the session after it. Process titles are left out, and without SSL in the build the commands for it are
  empty.
\<close>

subsection \<open>Before the login\<close>

definition check_limits :: "tunables \<Rightarrow> os \<Rightarrow> vsf_session \<Rightarrow> vsf_session run" where
  "check_limits T W s =
     (let refuse = (\<lambda>line status reply. and_then (vsf_log_line T W kVSFLogEntryConnection line s)
            (vsf_cmdio_write_exit T W status reply 1))
      in
      if tunable_max_clients T > 0 \<and> num_clients s > tunable_max_clients T
      then refuse ''Connection refused: too many sessions.'' FTP_TOO_MANY_USERS
             ''There are too many connected users, please try later.''
      else if tunable_max_per_ip T > 0 \<and> num_this_ip s > tunable_max_per_ip T
      then refuse ''Connection refused: too many sessions for this address.'' FTP_IP_LIMIT
             ''There are too many connections from your internet address.''
      else if \<not> tcp_wrapper_ok s
      then refuse ''Connection refused: tcp_wrappers denial.'' FTP_IP_DENY ''Service not available.''
      else vsf_log_line T W kVSFLogEntryConnection [] s)"

definition FC_VERSION :: string where
  "FC_VERSION = ''0.6.4''"

definition VSF_SERVER_NAME :: string where
  "VSF_SERVER_NAME = ''FleetServer''"

definition emit_greeting :: "tunables \<Rightarrow> os \<Rightarrow> vsf_session \<Rightarrow> vsf_session run" where
  "emit_greeting T W s =
     (if banner_str s \<noteq> []
      then and_then (vsf_banner_write T W (banner_str s) FTP_GREET s) (\<lambda>s.
           vsf_cmdio_write T W FTP_GREET [] (s\<lparr>banner_str := []\<rparr>))
      else case tunable_ftpd_banner T of
        None \<Rightarrow> vsf_cmdio_write T W FTP_GREET (''('' @ VSF_SERVER_NAME @ '' '' @ FC_VERSION @ '')'') s
      | Some banner \<Rightarrow> vsf_cmdio_write T W FTP_GREET banner s)"

definition check_login_delay :: "tunables \<Rightarrow> os \<Rightarrow> vsf_session \<Rightarrow> vsf_session" where
  "check_login_delay T W s = pause W (tunable_delay_failed_login T) s"

definition check_login_fails :: "tunables \<Rightarrow> os \<Rightarrow> vsf_session \<Rightarrow> vsf_session run" where
  "check_login_fails T W s =
     (let s = s\<lparr>login_fails := uint_wrap (login_fails s + 1)\<rparr> in
      if login_fails s \<ge> tunable_max_login_fails T
      then vsf_sysutil_exit 1 (snd (sys W ShutdownControl s))
      else Inr s)"

definition handle_pass_command ::
    "tunables \<Rightarrow> os \<Rightarrow> vsf_session \<Rightarrow> vsf_session \<Rightarrow> login_step run" where
  "handle_pass_command T W c p =
     (if user_str c = []
      then and_then (vsf_cmdio_write T W FTP_NEEDUSER ''Login with USER first.'' c) (\<lambda>c. Inr (Again c p))
      else
        and_then (if tunable_one_process_model T then vsf_one_process_login T W (ftp_arg_str c) c p
                  else vsf_two_process_login T W (ftp_arg_str c) c p) (\<lambda>step.
        case step of
          LoggedIn T s \<Rightarrow> Inr (LoggedIn T s)
        | Again c p \<Rightarrow>
            and_then (vsf_cmdio_write T W FTP_LOGINERR ''Login incorrect.'' c) (\<lambda>c.
            and_then (check_login_fails T W c) (\<lambda>c.
            Inr (Again (c\<lparr>user_str := []\<rparr>) p)))))"

text \<open>A user name the settings refuse: the reply, and no name is kept.\<close>

definition user_refused ::
    "tunables \<Rightarrow> os \<Rightarrow> string \<Rightarrow> vsf_session \<Rightarrow> vsf_session \<Rightarrow> login_step run" where
  "user_refused T W reply c p =
     and_then (vsf_cmdio_write T W FTP_LOGINERR reply c) (\<lambda>c. Inr (Again (c\<lparr>user_str := []\<rparr>) p))"

definition handle_user_command ::
    "tunables \<Rightarrow> os \<Rightarrow> vsf_session \<Rightarrow> vsf_session \<Rightarrow> login_step run" where
  "handle_user_command T W c p =
     (let c = c\<lparr>user_str := ftp_arg_str c, ftp_arg_str := s_upper (ftp_arg_str c)\<rparr>;
          is_anon = (ftp_arg_str c = ''FTP'' \<or> ftp_arg_str c = ''ANONYMOUS'');
          located = (user_str c \<in> set (s_lines (userlist_str c)))
      in
      if \<not> tunable_local_enable T \<and> \<not> is_anon
      then user_refused T W ''This FTP server is anonymous only.'' c p
      else if is_anon \<and> control_use_ssl c \<and> \<not> tunable_allow_anon_ssl T \<and> \<not> tunable_force_anon_logins_ssl T
      then user_refused T W ''Anonymous sessions may not use encryption.'' c p
      else if tunable_ssl_enable T \<and> \<not> is_anon \<and> \<not> control_use_ssl c \<and> tunable_force_local_logins_ssl T
      then vsf_cmdio_write_exit T W FTP_LOGINERR ''Non-anonymous sessions must use encryption.'' 1 c
      else if tunable_ssl_enable T \<and> is_anon \<and> \<not> control_use_ssl c \<and> tunable_force_anon_logins_ssl T
      then vsf_cmdio_write_exit T W FTP_LOGINERR ''Anonymous sessions must use encryption.'' 1 c
      else if tunable_userlist_enable T \<and> (located \<longleftrightarrow> tunable_userlist_deny T)
      then and_then (vsf_cmdio_write T W FTP_LOGINERR ''Permission denied.'' (check_login_delay T W c)) (\<lambda>c.
           and_then (check_login_fails T W c) (\<lambda>c.
           Inr (Again (c\<lparr>user_str := []\<rparr>) p)))
      else if is_anon \<and> tunable_no_anon_password T
      then handle_pass_command T W (c\<lparr>ftp_arg_str := ''<no password>''\<rparr>) p
      else and_then (vsf_cmdio_write T W FTP_GIVEPWORD ''Please specify the password.'' c) (\<lambda>c. Inr (Again c p)))"

definition handle_get :: "tunables \<Rightarrow> os \<Rightarrow> vsf_session \<Rightarrow> vsf_session \<Rightarrow> login_step run" where
  "handle_get T W c p =
     handle_pass_command T W
       (c\<lparr>is_http := True, http_get_arg := ftp_arg_str c, user_str := ''FTP'', ftp_arg_str := ''<http>''\<rparr>) p"

text \<open>One command; the commands for SSL do nothing.\<close>

definition login_command ::
    "tunables \<Rightarrow> os \<Rightarrow> string \<Rightarrow> vsf_session \<Rightarrow> vsf_session \<Rightarrow> login_step run" where
  "login_command T W cmd c p =
     (let again = (\<lambda>m. and_then m (\<lambda>c. Inr (Again c p))) in
      if tunable_ftp_enable T then
        if cmd = ''USER'' then handle_user_command T W c p
        else if cmd = ''PASS'' then handle_pass_command T W c p
        else if cmd = ''QUIT'' then vsf_cmdio_write_exit T W FTP_GOODBYE ''Goodbye.'' 0 c
        else if cmd = ''FEAT'' then again (handle_feat T W c)
        else if cmd = ''OPTS'' then again (handle_opts T W c)
        else if tunable_ssl_enable T \<and> cmd = ''AUTH'' \<and> \<not> control_use_ssl c then Inr (Again c p)
        else if tunable_ssl_enable T \<and> cmd = ''PBSZ'' then Inr (Again c p)
        else if tunable_ssl_enable T \<and> cmd = ''PROT'' then Inr (Again c p)
        else if cmd = [] \<and> ftp_arg_str c = [] then Inr (Again c p)
        else again (vsf_cmdio_write T W FTP_LOGINERR ''Please login with USER and PASS.'' c)
      else if tunable_http_enable T then
        and_then (if cmd = ''GET'' then handle_get T W c p
                  else again (vsf_cmdio_write T W FTP_LOGINERR ''Bad HTTP verb.'' c)) (\<lambda>step.
        case step of LoggedIn T s \<Rightarrow> Inr (LoggedIn T s) | Again c p \<Rightarrow> vsf_sysutil_exit 0 c)
      else Inr (Again c p))"

text \<open>The loop over the inputs of the client, with those that are left after the login.\<close>

fun parse_username_password ::
    "tunables \<Rightarrow> os \<Rightarrow> input list \<Rightarrow> vsf_session \<Rightarrow> vsf_session \<Rightarrow> (login_step \<times> input list) run" where
  "parse_username_password T W [] c p = Inr (Again c p, [])"
| "parse_username_password T W (inp # inps) c p =
     and_then (vsf_cmdio_get_cmd_and_arg T W inp c) (\<lambda>((cmd, arg), c).
     and_then (login_command T W cmd (c\<lparr>ftp_cmd_str := cmd, ftp_arg_str := arg\<rparr>) p) (\<lambda>step.
     case step of
       LoggedIn T s \<Rightarrow> Inr (LoggedIn T s, inps)
     | Again c p \<Rightarrow> parse_username_password T W inps c p))"

definition init_connection ::
    "tunables \<Rightarrow> os \<Rightarrow> input list \<Rightarrow> vsf_session \<Rightarrow> vsf_session \<Rightarrow> (login_step \<times> input list) run" where
  "init_connection T W inputs c p =
     and_then (check_limits T W c) (\<lambda>c.
     and_then (if tunable_ftp_enable T then emit_greeting T W c else Inr c) (\<lambda>c.
     parse_username_password T W inputs c p))"

subsection \<open>The two process models\<close>

definition one_process_start :: "tunables \<Rightarrow> os \<Rightarrow> vsf_session \<Rightarrow> vsf_session run" where
  "one_process_start T W s =
     (let user_name = text_setting (tunable_ftp_username T); chdir_str = text_setting (tunable_anon_root T) in
      if tunable_run_as_launching_user T
      then Inr (if chdir_str \<noteq> [] then snd (sys W (EnterDir chdir_str) s) else s)
      else vsf_secutil_change_credentials W user_name [] chdir_str (helper_caps T)
        [VSF_SECUTIL_OPTION_CHROOT, VSF_SECUTIL_OPTION_USE_GROUPS, VSF_SECUTIL_OPTION_NO_PROCS] s)"

text \<open>The file of the users that are let in or kept out is read before the privileges are gone.\<close>

definition two_process_start :: "tunables \<Rightarrow> os \<Rightarrow> vsf_session \<Rightarrow> vsf_session run" where
  "two_process_start T W s =
     and_then (sys_zero W ''socketpair'' SocketPair s) (\<lambda>s.
     and_then (if tunable_isolate_network T then vsf_sysutil_fork_newnet W s else vsf_sysutil_fork W s) (\<lambda>(newpid, s).
     if newpid < 0 then die ''priv_sock_get_cmd'' s
     else
       and_then
         (if tunable_local_enable T \<and> tunable_userlist_enable T
          then let (t, s) = (case tunable_userlist_file T of None \<Rightarrow> (None, s)
                             | Some f \<Rightarrow> str_fileread_checked W (c_str f) VSFTP_CONF_FILE_MAX s)
               in case t of
                 None \<Rightarrow> die (die2_text ''cannot read user list file:'' (tunable_userlist_file T)) s
               | Some t \<Rightarrow> Inr (s\<lparr>userlist_str := t\<rparr>)
          else Inr s) (drop_all_privs T W)))"

text \<open>
  The whole of it, until the inputs are used up. In the one process model the second structure is not
  used; in the other it is the parent's, as it was at the fork.
\<close>

definition serve_client :: "tunables \<Rightarrow> os \<Rightarrow> input list \<Rightarrow> vsf_session \<Rightarrow> vsf_session run" where
  "serve_client T W inputs s =
     and_then (if tunable_one_process_model T then one_process_start T W s else two_process_start T W s) (\<lambda>c.
     and_then (init_connection T W inputs c s) (\<lambda>(step, inputs).
     case step of
       LoggedIn T s \<Rightarrow> process_post_login T W inputs s
     | Again c p \<Rightarrow> Inr c))"
end
