(* ===== verification/Hash_Table.thy ===== *)
theory Hash_Table
  imports Prelude
begin

text \<open>
  The hash table of the listener, \<open>src/server/vsftpd-3.0.3/hash.c\<close>: an array of buckets, each a doubly
  linked list of nodes on the heap. The heap is explicit, a map from addresses to nodes with the address
  \<open>malloc\<close> hands out next, so that the surgery on the pointers is what is verified. An access through a
  pointer to no node is a fault.

  Keys are compared over their whole size by the code, which is equality of the keys here.
\<close>

subsection \<open>Nodes and tables\<close>

record ('k, 'v) hash_node =
  p_key :: 'k
  p_value :: 'v
  p_prev :: "nat option"
  p_next :: "nat option"

type_synonym ('k, 'v) node_store = "nat \<rightharpoonup> ('k, 'v) hash_node"

record ('k, 'v) hash =
  buckets :: nat
  hash_func :: "nat \<Rightarrow> 'k \<Rightarrow> nat"
  p_nodes :: "nat option list"
  node_store :: "('k, 'v) node_store"
  next_addr :: nat

definition hash_alloc :: "nat \<Rightarrow> (nat \<Rightarrow> 'k \<Rightarrow> nat) \<Rightarrow> ('k, 'v) hash" where
  "hash_alloc n f = \<lparr>buckets = n, hash_func = f, p_nodes = replicate n None, node_store = Map.empty, next_addr = 0\<rparr>"

definition node_at :: "('k, 'v) hash \<Rightarrow> nat \<Rightarrow> ('k, 'v) hash_node res" where
  "node_at h a = (case node_store h a of None \<Rightarrow> Inl NullDeref | Some n \<Rightarrow> Inr n)"

definition change_node ::
    "nat \<Rightarrow> (('k, 'v) hash_node \<Rightarrow> ('k, 'v) hash_node) \<Rightarrow> ('k, 'v) hash \<Rightarrow> ('k, 'v) hash res" where
  "change_node a f h =
     bind_res (node_at h a) (\<lambda>n. Inr (h\<lparr>node_store := (node_store h)(a \<mapsto> f n)\<rparr>))"

definition hash_get_bucket :: "('k, 'v) hash \<Rightarrow> 'k \<Rightarrow> nat res" where
  "hash_get_bucket h k =
     (let bucket = hash_func h (buckets h) k in
      if buckets h \<le> bucket then Inl (Bug ''bad bucket lookup'') else Inr bucket)"

text \<open>The walk along a bucket; a list that closes on itself would never end.\<close>

fun find_node :: "nat \<Rightarrow> ('k, 'v) hash \<Rightarrow> 'k \<Rightarrow> nat option \<Rightarrow> nat option res" where
  "find_node fuel h k None = Inr None"
| "find_node 0 h k (Some a) = Inl Diverges"
| "find_node (Suc fuel) h k (Some a) =
     bind_res (node_at h a) (\<lambda>n. if k = p_key n then Inr (Some a) else find_node fuel h k (p_next n))"

definition hash_get_node_by_key :: "('k, 'v) hash \<Rightarrow> 'k \<Rightarrow> nat option res" where
  "hash_get_node_by_key h k =
     bind_res (hash_get_bucket h k) (\<lambda>b.
     bind_res (arr_read (p_nodes h) b) (\<lambda>p. find_node (next_addr h) h k p))"

text \<open>A pointer to a value is the address of its node.\<close>

definition hash_lookup_entry :: "('k, 'v) hash \<Rightarrow> 'k \<Rightarrow> nat option res" where
  "hash_lookup_entry h k = hash_get_node_by_key h k"

definition value_at :: "('k, 'v) hash \<Rightarrow> nat \<Rightarrow> 'v res" where
  "value_at h a = bind_res (node_at h a) (\<lambda>n. Inr (p_value n))"

definition store_value :: "nat \<Rightarrow> 'v \<Rightarrow> ('k, 'v) hash \<Rightarrow> ('k, 'v) hash res" where
  "store_value a v h = change_node a (\<lambda>n. n\<lparr>p_value := v\<rparr>) h"

definition hash_add_entry :: "('k, 'v) hash \<Rightarrow> 'k \<Rightarrow> 'v \<Rightarrow> ('k, 'v) hash res" where
  "hash_add_entry h k v =
     bind_res (hash_lookup_entry h k) (\<lambda>found.
     if found \<noteq> None then Inl (Bug ''duplicate hash key'')
     else
       bind_res (hash_get_bucket h k) (\<lambda>b.
       bind_res (arr_read (p_nodes h) b) (\<lambda>head.
       let p_new_node = next_addr h;
           h = h\<lparr>node_store := (node_store h)(p_new_node \<mapsto>
                    \<lparr>p_key = k, p_value = v, p_prev = None, p_next = None\<rparr>),
                 next_addr := Suc p_new_node\<rparr>
       in case head of
            None \<Rightarrow> Inr (h\<lparr>p_nodes := (p_nodes h)[b := Some p_new_node]\<rparr>)
          | Some p_first \<Rightarrow>
              bind_res (change_node p_new_node (\<lambda>n. n\<lparr>p_next := head\<rparr>) h) (\<lambda>h.
              bind_res (change_node p_first (\<lambda>n. n\<lparr>p_prev := Some p_new_node\<rparr>) h) (\<lambda>h.
              Inr (h\<lparr>p_nodes := (p_nodes h)[b := Some p_new_node]\<rparr>))))))"

definition hash_free_entry :: "('k, 'v) hash \<Rightarrow> 'k \<Rightarrow> ('k, 'v) hash res" where
  "hash_free_entry h k =
     bind_res (hash_get_node_by_key h k) (\<lambda>found.
     case found of
       None \<Rightarrow> Inl (Bug ''hash node not found'')
     | Some p_node \<Rightarrow>
         bind_res (node_at h p_node) (\<lambda>n.
         bind_res
           (case p_prev n of
              Some p \<Rightarrow> change_node p (\<lambda>m. m\<lparr>p_next := p_next n\<rparr>) h
            | None \<Rightarrow>
                bind_res (hash_get_bucket h k) (\<lambda>b. Inr (h\<lparr>p_nodes := (p_nodes h)[b := p_next n]\<rparr>))) (\<lambda>h.
         bind_res
           (case p_next n of
              Some p \<Rightarrow> change_node p (\<lambda>m. m\<lparr>p_prev := p_prev n\<rparr>) h
            | None \<Rightarrow> Inr h) (\<lambda>h.
         Inr (h\<lparr>node_store := (node_store h)(p_node := None)\<rparr>)))))"

subsection \<open>Chains of nodes\<close>

text \<open>From a pointer, with the node before it, through the nodes at these addresses to the end.\<close>

fun dchain :: "('k, 'v) node_store \<Rightarrow> nat option \<Rightarrow> nat option \<Rightarrow> nat list \<Rightarrow> bool" where
  "dchain st q p [] \<longleftrightarrow> p = None"
| "dchain st q p (a # as) \<longleftrightarrow>
     p = Some a \<and> (\<exists>n. st a = Some n \<and> p_prev n = q \<and> dchain st (Some a) (p_next n) as)"

lemma dchain_upd [simp]: "a \<notin> set as \<Longrightarrow> dchain (st(a := x)) q p as = dchain st q p as"
  by (induction as arbitrary: q p) auto

lemma dchain_nodes: "dchain st q p as \<Longrightarrow> a \<in> set as \<Longrightarrow> st a \<noteq> None"
  by (induction as arbitrary: q p) auto

text \<open>A pointer to the first node of a list of addresses.\<close>

fun first :: "nat list \<Rightarrow> nat option" where
  "first [] = None"
| "first (a # as) = Some a"

lemma dchain_first: "dchain st q p as \<Longrightarrow> p = first as"
  by (cases as) auto

definition relink :: "nat option \<Rightarrow> (('k, 'v) hash_node \<Rightarrow> ('k, 'v) hash_node) \<Rightarrow> ('k, 'v) node_store \<Rightarrow> ('k, 'v) node_store" where
  "relink p f st = (case p of None \<Rightarrow> st | Some a \<Rightarrow> st(a := map_option f (st a)))"

lemma dchain_new_prev:
  "dchain st q p as \<Longrightarrow> distinct as \<Longrightarrow> dchain (relink p (\<lambda>m. m\<lparr>p_prev := r\<rparr>) st) r p as"
  by (cases as) (auto simp: relink_def)

lemma relink_other: "p \<noteq> Some a \<Longrightarrow> relink p f st a = st a"
  by (auto simp: relink_def split: option.splits)

lemma dchain_relink: "(\<And>a. p' = Some a \<Longrightarrow> a \<notin> set as) \<Longrightarrow> dchain (relink p' f st) q p as = dchain st q p as"
  by (auto simp: relink_def split: option.split)

text \<open>Taking a node out: the node before it and the node behind it are joined.\<close>

definition unlinked :: "('k, 'v) node_store \<Rightarrow> nat \<Rightarrow> ('k, 'v) hash_node \<Rightarrow> ('k, 'v) node_store" where
  "unlinked st a n =
     (relink (p_next n) (\<lambda>m. m\<lparr>p_prev := p_prev n\<rparr>) (relink (p_prev n) (\<lambda>m. m\<lparr>p_next := p_next n\<rparr>) st))(a := None)"

lemma dchain_neighbours:
  assumes "dchain st q p (xs @ a # ys)" "st a = Some n"
  shows "p_next n = first ys \<and> p_prev n = (if xs = [] then q else Some (last xs))"
  using assms
proof (induction xs arbitrary: q p)
  case Nil
  then show ?case using dchain_first [of st "Some a" "p_next n" ys] by auto
next
  case (Cons x xs)
  then obtain r where "dchain st (Some x) r (xs @ a # ys)" by auto
  from Cons.IH [OF this Cons.prems(2)] show ?case by auto
qed

lemma dchain_tail: "dchain st q p (xs @ a # ys) \<Longrightarrow> st a = Some n \<Longrightarrow> dchain st (Some a) (p_next n) ys"
  by (induction xs arbitrary: q p) auto

text \<open>Joining the node before to a chain.\<close>

lemma dchain_join:
  assumes "dchain st q p (xs @ a # ys)" "distinct (xs @ a # ys)" "xs \<noteq> []" "dchain st' (Some (last xs)) r ys"
    and "\<And>x. x \<in> set xs \<Longrightarrow> st' x = (if x = last xs then map_option (\<lambda>m. m\<lparr>p_next := r\<rparr>) (st x) else st x)"
  shows "dchain st' q p (xs @ ys)"
  using assms
proof (induction xs arbitrary: q p)
  case (Cons x xs)
  show ?case
  proof (cases "xs = []")
    case False
    then obtain n where n: "p = Some x" "st x = Some n" "p_prev n = q" "dchain st (Some x) (p_next n) (xs @ a # ys)"
      using Cons.prems(1) by auto
    have "x \<noteq> last xs" using Cons.prems(2) False by auto
    with n(2) Cons.prems(5) [of x] False have "st' x = Some n" by simp
    moreover have "dchain st' (Some x) (p_next n) (xs @ ys)"
      by (rule Cons.IH) (use Cons.prems n False in auto)
    ultimately show ?thesis using n by simp
  qed (use Cons.prems in auto)
qed simp

lemma dchain_unlinked:
  assumes c: "dchain st q p (xs @ a # ys)" and d: "distinct (xs @ a # ys)" and n: "st a = Some n"
    and q: "\<And>b. q = Some b \<Longrightarrow> b \<notin> set (xs @ a # ys)"
  shows "dchain (unlinked st a n) q (if xs = [] then p_next n else p) (xs @ ys)"
proof -
  define r where "r = (if xs = [] then q else Some (last xs))"
  have nb: "p_next n = first ys" "p_prev n = r"
    using dchain_neighbours [OF c n] by (simp_all add: r_def)
  have "dchain (relink r f st) (Some a) (p_next n) ys" for f
    using dchain_tail [OF c n] d q by (subst dchain_relink) (auto simp: r_def dest: last_in_set split: if_splits)
  from dchain_new_prev [OF this, of r] d have ys: "dchain (unlinked st a n) r (p_next n) ys"
    unfolding unlinked_def nb(2) by (subst dchain_upd) auto
  show ?thesis
  proof (cases "xs = []")
    case False
    have "unlinked st a n x = (if x = last xs then map_option (\<lambda>m. m\<lparr>p_next := p_next n\<rparr>) (st x) else st x)"
      if x: "x \<in> set xs" for x
    proof -
      have "first ys \<noteq> Some x" "x \<noteq> a" using d x by (cases ys; auto)+
      then have "unlinked st a n x = relink r (\<lambda>m. m\<lparr>p_next := p_next n\<rparr>) st x"
        by (simp add: unlinked_def nb relink_other)
      then show ?thesis using False by (simp add: relink_def r_def)
    qed
    with dchain_join [OF c d False _ this] ys False show ?thesis by (simp add: r_def)
  qed (use ys in \<open>simp add: r_def\<close>)
qed

subsection \<open>The invariant\<close>

text \<open>
  Every bucket is a chain of its own, a node is in the bucket of its key and nowhere else, no key is
  twice in the table, and every node of the heap is in a bucket: nothing leaks.
\<close>

definition key_at :: "('k, 'v) node_store \<Rightarrow> nat \<Rightarrow> 'k option" where
  "key_at st a = map_option p_key (st a)"

definition table_ok :: "('k, 'v) hash \<Rightarrow> nat list list \<Rightarrow> bool" where
  "table_ok h cs \<longleftrightarrow>
     length (p_nodes h) = buckets h \<and> length cs = buckets h \<and>
     (\<forall>b < buckets h. dchain (node_store h) None (p_nodes h ! b) (cs ! b) \<and> distinct (cs ! b)) \<and>
     (\<forall>a k. key_at (node_store h) a = Some k \<longrightarrow> a < next_addr h \<and> a \<in> set (cs ! hash_func h (buckets h) k)) \<and>
     (\<forall>b < buckets h. \<forall>a \<in> set (cs ! b). \<forall>k. key_at (node_store h) a = Some k \<longrightarrow> hash_func h (buckets h) k = b) \<and>
     (\<forall>a c k. key_at (node_store h) a = Some k \<longrightarrow> key_at (node_store h) c = Some k \<longrightarrow> a = c) \<and>
     (\<forall>k. hash_func h (buckets h) k < buckets h)"

abbreviation bucket_of :: "('k, 'v) hash \<Rightarrow> 'k \<Rightarrow> nat" where
  "bucket_of h k \<equiv> hash_func h (buckets h) k"

lemma tableD:
  assumes "table_ok h cs"
  shows "length (p_nodes h) = buckets h" "length cs = buckets h" "bucket_of h k < buckets h"
    "b < buckets h \<Longrightarrow> dchain (node_store h) None (p_nodes h ! b) (cs ! b)"
    "b < buckets h \<Longrightarrow> distinct (cs ! b)"
    "node_store h a = Some n \<Longrightarrow> a < next_addr h"
    "node_store h a = Some n \<Longrightarrow> a \<in> set (cs ! bucket_of h (p_key n))"
    "b < buckets h \<Longrightarrow> a \<in> set (cs ! b) \<Longrightarrow> node_store h a = Some n \<Longrightarrow> bucket_of h (p_key n) = b"
    "node_store h a = Some n \<Longrightarrow> node_store h c = Some m \<Longrightarrow> p_key n = p_key m \<Longrightarrow> a = c"
  using assms by (auto simp: table_ok_def key_at_def)

text \<open>The map a table stands for: what the nodes of the heap hold.\<close>

definition node_kv :: "('k, 'v) node_store \<Rightarrow> nat \<Rightarrow> ('k \<times> 'v) option" where
  "node_kv st a = map_option (\<lambda>n. (p_key n, p_value n)) (st a)"

definition hash_entries :: "('k, 'v) hash \<Rightarrow> ('k \<times> 'v) list" where
  "hash_entries h =
     concat (map (\<lambda>a. case node_kv (node_store h) a of None \<Rightarrow> [] | Some e \<Rightarrow> [e]) [0..<next_addr h])"

definition hash_map :: "('k, 'v) hash \<Rightarrow> 'k \<rightharpoonup> 'v" where
  "hash_map h = map_of (hash_entries h)"

lemma node_kv_Some: "node_kv st a = Some (k, v) \<longleftrightarrow> (\<exists>n. st a = Some n \<and> p_key n = k \<and> p_value n = v)"
  by (auto simp: node_kv_def)

lemma hash_map_Some:
  assumes "table_ok h cs"
  shows "hash_map h k = Some v \<longleftrightarrow> (\<exists>a. node_kv (node_store h) a = Some (k, v))"
proof -
  let ?kvs = "hash_entries h"
  have bound: "a < next_addr h" if "node_kv (node_store h) a = Some (x, y)" for a x y
    using that tableD(6) [OF assms] by (auto simp: node_kv_Some)
  have "(x, y) \<in> set ?kvs \<longleftrightarrow> (\<exists>a. a < next_addr h \<and> node_kv (node_store h) a = Some (x, y))" for x y
    by (auto simp: hash_entries_def atLeast0LessThan Bex_def eq_commute [of "Some (x, y)"] split: option.splits)
  with bound have mem: "(x, y) \<in> set ?kvs \<longleftrightarrow> (\<exists>a. node_kv (node_store h) a = Some (x, y))" for x y
    by blast
  have one: "y = z" if y: "(x, y) \<in> set ?kvs" and z: "(x, z) \<in> set ?kvs" for x y z
  proof -
    obtain a n where a: "node_store h a = Some n" "p_key n = x" "p_value n = y"
      using y by (auto simp: mem node_kv_Some)
    obtain c m where c: "node_store h c = Some m" "p_key m = x" "p_value m = z"
      using z by (auto simp: mem node_kv_Some)
    have "a = c" using tableD(9) [OF assms a(1) c(1)] a(2) c(2) by simp
    with a c show ?thesis by simp
  qed
  have "map_of ?kvs k = Some v" if kv: "(k, v) \<in> set ?kvs"
  proof -
    obtain w where w: "map_of ?kvs k = Some w" using weak_map_of_SomeI [OF kv] by blast
    with one [OF map_of_SomeD [OF w] kv] show ?thesis by simp
  qed
  with mem [of k v] map_of_SomeD [of ?kvs k v] show ?thesis unfolding hash_map_def by blast
qed

lemma hash_map_eqI:
  assumes "table_ok h cs" "\<And>k v. m k = Some v \<longleftrightarrow> (\<exists>a. node_kv (node_store h) a = Some (k, v))"
  shows "hash_map h = m"
proof
  fix k
  show "hash_map h k = m k"
    using hash_map_Some [OF assms(1), of k] assms(2) [of k] by (metis not_None_eq)
qed

lemma hash_alloc_ok:
  assumes "\<And>k. f n k < n"
  shows "table_ok (hash_alloc n f) (replicate n [])" "hash_map (hash_alloc n f) = Map.empty"
proof -
  show ok: "table_ok (hash_alloc n f) (replicate n [])"
    using assms by (simp add: table_ok_def hash_alloc_def key_at_def)
  show "hash_map (hash_alloc n f) = Map.empty"
    by (rule hash_map_eqI [OF ok]) (simp add: hash_alloc_def node_kv_def)
qed

subsection \<open>Looking up\<close>

lemma find_node_chain:
  assumes "dchain (node_store h) q p as" "length as \<le> fuel"
  shows "find_node fuel h k p = Inr (List.find (\<lambda>a. p_key (the (node_store h a)) = k) as)"
  using assms
proof (induction as arbitrary: q p fuel)
  case (Cons a as)
  then obtain m where "fuel = Suc m" by (cases fuel) auto
  with Cons show ?case by (auto simp: node_at_def)
qed simp

lemma chain_fits:
  assumes "table_ok h cs" "b < buckets h"
  shows "length (cs ! b) \<le> next_addr h"
proof -
  have "set (cs ! b) \<subseteq> {..<next_addr h}"
    using dchain_nodes [OF tableD(4) [OF assms]] tableD(6) [OF assms(1)] by fastforce
  then have "card (set (cs ! b)) \<le> next_addr h" by (metis card_lessThan card_mono finite_lessThan)
  then show ?thesis by (simp add: distinct_card tableD(5) [OF assms])
qed

lemma lookup_ok:
  assumes ok: "table_ok h cs"
  shows "\<exists>r. hash_lookup_entry h k = Inr r \<and> (\<forall>a. r = Some a \<longleftrightarrow> (\<exists>n. node_store h a = Some n \<and> p_key n = k))"
proof -
  define b where "b = bucket_of h k"
  have b: "b < buckets h" using tableD(3) [OF ok] by (simp add: b_def)
  define r where "r = List.find (\<lambda>a. p_key (the (node_store h a)) = k) (cs ! b)"
  have "hash_lookup_entry h k = Inr r"
    using find_node_chain [OF tableD(4) [OF ok b] chain_fits [OF ok b]] b tableD(1) [OF ok]
    by (simp add: hash_lookup_entry_def hash_get_node_by_key_def hash_get_bucket_def b_def [symmetric] arr_read_def r_def)
  moreover have "r = Some a \<longleftrightarrow> (\<exists>n. node_store h a = Some n \<and> p_key n = k)" for a
  proof
    assume "r = Some a"
    then have "a \<in> set (cs ! b)" "p_key (the (node_store h a)) = k"
      by (auto simp: r_def find_Some_iff)
    with dchain_nodes [OF tableD(4) [OF ok b]] show "\<exists>n. node_store h a = Some n \<and> p_key n = k" by force
  next
    assume "\<exists>n. node_store h a = Some n \<and> p_key n = k"
    then obtain n where n: "node_store h a = Some n" "p_key n = k" by blast
    then have "a \<in> set (cs ! b)" using tableD(7) [OF ok n(1)] by (simp add: b_def)
    with n obtain c where c: "r = Some c" by (cases r) (auto simp: r_def find_None_iff)
    then have "c \<in> set (cs ! b)" "p_key (the (node_store h c)) = k"
      by (auto simp: r_def find_Some_iff)
    with dchain_nodes [OF tableD(4) [OF ok b]] obtain m where "node_store h c = Some m" "p_key m = k" by force
    with tableD(9) [OF ok n(1)] n(2) c show "r = Some a" by simp
  qed
  ultimately show ?thesis by blast
qed

subsection \<open>Adding\<close>

text \<open>Relinking changes no key and no value.\<close>

lemma relink_kv [simp]:
  "(\<And>m. p_key (f m) = p_key m) \<Longrightarrow> key_at (relink p f st) = key_at st"
  "(\<And>m. p_key (f m) = p_key m) \<Longrightarrow> (\<And>m. p_value (f m) = p_value m) \<Longrightarrow> node_kv (relink p f st) = node_kv st"
  by (auto simp: fun_eq_iff relink_def key_at_def node_kv_def option.map_comp o_def split: option.splits)

lemma upd_kv [simp]:
  "key_at (st(a := x)) = (key_at st)(a := map_option p_key x)"
  "node_kv (st(a := x)) = (node_kv st)(a := map_option (\<lambda>n. (p_key n, p_value n)) x)"
  by (auto simp: fun_eq_iff key_at_def node_kv_def)

lemma absent_key:
  assumes "table_ok h cs" "hash_map h k = None"
  shows "node_store h a = Some n \<Longrightarrow> p_key n \<noteq> k"
proof
  assume "node_store h a = Some n" "p_key n = k"
  then have "hash_map h k = Some (p_value n)"
    unfolding hash_map_Some [OF assms(1)] node_kv_Some by blast
  with assms(2) show False by simp
qed

lemma change_node_relink:
  "node_store h a \<noteq> None \<Longrightarrow> change_node a f h = Inr (h\<lparr>node_store := relink (Some a) f (node_store h)\<rparr>)"
  by (auto simp: change_node_def node_at_def relink_def)

definition added :: "'k \<Rightarrow> 'v \<Rightarrow> nat \<Rightarrow> ('k, 'v) hash \<Rightarrow> ('k, 'v) hash" where
  "added k v b h = h\<lparr>p_nodes := (p_nodes h)[b := Some (next_addr h)],
     node_store := relink (p_nodes h ! b) (\<lambda>m. m\<lparr>p_prev := Some (next_addr h)\<rparr>)
       ((node_store h)(next_addr h \<mapsto> \<lparr>p_key = k, p_value = v, p_prev = None, p_next = p_nodes h ! b\<rparr>)),
     next_addr := Suc (next_addr h)\<rparr>"

lemma hash_add_eq:
  assumes ok: "table_ok h cs" and no: "hash_map h k = None"
  shows "hash_add_entry h k v = Inr (added k v (bucket_of h k) h)"
proof -
  define b where "b = bucket_of h k"
  have b: "b < buckets h" using tableD(3) [OF ok] by (simp add: b_def)
  have "hash_lookup_entry h k = Inr None"
    using lookup_ok [OF ok, of k] absent_key [OF ok no] by (metis not_None_eq)
  then have eq: "hash_add_entry h k v = (let p_new_node = next_addr h;
      h' = h\<lparr>node_store := (node_store h)(p_new_node \<mapsto> \<lparr>p_key = k, p_value = v, p_prev = None, p_next = None\<rparr>),
             next_addr := Suc p_new_node\<rparr>
    in case p_nodes h ! b of None \<Rightarrow> Inr (h'\<lparr>p_nodes := (p_nodes h')[b := Some p_new_node]\<rparr>)
       | Some p_first \<Rightarrow>
           bind_res (change_node p_new_node (\<lambda>n. n\<lparr>p_next := p_nodes h ! b\<rparr>) h') (\<lambda>h'.
           bind_res (change_node p_first (\<lambda>n. n\<lparr>p_prev := Some p_new_node\<rparr>) h') (\<lambda>h'.
           Inr (h'\<lparr>p_nodes := (p_nodes h')[b := Some p_new_node]\<rparr>))))"
    using b tableD(1) [OF ok]
    by (simp add: hash_add_entry_def hash_get_bucket_def b_def [symmetric] arr_read_def Let_def)
  show ?thesis
  proof (cases "p_nodes h ! b")
    case None
    then show ?thesis
      unfolding eq b_def [symmetric] by (simp add: Let_def added_def relink_def)
  next
    case (Some c)
    then have "node_store h c \<noteq> None"
      using tableD(4) [OF ok b] by (cases "cs ! b") auto
    moreover from this have "c \<noteq> next_addr h" using tableD(6) [OF ok] by auto
    ultimately show ?thesis
      unfolding eq b_def [symmetric] using Some
      by (auto simp: Let_def change_node_def node_at_def added_def relink_def fun_upd_twist)
  qed
qed

lemma added_ok:
  assumes ok: "table_ok h cs" and no: "hash_map h k = None" and b: "b = bucket_of h k"
  shows "table_ok (added k v b h) (cs[b := next_addr h # cs ! b])"
    "hash_map (added k v b h) = (hash_map h)(k \<mapsto> v)"
proof -
  have lt: "b < buckets h" using tableD(3) [OF ok] by (simp add: b)
  let ?a = "next_addr h"
  have fresh: "?a \<notin> set (cs ! c)" if "c < buckets h" for c
    using dchain_nodes [OF tableD(4) [OF ok that]] tableD(6) [OF ok, of ?a] by auto
  have key: "key_at (node_store h) c \<noteq> Some k" for c
    using absent_key [OF ok no] by (auto simp: key_at_def)
  have free: "node_store h ?a = None" using tableD(6) [OF ok, of ?a] by (cases "node_store h ?a") auto
  have head: "p_nodes h ! b \<noteq> Some ?a"
    using dchain_first [OF tableD(4) [OF ok lt]] fresh [OF lt] by (cases "cs ! b") auto
  have st: "dchain (node_store (added k v b h)) None (p_nodes (added k v b h) ! c) (cs[b := ?a # cs ! b] ! c)"
    if c: "c < buckets h" for c
  proof (cases "c = b")
    case True
    have "dchain (relink (p_nodes h ! b) (\<lambda>m. m\<lparr>p_prev := Some ?a\<rparr>) ((node_store h)(?a \<mapsto> n))) (Some ?a) (p_nodes h ! b) (cs ! b)" for n
      using tableD(4,5) [OF ok lt] fresh [OF lt] by (intro dchain_new_prev) auto
    with True lt tableD(1,2) [OF ok] head show ?thesis by (simp add: added_def relink_other)
  next
    case False
    have "first (cs ! b) \<noteq> Some d" if "d \<in> set (cs ! c)" for d
    proof
      assume "first (cs ! b) = Some d"
      then have d: "d \<in> set (cs ! b)" by (cases "cs ! b") auto
      obtain n where "node_store h d = Some n" using dchain_nodes [OF tableD(4) [OF ok lt] d] by auto
      with tableD(8) [OF ok lt d] tableD(8) [OF ok c that] False show False by simp
    qed
    then have "dchain (relink (p_nodes h ! b) f ((node_store h)(?a \<mapsto> n))) None (p_nodes h ! c) (cs ! c)" for f n
      using tableD(4) [OF ok c] fresh [OF c] dchain_first [OF tableD(4) [OF ok lt]]
      by (subst dchain_relink) (auto dest: sym)
    with False show ?thesis by (simp add: added_def)
  qed
  show ok': "table_ok (added k v b h) (cs[b := ?a # cs ! b])"
    using ok st fresh lt key unfolding table_ok_def
    by (auto simp: added_def nth_list_update b less_Suc_eq)
  show "hash_map (added k v b h) = (hash_map h)(k \<mapsto> v)"
  proof (rule hash_map_eqI [OF ok'])
    fix x y
    have "node_kv (node_store (added k v b h)) = (node_kv (node_store h))(?a \<mapsto> (k, v))"
      by (simp add: added_def)
    moreover have "node_kv (node_store h) ?a = None" using free by (simp add: node_kv_def)
    moreover have "node_kv (node_store h) c \<noteq> Some (k, y)" for c y
      using key [of c] by (auto simp: node_kv_def key_at_def)
    ultimately show "((hash_map h)(k \<mapsto> v)) x = Some y \<longleftrightarrow> (\<exists>a. node_kv (node_store (added k v b h)) a = Some (x, y))"
      using hash_map_Some [OF ok, of x y] by (auto; metis option.distinct(1))
  qed
qed

subsection \<open>Removing and changing\<close>

definition removed :: "nat \<Rightarrow> ('k, 'v) hash_node \<Rightarrow> ('k, 'v) hash \<Rightarrow> ('k, 'v) hash" where
  "removed a n h = h\<lparr>p_nodes := (if p_prev n = None then (p_nodes h)[bucket_of h (p_key n) := p_next n] else p_nodes h),
     node_store := unlinked (node_store h) a n\<rparr>"

text \<open>A key that is there, its node, and the chain of its bucket around the node.\<close>

lemma present_node:
  assumes ok: "table_ok h cs" and v: "hash_map h k = Some v"
  obtains a n xs ys where "node_store h a = Some n" "p_key n = k" "p_value n = v"
    "hash_lookup_entry h k = Inr (Some a)" "cs ! bucket_of h k = xs @ a # ys" "a \<notin> set xs \<union> set ys"
proof -
  obtain a n where n: "node_store h a = Some n" "p_key n = k" "p_value n = v"
    using v unfolding hash_map_Some [OF ok] node_kv_Some by blast
  from lookup_ok [OF ok, of k] obtain r where r: "hash_lookup_entry h k = Inr r"
    "\<forall>a. r = Some a \<longleftrightarrow> (\<exists>n. node_store h a = Some n \<and> p_key n = k)" by blast
  with n(1,2) have l: "hash_lookup_entry h k = Inr (Some a)" by simp
  from tableD(7) [OF ok n(1)] n(2) obtain xs ys where "cs ! bucket_of h k = xs @ a # ys"
    by (auto dest: split_list)
  moreover from this tableD(5) [OF ok tableD(3) [OF ok], of k] have "a \<notin> set xs \<union> set ys" by simp
  ultimately show ?thesis using that n l by blast
qed

lemma chain_pointer:
  assumes "dchain st q p as" "a \<in> set as" "st a = Some n"
  shows "p_prev n = q \<or> (\<exists>c. p_prev n = Some c \<and> st c \<noteq> None \<and> c \<in> set as)"
    "p_next n = None \<or> (\<exists>c. p_next n = Some c \<and> st c \<noteq> None \<and> c \<in> set as)"
proof -
  from assms(2) obtain xs ys where as: "as = xs @ a # ys" by (auto dest: split_list)
  have nb: "p_next n = first ys \<and> p_prev n = (if xs = [] then q else Some (last xs))"
    using dchain_neighbours assms as by blast
  show "p_prev n = q \<or> (\<exists>c. p_prev n = Some c \<and> st c \<noteq> None \<and> c \<in> set as)"
    using nb dchain_nodes [OF assms(1), of "last xs"] as by (cases "xs = []") auto
  show "p_next n = None \<or> (\<exists>c. p_next n = Some c \<and> st c \<noteq> None \<and> c \<in> set as)"
    using nb dchain_nodes [OF assms(1)] as by (cases ys) auto
qed

lemma hash_free_eq:
  assumes ok: "table_ok h cs" and l: "hash_lookup_entry h k = Inr (Some a)"
    and n: "node_store h a = Some n" "p_key n = k"
  shows "hash_free_entry h k = Inr (removed a n h)"
proof -
  define b where "b = bucket_of h k"
  have b: "b < buckets h" using tableD(3) [OF ok] by (simp add: b_def)
  have a: "a \<in> set (cs ! b)" using tableD(7) [OF ok n(1)] n(2) by (simp add: b_def)
  note p = chain_pointer [OF tableD(4) [OF ok b] a n(1)]
  have eq: "hash_free_entry h k = bind_res
      (case p_prev n of
         Some p \<Rightarrow> change_node p (\<lambda>m. m\<lparr>p_next := p_next n\<rparr>) h
       | None \<Rightarrow> Inr (h\<lparr>p_nodes := (p_nodes h)[b := p_next n]\<rparr>)) (\<lambda>h.
      bind_res
        (case p_next n of Some p \<Rightarrow> change_node p (\<lambda>m. m\<lparr>p_prev := p_prev n\<rparr>) h | None \<Rightarrow> Inr h) (\<lambda>h.
      Inr (h\<lparr>node_store := (node_store h)(a := None)\<rparr>)))"
    using l n(1) b by (simp add: hash_free_entry_def hash_lookup_entry_def node_at_def hash_get_bucket_def b_def [symmetric] cong: option.case_cong)
  have "(case p_prev n of Some p \<Rightarrow> change_node p (\<lambda>m. m\<lparr>p_next := p_next n\<rparr>) h
      | None \<Rightarrow> Inr (h\<lparr>p_nodes := (p_nodes h)[b := p_next n]\<rparr>)) =
    Inr (h\<lparr>p_nodes := (if p_prev n = None then (p_nodes h)[b := p_next n] else p_nodes h),
      node_store := relink (p_prev n) (\<lambda>m. m\<lparr>p_next := p_next n\<rparr>) (node_store h)\<rparr>)"
    using p(1) by (auto simp: change_node_def node_at_def relink_def)
  moreover have "(case p_next n of Some p \<Rightarrow> change_node p f h' | None \<Rightarrow> Inr h') =
      Inr (h'\<lparr>node_store := relink (p_next n) f (node_store h')\<rparr>)"
    if "node_store h' = relink q g (node_store h)" for h' :: "('a, 'b) hash" and f g q
    using p(2) that by (auto simp: change_node_def node_at_def relink_def split: option.splits)
  ultimately show ?thesis
    unfolding eq by (simp add: removed_def unlinked_def b_def n(2))
qed

lemma removed_ok:
  assumes ok: "table_ok h cs" and n: "node_store h a = Some n" "p_key n = k"
    and cs: "cs ! bucket_of h k = xs @ a # ys"
  shows "table_ok (removed a n h) (cs[bucket_of h k := xs @ ys])"
    "hash_map (removed a n h) = (hash_map h)(k := None)"
proof -
  define b where "b = bucket_of h k"
  note cs = cs [folded b_def]
  have b: "b < buckets h" using tableD(3) [OF ok] by (simp add: b_def)
  have d: "distinct (xs @ a # ys)" using tableD(5) [OF ok b] cs by simp
  have c: "dchain (node_store h) None (p_nodes h ! b) (xs @ a # ys)" using tableD(4) [OF ok b] cs by simp
  have head: "p_prev n = None \<longleftrightarrow> xs = []" using dchain_neighbours [OF c n(1)] by simp
  have keys: "key_at (unlinked (node_store h) a n) = (key_at (node_store h))(a := None)"
    "node_kv (unlinked (node_store h) a n) = (node_kv (node_store h))(a := None)"
    by (simp_all add: unlinked_def)
  have other: "e \<notin> set (cs ! c)" if "c < buckets h" "c \<noteq> b" "e \<in> set (cs ! b)" for c e
    using that tableD(8) [OF ok b that(3)] tableD(8) [OF ok that(1)] dchain_nodes [OF tableD(4) [OF ok b] that(3)] by auto
  have st: "dchain (unlinked (node_store h) a n) None (p_nodes (removed a n h) ! c) (cs[b := xs @ ys] ! c)"
    if "c < buckets h" for c
  proof (cases "c = b")
    case True
    have "dchain (unlinked (node_store h) a n) None (if xs = [] then p_next n else p_nodes h ! b) (xs @ ys)"
      by (rule dchain_unlinked [OF c d n(1)]) simp
    with True b tableD(1,2) [OF ok] head show ?thesis
      by (cases "xs = []"; auto simp: removed_def b_def n(2))
  next
    case False
    have "a \<in> set (cs ! b)" using cs by simp
    note p = chain_pointer [OF tableD(4) [OF ok b] this n(1)]
    have "e \<notin> set (cs ! c)" if "p_prev n = Some e \<or> p_next n = Some e" for e
      using that p other [OF \<open>c < buckets h\<close> False] by auto
    then have "dchain (unlinked (node_store h) a n) None (p_nodes h ! c) (cs ! c)"
      using tableD(4) [OF ok \<open>c < buckets h\<close>] other [OF \<open>c < buckets h\<close> False \<open>a \<in> set (cs ! b)\<close>]
      unfolding unlinked_def by (simp add: dchain_relink)
    with False show ?thesis by (simp add: removed_def n(2) b_def)
  qed
  show ok': "table_ok (removed a n h) (cs[bucket_of h k := xs @ ys])"
    unfolding table_ok_def b_def [symmetric]
  proof (intro conjI allI impI ballI)
    fix e x
    assume e: "key_at (node_store (removed a n h)) e = Some x"
    then have x: "e \<noteq> a" "key_at (node_store h) e = Some x" by (auto simp: removed_def keys split: if_splits)
    then obtain m where m: "node_store h e = Some m" "p_key m = x" by (auto simp: key_at_def)
    show "e < next_addr (removed a n h)" using tableD(6) [OF ok m(1)] by (simp add: removed_def)
    show "e \<in> set (cs[b := xs @ ys] ! hash_func (removed a n h) (buckets (removed a n h)) x)"
      using tableD(7) [OF ok m(1)] m(2) x(1) cs b tableD(2) [OF ok] by (auto simp: removed_def nth_list_update)
  next
    fix e f x
    assume "key_at (node_store (removed a n h)) e = Some x" "key_at (node_store (removed a n h)) f = Some x"
    with tableD(9) [OF ok] show "e = f" by (auto simp: removed_def keys key_at_def split: if_splits)
  next
    fix c e x
    assume "c < buckets (removed a n h)" "e \<in> set (cs[b := xs @ ys] ! c)" "key_at (node_store (removed a n h)) e = Some x"
    then show "hash_func (removed a n h) (buckets (removed a n h)) x = c"
      using tableD(8) [OF ok, of c e] tableD(2) [OF ok] b cs
      by (cases "c = b") (auto simp: removed_def keys key_at_def nth_list_update split: if_splits)
  qed (use st d b tableD(1,2,3,5) [OF ok] in \<open>auto simp: removed_def nth_list_update\<close>)
  show "hash_map (removed a n h) = (hash_map h)(k := None)"
  proof (rule hash_map_eqI [OF ok'])
    fix x y
    have "e = a" if "node_kv (node_store h) e = Some (k, z)" for e z
      using that tableD(9) [OF ok _ n(1)] n(2) by (auto simp: node_kv_Some)
    moreover have "node_kv (node_store h) a \<noteq> Some (x, y)" if "x \<noteq> k"
      using that n by (simp add: node_kv_def)
    ultimately show "((hash_map h)(k := None)) x = Some y \<longleftrightarrow> (\<exists>a'. node_kv (node_store (removed a n h)) a' = Some (x, y))"
      using hash_map_Some [OF ok, of x y] by (auto simp: removed_def keys; metis)
  qed
qed

text \<open>A new value for a node.\<close>

lemma store_value_ok:
  assumes ok: "table_ok h cs" and n: "node_store h a = Some n" "p_key n = k"
  shows "\<exists>h'. store_value a v h = Inr h' \<and> table_ok h' cs \<and> hash_map h' = (hash_map h)(k \<mapsto> v) \<and>
    buckets h' = buckets h \<and> hash_func h' = hash_func h"
proof -
  let ?f = "\<lambda>m. m\<lparr>p_value := v\<rparr>"
  let ?h = "h\<lparr>node_store := relink (Some a) ?f (node_store h)\<rparr>"
  have chain: "dchain (relink (Some a) ?f st) q p as = dchain st q p as" for st :: "('a, 'b) node_store" and q p as
    by (induction as arbitrary: q p) (auto simp: relink_def)
  have ok': "table_ok ?h cs" using ok by (simp add: table_ok_def chain)
  have "hash_map ?h = (hash_map h)(k \<mapsto> v)"
  proof (rule hash_map_eqI [OF ok'])
    fix x y
    have "node_kv (node_store ?h) = (node_kv (node_store h))(a \<mapsto> (k, v))"
      using n by (auto simp: fun_eq_iff node_kv_def relink_def)
    moreover have "e = a" if "node_kv (node_store h) e = Some (k, z)" for e z
      using that tableD(9) [OF ok _ n(1)] n(2) by (auto simp: node_kv_Some)
    moreover have "node_kv (node_store h) a \<noteq> Some (x, y)" if "x \<noteq> k"
      using that n by (simp add: node_kv_def)
    ultimately show "((hash_map h)(k \<mapsto> v)) x = Some y \<longleftrightarrow> (\<exists>a'. node_kv (node_store ?h) a' = Some (x, y))"
      using hash_map_Some [OF ok, of x y] by (auto; metis)
  qed
  moreover have "store_value a v h = Inr ?h" using n(1) by (simp add: store_value_def change_node_relink)
  ultimately show ?thesis using ok' by auto
qed

subsection \<open>The interface\<close>

definition hash_ok :: "('k, 'v) hash \<Rightarrow> bool" where
  "hash_ok h \<longleftrightarrow> (\<exists>cs. table_ok h cs)"

text \<open>
  What the listener relies on: a table is a map whose values are changed in place through the pointer a
  look-up returned. The counters below are all the listener does with one.
\<close>

locale map_table =
  fixes lookup :: "'h \<Rightarrow> 'k \<Rightarrow> nat option res"
    and content :: "'h \<Rightarrow> nat \<Rightarrow> 'v res"
    and put :: "nat \<Rightarrow> 'v \<Rightarrow> 'h \<Rightarrow> 'h res"
    and add :: "'h \<Rightarrow> 'k \<Rightarrow> 'v \<Rightarrow> 'h res"
    and free :: "'h \<Rightarrow> 'k \<Rightarrow> 'h res"
    and inv :: "'h \<Rightarrow> bool"
    and abs_map :: "'h \<Rightarrow> 'k \<rightharpoonup> 'v"
  assumes lookup_None: "inv h \<Longrightarrow> abs_map h k = None \<Longrightarrow> lookup h k = Inr None"
    and lookup_Some: "inv h \<Longrightarrow> abs_map h k = Some v \<Longrightarrow>
      \<exists>a. lookup h k = Inr (Some a) \<and> content h a = Inr v \<and>
        (\<forall>w. \<exists>h'. put a w h = Inr h' \<and> inv h' \<and> abs_map h' = (abs_map h)(k \<mapsto> w))"
    and add_new: "inv h \<Longrightarrow> abs_map h k = None \<Longrightarrow>
      \<exists>h'. add h k v = Inr h' \<and> inv h' \<and> abs_map h' = (abs_map h)(k \<mapsto> v)"
    and free_old: "inv h \<Longrightarrow> abs_map h k = Some v \<Longrightarrow>
      \<exists>h'. free h k = Inr h' \<and> inv h' \<and> abs_map h' = (abs_map h)(k := None)"
begin

definition value_or :: "'v \<Rightarrow> 'h \<Rightarrow> 'k \<Rightarrow> 'v" where
  "value_or d h k = (case abs_map h k of None \<Rightarrow> d | Some v \<Rightarrow> v)"

lemma bump:
  assumes "inv h"
  shows "\<exists>h'. bind_res (lookup h k) (\<lambda>p. case p of
      None \<Rightarrow> bind_res (add h k (f d)) (\<lambda>h. Inr (f d, h))
    | Some a \<Rightarrow> bind_res (content h a) (\<lambda>v. bind_res (put a (f v) h) (\<lambda>h. Inr (f v, h)))) =
      Inr (f (value_or d h k), h') \<and> inv h' \<and> abs_map h' = (abs_map h)(k \<mapsto> f (value_or d h k))"
proof (cases "abs_map h k")
  case None
  with add_new [OF assms None, of "f d"] lookup_None [OF assms None] show ?thesis
    by (auto simp: value_or_def)
next
  case (Some v)
  then obtain a h' where "lookup h k = Inr (Some a)" "content h a = Inr v" "put a (f v) h = Inr h'"
    "inv h'" "abs_map h' = (abs_map h)(k \<mapsto> f v)"
    using lookup_Some [OF assms Some] by blast
  with Some show ?thesis by (simp add: value_or_def)
qed

end

lemma hash_lookup_Some:
  assumes "hash_ok h" "hash_map h k = Some v"
  shows "\<exists>a. hash_lookup_entry h k = Inr (Some a) \<and> value_at h a = Inr v \<and>
    (\<forall>w. \<exists>h'. store_value a w h = Inr h' \<and> hash_ok h' \<and> hash_map h' = (hash_map h)(k \<mapsto> w))"
proof -
  obtain cs where ok: "table_ok h cs" using assms(1) by (auto simp: hash_ok_def)
  obtain a n where n: "node_store h a = Some n" "p_key n = k" "p_value n = v" "hash_lookup_entry h k = Inr (Some a)"
    using present_node [OF ok assms(2)] by metis
  moreover have "value_at h a = Inr v" using n by (simp add: value_at_def node_at_def)
  moreover have "\<exists>h'. store_value a w h = Inr h' \<and> hash_ok h' \<and> hash_map h' = (hash_map h)(k \<mapsto> w)" for w
    using store_value_ok [OF ok n(1,2), of w] unfolding hash_ok_def by blast
  ultimately show ?thesis by blast
qed

lemma hash_lookup_None:
  assumes "hash_ok h" "hash_map h k = None"
  shows "hash_lookup_entry h k = Inr None"
proof -
  obtain cs where ok: "table_ok h cs" using assms(1) by (auto simp: hash_ok_def)
  obtain r where r: "hash_lookup_entry h k = Inr r" "\<forall>a. r = Some a \<longleftrightarrow> (\<exists>n. node_store h a = Some n \<and> p_key n = k)"
    using lookup_ok [OF ok, of k] by blast
  have "r \<noteq> Some a" for a using r(2) absent_key [OF ok assms(2)] by blast
  with r(1) show ?thesis by (cases r) auto
qed

lemma hash_add_new:
  assumes "hash_ok h" "hash_map h k = None"
  shows "\<exists>h'. hash_add_entry h k v = Inr h' \<and> hash_ok h' \<and> hash_map h' = (hash_map h)(k \<mapsto> v)"
proof -
  obtain cs where ok: "table_ok h cs" using assms(1) by (auto simp: hash_ok_def)
  from hash_add_eq [OF ok assms(2)] added_ok [OF ok assms(2) refl, of v] show ?thesis
    unfolding hash_ok_def by blast
qed

lemma hash_free_old:
  assumes "hash_ok h" "hash_map h k = Some v"
  shows "\<exists>h'. hash_free_entry h k = Inr h' \<and> hash_ok h' \<and> hash_map h' = (hash_map h)(k := None)"
proof -
  obtain cs where ok: "table_ok h cs" using assms(1) by (auto simp: hash_ok_def)
  obtain a n xs ys where n: "node_store h a = Some n" "p_key n = k" "hash_lookup_entry h k = Inr (Some a)"
    "cs ! bucket_of h k = xs @ a # ys"
    using present_node [OF ok assms(2)] by metis
  from hash_free_eq [OF ok n(3,1,2)] removed_ok [OF ok n(1,2,4)] show ?thesis
    unfolding hash_ok_def by blast
qed

interpretation chained: map_table hash_lookup_entry value_at store_value hash_add_entry hash_free_entry
  hash_ok hash_map
  by unfold_locales (fact hash_lookup_None hash_lookup_Some hash_add_new hash_free_old)+

lemma hash_faults:
  assumes "hash_ok h"
  shows "hash_map h k = Some v \<Longrightarrow> hash_add_entry h k w = Inl (Bug ''duplicate hash key'')"
    "hash_map h k = None \<Longrightarrow> hash_free_entry h k = Inl (Bug ''hash node not found'')"
  using hash_lookup_Some [OF assms, of k] hash_lookup_None [OF assms, of k]
  by (auto simp: hash_add_entry_def hash_free_entry_def hash_lookup_entry_def)

subsection \<open>Claim\<close>

text \<open>
  C35. The table refines a map: under its invariant, which every operation keeps, a look-up finds exactly
  the keys of the map and a pointer to their values, adding and removing an entry do to the map what they
  say, and a key added twice or removed when it is not there is refused by the checks for that.
\<close>

theorem hash_refines_map:
  assumes "hash_ok h"
  shows "case hash_map h k of
      None \<Rightarrow> hash_lookup_entry h k = Inr None \<and>
        (\<exists>h'. hash_add_entry h k v = Inr h' \<and> hash_ok h' \<and> hash_map h' = (hash_map h)(k \<mapsto> v)) \<and>
        hash_free_entry h k = Inl (Bug ''hash node not found'')
    | Some w \<Rightarrow> (\<exists>a. hash_lookup_entry h k = Inr (Some a) \<and> value_at h a = Inr w) \<and>
        hash_add_entry h k v = Inl (Bug ''duplicate hash key'') \<and>
        (\<exists>h'. hash_free_entry h k = Inr h' \<and> hash_ok h' \<and> hash_map h' = (hash_map h)(k := None))"
proof (cases "hash_map h k")
  case None
  with hash_lookup_None [OF assms None] hash_add_new [OF assms None] hash_faults [OF assms] show ?thesis by simp
next
  case (Some w)
  with hash_lookup_Some [OF assms Some] hash_free_old [OF assms Some] hash_faults [OF assms] show ?thesis by auto
qed

theorem hash_refines_map_witness:
  "\<exists>h h' :: (nat, nat) hash. hash_add_entry (hash_alloc 4 (\<lambda>n k. k mod n)) 6 1 = Inr h \<and> hash_map h = [6 \<mapsto> 1] \<and>
     hash_lookup_entry h 2 = Inr None \<and> hash_free_entry h 6 = Inr h' \<and> hash_map h' = Map.empty"
proof -
  let ?e = "hash_alloc 4 (\<lambda>n k. k mod n) :: (nat, nat) hash"
  have e: "hash_ok ?e" "hash_map ?e = Map.empty"
    using hash_alloc_ok [of "\<lambda>n k. k mod n" "4 :: nat"] unfolding hash_ok_def by auto
  obtain h where h: "hash_add_entry ?e 6 1 = Inr h" "hash_ok h" "hash_map h = [6 \<mapsto> 1]"
    using hash_refines_map [OF e(1), of 6 1] e(2) by auto
  with hash_refines_map [OF h(2), of 6 0] hash_refines_map [OF h(2), of 2 0] show ?thesis by auto
qed

end
