(* ===== verification/Standalone.thy ===== *)
theory Standalone
  imports Hash_Table Sockaddr
begin

text \<open>
  The listener of the standalone server, \<open>src/server/vsftpd-3.0.3/standalone.c\<close>: it counts its children,
  in all and by the address of the client, in two hash tables, and tells each new child the counts. The
  lemmas relate the counters to the children that are alive, and bound how many of them are within the
  limits of the settings.
\<close>

subsection \<open>Addresses and hash functions\<close>

text \<open>
  The sixteen bytes of an address: behind the four bytes of an IPv4 address the structure has been
  cleared.
\<close>

definition s_ipaddr_size :: nat where
  "s_ipaddr_size = 16"

definition vsf_sysutil_sockaddr_get_raw_addr :: "sockaddr \<Rightarrow> string res" where
  "vsf_sysutil_sockaddr_get_raw_addr p_sockptr =
     (case p_sockptr of
        Sa_In a p \<Rightarrow> Inr (take s_ipaddr_size (a @ replicate s_ipaddr_size NUL))
      | Sa_In6 a p sc \<Rightarrow> Inr a
      | Sa_Other \<Rightarrow> Inl (Bug ''bad family''))"

unbundle bit_operations_syntax

fun hash_ip_loop :: "string \<Rightarrow> nat \<Rightarrow> 32 word \<Rightarrow> 32 word" where
  "hash_ip_loop [] shift val = val"
| "hash_ip_loop (c # cs) shift val =
     hash_ip_loop cs (if shift = 0 then 24 else shift - 8) (val XOR push_bit shift (of_nat (of_char c)))"

definition hash_ip :: "nat \<Rightarrow> string \<Rightarrow> nat" where
  "hash_ip n_buckets ip = unat (hash_ip_loop ip 24 0) mod n_buckets"

definition hash_pid :: "nat \<Rightarrow> int \<Rightarrow> nat" where
  "hash_pid n_buckets pid = unat (word_of_int pid :: 32 word) mod n_buckets"

subsection \<open>The listener\<close>

record listener =
  s_children :: "32 word"
  s_p_ip_count_hash :: "(string, 32 word) hash"
  s_p_pid_ip_hash :: "(int, string) hash"

record vsf_client_launch =
  num_children :: "32 word"
  launch_this_ip :: "32 word"

definition vsf_standalone_start :: listener where
  "vsf_standalone_start = \<lparr>s_children = 0, s_p_ip_count_hash = hash_alloc 256 hash_ip,
     s_p_pid_ip_hash = hash_alloc 256 hash_pid\<rparr>"

definition handle_ip_count :: "string \<Rightarrow> listener \<Rightarrow> (32 word \<times> listener) res" where
  "handle_ip_count p_ipaddr s =
     bind_res (hash_lookup_entry (s_p_ip_count_hash s) p_ipaddr) (\<lambda>p_count.
     case p_count of
       None \<Rightarrow>
         let count = 1 in
         bind_res (hash_add_entry (s_p_ip_count_hash s) p_ipaddr count) (\<lambda>h.
         Inr (count, s\<lparr>s_p_ip_count_hash := h\<rparr>))
     | Some p \<Rightarrow>
         bind_res (value_at (s_p_ip_count_hash s) p) (\<lambda>count.
         let count = count + 1 in
         bind_res (store_value p count (s_p_ip_count_hash s)) (\<lambda>h.
         Inr (count, s\<lparr>s_p_ip_count_hash := h\<rparr>))))"

text \<open>The address may be a null pointer.\<close>

definition drop_ip_count :: "string option \<Rightarrow> listener \<Rightarrow> listener res" where
  "drop_ip_count p_raw_addr s =
     (case p_raw_addr of
        None \<Rightarrow> Inl NullDeref
      | Some ip \<Rightarrow>
          bind_res (hash_lookup_entry (s_p_ip_count_hash s) ip) (\<lambda>p_count.
          case p_count of
            None \<Rightarrow> Inl (Bug ''IP address missing from hash'')
          | Some p \<Rightarrow>
              bind_res (value_at (s_p_ip_count_hash s) p) (\<lambda>count.
              if count = 0 then Inl (Bug ''zero count for IP address'')
              else
                let count = count - 1 in
                bind_res (store_value p count (s_p_ip_count_hash s)) (\<lambda>h.
                bind_res (if count = 0 then hash_free_entry h ip else Inr h) (\<lambda>h.
                Inr (s\<lparr>s_p_ip_count_hash := h\<rparr>))))))"

text \<open>
  One turn of the loop in the parent, for a client that connected and the result of the fork, which is
  not zero there. The counts are what the child goes on with.
\<close>

definition accept_client :: "sockaddr \<Rightarrow> int \<Rightarrow> listener \<Rightarrow> (vsf_client_launch \<times> listener) res" where
  "accept_client p_accept_addr new_child s =
     (let s = s\<lparr>s_children := s_children s + 1\<rparr> in
      bind_res (vsf_sysutil_sockaddr_get_raw_addr p_accept_addr) (\<lambda>p_raw_addr.
      bind_res (handle_ip_count p_raw_addr s) (\<lambda>(count, s).
      let child_info = \<lparr>num_children = s_children s, launch_this_ip = count\<rparr> in
      if new_child > 0
      then bind_res (hash_add_entry (s_p_pid_ip_hash s) new_child p_raw_addr) (\<lambda>h.
           Inr (child_info, s\<lparr>s_p_pid_ip_hash := h\<rparr>))
      else bind_res (drop_ip_count (Some p_raw_addr) (s\<lparr>s_children := s_children s - 1\<rparr>)) (\<lambda>s.
           Inr (child_info, s)))))"

text \<open>The signal handler, for the children that are reaped.\<close>

definition reap_child :: "int \<Rightarrow> listener \<Rightarrow> listener res" where
  "reap_child reap_one s =
     (let s = s\<lparr>s_children := s_children s - 1\<rparr> in
      bind_res (hash_lookup_entry (s_p_pid_ip_hash s) reap_one) (\<lambda>p.
      bind_res (case p of None \<Rightarrow> Inr None
                | Some a \<Rightarrow> bind_res (value_at (s_p_pid_ip_hash s) a) (\<lambda>ip. Inr (Some ip))) (\<lambda>p_ip.
      bind_res (drop_ip_count p_ip s) (\<lambda>s.
      bind_res (hash_free_entry (s_p_pid_ip_hash s) reap_one) (\<lambda>h.
      Inr (s\<lparr>s_p_pid_ip_hash := h\<rparr>))))))"

fun handle_sigchld :: "int list \<Rightarrow> listener \<Rightarrow> listener res" where
  "handle_sigchld [] s = Inr s"
| "handle_sigchld (reap_one # pids) s = bind_res (reap_child reap_one s) (handle_sigchld pids)"

subsection \<open>Counting\<close>

text \<open>The counter of an address: no entry stands for zero.\<close>

definition count_of :: "listener \<Rightarrow> string \<Rightarrow> 32 word" where
  "count_of s ip = (case hash_map (s_p_ip_count_hash s) ip of None \<Rightarrow> 0 | Some n \<Rightarrow> n)"

abbreviation counts_ok :: "listener \<Rightarrow> bool" where
  "counts_ok s \<equiv> hash_ok (s_p_ip_count_hash s) \<and> (\<forall>ip. hash_map (s_p_ip_count_hash s) ip \<noteq> Some 0)"

lemma handle_ip_count_counts:
  assumes ok: "counts_ok s" and nz: "count_of s ip + 1 \<noteq> 0"
  shows "\<exists>h'. handle_ip_count ip s = Inr (count_of s ip + 1, s\<lparr>s_p_ip_count_hash := h'\<rparr>) \<and>
    counts_ok (s\<lparr>s_p_ip_count_hash := h'\<rparr>) \<and>
    (\<forall>x. count_of (s\<lparr>s_p_ip_count_hash := h'\<rparr>) x = (if x = ip then count_of s ip + 1 else count_of s x))"
proof -
  obtain h' where h': "bind_res (hash_lookup_entry (s_p_ip_count_hash s) ip) (\<lambda>p. case p of
      None \<Rightarrow> bind_res (hash_add_entry (s_p_ip_count_hash s) ip (0 + 1)) (\<lambda>h. Inr (0 + 1, h))
    | Some a \<Rightarrow> bind_res (value_at (s_p_ip_count_hash s) a) (\<lambda>v.
        bind_res (store_value a (v + 1) (s_p_ip_count_hash s)) (\<lambda>h. Inr (v + 1, h)))) = Inr (count_of s ip + 1, h')"
    "hash_ok h'" "hash_map h' = (hash_map (s_p_ip_count_hash s))(ip \<mapsto> count_of s ip + 1)"
    using chained.bump [of "s_p_ip_count_hash s" ip "\<lambda>n. n + 1" 0] ok
    by (auto simp: chained.value_or_def count_of_def)
  from h'(1) have "handle_ip_count ip s = Inr (count_of s ip + 1, s\<lparr>s_p_ip_count_hash := h'\<rparr>)"
    by (auto simp: handle_ip_count_def Let_def split: option.splits)
  with h'(2,3) nz ok show ?thesis by (intro exI [of _ h']) (auto simp: count_of_def)
qed

lemma drop_ip_count_counts:
  assumes ok: "counts_ok s" and pos: "count_of s ip \<noteq> 0"
  shows "\<exists>h'. drop_ip_count (Some ip) s = Inr (s\<lparr>s_p_ip_count_hash := h'\<rparr>) \<and>
    counts_ok (s\<lparr>s_p_ip_count_hash := h'\<rparr>) \<and>
    (\<forall>x. count_of (s\<lparr>s_p_ip_count_hash := h'\<rparr>) x = (if x = ip then count_of s ip - 1 else count_of s x))"
proof -
  obtain n where n: "hash_map (s_p_ip_count_hash s) ip = Some n" "count_of s ip = n" "n \<noteq> 0"
    using pos by (auto simp: count_of_def split: option.splits)
  obtain a h where a: "hash_lookup_entry (s_p_ip_count_hash s) ip = Inr (Some a)" "value_at (s_p_ip_count_hash s) a = Inr n"
    "store_value a (n - 1) (s_p_ip_count_hash s) = Inr h" "hash_ok h"
    "hash_map h = (hash_map (s_p_ip_count_hash s))(ip \<mapsto> n - 1)"
    using chained.lookup_Some [OF conjunct1 [OF ok] n(1)] by blast
  show ?thesis
  proof (cases "n - 1 = 0")
    case True
    obtain h' where "hash_free_entry h ip = Inr h'" "hash_ok h'" "hash_map h' = (hash_map h)(ip := None)"
      using chained.free_old [OF a(4), of ip "n - 1"] a(5) by auto
    with a n True ok show ?thesis
      by (intro exI [of _ h']) (auto simp: drop_ip_count_def count_of_def Let_def)
  next
    case False
    with a n ok show ?thesis
      by (intro exI [of _ h]) (auto simp: drop_ip_count_def count_of_def Let_def)
  qed
qed

subsection \<open>The children that are alive\<close>

text \<open>By process id: the address of the client, and what the child was told. Process ids are positive.\<close>

type_synonym clients = "int \<rightharpoonup> string \<times> vsf_client_launch"

definition from_ip :: "clients \<Rightarrow> string \<Rightarrow> int set" where
  "from_ip live ip = {pid. \<exists>i. live pid = Some (ip, i)}"

definition pids :: "int set" where
  "pids = {0<..<2 ^ 31}"

definition listener_ok :: "listener \<Rightarrow> clients \<Rightarrow> bool" where
  "listener_ok s live \<longleftrightarrow>
     counts_ok s \<and> hash_ok (s_p_pid_ip_hash s) \<and> hash_map (s_p_pid_ip_hash s) = (\<lambda>pid. map_option fst (live pid)) \<and>
     dom live \<subseteq> pids \<and> s_children s = of_nat (card (dom live)) \<and>
     (\<forall>ip. count_of s ip = of_nat (card (from_ip live ip)))"

lemma pids_card: "finite pids" "card pids < 2 ^ 31"
  by (simp_all add: pids_def)

lemma live_card:
  assumes "dom live \<subseteq> pids"
  shows "finite (dom live)" "card (dom live) < 2 ^ 31" "finite (from_ip live ip)"
    "card (from_ip live ip) \<le> card (dom live)"
proof -
  show fin: "finite (dom live)" using assms pids_card(1) by (rule finite_subset)
  show "card (dom live) < 2 ^ 31" using card_mono [OF pids_card(1) assms] pids_card(2) by simp
  have sub: "from_ip live ip \<subseteq> dom live" by (auto simp: from_ip_def)
  then show "finite (from_ip live ip)" "card (from_ip live ip) \<le> card (dom live)"
    using fin by (auto intro: finite_subset card_mono)
qed

text \<open>Counts below 2^31 do not wrap around.\<close>

lemma count_word:
  "(of_nat n :: 32 word) + 1 = of_nat (n + 1)"
  "n < 2 ^ 31 \<Longrightarrow> (of_nat (n + 1) :: 32 word) \<noteq> 0"
  "n < 2 ^ 32 \<Longrightarrow> unat (of_nat n :: 32 word) = n"
proof -
  show "(of_nat n :: 32 word) + 1 = of_nat (n + 1)" by simp
  show "n < 2 ^ 31 \<Longrightarrow> (of_nat (n + 1) :: 32 word) \<noteq> 0"
    by (auto simp: word_of_nat_eq_0_iff simp del: of_nat_Suc dest: dvd_imp_le)
  show "n < 2 ^ 32 \<Longrightarrow> unat (of_nat n :: 32 word) = n"
    by (simp add: unsigned_of_nat take_bit_nat_eq_self)
qed

lemma from_ip_launch:
  assumes "pid \<notin> dom live"
  shows "from_ip (live(pid \<mapsto> (ip, i))) x = (if x = ip then insert pid (from_ip live x) else from_ip live x)"
    "pid \<notin> from_ip live x"
  using assms by (auto simp: from_ip_def)

lemma from_ip_reap:
  assumes "live pid = Some (ip, i)"
  shows "from_ip (live(pid := None)) x = from_ip live x - (if x = ip then {pid} else {})" "pid \<in> from_ip live ip"
  using assms by (auto simp: from_ip_def)

lemma start_ok: "listener_ok vsf_standalone_start Map.empty"
proof -
  have "hash_ok (hash_alloc 256 hash_ip)" "hash_map (hash_alloc 256 hash_ip :: (string, 32 word) hash) = Map.empty"
    "hash_ok (hash_alloc 256 hash_pid)" "hash_map (hash_alloc 256 hash_pid :: (int, string) hash) = Map.empty"
    using hash_alloc_ok [of hash_ip 256] hash_alloc_ok [of hash_pid 256]
    unfolding hash_ok_def by (auto simp: hash_ip_def hash_pid_def)
  then show ?thesis
    by (simp add: listener_ok_def vsf_standalone_start_def count_of_def from_ip_def)
qed

lemma counted:
  assumes "listener_ok s live"
  shows "\<exists>h. handle_ip_count ip (s\<lparr>s_children := c\<rparr>) =
      Inr (of_nat (card (from_ip live ip) + 1), s\<lparr>s_children := c, s_p_ip_count_hash := h\<rparr>) \<and>
    counts_ok (s\<lparr>s_children := c, s_p_ip_count_hash := h\<rparr>) \<and>
    (\<forall>x. count_of (s\<lparr>s_children := c, s_p_ip_count_hash := h\<rparr>) x =
      of_nat (card (from_ip live x) + (if x = ip then 1 else 0)))"
proof -
  have dom: "dom live \<subseteq> pids" and cnt: "\<And>x. count_of s x = of_nat (card (from_ip live x))"
    using assms by (simp_all add: listener_ok_def)
  have same: "count_of (s\<lparr>s_children := c\<rparr>) = count_of s" by (simp add: fun_eq_iff count_of_def)
  have "card (from_ip live ip) < 2 ^ 31" using live_card(2,4) [OF dom] le_less_trans by blast
  note w = count_word(1) count_word(2) [OF this]
  have "counts_ok (s\<lparr>s_children := c\<rparr>)" using assms by (simp add: listener_ok_def)
  from handle_ip_count_counts [OF this, of ip] w show ?thesis
    by (auto simp: same cnt simp del: of_nat_add)
qed

lemma accept_client_ok:
  assumes ok: "listener_ok s live" and a: "vsf_sysutil_sockaddr_get_raw_addr a = Inr ip"
    and pid: "pid \<in> pids" "pid \<notin> dom live"
    and info: "info = \<lparr>num_children = of_nat (card (dom live) + 1), launch_this_ip = of_nat (card (from_ip live ip) + 1)\<rparr>"
  shows "\<exists>s'. accept_client a pid s = Inr (info, s') \<and> listener_ok s' (live(pid \<mapsto> (ip, info)))"
proof -
  have dom: "dom live \<subseteq> pids" and ch: "s_children s = of_nat (card (dom live))" and ph: "hash_ok (s_p_pid_ip_hash s)"
    and pm: "hash_map (s_p_pid_ip_hash s) = (\<lambda>pid. map_option fst (live pid))"
    using ok by (simp_all add: listener_ok_def)
  obtain h where h: "handle_ip_count ip (s\<lparr>s_children := s_children s + 1\<rparr>) =
      Inr (of_nat (card (from_ip live ip) + 1), s\<lparr>s_children := s_children s + 1, s_p_ip_count_hash := h\<rparr>)"
    "counts_ok (s\<lparr>s_children := s_children s + 1, s_p_ip_count_hash := h\<rparr>)"
    "\<And>x. count_of (s\<lparr>s_children := s_children s + 1, s_p_ip_count_hash := h\<rparr>) x =
      of_nat (card (from_ip live x) + (if x = ip then 1 else 0))"
    using counted [OF ok, of ip "s_children s + 1"] by blast
  have "hash_map (s_p_pid_ip_hash s) pid = None" using pid(2) pm by auto
  then obtain g where g: "hash_add_entry (s_p_pid_ip_hash s) pid ip = Inr g" "hash_ok g"
    "hash_map g = (hash_map (s_p_pid_ip_hash s))(pid \<mapsto> ip)"
    using chained.add_new [OF ph] by blast
  define s' where "s' = s\<lparr>s_children := s_children s + 1, s_p_ip_count_hash := h, s_p_pid_ip_hash := g\<rparr>"
  have "0 < pid" using pid(1) by (simp add: pids_def)
  then have "accept_client a pid s = Inr (info, s')"
    using h(1) g(1) a by (simp add: accept_client_def Let_def info s'_def ch add.commute)
  moreover have "listener_ok s' (live(pid \<mapsto> (ip, info)))"
    using h(2,3) g(2,3) pm pid dom live_card [OF dom] from_ip_launch(1) [OF pid(2), of ip info] from_ip_launch(2) [OF pid(2)]
    by (auto simp: listener_ok_def s'_def count_of_def ch fun_eq_iff)
  ultimately show ?thesis by blast
qed

text \<open>When the fork fails, everything is as it was.\<close>

lemma failed_fork_ok:
  assumes ok: "listener_ok s live" and a: "vsf_sysutil_sockaddr_get_raw_addr a = Inr ip" and pid: "\<not> 0 < pid"
  shows "\<exists>info s'. accept_client a pid s = Inr (info, s') \<and> listener_ok s' live"
proof -
  have dom: "dom live \<subseteq> pids" using ok by (simp add: listener_ok_def)
  define s1 where "s1 = s\<lparr>s_children := s_children s + 1\<rparr>"
  obtain h where h: "handle_ip_count ip s1 = Inr (of_nat (card (from_ip live ip) + 1), s1\<lparr>s_p_ip_count_hash := h\<rparr>)"
    "counts_ok (s1\<lparr>s_p_ip_count_hash := h\<rparr>)"
    "\<And>x. count_of (s1\<lparr>s_p_ip_count_hash := h\<rparr>) x = of_nat (card (from_ip live x) + (if x = ip then 1 else 0))"
    using counted [OF ok, of ip "s_children s + 1"] unfolding s1_def by auto
  define s2 where "s2 = s\<lparr>s_p_ip_count_hash := h\<rparr>"
  have s2: "counts_ok s2" "count_of s2 = count_of (s1\<lparr>s_p_ip_count_hash := h\<rparr>)"
    using h(2) by (simp_all add: s2_def s1_def count_of_def fun_eq_iff)
  have "card (from_ip live ip) < 2 ^ 31" using live_card(2,4) [OF dom] le_less_trans by blast
  from count_word(2) [OF this] have "count_of s2 ip \<noteq> 0" unfolding s2(2) h(3) by simp
  from drop_ip_count_counts [OF s2(1) this] obtain h' where h': "drop_ip_count (Some ip) s2 = Inr (s2\<lparr>s_p_ip_count_hash := h'\<rparr>)"
    "counts_ok (s2\<lparr>s_p_ip_count_hash := h'\<rparr>)"
    "\<And>x. count_of (s2\<lparr>s_p_ip_count_hash := h'\<rparr>) x = (if x = ip then count_of s2 ip - 1 else count_of s2 x)"
    by blast
  define s' where "s' = s\<lparr>s_p_ip_count_hash := h'\<rparr>"
  have "accept_client a pid s = Inr (\<lparr>num_children = s_children s + 1, launch_this_ip = of_nat (card (from_ip live ip) + 1)\<rparr>, s')"
    using h(1) h'(1) a pid by (simp add: accept_client_def Let_def s1_def [symmetric]) (simp add: s1_def s2_def s'_def)
  moreover have "listener_ok s' live"
    using ok h'(2,3) unfolding s2(2) h(3) by (auto simp: listener_ok_def s'_def s2_def count_of_def)
  ultimately show ?thesis by blast
qed

lemma reap_child_ok:
  assumes ok: "listener_ok s live" and l: "live pid = Some (ip, i)"
  shows "\<exists>s'. reap_child pid s = Inr s' \<and> listener_ok s' (live(pid := None))"
proof -
  have dom: "dom live \<subseteq> pids" and ch: "s_children s = of_nat (card (dom live))" and ph: "hash_ok (s_p_pid_ip_hash s)"
    and pm: "hash_map (s_p_pid_ip_hash s) = (\<lambda>pid. map_option fst (live pid))" and co: "counts_ok s"
    and cnt: "\<And>x. count_of s x = of_nat (card (from_ip live x))"
    using ok by (simp_all add: listener_ok_def)
  define s1 where "s1 = s\<lparr>s_children := s_children s - 1\<rparr>"
  have pip: "hash_map (s_p_pid_ip_hash s) pid = Some ip" using l pm by simp
  obtain p where p: "hash_lookup_entry (s_p_pid_ip_hash s) pid = Inr (Some p)" "value_at (s_p_pid_ip_hash s) p = Inr ip"
    using chained.lookup_Some [OF ph pip] by blast
  obtain g where g: "hash_free_entry (s_p_pid_ip_hash s) pid = Inr g" "hash_ok g"
    "hash_map g = (hash_map (s_p_pid_ip_hash s))(pid := None)"
    using chained.free_old [OF ph pip] by blast
  have lt: "card (from_ip live ip) < 2 ^ 31" using live_card(2,4) [OF dom] le_less_trans by blast
  have pos: "0 < card (from_ip live ip)"
    using from_ip_reap(2) [of live pid ip i] l live_card(3) [OF dom] by (auto simp: card_gt_0_iff)
  have s1: "counts_ok s1" "count_of s1 = count_of s" using co by (simp_all add: s1_def count_of_def fun_eq_iff)
  have "count_of s1 ip \<noteq> 0"
    using lt pos count_word(2) [of "card (from_ip live ip) - 1"] unfolding s1(2) cnt by simp
  from drop_ip_count_counts [OF s1(1) this] obtain h where h: "drop_ip_count (Some ip) s1 = Inr (s1\<lparr>s_p_ip_count_hash := h\<rparr>)"
    "counts_ok (s1\<lparr>s_p_ip_count_hash := h\<rparr>)"
    "\<And>x. count_of (s1\<lparr>s_p_ip_count_hash := h\<rparr>) x = (if x = ip then count_of s1 ip - 1 else count_of s1 x)"
    by blast
  define s' where "s' = s1\<lparr>s_p_ip_count_hash := h, s_p_pid_ip_hash := g\<rparr>"
  have "reap_child pid s = Inr s'"
    using p g(1) h(1) by (simp add: reap_child_def Let_def s1_def [symmetric]) (simp add: s1_def s'_def)
  moreover have "listener_ok s' (live(pid := None))"
  proof -
    have "pid \<in> dom live" using l by auto
    with live_card(1) [OF dom] have "card (dom (live(pid := None))) = card (dom live) - 1" "0 < card (dom live)"
      by (auto simp: card_gt_0_iff)
    moreover have "card (from_ip (live(pid := None)) x) = card (from_ip live x) - (if x = ip then 1 else 0)" for x
      using from_ip_reap(1) [of live pid ip i x] from_ip_reap(2) [of live pid ip i] l live_card(3) [OF dom] by simp
    moreover have "count_of s' x = count_of (s1\<lparr>s_p_ip_count_hash := h\<rparr>) x" for x
      by (simp add: s'_def count_of_def)
    ultimately show ?thesis
      using h(2,3) g(2,3) pm dom pos ch s1(2) cnt
      by (auto simp: listener_ok_def s'_def s1_def fun_eq_iff of_nat_diff)
  qed
  ultimately show ?thesis by blast
qed

lemma handle_sigchld_ok:
  assumes "listener_ok s live" "distinct ps" "set ps \<subseteq> dom live"
  shows "\<exists>s'. handle_sigchld ps s = Inr s' \<and> listener_ok s' (live |` (- set ps))"
  using assms
proof (induction ps arbitrary: s live)
  case (Cons p ps)
  then obtain ip i where l: "live p = Some (ip, i)" by auto
  obtain s1 where s1: "reap_child p s = Inr s1" "listener_ok s1 (live(p := None))"
    using reap_child_ok [OF Cons.prems(1) l] by blast
  have "set ps \<subseteq> dom (live(p := None))" using Cons.prems by auto
  then obtain s' where s': "handle_sigchld ps s1 = Inr s'" "listener_ok s' ((live(p := None)) |` (- set ps))"
    using Cons.IH [OF s1(2) conjunct2 [OF Cons.prems(2) [unfolded distinct.simps]]] by blast
  moreover have "(live(p := None)) |` (- set ps) = live |` (- set (p # ps))"
    by (auto simp: restrict_map_def fun_eq_iff)
  ultimately show ?case using s1(1) by auto
qed (auto simp: restrict_map_def)

subsection \<open>Runs of the listener\<close>

text \<open>
  The operating system hands out process ids that are positive and not in use, reports a child once, and
  only children.
\<close>

inductive listening :: "listener \<Rightarrow> clients \<Rightarrow> bool" where
  start: "listening vsf_standalone_start Map.empty"
| launched: "listening s live \<Longrightarrow> pid \<in> pids \<Longrightarrow> pid \<notin> dom live \<Longrightarrow>
    vsf_sysutil_sockaddr_get_raw_addr a = Inr ip \<Longrightarrow> accept_client a pid s = Inr (info, s') \<Longrightarrow>
    listening s' (live(pid \<mapsto> (ip, info)))"
| not_forked: "listening s live \<Longrightarrow> pid < 0 \<Longrightarrow> accept_client a pid s = Inr (info, s') \<Longrightarrow> listening s' live"
| died: "listening s live \<Longrightarrow> distinct ps \<Longrightarrow> set ps \<subseteq> dom live \<Longrightarrow> handle_sigchld ps s = Inr s' \<Longrightarrow>
    listening s' (live |` (- set ps))"

lemma accept_info:
  assumes ok: "listener_ok s live" and a: "vsf_sysutil_sockaddr_get_raw_addr a = Inr ip"
    and pid: "pid \<in> pids" "pid \<notin> dom live" and r: "accept_client a pid s = Inr (info, s')"
  shows "info = \<lparr>num_children = of_nat (card (dom live) + 1), launch_this_ip = of_nat (card (from_ip live ip) + 1)\<rparr>"
    "listener_ok s' (live(pid \<mapsto> (ip, info)))"
  using accept_client_ok [OF ok a pid refl] r by auto

lemma listening_ok: "listening s live \<Longrightarrow> listener_ok s live"
proof (induction rule: listening.induct)
  case start
  show ?case by (rule start_ok)
next
  case (launched s live pid a ip info s')
  then show ?case using accept_info(2) by blast
next
  case (not_forked s live pid a info s')
  then obtain ip where a: "vsf_sysutil_sockaddr_get_raw_addr a = Inr ip"
    by (auto simp: accept_client_def Let_def)
  from failed_fork_ok [OF not_forked.IH a, of pid] not_forked.hyps show ?case by auto
next
  case (died s live ps s')
  then show ?case using handle_sigchld_ok [of s live ps] by auto
qed

text \<open>The children the limits refuse, by what they were told; the check is made after the fork.\<close>

definition refused :: "nat \<Rightarrow> nat \<Rightarrow> vsf_client_launch \<Rightarrow> bool" where
  "refused max_clients max_per_ip i \<longleftrightarrow>
     max_clients > 0 \<and> unat (num_children i) > max_clients \<or>
     max_per_ip > 0 \<and> unat (launch_this_ip i) > max_per_ip"

definition served :: "nat \<Rightarrow> nat \<Rightarrow> clients \<Rightarrow> int set" where
  "served max_clients max_per_ip live = {pid. \<exists>ip i. live pid = Some (ip, i) \<and> \<not> refused max_clients max_per_ip i}"

lemma served_upd:
  "pid \<notin> dom live \<Longrightarrow> served m p (live(pid \<mapsto> (ip, i))) = served m p live \<union> (if refused m p i then {} else {pid})"
  by (auto simp: served_def)

lemma served_sub: "served m p live \<subseteq> dom live" "served m p (live |` A) \<subseteq> served m p live"
  by (auto simp: served_def restrict_map_def split: if_splits)

lemma from_ip_sub: "from_ip (live |` A) ip \<subseteq> from_ip live ip"
  by (auto simp: from_ip_def restrict_map_def split: if_splits)

lemma info_counts:
  assumes "listener_ok s live" "vsf_sysutil_sockaddr_get_raw_addr a = Inr ip" "pid \<in> pids" "pid \<notin> dom live"
    "accept_client a pid s = Inr (info, s')"
  shows "unat (num_children info) = card (dom live) + 1" "unat (launch_this_ip info) = card (from_ip live ip) + 1"
proof -
  have dom: "dom live \<subseteq> pids" using assms(1) by (simp add: listener_ok_def)
  from accept_info(1) [OF assms]
  show "unat (num_children info) = card (dom live) + 1" "unat (launch_this_ip info) = card (from_ip live ip) + 1"
    using count_word(3) [of "card (dom live) + 1"] count_word(3) [of "card (from_ip live ip) + 1"]
      live_card(2) [OF dom] live_card(4) [OF dom, of ip] by simp_all
qed

lemma limited:
  assumes "listening s live"
  shows "0 < m \<Longrightarrow> card (served m p live) \<le> m" "0 < p \<Longrightarrow> card (served m p live \<inter> from_ip live ip) \<le> p"
  using assms
proof (induction arbitrary: ip rule: listening.induct)
  case start
  { case 1 then show ?case by (simp add: served_def) }
  { case 2 then show ?case by (simp add: served_def) }
next
  case (launched s live pid a x info s')
  note ok = listening_ok [OF launched.hyps(1)]
  note info = info_counts [OF ok launched.hyps(4,2,3,5)]
  have fin: "finite (dom live)" "finite (from_ip live x)"
    using ok live_card(1,3) by (auto simp: listener_ok_def)
  note upd = served_upd [OF launched.hyps(3), of m p x info] from_ip_launch(1) [OF launched.hyps(3), of x info]
  { case 1
    have "card (served m p live \<union> {pid}) \<le> m" if "\<not> refused m p info"
    proof -
      have "card (served m p live \<union> {pid}) \<le> card (insert pid (dom live))"
        using served_sub(1) [of m p live] fin(1) by (intro card_mono) (simp, blast)
      also have "\<dots> \<le> m" using that 1 info(1) fin(1) launched.hyps(3) by (simp add: refused_def)
      finally show ?thesis .
    qed
    with launched.IH(1) [OF 1] show ?case unfolding upd(1) by (cases "refused m p info") simp_all }
  { case 2
    have "card ((served m p live \<union> {pid}) \<inter> insert pid (from_ip live x)) \<le> p" if "\<not> refused m p info"
    proof -
      have "card ((served m p live \<union> {pid}) \<inter> insert pid (from_ip live x)) \<le> card (insert pid (from_ip live x))"
        using fin(2) by (intro card_mono) auto
      also have "\<dots> \<le> p"
        using that 2 info(2) fin(2) from_ip_launch(2) [OF launched.hyps(3)] by (simp add: refused_def)
      finally show ?thesis .
    qed
    moreover have "pid \<notin> served m p live" using served_sub(1) launched.hyps(3) by blast
    moreover have "pid \<notin> from_ip live ip" by (rule from_ip_launch(2) [OF launched.hyps(3)])
    ultimately show ?case
      using launched.IH(2) [OF 2] unfolding upd by (cases "ip = x"; cases "refused m p info"; simp add: Int_insert_right) }
next
  case (not_forked s live pid a info s')
  { case 1 then show ?case by (rule not_forked.IH(1)) }
  { case 2 then show ?case by (rule not_forked.IH(2)) }
next
  case (died s live ps s')
  have fin: "finite (served m p live)"
    using listening_ok [OF died.hyps(1)] live_card(1) [of live]
    by (intro finite_subset [OF served_sub(1)]) (simp add: listener_ok_def)
  { case 1
    with died.IH(1) card_mono [OF fin served_sub(2)] show ?case by (meson order_trans) }
  { case 2
    have "card (served m p (live |` (- set ps)) \<inter> from_ip (live |` (- set ps)) ip) \<le> card (served m p live \<inter> from_ip live ip)"
      using fin served_sub(2) from_ip_sub by (intro card_mono) blast+
    with died.IH(2) [OF 2] show ?case by (meson order_trans) }
qed

subsection \<open>Claims\<close>

text \<open>Two clients of one address.\<close>

definition sample_ip :: string where
  "sample_ip = ''1235'' @ replicate 12 NUL"

definition two_clients :: clients where
  "two_clients = [101 \<mapsto> (sample_ip, \<lparr>num_children = 1, launch_this_ip = 1\<rparr>),
     102 \<mapsto> (sample_ip, \<lparr>num_children = 2, launch_this_ip = 2\<rparr>)]"

lemma sample_raw: "vsf_sysutil_sockaddr_get_raw_addr (Sa_In ''1235'' 5000) = Inr sample_ip"
  by (simp add: vsf_sysutil_sockaddr_get_raw_addr_def s_ipaddr_size_def sample_ip_def eval_nat_numeral)

lemma two_clients_listening: "\<exists>s. listening s two_clients"
proof -
  note raw = sample_raw
  have p: "101 \<in> pids" "102 \<in> pids" by (simp_all add: pids_def)
  let ?i = "\<lparr>num_children = 1, launch_this_ip = 1\<rparr>"
  obtain s1 where s1: "accept_client (Sa_In ''1235'' 5000) 101 vsf_standalone_start = Inr (?i, s1)"
    using accept_client_ok [OF start_ok raw p(1), of ?i] by (auto simp: from_ip_def)
  have l1: "listening s1 [101 \<mapsto> (sample_ip, ?i)]"
    using listening.launched [OF listening.start p(1) _ raw s1] by simp
  have "from_ip [101 \<mapsto> (sample_ip, ?i)] sample_ip = {101}" by (auto simp: from_ip_def)
  then obtain s2 where s2: "accept_client (Sa_In ''1235'' 5000) 102 s1 = Inr (\<lparr>num_children = 2, launch_this_ip = 2\<rparr>, s2)"
    using accept_client_ok [OF listening_ok [OF l1] raw p(2), of "\<lparr>num_children = 2, launch_this_ip = 2\<rparr>"] by auto
  from listening.launched [OF l1 p(2) _ raw s2] show ?thesis
    by (auto simp: two_clients_def)
qed



text \<open>
  C36. The limits hold at any time: of the children that are alive, those that the limits do not turn
  away are at most max_clients, and from one address at most max_per_ip.
\<close>

theorem limits_hold:
  assumes "listening s live" "0 < max_clients" "0 < max_per_ip"
  shows "card (served max_clients max_per_ip live) \<le> max_clients \<and>
    card (served max_clients max_per_ip live \<inter> from_ip live ip) \<le> max_per_ip"
  using limited [OF assms(1)] assms(2,3) by blast

theorem limits_hold_witness:
  "card (served 1 1 two_clients) \<le> 1 \<and> card (served 1 1 two_clients \<inter> from_ip two_clients sample_ip) \<le> 1"
proof -
  obtain s where "listening s two_clients" using two_clients_listening by blast
  from limits_hold [OF this, of 1 1 sample_ip] show ?thesis by simp
qed

end
