(* ===== verification/Vsf_Main.thy ===== *)
theory Vsf_Main
  imports Prelogin Standalone
begin

text \<open>
  The program \<open>main.c\<close> around the listener: the settings from the command line and the files, and what the
  process of a new client does before it serves it, with the checks of the settings, the session
  structure, and the files that are read while they can be; and the opening of the logs (\<open>vsf_log_init\<close> of \<open>logging.c\<close>). The build has neither SSL nor TCP wrappers and
  stops when they are asked for. Process titles, resource limits, socket options and the connection to
  the system's log are left out.
\<close>

subsection \<open>The settings of the server\<close>

text \<open>The files and options of the command line, in their order, and whether there was a file.\<close>

fun load_args :: "os \<Rightarrow> string list \<Rightarrow> bool \<Rightarrow> parseconf \<Rightarrow> vsf_session \<Rightarrow> ((bool \<times> parseconf) \<times> vsf_session) run" where
  "load_args W [] config_loaded C s = Inr ((config_loaded, C), s)"
| "load_args W (p_arg # argv) config_loaded C s =
     (if p_arg = [] \<or> hd p_arg \<noteq> CHR ''-''
      then and_then (vsf_parseconf_load_file W (Some p_arg) True C s) (\<lambda>(C, s). load_args W argv True C s)
      else if take 1 (tl p_arg) = ''v''
      then vsf_sysutil_exit 0 (note_event (Sent (''vsftpd: version '' @ FC_VERSION @ [CHR 0x0A])) s)
      else if take 1 (tl p_arg) = ''o''
      then case vsf_parseconf_load_setting (drop 2 p_arg) True (settings C) of
             Inl e \<Rightarrow> die e s
           | Inr T \<Rightarrow> load_args W argv config_loaded (C\<lparr>settings := T\<rparr>) s
      else die (die2_text ''unrecognise option: '' (Some p_arg)) s)"

definition VSFTP_DEFAULT_CONFIG :: string where
  "VSFTP_DEFAULT_CONFIG = ''/etc/vsftpd.conf''"

definition load_default_config :: "os \<Rightarrow> parseconf \<Rightarrow> vsf_session \<Rightarrow> (parseconf \<times> vsf_session) run" where
  "load_default_config W C s =
     (let (st, s) = sys_stat W (Stat VSFTP_DEFAULT_CONFIG) s in
      if st \<noteq> None then vsf_parseconf_load_file W (Some VSFTP_DEFAULT_CONFIG) True C s else Inr (C, s))"

text \<open>The addresses of a host are the name service's.\<close>

definition resolve_pasv_address :: "os \<Rightarrow> (string \<Rightarrow> sockaddr option) \<Rightarrow> tunables \<Rightarrow> vsf_session \<Rightarrow> tunables run" where
  "resolve_pasv_address W dns T s =
     (case tunable_pasv_address T of
        None \<Rightarrow> Inr T
      | Some name \<Rightarrow>
          if \<not> tunable_pasv_addr_resolve T then Inr T
          else case dns name of
            None \<Rightarrow> die (die2_text ''cannot resolve host:'' (Some name)) s
          | Some p_addr \<Rightarrow>
              if p_addr = Sa_Other then die ''gethostbyname(): neither IPv4 nor IPv6'' s
              else Inr (T\<lparr>tunable_pasv_address := Some (c_str (os_inet_ntop W p_addr))\<rparr>))"

definition die_unless_privileged :: "os \<Rightarrow> vsf_session \<Rightarrow> vsf_session run" where
  "die_unless_privileged W s =
     (let (root, s) = vsf_sysutil_running_as_root W s in
      if \<not> root then die ''vsftpd: must be started as root (see run_as_launching_user option)'' s else Inr s)"

text \<open>What the server does before it listens, with the arguments behind its name.\<close>

definition server_settings ::
    "os \<Rightarrow> (string \<Rightarrow> sockaddr option) \<Rightarrow> string list \<Rightarrow> vsf_session \<Rightarrow> (parseconf \<times> vsf_session) run" where
  "server_settings W dns argv s =
     and_then (load_args W argv False \<lparr>s_p_saved_filename = None, settings = tunables_load_defaults\<rparr> s)
       (\<lambda>((config_loaded, C), s).
     and_then (if \<not> config_loaded then load_default_config W C s else Inr (C, s)) (\<lambda>(C, s).
     and_then (resolve_pasv_address W dns (settings C) s) (\<lambda>T.
     and_then (if \<not> tunable_run_as_launching_user T then die_unless_privileged W s else Inr s) (\<lambda>s.
     if tunable_ssl_enable T then die ''SSL: ssl_enable is set but SSL support not compiled in'' s
     else Inr (C\<lparr>settings := T\<rparr>, s)))))"

subsection \<open>The process of a client\<close>

definition do_sanity_checks :: "tunables \<Rightarrow> os \<Rightarrow> vsf_session \<Rightarrow> vsf_session run" where
  "do_sanity_checks T W s =
     and_then (vsf_sysutil_fstat W 0 s) (\<lambda>(st, s).
     if \<not> os_fd_is_socket W
     then die ''vsftpd: not configured for standalone, must be started from inetd'' s
     else if tunable_one_process_model T \<and> tunable_local_enable T
     then die ''vsftpd: security: 'one_process_model' is anonymous only'' s
     else if tunable_one_process_model T \<and> \<not> os_has_capabilities_as_non_root W
     then die ''vsftpd: security: 'one_process_model' needs a better OS'' s
     else if \<not> tunable_local_enable T \<and> \<not> tunable_anonymous_enable T
     then die ''vsftpd: both local and anonymous access disabled!'' s
     else if \<not> tunable_ftp_enable T \<and> \<not> tunable_http_enable T
     then die ''vsftpd: both FTP and HTTP disabled!'' s
     else if tunable_http_enable T \<and> \<not> tunable_one_process_model T
     then die ''vsftpd: HTTP needs 'one_process_model' for now'' s
     else Inr s)"

text \<open>The user id of a user the settings name.\<close>

definition setting_uid :: "os \<Rightarrow> string \<Rightarrow> string option \<Rightarrow> vsf_session \<Rightarrow> (int \<times> vsf_session) run" where
  "setting_uid W p_text name s =
     (let (p_user, s) = (case name of None \<Rightarrow> (None, s) | Some u \<Rightarrow> str_getpwnam W u s) in
      case p_user of
        None \<Rightarrow> die (die2_text p_text name) s
      | Some p_user \<Rightarrow> Inr (pw_uid p_user, s))"

definition session_init :: "tunables \<Rightarrow> os \<Rightarrow> vsf_session \<Rightarrow> vsf_session run" where
  "session_init T W s =
     (if os_remote_addr W = Sa_Other \<or> os_local_addr W = Sa_Other
      then die ''can only support ipv4 and ipv6 currently'' s
      else let s = s\<lparr>p_remote_addr := os_remote_addr W, p_local_addr := os_local_addr W\<rparr> in
      and_then (if tunable_anonymous_enable T
                then and_then (setting_uid W ''vsftpd: cannot locate user specified in 'ftp_username':''
                       (tunable_ftp_username T) s) (\<lambda>(uid, s). Inr (s\<lparr>anon_ftp_uid := uid\<rparr>))
                else Inr s) (\<lambda>s.
      and_then (if tunable_guest_enable T
                then and_then (setting_uid W ''vsftpd: cannot locate user specified in 'guest_username':''
                       (tunable_guest_username T) s) (\<lambda>(uid, s). Inr (s\<lparr>guest_user_uid := uid\<rparr>))
                else Inr s) (\<lambda>s.
      if tunable_chown_uploads T
      then and_then (setting_uid W ''vsftpd: cannot locate user specified in 'chown_username':''
             (tunable_chown_username T) s) (\<lambda>(uid, s). Inr (s\<lparr>anon_upload_chown_uid := uid\<rparr>))
      else Inr s)))"

definition VSFTP_SECURE_UMASK :: "32 word" where
  "VSFTP_SECURE_UMASK = 63"

definition env_init :: "os \<Rightarrow> vsf_session \<Rightarrow> vsf_session" where
  "env_init W s = vsf_sysutil_set_umask W VSFTP_SECURE_UMASK s"

definition open_log :: "os \<Rightarrow> string \<Rightarrow> string option \<Rightarrow> vsf_session \<Rightarrow> (int \<times> vsf_session) run" where
  "open_log W p_text name s =
     (let (retval, s) = (case name of None \<Rightarrow> (-1, s) | Some f \<Rightarrow> sys W (OpenLog (c_str f)) s) in
      if retval < 0 then die (die2_text p_text name) s else Inr (retval, s))"

definition vsf_log_init :: "tunables \<Rightarrow> os \<Rightarrow> vsf_session \<Rightarrow> vsf_session run" where
  "vsf_log_init T W s =
     (if \<not> tunable_xferlog_enable T \<and> \<not> tunable_dual_log_enable T then Inr s
      else
        and_then (if tunable_dual_log_enable T \<or> tunable_xferlog_std_format T
                  then and_then (open_log W ''failed to open xferlog log file:'' (tunable_xferlog_file T) s)
                    (\<lambda>(fd, s). Inr (s\<lparr>xferlog_fd := fd\<rparr>))
                  else Inr s) (\<lambda>s.
        if (tunable_dual_log_enable T \<or> \<not> tunable_xferlog_std_format T) \<and> \<not> tunable_syslog_enable T
        then and_then (open_log W ''failed to open vsftpd log file:'' (tunable_vsftpd_log_file T) s)
               (\<lambda>(fd, s). Inr (s\<lparr>vsftpd_log_fd := fd\<rparr>))
        else Inr s))"

text \<open>A file the settings name, or the end of the process.\<close>

definition setting_file :: "os \<Rightarrow> string \<Rightarrow> string option \<Rightarrow> vsf_session \<Rightarrow> (string \<times> vsf_session) run" where
  "setting_file W p_text name s =
     (let (t, s) = (case name of None \<Rightarrow> (None, s)
                    | Some f \<Rightarrow> str_fileread_checked W (c_str f) VSFTP_CONF_FILE_MAX s)
      in case t of None \<Rightarrow> die (die2_text p_text name) s | Some t \<Rightarrow> Inr (t, s))"

definition read_files :: "tunables \<Rightarrow> os \<Rightarrow> vsf_session \<Rightarrow> vsf_session run" where
  "read_files T W s =
     and_then (if tunable_deny_email_enable T
               then and_then (setting_file W ''cannot read anon e-mail list file:'' (tunable_banned_email_file T) s)
                 (\<lambda>(t, s). Inr (s\<lparr>banned_email_str := t\<rparr>))
               else Inr s) (\<lambda>s.
     and_then (if tunable_banner_file T \<noteq> None
               then and_then (setting_file W ''cannot read banner file:'' (tunable_banner_file T) s)
                 (\<lambda>(t, s). Inr (s\<lparr>banner_str := t\<rparr>))
               else Inr s) (\<lambda>s.
     if tunable_secure_email_list_enable T
     then and_then (setting_file W ''cannot read email passwords file:'' (tunable_email_password_file T) s)
            (\<lambda>(t, s). Inr (s\<lparr>email_passwords_str := t\<rparr>))
     else Inr s))"

definition launching_user :: "tunables \<Rightarrow> os \<Rightarrow> vsf_session \<Rightarrow> tunables \<times> vsf_session" where
  "launching_user T W s =
     (if tunable_run_as_launching_user T
      then let T = T\<lparr>tunable_one_process_model := True\<rparr>; (root, s) = vsf_sysutil_running_as_root W s in
        (if root then T else T\<lparr>tunable_connect_from_port_20 := False, tunable_chown_uploads := False\<rparr>, s)
      else (T, s))"

text \<open>The process of a client, with what the listener told it and the file the environment names.\<close>

definition load_environment :: "tunables \<Rightarrow> os \<Rightarrow> string option \<Rightarrow> vsf_session \<Rightarrow> (tunables \<times> vsf_session) run" where
  "load_environment T W p_load_conf s =
     (if tunable_tcp_wrappers T
      then die ''tcp_wrappers is set to YES but no tcp wrapper support compiled in'' s
      else case p_load_conf of
        None \<Rightarrow> Inr (T, s)
      | Some f \<Rightarrow> and_then (vsf_parseconf_load_file W (Some f) True \<lparr>s_p_saved_filename = None, settings = T\<rparr> s)
          (\<lambda>(C, s). Inr (settings C, s)))"

definition prepare_session :: "tunables \<Rightarrow> os \<Rightarrow> vsf_session \<Rightarrow> (tunables \<times> vsf_session) run" where
  "prepare_session T W s =
     and_then (do_sanity_checks T W s) (\<lambda>s.
     and_then (session_init T W s) (\<lambda>s.
     and_then (vsf_log_init T W (env_init W s)) (\<lambda>s.
     let s = s\<lparr>remote_ip_str := c_str (os_inet_ntop W (p_remote_addr s))\<rparr> in
     if tunable_ssl_enable T then die ''SSL: ssl_enable is set but SSL support not compiled in'' s
     else and_then (read_files T W s) (\<lambda>s. Inr (launching_user T W s)))))"

definition client_main ::
    "tunables \<Rightarrow> os \<Rightarrow> vsf_client_launch \<Rightarrow> string option \<Rightarrow> input list \<Rightarrow> vsf_session run" where
  "client_main T W child_info p_load_conf inputs =
     (let s = (new_session Sa_Other Sa_Other [])\<lparr>num_clients := unat (num_children child_info),
                num_this_ip := unat (launch_this_ip child_info)\<rparr>
      in
      and_then (load_environment T W p_load_conf s) (\<lambda>(T, s).
      and_then (prepare_session T W s) (\<lambda>(T, s).
      serve_client T W inputs s)))"

end
