(* ===== verification/Login_Rules.thy ===== *)
theory Login_Rules
  imports Vsf_Main Vsf_Policy
begin

text \<open>
  Rules for the code before the login: what it may add to the history, how it may fail, and how many
  passwords it has checked. An event that the policy for sessions allows whatever the settings is quiet;
  nothing else is ever done before the login.
\<close>

definition quiet :: "event \<Rightarrow> bool" where
  "quiet e \<longleftrightarrow> (\<forall>T an ra. permitted T an ra e)"

lemma quiet_calls [simp]:
  "quiet (Sys (EnterDir d))" "quiet (Sys (Chroot d))" "quiet (Sys (Setuid u))" "quiet (Sys (Setgid u))"
  "quiet (Sys (Seteuid u))" "quiet (Sys (Setegid u))" "quiet (Sys (Initgroups d u))" "quiet (Sys ClearGroups)"
  "quiet (Sys KeepCapabilities)" "quiet (Sys (AdoptCapabilities b b'))" "quiet (Sys SetNoFds)"
  "quiet (Sys SetNoProcs)" "quiet (Sys (WriteAccess d))" "quiet (Sys Getuid)" "quiet (Sys Geteuid)"
  "quiet (Sys Getegid)" "quiet (Sys (Getspnam d))" "quiet (Sys Getusershell)" "quiet (Sys Fork)"
  "quiet (Sys ForkNewnet)" "quiet (Sys SocketPair)" "quiet (Sys WaitChild)" "quiet (Sys ShutdownControl)"
  "quiet (Sys (OpenLog d))" "quiet (Sys (Getpwnam d))" "quiet (Sys GetTime)" "quiet (Sys (ReadFile d))"
  "quiet (Sys (Stat d))" "quiet (Sys (Lstat d))" "quiet (Sys (Fstat fd))" "quiet (Sys Sleep)"
  "quiet (Sys (SetUmask m))" "quiet (Sent t)" "quiet (oops_reply t)"
  by (simp_all add: quiet_def)

lemma quiet_permitted: "list_all quiet es \<Longrightarrow> list_all (permitted T an ra) es"
  by (auto simp: list_all_iff quiet_def)

lemma quiet_io: "io_event e \<Longrightarrow> quiet e"
  by (simp add: quiet_def io_permitted)

text \<open>Each check of a password looks into the shadow file.\<close>

definition is_guess :: "event \<Rightarrow> bool" where
  "is_guess e = (case e of Sys c \<Rightarrow> (case c of Getspnam u \<Rightarrow> True | _ \<Rightarrow> False) | _ \<Rightarrow> False)"

definition guesses :: "event list \<Rightarrow> nat" where
  "guesses tr = length (filter is_guess tr)"

lemma is_guess_simps [simp]:
  "is_guess (Sys c) = (case c of Getspnam u \<Rightarrow> True | _ \<Rightarrow> False)" "\<not> is_guess (Sent t)" "\<not> is_guess (oops_reply t)"
  by (simp_all add: is_guess_def oops_reply_def)

lemma guesses_simps [simp]:
  "guesses [] = 0" "guesses (e # tr) = (if is_guess e then Suc (guesses tr) else guesses tr)"
  "guesses (es @ tr) = guesses es + guesses tr"
  by (simp_all add: guesses_def)

lemma io_no_guess: "io_event e \<Longrightarrow> \<not> is_guess e"
  by (cases e) (auto simp: io_event_def log_event_def is_guess_def split: syscall.splits)

lemma io_guesses [simp]: "list_all io_event es \<Longrightarrow> guesses es = 0"
  by (auto simp: guesses_def list_all_iff filter_empty_conv io_no_guess)

lemma io_quiet [simp]: "list_all io_event es \<Longrightarrow> list_all quiet es"
  by (auto simp: list_all_iff quiet_io)

subsection \<open>Failures\<close>

text \<open>
  The server's own messages when the system or the settings do not let it go on; those with a name of
  a file, a user or a setting behind them by their start.
\<close>

definition login_dies :: "string list" where
  "login_dies = [''ftp_write'', ''ftp_write_str'', ''fork'', ''priv_sock_get_cmd'', ''socketpair'',
     ''cap_set_proc'', ''prctl'', ''geteuid'', ''getegid'', ''seteuid'', ''setegid'', ''setgid'', ''setuid'',
     ''initgroups'', ''setgroups'', ''chroot'', ''setrlimit NPROC'', ''setrlimit NOFILE'', ''fstat'',
     ''vsftpd: refusing to run with writable root inside chroot()'',
     ''config file not owned by correct user, or not a file'', ''error opening per-user config file'',
     ''can only support ipv4 and ipv6 currently'',
     ''vsftpd: not configured for standalone, must be started from inetd'',
     ''vsftpd: security: 'one_process_model' is anonymous only'',
     ''vsftpd: security: 'one_process_model' needs a better OS'',
     ''vsftpd: both local and anonymous access disabled!'', ''vsftpd: both FTP and HTTP disabled!'',
     ''vsftpd: HTTP needs 'one_process_model' for now'',
     ''SSL: ssl_enable is set but SSL support not compiled in'',
     ''tcp_wrappers is set to YES but no tcp wrapper support compiled in'']"

definition login_die_prefixes :: "string list" where
  "login_die_prefixes = [''cannot change directory:'', ''cannot locate user entry:'',
     ''vsftpd: not found: directory given in 'secure_chroot_dir':'', ''could not read chroot() list file:'',
     ''cannot read user list file:'', ''cannot read config file: '', ''missing value in config file for: '',
     ''bad bool value in config file for: '', ''unrecognised variable in config file: '',
     ''vsftpd: cannot locate user specified in 'ftp_username':'',
     ''vsftpd: cannot locate user specified in 'guest_username':'',
     ''vsftpd: cannot locate user specified in 'chown_username':'',
     ''failed to open xferlog log file:'', ''failed to open vsftpd log file:'',
     ''cannot read anon e-mail list file:'', ''cannot read banner file:'', ''cannot read email passwords file:'']"

definition known_die :: "string \<Rightarrow> bool" where
  "known_die m \<longleftrightarrow> m \<in> set login_dies \<or> list_ex (\<lambda>p. take (length p) m = p) login_die_prefixes"

text \<open>Besides, a process that is not the superuser's is told so, and \<open>crypt\<close> may fail.\<close>

definition login_fault :: "os \<Rightarrow> fault \<Rightarrow> bool" where
  "login_fault W f \<longleftrightarrow>
     (case f of Exit n \<Rightarrow> True | Die m \<Rightarrow> known_die m
      | Bug m \<Rightarrow> m = ''vsf_secutil_change_credentials: not running as root''
      | NullDeref \<Rightarrow> \<exists>key salt. os_crypt W key salt = None | _ \<Rightarrow> False)"

lemma known_dies [simp]: "m \<in> set login_dies \<Longrightarrow> known_die m"
  by (simp add: known_die_def)

lemma known_die2 [simp]: "p \<in> set login_die_prefixes \<Longrightarrow> known_die (die2_text p t)"
  unfolding known_die_def die2_text_def list_ex_iff by (intro disjI2 bexI [of _ p]) simp

definition login_fails_ok :: "os \<Rightarrow> nat \<Rightarrow> fault \<Rightarrow> event list \<Rightarrow> bool" where
  "login_fails_ok W N f tr \<longleftrightarrow> login_fault W f \<and> list_all quiet tr \<and> guesses tr \<le> N"

definition calm :: "nat \<Rightarrow> vsf_session \<Rightarrow> bool" where
  "calm N s \<longleftrightarrow> list_all quiet (trace s) \<and> guesses (trace s) \<le> N"

lemma calm_trace [simp]:
  "calm N (s\<lparr>trace := tr\<rparr>) \<longleftrightarrow> list_all quiet tr \<and> guesses tr \<le> N"
  by (simp add: calm_def)

lemma fails_ok_simps [simp]:
  "login_fails_ok W N (Exit n) tr \<longleftrightarrow> list_all quiet tr \<and> guesses tr \<le> N"
  "login_fails_ok W N (Die m) tr \<longleftrightarrow> known_die m \<and> list_all quiet tr \<and> guesses tr \<le> N"
  by (simp_all add: login_fails_ok_def login_fault_def)

lemma die_login: "calm N s \<Longrightarrow> known_die m \<Longrightarrow> ends (die m s) (login_fails_ok W N) Q"
  by (simp add: die_def calm_def)

lemma exit_login: "calm N s \<Longrightarrow> ends (vsf_sysutil_exit n s) (login_fails_ok W N) Q"
  by (simp add: vsf_sysutil_exit_def calm_def)

subsection \<open>Output\<close>

text \<open>Output adds io events, or ends the process when a write fails.\<close>

definition talks :: "vsf_session run \<Rightarrow> vsf_session \<Rightarrow> bool" where
  "talks m s \<longleftrightarrow> ends m
     (\<lambda>f tr. (f = Die ''ftp_write'' \<or> f = Die ''ftp_write_str'') \<and> (\<exists>es. list_all io_event es \<and> tr = es @ trace s))
     (adds io_event s)"

lemma talks_ends:
  assumes "talks m s" "calm N s" "\<And>es. list_all io_event es \<Longrightarrow> Q (s\<lparr>trace := es @ trace s\<rparr>)"
  shows "ends m (login_fails_ok W N) Q"
  using assms(1) unfolding talks_def
  by (rule ends_conseq) (use assms(2,3) in \<open>auto simp: adds_def calm_def login_dies_def\<close>)

lemma talks_seq:
  assumes "talks m s" "\<And>es. list_all io_event es \<Longrightarrow> talks (k (s\<lparr>trace := es @ trace s\<rparr>)) (s\<lparr>trace := es @ trace s\<rparr>)"
  shows "talks (and_then m k) s"
  unfolding talks_def
proof (rule ends_bindI)
  let ?E = "\<lambda>s f tr. (f = Die ''ftp_write'' \<or> f = Die ''ftp_write_str'') \<and> (\<exists>es. list_all io_event es \<and> tr = es @ trace s)"
  show "ends m (?E s) (adds io_event s)" using assms(1) by (simp add: talks_def)
  fix s'
  assume a: "adds io_event s s'"
  then obtain es where es: "list_all io_event es" "s' = s\<lparr>trace := es @ trace s\<rparr>" by (auto simp: adds_def)
  have "ends (k s') (?E s') (adds io_event s')" using assms(2) [OF es(1)] by (simp add: talks_def es(2))
  then show "ends (k s') (?E s) (adds io_event s)"
  proof (rule ends_conseq)
    show "adds io_event s s''" if "adds io_event s' s''" for s'' using a that by (rule adds_trans)
    fix f tr
    assume "?E s' f tr"
    then obtain fs where fs: "f = Die ''ftp_write'' \<or> f = Die ''ftp_write_str''" "list_all io_event fs" "tr = fs @ trace s'"
      by auto
    from es fs(2,3) have "list_all io_event (fs @ es) \<and> tr = (fs @ es) @ trace s" by simp
    with fs(1) show "?E s f tr" by blast
  qed
qed

lemma talks_log: "log_action what \<noteq> None \<Longrightarrow> talks (if b then vsf_log_line T W what l s else Inr s) s"
proof -
  assume "log_action what \<noteq> None"
  then obtain s' where s': "vsf_log_common T W True what l s = Inr s'" "adds log_event s s'"
    using log_common_logs by blast
  from s'(2) have "adds io_event s s'" by (rule adds_mono) (simp add: io_event_def)
  with s'(1) show ?thesis by (simp add: talks_def vsf_log_line_def)
qed

lemma talks_control:
  assumes "t \<noteq> []" "m = ''ftp_write'' \<or> m = ''ftp_write_str''"
  shows "talks (and_then (ftp_write_str_control W t s) (\<lambda>(r, s). if r \<noteq> 0 then die m s else Inr s)) s"
proof -
  have reply: "io_event (oops_reply m)" by (simp add: io_event_def oops_reply_def)
  then have "\<exists>es. list_all io_event es \<and> oops_reply m # trace s = es @ trace s"
    "\<exists>es. list_all io_event es \<and> oops_reply m # Sent t # trace s = es @ trace s"
    by (rule_tac x = "[oops_reply m]" in exI, simp)
      (use reply in \<open>rule_tac x = "[oops_reply m, Sent t]" in exI, simp add: io_event_def\<close>)
  with assms show ?thesis
    by (auto simp: talks_def ftp_write_str_control_def str_netfd_write_def Let_def die_def io_event_def
        intro!: adds_event)
qed

lemma talks_write:
  "talks (vsf_cmdio_write T W status t s) s" "talks (vsf_cmdio_write_hyphen T W status t s) s"
  "talks (vsf_cmdio_write_str T W status t s) s" "talks (vsf_cmdio_write_str_hyphen T W status t s) s"
  unfolding write_defs ftp_write_str_common_def
  by (intro talks_seq talks_log talks_control; simp add: reply_line_def)+

lemma talks_raw: "c_str t \<noteq> [] \<Longrightarrow> talks (vsf_cmdio_write_raw T W t s) s"
  unfolding vsf_cmdio_write_raw_def Let_def by (intro talks_seq talks_log talks_control; simp)

lemma talks_nothing: "talks (Inr s) s"
  by (simp add: talks_def)

lemma talks_raws: "\<forall>l \<in> set ls. c_str l \<noteq> [] \<Longrightarrow> talks (write_raws T W ls s) s"
  by (induction ls arbitrary: s) (auto intro: talks_nothing talks_seq talks_raw)

lemma talks_lines: "talks (write_lines T W ftpcode ls s) s"
  by (induction ls arbitrary: s) (auto intro: talks_nothing talks_seq talks_write)

end
