(* ===== verification/Login_Places.thy ===== *)
theory Login_Places
  imports Login_Rules
begin

text \<open>
  What a change of credentials leaves behind: the process has the groups, the group and the user of the
  entry in the user database and, when it was asked for, sits in its jail, which it entered before it gave
  up the privileges; nothing but the last preparations comes after that.
\<close>

lemma known_dies_list: "list_all known_die login_dies"
  by (simp add: list_all_iff)

lemmas known_messages [simp] = known_dies_list [unfolded login_dies_def list.pred_inject simp_thms]

text \<open>Events of the start of a process, none of them a check of a password.\<close>

definition entry :: "event \<Rightarrow> bool" where
  "entry e \<longleftrightarrow> quiet e \<and> \<not> is_guess e"

lemma entry_list [simp]: "list_all entry es \<Longrightarrow> list_all quiet es" "list_all entry es \<Longrightarrow> guesses es = 0"
  by (auto simp: list_all_iff entry_def guesses_def filter_empty_conv)

lemma sys_zero_login:
  assumes "calm N s" "entry (Sys c)" "known_die m" "Q (s\<lparr>trace := Sys c # trace s\<rparr>)"
  shows "ends (sys_zero W m c s) (login_fails_ok W N) Q"
  using assms by (auto simp: sys_zero_def sys_def die_def calm_def entry_def)

lemma sys_or_die_login:
  assumes "calm N s" "entry (Sys c)" "known_die m" "Q (s\<lparr>trace := Sys c # trace s\<rparr>)"
  shows "ends (sys_or_die W m c s) (login_fails_ok W N) Q"
  using assms by (auto simp: sys_or_die_def sys_def die_def calm_def entry_def)

subsection \<open>Entering the directory\<close>

definition placing :: "event \<Rightarrow> bool" where
  "placing e \<longleftrightarrow>
     (case e of Sys c \<Rightarrow> (case c of EnterDir d \<Rightarrow> True | Chroot d \<Rightarrow> True | Geteuid \<Rightarrow> True | Getegid \<Rightarrow> True
        | Seteuid u \<Rightarrow> True | Setegid u \<Rightarrow> True | _ \<Rightarrow> False) | _ \<Rightarrow> False)"

lemma placing_calls [simp]:
  "placing (Sys (EnterDir d))" "placing (Sys (Chroot d))" "placing (Sys Geteuid)" "placing (Sys Getegid)"
  "placing (Sys (Seteuid u))" "placing (Sys (Setegid u))"
  by (simp_all add: placing_def)

lemma placing_entry: "placing e \<Longrightarrow> entry e"
  by (auto simp: placing_def entry_def split: event.splits syscall.splits)

lemma placing_list [simp]: "list_all placing es \<Longrightarrow> list_all entry es"
  by (auto simp: list_all_iff placing_entry)

lemma entry_calls [simp]: "entry (Sys c) \<longleftrightarrow> quiet (Sys c) \<and> \<not> is_guess (Sys c)"
  by (simp add: entry_def)

lemma as_user_ends:
  assumes "calm N s" "\<And>x es. list_all placing es \<Longrightarrow> Q (x, s\<lparr>trace := es @ trace s\<rparr>)"
  shows "ends (as_user W u s) (login_fails_ok W N) Q"
  unfolding as_user_def sys_def Let_def
  using assms(1) assms(2) [of "[Sys (Seteuid (pw_uid u)), Sys (Setegid (pw_gid u)), Sys Getegid, Sys Geteuid]"]
  by (auto simp: ends_and_then die_def calm_def intro!: sys_zero_login)

lemma back_again_ends:
  assumes "calm N s" "\<And>es. list_all placing es \<Longrightarrow> Q (s\<lparr>trace := es @ trace s\<rparr>)"
  shows "ends (back_again W saved s) (login_fails_ok W N) Q"
  unfolding back_again_def ends_and_then
  by (rule sys_zero_login, use assms(1) in simp_all, rule sys_zero_login)
    (use assms(1) assms(2) [of "[Sys (Setegid (snd saved)), Sys (Seteuid (fst saved))]"] in \<open>simp_all add: calm_def\<close>)

text \<open>A run that adds placing events only.\<close>

definition places :: "os \<Rightarrow> nat \<Rightarrow> vsf_session run \<Rightarrow> vsf_session \<Rightarrow> (event list \<Rightarrow> bool) \<Rightarrow> bool" where
  "places W N m s P \<longleftrightarrow>
     ends m (login_fails_ok W N) (\<lambda>s'. \<exists>es. s' = s\<lparr>trace := es @ trace s\<rparr> \<and> list_all placing es \<and> P es)"

lemma enter_dirs_places:
  assumes "calm N s"
  shows "places W N (enter_dirs W u dir ext options s) s
    (\<lambda>es. VSF_SECUTIL_OPTION_CHROOT \<in> set options \<longrightarrow> es \<noteq> [] \<and> hd es = Sys (Chroot ''.''))"
proof -
  define jail where "jail = (VSF_SECUTIL_OPTION_CHROOT \<in> set options)"
  define Q where "Q s' \<longleftrightarrow> (\<exists>es. s' = s\<lparr>trace := es @ trace s\<rparr> \<and> list_all placing es \<and>
    (jail \<longrightarrow> es \<noteq> [] \<and> hd es = Sys (Chroot ''.'')))" for s'
  have QI: "Q (s\<lparr>trace := es @ trace s\<rparr>)" if "list_all placing es" "jail \<Longrightarrow> es \<noteq> [] \<and> hd es = Sys (Chroot ''.'')" for es
    using that by (auto simp: Q_def)
  have last_step: "ends (if jail then sys_zero W ''chroot'' (Chroot ''.'') s' else Inr s') (login_fails_ok W N) Q"
    if "s' = s\<lparr>trace := es @ trace s\<rparr>" "list_all placing es" for s' es
    using that assms QI [of es] QI [of "Sys (Chroot ''.'') # es"]
    by (auto simp: calm_def intro!: sys_zero_login)
  have restore: "ends (and_then (if euid then back_again W saved s' else Inr s')
      (\<lambda>s. if jail then sys_zero W ''chroot'' (Chroot ''.'') s else Inr s)) (login_fails_ok W N) Q"
    if s': "s' = s\<lparr>trace := es @ trace s\<rparr>" "list_all placing es" for euid saved s' es
  proof (cases euid)
    case True
    have "ends (back_again W saved s') (login_fails_ok W N)
        (\<lambda>s. ends (if jail then sys_zero W ''chroot'' (Chroot ''.'') s else Inr s) (login_fails_ok W N) Q)"
    proof (rule back_again_ends)
      fix fs
      assume "list_all placing fs"
      with s' show "ends (if jail then sys_zero W ''chroot'' (Chroot ''.'') (s'\<lparr>trace := fs @ trace s'\<rparr>)
          else Inr (s'\<lparr>trace := fs @ trace s'\<rparr>)) (login_fails_ok W N) Q"
        by (intro last_step [of _ "fs @ es"]) simp_all
    qed (use s' assms in \<open>simp add: calm_def\<close>)
    with True show ?thesis by (simp add: ends_and_then)
  qed (use last_step [OF s'] in simp)
  have dirs: "ends (let (retval, s) = sys W (EnterDir (c_str dir)) s' in
      if retval \<noteq> 0 then die (die2_text ''cannot change directory:'' (Some (c_str dir))) s
      else
        let (retval, s) = (if ext \<noteq> [] then sys W (EnterDir (c_str ext)) s else (0, s)) in
        if retval \<noteq> 0 \<and> jail then die (die2_text ''cannot change directory:'' (Some (c_str ext))) s
        else and_then (if euid then back_again W saved s else Inr s) (\<lambda>s.
             if jail then sys_zero W ''chroot'' (Chroot ''.'') s else Inr s)) (login_fails_ok W N) Q"
    if s': "s' = s\<lparr>trace := es @ trace s\<rparr>" "list_all placing es" for euid saved s' es
    using assms s' restore [of "s\<lparr>trace := Sys (EnterDir (c_str dir)) # es @ trace s\<rparr>" "Sys (EnterDir (c_str dir)) # es"]
      restore [of "s\<lparr>trace := Sys (EnterDir (c_str ext)) # Sys (EnterDir (c_str dir)) # es @ trace s\<rparr>"
        "Sys (EnterDir (c_str ext)) # Sys (EnterDir (c_str dir)) # es"]
    by (auto simp: sys_def die_def calm_def login_die_prefixes_def ends_if)
  have "ends (enter_dirs W u dir ext options s) (login_fails_ok W N) Q"
  proof (cases "VSF_SECUTIL_OPTION_CHANGE_EUID \<in> set options")
    case True
    show ?thesis
      unfolding enter_dirs_def Let_def jail_def [symmetric] ends_and_then if_P [OF True]
      by (rule as_user_ends [OF assms], unfold split_conv,
          rule dirs [where euid = True, unfolded Let_def ends_and_then if_True], rule refl, assumption)
  next
    case False
    then show ?thesis
      using dirs [of s "[]" False] by (simp add: enter_dirs_def jail_def [symmetric] Let_def)
  qed
  then show ?thesis by (simp add: places_def Q_def [abs_def] jail_def)
qed

subsection \<open>Becoming the user\<close>

definition late :: "event \<Rightarrow> bool" where
  "late e \<longleftrightarrow>
     (case e of Sys c \<Rightarrow> (case c of EnterDir d \<Rightarrow> True | SetNoProcs \<Rightarrow> True | WriteAccess d \<Rightarrow> True
        | AdoptCapabilities b b' \<Rightarrow> True | _ \<Rightarrow> False) | _ \<Rightarrow> False)"

lemma late_calls [simp]:
  "late (Sys (EnterDir d))" "late (Sys SetNoProcs)" "late (Sys (WriteAccess d))" "late (Sys (AdoptCapabilities b b'))"
  by (simp_all add: late_def)

lemma late_entry: "late e \<Longrightarrow> entry e"
  by (auto simp: late_def split: event.splits syscall.splits)

lemma late_list [simp]: "list_all late es \<Longrightarrow> list_all entry es"
  by (auto simp: list_all_iff late_entry)

lemma become_user_ends:
  assumes "calm N s"
    and Q: "\<And>es. list_all late es \<Longrightarrow>
      Q (s\<lparr>trace := es @ Sys (Setuid (pw_uid u)) # Sys (Setgid (pw_gid u)) # trace s\<rparr>)"
  shows "ends (become_user W u caps options s) (login_fails_ok W N) Q"
proof -
  define s1 where "s1 = s\<lparr>trace := Sys (Setuid (pw_uid u)) # Sys (Setgid (pw_gid u)) # trace s\<rparr>"
  have calm: "calm N (s1\<lparr>trace := es @ trace s1\<rparr>)" if "list_all late es" for es
    using assms(1) late_list [OF that] by (simp add: s1_def calm_def)
  have root: "ends (if VSF_SECUTIL_OPTION_CHROOT \<in> set options \<and> VSF_SECUTIL_OPTION_ALLOW_WRITEABLE_ROOT \<notin> set options
     then let (r, s) = sys W (WriteAccess ''/'') s' in
       if r = 0 then die ''vsftpd: refusing to run with writable root inside chroot()'' s else Inr s
     else Inr s') (login_fails_ok W N) Q" if "s' = s1\<lparr>trace := es @ trace s1\<rparr>" "list_all late es" for s' es
    using that Q [of es] Q [of "Sys (WriteAccess ''/'') # es"] calm [of "Sys (WriteAccess ''/'') # es"]
    by (auto simp: s1_def sys_def die_def)
  have procs: "ends (and_then (if VSF_SECUTIL_OPTION_NO_PROCS \<in> set options
        then sys_zero W ''setrlimit NPROC'' SetNoProcs s' else Inr s')
      (\<lambda>s. if VSF_SECUTIL_OPTION_CHROOT \<in> set options \<and> VSF_SECUTIL_OPTION_ALLOW_WRITEABLE_ROOT \<notin> set options
         then let (r, s) = sys W (WriteAccess ''/'') s in
           if r = 0 then die ''vsftpd: refusing to run with writable root inside chroot()'' s else Inr s
         else Inr s)) (login_fails_ok W N) Q" if s': "s' = s1\<lparr>trace := es @ trace s1\<rparr>" "list_all late es" for s' es
  proof (cases "VSF_SECUTIL_OPTION_NO_PROCS \<in> set options")
    case True
    show ?thesis unfolding ends_and_then if_P [OF True]
      by (rule sys_zero_login, use calm s' in simp, simp, simp, rule root [of _ "Sys SetNoProcs # es"]) (use s' in simp_all)
  next
    case False
    show ?thesis unfolding ends_and_then if_not_P [OF False] ends_values by (rule root [OF s'])
  qed
  have rest: "ends (and_then (if no_caps caps then Inr s1 else vsf_sysdep_adopt_capabilities W caps s1) (\<lambda>s.
      and_then (if VSF_SECUTIL_OPTION_NO_PROCS \<in> set options then sys_zero W ''setrlimit NPROC'' SetNoProcs s
               else Inr s) (\<lambda>s.
      if VSF_SECUTIL_OPTION_CHROOT \<in> set options \<and> VSF_SECUTIL_OPTION_ALLOW_WRITEABLE_ROOT \<notin> set options
      then let (r, s) = sys W (WriteAccess ''/'') s in
        if r = 0 then die ''vsftpd: refusing to run with writable root inside chroot()'' s else Inr s
      else Inr s))) (login_fails_ok W N) Q"
  proof (cases "no_caps caps")
    case True
    then show ?thesis using procs [of s1 "[]"] by simp
  next
    case False
    show ?thesis
      unfolding if_not_P [OF False] vsf_sysdep_adopt_capabilities_def ends_and_then [of "sys_zero _ _ _ _"]
      by (rule sys_zero_login, use calm [of "[]"] in simp, simp, simp,
        rule procs [of _ "[Sys (AdoptCapabilities (kCapabilityCAP_CHOWN caps) (kCapabilityCAP_NET_BIND_SERVICE caps))]"])
        simp_all
  qed
  have "ends (sys_zero W ''setgid'' (Setgid (pw_gid u)) s) (login_fails_ok W N) (\<lambda>s.
      ends (sys_zero W ''setuid'' (Setuid (pw_uid u)) s) (login_fails_ok W N) (\<lambda>s. s = s1))"
    using assms(1) by (auto simp: s1_def calm_def intro!: sys_zero_login)
  then show ?thesis
    unfolding become_user_def ends_and_then [of "sys_zero _ _ _ _"]
    by (rule ends_conseq) (erule ends_conseq, erule ssubst, rule rest, assumption, assumption)
qed

subsection \<open>The credentials a history leaves\<close>

text \<open>
  What the kernel makes of the calls of one process, newest first: as long as it is the superuser's its
  group, groups and root directory can be changed, after \<open>setuid\<close> none of them can.
\<close>

record creds =
  cred_uid :: "int option"
  cred_gid :: "int option"
  cred_groups :: "(string \<times> int) option option"
  cred_jail :: bool

definition creds_step :: "event \<Rightarrow> creds \<Rightarrow> creds" where
  "creds_step e c =
     (if cred_uid c \<noteq> None then c
      else case e of
        Sys call \<Rightarrow>
          (case call of
             Setuid u \<Rightarrow> c\<lparr>cred_uid := Some u\<rparr> | Setgid g \<Rightarrow> c\<lparr>cred_gid := Some g\<rparr>
           | Initgroups n g \<Rightarrow> c\<lparr>cred_groups := Some (Some (n, g))\<rparr>
           | ClearGroups \<Rightarrow> c\<lparr>cred_groups := Some None\<rparr>
           | Chroot d \<Rightarrow> c\<lparr>cred_jail := True\<rparr> | _ \<Rightarrow> c)
      | _ \<Rightarrow> c)"

definition superuser :: creds where
  "superuser = \<lparr>cred_uid = None, cred_gid = None, cred_groups = None, cred_jail = False\<rparr>"

definition creds :: "event list \<Rightarrow> creds" where
  "creds es = foldr creds_step es superuser"

lemma creds_step_simps [simp]:
  "cred_uid c = None \<Longrightarrow> creds_step (Sys (Setuid u)) c = c\<lparr>cred_uid := Some u\<rparr>"
  "cred_uid c = None \<Longrightarrow> creds_step (Sys (Setgid u)) c = c\<lparr>cred_gid := Some u\<rparr>"
  "cred_uid c = None \<Longrightarrow> creds_step (Sys (Initgroups n u)) c = c\<lparr>cred_groups := Some (Some (n, u))\<rparr>"
  "cred_uid c = None \<Longrightarrow> creds_step (Sys ClearGroups) c = c\<lparr>cred_groups := Some None\<rparr>"
  "cred_uid c = None \<Longrightarrow> creds_step (Sys (Chroot d)) c = c\<lparr>cred_jail := True\<rparr>"
  "creds_step (Sys (Getpwnam n)) c = c" "creds_step (Sys Getuid) c = c"
  "creds_step (Sys SetNoFds) c = c" "creds_step (Sys KeepCapabilities) c = c"
  "cred_uid c = Some v \<Longrightarrow> creds_step e c = c"
  by (simp_all add: creds_step_def)

lemma creds_settled: "cred_uid c = Some u \<Longrightarrow> foldr creds_step es c = c"
  by (induction es) simp_all

lemma creds_placing:
  assumes "list_all placing es" "cred_uid c = None"
  shows "\<exists>j. foldr creds_step es c = c\<lparr>cred_jail := j\<rparr> \<and> (es \<noteq> [] \<and> hd es = Sys (Chroot ''.'') \<longrightarrow> j)"
  using assms(1)
proof (induction es)
  case Nil
  show ?case by (rule exI [of _ "cred_jail c"]) simp
next
  case (Cons e es)
  then obtain j where j: "foldr creds_step es c = c\<lparr>cred_jail := j\<rparr>" and e: "placing e" by auto
  show ?case
  proof (cases "\<exists>d. e = Sys (Chroot d)")
    case True
    with j assms(2) show ?thesis by (intro exI [of _ True]) auto
  next
    case False
    with e have "creds_step e c' = c'" for c'
      by (auto simp: creds_step_def placing_def split: event.splits syscall.splits)
    with j False show ?thesis by (intro exI [of _ j]) auto
  qed
qed

text \<open>The process runs as this user, in a jail if there has to be one.\<close>

definition runs_as :: "passwd \<Rightarrow> bool \<Rightarrow> bool \<Rightarrow> creds \<Rightarrow> bool" where
  "runs_as u groups jail c \<longleftrightarrow>
     cred_uid c = Some (pw_uid u) \<and> cred_gid c = Some (pw_gid u) \<and>
     cred_groups c = Some (if groups then Some (pw_name u, pw_gid u) else None) \<and> (jail \<longrightarrow> cred_jail c)"

lemma creds_become:
  assumes "list_all late es" "list_all placing ps" "set mid \<subseteq> {Sys SetNoFds, Sys KeepCapabilities}"
    and "jail \<longrightarrow> ps \<noteq> [] \<and> hd ps = Sys (Chroot ''.'')"
  shows "runs_as u groups jail (creds (es @ Sys (Setuid (pw_uid u)) # Sys (Setgid (pw_gid u)) # mid @ ps @
    [Sys (if groups then Initgroups (pw_name u) (pw_gid u) else ClearGroups), Sys (Getpwnam n), Sys Getuid]))"
proof -
  define c0 where "c0 = superuser\<lparr>cred_groups := Some (if groups then Some (pw_name u, pw_gid u) else None)\<rparr>"
  have start: "foldr creds_step [Sys (if groups then Initgroups (pw_name u) (pw_gid u) else ClearGroups),
      Sys (Getpwnam n), Sys Getuid] superuser = c0"
    by (simp add: superuser_def c0_def)
  have c0: "cred_uid c0 = None" by (simp add: c0_def superuser_def)
  obtain j where j: "foldr creds_step ps c0 = c0\<lparr>cred_jail := j\<rparr>" "jail \<longrightarrow> j"
    using creds_placing [OF assms(2) c0] assms(4) by auto
  have mid: "foldr creds_step mid c = c" if "cred_uid c = None" for c
    using assms(3) that by (induction mid) auto
  have "creds (es @ Sys (Setuid (pw_uid u)) # Sys (Setgid (pw_gid u)) # mid @ ps @
      [Sys (if groups then Initgroups (pw_name u) (pw_gid u) else ClearGroups), Sys (Getpwnam n), Sys Getuid]) =
    foldr creds_step es (c0\<lparr>cred_jail := j, cred_gid := Some (pw_gid u), cred_uid := Some (pw_uid u)\<rparr>)"
    unfolding creds_def foldr_append foldr.simps(2) o_apply using start j(1) c0
    by (simp add: mid)
  also have "\<dots> = c0\<lparr>cred_jail := j, cred_gid := Some (pw_gid u), cred_uid := Some (pw_uid u)\<rparr>"
    by (rule creds_settled) simp
  finally show ?thesis using j(2) by (simp add: runs_as_def c0_def)
qed

end
