(* ===== verification/Login_Steps.thy ===== *)
theory Login_Steps
  imports Login_Places
begin

text \<open>
  The steps of a login that touch nothing but the history: what each of them adds, up to the process that
  serves the client. A run that ends on the way ends with one of the known failures.
\<close>

definition steps :: "os \<Rightarrow> vsf_session run \<Rightarrow> vsf_session \<Rightarrow> (event list \<Rightarrow> bool) \<Rightarrow> bool" where
  "steps W m s P \<longleftrightarrow>
     (\<forall>N. calm N s \<longrightarrow> ends m (login_fails_ok W N)
        (\<lambda>s'. \<exists>es. s' = s\<lparr>trace := es @ trace s\<rparr> \<and> list_all entry es \<and> P es))"

lemma steps_ends:
  assumes "steps W m s P" "calm N s" "\<And>es. list_all entry es \<Longrightarrow> P es \<Longrightarrow> Q (s\<lparr>trace := es @ trace s\<rparr>)"
  shows "ends m (login_fails_ok W N) Q"
proof -
  have "ends m (login_fails_ok W N) (\<lambda>s'. \<exists>es. s' = s\<lparr>trace := es @ trace s\<rparr> \<and> list_all entry es \<and> P es)"
    using assms(1,2) by (simp add: steps_def)
  then show ?thesis by (rule ends_conseq) (auto intro: assms(3))
qed

lemma steps_intro:
  assumes "\<And>N Q. calm N s \<Longrightarrow> (\<And>es. list_all entry es \<Longrightarrow> P es \<Longrightarrow> Q (s\<lparr>trace := es @ trace s\<rparr>)) \<Longrightarrow>
    ends m (login_fails_ok W N) Q"
  shows "steps W m s P"
  unfolding steps_def by (intro allI impI, rule assms, assumption, intro exI conjI, rule refl)

lemma calm_entry: "calm N s \<Longrightarrow> list_all entry es \<Longrightarrow> calm N (s\<lparr>trace := es @ trace s\<rparr>)"
  by (simp add: calm_def)

lemma steps_shift:
  assumes "list_all entry es" "steps W m (s\<lparr>trace := es @ trace s\<rparr>) (\<lambda>fs. P (fs @ es))"
  shows "steps W m s P"
proof (rule steps_intro)
  fix N Q
  assume s: "calm N s" and Q: "\<And>es. list_all entry es \<Longrightarrow> P es \<Longrightarrow> Q (s\<lparr>trace := es @ trace s\<rparr>)"
  show "ends m (login_fails_ok W N) Q"
  proof (rule steps_ends [OF assms(2) calm_entry [OF s assms(1)]])
    fix fs
    assume "list_all entry fs" "P (fs @ es)"
    with Q [of "fs @ es"] assms(1)
    show "Q (s\<lparr>trace := es @ trace s\<rparr>\<lparr>trace := fs @ trace (s\<lparr>trace := es @ trace s\<rparr>)\<rparr>)" by simp
  qed
qed

lemma steps_event:
  assumes "entry e" "steps W m (note_event e s) (\<lambda>fs. P (fs @ [e]))"
  shows "steps W m s P"
  using steps_shift [of "[e]" W m s P] assms by simp

lemma steps_seq:
  assumes "steps W m s P"
    and "\<And>es. list_all entry es \<Longrightarrow> P es \<Longrightarrow> steps W (k (s\<lparr>trace := es @ trace s\<rparr>)) (s\<lparr>trace := es @ trace s\<rparr>) (\<lambda>fs. Q (fs @ es))"
  shows "steps W (and_then m k) s Q"
proof (rule steps_intro)
  fix N R
  assume s: "calm N s" and R: "\<And>es. list_all entry es \<Longrightarrow> Q es \<Longrightarrow> R (s\<lparr>trace := es @ trace s\<rparr>)"
  show "ends (and_then m k) (login_fails_ok W N) R" unfolding ends_and_then
  proof (rule steps_ends [OF assms(1) s])
    fix es
    assume es: "list_all entry es" "P es"
    show "ends (k (s\<lparr>trace := es @ trace s\<rparr>)) (login_fails_ok W N) R"
      by (rule steps_ends [OF steps_shift [OF es(1) assms(2) [OF es]] s]) (rule R)
  qed
qed

lemma steps_zero: "entry (Sys c) \<Longrightarrow> known_die m \<Longrightarrow> P [Sys c] \<Longrightarrow> steps W (sys_zero W m c s) s P"
proof (rule steps_intro)
  fix N Q
  assume c: "entry (Sys c)" "known_die m" "P [Sys c]" "calm N s"
    and Q: "\<And>es. list_all entry es \<Longrightarrow> P es \<Longrightarrow> Q (s\<lparr>trace := es @ trace s\<rparr>)"
  from Q [of "[Sys c]"] c(1,3) show "ends (sys_zero W m c s) (login_fails_ok W N) Q"
    by (intro sys_zero_login [OF c(4,1,2)]) simp
qed

lemma steps_or_die: "entry (Sys c) \<Longrightarrow> known_die m \<Longrightarrow> P [Sys c] \<Longrightarrow> steps W (sys_or_die W m c s) s P"
proof (rule steps_intro)
  fix N Q
  assume c: "entry (Sys c)" "known_die m" "P [Sys c]" "calm N s"
    and Q: "\<And>es. list_all entry es \<Longrightarrow> P es \<Longrightarrow> Q (s\<lparr>trace := es @ trace s\<rparr>)"
  from Q [of "[Sys c]"] c(1,3) show "ends (sys_or_die W m c s) (login_fails_ok W N) Q"
    by (intro sys_or_die_login [OF c(4,1,2)]) simp
qed

lemma steps_die: "known_die m \<Longrightarrow> steps W (die m s) s P"
  by (simp add: steps_def die_login)

lemma steps_nothing: "P [] \<Longrightarrow> steps W (Inr s) s P"
  unfolding steps_def ends_values by (intro allI impI exI [of _ "[]"]) simp

lemma steps_conseq: "steps W m s P \<Longrightarrow> (\<And>es. list_all entry es \<Longrightarrow> P es \<Longrightarrow> Q es) \<Longrightarrow> steps W m s Q"
  by (rule steps_intro) (erule steps_ends, simp_all)

lemma steps_if: "(b \<Longrightarrow> steps W m s P) \<Longrightarrow> (\<not> b \<Longrightarrow> steps W m' s P) \<Longrightarrow> steps W (if b then m else m') s P"
  by simp

subsection \<open>Credentials\<close>

abbreviation drops_to :: "os \<Rightarrow> event list \<Rightarrow> string \<Rightarrow> bool \<Rightarrow> bool \<Rightarrow> event list \<Rightarrow> bool" where
  "drops_to W tr name groups jail es \<equiv>
     \<exists>u. os_pwnam W (Sys Getuid # tr) (c_str name) = Some u \<and> runs_as u groups jail (creds es)"

lemma become_user_steps:
  assumes "\<And>es. list_all late es \<Longrightarrow> P (es @ [Sys (Setuid (pw_uid u)), Sys (Setgid (pw_gid u))])"
  shows "steps W (become_user W u caps options s) s P"
proof (rule steps_intro)
  fix N Q
  assume s: "calm N s" and Q: "\<And>es. list_all entry es \<Longrightarrow> P es \<Longrightarrow> Q (s\<lparr>trace := es @ trace s\<rparr>)"
  show "ends (become_user W u caps options s) (login_fails_ok W N) Q"
  proof (rule become_user_ends [OF s])
    fix es
    assume "list_all late es"
    with Q [OF _ assms, of es] show "Q (s\<lparr>trace := es @ Sys (Setuid (pw_uid u)) # Sys (Setgid (pw_gid u)) # trace s\<rparr>)"
      by simp
  qed
qed

lemma enter_dirs_steps:
  "steps W (enter_dirs W u dir ext options s) s (\<lambda>es. list_all placing es \<and>
     (VSF_SECUTIL_OPTION_CHROOT \<in> set options \<longrightarrow> es \<noteq> [] \<and> hd es = Sys (Chroot ''.'')))"
proof (rule steps_intro)
  fix N Q
  assume s: "calm N s" and Q: "\<And>es. list_all entry es \<Longrightarrow> list_all placing es \<and>
     (VSF_SECUTIL_OPTION_CHROOT \<in> set options \<longrightarrow> es \<noteq> [] \<and> hd es = Sys (Chroot ''.'')) \<Longrightarrow> Q (s\<lparr>trace := es @ trace s\<rparr>)"
  show "ends (enter_dirs W u dir ext options s) (login_fails_ok W N) Q"
    using enter_dirs_places [OF s] unfolding places_def by (rule ends_conseq) (use Q in auto)
qed


lemma become_user_credentials:
  assumes "list_all placing ps" "set mid \<subseteq> {Sys SetNoFds, Sys KeepCapabilities}"
    and "VSF_SECUTIL_OPTION_CHROOT \<in> set options \<longrightarrow> ps \<noteq> [] \<and> hd ps = Sys (Chroot ''.'')"
  shows "steps W (become_user W u caps options s) s (\<lambda>fs. runs_as u groups (VSF_SECUTIL_OPTION_CHROOT \<in> set options)
    (creds (fs @ mid @ ps @ [Sys (if groups then Initgroups (pw_name u) (pw_gid u) else ClearGroups), Sys (Getpwnam n), Sys Getuid])))"
proof (rule become_user_steps)
  fix es
  assume "list_all late es"
  from creds_become [OF this assms, where u = u and groups = groups and n = n]
  show "runs_as u groups (VSF_SECUTIL_OPTION_CHROOT \<in> set options)
    (creds ((es @ [Sys (Setuid (pw_uid u)), Sys (Setgid (pw_gid u))]) @ mid @ ps @
      [Sys (if groups then Initgroups (pw_name u) (pw_gid u) else ClearGroups), Sys (Getpwnam n), Sys Getuid]))"
    by (simp only: append_assoc append_Cons append_Nil)
qed

lemma keep_capabilities_steps:
  "os_has_capabilities_as_non_root W \<Longrightarrow>
     steps W (vsf_sysdep_keep_capabilities W s) s (\<lambda>es. es = [Sys KeepCapabilities])"
  by (simp add: vsf_sysdep_keep_capabilities_def steps_or_die)

abbreviation group_call :: "bool \<Rightarrow> passwd \<Rightarrow> event" where
  "group_call groups u \<equiv> Sys (if groups then Initgroups (pw_name u) (pw_gid u) else ClearGroups)"

lemma finish_credentials_steps:
  assumes ps: "list_all placing ps" "VSF_SECUTIL_OPTION_CHROOT \<in> set options \<longrightarrow> ps \<noteq> [] \<and> hd ps = Sys (Chroot ''.'')"
    and mid: "set mid \<subseteq> {Sys SetNoFds}"
  shows "steps W (finish_credentials W u caps options t) t (\<lambda>fs.
    no_caps caps \<or> os_has_capabilities W \<and> os_has_capabilities_as_non_root W \<longrightarrow>
    runs_as u groups (VSF_SECUTIL_OPTION_CHROOT \<in> set options)
      (creds (fs @ mid @ ps @ [group_call groups u, Sys (Getpwnam n), Sys Getuid])))" (is "steps W _ t ?P")
proof -
  note user = become_user_credentials [OF ps(1) _ ps(2), where groups = groups and n = n and u = u and W = W and caps = caps]
  have plain: "steps W (become_user W u caps options t) t ?P"
    by (rule steps_conseq [OF user [where mid = mid]]) (use mid in auto)
  have keep: "steps W (and_then (vsf_sysdep_keep_capabilities W t) (become_user W u caps options)) t ?P"
    if "os_has_capabilities_as_non_root W"
  proof (rule steps_seq [OF keep_capabilities_steps [OF that]])
    fix es :: "event list"
    assume es: "es = [Sys KeepCapabilities]"
    show "steps W (become_user W u caps options (t\<lparr>trace := es @ trace t\<rparr>)) (t\<lparr>trace := es @ trace t\<rparr>)
        (\<lambda>fs. ?P (fs @ es))"
      by (rule steps_conseq [OF user [where mid = "es @ mid"]]) (use mid es in auto)
  qed
  have rest: "steps W (Inr t) t ?P" "steps W (vsf_sysdep_adopt_capabilities W caps t) t ?P"
    if "\<not> no_caps caps" "\<not> (os_has_capabilities W \<and> os_has_capabilities_as_non_root W)"
    unfolding vsf_sysdep_adopt_capabilities_def using that by (auto intro!: steps_nothing steps_zero)
  show ?thesis
    unfolding finish_credentials_def
    by (intro steps_if; (rule plain | rule keep | rule rest); simp)
qed

lemma take_credentials_steps:
  "steps W (take_credentials W u dir ext caps options s) s (\<lambda>fs.
     no_caps caps \<or> os_has_capabilities W \<and> os_has_capabilities_as_non_root W \<longrightarrow>
     runs_as u (VSF_SECUTIL_OPTION_USE_GROUPS \<in> set options) (VSF_SECUTIL_OPTION_CHROOT \<in> set options)
       (creds (fs @ [Sys (Getpwnam n), Sys Getuid])))"
  unfolding take_credentials_def
proof (rule steps_seq [where P = "\<lambda>es. es = [group_call (VSF_SECUTIL_OPTION_USE_GROUPS \<in> set options) u]"],
    (intro steps_if steps_zero; simp), rule steps_seq [OF enter_dirs_steps],
    rule steps_seq [where P = "\<lambda>es. set es \<subseteq> {Sys SetNoFds}"], (intro steps_if steps_zero steps_nothing; simp))
  let ?g = "VSF_SECUTIL_OPTION_USE_GROUPS \<in> set options"
  let ?j = "VSF_SECUTIL_OPTION_CHROOT \<in> set options"
  fix es ps mid t
  assume "es = [group_call ?g u]" "list_all placing ps \<and> (?j \<longrightarrow> ps \<noteq> [] \<and> hd ps = Sys (Chroot ''.''))"
    "set mid \<subseteq> {Sys SetNoFds}"
  then show "steps W (finish_credentials W u caps options t) t (\<lambda>fs.
     no_caps caps \<or> os_has_capabilities W \<and> os_has_capabilities_as_non_root W \<longrightarrow>
     runs_as u ?g ?j (creds ((((fs @ mid) @ ps) @ es) @ [Sys (Getpwnam n), Sys Getuid])))"
    using finish_credentials_steps [of ps options mid W u caps t ?g n] by simp
qed

lemma change_credentials_steps:
  "steps W (vsf_secutil_change_credentials W user dir ext caps options s) s
     (\<lambda>es. no_caps caps \<or> os_has_capabilities W \<and> os_has_capabilities_as_non_root W \<longrightarrow>
        drops_to W (trace s) user (VSF_SECUTIL_OPTION_USE_GROUPS \<in> set options)
          (VSF_SECUTIL_OPTION_CHROOT \<in> set options) es)"
proof -
  let ?s = "note_event (Sys Getuid) s" and ?d = "\<lambda>u. if dir = [] then pw_dir u else dir"
  have located: "steps W (take_credentials W u (?d u) ext caps options (note_event (Sys (Getpwnam (c_str user))) ?s)) s
      (\<lambda>es. no_caps caps \<or> os_has_capabilities W \<and> os_has_capabilities_as_non_root W \<longrightarrow>
        drops_to W (trace s) user (VSF_SECUTIL_OPTION_USE_GROUPS \<in> set options)
          (VSF_SECUTIL_OPTION_CHROOT \<in> set options) es)" if "os_pwnam W (trace ?s) (c_str user) = Some u" for u
    by (rule steps_event [of "Sys Getuid"], simp, rule steps_event [of "Sys (Getpwnam (c_str user))"], simp,
        rule steps_conseq [OF take_credentials_steps [where n = "c_str user"]]) (use that in auto)
  have missing: "steps W (die (die2_text ''cannot locate user entry:'' (Some (c_str user)))
      (note_event (Sys (Getpwnam (c_str user))) ?s)) s P" for P
    by (rule steps_event [of "Sys Getuid"], simp, rule steps_event [of "Sys (Getpwnam (c_str user))"], simp,
        rule steps_die) (simp add: login_die_prefixes_def)
  have plain: "steps W (bug ''vsf_secutil_change_credentials: not running as root'' ?s) s P" for P
    by (rule steps_event [of "Sys Getuid"]) (simp_all add: steps_def bug_def login_fails_ok_def login_fault_def calm_def)
  show ?thesis
    unfolding vsf_secutil_change_credentials_def vsf_sysutil_running_as_root_def str_getpwnam_def sys_def Let_def split_conv
    using located missing plain by (auto split: option.split)
qed

end
