(* ===== verification/Login_Check.thy ===== *)
theory Login_Check
  imports Login_Steps Vsf_Loop
begin

text \<open>
  The check of a login: who may log in, stated without the code, and the proof that the privileged
  process lets in nobody else, and that each request costs at most one look into the password files.
\<close>

subsection \<open>Who may log in\<close>

text \<open>
  A local user has an entry, a shell of the list when shells are checked, an account that has not expired,
  and a password whose hash is the stored one. The files are those at some moment of the connection.
\<close>

definition password_ok :: "tunables \<Rightarrow> os \<Rightarrow> string \<Rightarrow> string \<Rightarrow> bool" where
  "password_ok T W user pass \<longleftrightarrow>
     (\<exists>tr p_pwd tr' p_spwd now stored.
        os_pwnam W tr (c_str user) = Some p_pwd \<and>
        (tunable_check_shell T \<longrightarrow> pw_shell p_pwd \<in> set (os_shells W (Sys (Getpwnam (c_str user)) # tr))) \<and>
        os_shadow W tr' (c_str user) = p_spwd \<and>
        (case p_spwd of None \<Rightarrow> stored = pw_passwd p_pwd
         | Some sp \<Rightarrow> \<not> shadow_expired sp now \<and> stored \<in> {sp_pwdp sp, pw_passwd p_pwd}) \<and>
        os_crypt W (c_str pass) stored = Some stored)"

definition local_ok :: "tunables \<Rightarrow> os \<Rightarrow> string \<Rightarrow> string \<Rightarrow> bool" where
  "local_ok T W user pass \<longleftrightarrow>
     tunable_local_enable T \<and> \<not> dodgy_input user pass \<and>
     \<not> (tunable_anonymous_enable T \<and> anonymous_name user) \<and> password_ok T W user pass"

text \<open>An anonymous user gives an address, which must not be banned and may have to be a known one.\<close>

definition anon_ok :: "tunables \<Rightarrow> vsf_session \<Rightarrow> string \<Rightarrow> string \<Rightarrow> bool" where
  "anon_ok T s user pass \<longleftrightarrow>
     tunable_anonymous_enable T \<and> anonymous_name user \<and>
     pass \<notin> set (s_lines (banned_email_str s)) \<and>
     (email_passwords_str s \<noteq> [] \<longrightarrow> pass \<noteq> [] \<and> pass \<in> set (s_lines (email_passwords_str s)))"

lemma local_ok_name: "local_ok T W user pass \<Longrightarrow> c_str user \<noteq> []"
proof -
  assume "local_ok T W user pass"
  then have d: "\<not> dodgy_input user pass" by (simp add: local_ok_def)
  then obtain c r where u: "user = c # r" by (cases user) (auto simp: dodgy_input_def)
  with d have "vsf_sysutil_isalnum c \<or> c = CHR ''_'' \<or> c = CHR ''.''" by (auto simp: dodgy_input_def)
  then have "c \<noteq> NUL" by (auto simp: vsf_sysutil_isalnum_def vsf_sysutil_isdigit_def)
  with u show ?thesis by simp
qed

subsection \<open>The password files\<close>

lemma crypt_login:
  assumes "list_all quiet (trace s)" "guesses (trace s) \<le> N"
    and "\<And>b. (b \<longrightarrow> os_crypt W (c_str pass) stored = Some stored) \<Longrightarrow> ends (f b) (login_fails_ok W N) Q"
  shows "ends (and_then (crypt_matches W pass stored s) f) (login_fails_ok W N) Q"
  using assms by (auto simp: crypt_matches_def login_fails_ok_def login_fault_def ends_and_then split: option.split)

lemma check_auth_login:
  assumes "list_all quiet (trace s)" "guesses (trace s) < N"
    and Q: "\<And>b es. list_all quiet es \<Longrightarrow> guesses es \<le> 1 \<Longrightarrow> (b \<longrightarrow> password_ok T W user pass) \<Longrightarrow>
      Q (b, s\<lparr>trace := es @ trace s\<rparr>)"
  shows "ends (vsf_sysdep_check_auth T W user pass s) (login_fails_ok W N) Q"
proof (cases "os_pwnam W (trace s) (c_str user)")
  case None
  with Q [of "[Sys (Getpwnam (c_str user))]" False] show ?thesis
    by (simp add: vsf_sysdep_check_auth_def str_getpwnam_def)
next
  case (Some p_pwd)
  define tr1 where "tr1 = Sys (Getpwnam (c_str user)) # trace s"
  define es2 where "es2 = (if tunable_check_shell T then [Sys Getusershell] else []) @ [Sys (Getpwnam (c_str user))]"
  define tr2 where "tr2 = es2 @ trace s"
  define tr3 where "tr3 = Sys (Getspnam (c_str user)) # tr2"
  define tr4 where "tr4 = Sys GetTime # tr3"
  have fine: "list_all quiet es2" "guesses es2 = 0" by (simp_all add: es2_def)
  have tr: "list_all quiet tr3" "guesses tr3 \<le> N" "list_all quiet tr4" "guesses tr4 \<le> N"
    using assms(1,2) fine by (simp_all add: tr4_def tr3_def tr2_def)
  note Q2 = Q [of es2 False] Q [of "Sys (Getspnam (c_str user)) # es2"] Q [of "Sys GetTime # Sys (Getspnam (c_str user)) # es2"]
  show ?thesis
  proof (cases "tunable_check_shell T \<and> pw_shell p_pwd \<notin> set (os_shells W tr1)")
    case True
    with Some Q2(1) fine show ?thesis
      by (simp add: vsf_sysdep_check_auth_def str_getpwnam_def Let_def tr1_def es2_def)
  next
    case shell: False
    note ok = password_ok_def [THEN iffD2, OF exI [of _ "trace s"], OF exI [of _ p_pwd], OF exI [of _ tr2]]
    have run: "vsf_sysdep_check_auth T W user pass s =
      (case os_shadow W tr2 (c_str user) of
         None \<Rightarrow> and_then (crypt_matches W pass (pw_passwd p_pwd) (s\<lparr>trace := tr3\<rparr>)) (\<lambda>b. Inr (b, s\<lparr>trace := tr3\<rparr>))
       | Some p_spwd \<Rightarrow>
           if shadow_expired p_spwd (fst (os_time W tr3)) then Inr (False, s\<lparr>trace := tr4\<rparr>)
           else and_then (crypt_matches W pass (sp_pwdp p_spwd) (s\<lparr>trace := tr4\<rparr>)) (\<lambda>b.
             if b then Inr (True, s\<lparr>trace := tr4\<rparr>)
             else and_then (crypt_matches W pass (pw_passwd p_pwd) (s\<lparr>trace := tr4\<rparr>)) (\<lambda>b. Inr (b, s\<lparr>trace := tr4\<rparr>))))"
      unfolding tr4_def tr3_def tr2_def es2_def vsf_sysdep_check_auth_def str_getpwnam_def Let_def split_beta
      using Some shell by (cases "tunable_check_shell T") (simp_all add: tr1_def cong: if_cong option.case_cong)
    show ?thesis
    proof (cases "os_shadow W tr2 (c_str user)")
      case None
      have "Q (b, s\<lparr>trace := tr3\<rparr>)" if "b \<longrightarrow> os_crypt W (c_str pass) (pw_passwd p_pwd) = Some (pw_passwd p_pwd)" for b
        using Q2(2) [of b] fine ok [OF exI [of _ None], OF exI, OF exI [of _ "pw_passwd p_pwd"]] that Some shell None
        by (auto simp: tr3_def tr2_def tr1_def)
      with None show ?thesis unfolding run by (simp only: option.case) (rule crypt_login, use tr in simp_all)
    next
      case sp: (Some p_spwd)
      have F: "Q (False, s\<lparr>trace := tr4\<rparr>)" using Q2(3) [of False] fine by (simp add: tr4_def tr3_def tr2_def)
      have S: "Q (True, s\<lparr>trace := tr4\<rparr>)"
        if "\<not> shadow_expired p_spwd (fst (os_time W tr3))" "stored \<in> {sp_pwdp p_spwd, pw_passwd p_pwd}"
          "os_crypt W (c_str pass) stored = Some stored" for stored
        using Q2(3) [of True] fine that Some shell sp
          ok [OF exI [of _ "Some p_spwd"], OF exI [of _ "fst (os_time W tr3)"], OF exI [of _ stored]]
        by (auto simp: tr4_def tr3_def tr2_def tr1_def)
      show ?thesis
      proof (cases "shadow_expired p_spwd (fst (os_time W tr3))")
        case True
        with F show ?thesis by (simp add: run sp)
      next
        case e: False
        show ?thesis unfolding run sp option.case if_not_P [OF e]
        proof (rule crypt_login)
          fix b
          assume b: "b \<longrightarrow> os_crypt W (c_str pass) (sp_pwdp p_spwd) = Some (sp_pwdp p_spwd)"
          have "Q (b', s\<lparr>trace := tr4\<rparr>)"
            if "b' \<longrightarrow> os_crypt W (c_str pass) (pw_passwd p_pwd) = Some (pw_passwd p_pwd)" for b'
            using S [OF e, of "pw_passwd p_pwd"] F that by (cases b') simp_all
          then have "ends (and_then (crypt_matches W pass (pw_passwd p_pwd) (s\<lparr>trace := tr4\<rparr>))
              (\<lambda>b. Inr (b, s\<lparr>trace := tr4\<rparr>))) (login_fails_ok W N) Q"
            by (intro crypt_login) (use tr in simp_all)
          with S [OF e, of "sp_pwdp p_spwd"] b
          show "ends (if b then Inr (True, s\<lparr>trace := tr4\<rparr>)
             else and_then (crypt_matches W pass (pw_passwd p_pwd) (s\<lparr>trace := tr4\<rparr>)) (\<lambda>b. Inr (b, s\<lparr>trace := tr4\<rparr>)))
            (login_fails_ok W N) Q" by simp
        qed (use tr in simp_all)
      qed
    qed
  qed
qed

subsection \<open>A request\<close>

text \<open>
  What a request leaves alone: everything but the history, the names, the lists of addresses and the
  entry of the log.
\<close>

definition core :: "vsf_session \<Rightarrow> vsf_session" where
  "core s = s\<lparr>trace := [], user_str := [], anon_pass_str := [], banned_email_str := [], email_passwords_str := [],
     log_start_sec := 0, log_start_usec := 0, log_str := [], transfer_size := 0\<rparr>"

text \<open>The answers to a request, and the session after it.\<close>

definition answered :: "tunables \<Rightarrow> os \<Rightarrow> string \<Rightarrow> vsf_session \<Rightarrow> login_result \<times> vsf_session \<Rightarrow> bool" where
  "answered T W pass s x \<longleftrightarrow>
     (case x of (r, s') \<Rightarrow>
        core s' = core s \<and> (\<exists>es. trace s' = es @ trace s \<and> list_all quiet es \<and> guesses es \<le> 1) \<and>
        (case r of
           kVSFLoginFail \<Rightarrow> user_str s' = user_str s \<and> banned_email_str s' = banned_email_str s \<and>
             email_passwords_str s' = email_passwords_str s
         | kVSFLoginAnon \<Rightarrow> anon_ok T s (user_str s) pass \<and> user_str s' = text_setting (tunable_ftp_username T)
         | kVSFLoginReal \<Rightarrow> local_ok T W (user_str s) pass \<and> user_str s' = user_str s
         | kVSFLoginNull \<Rightarrow> False))"

lemma anonymous_answered:
  assumes "tunable_anonymous_enable T" "anonymous_name (user_str s)"
  shows "answered T W pass s (handle_anonymous_login T pass s)"
proof -
  have "s_lines [] = []" by (simp add: s_lines.simps [of "[]"] s_getline_def Let_def)
  with assms show ?thesis
    by (auto simp: handle_anonymous_login_def answered_def core_def anon_ok_def setup_username_globals_def Let_def)
qed

lemma handle_login_answered:
  assumes "list_all quiet (trace s)" "guesses (trace s) < N"
    and "tunable_local_enable T \<or> tunable_anonymous_enable T \<and> anonymous_name (user_str s)"
  shows "ends (handle_login T W (user_str s) pass s) (login_fails_ok W N) (answered T W pass s)"
proof -
  have refused: "answered T W pass s (kVSFLoginFail, s)" by (simp add: answered_def)
  have "ends (vsf_sysdep_check_auth T W (user_str s) pass s) (login_fails_ok W N)
      (\<lambda>(b, s'). ends (if \<not> b then Inr (kVSFLoginFail, s') else Inr (kVSFLoginReal, setup_username_globals (user_str s) s'))
        (login_fails_ok W N) (answered T W pass s))"
    if "\<not> dodgy_input (user_str s) pass" "tunable_local_enable T" "\<not> (tunable_anonymous_enable T \<and> anonymous_name (user_str s))"
    by (rule check_auth_login [OF assms(1,2)])
      (use that in \<open>auto simp: answered_def core_def setup_username_globals_def local_ok_def\<close>)
  then show ?thesis
    using assms(3) anonymous_answered [of T s W pass] refused
    by (auto simp: handle_login_def handle_local_login_def ends_and_then ends_prod)
qed

lemma kVSFLogEntryLogin_action: "log_action kVSFLogEntryLogin \<noteq> None" "\<not> vsf_log_type_is_transfer kVSFLogEntryLogin"
  by (simp_all add: log_action_def vsf_log_type_is_transfer_def log_entry_defs)

lemma do_login_answered:
  assumes "list_all quiet (trace s)" "guesses (trace s) < N" "log_type s = 0"
    and "tunable_local_enable T \<or> tunable_anonymous_enable T \<and> anonymous_name (user_str s)"
  shows "ends (vsf_privop_do_login T W pass s) (login_fails_ok W N) (answered T W pass s)"
  unfolding vsf_privop_do_login_def
proof (rule ends_bind2I [where P = "\<lambda>r s'. answered T W pass s (r, s')"],
    use handle_login_answered [OF assms(1,2,4)] in simp, unfold split_conv)
  fix r s'
  assume a: "answered T W pass s (r, s')"
  then obtain es where es: "trace s' = es @ trace s" "list_all quiet es" "guesses es \<le> 1"
    and core: "core s' = core s" by (auto simp: answered_def)
  have "log_type s' = log_type s" using arg_cong [OF core, of log_type] by (simp add: core_def)
  then have lt: "log_type s' = 0" using assms(3) by simp
  define s1 where "s1 = s'\<lparr>log_type := kVSFLogEntryLogin, log_start_sec := 0, log_start_usec := 0, transfer_size := 0, log_str := []\<rparr>"
  have "vsf_log_start_entry W kVSFLogEntryLogin s' = Inr s1"
    by (simp add: vsf_log_start_entry_def lt kVSFLogEntryLogin_action s1_def)
  moreover have "ends (vsf_log_do_log T W (r \<noteq> kVSFLoginFail) s1) (login_fails_ok W N)
      (\<lambda>t. answered T W pass s (r, pause W n t))" for n
  proof (rule do_log_ends)
    fix fs
    assume fs: "list_all io_event fs"
    define t where "t = pause W n (s1\<lparr>trace := fs @ trace s1, log_type := 0\<rparr>)"
    obtain gs where gs: "t = s1\<lparr>trace := gs @ fs @ trace s1, log_type := 0\<rparr>" "list_all quiet gs" "guesses gs = 0"
    proof
      show "t = s1\<lparr>trace := (if n \<noteq> 0 then [Sys Sleep] else []) @ fs @ trace s1, log_type := 0\<rparr>"
        by (simp add: t_def pause_def sys_def)
    qed simp_all
    have "core t = core s'" using lt by (simp add: gs s1_def core_def)
    moreover have "trace t = (gs @ fs @ es) @ trace s" "list_all quiet (gs @ fs @ es)" "guesses (gs @ fs @ es) \<le> 1"
      using es gs fs by (simp_all add: s1_def)
    then have "\<exists>es. trace t = es @ trace s \<and> list_all quiet es \<and> guesses es \<le> 1" by blast
    moreover have "user_str t = user_str s'" "banned_email_str t = banned_email_str s'"
      "email_passwords_str t = email_passwords_str s'" by (simp_all add: gs s1_def)
    ultimately show "answered T W pass s (r, pause W n (s1\<lparr>trace := fs @ trace s1, log_type := 0\<rparr>))"
      using a core unfolding t_def [symmetric] by (cases r) (simp_all add: answered_def)
  qed (simp add: s1_def kVSFLogEntryLogin_action)
  ultimately show "ends (and_then (vsf_log_start_entry W kVSFLogEntryLogin s') (\<lambda>s.
     and_then (vsf_log_do_log T W (r \<noteq> kVSFLoginFail) s) (\<lambda>s.
     Inr (r, pause W (if r = kVSFLoginFail then tunable_delay_failed_login T
                      else tunable_delay_successful_login T) s)))) (login_fails_ok W N) (answered T W pass s)"
    by (simp add: ends_and_then)
qed

end
