(* ===== verification/Login_Join.thy ===== *)
theory Login_Join
  imports Login_Check
begin

text \<open>
  From a right password to the process that serves the client: the settings of the user, the directories,
  the jail. What is shown of it is that the process runs as the user the settings say and, when it is
  anonymous or the settings want it, in a jail.
\<close>

subsection \<open>Files\<close>

lemma load_setting_known: "vsf_parseconf_load_setting l True T = Inl e \<Longrightarrow> known_die e"
  unfolding vsf_parseconf_load_setting_def Let_def
  by (auto simp: login_die_prefixes_def split: prod.splits option.splits if_splits)

lemma load_lines_known: "load_lines True ls T = Inl e \<Longrightarrow> known_die e"
  by (induction ls arbitrary: T) (auto split: if_splits sum.splits dest: load_setting_known)

lemma load_file_login:
  assumes "calm N s" "\<And>C' es. list_all entry es \<Longrightarrow> Q (C', s\<lparr>trace := es @ trace s\<rparr>)"
  shows "ends (vsf_parseconf_load_file W (Some f) True C s) (login_fails_ok W N) Q"
proof -
  let ?s1 = "s\<lparr>trace := [Sys (ReadFile f)] @ trace s\<rparr>"
  let ?s3 = "s\<lparr>trace := [Sys Getuid, Sys (Stat f), Sys (ReadFile f)] @ trace s\<rparr>"
  have calm: "calm N ?s1" "calm N ?s3" by (rule calm_entry [OF assms(1)], simp)+
  have fin: "Q (C', ?s3)" for C' by (rule assms(2)) simp
  have lines: "ends (case load_lines True ls T of Inl e \<Rightarrow> die e ?s3 | Inr T \<Rightarrow> Inr (C'\<lparr>settings := T\<rparr>, ?s3))
      (login_fails_ok W N) Q" for ls T C'
    using fin by (cases "load_lines True ls T") (auto intro!: die_login calm dest: load_lines_known simp del: append_Cons)
  have absent: "ends (die (die2_text ''cannot read config file: '' (Some f)) ?s1) (login_fails_ok W N) Q"
    "ends (die ''config file not owned by correct user, or not a file'' ?s3) (login_fails_ok W N) Q"
    by (rule die_login, rule calm, simp add: login_die_prefixes_def)+
  show ?thesis
    using lines absent
    by (simp add: vsf_parseconf_load_file_def str_fileread_checked_def sys_text_def sys_stat_def sys_def Let_def
        split: option.split cong: sum.case_cong)
qed

lemma per_user_login:
  assumes "calm N s"
    and Q: "\<And>T' es. list_all entry es \<Longrightarrow> (tunable_user_config_dir T = None \<longrightarrow> T' = T) \<Longrightarrow> Q (T', s\<lparr>trace := es @ trace s\<rparr>)"
  shows "ends (handle_per_user_config T W user s) (login_fails_ok W N) Q"
proof (cases "tunable_user_config_dir T")
  case None
  then show ?thesis using Q [of "[]" T] by (simp add: handle_per_user_config_def)
next
  case (Some dir)
  define f where "f = c_str (c_str dir @ CHR ''/'' # user)"
  let ?s = "s\<lparr>trace := [Sys (Stat f)] @ trace s\<rparr>"
  have calm: "calm N ?s" by (rule calm_entry [OF assms(1)]) simp
  have "ends (and_then (vsf_parseconf_load_file W (Some f) True \<lparr>s_p_saved_filename = None, settings = T\<rparr> ?s)
      (\<lambda>(C, s). Inr (settings C, s))) (login_fails_ok W N) Q"
    unfolding ends_and_then
  proof (rule load_file_login [OF calm])
    fix C' es
    assume "list_all entry es"
    with Q [of "es @ [Sys (Stat f)]" "settings C'"] Some
    show "ends (case (C', ?s\<lparr>trace := es @ trace ?s\<rparr>) of (C, s) \<Rightarrow> Inr (settings C, s)) (login_fails_ok W N) Q" by simp
  qed
  moreover have "ends (die ''error opening per-user config file'' ?s) (login_fails_ok W N) Q"
    by (rule die_login [OF calm]) simp
  ultimately show ?thesis
    using Some Q [of "[]" T] Q [of "[Sys (Stat f)]" T]
    by (auto simp: handle_per_user_config_def f_def [symmetric] sys_stat_def Let_def)
qed

lemma chroot_list_login:
  assumes "calm N s"
    and Q: "\<And>b es. list_all entry es \<Longrightarrow> (\<not> tunable_chroot_list_enable T \<longrightarrow> b = tunable_chroot_local_user T) \<Longrightarrow>
      Q (b, s\<lparr>trace := es @ trace s\<rparr>)"
  shows "ends (local_chroot T W user s) (login_fails_ok W N) Q"
proof (cases "tunable_chroot_list_enable T")
  case False
  then show ?thesis using Q [of "[]" "tunable_chroot_local_user T"] by (simp add: local_chroot_def)
next
  case True
  have miss: "ends (die (die2_text ''could not read chroot() list file:'' m) s') (login_fails_ok W N) Q" if "calm N s'" for s' m
    by (rule die_login [OF that]) (simp add: login_die_prefixes_def)
  show ?thesis
  proof (cases "tunable_chroot_list_file T")
    case None
    with True miss [OF assms(1)] show ?thesis by (simp add: local_chroot_def)
  next
    case (Some f)
    let ?s = "s\<lparr>trace := [Sys (ReadFile (c_str f))] @ trace s\<rparr>"
    have "calm N ?s" by (rule calm_entry [OF assms(1)]) simp
    with True Some miss [of ?s] Q [of "[Sys (ReadFile (c_str f))]"] show ?thesis
      by (auto simp: local_chroot_def str_fileread_checked_def sys_text_def Let_def split: option.split)
  qed
qed

lemma chdir_dir_login:
  assumes "calm N s" "\<And>x es. set es \<subseteq> {Sys (Getpwnam (c_str user))} \<Longrightarrow> Q (x, s\<lparr>trace := es @ trace s\<rparr>)"
  shows "ends (calculate_chdir_dir T W anon user orig s) (login_fails_ok W N) Q"
proof -
  let ?s = "s\<lparr>trace := [Sys (Getpwnam (c_str user))] @ trace s\<rparr>"
  have calm: "calm N ?s" by (rule calm_entry [OF assms(1)]) simp
  have miss: "ends (die (die2_text ''cannot locate user entry:'' (Some (c_str user))) ?s) (login_fails_ok W N) Q"
    by (rule die_login [OF calm]) (simp add: login_die_prefixes_def)
  show ?thesis
    using assms(2) [of "[]"] assms(2) [of "[Sys (Getpwnam (c_str user))]"] miss
    by (auto simp: calculate_chdir_dir_def str_getpwnam_def Let_def ends_if split: option.split prod.split)
qed

subsection \<open>Forks\<close>

abbreviation fork_event :: "event \<Rightarrow> bool" where
  "fork_event e \<equiv> e = Sys Fork \<or> e = Sys ForkNewnet"

lemma fork_login:
  assumes "calm N s"
    and Q: "\<And>r f es. fork_event f \<Longrightarrow> list_all entry es \<Longrightarrow> Q (r, s\<lparr>trace := f # es @ trace s\<rparr>)"
  shows "ends (if b then vsf_sysutil_fork_newnet W s else vsf_sysutil_fork W s) (login_fails_ok W N) Q"
proof -
  have plain: "ends (vsf_sysutil_fork W s') (login_fails_ok W N) Q"
    if "s' = s\<lparr>trace := es @ trace s\<rparr>" "list_all entry es" for s' es
    using Q [of "Sys Fork" es] that assms(1)
    by (auto simp: vsf_sysutil_fork_def sys_def die_def calm_def)
  show ?thesis
    using plain [of s "[]"] plain [of "note_event (Sys ForkNewnet) s" "[Sys ForkNewnet]"] Q [of "Sys ForkNewnet" "[]"]
    by (auto simp: vsf_sysutil_fork_newnet_def sys_def)
qed

subsection \<open>The process that serves the client\<close>

lemma creds_inert:
  assumes "set es \<subseteq> {Sys (Getpwnam n)}"
  shows "creds (fs @ es) = creds fs"
proof -
  have "foldr creds_step es c = c" for c using assms by (induction es arbitrary: c) auto
  then show ?thesis by (simp add: creds_def)
qed

lemma runs_as_later: "runs_as u groups jail (creds es) \<Longrightarrow> runs_as u groups jail (creds (e # es))"
  by (simp add: runs_as_def creds_def)

text \<open>
  After the last fork the process took the user's groups, group and name, and entered the jail if it
  had to, and has not changed them since.
\<close>

definition confined :: "os \<Rightarrow> string \<Rightarrow> bool \<Rightarrow> event list \<Rightarrow> bool" where
  "confined W name jail tr \<longleftrightarrow>
     (\<exists>es f pre u tr'. tr = es @ f # pre \<and> fork_event f \<and>
        os_pwnam W tr' (c_str name) = Some u \<and> runs_as u True jail (creds es))"

definition is_remapped :: "tunables \<Rightarrow> bool \<Rightarrow> bool" where
  "is_remapped T was_anon \<longleftrightarrow> tunable_guest_enable T \<and> \<not> was_anon \<and> \<not> tunable_virtual_use_local_privs T"

definition runs_for :: "tunables \<Rightarrow> bool \<Rightarrow> string \<Rightarrow> string" where
  "runs_for T was_anon user =
     (if tunable_guest_enable T \<and> \<not> was_anon then text_setting (tunable_guest_username T) else user)"

lemma login_child_login:
  assumes "calm N s"
    and Q: "\<And>es g u tr. list_all entry es \<Longrightarrow> os_pwnam W tr (c_str (runs_for T was_anon user)) = Some u \<Longrightarrow>
      runs_as u True (do_chroot \<or> is_remapped T was_anon) (creds es) \<Longrightarrow>
      Q (LoggedIn T (s\<lparr>is_guest := g, trace := es @ trace s, is_anonymous := was_anon \<or> is_remapped T was_anon\<rparr>))"
  shows "ends (login_child T W user do_chroot was_anon s) (login_fails_ok W N) Q"
proof -
  let ?name = "runs_for T was_anon user" and ?jail = "do_chroot \<or> is_remapped T was_anon"
  let ?anon = "was_anon \<or> is_remapped T was_anon"
  define caps where "caps = \<lparr>kCapabilityCAP_CHOWN = False, kCapabilityCAP_NET_BIND_SERVICE = False\<rparr>"
  define g where "g = (if tunable_guest_enable T \<and> \<not> was_anon then True else is_guest s)"
  define s1 where "s1 = s\<lparr>is_guest := g\<rparr>"
  define options where "options = [VSF_SECUTIL_OPTION_USE_GROUPS, VSF_SECUTIL_OPTION_NO_PROCS]
            @ (if ?jail then [VSF_SECUTIL_OPTION_CHROOT] else [])
            @ (if \<not> ?anon then [VSF_SECUTIL_OPTION_CHANGE_EUID] else [])
            @ (if \<not> was_anon \<and> tunable_allow_writeable_chroot T then [VSF_SECUTIL_OPTION_ALLOW_WRITEABLE_ROOT] else [])"
  have options: "VSF_SECUTIL_OPTION_USE_GROUPS \<in> set options" "VSF_SECUTIL_OPTION_CHROOT \<in> set options \<longleftrightarrow> ?jail"
    by (auto simp: options_def)
  have s1: "calm N s1" "trace s1 = trace s" using assms(1) by (simp_all add: s1_def calm_def)
  have run: "login_child T W user do_chroot was_anon s =
    and_then (calculate_chdir_dir T W was_anon ?name user s1) (\<lambda>((userdir, chroot, chdir), s).
      and_then (vsf_secutil_change_credentials W ?name userdir chroot caps options s) (\<lambda>s.
      let s = (if chdir \<noteq> [] then snd (sys W (EnterDir (c_str chdir)) s) else s) in
      Inr (LoggedIn T (s\<lparr>is_anonymous := ?anon\<rparr>))))"
    by (simp add: login_child_def runs_for_def is_remapped_def caps_def options_def s1_def g_def Let_def)
  show ?thesis unfolding run ends_and_then
  proof (rule chdir_dir_login [OF s1(1)])
    fix x :: "string \<times> string \<times> string" and es
    assume es: "set es \<subseteq> {Sys (Getpwnam (c_str ?name))}"
    obtain userdir chroot chdir where x: "x = (userdir, chroot, chdir)" by (cases x)
    define s2 where "s2 = s1\<lparr>trace := es @ trace s1\<rparr>"
    have ees: "list_all entry es" using es by (auto simp: list_all_iff)
    have s2: "calm N s2" unfolding s2_def by (rule calm_entry [OF s1(1) ees])
    have "ends (vsf_secutil_change_credentials W ?name userdir chroot caps options s2) (login_fails_ok W N)
      (\<lambda>s. ends (let s = (if chdir \<noteq> [] then snd (sys W (EnterDir (c_str chdir)) s) else s) in
        Inr (LoggedIn T (s\<lparr>is_anonymous := ?anon\<rparr>))) (login_fails_ok W N) Q)"
    proof (rule steps_ends [OF change_credentials_steps s2])
      fix fs
      assume fs: "list_all entry fs"
        and "no_caps caps \<or> os_has_capabilities W \<and> os_has_capabilities_as_non_root W \<longrightarrow>
          drops_to W (trace s2) ?name (VSF_SECUTIL_OPTION_USE_GROUPS \<in> set options)
            (VSF_SECUTIL_OPTION_CHROOT \<in> set options) fs"
      then obtain u where u: "os_pwnam W (Sys Getuid # trace s2) (c_str ?name) = Some u"
          "runs_as u True ?jail (creds (fs @ es))"
        using creds_inert [OF es] options by (auto simp: caps_def no_caps_def)
      have t: "list_all entry (fs @ es)" using fs ees by simp
      note Q1 = Q [OF t u, of g] Q [OF _ u(1) runs_as_later [OF u(2)], of "Sys (EnterDir (c_str chdir))" g]
      show "ends (let s = (if chdir \<noteq> [] then snd (sys W (EnterDir (c_str chdir)) (s2\<lparr>trace := fs @ trace s2\<rparr>))
            else s2\<lparr>trace := fs @ trace s2\<rparr>) in
          Inr (LoggedIn T (s\<lparr>is_anonymous := ?anon\<rparr>))) (login_fails_ok W N) Q"
        using Q1 t by (simp add: s2_def s1_def sys_def Let_def)
    qed
    then show "ends ((\<lambda>((userdir, chroot, chdir), s).
      and_then (vsf_secutil_change_credentials W ?name userdir chroot caps options s) (\<lambda>s.
      let s = (if chdir \<noteq> [] then snd (sys W (EnterDir (c_str chdir)) s) else s) in
      Inr (LoggedIn T (s\<lparr>is_anonymous := ?anon\<rparr>)))) (x, s1\<lparr>trace := es @ trace s1\<rparr>)) (login_fails_ok W N) Q"
      by (simp add: x s2_def ends_and_then)
  qed
qed


text \<open>What the parent does between the right password and the fork.\<close>

definition same_client :: "vsf_session \<Rightarrow> vsf_session" where
  "same_client s = (core s)\<lparr>is_anonymous := True, is_guest := False, control_use_ssl := False, data_use_ssl := False\<rparr>"

definition joined :: "tunables \<Rightarrow> os \<Rightarrow> string \<Rightarrow> bool \<Rightarrow> bool \<Rightarrow> vsf_session \<Rightarrow> login_step \<Rightarrow> bool" where
  "joined T W user do_chroot anon p step \<longleftrightarrow>
     (\<exists>T' s es. step = LoggedIn T' s \<and> (tunable_user_config_dir T = None \<longrightarrow> T' = T) \<and>
        same_client s = same_client p \<and> user_str s = user_str p \<and>
        trace s = es @ trace p \<and> list_all entry es \<and>
        is_anonymous s = (anon \<or> is_remapped T' anon) \<and>
        confined W (runs_for T' anon user) (do_chroot \<or> is_remapped T' anon) (trace s))"

lemma joinedI:
  "tunable_user_config_dir T = None \<longrightarrow> T' = T \<Longrightarrow> trace s = es @ trace p \<Longrightarrow> list_all entry es \<Longrightarrow>
   confined W (runs_for T' anon user) (do_chroot \<or> is_remapped T' anon) (trace s) \<Longrightarrow>
   same_client s = same_client p \<Longrightarrow> user_str s = user_str p \<Longrightarrow>
   is_anonymous s = (anon \<or> is_remapped T' anon) \<Longrightarrow> joined T W user do_chroot anon p (LoggedIn T' s)"
  by (auto simp: joined_def)

lemma do_login_joined:
  assumes "calm N p"
  shows "ends (common_do_login T W user do_chroot anon p) (login_fails_ok W N) (joined T W user do_chroot anon p)"
proof -
  define q where "q = (if \<not> control_use_ssl p then snd (sys W WaitChild p) else p)"
  define qs where "qs = (if \<not> control_use_ssl p then [Sys WaitChild] else [])"
  have q: "q = p\<lparr>trace := qs @ trace p\<rparr>" "list_all entry qs" by (simp_all add: q_def qs_def sys_def)
  have cq: "calm N q" unfolding q(1) by (rule calm_entry [OF assms q(2)])
  have socket: "ends (and_then (sys_zero W ''socketpair'' SocketPair r) (\<lambda>s.
      and_then (if b then vsf_sysutil_fork_newnet W s else vsf_sysutil_fork W s) (\<lambda>(newpid, s).
      if newpid < 0 then die ''priv_sock_get_cmd'' s else login_child T' W user do_chroot anon s)))
      (login_fails_ok W N) (joined T W user do_chroot anon p)"
    if r: "r = p\<lparr>trace := es @ trace p, is_anonymous := anon\<rparr>" "list_all entry es"
      and T': "tunable_user_config_dir T = None \<longrightarrow> T' = T" for r es T' b
    unfolding ends_and_then
  proof (rule sys_zero_login)
    show "calm N r" using assms r by (simp add: calm_def)
    define t where "t = r\<lparr>trace := Sys SocketPair # trace r\<rparr>"
    have t: "t = p\<lparr>trace := Sys SocketPair # es @ trace p, is_anonymous := anon\<rparr>" by (simp add: t_def r(1))
    have ct: "calm N t" using assms r(2) by (simp add: t calm_def)
    show "ends (if b then vsf_sysutil_fork_newnet W t else vsf_sysutil_fork W t) (login_fails_ok W N)
      (\<lambda>x. ends (case x of (newpid, s) \<Rightarrow>
        if newpid < 0 then die ''priv_sock_get_cmd'' s else login_child T' W user do_chroot anon s)
        (login_fails_ok W N) (joined T W user do_chroot anon p))" unfolding t_def [symmetric]
    proof (rule fork_login [OF ct])
      fix k f fs
      assume f: "fork_event f" "list_all entry fs"
      define v where "v = t\<lparr>trace := f # fs @ trace t\<rparr>"
      have ef: "entry f" using f(1) by auto
      have cv: "calm N v" using calm_entry [OF ct, of "f # fs"] f(2) ef by (simp add: v_def)
      have "ends (login_child T' W user do_chroot anon v) (login_fails_ok W N) (joined T W user do_chroot anon p)"
      proof (rule login_child_login [OF cv])
        fix gs g u tr
        assume gs: "list_all entry gs" and u: "os_pwnam W tr (c_str (runs_for T' anon user)) = Some u"
          "runs_as u True (do_chroot \<or> is_remapped T' anon) (creds gs)"
        let ?s = "v\<lparr>is_guest := g, trace := gs @ trace v, is_anonymous := anon \<or> is_remapped T' anon\<rparr>"
        have "trace ?s = (gs @ f # fs @ Sys SocketPair # es) @ trace p" by (simp add: v_def t)
        moreover have "list_all entry (gs @ f # fs @ Sys SocketPair # es)" using gs f ef r(2) by simp
        moreover have "confined W (runs_for T' anon user) (do_chroot \<or> is_remapped T' anon) (trace ?s)"
          unfolding confined_def using u f(1) by (intro exI [of _ gs] exI [of _ f] exI conjI) (auto simp: v_def)
        moreover have "same_client ?s = same_client p" "user_str ?s = user_str p"
          "is_anonymous ?s = (anon \<or> is_remapped T' anon)"
          by (simp_all add: v_def t same_client_def core_def)
        ultimately show "joined T W user do_chroot anon p (LoggedIn T' ?s)"
          by (intro joinedI [OF T'])
      qed
      moreover have "ends (die ''priv_sock_get_cmd'' v) (login_fails_ok W N) (joined T W user do_chroot anon p)"
        by (rule die_login [OF cv]) simp
      ultimately show "ends (case (k, t\<lparr>trace := f # fs @ trace t\<rparr>) of (newpid, s) \<Rightarrow>
        if newpid < 0 then die ''priv_sock_get_cmd'' s else login_child T' W user do_chroot anon s)
        (login_fails_ok W N) (joined T W user do_chroot anon p)"
        unfolding v_def [symmetric] by simp
    qed
  qed simp_all
  show ?thesis
    unfolding common_do_login_def q_def [symmetric] Let_def ends_and_then [of "handle_per_user_config _ _ _ _"]
  proof (rule per_user_login [OF cq])
    fix T' es
    assume "list_all entry es" "tunable_user_config_dir T = None \<longrightarrow> T' = T"
    with socket [of _ "es @ qs" T'] q
    show "ends (case (T', q\<lparr>trace := es @ trace q\<rparr>) of (T, s) \<Rightarrow>
      and_then (sys_zero W ''socketpair'' SocketPair (s\<lparr>is_anonymous := anon\<rparr>)) (\<lambda>s.
      and_then (if tunable_isolate_network T \<and> \<not> tunable_port_promiscuous T
                then vsf_sysutil_fork_newnet W s else vsf_sysutil_fork W s) (\<lambda>(newpid, s).
      if newpid < 0 then die ''priv_sock_get_cmd'' s
      else login_child T W user do_chroot anon s))) (login_fails_ok W N) (joined T W user do_chroot anon p)"
      by simp
  qed
qed

end
