(* ===== verification/Login_Loop.thy ===== *)
theory Login_Loop
  imports Login_Join
begin

text \<open>
  The commands before the login: what they leave of the session, who may get through them, and how
  many passwords can be tried on one connection.
\<close>

subsection \<open>One request\<close>

abbreviation same_lists :: "vsf_session \<Rightarrow> vsf_session \<Rightarrow> bool" where
  "same_lists s t \<equiv> banned_email_str s = banned_email_str t \<and> email_passwords_str s = email_passwords_str t"

text \<open>
  A user who is let in, by what was asked for: as the anonymous user, with an address the lists allow, or
  as a local one with a right password, who may be a guest of this server.
\<close>

definition let_in :: "tunables \<Rightarrow> os \<Rightarrow> vsf_session \<Rightarrow> string \<Rightarrow> string \<Rightarrow> tunables \<Rightarrow> vsf_session \<Rightarrow> bool" where
  "let_in T W r user pass T' s \<longleftrightarrow>
     (if is_anonymous s \<and> user_str s = text_setting (tunable_ftp_username T) \<and> anon_ok T r user pass
      then \<not> tunable_one_process_model T \<longrightarrow> confined W (text_setting (tunable_ftp_username T)) True (trace s)
      else local_ok T W user pass \<and> user_str s = user \<and> \<not> tunable_one_process_model T \<and>
        confined W (runs_for T' False user)
          (is_anonymous s \<or> tunable_chroot_local_user T \<and> \<not> tunable_chroot_list_enable T) (trace s))"

definition settled :: "tunables \<Rightarrow> os \<Rightarrow> string \<Rightarrow> vsf_session \<Rightarrow> vsf_session \<Rightarrow> login_step \<Rightarrow> bool" where
  "settled T W pass c p step \<longleftrightarrow>
     (case step of
        Again c' p' \<Rightarrow> core c' = core c \<and> user_str c' = user_str c \<and> same_lists c' c \<and>
          same_client p' = same_client p \<and> same_lists p' p \<and>
          (\<exists>es. trace c' = es @ trace c \<and> list_all quiet es \<and> guesses es \<le> 1)
      | LoggedIn T' s \<Rightarrow>
          same_client s \<in> {same_client c, same_client p} \<and>
          (\<exists>es. trace s = es @ trace c \<and> list_all quiet es \<and> guesses es \<le> 1) \<and>
          (tunable_user_config_dir T = None \<longrightarrow> T' = T) \<and>
          (\<exists>r \<in> {c, p}. let_in T W r (user_str c) pass T' s))"

lemma core_same: "core s = core t \<Longrightarrow> same_client s = same_client t"
  by (simp add: same_client_def)

lemma joined_settled:
  assumes j: "joined T W user jail anon q step" and q: "trace q = es @ trace c" "list_all quiet es" "guesses es \<le> 1"
    and same: "same_client q = same_client p"
    and in_: "\<And>T' s. is_anonymous s = (anon \<or> is_remapped T' anon) \<Longrightarrow> user_str s = user_str q \<Longrightarrow>
      confined W (runs_for T' anon user) (jail \<or> is_remapped T' anon) (trace s) \<Longrightarrow> let_in T W p (user_str c) pass T' s"
  shows "settled T W pass c p step"
proof -
  obtain T' s fs where s: "step = LoggedIn T' s" "tunable_user_config_dir T = None \<longrightarrow> T' = T"
      "same_client s = same_client q" "user_str s = user_str q" "trace s = fs @ trace q" "list_all entry fs"
      "is_anonymous s = (anon \<or> is_remapped T' anon)"
      "confined W (runs_for T' anon user) (jail \<or> is_remapped T' anon) (trace s)"
    using j unfolding joined_def by (elim exE conjE) (rule that)
  have "trace s = (fs @ es) @ trace c" "list_all quiet (fs @ es)" "guesses (fs @ es) \<le> 1"
    using s(5,6) q by simp_all
  moreover have "let_in T W p (user_str c) pass T' s" by (rule in_ [OF s(7,4,8)])
  ultimately show ?thesis using s(1-3) same by (auto simp: settled_def)
qed

lemma answered_cases:
  assumes "answered T W pass s (r, s')"
  shows "core s' = core s" "\<exists>es. trace s' = es @ trace s \<and> list_all quiet es \<and> guesses es \<le> 1" "r \<noteq> kVSFLoginNull"
    "r = kVSFLoginFail \<Longrightarrow> user_str s' = user_str s \<and> same_lists s' s"
    "r = kVSFLoginAnon \<Longrightarrow> anon_ok T s (user_str s) pass \<and> user_str s' = text_setting (tunable_ftp_username T)"
    "r = kVSFLoginReal \<Longrightarrow> local_ok T W (user_str s) pass \<and> user_str s' = user_str s"
  using assms by (auto simp: answered_def)

lemma process_login_req_settled:
  assumes "list_all quiet (trace c)" "guesses (trace c) < N" "log_type p = 0" "\<not> tunable_one_process_model T"
    and "tunable_local_enable T \<or> tunable_anonymous_enable T \<and> anonymous_name (user_str c)"
  shows "ends (process_login_req T W pass c p) (login_fails_ok W N) (settled T W pass c p)"
proof -
  define q where "q = p\<lparr>trace := trace c, user_str := user_str c,
                control_use_ssl := control_use_ssl c \<and> tunable_ssl_enable T,
                data_use_ssl := data_use_ssl c \<and> tunable_ssl_enable T\<rparr>"
  have q: "trace q = trace c" "user_str q = user_str c" "same_client q = same_client p" "same_lists q p" "log_type q = 0"
    using assms(3) by (simp_all add: q_def same_client_def core_def)
  have aq: "anon_ok T q = anon_ok T p" using q(4) by (simp add: anon_ok_def fun_eq_iff)
  show ?thesis unfolding process_login_req_def q_def [symmetric] Let_def
  proof (rule ends_bind2I [where P = "\<lambda>r s'. answered T W pass q (r, s')"], use do_login_answered [of q N T W pass] assms q in simp,
      unfold split_conv)
    fix r s'
    assume "answered T W pass q (r, s')"
    note a = answered_cases [OF this, unfolded q(1,2) aq]
    from a(2) obtain es where es: "trace s' = es @ trace c" "list_all quiet es" "guesses es \<le> 1" by blast
    have same: "same_client s' = same_client p" using core_same [OF a(1)] q(3) by simp
    have calm: "calm N s'" using es assms(1,2) by (simp add: calm_def)
    show "ends (case r of kVSFLoginNull \<Rightarrow> bug ''weird state in process_login_request'' s'
      | kVSFLoginFail \<Rightarrow> Inr (Again (c\<lparr>trace := trace s'\<rparr>) s')
      | kVSFLoginAnon \<Rightarrow> common_do_login T W (user_str (s'\<lparr>user_str := text_setting (tunable_ftp_username T)\<rparr>)) True True
          (s'\<lparr>user_str := text_setting (tunable_ftp_username T)\<rparr>)
      | kVSFLoginReal \<Rightarrow> and_then (local_chroot T W (user_str s') s') (\<lambda>(do_chroot, p).
          common_do_login T W (user_str p) do_chroot False p)) (login_fails_ok W N) (settled T W pass c p)"
    proof (cases r)
      case kVSFLoginNull
      then show ?thesis using a(3) by simp
    next
      case kVSFLoginFail
      with a(4) es same q(4) show ?thesis by (auto simp: settled_def core_def)
    next
      case kVSFLoginAnon
      let ?t = "s'\<lparr>user_str := text_setting (tunable_ftp_username T)\<rparr>"
      have "calm N ?t" using calm by (simp add: calm_def)
      from do_login_joined [OF this, of T W "user_str ?t" True True]
      have "ends (common_do_login T W (user_str ?t) True True ?t) (login_fails_ok W N) (settled T W pass c p)"
      proof (rule ends_conseq)
        fix step
        assume "joined T W (user_str ?t) True True ?t step"
        then show "settled T W pass c p step"
        proof (rule joined_settled)
          show "same_client ?t = same_client p" using same by (simp add: same_client_def core_def)
        qed (use es a(5) kVSFLoginAnon assms(4) in \<open>auto simp: let_in_def runs_for_def\<close>)
      qed
      with kVSFLoginAnon show ?thesis by simp
    next
      case kVSFLoginReal
      have "ends (local_chroot T W (user_str s') s') (login_fails_ok W N)
        (\<lambda>(do_chroot, p'). ends (common_do_login T W (user_str p') do_chroot False p') (login_fails_ok W N) (settled T W pass c p))"
      proof (rule chroot_list_login [OF calm], unfold split_conv)
        fix b fs
        assume fs: "list_all entry fs" and b: "\<not> tunable_chroot_list_enable T \<longrightarrow> b = tunable_chroot_local_user T"
        let ?t = "s'\<lparr>trace := fs @ trace s'\<rparr>"
        have t: "calm N ?t" by (rule calm_entry [OF calm fs])
        show "ends (common_do_login T W (user_str ?t) b False ?t) (login_fails_ok W N) (settled T W pass c p)"
        proof (rule ends_conseq [OF do_login_joined [OF t]])
          fix step
          assume "joined T W (user_str ?t) b False ?t step"
          then show "settled T W pass c p step"
          proof (rule joined_settled)
            show "same_client ?t = same_client p" using same by (simp add: same_client_def core_def)
            show "trace ?t = (fs @ es) @ trace c" "list_all quiet (fs @ es)" "guesses (fs @ es) \<le> 1"
              using es fs by simp_all
            fix T' and s :: vsf_session
            assume s: "is_anonymous s = (False \<or> is_remapped T' False)" "user_str s = user_str ?t"
              "confined W (runs_for T' False (user_str ?t)) (b \<or> is_remapped T' False) (trace s)"
            from a(6) kVSFLoginReal have l: "local_ok T W (user_str c) pass" "user_str s' = user_str c" by simp_all
            then have "\<not> anon_ok T p (user_str c) pass" by (auto simp: local_ok_def anon_ok_def)
            moreover have "confined W (runs_for T' False (user_str c))
                (is_anonymous s \<or> tunable_chroot_local_user T \<and> \<not> tunable_chroot_list_enable T) (trace s)"
              using s(3) l(2) b s(1) unfolding confined_def runs_as_def by fastforce
            ultimately show "let_in T W p (user_str c) pass T' s"
              using s(1,2) l assms(4) by (simp add: let_in_def)
          qed
        qed
      qed
      with kVSFLoginReal show ?thesis by (simp add: ends_and_then ends_prod)
    qed
  qed
qed

lemma one_process_login_settled:
  assumes "list_all quiet (trace c)" "guesses (trace c) < N" "log_type c = 0" "tunable_one_process_model T"
    and "\<not> tunable_local_enable T" "tunable_anonymous_enable T" "anonymous_name (user_str c)"
  shows "ends (vsf_one_process_login T W pass c p) (login_fails_ok W N) (settled T W pass c p)"
  unfolding vsf_one_process_login_def
proof (rule ends_bind2I [where P = "\<lambda>r s'. answered T W pass c (r, s')"], use do_login_answered [of c N T W pass] assms in simp,
    unfold split_conv)
  fix r s'
  assume "answered T W pass c (r, s')"
  note a = answered_cases [OF this]
  from a(2) obtain es where es: "trace s' = es @ trace c" "list_all quiet es" "guesses es \<le> 1" by blast
  have "r \<noteq> kVSFLoginReal" using a(6) assms(5) by (auto simp: local_ok_def)
  with a es assms(4) core_same [OF a(1)]
  show "ends (case r of kVSFLoginFail \<Rightarrow> Inr (Again s' p)
     | kVSFLoginAnon \<Rightarrow> Inr (LoggedIn T (s'\<lparr>is_anonymous := True\<rparr>))
     | _ \<Rightarrow> bug ''bad state in vsf_one_process_login'' s') (login_fails_ok W N) (settled T W pass c p)"
    by (cases r) (auto simp: settled_def let_in_def same_client_def core_def)
qed

subsection \<open>Between the commands\<close>

text \<open>What no command before the login changes.\<close>

definition fixed :: "vsf_session \<Rightarrow> vsf_session" where
  "fixed s = (same_client s)\<lparr>ftp_cmd_str := [], ftp_arg_str := [], login_fails := 0, is_http := False,
     http_get_arg := [], banner_str := [], userlist_str := []\<rparr>"

definition web_ok :: "tunables \<Rightarrow> vsf_session \<Rightarrow> bool" where
  "web_ok T s \<longleftrightarrow>
     (is_http s \<longrightarrow> tunable_http_enable T \<and> \<not> tunable_ftp_enable T) \<and>
     NUL \<notin> set (http_get_arg s) \<and> length (http_get_arg s) < VSFTP_MAX_COMMAND_LINE"

text \<open>What the client sent: a command with its argument.\<close>

definition said :: "input list \<Rightarrow> string \<Rightarrow> string \<Rightarrow> bool" where
  "said inputs cmd arg \<longleftrightarrow> (\<exists>raw. Line raw \<in> set inputs \<and> split_command (control_getline raw) = (cmd, arg))"

definition user_listed :: "tunables \<Rightarrow> vsf_session \<Rightarrow> string \<Rightarrow> bool" where
  "user_listed T r user \<longleftrightarrow>
     (tunable_userlist_enable T \<longrightarrow> (user \<in> set (s_lines (userlist_str r)) \<longleftrightarrow> \<not> tunable_userlist_deny T))"

definition asked :: "tunables \<Rightarrow> input list \<Rightarrow> vsf_session \<Rightarrow> string \<Rightarrow> string \<Rightarrow> bool" where
  "asked T inputs r user pass \<longleftrightarrow>
     (if tunable_ftp_enable T
      then said inputs ''USER'' user \<and> user_listed T r user \<and>
        (said inputs ''PASS'' pass \<or> tunable_no_anon_password T \<and> anonymous_name user)
      else tunable_http_enable T \<and> user = ''FTP'')"

text \<open>Settings the server does not refuse at its start.\<close>

definition sane :: "tunables \<Rightarrow> bool" where
  "sane T \<longleftrightarrow> (tunable_local_enable T \<or> tunable_anonymous_enable T) \<and>
     (tunable_one_process_model T \<longrightarrow> \<not> tunable_local_enable T) \<and> tunable_max_login_fails T < 2 ^ 32"

definition named :: "tunables \<Rightarrow> input list \<Rightarrow> vsf_session \<Rightarrow> string \<Rightarrow> bool" where
  "named T inputs r user \<longleftrightarrow>
     tunable_ftp_enable T \<and> said inputs ''USER'' user \<and> user_listed T r user \<and>
     (tunable_local_enable T \<or> anonymous_name user)"

text \<open>Between two commands: each failed check was counted, and the count is below its limit.\<close>

definition kept_here :: "tunables \<Rightarrow> vsf_session \<Rightarrow> vsf_session \<Rightarrow> vsf_session \<Rightarrow> bool" where
  "kept_here T r c p \<longleftrightarrow>
     fixed c = fixed r \<and> fixed p = fixed r \<and> same_lists c r \<and> same_lists p r \<and> userlist_str c = userlist_str r \<and>
     list_all quiet (trace c) \<and> guesses (trace c) \<le> login_fails c \<and>
     (login_fails c = 0 \<or> login_fails c < tunable_max_login_fails T) \<and> web_ok T c \<and> web_ok T p"

definition waiting :: "tunables \<Rightarrow> input list \<Rightarrow> vsf_session \<Rightarrow> vsf_session \<Rightarrow> vsf_session \<Rightarrow> bool" where
  "waiting T inputs r c p \<longleftrightarrow> kept_here T r c p \<and> (user_str c = [] \<or> named T inputs r (user_str c))"

definition most_guesses :: "tunables \<Rightarrow> nat" where
  "most_guesses T = max 1 (tunable_max_login_fails T)"

definition through :: "tunables \<Rightarrow> os \<Rightarrow> input list \<Rightarrow> vsf_session \<Rightarrow> login_step \<Rightarrow> bool" where
  "through T W inputs r step \<longleftrightarrow>
     (case step of
        Again c p \<Rightarrow> waiting T inputs r c p
      | LoggedIn T' s \<Rightarrow>
          (\<exists>user pass. asked T inputs r user pass \<and> let_in T W r user pass T' s) \<and>
          (tunable_user_config_dir T = None \<longrightarrow> T' = T) \<and> fixed s = fixed r \<and> web_ok T s \<and>
          list_all quiet (trace s) \<and> guesses (trace s) \<le> most_guesses T)"

lemma fixed_log_type:
  assumes "fixed s = fixed r"
  shows "log_type s = log_type r"
  using arg_cong [OF assms, of log_type] by (simp add: fixed_def same_client_def core_def)

lemma fixed_same: "same_client s = same_client t \<Longrightarrow> fixed s = fixed t"
  by (simp add: fixed_def)

lemma same_client_web:
  assumes "same_client s = same_client t"
  shows "web_ok T s = web_ok T t" "userlist_str s = userlist_str t" "login_fails s = login_fails t"
  using arg_cong [OF assms, of is_http] arg_cong [OF assms, of http_get_arg] arg_cong [OF assms, of userlist_str]
    arg_cong [OF assms, of login_fails]
  by (simp_all add: web_ok_def same_client_def core_def)

lemma let_in_lists: "same_lists r r' \<Longrightarrow> let_in T W r = let_in T W r'"
  by (simp add: let_in_def anon_ok_def fun_eq_iff)

lemma fixed_updates [simp]:
  "fixed (s\<lparr>trace := x\<rparr>) = fixed s" "fixed (s\<lparr>user_str := t\<rparr>) = fixed s" "fixed (s\<lparr>login_fails := n\<rparr>) = fixed s"
  "fixed (s\<lparr>ftp_cmd_str := t\<rparr>) = fixed s" "fixed (s\<lparr>ftp_arg_str := t\<rparr>) = fixed s"
  "fixed (s\<lparr>is_http := b\<rparr>) = fixed s" "fixed (s\<lparr>http_get_arg := t\<rparr>) = fixed s" "fixed (s\<lparr>banner_str := t\<rparr>) = fixed s"
  "fixed (s\<lparr>userlist_str := t\<rparr>) = fixed s"
  by (simp_all add: fixed_def same_client_def core_def)

lemma kept_calm:
  assumes "kept_here T r c p"
  shows "calm (most_guesses T) c" "guesses (trace c) < most_guesses T"
  using assms by (auto simp: kept_here_def calm_def most_guesses_def)

lemma kept_io:
  "kept_here T r c p \<Longrightarrow> list_all quiet es \<Longrightarrow> guesses es = 0 \<Longrightarrow> kept_here T r (c\<lparr>trace := es @ trace c\<rparr>) p"
  by (simp add: kept_here_def web_ok_def)

lemma kept_fields [simp]:
  "kept_here T r (c\<lparr>user_str := t\<rparr>) p = kept_here T r c p"
  "kept_here T r (c\<lparr>ftp_arg_str := t\<rparr>) p = kept_here T r c p"
  "kept_here T r (c\<lparr>ftp_cmd_str := t\<rparr>) p = kept_here T r c p"
  "kept_here T r (c\<lparr>banner_str := t\<rparr>) p = kept_here T r c p"
  by (simp_all add: kept_here_def web_ok_def)

lemma write_then:
  assumes "kept_here T r c p"
    and "\<And>c'. kept_here T r c' p \<Longrightarrow> user_str c' = user_str c \<Longrightarrow> ends (k c') (login_fails_ok W (most_guesses T)) Q"
  shows "ends (and_then (vsf_cmdio_write T W status t c) k) (login_fails_ok W (most_guesses T)) Q"
  unfolding ends_and_then
  by (rule talks_ends [OF talks_write(1) kept_calm(1) [OF assms(1)]], rule assms(2), rule kept_io [OF assms(1)]) simp_all

lemma check_fails_login:
  assumes "sane T" "fixed c = fixed r" "fixed p = fixed r" "same_lists c r" "same_lists p r" "userlist_str c = userlist_str r"
    and "list_all quiet (trace c)" "guesses (trace c) \<le> login_fails c + 1" "guesses (trace c) \<le> most_guesses T"
    and "login_fails c = 0 \<or> login_fails c < tunable_max_login_fails T" "web_ok T c" "web_ok T p"
    and Q: "\<And>c'. kept_here T r c' p \<Longrightarrow> Q c'"
  shows "ends (check_login_fails T W c) (login_fails_ok W (most_guesses T)) Q"
proof -
  let ?c = "c\<lparr>login_fails := login_fails c + 1\<rparr>"
  have "uint_wrap (login_fails c + 1) = login_fails c + 1"
    using assms(1,10) by (auto simp: sane_def uint_wrap_def)
  moreover have "Q ?c" if "login_fails c + 1 < tunable_max_login_fails T"
    by (rule Q) (use assms(2-12) that in \<open>simp add: kept_here_def web_ok_def\<close>)
  ultimately show ?thesis
    using assms(7,9) by (simp add: check_login_fails_def Let_def vsf_sysutil_exit_def sys_def)
qed

subsection \<open>PASS\<close>

lemma settled_in:
  assumes k: "kept_here T r c p" and s: "settled T W pass c p (LoggedIn T' s)" and a: "asked T inputs r (user_str c) pass"
  shows "through T W inputs r (LoggedIn T' s)"
proof -
  from s obtain r' es where r': "r' \<in> {c, p}" "let_in T W r' (user_str c) pass T' s"
    and es: "trace s = es @ trace c" "list_all quiet es" "guesses es \<le> 1"
    and T': "tunable_user_config_dir T = None \<longrightarrow> T' = T" and same: "same_client s \<in> {same_client c, same_client p}"
    by (auto simp: settled_def)
  have l: "same_lists c r" "same_lists p r" "fixed c = fixed r" "fixed p = fixed r" "web_ok T c" "web_ok T p"
    "list_all quiet (trace c)"
    using k by (simp_all add: kept_here_def)
  have "let_in T W r (user_str c) pass T' s" using r' let_in_lists [OF l(1)] let_in_lists [OF l(2)] by auto
  moreover have "fixed s = fixed r" "web_ok T s"
    using same fixed_same [of s c] fixed_same [of s p] same_client_web(1) [of s c] same_client_web(1) [of s p] l by auto
  moreover have "list_all quiet (trace s)" "guesses (trace s) \<le> most_guesses T"
    using es l(7) kept_calm(2) [OF k] by auto
  ultimately show ?thesis using a T' by (auto simp: through_def)
qed

lemma settled_again:
  assumes t: "sane T" and k: "kept_here T r c p" and s: "settled T W pass c p (Again c' p')"
  shows "ends (and_then (vsf_cmdio_write T W FTP_LOGINERR text c') (\<lambda>c. and_then (check_login_fails T W c) (\<lambda>c.
    Inr (Again (c\<lparr>user_str := []\<rparr>) p')))) (login_fails_ok W (most_guesses T)) (through T W inputs r)"
proof -
  from s obtain es where es: "trace c' = es @ trace c" "list_all quiet es" "guesses es \<le> 1"
    and same: "core c' = core c" "same_client p' = same_client p" "same_lists c' c" "same_lists p' p"
    by (auto simp: settled_def)
  have l: "same_lists c r" "same_lists p r" "fixed c = fixed r" "fixed p = fixed r" "web_ok T c" "web_ok T p"
    "list_all quiet (trace c)" "userlist_str c = userlist_str r"
    "login_fails c = 0 \<or> login_fails c < tunable_max_login_fails T" "guesses (trace c) \<le> login_fails c"
    using k by (simp_all add: kept_here_def)
  note w = same_client_web [OF core_same [OF same(1)]] same_client_web(1) [OF same(2)]
  have c': "calm (most_guesses T) c'"
    using es l(7) kept_calm(2) [OF k] by (simp add: calm_def)
  show ?thesis unfolding ends_and_then
  proof (rule talks_ends [OF talks_write(1) c'], rule check_fails_login [OF t, of _ r p'])
    fix fs
    assume fs: "list_all io_event fs"
    let ?c = "c'\<lparr>trace := fs @ trace c'\<rparr>"
    show "fixed ?c = fixed r" "fixed p' = fixed r"
      using fixed_same [OF core_same [OF same(1)]] fixed_same [OF same(2)] l by simp_all
    show "same_lists ?c r" "same_lists p' r" "userlist_str ?c = userlist_str r" "web_ok T ?c" "web_ok T p'"
      using same l w by (simp_all add: web_ok_def)
    show "list_all quiet (trace ?c)" "guesses (trace ?c) \<le> login_fails ?c + 1" "guesses (trace ?c) \<le> most_guesses T"
      "login_fails ?c = 0 \<or> login_fails ?c < tunable_max_login_fails T"
      using es fs l w c' by (simp_all add: calm_def)
    fix d
    assume "kept_here T r d p'"
    then show "ends (Inr (Again (d\<lparr>user_str := []\<rparr>) p')) (login_fails_ok W (most_guesses T)) (through T W inputs r)"
      by (simp add: through_def waiting_def)
  qed
qed

lemma handle_pass_through:
  assumes t: "sane T" "log_type r = 0" and k: "kept_here T r c p"
    and a: "user_str c \<noteq> [] \<Longrightarrow> asked T inputs r (user_str c) (ftp_arg_str c) \<and> (tunable_local_enable T \<or> anonymous_name (user_str c))"
  shows "ends (handle_pass_command T W c p) (login_fails_ok W (most_guesses T)) (through T W inputs r)"
proof (cases "user_str c = []")
  case True
  show ?thesis unfolding handle_pass_command_def if_P [OF True]
    by (rule write_then [OF k]) (simp add: through_def waiting_def True)
next
  case False
  have lt: "log_type c = 0" "log_type p = 0"
    using k fixed_log_type [of c r] fixed_log_type [of p r] t(2) by (simp_all add: kept_here_def)
  have q: "list_all quiet (trace c)" using k by (simp add: kept_here_def)
  have may: "tunable_local_enable T \<or> tunable_anonymous_enable T \<and> anonymous_name (user_str c)"
    using a [OF False] t(1) by (auto simp: sane_def)
  have "ends (if tunable_one_process_model T then vsf_one_process_login T W (ftp_arg_str c) c p
      else vsf_two_process_login T W (ftp_arg_str c) c p) (login_fails_ok W (most_guesses T)) (settled T W (ftp_arg_str c) c p)"
    using process_login_req_settled [OF q kept_calm(2) [OF k] lt(2) _ may]
      one_process_login_settled [OF q kept_calm(2) [OF k] lt(1)] t(1) may
    by (auto simp: sane_def vsf_two_process_login_def)
  then show ?thesis unfolding handle_pass_command_def if_not_P [OF False]
  proof (rule ends_bindI)
    fix step
    assume s: "settled T W (ftp_arg_str c) c p step"
    show "ends (case step of LoggedIn T s \<Rightarrow> Inr (LoggedIn T s)
       | Again c p \<Rightarrow> and_then (vsf_cmdio_write T W FTP_LOGINERR ''Login incorrect.'' c) (\<lambda>c.
            and_then (check_login_fails T W c) (\<lambda>c. Inr (Again (c\<lparr>user_str := []\<rparr>) p))))
       (login_fails_ok W (most_guesses T)) (through T W inputs r)"
    proof (cases step)
      case (Again c' p')
      with settled_again [OF t(1) k] s show ?thesis by simp
    next
      case (LoggedIn T' s')
      with settled_in [OF k] s a [OF False] show ?thesis by simp
    qed
  qed
qed

subsection \<open>The other commands\<close>

lemma check_fails_kept:
  assumes "sane T" "kept_here T r c p" "\<And>c'. kept_here T r c' p \<Longrightarrow> Q c'"
  shows "ends (check_login_fails T W c) (login_fails_ok W (most_guesses T)) Q"
  by (rule check_fails_login [OF assms(1), of _ r p])
    (use assms(2,3) kept_calm(1) [OF assms(2)] in \<open>simp_all add: kept_here_def calm_def\<close>)

lemma write_exit_login:
  assumes "calm N c"
  shows "ends (vsf_cmdio_write_exit T W status t n c) (login_fails_ok W N) Q"
  unfolding vsf_cmdio_write_exit_def ends_and_then
  by (rule talks_ends [OF talks_write(1) assms], rule exit_login) (use assms in \<open>simp add: calm_def\<close>)

lemma user_refused_through:
  assumes "kept_here T r c p"
  shows "ends (user_refused T W reply c p) (login_fails_ok W (most_guesses T)) (through T W inputs r)"
  unfolding user_refused_def by (rule write_then [OF assms]) (simp add: through_def waiting_def)

lemma handle_user_through:
  assumes t: "sane T" "log_type r = 0" and k: "kept_here T r c p"
    and f: "tunable_ftp_enable T" and u: "said inputs ''USER'' (ftp_arg_str c)"
  shows "ends (handle_user_command T W c p) (login_fails_ok W (most_guesses T)) (through T W inputs r)"
proof -
  define user where "user = ftp_arg_str c"
  define c1 where "c1 = c\<lparr>user_str := user, ftp_arg_str := s_upper user\<rparr>"
  have k1: "kept_here T r c1 p" using k by (simp add: c1_def)
  have c1: "user_str c1 = user" "ftp_arg_str c1 = s_upper user" "userlist_str c1 = userlist_str r"
    using k by (simp_all add: c1_def kept_here_def)
  have exit: "ends (vsf_cmdio_write_exit T W FTP_LOGINERR m 1 c1) (login_fails_ok W (most_guesses T)) (through T W inputs r)" for m
    by (rule write_exit_login [OF kept_calm(1) [OF k1]])
  have delay: "kept_here T r (check_login_delay T W c1) p"
    using kept_io [OF k1, of "[Sys Sleep]"] k1 by (simp add: check_login_delay_def pause_def sys_def)
  have denied: "ends (and_then (vsf_cmdio_write T W FTP_LOGINERR ''Permission denied.'' (check_login_delay T W c1)) (\<lambda>c.
      and_then (check_login_fails T W c) (\<lambda>c. Inr (Again (c\<lparr>user_str := []\<rparr>) p))))
      (login_fails_ok W (most_guesses T)) (through T W inputs r)"
  proof (rule write_then [OF delay], unfold ends_and_then, rule check_fails_kept [OF t(1)], assumption)
    fix d
    assume "kept_here T r d p"
    then show "ends (Inr (Again (d\<lparr>user_str := []\<rparr>) p)) (login_fails_ok W (most_guesses T)) (through T W inputs r)"
      by (simp add: through_def waiting_def)
  qed
  have listed: "user_listed T r user" if "\<not> (tunable_userlist_enable T \<and>
      ((user_str c1 \<in> set (s_lines (userlist_str c1))) \<longleftrightarrow> tunable_userlist_deny T))"
    using that c1 by (auto simp: user_listed_def)
  have no_password: "ends (handle_pass_command T W (c1\<lparr>ftp_arg_str := ''<no password>''\<rparr>) p)
      (login_fails_ok W (most_guesses T)) (through T W inputs r)"
    if "user_listed T r user" "anonymous_name user" "tunable_no_anon_password T"
    by (rule handle_pass_through [OF t]) (use k1 that f u c1 in \<open>simp_all add: asked_def user_def\<close>)
  have ask: "ends (and_then (vsf_cmdio_write T W FTP_GIVEPWORD ''Please specify the password.'' c1) (\<lambda>c. Inr (Again c p)))
      (login_fails_ok W (most_guesses T)) (through T W inputs r)"
    if "user_listed T r user" "tunable_local_enable T \<or> anonymous_name user"
    by (rule write_then [OF k1]) (use that f u c1 in \<open>simp add: through_def waiting_def named_def user_def\<close>)
  have an: "(ftp_arg_str c1 = ''FTP'' \<or> ftp_arg_str c1 = ''ANONYMOUS'') = anonymous_name user"
    by (simp add: c1 anonymous_name_def)
  show ?thesis
    unfolding handle_user_command_def user_def [symmetric] Let_def
    unfolding c1_def [symmetric] an
    using user_refused_through [OF k1] exit denied listed no_password ask by (simp add: ends_if)
qed

lemma handle_get_through:
  assumes t: "sane T" "log_type r = 0" and k: "kept_here T r c p"
    and f: "\<not> tunable_ftp_enable T" "tunable_http_enable T"
    and a: "NUL \<notin> set (ftp_arg_str c)" "length (ftp_arg_str c) < VSFTP_MAX_COMMAND_LINE"
  shows "ends (handle_get T W c p) (login_fails_ok W (most_guesses T)) (through T W inputs r)"
  unfolding handle_get_def
proof (rule handle_pass_through [OF t])
  show "kept_here T r (c\<lparr>is_http := True, http_get_arg := ftp_arg_str c, user_str := ''FTP'', ftp_arg_str := ''<http>''\<rparr>) p"
    using k f a by (simp add: kept_here_def web_ok_def)
qed (use f in \<open>simp_all add: asked_def anonymous_name_def s_upper_def vsf_sysutil_toupper_def\<close>)

lemma again_through:
  assumes "waiting T inputs r c p" "talks m c"
  shows "ends (and_then m (\<lambda>c. Inr (Again c p))) (login_fails_ok W (most_guesses T)) (through T W inputs r)"
proof -
  have k: "kept_here T r c p" using assms(1) by (simp add: waiting_def)
  show ?thesis unfolding ends_and_then
    by (rule talks_ends [OF assms(2) kept_calm(1) [OF k]]) (use assms(1) kept_io [OF k] in \<open>simp add: through_def waiting_def\<close>)
qed

lemma talks_feat: "talks (handle_feat T W c) c"
  unfolding handle_feat_def
  by (intro talks_seq talks_write talks_raws) (use feat_texts [of T] in \<open>simp add: list_all_iff\<close>)

lemma opts_through:
  assumes "waiting T inputs r c p"
  shows "ends (and_then (handle_opts T W c) (\<lambda>c. Inr (Again c p))) (login_fails_ok W (most_guesses T)) (through T W inputs r)"
proof -
  let ?c = "c\<lparr>ftp_arg_str := s_upper (ftp_arg_str c)\<rparr>"
  have "waiting T inputs r ?c p" using assms by (simp add: waiting_def)
  moreover have "talks (handle_opts T W c) ?c"
    unfolding handle_opts_def Let_def by (rule if_split [THEN iffD2]) (intro conjI impI talks_write)
  ultimately show ?thesis by (rule again_through)
qed

lemma login_command_through:
  assumes t: "sane T" "log_type r = 0" and w: "waiting T inputs r c p" and s: "said inputs cmd (ftp_arg_str c)"
    and a: "NUL \<notin> set (ftp_arg_str c)" "length (ftp_arg_str c) < VSFTP_MAX_COMMAND_LINE"
  shows "ends (login_command T W cmd c p) (login_fails_ok W (most_guesses T)) (through T W inputs r)"
proof -
  let ?E = "login_fails_ok W (most_guesses T)" and ?Q = "through T W inputs r"
  have k: "kept_here T r c p" using w by (simp add: waiting_def)
  have same: "ends (Inr (Again c p)) ?E ?Q" using w by (simp add: through_def)
  have pass: "ends (handle_pass_command T W c p) ?E ?Q" if "tunable_ftp_enable T" "cmd = ''PASS''"
    by (rule handle_pass_through [OF t k]) (use that w s in \<open>auto simp: waiting_def named_def asked_def\<close>)
  have ftp: "ends (login_command T W cmd c p) ?E ?Q" if f: "tunable_ftp_enable T"
    unfolding login_command_def Let_def if_P [OF f]
  proof (intro ends_ifI)
    show "ends (handle_user_command T W c p) ?E ?Q" if "cmd = ''USER''"
      by (rule handle_user_through [OF t k f]) (use s that in simp)
  qed (rule pass [OF f] same opts_through [OF w] again_through [OF w talks_feat] again_through [OF w talks_write(1)]
      write_exit_login [OF kept_calm(1) [OF k]]; assumption?)+
  have leave: "ends (case step of LoggedIn T s \<Rightarrow> Inr (LoggedIn T s) | Again c p \<Rightarrow> vsf_sysutil_exit 0 c) ?E ?Q"
    if "?Q step" for step
  proof (cases step)
    case (Again c' p')
    with that have "kept_here T r c' p'" by (simp add: through_def waiting_def)
    with Again exit_login [OF kept_calm(1)] show ?thesis by simp
  qed (use that in simp)
  have "ends (if cmd = ''GET'' then handle_get T W c p
      else and_then (vsf_cmdio_write T W FTP_LOGINERR ''Bad HTTP verb.'' c) (\<lambda>c. Inr (Again c p))) ?E ?Q"
    if "\<not> tunable_ftp_enable T" "tunable_http_enable T"
    using handle_get_through [OF t k that a] again_through [OF w talks_write(1)] by simp
  from ends_bindI [OF this leave] ftp same show ?thesis
    by (cases "tunable_ftp_enable T") (auto simp: login_command_def Let_def)
qed

subsection \<open>The loop\<close>

lemma read_login:
  assumes k: "kept_here T r c p" and i: "inp \<in> set inputs"
    and Q: "\<And>cmd arg c'. kept_here T r c' p \<Longrightarrow> user_str c' = user_str c \<Longrightarrow> said inputs cmd arg \<Longrightarrow>
      NUL \<notin> set arg \<Longrightarrow> length arg < VSFTP_MAX_COMMAND_LINE \<Longrightarrow> Q ((cmd, arg), c')"
  shows "ends (vsf_cmdio_get_cmd_and_arg T W inp c) (login_fails_ok W (most_guesses T)) Q"
proof (cases inp)
  case (Line raw)
  show ?thesis
  proof (cases "VSFTP_MAX_COMMAND_LINE \<le> length raw")
    case True
    with Line write_exit_login [OF kept_calm(1) [OF k]] show ?thesis
      by (simp add: vsf_cmdio_get_cmd_and_arg_def)
  next
    case False
    obtain cmd arg where ca: "split_command (control_getline raw) = (cmd, arg)"
      by (cases "split_command (control_getline raw)")
    have arg: "NUL \<notin> set arg" "length arg < VSFTP_MAX_COMMAND_LINE"
      using split_command_arg [OF ca] control_getline_text [of raw] control_getline_length [of raw] False
      by auto
    have said: "said inputs cmd arg" using i Line ca by (auto simp: said_def)
    have "ends (if tunable_log_ftp_protocol T then vsf_log_line T W kVSFLogEntryFTPInput t c else Inr c)
        (login_fails_ok W (most_guesses T)) (\<lambda>c'. Q ((cmd, arg), c'))" for t
      by (rule talks_ends [OF talks_log kept_calm(1) [OF k]], simp, rule Q [OF kept_io [OF k] _ said arg]) simp_all
    with Line False ca show ?thesis
      by (simp add: vsf_cmdio_get_cmd_and_arg_def ends_and_then del: not_le)
  qed
qed (use write_exit_login [OF kept_calm(1) [OF k]] exit_login [OF kept_calm(1) [OF k]]
  in \<open>simp_all add: vsf_cmdio_get_cmd_and_arg_def\<close>)

lemma parse_through:
  assumes t: "sane T" "log_type r = 0" and "waiting T inputs r c p" "set inps \<subseteq> set inputs"
  shows "ends (parse_username_password T W inps c p) (login_fails_ok W (most_guesses T))
    (\<lambda>(step, rest). through T W inputs r step)"
  using assms(3,4)
proof (induction inps arbitrary: c p)
  case Nil
  then show ?case by (simp add: through_def)
next
  case (Cons inp inps)
  have k: "kept_here T r c p" using Cons.prems(1) by (simp add: waiting_def)
  have i: "inp \<in> set inputs" using Cons.prems(2) by simp
  let ?E = "login_fails_ok W (most_guesses T)" and ?Q = "\<lambda>(step, rest). through T W inputs r step"
  have after_command: "ends (case step of LoggedIn T s \<Rightarrow> Inr (LoggedIn T s, inps)
      | Again c p \<Rightarrow> parse_username_password T W inps c p) ?E ?Q" if "through T W inputs r step" for step
    using that Cons.IH Cons.prems(2) by (cases step) (simp_all add: through_def)
  have command: "ends (and_then (login_command T W cmd (c'\<lparr>ftp_cmd_str := cmd, ftp_arg_str := arg\<rparr>) p) (\<lambda>step.
      case step of LoggedIn T s \<Rightarrow> Inr (LoggedIn T s, inps) | Again c p \<Rightarrow> parse_username_password T W inps c p)) ?E ?Q"
    if c': "kept_here T r c' p" "user_str c' = user_str c" and a: "said inputs cmd arg" "NUL \<notin> set arg"
      "length arg < VSFTP_MAX_COMMAND_LINE" for cmd arg c'
  proof (rule ends_bindI [OF login_command_through [OF t, where inputs = inputs]])
    show "waiting T inputs r (c'\<lparr>ftp_cmd_str := cmd, ftp_arg_str := arg\<rparr>) p"
      using c' Cons.prems(1) by (simp add: waiting_def)
  qed (use a after_command in simp_all)
  show ?case unfolding parse_username_password.simps ends_and_then [of "vsf_cmdio_get_cmd_and_arg _ _ _ _"]
  proof (rule read_login [OF k i])
    fix cmd arg c'
    assume "kept_here T r c' p" "user_str c' = user_str c" "said inputs cmd arg" "NUL \<notin> set arg"
      "length arg < VSFTP_MAX_COMMAND_LINE"
    from command [OF this] show "ends ((\<lambda>((cmd, arg), c).
      and_then (login_command T W cmd (c\<lparr>ftp_cmd_str := cmd, ftp_arg_str := arg\<rparr>) p) (\<lambda>step.
      case step of LoggedIn T s \<Rightarrow> Inr (LoggedIn T s, inps)
      | Again c p \<Rightarrow> parse_username_password T W inps c p)) ((cmd, arg), c')) ?E ?Q" by simp
  qed
qed

end
