(* ===== verification/Login_Start.thy ===== *)
theory Login_Start
  imports Login_Loop
begin

text \<open>
  The process of a client before its first command: what the preparations of \<open>main.c\<close> leave, and the
  start of the two process models. In the two process model the process that talks to the client before
  the login has given up its privileges.
\<close>

subsection \<open>The preparations\<close>

definition blank :: "vsf_session \<Rightarrow> vsf_session" where
  "blank s = s\<lparr>trace := [], anon_ftp_uid := 0, guest_user_uid := 0, anon_upload_chown_uid := 0, umask := 0,
     xferlog_fd := 0, vsftpd_log_fd := 0, banned_email_str := [], email_passwords_str := [], banner_str := []\<rparr>"

definition prepares :: "vsf_session \<Rightarrow> vsf_session \<Rightarrow> bool" where
  "prepares s s' \<longleftrightarrow> blank s' = blank s \<and> (\<exists>es. list_all entry es \<and> trace s' = es @ trace s)"

lemma prepares_refl [simp]: "prepares s s"
  unfolding prepares_def by (intro conjI refl exI [of _ "[]"]) simp_all

lemma prepares_trans:
  assumes "prepares s t" "prepares t u"
  shows "prepares s u"
proof -
  obtain es fs where "list_all entry es" "trace t = es @ trace s" "list_all entry fs" "trace u = fs @ trace t"
    using assms by (auto simp: prepares_def)
  then have "list_all entry (fs @ es) \<and> trace u = (fs @ es) @ trace s" by simp
  with assms show ?thesis unfolding prepares_def by metis
qed

lemma prepares_calm: "prepares s t \<Longrightarrow> calm N s \<Longrightarrow> calm N t"
  by (auto simp: prepares_def calm_def)

lemma prepares_event: "entry e \<Longrightarrow> prepares s (note_event e s)"
  unfolding prepares_def blank_def by (intro conjI exI [of _ "[e]"]) simp_all

lemma prepares_fields [simp]:
  "prepares s (t\<lparr>anon_ftp_uid := u\<rparr>) = prepares s t" "prepares s (t\<lparr>guest_user_uid := u\<rparr>) = prepares s t"
  "prepares s (t\<lparr>anon_upload_chown_uid := u\<rparr>) = prepares s t" "prepares s (t\<lparr>umask := m\<rparr>) = prepares s t"
  "prepares s (t\<lparr>xferlog_fd := u\<rparr>) = prepares s t" "prepares s (t\<lparr>vsftpd_log_fd := u\<rparr>) = prepares s t"
  "prepares s (t\<lparr>banned_email_str := x\<rparr>) = prepares s t" "prepares s (t\<lparr>email_passwords_str := x\<rparr>) = prepares s t"
  "prepares s (t\<lparr>banner_str := x\<rparr>) = prepares s t"
  by (simp_all add: prepares_def blank_def)

text \<open>A step of the preparations.\<close>

definition step_ok :: "os \<Rightarrow> vsf_session run \<Rightarrow> vsf_session \<Rightarrow> bool" where
  "step_ok W m s \<longleftrightarrow> (\<forall>N. calm N s \<longrightarrow> ends m (login_fails_ok W N) (prepares s))"

lemma step_okD: "step_ok W m s \<Longrightarrow> calm N s \<Longrightarrow> (\<And>s'. prepares s s' \<Longrightarrow> Q s') \<Longrightarrow> ends m (login_fails_ok W N) Q"
  unfolding step_ok_def by (blast intro: ends_conseq)

lemma step_ok_seq:
  assumes "step_ok W m s" "\<And>t. prepares s t \<Longrightarrow> step_ok W (k t) t"
  shows "step_ok W (and_then m k) s"
  unfolding step_ok_def ends_and_then
proof (intro allI impI)
  fix N
  assume s: "calm N s"
  show "ends m (login_fails_ok W N) (\<lambda>x. ends (k x) (login_fails_ok W N) (prepares s))"
  proof (rule step_okD [OF assms(1) s])
    fix t
    assume t: "prepares s t"
    show "ends (k t) (login_fails_ok W N) (prepares s)"
      by (rule step_okD [OF assms(2) [OF t] prepares_calm [OF t s]], rule prepares_trans [OF t])
  qed
qed

lemma step_ok_if: "(b \<Longrightarrow> step_ok W m s) \<Longrightarrow> (\<not> b \<Longrightarrow> step_ok W m' s) \<Longrightarrow> step_ok W (if b then m else m') s"
  by simp

lemma step_ok_nothing: "prepares s t \<Longrightarrow> step_ok W (Inr t) s"
  by (simp add: step_ok_def)

lemma step_ok_die: "known_die m \<Longrightarrow> prepares s t \<Longrightarrow> step_ok W (die m t) s"
  by (auto simp: step_ok_def intro: die_login prepares_calm)

lemma setting_uid_ok:
  assumes "p_text \<in> set login_die_prefixes"
    and k: "\<And>uid t u tr. name = Some u \<Longrightarrow> os_pwnam W tr (c_str u) \<noteq> None \<Longrightarrow> prepares s t \<Longrightarrow> step_ok W (k (uid, t)) s"
  shows "step_ok W (and_then (setting_uid W p_text name s) k) s"
proof (cases name)
  case None
  then show ?thesis using assms(1) by (auto simp: setting_uid_def step_ok_die die_def step_ok_def calm_def)
next
  case (Some u)
  let ?t = "note_event (Sys (Getpwnam (c_str u))) s"
  have t: "prepares s ?t" by (rule prepares_event) simp
  show ?thesis
  proof (cases "os_pwnam W (trace s) (c_str u)")
    case None
    have "step_ok W (die (die2_text p_text name) ?t :: vsf_session run) s" by (rule step_ok_die [OF _ t]) (use assms(1) in simp)
    with None Some show ?thesis by (simp add: setting_uid_def str_getpwnam_def die_def)
  next
    case (Some p)
    with k [OF \<open>name = Some u\<close> _ t, of "trace s" "pw_uid p"] \<open>name = Some u\<close> show ?thesis
      by (simp add: setting_uid_def str_getpwnam_def)
  qed
qed

lemma session_init_ok:
  assumes "calm N s"
    and Q: "\<And>s1 s'. s1 = s\<lparr>p_remote_addr := os_remote_addr W, p_local_addr := os_local_addr W\<rparr> \<Longrightarrow> prepares s1 s' \<Longrightarrow>
      os_remote_addr W \<noteq> Sa_Other \<Longrightarrow> os_local_addr W \<noteq> Sa_Other \<Longrightarrow>
      (tunable_anonymous_enable T \<longrightarrow> (\<exists>u tr. tunable_ftp_username T = Some u \<and> os_pwnam W tr (c_str u) \<noteq> None)) \<Longrightarrow> Q s'"
  shows "ends (session_init T W s) (login_fails_ok W N) Q"
proof (cases "os_remote_addr W = Sa_Other \<or> os_local_addr W = Sa_Other")
  case True
  then show ?thesis using assms(1) by (auto simp: session_init_def intro!: die_login)
next
  case False
  define s1 where "s1 = s\<lparr>p_remote_addr := os_remote_addr W, p_local_addr := os_local_addr W\<rparr>"
  have c1: "calm N s1" using assms(1) by (simp add: s1_def calm_def)
  have chown: "step_ok W (if tunable_chown_uploads T
      then and_then (setting_uid W ''vsftpd: cannot locate user specified in 'chown_username':''
             (tunable_chown_username T) t) (\<lambda>(uid, s). Inr (s\<lparr>anon_upload_chown_uid := uid\<rparr>)) else Inr t) t" for t
    by (intro step_ok_if setting_uid_ok) (simp_all add: login_die_prefixes_def step_ok_nothing)
  have guest: "step_ok W (if tunable_guest_enable T
      then and_then (setting_uid W ''vsftpd: cannot locate user specified in 'guest_username':''
             (tunable_guest_username T) t) (\<lambda>(uid, s). Inr (s\<lparr>guest_user_uid := uid\<rparr>)) else Inr t) t" for t
    by (intro step_ok_if setting_uid_ok) (simp_all add: login_die_prefixes_def step_ok_nothing)
  define rest where "rest = (\<lambda>t. and_then (if tunable_guest_enable T
      then and_then (setting_uid W ''vsftpd: cannot locate user specified in 'guest_username':''
             (tunable_guest_username T) t) (\<lambda>(uid, s). Inr (s\<lparr>guest_user_uid := uid\<rparr>)) else Inr t)
    (\<lambda>t. if tunable_chown_uploads T
      then and_then (setting_uid W ''vsftpd: cannot locate user specified in 'chown_username':''
             (tunable_chown_username T) t) (\<lambda>(uid, s). Inr (s\<lparr>anon_upload_chown_uid := uid\<rparr>)) else Inr t))"
  have rest: "step_ok W (rest t) t" for t
    unfolding rest_def by (rule step_ok_seq [OF guest chown])
  have fin: "ends (rest t) (login_fails_ok W N) Q" if t: "prepares s1 t"
    and "tunable_anonymous_enable T \<longrightarrow> (\<exists>u tr. tunable_ftp_username T = Some u \<and> os_pwnam W tr (c_str u) \<noteq> None)" for t
    by (rule step_okD [OF rest prepares_calm [OF t c1]], rule Q [OF s1_def prepares_trans [OF t]]) (use False that in auto)
  have run: "session_init T W s =
    and_then (if tunable_anonymous_enable T
              then and_then (setting_uid W ''vsftpd: cannot locate user specified in 'ftp_username':''
                     (tunable_ftp_username T) s1) (\<lambda>(uid, s). Inr (s\<lparr>anon_ftp_uid := uid\<rparr>))
              else Inr s1) rest"
    using False by (simp add: session_init_def s1_def rest_def Let_def)
  show ?thesis
  proof (cases "tunable_anonymous_enable T")
    case True
    have "ends (setting_uid W ''vsftpd: cannot locate user specified in 'ftp_username':'' (tunable_ftp_username T) s1)
        (login_fails_ok W N) (\<lambda>(uid, t). ends (rest (t\<lparr>anon_ftp_uid := uid\<rparr>)) (login_fails_ok W N) Q)"
    proof (cases "tunable_ftp_username T")
      case None
      then show ?thesis using c1 by (auto simp: setting_uid_def login_die_prefixes_def intro!: die_login)
    next
      case (Some u)
      let ?t = "note_event (Sys (Getpwnam (c_str u))) s1"
      have t: "prepares s1 ?t" by (rule prepares_event) simp
      show ?thesis
      proof (cases "os_pwnam W (trace s1) (c_str u)")
        case None
        have "ends (die (die2_text ''vsftpd: cannot locate user specified in 'ftp_username':'' (Some u)) ?t :: (int \<times> vsf_session) run)
            (login_fails_ok W N) (\<lambda>(uid, t). ends (rest (t\<lparr>anon_ftp_uid := uid\<rparr>)) (login_fails_ok W N) Q)"
          by (rule die_login [OF prepares_calm [OF t c1]]) (simp add: login_die_prefixes_def)
        with None Some show ?thesis by (simp add: setting_uid_def str_getpwnam_def)
      next
        case p: (Some p)
        have "ends (rest (?t\<lparr>anon_ftp_uid := pw_uid p\<rparr>)) (login_fails_ok W N) Q"
          by (rule fin) (use t Some p in auto)
        with Some p show ?thesis by (simp add: setting_uid_def str_getpwnam_def)
      qed
    qed
    with True show ?thesis by (simp add: run ends_and_then ends_prod)
  next
    case False
    with fin [of s1] show ?thesis by (simp add: run)
  qed
qed

lemma open_log_ok:
  assumes "p_text \<in> set login_die_prefixes" "\<And>fd t. prepares s t \<Longrightarrow> step_ok W (k (fd, t)) s"
  shows "step_ok W (and_then (open_log W p_text name s) k) s"
proof -
  have t: "prepares s (note_event (Sys (OpenLog (c_str f))) s)" for f by (rule prepares_event) simp
  show ?thesis
    using step_ok_die [OF known_die2 [OF assms(1)] prepares_refl] step_ok_die [OF known_die2 [OF assms(1)] t]
      assms(2) [OF t]
    by (auto simp: open_log_def sys_def die_def split: option.split)
qed

lemma vsf_log_init_ok: "step_ok W (vsf_log_init T W s) s"
  unfolding vsf_log_init_def
  by (intro step_ok_if step_ok_seq open_log_ok step_ok_nothing; simp add: login_die_prefixes_def)+

lemma setting_file_ok:
  assumes "p_text \<in> set login_die_prefixes" "\<And>x t. prepares s t \<Longrightarrow> step_ok W (k (x, t)) s"
  shows "step_ok W (and_then (setting_file W p_text name s) k) s"
proof -
  have t: "prepares s (note_event (Sys (ReadFile f)) s)" for f by (rule prepares_event) simp
  show ?thesis
    using step_ok_die [OF known_die2 [OF assms(1)] prepares_refl] step_ok_die [OF known_die2 [OF assms(1)] t]
      assms(2) [OF t]
    by (auto simp: setting_file_def str_fileread_checked_def sys_text_def die_def split: option.split)
qed

lemma read_files_ok: "step_ok W (read_files T W s) s"
  unfolding read_files_def
  by (intro step_ok_if step_ok_seq setting_file_ok step_ok_nothing; simp add: login_die_prefixes_def)+


definition checked :: "tunables \<Rightarrow> os \<Rightarrow> bool" where
  "checked T W \<longleftrightarrow>
     (tunable_one_process_model T \<longrightarrow> \<not> tunable_local_enable T \<and> os_has_capabilities_as_non_root W) \<and>
     (tunable_local_enable T \<or> tunable_anonymous_enable T) \<and> (tunable_ftp_enable T \<or> tunable_http_enable T) \<and>
     (tunable_http_enable T \<longrightarrow> tunable_one_process_model T)"

lemma sanity_checks_login:
  assumes "calm N s" "\<And>t. checked T W \<Longrightarrow> prepares s t \<Longrightarrow> Q t"
  shows "ends (do_sanity_checks T W s) (login_fails_ok W N) Q"
proof -
  let ?t = "note_event (Sys (Fstat 0)) s"
  have t: "prepares s ?t" by (rule prepares_event) simp
  have c: "calm N ?t" by (rule prepares_calm [OF t assms(1)])
  have checks: "ends (if \<not> os_fd_is_socket W
     then die ''vsftpd: not configured for standalone, must be started from inetd'' ?t
     else if tunable_one_process_model T \<and> tunable_local_enable T
     then die ''vsftpd: security: 'one_process_model' is anonymous only'' ?t
     else if tunable_one_process_model T \<and> \<not> os_has_capabilities_as_non_root W
     then die ''vsftpd: security: 'one_process_model' needs a better OS'' ?t
     else if \<not> tunable_local_enable T \<and> \<not> tunable_anonymous_enable T
     then die ''vsftpd: both local and anonymous access disabled!'' ?t
     else if \<not> tunable_ftp_enable T \<and> \<not> tunable_http_enable T
     then die ''vsftpd: both FTP and HTTP disabled!'' ?t
     else if tunable_http_enable T \<and> \<not> tunable_one_process_model T
     then die ''vsftpd: HTTP needs 'one_process_model' for now'' ?t
     else Inr ?t) (login_fails_ok W N) Q"
    by (intro ends_ifI die_login [OF c]) (use assms(2) [OF _ t] in \<open>auto simp: checked_def\<close>)
  show ?thesis
    using checks die_login [OF c, of "''fstat''"]
    by (auto simp: do_sanity_checks_def vsf_sysutil_fstat_def sys_stat_def die_def split: option.split)
qed

definition launch_settings :: "tunables \<Rightarrow> tunables \<Rightarrow> bool" where
  "launch_settings T T' \<longleftrightarrow>
     (if tunable_run_as_launching_user T
      then T' = T\<lparr>tunable_one_process_model := True\<rparr> \<or>
        T' = T\<lparr>tunable_one_process_model := True, tunable_connect_from_port_20 := False, tunable_chown_uploads := False\<rparr>
      else T' = T)"

definition addressed :: "os \<Rightarrow> vsf_session \<Rightarrow> vsf_session" where
  "addressed W s = s\<lparr>p_remote_addr := os_remote_addr W, p_local_addr := os_local_addr W,
     remote_ip_str := c_str (os_inet_ntop W (os_remote_addr W))\<rparr>"

definition prepared :: "tunables \<Rightarrow> os \<Rightarrow> vsf_session \<Rightarrow> tunables \<times> vsf_session \<Rightarrow> bool" where
  "prepared T W s x \<longleftrightarrow>
     checked T W \<and> \<not> tunable_ssl_enable T \<and> launch_settings T (fst x) \<and> prepares (addressed W s) (snd x) \<and>
     os_remote_addr W \<noteq> Sa_Other \<and> os_local_addr W \<noteq> Sa_Other \<and>
     (tunable_anonymous_enable T \<longrightarrow> (\<exists>u tr. tunable_ftp_username T = Some u \<and> os_pwnam W tr (c_str u) \<noteq> None))"

lemma launching_user_prepares:
  assumes "launching_user T W s = (T', s')"
  shows "launch_settings T T'" "prepares s s'"
  using assms prepares_event [of "Sys Getuid" s]
  by (auto simp: launching_user_def launch_settings_def vsf_sysutil_running_as_root_def sys_def Let_def split: if_splits)

lemma blank_fields:
  "blank (s\<lparr>p_remote_addr := a, p_local_addr := b\<rparr>) = (blank s)\<lparr>p_remote_addr := a, p_local_addr := b\<rparr>"
  "blank (s\<lparr>remote_ip_str := x\<rparr>) = (blank s)\<lparr>remote_ip_str := x\<rparr>"
  by (cases s, simp add: blank_def)+

lemma prepares_addr:
  "prepares s t \<Longrightarrow> prepares (s\<lparr>p_remote_addr := a, p_local_addr := b\<rparr>) (t\<lparr>p_remote_addr := a, p_local_addr := b\<rparr>)"
  by (simp add: prepares_def blank_fields)

lemma prepares_ip: "prepares s t \<Longrightarrow> prepares (s\<lparr>remote_ip_str := x\<rparr>) (t\<lparr>remote_ip_str := x\<rparr>)"
  by (simp add: prepares_def blank_fields)

lemma env_init_prepares: "prepares s (env_init W s)"
proof -
  have "prepares s (s\<lparr>umask := m, trace := Sys (SetUmask m) # trace s\<rparr>)" for m
    unfolding prepares_def by (intro conjI exI [of _ "[Sys (SetUmask m)]"]) (simp_all add: blank_def)
  then show ?thesis by (simp add: env_init_def vsf_sysutil_set_umask_def sys_def Let_def)
qed

lemma prepare_session_prepared:
  assumes "calm N s"
  shows "ends (prepare_session T W s) (login_fails_ok W N) (prepared T W s)"
  unfolding prepare_session_def ends_and_then [of "do_sanity_checks _ _ _"] ends_and_then [of "session_init _ _ _"]
    ends_and_then [of "vsf_log_init _ _ _"] Let_def
proof (rule sanity_checks_login [OF assms], rule session_init_ok)
  fix t0
  assume "prepares s t0"
  then show "calm N t0" by (rule prepares_calm [OF _ assms])
next
  fix t0 s1 t1
  assume ch: "checked T W" and t0: "prepares s t0"
    and s1: "s1 = t0\<lparr>p_remote_addr := os_remote_addr W, p_local_addr := os_local_addr W\<rparr>" "prepares s1 t1"
    and a: "os_remote_addr W \<noteq> Sa_Other" "os_local_addr W \<noteq> Sa_Other"
      "tunable_anonymous_enable T \<longrightarrow> (\<exists>u tr. tunable_ftp_username T = Some u \<and> os_pwnam W tr (c_str u) \<noteq> None)"
  let ?s = "s\<lparr>p_remote_addr := os_remote_addr W, p_local_addr := os_local_addr W\<rparr>"
  have p1: "prepares ?s t1" using prepares_trans [OF prepares_addr [OF t0]] s1 by blast
  have cs: "calm N ?s" using assms by (simp add: calm_def)
  have p2: "prepares ?s (env_init W t1)" by (rule prepares_trans [OF p1 env_init_prepares])
  show "ends (vsf_log_init T W (env_init W t1)) (login_fails_ok W N) (\<lambda>q. ends
     (if tunable_ssl_enable T then die ''SSL: ssl_enable is set but SSL support not compiled in''
        (q\<lparr>remote_ip_str := c_str (os_inet_ntop W (p_remote_addr q))\<rparr>)
     else and_then (read_files T W (q\<lparr>remote_ip_str := c_str (os_inet_ntop W (p_remote_addr q))\<rparr>))
       (\<lambda>s. Inr (launching_user T W s))) (login_fails_ok W N) (prepared T W s))"
  proof (rule step_okD [OF vsf_log_init_ok prepares_calm [OF p2 cs]])
    fix t2
    assume "prepares (env_init W t1) t2"
    with p2 have p3: "prepares ?s t2" by (rule prepares_trans)
    have "p_remote_addr (blank t2) = p_remote_addr (blank ?s)" using p3 by (simp add: prepares_def)
    then have ra: "p_remote_addr t2 = os_remote_addr W" by (simp add: blank_def)
    let ?t3 = "t2\<lparr>remote_ip_str := c_str (os_inet_ntop W (p_remote_addr t2))\<rparr>"
    have p4: "prepares (addressed W s) ?t3" using prepares_ip [OF p3] by (simp add: addressed_def ra)
    have c3: "calm N ?t3" using prepares_calm [OF p3 cs] by (simp add: calm_def)
    have "ends (read_files T W ?t3) (login_fails_ok W N) (\<lambda>s'. prepared T W s (launching_user T W s'))"
      if "\<not> tunable_ssl_enable T"
    proof (rule step_okD [OF read_files_ok c3])
      fix t4
      assume "prepares ?t3 t4"
      with p4 have p5: "prepares (addressed W s) t4" by (rule prepares_trans)
      obtain T' s' where l: "launching_user T W t4 = (T', s')" by fastforce
      with launching_user_prepares [OF l] prepares_trans [OF p5] ch a that
      show "prepared T W s (launching_user T W t4)" by (simp add: prepared_def)
    qed
    then show "ends (if tunable_ssl_enable T then die ''SSL: ssl_enable is set but SSL support not compiled in'' ?t3
     else and_then (read_files T W ?t3) (\<lambda>s. Inr (launching_user T W s))) (login_fails_ok W N) (prepared T W s)"
      by (intro ends_ifI die_login [OF c3]) (simp_all add: ends_and_then)
  qed
qed

subsection \<open>The process before the login\<close>

text \<open>
  Since its fork the process has taken the user that has no privileges, has left all groups and has
  entered its jail, the empty directory.
\<close>

definition unprivileged :: "os \<Rightarrow> tunables \<Rightarrow> event list \<Rightarrow> bool" where
  "unprivileged W T tr \<longleftrightarrow>
     (\<exists>es f pre u tr'. tr = es @ f # pre \<and> fork_event f \<and>
        os_pwnam W tr' (c_str (text_setting (tunable_nopriv_user T))) = Some u \<and> runs_as u False True (creds es))"

definition starts :: "vsf_session \<Rightarrow> vsf_session \<Rightarrow> bool" where
  "starts s c \<longleftrightarrow> (\<exists>es u. list_all entry es \<and> c = s\<lparr>trace := es @ trace s, userlist_str := u\<rparr>)"

lemma creds_inert_events:
  assumes "\<And>e c. e \<in> set es \<Longrightarrow> creds_step e c = c"
  shows "creds (fs @ es) = creds fs"
proof -
  have "foldr creds_step es c = c" for c using assms by (induction es arbitrary: c) auto
  then show ?thesis by (simp add: creds_def)
qed

lemma creds_step_files [simp]: "creds_step (Sys (Lstat d)) c = c" "creds_step (Sys (ReadFile d)) c = c"
  by (simp_all add: creds_step_def)

lemma drop_all_privs_steps:
  "steps W (drop_all_privs T W s) s (\<lambda>es. \<exists>u tr. os_pwnam W tr (c_str (text_setting (tunable_nopriv_user T))) = Some u \<and>
     runs_as u False True (creds es))"
proof -
  define dir where "dir = text_setting (tunable_secure_chroot_dir T)"
  define caps where "caps = \<lparr>kCapabilityCAP_CHOWN = False, kCapabilityCAP_NET_BIND_SERVICE = False\<rparr>"
  define options where "options = [VSF_SECUTIL_OPTION_CHROOT, VSF_SECUTIL_OPTION_NO_PROCS]
            @ (if \<not> tunable_ssl_enable T then [VSF_SECUTIL_OPTION_NO_FDS] else [])"
  let ?t = "note_event (Sys (Lstat dir)) s"
  have run: "drop_all_privs T W s = (if os_stat W (trace s) (Lstat dir) = None
      then die (die2_text ''vsftpd: not found: directory given in 'secure_chroot_dir':'' (tunable_secure_chroot_dir T)) ?t
      else vsf_secutil_change_credentials W (text_setting (tunable_nopriv_user T)) dir [] caps options ?t)"
    by (simp add: drop_all_privs_def dir_def caps_def options_def sys_stat_def Let_def)
  have inert: "creds (es @ [Sys (Lstat dir)]) = creds es" for es by (rule creds_inert_events) simp
  show ?thesis unfolding run
  proof (rule steps_event [of "Sys (Lstat dir)"], simp, rule steps_if)
    show "steps W (die (die2_text ''vsftpd: not found: directory given in 'secure_chroot_dir':'' (tunable_secure_chroot_dir T)) ?t) ?t P" for P
      by (rule steps_die) (simp add: login_die_prefixes_def)
    show "steps W (vsf_secutil_change_credentials W (text_setting (tunable_nopriv_user T)) dir [] caps options ?t) ?t
      (\<lambda>fs. \<exists>u tr. os_pwnam W tr (c_str (text_setting (tunable_nopriv_user T))) = Some u \<and>
        runs_as u False True (creds (fs @ [Sys (Lstat dir)])))"
      unfolding inert
      by (rule steps_conseq [OF change_credentials_steps]) (auto simp: caps_def no_caps_def options_def)
  qed
qed

lemma two_process_start_login:
  assumes "calm N s" "\<And>c. starts s c \<Longrightarrow> unprivileged W T (trace c) \<Longrightarrow> Q c"
  shows "ends (two_process_start T W s) (login_fails_ok W N) Q"
proof -
  have drops: "ends (drop_all_privs T W t) (login_fails_ok W N) Q"
    if t: "t = s\<lparr>trace := rs @ f # es @ trace s, userlist_str := u\<rparr>" and f: "fork_event f" and es: "list_all entry es"
      and rs: "\<And>e. e \<in> set rs \<Longrightarrow> \<exists>n. e = Sys (ReadFile n)" for t f es rs u
  proof (rule steps_ends [OF drop_all_privs_steps])
    have "entry e" if "e \<in> set rs" for e using rs [OF that] by auto
    then have e: "entry f" "list_all entry rs" using f by (auto simp: list_all_iff)
    show "calm N t" using assms(1) e es by (simp add: t calm_def entry_def)
    fix fs
    assume fs: "list_all entry fs" and "\<exists>u tr. os_pwnam W tr (c_str (text_setting (tunable_nopriv_user T))) = Some u \<and>
      runs_as u False True (creds fs)"
    then obtain v tr where v: "os_pwnam W tr (c_str (text_setting (tunable_nopriv_user T))) = Some v"
      "runs_as v False True (creds fs)" by blast
    have "creds (fs @ rs) = creds fs" by (rule creds_inert_events) (use rs in fastforce)
    with v have r: "runs_as v False True (creds (fs @ rs))" by simp
    show "Q (t\<lparr>trace := fs @ trace t\<rparr>)"
    proof (rule assms(2))
      have "list_all entry (fs @ rs @ f # es)" using fs e es by simp
      moreover have "t\<lparr>trace := fs @ trace t\<rparr> = s\<lparr>trace := (fs @ rs @ f # es) @ trace s, userlist_str := u\<rparr>"
        by (simp add: t)
      ultimately show "starts s (t\<lparr>trace := fs @ trace t\<rparr>)" unfolding starts_def by blast
      have "trace (t\<lparr>trace := fs @ trace t\<rparr>) = (fs @ rs) @ f # es @ trace s" by (simp add: t)
      with v(1) r f show "unprivileged W T (trace (t\<lparr>trace := fs @ trace t\<rparr>))" unfolding unprivileged_def by blast
    qed
  qed
  have files: "ends (and_then (if tunable_local_enable T \<and> tunable_userlist_enable T
          then let (t, s) = (case tunable_userlist_file T of None \<Rightarrow> (None, t)
                             | Some f \<Rightarrow> str_fileread_checked W (c_str f) VSFTP_CONF_FILE_MAX t)
               in case t of
                 None \<Rightarrow> die (die2_text ''cannot read user list file:'' (tunable_userlist_file T)) s
               | Some t \<Rightarrow> Inr (s\<lparr>userlist_str := t\<rparr>)
          else Inr t) (drop_all_privs T W)) (login_fails_ok W N) Q"
    if t: "t = s\<lparr>trace := f # es @ trace s\<rparr>" "fork_event f" "list_all entry es" for t f es
  proof -
    have plain: "ends (drop_all_privs T W t) (login_fails_ok W N) Q"
      by (rule drops [where rs = "[]" and f = f and es = es and u = "userlist_str s"]) (use t in simp_all)
    have read: "ends (drop_all_privs T W (note_event (Sys (ReadFile n)) t\<lparr>userlist_str := x\<rparr>)) (login_fails_ok W N) Q" for n x
      by (rule drops [where rs = "[Sys (ReadFile n)]" and f = f and es = es and u = x]) (use t in simp_all)
    have c: "calm N t" "calm N (note_event (Sys (ReadFile n)) t)" for n
      using t assms(1) by (auto simp: calm_def)
    have miss: "ends (die (die2_text ''cannot read user list file:'' m) t') (login_fails_ok W N) R"
      if "calm N t'" for m and t' :: vsf_session and R :: "vsf_session \<Rightarrow> bool"
      by (rule die_login [OF that]) (simp add: login_die_prefixes_def)
    show ?thesis
      using plain read miss [OF c(1)] miss [OF c(2)]
      by (auto simp: str_fileread_checked_def sys_text_def ends_and_then ends_if ends_option split: option.split)
  qed
  show ?thesis unfolding two_process_start_def ends_and_then [of "sys_zero _ _ _ _"]
      ends_and_then [of "if tunable_isolate_network T then _ else _"]
  proof (rule sys_zero_login [OF assms(1)], simp, simp, rule fork_login)
    show "calm N (note_event (Sys SocketPair) s)" using assms(1) by (simp add: calm_def)
    fix r f es
    assume f: "fork_event f" and es: "list_all entry es"
    let ?t = "note_event (Sys SocketPair) s\<lparr>trace := f # es @ trace (note_event (Sys SocketPair) s)\<rparr>"
    have "calm N ?t" using assms(1) f es by (auto simp: calm_def)
    then have d: "ends (die ''priv_sock_get_cmd'' ?t) (login_fails_ok W N) Q" by (rule die_login) simp
    have t: "?t = s\<lparr>trace := f # (es @ [Sys SocketPair]) @ trace s\<rparr>" "list_all entry (es @ [Sys SocketPair])"
      using es by simp_all
    show "ends (case (r, ?t) of (newpid, s) \<Rightarrow>
     if newpid < 0 then die ''priv_sock_get_cmd'' s
     else
       and_then
         (if tunable_local_enable T \<and> tunable_userlist_enable T
          then let (t, s) = (case tunable_userlist_file T of None \<Rightarrow> (None, s)
                             | Some f \<Rightarrow> str_fileread_checked W (c_str f) VSFTP_CONF_FILE_MAX s)
               in case t of
                 None \<Rightarrow> die (die2_text ''cannot read user list file:'' (tunable_userlist_file T)) s
               | Some t \<Rightarrow> Inr (s\<lparr>userlist_str := t\<rparr>)
          else Inr s) (drop_all_privs T W)) (login_fails_ok W N) Q"
      unfolding split_conv [of _ r] by (rule ends_ifI, rule d, rule files [OF t(1) f t(2)])
  qed
qed

lemma one_process_start_login:
  assumes "calm N s" "\<And>c. starts s c \<Longrightarrow> Q c"
  shows "ends (one_process_start T W s) (login_fails_ok W N) Q"
proof -
  have Q: "Q (s\<lparr>trace := es @ trace s\<rparr>)" if "list_all entry es" for es
    by (rule assms(2)) (use that in \<open>auto simp: starts_def intro!: exI [of _ es] exI [of _ "userlist_str s"]\<close>)
  have "ends (vsf_secutil_change_credentials W u d x k opts s) (login_fails_ok W N) Q" for u d x k opts
    by (rule steps_ends [OF change_credentials_steps assms(1)]) (rule Q)
  then show ?thesis
    using Q [of "[]"] Q [of "[Sys (EnterDir (text_setting (tunable_anon_root T)))]"]
    by (simp add: one_process_start_def sys_def Let_def)
qed

end
