(* ===== verification/Login_Safe.thy ===== *)
theory Login_Safe
  imports Login_Start
begin

text \<open>
  The whole connection: limits and greeting, the loop before the login, the login and the session after
  it, composed with what \<open>Vsf_Loop\<close> shows of that session.
\<close>

subsection \<open>Limits and greeting\<close>

lemma connection_action: "log_action kVSFLogEntryConnection \<noteq> None"
  by (simp add: log_action_def log_entry_defs)

lemma talks_connection: "talks (vsf_log_line T W kVSFLogEntryConnection l s) s"
  using talks_log [OF connection_action, of True] by simp

text \<open>A refusal is a log line, a reply and the end of the process.\<close>

lemma refusal_ends:
  "ends (and_then (vsf_log_line T W kVSFLogEntryConnection l c) (vsf_cmdio_write_exit T W status reply 1))
    (\<lambda>f tr. (f = Exit 1 \<or> f = Die ''ftp_write'' \<or> f = Die ''ftp_write_str'') \<and> (\<exists>es. list_all io_event es \<and> tr = es @ trace c)) Q"
proof -
  have t: "talks (and_then (vsf_log_line T W kVSFLogEntryConnection l c) (vsf_cmdio_write T W status reply)) c"
    by (intro talks_seq talks_connection talks_write)
  have run: "and_then (vsf_log_line T W kVSFLogEntryConnection l c) (vsf_cmdio_write_exit T W status reply 1) =
    and_then (and_then (vsf_log_line T W kVSFLogEntryConnection l c) (vsf_cmdio_write T W status reply)) (\<lambda>s. vsf_sysutil_exit 1 s)"
    by (cases "vsf_log_line T W kVSFLogEntryConnection l c") (simp_all add: vsf_cmdio_write_exit_def)
  show ?thesis
    unfolding run ends_and_then [of "and_then _ _"]
    by (rule ends_conseq [OF t [unfolded talks_def]]) (auto simp: adds_def vsf_sysutil_exit_def)
qed

abbreviation turned_away :: "tunables \<Rightarrow> vsf_session \<Rightarrow> bool" where
  "turned_away T c \<equiv>
     tunable_max_clients T > 0 \<and> num_clients c > tunable_max_clients T \<or>
     tunable_max_per_ip T > 0 \<and> num_this_ip c > tunable_max_per_ip T \<or> \<not> tcp_wrapper_ok c"

lemma check_limits_refuses:
  assumes "turned_away T c"
  shows "ends (check_limits T W c)
    (\<lambda>f tr. (f = Exit 1 \<or> f = Die ''ftp_write'' \<or> f = Die ''ftp_write_str'') \<and> (\<exists>es. list_all io_event es \<and> tr = es @ trace c)) Q"
  unfolding check_limits_def Let_def using assms refusal_ends by (auto simp: ends_if)

lemma check_limits_accepts:
  "\<not> turned_away T c \<Longrightarrow> check_limits T W c = vsf_log_line T W kVSFLogEntryConnection [] c"
  by (auto simp: check_limits_def Let_def)

lemma check_limits_login:
  assumes "kept_here T r c p" "\<And>c'. kept_here T r c' p \<Longrightarrow> user_str c' = user_str c \<Longrightarrow> Q c'"
  shows "ends (check_limits T W c) (login_fails_ok W (most_guesses T)) Q"
proof (cases "turned_away T c")
  case True
  have c: "calm (most_guesses T) c" by (rule kept_calm(1) [OF assms(1)])
  show ?thesis
    by (rule ends_conseq [OF check_limits_refuses [OF True, where Q = Q]])
      (use c in \<open>auto simp: calm_def login_dies_def\<close>)
next
  case False
  show ?thesis unfolding check_limits_accepts [OF False]
    by (rule talks_ends [OF talks_connection kept_calm(1) [OF assms(1)]], rule assms(2), rule kept_io [OF assms(1)]) simp_all
qed

lemma greeting_login:
  assumes k: "kept_here T r c p" and Q: "\<And>c'. kept_here T r c' p \<Longrightarrow> user_str c' = user_str c \<Longrightarrow> Q c'"
  shows "ends (emit_greeting T W c) (login_fails_ok W (most_guesses T)) Q"
proof -
  have plain: "ends (vsf_cmdio_write T W n t d) (login_fails_ok W (most_guesses T)) Q"
    if d: "kept_here T r d p" "user_str d = user_str c" for n t d
    by (rule talks_ends [OF talks_write(1) kept_calm(1) [OF d(1)]], rule Q, rule kept_io [OF d(1)]) (simp_all add: d(2))
  have banner: "ends (vsf_banner_write T W b FTP_GREET c) (login_fails_ok W (most_guesses T))
      (\<lambda>d. ends (vsf_cmdio_write T W n t (d\<lparr>banner_str := []\<rparr>)) (login_fails_ok W (most_guesses T)) Q)" for b n t
    unfolding vsf_banner_write_def
    by (rule talks_ends [OF talks_lines kept_calm(1) [OF k]], rule plain) (simp_all add: kept_io [OF k])
  show ?thesis
    unfolding emit_greeting_def using banner plain [OF k refl] by (simp add: ends_and_then split: option.split)
qed

text \<open>The state in which a connection starts.\<close>

definition at_start :: "vsf_session \<Rightarrow> vsf_session \<Rightarrow> bool" where
  "at_start c p \<longleftrightarrow>
     log_type c = 0 \<and> user_str c = [] \<and> login_fails c = 0 \<and> \<not> is_http c \<and> http_get_arg c = [] \<and>
     \<not> is_http p \<and> http_get_arg p = [] \<and> fixed p = fixed c \<and> same_lists p c \<and>
     list_all quiet (trace c) \<and> guesses (trace c) = 0"

lemma init_through:
  assumes "sane T" "at_start c p"
  shows "ends (init_connection T W inputs c p) (login_fails_ok W (most_guesses T)) (\<lambda>(step, rest). through T W inputs c step)"
proof -
  let ?E = "login_fails_ok W (most_guesses T)" and ?Q = "\<lambda>(step, rest). through T W inputs c step"
  have k: "kept_here T c c p" using assms(2) by (simp add: at_start_def kept_here_def web_ok_def VSFTP_MAX_COMMAND_LINE_def)
  have u: "user_str c = []" "log_type c = 0" using assms(2) by (simp_all add: at_start_def)
  have loop: "ends (parse_username_password T W inputs d p) ?E ?Q" if "kept_here T c d p" "user_str d = user_str c" for d
    by (rule parse_through [OF assms(1) u(2)]) (use that u in \<open>simp_all add: waiting_def\<close>)
  have greet: "ends (if tunable_ftp_enable T then emit_greeting T W d else Inr d) ?E
      (\<lambda>d. ends (parse_username_password T W inputs d p) ?E ?Q)" if d: "kept_here T c d p" "user_str d = user_str c" for d
    using greeting_login [OF d(1), of "\<lambda>d. ends (parse_username_password T W inputs d p) ?E ?Q" W] loop d by simp
  show ?thesis unfolding init_connection_def ends_and_then [of "check_limits _ _ _"] ends_and_then [of "if tunable_ftp_enable T then _ else _"]
    by (rule check_limits_login [OF k], rule greet)
qed

subsection \<open>The whole connection\<close>

definition new_client :: "vsf_client_launch \<Rightarrow> vsf_session" where
  "new_client child_info = (new_session Sa_Other Sa_Other [])\<lparr>num_clients := unat (num_children child_info),
     num_this_ip := unat (launch_this_ip child_info)\<rparr>"

lemma blank_client:
  assumes "blank s = blank (addressed W (new_client i))"
  shows "log_type s = 0" "user_str s = []" "login_fails s = 0" "\<not> is_http s" "http_get_arg s = []"
    "p_remote_addr s = os_remote_addr W" "p_local_addr s = os_local_addr W"
    "remote_ip_str s = c_str (os_inet_ntop W (os_remote_addr W))" "restart_pos s = 0" "rnfr_filename_str s = []"
    "p_port_sockaddr s = None" "pasv_listen_fd s = -1" "parent_listen_fd s = -1" "data_fd s = -1"
    "num_clients s = unat (num_children i)" "num_this_ip s = unat (launch_this_ip i)" "tcp_wrapper_ok s"
  using arg_cong [OF assms, of log_type] arg_cong [OF assms, of user_str] arg_cong [OF assms, of login_fails]
    arg_cong [OF assms, of is_http] arg_cong [OF assms, of http_get_arg] arg_cong [OF assms, of p_remote_addr]
    arg_cong [OF assms, of p_local_addr] arg_cong [OF assms, of remote_ip_str] arg_cong [OF assms, of restart_pos]
    arg_cong [OF assms, of rnfr_filename_str] arg_cong [OF assms, of p_port_sockaddr]
    arg_cong [OF assms, of pasv_listen_fd] arg_cong [OF assms, of parent_listen_fd] arg_cong [OF assms, of data_fd]
    arg_cong [OF assms, of num_clients] arg_cong [OF assms, of num_this_ip] arg_cong [OF assms, of tcp_wrapper_ok]
  by (simp_all add: blank_def addressed_def new_client_def new_session_def)

lemma fixed_client:
  assumes "fixed s = fixed t"
  shows "log_type s = log_type t" "p_remote_addr s = p_remote_addr t" "p_local_addr s = p_local_addr t"
    "remote_ip_str s = remote_ip_str t" "restart_pos s = restart_pos t" "rnfr_filename_str s = rnfr_filename_str t"
    "p_port_sockaddr s = p_port_sockaddr t" "pasv_listen_fd s = pasv_listen_fd t"
    "parent_listen_fd s = parent_listen_fd t" "data_fd s = data_fd t"
  using arg_cong [OF assms, of log_type] arg_cong [OF assms, of p_remote_addr]
    arg_cong [OF assms, of p_local_addr] arg_cong [OF assms, of remote_ip_str] arg_cong [OF assms, of restart_pos]
    arg_cong [OF assms, of rnfr_filename_str] arg_cong [OF assms, of p_port_sockaddr]
    arg_cong [OF assms, of pasv_listen_fd] arg_cong [OF assms, of parent_listen_fd] arg_cong [OF assms, of data_fd]
  by (simp_all add: fixed_def same_client_def core_def)

text \<open>What the network, the user database and the settings must be like.\<close>

definition serviceable :: "tunables \<Rightarrow> os \<Rightarrow> bool" where
  "serviceable T W \<longleftrightarrow>
     (case os_local_addr W of Sa_In a p \<Rightarrow> True | _ \<Rightarrow> False) \<and>
     c_str (os_inet_ntop W (os_remote_addr W)) \<noteq> [] \<and>
     \<not> (tunable_run_as_launching_user T \<and> tunable_local_enable T) \<and> tunable_max_login_fails T < 2 ^ 32 \<and>
     tunable_user_config_dir T = None \<and> (tunable_http_enable T \<longrightarrow> tunable_download_enable T)"

lemma launch_settings_same:
  assumes "launch_settings T T'"
  shows "permitted T' an ra e = permitted T an ra e" "tunable_local_enable T' = tunable_local_enable T"
    "tunable_anonymous_enable T' = tunable_anonymous_enable T" "tunable_ftp_enable T' = tunable_ftp_enable T"
    "tunable_http_enable T' = tunable_http_enable T" "tunable_download_enable T' = tunable_download_enable T"
    "tunable_user_config_dir T' = tunable_user_config_dir T" "tunable_ftp_username T' = tunable_ftp_username T"
    "tunable_max_login_fails T' = tunable_max_login_fails T" "tunable_max_clients T' = tunable_max_clients T"
    "tunable_max_per_ip T' = tunable_max_per_ip T"
proof -
  from assms consider "T' = T" | "T' = T\<lparr>tunable_one_process_model := True\<rparr>"
    | "T' = T\<lparr>tunable_one_process_model := True, tunable_connect_from_port_20 := False, tunable_chown_uploads := False\<rparr>"
    unfolding launch_settings_def by presburger
  note c = this
  have a: "access_ok T' p = access_ok T p" "may_write T' an b = may_write T an b" for p an b
    by (rule c; simp add: access_ok_def may_write_def)+
  have f: "tunable_download_enable T' = tunable_download_enable T" "tunable_mdtm_write T' = tunable_mdtm_write T"
    "tunable_anon_other_write_enable T' = tunable_anon_other_write_enable T"
    "tunable_anon_upload_enable T' = tunable_anon_upload_enable T" "tunable_chmod_enable T' = tunable_chmod_enable T"
    "tunable_anon_mkdir_write_enable T' = tunable_anon_mkdir_write_enable T"
    "tunable_delete_failed_uploads T' = tunable_delete_failed_uploads T"
    "tunable_port_promiscuous T' = tunable_port_promiscuous T"
    by (rule c; simp)+
  show "permitted T' an ra e = permitted T an ra e"
  proof (cases e)
    case (Sys x)
    then show ?thesis by (cases x) (simp_all add: a f)
  qed simp_all
  show "tunable_local_enable T' = tunable_local_enable T"
    "tunable_anonymous_enable T' = tunable_anonymous_enable T" "tunable_ftp_enable T' = tunable_ftp_enable T"
    "tunable_http_enable T' = tunable_http_enable T" "tunable_download_enable T' = tunable_download_enable T"
    "tunable_user_config_dir T' = tunable_user_config_dir T" "tunable_ftp_username T' = tunable_ftp_username T"
    "tunable_max_login_fails T' = tunable_max_login_fails T" "tunable_max_clients T' = tunable_max_clients T"
    "tunable_max_per_ip T' = tunable_max_per_ip T"
    by (rule c; simp)+
qed

lemma prepared_sane:
  assumes "prepared T W s (T', s')" "serviceable T W"
  shows "sane T'"
  using assms launch_settings_same [of T T']
  by (auto simp: prepared_def checked_def serviceable_def sane_def launch_settings_def split: if_splits)

lemma starts_at_start:
  assumes p: "prepares (addressed W (new_client i)) s" and s: "starts s c"
  shows "at_start c s"
proof -
  from p have b: "blank s = blank (addressed W (new_client i))" by (simp add: prepares_def)
  obtain es where es: "list_all entry es" "trace s = es @ trace (addressed W (new_client i))"
    using p by (auto simp: prepares_def)
  obtain fs u where c: "list_all entry fs" "c = s\<lparr>trace := fs @ trace s, userlist_str := u\<rparr>"
    using s by (auto simp: starts_def)
  have "trace (addressed W (new_client i)) = []" by (simp add: addressed_def new_client_def new_session_def)
  then show ?thesis
    using es c blank_client [OF b] by (simp add: at_start_def)
qed

lemma through_logged_in:
  assumes p: "prepared T W (new_client i) (T1, s0)" and v: "serviceable T W" and n: "\<And>tr. os_pwnam W tr [] = None"
    and c: "starts s0 c" and t: "through T1 W inputs c (LoggedIn T' s)"
  shows "T' = T1" "logged_in T1 (is_anonymous s) (os_remote_addr W) s" "\<not> tunable_local_enable T \<longrightarrow> is_anonymous s"
proof -
  have l: "launch_settings T T1" "prepares (addressed W (new_client i)) s0" "os_remote_addr W \<noteq> Sa_Other"
    and name: "tunable_anonymous_enable T \<longrightarrow> (\<exists>u tr. tunable_ftp_username T = Some u \<and> os_pwnam W tr (c_str u) \<noteq> None)"
    using p by (simp_all add: prepared_def)
  note same = launch_settings_same [OF l(1)]
  show T': "T' = T1" using t v same(7) by (simp add: through_def serviceable_def)
  obtain user pass where in_: "let_in T1 W c user pass T' s" using t by (auto simp: through_def)
  show an: "\<not> tunable_local_enable T \<longrightarrow> is_anonymous s"
    using in_ same(2) by (auto simp: let_in_def local_ok_def split: if_splits)
  have user: "c_str (user_str s) \<noteq> []"
  proof (cases "is_anonymous s \<and> user_str s = text_setting (tunable_ftp_username T1) \<and> anon_ok T1 c user pass")
    case True
    then have "tunable_anonymous_enable T" using same(3) by (simp add: anon_ok_def)
    with name obtain u tr where u: "tunable_ftp_username T = Some u" "os_pwnam W tr (c_str u) \<noteq> None" by blast
    then have "c_str u \<noteq> []" using n by force
    with True u same(8) show ?thesis by (simp add: text_setting_def)
  next
    case False
    with in_ have "local_ok T1 W user pass \<and> user_str s = user" by (simp add: let_in_def split: if_splits)
    with local_ok_name show ?thesis by blast
  qed
  have fx: "fixed s = fixed s0"
    using t c by (auto simp: through_def starts_def)
  from l(2) have b: "blank s0 = blank (addressed W (new_client i))" by (simp add: prepares_def)
  have w: "web_ok T1 s" and q: "list_all quiet (trace s)" using t by (simp_all add: through_def)
  show "logged_in T1 (is_anonymous s) (os_remote_addr W) s"
    using fixed_client [OF fx] blank_client [OF b] user l(3) v w quiet_permitted [OF q] same
    by (auto simp: logged_in_def serviceable_def web_ok_def)
qed

definition connection_fault :: "os \<Rightarrow> fault \<Rightarrow> event list \<Rightarrow> bool" where
  "connection_fault W f tr \<longleftrightarrow>
     login_fault W f \<or> expected_fault f \<or> analysis_fault f \<or> f = Diverges \<and> 2 ^ 32 - 1 \<le> length tr"

text \<open>A history within the policy, for an anonymous user when the server has no others.\<close>

definition in_policy :: "tunables \<Rightarrow> os \<Rightarrow> event list \<Rightarrow> bool" where
  "in_policy T W tr \<longleftrightarrow>
     (\<exists>an. (\<not> tunable_local_enable T \<longrightarrow> an) \<and> list_all (permitted T an (os_remote_addr W)) tr)"

lemma quiet_in_policy: "list_all quiet tr \<Longrightarrow> in_policy T W tr"
  unfolding in_policy_def by (intro exI [of _ True]) (simp add: quiet_permitted)

lemma login_fails_in_policy: "login_fails_ok W N f tr \<Longrightarrow> connection_fault W f tr \<and> in_policy T W tr"
  by (simp add: login_fails_ok_def connection_fault_def quiet_in_policy)

lemma serve_client_safe:
  assumes p: "prepared T W (new_client i) (T1, s0)" and v: "serviceable T W" and n: "\<And>tr. os_pwnam W tr [] = None"
  shows "ends (serve_client T1 W inputs s0) (\<lambda>f tr. connection_fault W f tr \<and> in_policy T W tr)
    (\<lambda>s. in_policy T W (trace s))"
proof -
  let ?E = "\<lambda>f tr. connection_fault W f tr \<and> in_policy T W tr"
  have l: "prepares (addressed W (new_client i)) s0" "launch_settings T T1" using p by (simp_all add: prepared_def)
  have calm: "calm 0 s0"
    by (rule prepares_calm [OF l(1)]) (simp add: calm_def addressed_def new_client_def new_session_def)
  have after_login: "ends (case step of LoggedIn T' s \<Rightarrow> process_post_login T' W rest s | Again c p \<Rightarrow> Inr c) ?E
      (\<lambda>s. in_policy T W (trace s))" if c: "starts s0 c" and t: "through T1 W inputs c step" for c step rest
  proof (cases step)
    case (Again c' p')
    with t have "list_all quiet (trace c')" by (simp add: through_def waiting_def kept_here_def)
    with Again quiet_in_policy show ?thesis by simp
  next
    case (LoggedIn T' s)
    note li = through_logged_in [OF p v n c t [unfolded LoggedIn]]
    have pol: "in_policy T W tr" if "list_all (permitted T1 (is_anonymous s) (os_remote_addr W)) tr" for tr
    proof -
      have "permitted T1 (is_anonymous s) (os_remote_addr W) = permitted T (is_anonymous s) (os_remote_addr W)"
        by (rule ext) (rule launch_settings_same(1) [OF l(2)])
      with that li(3) show ?thesis unfolding in_policy_def by metis
    qed
    have "ends (process_post_login T1 W rest s) ?E (\<lambda>s. in_policy T W (trace s))"
      by (rule ends_conseq [OF process_post_login_idle [OF li(2)]])
        (auto simp: fails_def idle_def connection_fault_def intro: pol)
    with LoggedIn li(1) show ?thesis by simp
  qed
  have connected: "ends (and_then (init_connection T1 W inputs c s0) (\<lambda>(step, inputs).
      case step of LoggedIn T s \<Rightarrow> process_post_login T W inputs s | Again c p \<Rightarrow> Inr c)) ?E
      (\<lambda>s. in_policy T W (trace s))" if c: "starts s0 c" for c
    unfolding ends_and_then
  proof (rule ends_conseq [OF init_through [OF prepared_sane [OF p v] starts_at_start [OF l(1) c]]])
    fix x :: "login_step \<times> input list"
    assume "case x of (step, rest) \<Rightarrow> through T1 W inputs c step"
    then show "ends (case x of (step, inputs) \<Rightarrow>
        (case step of LoggedIn T s \<Rightarrow> process_post_login T W inputs s | Again c p \<Rightarrow> Inr c)) ?E (\<lambda>s. in_policy T W (trace s))"
      using after_login [OF c] by (cases x) simp
  qed (rule login_fails_in_policy)
  have "ends (if tunable_one_process_model T1 then one_process_start T1 W s0 else two_process_start T1 W s0)
      (login_fails_ok W 0) (starts s0)"
    using one_process_start_login [OF calm, where Q = "starts s0" and W = W and T = T1]
      two_process_start_login [OF calm, where Q = "starts s0" and W = W and T = T1] by simp
  then have "ends (if tunable_one_process_model T1 then one_process_start T1 W s0 else two_process_start T1 W s0) ?E (starts s0)"
    by (rule ends_conseq) (auto simp: login_fails_in_policy)
  then show ?thesis unfolding serve_client_def by (rule ends_bindI) (rule connected)
qed

lemma load_environment_none:
  "ends (load_environment T W None s) E Q \<longleftrightarrow>
     (if tunable_tcp_wrappers T then ends (die ''tcp_wrappers is set to YES but no tcp wrapper support compiled in'' s :: (tunables \<times> vsf_session) run) E Q
      else Q (T, s))"
  by (simp add: load_environment_def)

lemma client_main_safe:
  assumes v: "serviceable T W" and n: "\<And>tr. os_pwnam W tr [] = None"
  shows "ends (client_main T W i None inputs) (\<lambda>f tr. connection_fault W f tr \<and> in_policy T W tr)
    (\<lambda>s. in_policy T W (trace s))"
proof -
  let ?E = "\<lambda>f tr. connection_fault W f tr \<and> in_policy T W tr"
  have calm: "calm 0 (new_client i)" by (simp add: calm_def new_client_def new_session_def)
  have "ends (prepare_session T W (new_client i)) ?E (prepared T W (new_client i))"
    by (rule ends_conseq [OF prepare_session_prepared [OF calm]]) (auto simp: login_fails_in_policy)
  then have prep: "ends (and_then (prepare_session T W (new_client i)) (\<lambda>(T, s). serve_client T W inputs s)) ?E
      (\<lambda>s. in_policy T W (trace s))"
    by (rule ends_bindI) (use serve_client_safe [OF _ v n] in auto)
  have tcp: "ends (die ''tcp_wrappers is set to YES but no tcp wrapper support compiled in'' (new_client i) :: (tunables \<times> vsf_session) run)
      ?E R" for R
    by (rule ends_conseq [OF die_login [OF calm, where W = W and Q = R]]) (simp add: login_dies_def, assumption, rule login_fails_in_policy)
  show ?thesis
    unfolding client_main_def new_client_def [symmetric] Let_def ends_and_then [of "load_environment _ _ _ _"]
      load_environment_none using prep tcp by simp
qed

end
