(* ===== verification/Login_Served.thy ===== *)
theory Login_Served
  imports Login_Safe
begin

text \<open>
  The converse of the safety of the login: an anonymous user whom the settings allow is served.
\<close>

abbreviation broken_pipe :: "fault \<Rightarrow> event list \<Rightarrow> bool" where
  "broken_pipe f tr \<equiv> f = Die ''ftp_write'' \<or> f = Die ''ftp_write_str''"

lemma talks_pipe:
  assumes "talks m s" "\<And>es. list_all io_event es \<Longrightarrow> Q (s\<lparr>trace := es @ trace s\<rparr>)"
  shows "ends m broken_pipe Q"
  using assms(1) unfolding talks_def by (rule ends_conseq) (use assms(2) in \<open>auto simp: adds_def\<close>)

lemma do_login_anonymous:
  assumes "anon_ok T s (user_str s) pass" "\<not> dodgy_input (user_str s) pass" "log_type s = 0"
  shows "ends (vsf_privop_do_login T W pass s) E (\<lambda>(r, s'). r = kVSFLoginAnon \<and> user_str s' = text_setting (tunable_ftp_username T))"
proof -
  obtain s1 where h: "handle_login T W (user_str s) pass s = Inr (kVSFLoginAnon, s1)"
    and s1: "user_str s1 = text_setting (tunable_ftp_username T)" "log_type s1 = 0"
    using assms by (auto simp: handle_login_def anon_ok_def handle_anonymous_login_def setup_username_globals_def Let_def)
  define s2 where "s2 = s1\<lparr>log_type := kVSFLogEntryLogin, log_start_sec := 0, log_start_usec := 0, transfer_size := 0, log_str := []\<rparr>"
  have start: "vsf_log_start_entry W kVSFLogEntryLogin s1 = Inr s2"
    by (simp add: vsf_log_start_entry_def s1 kVSFLogEntryLogin_action s2_def)
  have "ends (vsf_log_do_log T W True s2) E (\<lambda>s'. user_str (pause W n s') = text_setting (tunable_ftp_username T))" for n
    by (rule do_log_ends) (simp_all add: s2_def s1 kVSFLogEntryLogin_action pause_def sys_def)
  then show ?thesis by (simp add: vsf_privop_do_login_def h start ends_and_then)
qed

lemma read_pipe:
  assumes "length raw < VSFTP_MAX_COMMAND_LINE" "split_command (control_getline raw) = (cmd, arg)"
    and "\<And>es. list_all io_event es \<Longrightarrow> Q ((cmd, arg), c\<lparr>trace := es @ trace c\<rparr>)"
  shows "ends (vsf_cmdio_get_cmd_and_arg T W (Line raw) c) broken_pipe Q"
proof -
  have "ends (if tunable_log_ftp_protocol T then vsf_log_line T W kVSFLogEntryFTPInput l c else Inr c) broken_pipe
      (\<lambda>s. Q ((cmd, arg), s))" for l
    by (rule talks_pipe [OF talks_log]) (use assms(3) in \<open>simp_all add: log_action_def log_entry_defs\<close>)
  then show ?thesis using assms(1,2) by (simp add: vsf_cmdio_get_cmd_and_arg_def ends_and_then)
qed

text \<open>What the settings must allow, and what the client sends.\<close>

definition open_to_anonymous :: "tunables \<Rightarrow> bool" where
  "open_to_anonymous T \<longleftrightarrow>
     tunable_ftp_enable T \<and> tunable_one_process_model T \<and> \<not> tunable_ssl_enable T \<and> \<not> tunable_no_anon_password T"

lemma anonymous_pass:
  assumes "open_to_anonymous T" "user_str c = user" "anon_ok T c user pass" "\<not> dodgy_input user pass" "log_type c = 0"
    and "ftp_arg_str c = pass"
  shows "ends (login_command T W ''PASS'' c p) broken_pipe
    (\<lambda>step. \<exists>s. step = LoggedIn T s \<and> is_anonymous s \<and> user_str s = text_setting (tunable_ftp_username T))"
proof -
  have "user \<noteq> []" using assms(4) by (auto simp: dodgy_input_def)
  moreover have "ends (vsf_one_process_login T W pass c p) broken_pipe
    (\<lambda>step. \<exists>s. step = LoggedIn T s \<and> is_anonymous s \<and> user_str s = text_setting (tunable_ftp_username T))"
    unfolding vsf_one_process_login_def
    by (rule ends_bindI [OF do_login_anonymous]) (use assms in auto)
  ultimately show ?thesis using assms
    by (auto simp: login_command_def handle_pass_command_def open_to_anonymous_def ends_and_then elim!: ends_conseq)
qed

lemma anonymous_user:
  assumes "open_to_anonymous T" "anonymous_name user" "user_listed T c user" "\<not> control_use_ssl c" "ftp_arg_str c = user"
    and Q: "\<And>es. list_all io_event es \<Longrightarrow> Q (Again (c\<lparr>user_str := user, ftp_arg_str := s_upper user, trace := es @ trace c\<rparr>) p)"
  shows "ends (login_command T W ''USER'' c p) broken_pipe Q"
proof -
  let ?c = "c\<lparr>user_str := user, ftp_arg_str := s_upper user\<rparr>"
  have "ends (vsf_cmdio_write T W n t ?c) broken_pipe (\<lambda>c. Q (Again c p))" for n t
    by (rule talks_pipe [OF talks_write(1)]) (use Q in simp)
  with assms(1-5) show ?thesis
    by (auto simp: login_command_def handle_user_command_def open_to_anonymous_def anonymous_name_def user_listed_def
      Let_def ends_and_then)
qed

lemma anonymous_through:
  assumes T: "open_to_anonymous T" and c: "log_type c = 0" "\<not> control_use_ssl c"
    and u: "length user_line < VSFTP_MAX_COMMAND_LINE" "split_command (control_getline user_line) = (''USER'', user)"
      "user_listed T c user"
    and p: "length pass_line < VSFTP_MAX_COMMAND_LINE" "split_command (control_getline pass_line) = (''PASS'', pass)"
      "anon_ok T c user pass" "\<not> dodgy_input user pass"
  shows "ends (parse_username_password T W (Line user_line # Line pass_line # rest) c q) broken_pipe
    (\<lambda>(step, rest'). rest' = rest \<and>
      (\<exists>s. step = LoggedIn T s \<and> is_anonymous s \<and> user_str s = text_setting (tunable_ftp_username T)))"
    (is "ends _ _ ?Q")
proof -
  have second: "ends (parse_username_password T W (Line pass_line # rest) d q) broken_pipe ?Q"
    if d: "user_str d = user" "log_type d = 0" "anon_ok T d user pass" for d
    unfolding parse_username_password.simps ends_and_then [of "vsf_cmdio_get_cmd_and_arg _ _ _ _"]
  proof (rule read_pipe [OF p(1,2)], unfold split_conv)
    fix es
    let ?d = "d\<lparr>trace := es @ trace d, ftp_cmd_str := ''PASS'', ftp_arg_str := pass\<rparr>"
    have "anon_ok T ?d user pass" using d(3) by (simp add: anon_ok_def)
    then show "ends (and_then (login_command T W ''PASS'' ?d q) (\<lambda>step. case step of LoggedIn T s \<Rightarrow> Inr (LoggedIn T s, rest)
        | Again c p \<Rightarrow> parse_username_password T W rest c p)) broken_pipe ?Q"
      by (intro ends_bindI [OF anonymous_pass [OF T _ _ p(4)]]) (use d in auto)
  qed
  show ?thesis
    unfolding parse_username_password.simps(2) [of _ _ "Line user_line"] ends_and_then [of "vsf_cmdio_get_cmd_and_arg _ _ _ _"]
  proof (rule read_pipe [OF u(1,2)], unfold split_conv ends_and_then)
    fix es
    let ?c = "c\<lparr>trace := es @ trace c, ftp_cmd_str := ''USER'', ftp_arg_str := user\<rparr>"
    show "ends (login_command T W ''USER'' ?c q) broken_pipe (\<lambda>step. ends (case step of LoggedIn T s \<Rightarrow> Inr (LoggedIn T s, Line pass_line # rest)
        | Again c p \<Rightarrow> parse_username_password T W (Line pass_line # rest) c p) broken_pipe ?Q)"
    proof (rule anonymous_user [OF T])
      show "anonymous_name user" using p(3) by (simp add: anon_ok_def)
      show "user_listed T ?c user" using u(3) by (simp add: user_listed_def)
    qed (use c p(3) in \<open>auto intro!: second simp: anon_ok_def simp del: parse_username_password.simps\<close>)
  qed
qed

end
