(* ===== verification/Login_Claims.thy ===== *)
theory Login_Claims
  imports Login_Served
begin

text \<open>
  The properties of the way from the accepted connection to the session: the limits, the preparations, the
  privileges of the process that talks to the client, who gets through, and the whole connection.
\<close>

text \<open>A network on which the server can run, for the examples.\<close>

definition online_os :: os where
  "online_os = plain_os\<lparr>os_local_addr := Sa_In ''1234'' 21, os_remote_addr := Sa_In ''1235'' 5000\<rparr>"

lemma online_serviceable: "serviceable tunables_load_defaults online_os"
  by (simp add: serviceable_def online_os_def plain_os_def tunables_load_defaults_def c_str_def)

lemma new_client_at_start: "at_start (new_client i) (new_client i)"
  by (simp add: at_start_def new_client_def new_session_def)

lemma default_sane: "sane tunables_load_defaults"
  by (simp add: sane_def tunables_load_defaults_def)

abbreviation first_client :: vsf_client_launch where
  "first_client \<equiv> \<lparr>num_children = 1, launch_this_ip = 1\<rparr>"

subsection \<open>Limits\<close>

text \<open>A client over the limits of the server or of its address, by the counts of the listener.\<close>

definition refused :: "tunables \<Rightarrow> vsf_client_launch \<Rightarrow> bool" where
  "refused T i \<longleftrightarrow>
     tunable_max_clients T > 0 \<and> unat (num_children i) > tunable_max_clients T \<or>
     tunable_max_per_ip T > 0 \<and> unat (launch_this_ip i) > tunable_max_per_ip T"

lemma serve_client_refused:
  assumes "prepared T W (new_client i) (T1, s0)" "refused T i"
  shows "ends (serve_client T1 W inputs s0) (login_fails_ok W 0) (\<lambda>s. False)"
proof -
  have l: "prepares (addressed W (new_client i)) s0" "launch_settings T T1" using assms(1) by (simp_all add: prepared_def)
  then have b: "blank s0 = blank (addressed W (new_client i))" by (simp add: prepares_def)
  have calm: "calm 0 s0"
    by (rule prepares_calm [OF l(1)]) (simp add: calm_def addressed_def new_client_def new_session_def)
  have "ends (if tunable_one_process_model T1 then one_process_start T1 W s0 else two_process_start T1 W s0)
      (login_fails_ok W 0) (starts s0)"
    using one_process_start_login [OF calm, where Q = "starts s0" and W = W and T = T1]
      two_process_start_login [OF calm, where Q = "starts s0" and W = W and T = T1] by simp
  then show ?thesis unfolding serve_client_def
  proof (rule ends_bindI)
    fix c
    assume "starts s0 c"
    then have c: "calm 0 c" "num_clients c = unat (num_children i)" "num_this_ip c = unat (launch_this_ip i)"
      using calm blank_client [OF b] by (auto simp: starts_def calm_def)
    have "turned_away T1 c" using assms(2) launch_settings_same(10,11) [OF l(2)] c by (auto simp: refused_def)
    from check_limits_refuses [OF this]
    have "ends (check_limits T1 W c) (login_fails_ok W 0) Q" for Q
      by (rule ends_conseq) (use c(1) in \<open>auto simp: calm_def login_dies_def\<close>)
    then show "ends (and_then (init_connection T1 W inputs c s0) (\<lambda>(step, inputs).
        case step of LoggedIn T s \<Rightarrow> process_post_login T W inputs s | Again c p \<Rightarrow> Inr c)) (login_fails_ok W 0) (\<lambda>s. False)"
      by (simp add: init_connection_def ends_and_then)
  qed
qed

lemma client_main_prepared:
  assumes "\<And>T1 s0. prepared T W (new_client i) (T1, s0) \<Longrightarrow> ends (serve_client T1 W inputs s0) (login_fails_ok W 0) Q"
  shows "ends (client_main T W i None inputs) (login_fails_ok W 0) Q"
proof -
  have calm: "calm 0 (new_client i)" by (simp add: calm_def new_client_def new_session_def)
  have prep: "ends (and_then (prepare_session T W (new_client i)) (\<lambda>(T, s). serve_client T W inputs s)) (login_fails_ok W 0) Q"
    by (rule ends_bindI [OF prepare_session_prepared [OF calm]]) (use assms in auto)
  have tcp: "ends (die ''tcp_wrappers is set to YES but no tcp wrapper support compiled in'' (new_client i) :: (tunables \<times> vsf_session) run)
      (login_fails_ok W 0) R" for R
    by (rule die_login [OF calm]) (simp add: login_dies_def)
  show ?thesis
    unfolding client_main_def new_client_def [symmetric] Let_def ends_and_then [of "load_environment _ _ _ _"]
      load_environment_none using prep tcp by simp
qed

text \<open>C11. The limits on clients are enforced: the process of a client that is over \<open>max_clients\<close> or
  \<open>max_per_ip\<close> by the counts the listener gave it always ends before any command is read, by an exit or a
  failure, without a look in the password files and with no effect on files; and a client within them
  goes on with a line in the log.\<close>

theorem limits_enforced:
  "(refused T i \<longrightarrow> ends (client_main T W i None inputs) (login_fails_ok W 0) (\<lambda>s. False)) \<and>
   (\<not> refused T i \<longrightarrow> check_limits T W (new_client i) = vsf_log_line T W kVSFLogEntryConnection [] (new_client i))"
proof (intro conjI impI)
  assume "refused T i"
  then show "ends (client_main T W i None inputs) (login_fails_ok W 0) (\<lambda>s. False)"
    using serve_client_refused by (blast intro: client_main_prepared)
next
  assume "\<not> refused T i"
  then show "check_limits T W (new_client i) = vsf_log_line T W kVSFLogEntryConnection [] (new_client i)"
    by (intro check_limits_accepts) (auto simp: refused_def new_client_def new_session_def)
qed

lemma limits_enforced_witness:
  "ends (client_main tunables_load_defaults online_os \<lparr>num_children = 2001, launch_this_ip = 1\<rparr> None [Line ''USER ftp''])
     (login_fails_ok online_os 0) (\<lambda>s. False) \<and>
   check_limits tunables_load_defaults online_os (new_client first_client) =
    vsf_log_line tunables_load_defaults online_os kVSFLogEntryConnection [] (new_client first_client)"
  using limits_enforced [of tunables_load_defaults "\<lparr>num_children = 2001, launch_this_ip = 1\<rparr>" online_os "[Line ''USER ftp'']"]
    limits_enforced [of tunables_load_defaults first_client online_os "[]"]
  by (simp_all add: refused_def tunables_load_defaults_def)

subsection \<open>The session before its first command\<close>




subsection \<open>Who gets through\<close>





text \<open>The settings of an anonymous server of one process, and a client of it.\<close>

definition one_process_settings :: tunables where
  "one_process_settings = tunables_load_defaults\<lparr>tunable_one_process_model := True\<rparr>"



subsection \<open>The whole connection\<close>



end
