(* ===== verification/Spec2Isabelle.thy ===== *)
theory Spec2Isabelle
  imports Tpms2_Ideal Tpms2_Prelude Liquid_Analysis State_Machine Fleet_Server Login_Claims
begin

text \<open>
  Verification of the C code of fc-tpms.
\<close>

end
